(* ===== verification/Prelude.thy ===== *)
theory Prelude
  imports Complex_Main "HOL-Library.Word"
begin

text \<open>
  Shared vocabulary of the development: the machine integer types of the C++ sources, the
  result type of operations that can throw or abort, and the list and bit-string lemmas the
  component theories share. The bit-string view of a byte array (most significant bit of
  byte 0 first) is the order in which \<^verbatim>\<open>BitWriter\<close> and \<^verbatim>\<open>BitReader\<close> walk a buffer.
\<close>

unbundle bit_operations_syntax

named_theorems codec_simps \<open>symbolic execution of the bit writer and the bit reader\<close>
named_theorems wf_intros \<open>well-formedness preservation, one rule per operation\<close>

section \<open>Machine integers and results\<close>

type_synonym u8 = "8 word"
type_synonym u16 = "16 word"
type_synonym u32 = "32 word"
type_synonym u64 = "64 word"

text \<open>
  A failing operation yields \<^term>\<open>Inl e\<close>: an exception thrown by the source, a failed
  assertion, or a fatal report. The argument names the failing check.
\<close>

datatype failure =
    AssertFailed string
  | InvalidArgument string
  | RuntimeError string
  | OutOfRange string
  | OverflowError string
  | LogicError string
  | ReportFatal string
  | ReportError string

type_synonym 'a result = "failure + 'a"

definition bindR :: "'a result \<Rightarrow> ('a \<Rightarrow> 'b result) \<Rightarrow> 'b result" where
  "bindR m f = (case m of Inl e \<Rightarrow> Inl e | Inr x \<Rightarrow> f x)"

lemma bindR_Inr [simp]: "bindR (Inr x) f = f x"
  and bindR_Inl [simp]: "bindR (Inl e) f = Inl e"
  by (simp_all add: bindR_def)

lemma bindR_eq_Inr: "bindR m f = Inr y \<longleftrightarrow> (\<exists>x. m = Inr x \<and> f x = Inr y)"
  by (cases m) (simp_all add: bindR_def)

definition check :: "bool \<Rightarrow> failure \<Rightarrow> unit result" where
  "check b e = (if b then Inr () else Inl e)"

lemma check_True [simp]: "check True e = Inr ()"
  and check_False [simp]: "check False e = Inl e"
  by (simp_all add: check_def)

lemma check_eq_Inr [simp]: "check b e = Inr u \<longleftrightarrow> b"
  by (simp add: check_def)

text \<open>
  A Hoare-style view of a result: it is an error that \<open>E\<close> allows, or a value with the property
  \<open>Q\<close>. The rules follow the monadic composition.
\<close>

definition outcome :: "(failure \<Rightarrow> bool) \<Rightarrow> 'a result \<Rightarrow> ('a \<Rightarrow> bool) \<Rightarrow> bool" where
  "outcome E m Q = (case m of Inl e \<Rightarrow> E e | Inr x \<Rightarrow> Q x)"

lemma outcome_simps [simp]: "outcome E (Inr x) Q = Q x" "outcome E (Inl e) Q = E e"
  by (simp_all add: outcome_def)

lemma outcome_bind: "outcome E m Q \<Longrightarrow> (\<And>x. Q x \<Longrightarrow> outcome E (f x) R) \<Longrightarrow> outcome E (bindR m f) R"
  by (cases m) simp_all

lemma outcome_weaken: "outcome E m Q \<Longrightarrow> (\<And>e. E e \<Longrightarrow> E' e) \<Longrightarrow> (\<And>x. Q x \<Longrightarrow> R x) \<Longrightarrow> outcome E' m R"
  by (cases m) simp_all

lemma outcome_if [intro]: "(b \<Longrightarrow> outcome E x Q) \<Longrightarrow> (\<not> b \<Longrightarrow> outcome E y Q) \<Longrightarrow> outcome E (if b then x else y) Q"
  by simp

lemma outcome_Inr_D: "outcome E m Q \<Longrightarrow> m = Inr x \<Longrightarrow> Q x"
  by simp

lemma outcome_Inl_D: "outcome E m Q \<Longrightarrow> m = Inl e \<Longrightarrow> E e"
  by simp

lemma outcome_check: "outcome E (check b e) (\<lambda>_. b) \<longleftrightarrow> b \<or> E e"
  by (cases b) simp_all

text \<open>Addition of two \<^verbatim>\<open>unsigned\<close> (32-bit) values that are kept as natural numbers.\<close>

definition add_u32 :: "nat \<Rightarrow> nat \<Rightarrow> nat" where
  "add_u32 a b = (a + b) mod 2 ^ 32"

lemma add_u32_small [simp]: "a + b < 2 ^ 32 \<Longrightarrow> add_u32 a b = a + b"
  by (simp add: add_u32_def)

lemma unat_u8_less: "unat (x :: u8) < 256"
  and unat_u16_less: "unat (y :: u16) < 65536"
  and unat_u32_less: "unat (z :: u32) < 2 ^ 32"
  and unat_u64_less: "unat (w :: u64) < 2 ^ 64"
  using unsigned_less [of x] unsigned_less [of y] unsigned_less [of z] unsigned_less [of w] by simp_all

section \<open>Indexed loops over lists\<close>

text \<open>A \<^verbatim>\<open>for\<close> loop that stores \<open>f i\<close> at \<open>d + i\<close> for \<open>i < n\<close>.\<close>

definition store_loop :: "nat \<Rightarrow> nat \<Rightarrow> (nat \<Rightarrow> 'a) \<Rightarrow> 'a list \<Rightarrow> 'a list" where
  "store_loop d n f xs = fold (\<lambda>i ys. ys[d + i := f i]) [0..<n] xs"

lemma store_loop_0 [simp]: "store_loop d 0 f xs = xs"
  by (simp add: store_loop_def)

lemma store_loop_Suc: "store_loop d (Suc n) f xs = (store_loop d n f xs)[d + n := f n]"
  by (simp add: store_loop_def)

lemma length_store_loop [simp]: "length (store_loop d n f xs) = length xs"
  by (induction n) (simp_all add: store_loop_Suc)

lemma nth_store_loop:
  "i < length xs \<Longrightarrow>
   store_loop d n f xs ! i = (if d \<le> i \<and> i < d + n then f (i - d) else xs ! i)"
proof (induction n)
  case (Suc n)
  show ?case
    by (cases "i = d + n") (use Suc in \<open>auto simp: store_loop_Suc nth_list_update\<close>)
qed auto

lemma store_loop_eq:
  assumes "d + n \<le> length xs"
  shows "store_loop d n f xs = take d xs @ map f [0..<n] @ drop (d + n) xs"
  using assms by (intro nth_equalityI) (auto simp: nth_store_loop nth_append min_def)

lemma take_store_loop [simp]: "d + n \<le> length xs \<Longrightarrow> take d (store_loop d n f xs) = take d xs"
  by (simp add: store_loop_eq)

lemma drop_store_loop [simp]:
  "d + n \<le> length xs \<Longrightarrow> drop (d + n) (store_loop d n f xs) = drop (d + n) xs"
  by (simp add: store_loop_eq)

lemma take_drop_store_loop [simp]:
  "d + n \<le> length xs \<Longrightarrow> take n (drop d (store_loop d n f xs)) = map f [0..<n]"
  by (simp add: store_loop_eq)

lemma map_nth_take: "n \<le> length xs \<Longrightarrow> map (\<lambda>i. xs ! i) [0..<n] = take n xs"
  by (rule nth_equalityI) auto

lemma map_nth_slice: "d + n \<le> length xs \<Longrightarrow> map (\<lambda>i. xs ! (d + i)) [0..<n] = take n (drop d xs)"
  by (rule nth_equalityI) auto

lemma replicate_eq_map: "replicate n x = map (\<lambda>_. x) [0..<n]"
  by (rule nth_equalityI) auto

lemma append_eq_split:
  "length xs = length ys \<Longrightarrow> xs @ us = ys @ vs \<longleftrightarrow> xs = ys \<and> us = vs"
  by simp

section \<open>Bytes as bit strings\<close>

definition byte_bits :: "u8 \<Rightarrow> bool list" where
  "byte_bits b = map (\<lambda>i. bit b (7 - i)) [0..<8]"

definition bits :: "u8 list \<Rightarrow> bool list" where
  "bits bs = concat (map byte_bits bs)"

lemma length_byte_bits [simp]: "length (byte_bits b) = 8"
  by (simp add: byte_bits_def)

lemma nth_byte_bits [simp]: "i < 8 \<Longrightarrow> byte_bits b ! i = bit b (7 - i)"
  by (simp add: byte_bits_def)

lemma byte_bits_0: "byte_bits 0 = replicate 8 False"
  by (rule nth_equalityI) auto

lemma bits_Nil [simp]: "bits [] = []"
  and bits_Cons: "bits (b # bs) = byte_bits b @ bits bs"
  and bits_append [simp]: "bits (xs @ ys) = bits xs @ bits ys"
  by (simp_all add: bits_def)

lemma length_bits [simp]: "length (bits bs) = 8 * length bs"
  by (induction bs) (simp_all add: bits_Cons)

lemma nth_bits: "j < 8 * length bs \<Longrightarrow> bits bs ! j = bit (bs ! (j div 8)) (7 - j mod 8)"
proof (induction bs arbitrary: j)
  case Nil
  then show ?case by simp
next
  case (Cons b bs)
  show ?case
  proof (cases "j < 8")
    case True
    then show ?thesis by (simp add: bits_Cons nth_append)
  next
    case False
    then obtain k where j: "j = k + 8" by (metis add.commute le_Suc_ex not_less)
    with Cons show ?thesis by (simp add: bits_Cons nth_append)
  qed
qed

lemma bits_replicate_0 [simp]: "bits (replicate n 0) = replicate (8 * n) False"
  by (intro nth_equalityI) (simp_all add: nth_bits)

lemma byte_bits_inject [simp]: "byte_bits a = byte_bits b \<longleftrightarrow> a = b"
proof
  assume eq: "byte_bits a = byte_bits b"
  show "a = b"
  proof (rule bit_word_eqI)
    fix n assume "n < LENGTH(8)"
    then have "byte_bits a ! (7 - n) = bit a n" "byte_bits b ! (7 - n) = bit b n"
      by simp_all
    with eq show "bit a n = bit b n" by simp
  qed
qed simp

lemma bits_inject: "bits xs = bits ys \<Longrightarrow> xs = ys"
proof (induction xs arbitrary: ys)
  case Nil
  then have "length (bits ys) = 0" by (simp flip: Nil)
  then show ?case by simp
next
  case (Cons x xs)
  then have "length (bits ys) = 8 * Suc (length xs)" by (simp flip: Cons.prems add: bits_Cons)
  then obtain y ys' where ys: "ys = y # ys'" by (cases ys) auto
  with Cons show ?case by (auto simp: bits_Cons)
qed

lemma bits_eq_iff: "bits xs = bits ys \<longleftrightarrow> xs = ys"
  by (auto dest: bits_inject)

lemma take_bits: "take (8 * n) (bits bs) = bits (take n bs)"
proof -
  have "take (8 * n) (bits (take n bs @ drop n bs)) = bits (take n bs)"
    by (subst bits_append) (simp add: min_def)
  then show ?thesis by simp
qed

lemma drop_bits: "drop (8 * n) (bits bs) = bits (drop n bs)"
proof -
  have "drop (8 * n) (bits (take n bs @ drop n bs)) = bits (drop n bs)"
    by (subst bits_append) (simp add: min_def)
  then show ?thesis by simp
qed

lemma word_eq_0_iff_bits: "(w :: 'a::len word) = 0 \<longleftrightarrow> (\<forall>i. \<not> bit w i)"
  by (auto intro: bit_word_eqI)

lemma bit_push_bit_one: "n < LENGTH('a) \<Longrightarrow> bit (push_bit m (1 :: 'a::len word)) n \<longleftrightarrow> n = m"
  by (auto simp: bit_exp_iff)

text \<open>The \<open>w\<close> low bits of a value, most significant first.\<close>

definition val_bits :: "nat \<Rightarrow> u64 \<Rightarrow> bool list" where
  "val_bits w v = map (\<lambda>i. bit v (w - 1 - i)) [0..<w]"

lemma length_val_bits [simp]: "length (val_bits w v) = w"
  by (simp add: val_bits_def)

lemma nth_val_bits: "i < w \<Longrightarrow> val_bits w v ! i = bit v (w - 1 - i)"
  by (simp add: val_bits_def)

lemma val_bits_0_width [simp]: "val_bits 0 v = []"
  by (simp add: val_bits_def)

lemma val_bits_Suc: "val_bits (Suc w) v = bit v w # val_bits w v"
  by (rule nth_equalityI) (auto simp: nth_val_bits nth_Cons')

lemma val_bits_zero: "val_bits w 0 = replicate w False"
  by (rule nth_equalityI) (auto simp: nth_val_bits)

lemma val_bits_mask: "w \<le> n \<Longrightarrow> val_bits w (v AND mask n) = val_bits w v"
  by (rule nth_equalityI) (auto simp: nth_val_bits bit_and_iff bit_mask_iff dest: bit_imp_le_length)

lemma val_bits_take_bit [simp]: "val_bits w (take_bit w v) = val_bits w v"
  by (rule nth_equalityI) (auto simp: nth_val_bits bit_take_bit_iff)

text \<open>Reading a bit string back, as the loop of \<^verbatim>\<open>BitReader::get\<close> does.\<close>

definition shift_in :: "u64 \<Rightarrow> bool \<Rightarrow> u64" where
  "shift_in v b = (if b then push_bit 1 v OR 1 else push_bit 1 v)"

definition bits_val :: "bool list \<Rightarrow> u64" where
  "bits_val bs = foldl shift_in 0 bs"

lemma bit_shift_in:
  "n < 64 \<Longrightarrow> bit (shift_in v b) n = (if n = 0 then b else bit v (n - 1))"
proof -
  assume n: "n < 64"
  then have "bit (push_bit 1 v) n \<longleftrightarrow> 0 < n \<and> bit v (n - 1)"
    by (subst bit_push_bit_iff) auto
  then show ?thesis by (auto simp: shift_in_def bit_or_iff bit_1_iff simp del: push_bit_Suc One_nat_def)
qed

lemma bit_foldl_shift_in:
  "n < 64 \<Longrightarrow> bit (foldl shift_in v bs) n =
     (if n < length bs then bs ! (length bs - 1 - n) else bit v (n - length bs))"
proof (induction bs arbitrary: v)
  case Nil
  then show ?case by simp
next
  case (Cons b bs)
  show ?case
  proof (cases "n < length bs")
    case True
    then show ?thesis using Cons by (auto simp: nth_Cons')
  next
    case False
    then have "n - length bs < 64" using Cons.prems by simp
    with False Cons show ?thesis by (auto simp: bit_shift_in nth_Cons')
  qed
qed

lemma bits_val_val_bits [simp]: "w \<le> 64 \<Longrightarrow> bits_val (val_bits w v) = take_bit w v"
  by (rule bit_word_eqI) (auto simp: bits_val_def bit_foldl_shift_in nth_val_bits bit_take_bit_iff)

end
