(* ===== verification/Aou_Types.thy ===== *)
theory Aou_Types
  imports Prelude
begin

text \<open>
  The data types shared by the bridge, \<^verbatim>\<open>axi2flit/systemc/include/aou_types.h\<close>: message
  types and their lengths in 5-byte granules, the header decoding functions, the bit writer and
  bit reader, messages, and the 256-byte flit with its fragment packer. Signed \<^verbatim>\<open>int\<close> fields are
  integers, byte and bit fields are words of their width. Loops store into byte arrays with
  \<^term>\<open>store_loop\<close>. The link budget uses exact rationals for the source's doubles.
\<close>

section \<open>Constants\<close>

definition FLIT_TOTAL_BYTES :: int where "FLIT_TOTAL_BYTES = 256"
definition PROTO_HEADER_BYTES :: int where "PROTO_HEADER_BYTES = 10"
definition PAYLOAD_BYTES :: int where "PAYLOAD_BYTES = 240"
definition GRANULE_BYTES :: int where "GRANULE_BYTES = 5"
definition GRANULE_COUNT :: int where "GRANULE_COUNT = 48"
definition MAX_RESOURCE_PLANES :: nat where "MAX_RESOURCE_PLANES = 4"
definition MSG_MAX_BYTES :: int where "MSG_MAX_BYTES = GRANULE_COUNT * GRANULE_BYTES"

lemmas aou_consts = FLIT_TOTAL_BYTES_def PROTO_HEADER_BYTES_def PAYLOAD_BYTES_def
  GRANULE_BYTES_def GRANULE_COUNT_def MAX_RESOURCE_PLANES_def MSG_MAX_BYTES_def

text \<open>The link parameters of \<^verbatim>\<open>link_config.h\<close> at their default build.\<close>

definition LINK_LANES :: nat where "LINK_LANES = 16"
definition LINK_BITS_PER_SYMBOL :: nat where "LINK_BITS_PER_SYMBOL = 1"
definition LINK_RATE_GTPS :: rat where "LINK_RATE_GTPS = 24"
definition LINK_TAT_NS :: rat where "LINK_TAT_NS = 40"
definition LINK_BYTES_PER_NS :: rat where
  "LINK_BYTES_PER_NS = of_nat LINK_LANES * LINK_RATE_GTPS * of_nat LINK_BITS_PER_SYMBOL / 8"
definition FLIT_PERIOD_NS :: rat where
  "FLIT_PERIOD_NS = of_int FLIT_TOTAL_BYTES / LINK_BYTES_PER_NS"
definition CREDIT_RETURN_OVERHEAD_FLITS :: rat where "CREDIT_RETURN_OVERHEAD_FLITS = 3"
definition CREDIT_LOOP_NS :: rat where
  "CREDIT_LOOP_NS = LINK_TAT_NS + CREDIT_RETURN_OVERHEAD_FLITS * FLIT_PERIOD_NS"
definition FIFO_MARGIN_ENTRIES :: nat where "FIFO_MARGIN_ENTRIES = 4"

section \<open>Message types\<close>

text \<open>
  \<^verbatim>\<open>enum class MsgType : uint8_t\<close>. A four-bit field can also hold the codes 7 to 14, which have
  no enumerator; they are the values \<open>MsgUnnamed c\<close>.
\<close>

datatype msg_type = Misc | WriteReq | ReadReq | WriteData | ReadData | WriteResp
  | WriteDataFull | Reserved | MsgUnnamed u8

definition msg_type_code :: "msg_type \<Rightarrow> u8" where
  "msg_type_code t = (case t of Misc \<Rightarrow> 0 | WriteReq \<Rightarrow> 1 | ReadReq \<Rightarrow> 2 | WriteData \<Rightarrow> 3
     | ReadData \<Rightarrow> 4 | WriteResp \<Rightarrow> 5 | WriteDataFull \<Rightarrow> 6 | Reserved \<Rightarrow> 15 | MsgUnnamed c \<Rightarrow> c)"

text \<open>\<^verbatim>\<open>static_cast<MsgType>\<close> of a byte.\<close>

definition msg_type_cast :: "u8 \<Rightarrow> msg_type" where
  "msg_type_cast c = (if c = 0 then Misc else if c = 1 then WriteReq else if c = 2 then ReadReq
     else if c = 3 then WriteData else if c = 4 then ReadData else if c = 5 then WriteResp
     else if c = 6 then WriteDataFull else if c = 15 then Reserved else MsgUnnamed c)"

definition MISCOP_CRDT_GRANT :: u8 where "MISCOP_CRDT_GRANT = 4"
definition MISCOP_ACTIVATION :: u8 where "MISCOP_ACTIVATION = 0"

text \<open>\<^verbatim>\<open>enum class DataLength : uint8_t\<close>; the code 3 of the two-bit field has no enumerator.\<close>

datatype data_length = B256 | B512 | B1024 | DlUnnamed u8

definition data_length_code :: "data_length \<Rightarrow> u8" where
  "data_length_code d = (case d of B256 \<Rightarrow> 0 | B512 \<Rightarrow> 1 | B1024 \<Rightarrow> 2 | DlUnnamed c \<Rightarrow> c)"

definition data_length_cast :: "u8 \<Rightarrow> data_length" where
  "data_length_cast c =
     (if c = 0 then B256 else if c = 1 then B512 else if c = 2 then B1024 else DlUnnamed c)"

definition dlength_to_bytes :: "data_length \<Rightarrow> int" where
  "dlength_to_bytes d = (case d of B256 \<Rightarrow> 32 | B512 \<Rightarrow> 64 | B1024 \<Rightarrow> 128 | _ \<Rightarrow> 32)"

definition WREQ_GRANULES :: int where "WREQ_GRANULES = 3"
definition RREQ_GRANULES :: int where "RREQ_GRANULES = 3"
definition WRESP_GRANULES :: int where "WRESP_GRANULES = 1"
definition MISC_ACTIVATION_GRANULES :: int where "MISC_ACTIVATION_GRANULES = 1"
definition MISC_CRDTGRANT_GRANULES :: int where "MISC_CRDTGRANT_GRANULES = 2"

definition wdata_granules :: "data_length \<Rightarrow> int" where
  "wdata_granules d = (case d of B256 \<Rightarrow> 8 | B512 \<Rightarrow> 15 | B1024 \<Rightarrow> 30 | _ \<Rightarrow> 8)"

definition wdatafull_granules :: "data_length \<Rightarrow> int" where
  "wdatafull_granules d = (case d of B256 \<Rightarrow> 7 | B512 \<Rightarrow> 14 | B1024 \<Rightarrow> 27 | _ \<Rightarrow> 7)"

definition rdata_granules :: "data_length \<Rightarrow> int" where
  "rdata_granules d = (case d of B256 \<Rightarrow> 8 | B512 \<Rightarrow> 14 | B1024 \<Rightarrow> 27 | _ \<Rightarrow> 8)"

lemmas granule_defs = WREQ_GRANULES_def RREQ_GRANULES_def WRESP_GRANULES_def
  MISC_ACTIVATION_GRANULES_def MISC_CRDTGRANT_GRANULES_def
  wdata_granules_def wdatafull_granules_def rdata_granules_def

definition msg_type_of :: "u8 \<Rightarrow> msg_type" where
  "msg_type_of b0 = msg_type_cast (drop_bit 4 b0 AND 15)"

definition msg_rp_of :: "u8 \<Rightarrow> u8" where
  "msg_rp_of b0 = drop_bit 2 b0 AND 3"

definition msg_dlength_of :: "u8 \<Rightarrow> data_length" where
  "msg_dlength_of b0 = data_length_cast (b0 AND 3)"

definition misc_op_of :: "u8 \<Rightarrow> u8" where
  "misc_op_of b0 = drop_bit 1 b0 AND 7"

definition message_granules_from_header :: "u8 \<Rightarrow> int" where
  "message_granules_from_header b0 =
     (if (msg_type_of b0 = WriteData \<or> msg_type_of b0 = WriteDataFull
          \<or> msg_type_of b0 = ReadData) \<and> b0 AND 3 = 3 then 0
      else case msg_type_of b0 of
          WriteReq \<Rightarrow> WREQ_GRANULES
        | ReadReq \<Rightarrow> RREQ_GRANULES
        | WriteResp \<Rightarrow> WRESP_GRANULES
        | WriteData \<Rightarrow> wdata_granules (msg_dlength_of b0)
        | WriteDataFull \<Rightarrow> wdatafull_granules (msg_dlength_of b0)
        | ReadData \<Rightarrow> rdata_granules (msg_dlength_of b0)
        | Misc \<Rightarrow> (if misc_op_of b0 = MISCOP_CRDT_GRANT then MISC_CRDTGRANT_GRANULES
                  else if misc_op_of b0 = MISCOP_ACTIVATION then MISC_ACTIVATION_GRANULES else 0)
        | _ \<Rightarrow> 0)"

section \<open>Capacities derived from the credit loop\<close>

definition message_wire_bytes :: "int \<Rightarrow> rat" where
  "message_wire_bytes granules =
     of_int (granules * GRANULE_BYTES) * of_int FLIT_TOTAL_BYTES / of_int PAYLOAD_BYTES"

definition messages_in_flight :: "int \<Rightarrow> nat" where
  "messages_in_flight granules =
     nat \<lfloor>CREDIT_LOOP_NS * LINK_BYTES_PER_NS / message_wire_bytes granules\<rfloor> + 1"

definition CREDIT_LOOP_CYCLES :: nat where
  "CREDIT_LOOP_CYCLES = nat \<lfloor>CREDIT_LOOP_NS / 2\<rfloor>"

definition RX_RDATA_FIFO_DEPTH_PER_RP :: "data_length \<Rightarrow> nat" where
  "RX_RDATA_FIFO_DEPTH_PER_RP dl = messages_in_flight (rdata_granules dl) + FIFO_MARGIN_ENTRIES"

definition RX_WRESP_FIFO_DEPTH_PER_RP :: nat where
  "RX_WRESP_FIFO_DEPTH_PER_RP = CREDIT_LOOP_CYCLES + FIFO_MARGIN_ENTRIES"

definition RX_RDATA_CREDITS_PER_RP :: "data_length \<Rightarrow> nat" where
  "RX_RDATA_CREDITS_PER_RP dl = RX_RDATA_FIFO_DEPTH_PER_RP dl * nat (rdata_granules dl)"

definition RX_WRESP_CREDITS_PER_RP :: nat where
  "RX_WRESP_CREDITS_PER_RP = RX_WRESP_FIFO_DEPTH_PER_RP * nat WRESP_GRANULES"

definition TX_REQ_FIFO_DEPTH_PER_RP :: nat where "TX_REQ_FIFO_DEPTH_PER_RP = 16"
definition TX_WDATA_FIFO_DEPTH_PER_RP :: nat where "TX_WDATA_FIFO_DEPTH_PER_RP = 16"

lemmas link_budget_defs = LINK_LANES_def LINK_BITS_PER_SYMBOL_def LINK_RATE_GTPS_def
  LINK_TAT_NS_def LINK_BYTES_PER_NS_def FLIT_PERIOD_NS_def CREDIT_RETURN_OVERHEAD_FLITS_def
  CREDIT_LOOP_NS_def FIFO_MARGIN_ENTRIES_def message_wire_bytes_def messages_in_flight_def
  CREDIT_LOOP_CYCLES_def RX_RDATA_FIFO_DEPTH_PER_RP_def RX_WRESP_FIFO_DEPTH_PER_RP_def
  RX_RDATA_CREDITS_PER_RP_def RX_WRESP_CREDITS_PER_RP_def

lemma floor_budget_1024: "\<lfloor>56 / 3 :: rat\<rfloor> = 18"
  by (rule floor_unique) simp_all

lemma rx_rdata_fifo_depth:
  "RX_RDATA_FIFO_DEPTH_PER_RP B256 = 68"
  "RX_RDATA_FIFO_DEPTH_PER_RP B512 = 41"
  "RX_RDATA_FIFO_DEPTH_PER_RP B1024 = 23"
  by (simp_all add: link_budget_defs granule_defs aou_consts floor_budget_1024)

lemma rx_wresp_fifo_depth: "RX_WRESP_FIFO_DEPTH_PER_RP = 32"
  by (simp add: link_budget_defs aou_consts)

end
