(* ===== verification/Bit_Codec.thy ===== *)
theory Bit_Codec
  imports Aou_Types
begin

text \<open>
  \<^verbatim>\<open>BitWriter\<close> and \<^verbatim>\<open>BitReader\<close> of \<^verbatim>\<open>aou_types.h\<close>. Both walk a byte buffer from its most
  significant bit. \<open>bw_of n xs\<close> is the writer over an \<open>n\<close>-byte buffer that has emitted exactly the
  bits \<open>xs\<close>; \<open>br_of pre rest\<close> is the reader that has consumed \<open>pre\<close> and still has \<open>rest\<close> to read.
  The \<open>codec_simps\<close> execute the two classes on these symbolic states.
\<close>

section \<open>The two classes\<close>

record bit_writer =
  bw_dst :: "u8 list"
  bw_bit :: nat

definition bw_step :: "u64 \<Rightarrow> nat \<Rightarrow> nat \<Rightarrow> bit_writer \<Rightarrow> bit_writer" where
  "bw_step value width i w =
     (let w' = (if drop_bit (width - 1 - i) value AND 1 \<noteq> 0
                then w\<lparr>bw_dst := (bw_dst w)[bw_bit w div 8 :=
                        bw_dst w ! (bw_bit w div 8) OR push_bit (7 - bw_bit w mod 8) 1]\<rparr>
                else w)
      in w'\<lparr>bw_bit := bw_bit w + 1\<rparr>)"

definition bw_put :: "bit_writer \<Rightarrow> u64 \<Rightarrow> nat \<Rightarrow> bit_writer" where
  "bw_put w value width = fold (bw_step value width) [0..<width] w"

definition bw_skip :: "bit_writer \<Rightarrow> nat \<Rightarrow> bit_writer" where
  "bw_skip w width = w\<lparr>bw_bit := bw_bit w + width\<rparr>"

text \<open>\<^verbatim>\<open>sc_assert((bit_ & 7) == 0)\<close>, then a copy of \<open>n\<close> bytes.\<close>

definition bw_put_bytes :: "bit_writer \<Rightarrow> u8 list \<Rightarrow> nat \<Rightarrow> bit_writer result" where
  "bw_put_bytes w src n =
     (if bw_bit w mod 8 = 0
      then Inr (w\<lparr>bw_dst := store_loop (bw_bit w div 8) n (\<lambda>i. src ! i) (bw_dst w),
                  bw_bit := bw_bit w + n * 8\<rparr>)
      else Inl (AssertFailed ''BitWriter alignment''))"

definition bw_put_bytes_msb_first :: "bit_writer \<Rightarrow> u8 list \<Rightarrow> nat \<Rightarrow> bit_writer result" where
  "bw_put_bytes_msb_first w src n =
     (if bw_bit w mod 8 = 0
      then Inr (w\<lparr>bw_dst := store_loop (bw_bit w div 8) n (\<lambda>i. src ! (n - 1 - i)) (bw_dst w),
                  bw_bit := bw_bit w + n * 8\<rparr>)
      else Inl (AssertFailed ''BitWriter alignment''))"

record bit_reader =
  br_src :: "u8 list"
  br_bit :: nat

definition br_step :: "u64 \<times> bit_reader \<Rightarrow> u64 \<times> bit_reader" where
  "br_step vr =
     (let v = push_bit 1 (fst vr); r = snd vr
      in (if br_src r ! (br_bit r div 8) AND push_bit (7 - br_bit r mod 8) 1 \<noteq> 0
          then v OR 1 else v, r\<lparr>br_bit := br_bit r + 1\<rparr>))"

definition br_get :: "bit_reader \<Rightarrow> nat \<Rightarrow> u64 \<times> bit_reader" where
  "br_get r width = (br_step ^^ width) (0, r)"

definition br_skip :: "bit_reader \<Rightarrow> nat \<Rightarrow> bit_reader" where
  "br_skip r width = r\<lparr>br_bit := br_bit r + width\<rparr>"

definition br_get_bytes :: "bit_reader \<Rightarrow> nat \<Rightarrow> (u8 list \<times> bit_reader) result" where
  "br_get_bytes r n =
     (if br_bit r mod 8 = 0
      then Inr (map (\<lambda>i. br_src r ! (br_bit r div 8 + i)) [0..<n], r\<lparr>br_bit := br_bit r + n * 8\<rparr>)
      else Inl (AssertFailed ''BitReader alignment''))"

text \<open>Byte \<open>i\<close> on the wire goes to \<open>dst[n - 1 - i]\<close>, for a destination of exactly \<open>n\<close> bytes.\<close>

definition br_get_bytes_msb_first :: "bit_reader \<Rightarrow> nat \<Rightarrow> (u8 list \<times> bit_reader) result" where
  "br_get_bytes_msb_first r n =
     (if br_bit r mod 8 = 0
      then Inr (rev (map (\<lambda>i. br_src r ! (br_bit r div 8 + i)) [0..<n]),
                r\<lparr>br_bit := br_bit r + n * 8\<rparr>)
      else Inl (AssertFailed ''BitReader alignment''))"

section \<open>Byte buffers from bit strings\<close>

definition bytes_of :: "bool list \<Rightarrow> u8 list" where
  "bytes_of xs =
     map (\<lambda>k. horner_sum of_bool 2 (rev (take 8 (drop (8 * k) xs)))) [0..<length xs div 8]"

lemma length_bytes_of [simp]: "length (bytes_of xs) = length xs div 8"
  by (simp add: bytes_of_def)

lemma bits_bytes_of [simp]:
  assumes "8 dvd length xs"
  shows "bits (bytes_of xs) = xs"
proof (rule nth_equalityI)
  show len: "length (bits (bytes_of xs)) = length xs" using assms by simp
  fix j assume "j < length (bits (bytes_of xs))"
  then have j: "j < length xs" using len by simp
  then have "j div 8 < length xs div 8" using assms by (auto elim!: dvdE)
  moreover have "8 * (j div 8) + 7 < length xs" using j assms by presburger
  moreover have "7 - (7 - j mod 8) = j mod 8" by (simp add: Suc_leI diff_diff_right)
  moreover have "7 - j mod 8 < 8" by simp
  ultimately show "bits (bytes_of xs) ! j = xs ! j"
    using j assms by (simp add: nth_bits bytes_of_def bit_horner_sum_bit_word_iff rev_nth)
qed

lemma bytes_of_bits [simp]: "bytes_of (bits bs) = bs"
  by (rule bits_inject) simp

lemma bit_bytes_of:
  "k < length xs div 8 \<Longrightarrow> bit (bytes_of xs ! k) i \<longleftrightarrow> i < 8 \<and> xs ! (8 * k + 7 - i)"
  by (auto simp: bytes_of_def bit_horner_sum_bit_word_iff rev_nth min_def)

lemma drop_bytes_of: "drop k (bytes_of xs) = bytes_of (drop (8 * k) xs)"
proof (rule nth_equalityI)
  show "length (drop k (bytes_of xs)) = length (bytes_of (drop (8 * k) xs))"
    by simp
next
  fix i assume i: "i < length (drop k (bytes_of xs))"
  then have "i < (length xs - 8 * k) div 8" "i + k < length xs div 8" by simp_all
  with i show "drop k (bytes_of xs) ! i = bytes_of (drop (8 * k) xs) ! i"
    by (simp add: bytes_of_def add.commute distrib_left del: div_diff)
qed

lemma bytes_of_zeros [simp]: "bytes_of (replicate n False) = replicate (n div 8) 0"
proof (rule nth_equalityI)
  fix i assume i: "i < length (bytes_of (replicate n False))"
  then have "8 * i + 7 < n" by simp
  with i show "bytes_of (replicate n False) ! i = replicate (n div 8) 0 ! i"
    by (intro bit_word_eqI) (simp add: bit_bytes_of)
qed simp

text \<open>The fields of a header byte that was written as four, two and two bits.\<close>

lemma header_byte_fields:
  fixes t r d :: u64
  assumes "xs = val_bits 4 t @ val_bits 2 r @ val_bits 2 d @ ys"
  shows "drop_bit 4 (bytes_of xs ! 0) AND 15 = ucast (t AND 15)"
    "drop_bit 2 (bytes_of xs ! 0) AND 3 = ucast (r AND 3)"
    "bytes_of xs ! 0 AND 3 = ucast (d AND 3)"
proof -
  have m: "(15 :: 'a::len word) = mask 4" "(3 :: 'a word) = mask 2" by (simp_all add: mask_eq_exp_minus_1)
  define b where "b = bytes_of xs ! 0"
  have b: "bit b i \<longleftrightarrow> i < 8 \<and> xs ! (7 - i)" for i
    using bit_bytes_of [of 0 xs i] assms by (simp add: b_def)
  have n: "i < 4 \<Longrightarrow> xs ! (3 - i) = bit t i" "i < 2 \<Longrightarrow> xs ! (5 - i) = bit r i" "i < 2 \<Longrightarrow> xs ! (7 - i) = bit d i" for i
    by (auto simp: assms nth_append nth_val_bits)
  show "drop_bit 4 b AND 15 = ucast (t AND 15)" "drop_bit 2 b AND 3 = ucast (r AND 3)"
    "b AND 3 = ucast (d AND 3)"
    unfolding m by (rule bit_word_eqI, auto simp: b n bit_simps)+
qed
text \<open>The same for the header byte of a miscellaneous message: type, opcode, and one more bit.\<close>

lemma misc_byte_fields:
  fixes t op :: u64
  assumes "xs = val_bits 4 t @ val_bits 3 op @ x # ys"
  shows "drop_bit 4 (bytes_of xs ! 0) AND 15 = ucast (t AND 15)"
    "drop_bit 1 (bytes_of xs ! 0) AND 7 = ucast (op AND 7)"
proof -
  have m: "(15 :: 'a::len word) = mask 4" "(7 :: 'a word) = mask 3" by (simp_all add: mask_eq_exp_minus_1)
  define b where "b = bytes_of xs ! 0"
  have b: "bit b i \<longleftrightarrow> i < 8 \<and> xs ! (7 - i)" for i
    using bit_bytes_of [of 0 xs i] assms by (simp add: b_def)
  have n: "i < 4 \<Longrightarrow> xs ! (3 - i) = bit t i" "i < 3 \<Longrightarrow> xs ! (6 - i) = bit op i" for i
    by (auto simp: assms nth_append nth_val_bits)
  show "drop_bit 4 b AND 15 = ucast (t AND 15)" "drop_bit 1 b AND 7 = ucast (op AND 7)"
    unfolding m by (rule bit_word_eqI, auto simp: b n bit_simps)+
qed

lemma bytes_of_eqI: "bits bs = xs \<Longrightarrow> bs = bytes_of xs"
  by auto

section \<open>Symbolic execution\<close>

definition bw_of :: "nat \<Rightarrow> bool list \<Rightarrow> bit_writer" where
  "bw_of n xs = \<lparr>bw_dst = bytes_of (xs @ replicate (8 * n - length xs) False), bw_bit = length xs\<rparr>"

lemma bw_bit_bw_of [simp]: "bw_bit (bw_of n xs) = length xs"
  by (simp add: bw_of_def)

lemma bits_bw_dst:
  "length xs \<le> 8 * n \<Longrightarrow> bits (bw_dst (bw_of n xs)) = xs @ replicate (8 * n - length xs) False"
  by (simp add: bw_of_def)

lemma length_bw_dst [simp]: "length xs \<le> 8 * n \<Longrightarrow> length (bw_dst (bw_of n xs)) = n"
  by (simp add: bw_of_def)

lemma bw_eqI:
  assumes "bits (bw_dst w) = xs @ replicate (8 * n - length xs) False" "bw_bit w = length xs"
  shows "w = bw_of n xs"
  using assms by (cases w) (simp add: bw_of_def bytes_of_eqI)

lemma bw_init [codec_simps]: "\<lparr>bw_dst = replicate n 0, bw_bit = 0\<rparr> = bw_of n []"
  by (rule bw_eqI) simp_all

lemma bits_or_bit:
  assumes "l < 8 * length d"
  shows "bits (d[l div 8 := d ! (l div 8) OR push_bit (7 - l mod 8) 1]) = (bits d)[l := True]"
    (is "bits ?e = _")
proof (rule nth_equalityI)
  fix j assume "j < length (bits ?e)"
  then have j: "j < 8 * length d" by simp
  then have jd: "j div 8 < length d" by linarith
  show "bits ?e ! j = (bits d)[l := True] ! j"
  proof (cases "j div 8 = l div 8")
    case True
    have "j mod 8 \<le> 7" "l mod 8 \<le> 7" by simp_all
    moreover have "j = l \<longleftrightarrow> j mod 8 = l mod 8" using True by (metis div_mult_mod_eq)
    ultimately have same: "j = l \<longleftrightarrow> 7 - j mod 8 = 7 - l mod 8" by linarith
    have "7 - j mod 8 < LENGTH(8)" by simp
    then have "bit (d ! (l div 8) OR push_bit (7 - l mod 8) 1) (7 - j mod 8) =
        (bit (d ! (l div 8)) (7 - j mod 8) \<or> 7 - j mod 8 = 7 - l mod 8)"
      by (simp only: bit_or_iff bit_push_bit_one)
    moreover have "?e ! (j div 8) = d ! (l div 8) OR push_bit (7 - l mod 8) 1"
      using True jd by simp
    ultimately have "bits ?e ! j = (bit (d ! (l div 8)) (7 - j mod 8) \<or> 7 - j mod 8 = 7 - l mod 8)"
      using j by (simp only: nth_bits length_list_update)
    also have "\<dots> = (bits d)[l := True] ! j"
      using True j same by (auto simp: nth_list_update nth_bits)
    finally show ?thesis .
  next
    case False
    then show ?thesis using j by (auto simp: nth_bits nth_list_update)
  qed
qed simp

lemma bw_step_bw_of:
  assumes i: "i < width" and room: "length xs < 8 * n"
  shows "bw_step v width i (bw_of n xs) = bw_of n (xs @ [bit v (width - 1 - i)])"
proof (rule bw_eqI)
  let ?d = "bw_dst (bw_of n xs)" and ?l = "length xs"
  have dst: "bits ?d = xs @ replicate (8 * n - ?l) False" and len: "length ?d = n"
    using room by (simp_all add: bits_bw_dst)
  have tst: "drop_bit (width - 1 - i) v AND 1 \<noteq> 0 \<longleftrightarrow> bit v (width - 1 - i)"
    by (simp add: bit_iff_odd_drop_bit and_one_eq odd_iff_mod_2_eq_one)
  have rep: "replicate (8 * n - ?l) False = False # replicate (8 * n - Suc ?l) False"
    using room by (metis Suc_diff_Suc replicate_Suc)
  have set_bit: "bits (?d[?l div 8 := ?d ! (?l div 8) OR push_bit (7 - ?l mod 8) 1]) =
      xs @ True # replicate (8 * n - Suc ?l) False"
    using room len by (subst bits_or_bit) (simp_all add: dst rep list_update_append)
  show "bits (bw_dst (bw_step v width i (bw_of n xs))) =
      (xs @ [bit v (width - 1 - i)]) @
      replicate (8 * n - length (xs @ [bit v (width - 1 - i)])) False"
    unfolding bw_step_def Let_def tst using set_bit dst rep by simp
qed (simp add: bw_step_def Let_def)

lemma bw_fold_bw_of:
  assumes "k \<le> width" "length xs + k \<le> 8 * n"
  shows "fold (bw_step v width) [0..<k] (bw_of n xs) =
         bw_of n (xs @ map (\<lambda>i. bit v (width - 1 - i)) [0..<k])"
  using assms
proof (induction k)
  case (Suc k)
  then show ?case by (simp add: bw_step_bw_of)
qed simp

lemma bw_put_bw_of [codec_simps]:
  "length xs + k \<le> 8 * n \<Longrightarrow> bw_put (bw_of n xs) v k = bw_of n (xs @ val_bits k v)"
  by (simp add: bw_put_def bw_fold_bw_of val_bits_def)

lemma bw_skip_bw_of [codec_simps]:
  "length xs + k \<le> 8 * n \<Longrightarrow> bw_skip (bw_of n xs) k = bw_of n (xs @ replicate k False)"
  by (rule bw_eqI) (simp_all add: bw_skip_def bits_bw_dst flip: replicate_add)

lemma bw_store_bw_of:
  assumes dvd: "8 dvd length xs" and room: "length xs + 8 * k \<le> 8 * n" and src: "length bs = k"
  shows "(bw_of n xs)\<lparr>bw_dst := store_loop (length xs div 8) k (\<lambda>i. bs ! i) (bw_dst (bw_of n xs)),
           bw_bit := length xs + k * 8\<rparr> = bw_of n (xs @ bits bs)"
proof (rule bw_eqI)
  let ?d = "bw_dst (bw_of n xs)" and ?p = "length xs div 8"
  have p: "8 * ?p = length xs" using dvd by simp
  then have fits: "?p + k \<le> length ?d" using room by simp
  have "bits (take ?p ?d) = take (8 * ?p) (bits ?d)" by (simp only: take_bits)
  also have "\<dots> = xs" using p room by (simp add: bits_bw_dst)
  finally have pre: "bits (take ?p ?d) = xs" .
  have "bits (drop (?p + k) ?d) = drop (8 * (?p + k)) (bits ?d)" by (simp only: drop_bits)
  also have "\<dots> = replicate (8 * n - (length xs + 8 * k)) False"
    using p room by (simp add: bits_bw_dst distrib_left)
  finally have post: "bits (drop (?p + k) ?d) = replicate (8 * n - (length xs + 8 * k)) False" .
  have mid: "map (\<lambda>i. bs ! i) [0..<k] = bs" using src map_nth by blast
  show "bits (bw_dst ((bw_of n xs)\<lparr>bw_dst := store_loop ?p k (\<lambda>i. bs ! i) ?d,
           bw_bit := length xs + k * 8\<rparr>)) = (xs @ bits bs) @ replicate (8 * n - length (xs @ bits bs)) False"
    using fits pre post mid src by (simp add: store_loop_eq)
qed (use src in simp)

lemma bw_put_bytes_bw_of [codec_simps]:
  assumes "8 dvd length xs" "length xs + 8 * k \<le> 8 * n" "length bs = k"
  shows "bw_put_bytes (bw_of n xs) bs k = Inr (bw_of n (xs @ bits bs))"
  using assms bw_store_bw_of[OF assms] by (simp add: bw_put_bytes_def mod_eq_0_iff_dvd)

lemma bw_put_bytes_msb_first_bw_of [codec_simps]:
  assumes dvd: "8 dvd length xs" and room: "length xs + 8 * k \<le> 8 * n" and len: "length bs = k"
  shows "bw_put_bytes_msb_first (bw_of n xs) bs k = Inr (bw_of n (xs @ bits (rev bs)))"
proof -
  let ?d = "bw_dst (bw_of n xs)" and ?p = "length xs div 8"
  have "8 * ?p = length xs" using dvd by simp
  then have fits: "?p + k \<le> length ?d" using room by simp
  have "map (\<lambda>i. bs ! (k - Suc i)) [0..<k] = map (\<lambda>i. rev bs ! i) [0..<k]"
    using len by (simp add: rev_nth)
  then have "store_loop ?p k (\<lambda>i. bs ! (k - 1 - i)) ?d = store_loop ?p k (\<lambda>i. rev bs ! i) ?d"
    using fits by (simp add: store_loop_eq)
  moreover have "length (rev bs) = k" using len by simp
  ultimately show ?thesis
    using bw_store_bw_of[OF dvd room, of "rev bs"] dvd
    by (simp add: bw_put_bytes_msb_first_def mod_eq_0_iff_dvd)
qed

definition br_of :: "bool list \<Rightarrow> bool list \<Rightarrow> bit_reader" where
  "br_of pre rest = \<lparr>br_src = bytes_of (pre @ rest), br_bit = length pre\<rparr>"

lemma br_bit_br_of [simp]: "br_bit (br_of pre rest) = length pre"
  by (simp add: br_of_def)

lemma br_init: "\<lparr>br_src = bs, br_bit = 0\<rparr> = br_of [] (bits bs)"
  by (simp add: br_of_def)

lemma br_skip_br_of [codec_simps]:
  "length xs = k \<Longrightarrow> br_skip (br_of pre (xs @ rest)) k = br_of (pre @ xs) rest"
  by (simp add: br_skip_def br_of_def)

lemma br_step_br_of:
  assumes dvd: "8 dvd length pre + Suc (length rest)"
  shows "br_step (v, br_of pre (b # rest)) = (shift_in v b, br_of (pre @ [b]) rest)"
proof -
  let ?s = "bytes_of (pre @ b # rest)" and ?l = "length pre"
  have l8: "?l < 8 * length ?s" using dvd by (auto elim!: dvdE)
  have "bits ?s ! ?l = b" using dvd by simp
  then have "bit (?s ! (?l div 8)) (7 - ?l mod 8) = b"
    using l8 by (simp add: nth_bits)
  then have "?s ! (?l div 8) AND push_bit (7 - ?l mod 8) 1 \<noteq> 0 \<longleftrightarrow> b"
    by (simp only: bit_iff_and_push_bit_not_eq_0)
  then show ?thesis
    by (simp add: br_step_def br_of_def shift_in_def Let_def)
qed

lemma br_fold_br_of:
  "8 dvd length pre + length xs + length rest \<Longrightarrow>
   (br_step ^^ length xs) (v, br_of pre (xs @ rest)) =
     (foldl shift_in v xs, br_of (pre @ xs) rest)"
proof (induction xs arbitrary: pre v)
  case (Cons x xs)
  then have "br_step (v, br_of pre (x # xs @ rest)) =
      (shift_in v x, br_of (pre @ [x]) (xs @ rest))"
    by (simp add: br_step_br_of add.assoc)
  with Cons show ?case by (simp add: funpow_Suc_right del: funpow.simps)
qed simp

lemma br_get_br_of [codec_simps]:
  assumes "k \<le> 64" "8 dvd length pre + k + length rest"
  shows "br_get (br_of pre (val_bits k v @ rest)) k = (take_bit k v, br_of (pre @ val_bits k v) rest)"
proof -
  have dvd: "8 dvd length pre + length (val_bits k v) + length rest" using assms by simp
  have "(br_step ^^ k) (0, br_of pre (val_bits k v @ rest)) =
      (foldl shift_in 0 (val_bits k v), br_of (pre @ val_bits k v) rest)"
    using br_fold_br_of[OF dvd, of 0] by simp
  also have "foldl shift_in 0 (val_bits k v) = take_bit k v"
    using assms(1) bits_val_val_bits[of k v] by (simp add: bits_val_def)
  finally show ?thesis by (simp only: br_get_def)
qed

lemma br_bytes_br_of:
  assumes "8 dvd length pre" "8 dvd length rest" "length bs = k"
  shows "map (\<lambda>i. br_src (br_of pre (bits bs @ rest)) ! (length pre div 8 + i)) [0..<k] = bs"
proof -
  let ?s = "bytes_of (pre @ bits bs @ rest)" and ?p = "length pre div 8"
  have p: "8 * ?p = length pre" using assms(1) by simp
  have dv: "8 dvd length (pre @ bits bs @ rest)" using assms by simp
  have "length (pre @ bits bs @ rest) = 8 * ?p + 8 * k + 8 * (length rest div 8)"
    using p assms by simp
  then have fits: "?p + k \<le> length ?s" by (simp del: length_append)
  have "bits (take k (drop ?p ?s)) = take (8 * k) (drop (8 * ?p) (bits ?s))"
    by (simp only: take_bits drop_bits)
  also have "\<dots> = bits bs" using p assms dv by simp
  finally have "take k (drop ?p ?s) = bs" by (rule bits_inject)
  with fits show ?thesis by (simp add: br_of_def map_nth_slice)
qed

lemma br_get_bytes_br_of [codec_simps]:
  assumes "8 dvd length pre" "8 dvd length rest" "length bs = k"
  shows "br_get_bytes (br_of pre (bits bs @ rest)) k = Inr (bs, br_of (pre @ bits bs) rest)"
  using br_bytes_br_of[OF assms] assms
  by (simp add: br_get_bytes_def mod_eq_0_iff_dvd) (simp add: br_of_def)

lemma br_get_bytes_msb_first_br_of [codec_simps]:
  assumes "8 dvd length pre" "8 dvd length rest" "length bs = k"
  shows "br_get_bytes_msb_first (br_of pre (bits bs @ rest)) k =
         Inr (rev bs, br_of (pre @ bits bs) rest)"
  using br_bytes_br_of[OF assms] assms
  by (simp add: br_get_bytes_msb_first_def mod_eq_0_iff_dvd) (simp add: br_of_def)

end
