(* ===== verification/Aou_Flit.thy ===== *)
theory Aou_Flit
  imports Bit_Codec
begin

text \<open>
  \<^verbatim>\<open>AouMessage\<close>, \<^verbatim>\<open>AouFlit\<close> and \<^verbatim>\<open>FlitTransfer\<close> of \<^verbatim>\<open>aou_types.h\<close>. A flit is filled by
  \<^verbatim>\<open>pack_fragment\<close>, which copies the next granules of a message behind the granules already
  used. \<open>flit_layout f c ps\<close> describes what a filled flit holds: the rest of a message \<open>c\<close> cut by
  the previous flit, then the pieces \<open>ps\<close>; the lemmas show that packing keeps this shape.
\<close>

section \<open>Messages and flits\<close>

record aou_message =
  am_type :: msg_type
  am_rp :: u8
  am_granules :: int
  am_byte_len :: int
  am_data :: "u8 list"
  am_axi_id :: u32
  am_axi_addr :: u64

definition aou_message0 :: aou_message where
  "aou_message0 = \<lparr>am_type = Misc, am_rp = 0, am_granules = 0, am_byte_len = 0,
     am_data = replicate (nat MSG_MAX_BYTES) 0, am_axi_id = 0, am_axi_addr = 0\<rparr>"

record aou_flit =
  fl_fdid :: u8
  fl_msg_start :: u64
  fl_msg_credit :: u16
  fl_payload :: "u8 list"
  fl_used_granules :: int
  fl_valid :: bool

definition aou_flit0 :: aou_flit where
  "aou_flit0 = \<lparr>fl_fdid = 0, fl_msg_start = 0, fl_msg_credit = 0,
     fl_payload = replicate (nat PAYLOAD_BYTES) 0, fl_used_granules = 0, fl_valid = False\<rparr>"

definition pack_fragment :: "aou_flit \<Rightarrow> aou_message \<Rightarrow> int \<Rightarrow> aou_flit \<times> int" where
  "pack_fragment f msg granule_offset =
     (if am_granules msg \<le> 0 \<or> granule_offset < 0 \<or> granule_offset \<ge> am_granules msg then (f, 0)
      else
        let remain_msg = am_granules msg - granule_offset;
            remain_flit = GRANULE_COUNT - fl_used_granules f;
            taken = min remain_msg remain_flit
        in if taken \<le> 0 then (f, 0)
           else
             let dst = fl_used_granules f * GRANULE_BYTES;
                 src = granule_offset * GRANULE_BYTES
             in (f\<lparr>fl_msg_start := (if granule_offset = 0
                     then fl_msg_start f OR push_bit (nat (fl_used_granules f)) 1
                     else fl_msg_start f),
                   fl_payload := store_loop (nat dst) (nat (taken * GRANULE_BYTES))
                     (\<lambda>i. if src + int i < am_byte_len msg then am_data msg ! nat (src + int i) else 0)
                     (fl_payload f),
                   fl_used_granules := fl_used_granules f + taken,
                   fl_valid := True\<rparr>, taken))"

definition pack_message :: "aou_flit \<Rightarrow> aou_message \<Rightarrow> aou_flit \<times> bool" where
  "pack_message f msg =
     (if am_granules msg \<le> 0 \<or> am_byte_len msg < 0
         \<or> am_byte_len msg > am_granules msg * GRANULE_BYTES
         \<or> am_byte_len msg > MSG_MAX_BYTES
         \<or> fl_used_granules f + am_granules msg > GRANULE_COUNT then (f, False)
      else let (f', taken) = pack_fragment f msg 0 in (f', taken = am_granules msg))"

definition remaining_granules :: "aou_flit \<Rightarrow> int" where
  "remaining_granules f = GRANULE_COUNT - fl_used_granules f"

definition clear_flit :: "aou_flit \<Rightarrow> aou_flit" where
  "clear_flit f = f\<lparr>fl_fdid := 0, fl_msg_start := 0, fl_msg_credit := 0, fl_used_granules := 0,
     fl_valid := False, fl_payload := map (\<lambda>_. 0) (fl_payload f)\<rparr>"

lemma clear_flit_eq: "length (fl_payload f) = 240 \<Longrightarrow> clear_flit f = aou_flit0"
  by (simp add: clear_flit_def aou_flit0_def aou_consts map_replicate_const)

record flit_transfer =
  ft_valid :: bool
  ft_flit :: aou_flit

definition flit_transfer0 :: flit_transfer where
  "flit_transfer0 = \<lparr>ft_valid = False, ft_flit = aou_flit0\<rparr>"

definition flit_transfer_of :: "aou_flit \<Rightarrow> flit_transfer" where
  "flit_transfer_of f = \<lparr>ft_valid = True, ft_flit = f\<rparr>"

section \<open>Well-formed messages\<close>

text \<open>
  A message whose first byte announces its own type and length, and whose buffer is zero
  behind its last granule. Every message the builders produce is one.
\<close>

definition wf_msg :: "aou_message \<Rightarrow> bool" where
  "wf_msg m \<longleftrightarrow>
     length (am_data m) = 240 \<and>
     0 < am_granules m \<and> am_granules m \<le> 48 \<and>
     am_granules m = message_granules_from_header (am_data m ! 0) \<and>
     am_byte_len m = am_granules m * 5 \<and>
     am_type m = msg_type_of (am_data m ! 0) \<and>
     drop (nat (am_granules m * 5)) (am_data m) =
       replicate (240 - nat (am_granules m * 5)) 0"

definition msg_len :: "aou_message \<Rightarrow> nat" where
  "msg_len m = nat (am_granules m)"

text \<open>The first \<open>k\<close> granules of a message, as they travel.\<close>

definition piece_bytes :: "aou_message \<times> nat \<Rightarrow> u8 list" where
  "piece_bytes p = take (5 * snd p) (am_data (fst p))"

text \<open>What the receiver knows of a message after \<open>k\<close> granules.\<close>

definition msg_prefix :: "aou_message \<Rightarrow> nat \<Rightarrow> aou_message" where
  "msg_prefix m k = m\<lparr>am_data := take (5 * k) (am_data m) @ replicate (240 - 5 * k) 0,
     am_rp := msg_rp_of (am_data m ! 0), am_axi_id := 0, am_axi_addr := 0\<rparr>"

definition strip_msg :: "aou_message \<Rightarrow> aou_message" where
  "strip_msg m = m\<lparr>am_rp := msg_rp_of (am_data m ! 0), am_axi_id := 0, am_axi_addr := 0\<rparr>"

lemma wf_msg_len:
  assumes "wf_msg m"
  shows "0 < msg_len m" "msg_len m \<le> 48" "int (msg_len m) = am_granules m"
    "length (am_data m) = 240" "am_byte_len m = 5 * int (msg_len m)"
    "nat (am_granules m * 5) = 5 * msg_len m" "am_granules m > 0"
  using assms by (auto simp: wf_msg_def msg_len_def nat_mult_distrib)

lemma wf_msg_zero:
  assumes "wf_msg m"
  shows "drop (5 * msg_len m) (am_data m) = replicate (240 - 5 * msg_len m) 0"
  using assms unfolding wf_msg_len(6) [OF assms, symmetric] wf_msg_def by blast

lemma msg_prefix_full: "wf_msg m \<Longrightarrow> msg_prefix m (msg_len m) = strip_msg m"
  by (simp add: msg_prefix_def strip_msg_def flip: wf_msg_zero)

lemma length_piece_bytes: "wf_msg (fst p) \<Longrightarrow> snd p \<le> 48 \<Longrightarrow> length (piece_bytes p) = 5 * snd p"
  using wf_msg_len(4) [of "fst p"] by (simp add: piece_bytes_def)

section \<open>The layout of a flit\<close>

type_synonym piece = "aou_message \<times> nat"

text \<open>\<open>Some (m, k)\<close>: the previous flit ended with the first \<open>k\<close> granules of \<open>m\<close>.\<close>

type_synonym cut = "piece option"

definition wf_cut :: "cut \<Rightarrow> bool" where
  "wf_cut c \<longleftrightarrow> (case c of None \<Rightarrow> True | Some (m, k) \<Rightarrow> wf_msg m \<and> 0 < k \<and> k < msg_len m)"

definition cut_tail :: "cut \<Rightarrow> u8 list" where
  "cut_tail c = (case c of None \<Rightarrow> []
     | Some (m, k) \<Rightarrow> drop (5 * k) (take (5 * msg_len m) (am_data m)))"

definition cut_rest :: "cut \<Rightarrow> nat" where
  "cut_rest c = (case c of None \<Rightarrow> 0 | Some (m, k) \<Rightarrow> msg_len m - k)"

fun starts :: "nat \<Rightarrow> piece list \<Rightarrow> nat set" where
  "starts g [] = {}"
| "starts g (p # ps) = insert g (starts (g + snd p) ps)"

definition pieces_len :: "piece list \<Rightarrow> nat" where
  "pieces_len ps = sum_list (map snd ps)"

lemma pieces_len_simps [simp]:
  "pieces_len [] = 0" "pieces_len (p # ps) = snd p + pieces_len ps"
  "pieces_len (ps @ qs) = pieces_len ps + pieces_len qs"
  by (simp_all add: pieces_len_def)

definition wf_piece :: "piece \<Rightarrow> bool" where
  "wf_piece p \<longleftrightarrow> wf_msg (fst p) \<and> 0 < snd p \<and> snd p \<le> msg_len (fst p)"

definition full_piece :: "piece \<Rightarrow> bool" where
  "full_piece p \<longleftrightarrow> wf_msg (fst p) \<and> snd p = msg_len (fst p)"

definition flit_layout :: "aou_flit \<Rightarrow> cut \<Rightarrow> piece list \<Rightarrow> bool" where
  "flit_layout f c ps \<longleftrightarrow>
     wf_cut c \<and> list_all wf_piece ps \<and>
     cut_rest c + pieces_len ps \<le> 48 \<and>
     (list_all full_piece ps \<or>
       (cut_rest c + pieces_len ps = 48 \<and> list_all full_piece (butlast ps))) \<and>
     fl_used_granules f = int (cut_rest c + pieces_len ps) \<and>
     fl_payload f = cut_tail c @ concat (map piece_bytes ps) @
       replicate (240 - 5 * (cut_rest c + pieces_len ps)) 0 \<and>
     (\<forall>j. bit (fl_msg_start f) j \<longleftrightarrow> j \<in> starts (cut_rest c) ps)"

lemma full_imp_wf_piece: "full_piece p \<Longrightarrow> wf_piece p"
  using wf_msg_len(1) [of "fst p"] by (simp add: full_piece_def wf_piece_def)

lemma wf_piece_props:
  assumes "wf_piece p"
  shows "wf_msg (fst p)" "0 < snd p" "snd p \<le> 48" "length (piece_bytes p) = 5 * snd p"
  using assms wf_msg_len(2) [of "fst p"] length_piece_bytes [of p]
  by (auto simp: wf_piece_def)

lemma length_cut_tail: "wf_cut c \<Longrightarrow> length (cut_tail c) = 5 * cut_rest c"
  using wf_msg_len(2,4)
  by (force simp: wf_cut_def cut_tail_def cut_rest_def diff_mult_distrib2 split: option.splits)

lemma length_pieces: "list_all wf_piece ps \<Longrightarrow> length (concat (map piece_bytes ps)) = 5 * pieces_len ps"
  by (induction ps) (auto simp: wf_piece_props)

lemma starts_append: "starts g (ps @ qs) = starts g ps \<union> starts (g + pieces_len ps) qs"
  by (induction ps arbitrary: g) (auto simp: add.assoc)

lemma starts_bounds: "j \<in> starts g ps \<Longrightarrow> list_all wf_piece ps \<Longrightarrow> g \<le> j \<and> j < g + pieces_len ps"
  by (induction ps arbitrary: g) (auto simp: wf_piece_def; fastforce)+

lemma layout_empty: "flit_layout aou_flit0 None []"
  by (simp add: flit_layout_def aou_flit0_def wf_cut_def cut_rest_def cut_tail_def aou_consts)

text \<open>Resuming a cut message in an empty flit places its remaining granules at granule 0.\<close>

lemma pack_resume:
  assumes cut: "wf_cut (Some (m, k))"
  shows "pack_fragment aou_flit0 m (int k) = (f', t) \<Longrightarrow>
    t = int (msg_len m - k) \<and> flit_layout f' (Some (m, k)) []"
proof -
  assume pack: "pack_fragment aou_flit0 m (int k) = (f', t)"
  from cut have wf: "wf_msg m" and k: "0 < k" "k < msg_len m" by (auto simp: wf_cut_def)
  note L = wf_msg_len [OF wf]
  have t: "min (am_granules m - int k) (48 - 0) = int (msg_len m - k)"
    using L k by (simp add: of_nat_diff)
  have n: "nat (int (msg_len m - k) * 5) = 5 * (msg_len m - k)" by simp
  have "map (\<lambda>i. if int k * 5 + int i < am_byte_len m then am_data m ! nat (int k * 5 + int i) else 0)
          [0..<5 * (msg_len m - k)] = cut_tail (Some (m, k))"
    using L k by (intro nth_equalityI) (auto simp: cut_tail_def nat_add_distrib nat_mult_distrib mult.commute)
  moreover have "5 * (msg_len m - k) \<le> 240" using L by simp
  ultimately have "store_loop 0 (5 * (msg_len m - k))
      (\<lambda>i. if int k * 5 + int i < am_byte_len m then am_data m ! nat (int k * 5 + int i) else 0)
      (replicate 240 0) = cut_tail (Some (m, k)) @ replicate (240 - 5 * (msg_len m - k)) 0"
    by (simp add: store_loop_eq)
  moreover have "k < msg_len m \<Longrightarrow> am_granules m > int k" using L by simp
  ultimately show ?thesis
    using pack cut k L t n
    by (auto simp: pack_fragment_def aou_flit0_def aou_consts Let_def flit_layout_def cut_rest_def
        split: if_splits)
qed

text \<open>A new message is appended behind the used granules, cut where the flit ends.\<close>

lemma pack_new:
  assumes lay: "flit_layout f c ps" and room: "fl_used_granules f < 48"
    and wf: "wf_msg m" and pack: "pack_fragment f m 0 = (f', t)"
  shows "t = int (min (msg_len m) (48 - nat (fl_used_granules f)))"
    "flit_layout f' c (ps @ [(m, nat t)])"
proof -
  define u k where "u = cut_rest c + pieces_len ps" and "k = min (msg_len m) (48 - u)"
  note L = wf_msg_len [OF wf]
  from lay have used: "fl_used_granules f = int u" and cut: "wf_cut c"
    and wfs: "list_all wf_piece ps" and full: "list_all full_piece ps"
    and pay: "fl_payload f = cut_tail c @ concat (map piece_bytes ps) @ replicate (240 - 5 * u) 0"
    and st: "\<And>j. bit (fl_msg_start f) j \<longleftrightarrow> j \<in> starts (cut_rest c) ps"
    using room by (auto simp: flit_layout_def u_def)
  have u: "u < 48" using room used by simp
  have t: "min (am_granules m) (48 - int u) = int k" using L u by (simp add: of_nat_diff k_def)
  have k0: "0 < k" using L u by (simp add: k_def)
  have k5: "nat (int k * 5) = 5 * k" "nat (int u * 5) = 5 * u" by simp_all
  define payload where "payload = cut_tail c @ concat (map piece_bytes (ps @ [(m, k)])) @
      replicate (240 - 5 * (u + k)) 0"
  define src where "src = (\<lambda>i. if 0 * 5 + int i < am_byte_len m then am_data m ! nat (0 * 5 + int i) else 0)"
  have new: "map src [0..<5 * k] = piece_bytes (m, k)"
    using L by (intro nth_equalityI) (auto simp: piece_bytes_def src_def k_def)
  have len: "length (cut_tail c @ concat (map piece_bytes ps)) = 5 * u"
    using length_cut_tail [OF cut] length_pieces [OF wfs] by (simp add: u_def)
  have fits: "5 * u + 5 * k \<le> length (fl_payload f)"
    using u len pay by (simp add: k_def)
  have pay': "store_loop (5 * u) (5 * k) src (fl_payload f) = payload"
    unfolding store_loop_eq [OF fits] new payload_def using len
    by (simp add: pay drop_replicate diff_mult_distrib2)
  have eq: "pack_fragment f m 0 = (f\<lparr>fl_msg_start := fl_msg_start f OR push_bit u 1,
      fl_payload := payload, fl_used_granules := int u + int k, fl_valid := True\<rparr>, int k)"
    unfolding pay' [symmetric]
    using L(7) t k0 k5 used by (simp add: pack_fragment_def aou_consts Let_def src_def cong: if_cong)
  then have f': "f' = f\<lparr>fl_msg_start := fl_msg_start f OR push_bit u 1,
      fl_payload := payload, fl_used_granules := int u + int k, fl_valid := True\<rparr>" and tk: "t = int k"
    using pack by simp_all
  show "t = int (min (msg_len m) (48 - nat (fl_used_granules f)))" using tk used by (simp add: k_def)
  have wfp: "wf_piece (m, k)" using wf k0 by (simp add: wf_piece_def k_def)
  have st': "bit (fl_msg_start f OR push_bit u 1) j \<longleftrightarrow> j \<in> starts (cut_rest c) (ps @ [(m, k)])" for j
  proof -
    have "bit (push_bit u (1 :: u64)) j \<longleftrightarrow> j = u"
      using u bit_push_bit_one [where 'a = 64, of j u] bit_imp_le_length by fastforce
    then show ?thesis using st by (auto simp: starts_append bit_or_iff u_def)
  qed
  have "list_all full_piece (ps @ [(m, k)]) \<or>
      u + k = 48 \<and> list_all full_piece (butlast (ps @ [(m, k)]))"
    using full u wf by (auto simp: full_piece_def k_def min_def)
  moreover have "u + k \<le> 48" using u by (simp add: k_def)
  ultimately show "flit_layout f' c (ps @ [(m, nat t)])"
    using cut wfs wfp st' tk by (simp add: flit_layout_def f' payload_def u_def add.assoc)
qed

end
