(* ===== verification/Credit_Manager.thy ===== *)
theory Credit_Manager
  imports Aou_Flit
begin

text \<open>
  \<^verbatim>\<open>credit_manager.h\<close>: the credit state of one side of the link, the encodings of credit amounts,
  the piggybacked header field and the dedicated grant message. A \<^verbatim>\<open>CreditMatrix\<close> is a function
  of the plane and the kind index; entries outside the 4 by 5 array are never read. Counters are
  \<^verbatim>\<open>unsigned\<close>, so sums use \<^term>\<open>add_u32\<close>.
\<close>

section \<open>Kinds and amounts\<close>

datatype credit_kind = CkWriteReq | CkReadReq | CkWriteData | CkReadData | CkWriteResp | CkCount

definition CREDIT_KIND_COUNT :: nat where "CREDIT_KIND_COUNT = 5"
definition CREDIT_COUNTER_MAX :: nat where "CREDIT_COUNTER_MAX = 4095"

definition msgtype_to_credit_kind :: "msg_type \<Rightarrow> credit_kind" where
  "msgtype_to_credit_kind t = (case t of WriteReq \<Rightarrow> CkWriteReq | ReadReq \<Rightarrow> CkReadReq
     | WriteData \<Rightarrow> CkWriteData | WriteDataFull \<Rightarrow> CkWriteData | ReadData \<Rightarrow> CkReadData
     | WriteResp \<Rightarrow> CkWriteResp | _ \<Rightarrow> CkCount)"

definition credit_kind_index :: "credit_kind \<Rightarrow> nat" where
  "credit_kind_index k = (case k of CkWriteReq \<Rightarrow> 0 | CkReadReq \<Rightarrow> 1 | CkWriteData \<Rightarrow> 2
     | CkReadData \<Rightarrow> 3 | CkWriteResp \<Rightarrow> 4 | CkCount \<Rightarrow> 5)"

text \<open>\<^verbatim>\<open>static_cast<CreditKind>(k)\<close> for a loop index \<open>k\<close> below the kind count.\<close>

definition credit_kind_cast :: "nat \<Rightarrow> credit_kind" where
  "credit_kind_cast k = (if k = 0 then CkWriteReq else if k = 1 then CkReadReq
     else if k = 2 then CkWriteData else if k = 3 then CkReadData
     else if k = 4 then CkWriteResp else CkCount)"

lemma credit_kind_index_cast: "k < 5 \<Longrightarrow> credit_kind_index (credit_kind_cast k) = k"
  by (auto simp: credit_kind_cast_def credit_kind_index_def)

lemma credit_kind_index_less: "credit_kind_index k < 5 \<longleftrightarrow> k \<noteq> CkCount"
  by (cases k) (simp_all add: credit_kind_index_def)

record credit_update =
  cu_rp :: nat
  cu_kind :: credit_kind
  cu_granules :: nat

type_synonym credit_matrix = "nat \<Rightarrow> nat \<Rightarrow> nat"

definition zero_matrix :: credit_matrix where "zero_matrix = (\<lambda>_ _. 0)"

definition decode_credit_encoding :: "u8 \<Rightarrow> nat" where
  "decode_credit_encoding encoding = [0, 1, 4, 8, 16, 32, 64, 128] ! unat (encoding AND 7)"

text \<open>The loop tries the encodings from \<open>max_encoding\<close> down to 0.\<close>

fun encode_credit_amount :: "nat \<Rightarrow> nat \<Rightarrow> u8" where
  "encode_credit_amount pending 0 = 0"
| "encode_credit_amount pending (Suc enc) =
     (if decode_credit_encoding (of_nat (Suc enc)) \<le> pending then of_nat (Suc enc)
      else encode_credit_amount pending enc)"

section \<open>The manager\<close>

record credit_manager =
  cm_rp_count :: nat
  cm_next_header_rp :: nat
  cm_tx_available :: credit_matrix
  cm_rx_capacity :: credit_matrix
  cm_rx_pending_return :: credit_matrix

definition cm_make :: "nat \<Rightarrow> credit_matrix \<Rightarrow> credit_manager result" where
  "cm_make rp_count rx_capacity =
     (if 1 \<le> rp_count \<and> rp_count \<le> MAX_RESOURCE_PLANES
      then Inr \<lparr>cm_rp_count = rp_count, cm_next_header_rp = 0, cm_tx_available = zero_matrix,
             cm_rx_capacity = (\<lambda>rp k. if rp_count \<le> rp \<and> rp < MAX_RESOURCE_PLANES then 0
               else rx_capacity rp k),
             cm_rx_pending_return = zero_matrix\<rparr>
      else Inl (AssertFailed ''rp_count''))"

definition make_capacity :: "nat \<Rightarrow> nat \<Rightarrow> nat \<Rightarrow> credit_matrix" where
  "make_capacity rp_count rdata_per_rp wresp_per_rp =
     (\<lambda>rp k. if rp < rp_count then
        (if k = credit_kind_index CkReadData then rdata_per_rp
         else if k = credit_kind_index CkWriteResp then wresp_per_rp else 0) else 0)"

definition cm_make_initiator :: "nat \<Rightarrow> nat \<Rightarrow> nat \<Rightarrow> credit_manager result" where
  "cm_make_initiator rp_count rdata wresp = cm_make rp_count (make_capacity rp_count rdata wresp)"

definition cm_reset :: "credit_manager \<Rightarrow> credit_manager" where
  "cm_reset c = c\<lparr>cm_tx_available := zero_matrix, cm_rx_pending_return := zero_matrix,
     cm_next_header_rp := 0\<rparr>"

definition publish_initial_capacity :: "credit_manager \<Rightarrow> credit_manager" where
  "publish_initial_capacity c = c\<lparr>cm_rx_pending_return := cm_rx_capacity c\<rparr>"

definition cm_valid :: "credit_manager \<Rightarrow> credit_update \<Rightarrow> bool" where
  "cm_valid c u \<longleftrightarrow> cu_rp u < cm_rp_count c \<and> cu_kind u \<noteq> CkCount \<and> cu_granules u \<noteq> 0"

definition matrix_upd :: "credit_matrix \<Rightarrow> nat \<Rightarrow> nat \<Rightarrow> nat \<Rightarrow> credit_matrix" where
  "matrix_upd m rp k v = m(rp := (m rp)(k := v))"

definition add_tx_credit :: "credit_manager \<Rightarrow> credit_update \<Rightarrow> credit_manager" where
  "add_tx_credit c u =
     (if \<not> cm_valid c u then c
      else let k = credit_kind_index (cu_kind u); counter = cm_tx_available c (cu_rp u) k
           in c\<lparr>cm_tx_available := matrix_upd (cm_tx_available c) (cu_rp u) k
                  (min CREDIT_COUNTER_MAX (add_u32 counter (cu_granules u)))\<rparr>)"

definition can_consume :: "credit_manager \<Rightarrow> nat \<Rightarrow> msg_type \<Rightarrow> nat \<Rightarrow> bool" where
  "can_consume c rp t granules =
     (let kind = msgtype_to_credit_kind t
      in if rp \<ge> cm_rp_count c \<or> kind = CkCount then False
         else cm_tx_available c rp (credit_kind_index kind) \<ge> granules)"

definition consume :: "credit_manager \<Rightarrow> nat \<Rightarrow> msg_type \<Rightarrow> nat \<Rightarrow> credit_manager result" where
  "consume c rp t granules =
     (let kind = msgtype_to_credit_kind t
      in if \<not> (rp < cm_rp_count c \<and> kind \<noteq> CkCount) then Inl (AssertFailed ''consume: plane or kind'')
         else let k = credit_kind_index kind; counter = cm_tx_available c rp k
              in if counter < granules then Inl (AssertFailed ''consume: not enough credit'')
                 else Inr (c\<lparr>cm_tx_available := matrix_upd (cm_tx_available c) rp k (counter - granules)\<rparr>))"

definition return_rx_credit :: "credit_manager \<Rightarrow> credit_update \<Rightarrow> credit_manager" where
  "return_rx_credit c u =
     (if \<not> cm_valid c u then c
      else let k = credit_kind_index (cu_kind u); pending = cm_rx_pending_return c (cu_rp u) k
           in c\<lparr>cm_rx_pending_return := matrix_upd (cm_rx_pending_return c) (cu_rp u) k
                  (min (cm_rx_capacity c (cu_rp u) k) (add_u32 pending (cu_granules u)))\<rparr>)"

definition rp_has_pending :: "credit_manager \<Rightarrow> nat \<Rightarrow> bool" where
  "rp_has_pending c rp = list_ex (\<lambda>k. cm_rx_pending_return c rp k \<noteq> 0) [0..<CREDIT_KIND_COUNT]"

definition has_pending_returns :: "credit_manager \<Rightarrow> bool" where
  "has_pending_returns c = list_ex (rp_has_pending c) [0..<cm_rp_count c]"

definition take_encoded :: "credit_manager \<Rightarrow> nat \<Rightarrow> credit_kind \<Rightarrow> nat \<Rightarrow> nat \<Rightarrow> u16 \<times> credit_manager" where
  "take_encoded c rp kind shift width =
     (let idx = credit_kind_index kind;
          max_enc = 2 ^ width - 1;
          enc = encode_credit_amount (cm_rx_pending_return c rp idx) max_enc
      in (push_bit shift (ucast enc),
          c\<lparr>cm_rx_pending_return := matrix_upd (cm_rx_pending_return c) rp idx
              (cm_rx_pending_return c rp idx - decode_credit_encoding enc)\<rparr>))"

text \<open>The planes in the order the rotation looks at them.\<close>

definition rp_rotation :: "nat \<Rightarrow> nat \<Rightarrow> nat list" where
  "rp_rotation start count = map (\<lambda>checked. (start + checked) mod count) [0..<count]"

definition take_header_grant :: "credit_manager \<Rightarrow> u16 \<times> credit_manager" where
  "take_header_grant c =
     (case find (rp_has_pending c) (rp_rotation (cm_next_header_rp c) (cm_rp_count c)) of
        None \<Rightarrow> (0, c)
      | Some rp \<Rightarrow>
          let field0 = push_bit 14 (of_nat rp);
              (f1, c1) = take_encoded c rp CkWriteReq 0 3;
              (f2, c2) = take_encoded c1 rp CkReadReq 3 3;
              (f3, c3) = take_encoded c2 rp CkWriteData 6 3;
              (f4, c4) = take_encoded c3 rp CkReadData 9 3;
              (f5, c5) = take_encoded c4 rp CkWriteResp 12 2
          in (field0 OR f1 OR f2 OR f3 OR f4 OR f5,
              c5\<lparr>cm_next_header_rp := (rp + 1) mod cm_rp_count c\<rparr>))"

definition misc_max_enc :: "nat \<Rightarrow> nat" where
  "misc_max_enc k = (if k = credit_kind_index CkWriteResp then 3 else 7)"

definition misc_grant :: "credit_manager \<Rightarrow> nat \<Rightarrow> nat \<Rightarrow> nat" where
  "misc_grant c rp k =
     decode_credit_encoding (encode_credit_amount (cm_rx_pending_return c rp k) (misc_max_enc k))"

text \<open>
  The double loop of \<^verbatim>\<open>take_misc_grants\<close> treats every entry of the active planes once, each
  independently of the others.
\<close>

definition take_misc_grants :: "credit_manager \<Rightarrow> credit_matrix \<times> credit_manager" where
  "take_misc_grants c =
     fold (\<lambda>(rp, k) (grants, c').
        (matrix_upd grants rp k (misc_grant c' rp k),
         c'\<lparr>cm_rx_pending_return := matrix_upd (cm_rx_pending_return c') rp k
              (cm_rx_pending_return c' rp k - misc_grant c' rp k)\<rparr>))
       (List.product [0..<cm_rp_count c] [0..<CREDIT_KIND_COUNT]) (zero_matrix, c)"

section \<open>Encoding amounts\<close>

lemma decode_encode_le: "decode_credit_encoding (encode_credit_amount p n) \<le> p"
  by (induction p n rule: encode_credit_amount.induct) (simp_all add: decode_credit_encoding_def)

lemma encode_ex: "\<exists>e\<le>n. encode_credit_amount p n = of_nat e"
proof (induction p n rule: encode_credit_amount.induct)
  case (2 p n)
  then obtain e where "e \<le> n" "\<not> decode_credit_encoding (of_nat (Suc n)) \<le> p \<Longrightarrow>
      encode_credit_amount p n = of_nat e" by blast
  then show ?case
    by (cases "decode_credit_encoding (of_nat (Suc n)) \<le> p")
      (force intro: exI [of _ "Suc n"], force intro: exI [of _ e])
qed simp

lemma encode_bound: "n \<le> 7 \<Longrightarrow> unat (encode_credit_amount p n) \<le> n"
  using encode_ex [of n p] by (auto simp: unat_of_nat)

lemma encode_and_mask:
  assumes "n \<le> 3"
  shows "encode_credit_amount p (2 ^ n - 1) AND mask n = encode_credit_amount p (2 ^ n - 1)"
proof -
  have le: "(2 :: nat) ^ n \<le> 2 ^ 3" using assms by (intro power_increasing) auto
  then have "unat (encode_credit_amount p (2 ^ n - 1)) \<le> 2 ^ n - 1"
    by (intro encode_bound) simp
  then have "unat (encode_credit_amount p (2 ^ n - 1)) < 2 ^ n"
    by (metis diff_Suc_1 le_imp_less_Suc less_eq_Suc_le nat_zero_less_power_iff not_less_eq_eq
        Suc_pred pos2 zero_less_power)
  then show ?thesis
    by (simp add: unsigned_take_bit_eq take_bit_nat_eq_self word_unat_eq_iff flip: take_bit_eq_mask)
qed

lemma decode_credit_of_nat: "e \<le> 7 \<Longrightarrow> decode_credit_encoding (of_nat e) = [0, 1, 4, 8, 16, 32, 64, 128] ! e"
proof -
  assume e: "e \<le> 7"
  then have "e \<in> {0, 1, 2, 3, 4, 5, 6, 7}" by auto
  then show ?thesis
    by (elim insertE emptyE) (simp_all add: decode_credit_encoding_def)
qed

lemma decode_credit_mono: "e \<le> e' \<Longrightarrow> e' \<le> 7 \<Longrightarrow>
  decode_credit_encoding (of_nat e) \<le> decode_credit_encoding (of_nat e')"
proof -
  assume le: "e \<le> e'" "e' \<le> 7"
  have "sorted [0, 1, 4, 8, 16, 32, 64, 128 :: nat]" by simp
  from sorted_nth_mono [OF this le(1)] le(2)
  have "[0, 1, 4, 8, 16, 32, 64, 128 :: nat] ! e \<le> [0, 1, 4, 8, 16, 32, 64, 128] ! e'" by simp
  then show ?thesis using le decode_credit_of_nat [of e] decode_credit_of_nat [of e'] by simp
qed

text \<open>The chosen encoding is the largest admissible one that does not exceed the amount.\<close>

lemma encode_maximal:
  "e \<le> n \<Longrightarrow> n \<le> 7 \<Longrightarrow> decode_credit_encoding (of_nat e) \<le> p \<Longrightarrow>
   decode_credit_encoding (of_nat e) \<le> decode_credit_encoding (encode_credit_amount p n)"
proof (induction p n rule: encode_credit_amount.induct)
  case (2 p n)
  show ?case
  proof (cases "e = Suc n")
    case True
    with 2 show ?thesis by simp
  next
    case False
    with 2 show ?thesis using decode_credit_mono [of e "Suc n"] by simp
  qed
qed simp

lemma encode_progress:
  assumes "0 < p" "0 < n" "n \<le> 7"
  shows "0 < decode_credit_encoding (encode_credit_amount p n)"
  using encode_maximal [of 1 n p] assms by (simp add: decode_credit_encoding_def)

section \<open>The header field\<close>

lemma rp_rotation_bound: "0 < count \<Longrightarrow> rp \<in> set (rp_rotation s count) \<Longrightarrow> rp < count"
  by (auto simp: rp_rotation_def)

text \<open>Starting anywhere, the rotation visits every plane.\<close>

lemma rp_rotation_all: "rp < count \<Longrightarrow> rp \<in> set (rp_rotation s count)"
proof -
  assume rp: "rp < count"
  then have c: "0 < count" by simp
  let ?c = "(rp + (count - s mod count)) mod count"
  have "(s + ?c) mod count = (s mod count + (rp + (count - s mod count))) mod count"
    by (simp add: mod_add_left_eq mod_add_right_eq)
  also have "s mod count + (rp + (count - s mod count)) = rp + count"
    using mod_less_divisor [OF c, of s] by simp
  finally have "(s + ?c) mod count = rp" using rp by simp
  moreover have "?c \<in> set [0..<count]" using c by simp
  ultimately show ?thesis unfolding rp_rotation_def by force
qed

lemma rp_rotation_pending: "rp < count \<Longrightarrow> list_ex P (rp_rotation s count) \<longleftrightarrow> list_ex P [0..<count]"
  using rp_rotation_bound [of count] rp_rotation_all [of _ count s]
  by (auto simp: list_ex_iff)

text \<open>\<^verbatim>\<open>decode_header_credits\<close>: the updates handed to \<^verbatim>\<open>emit\<close>, in order.\<close>

definition decode_header_credits :: "u16 \<Rightarrow> nat \<Rightarrow> credit_update list" where
  "decode_header_credits field rp_count =
     (let rp = unat (drop_bit 14 field AND 3)
      in if rp \<ge> rp_count then []
         else concat (map (\<lambda>(kind, shift, mask).
           let amount = decode_credit_encoding (ucast (drop_bit shift field AND mask))
           in if amount \<noteq> 0 then [\<lparr>cu_rp = rp, cu_kind = kind, cu_granules = amount\<rparr>] else [])
           [(CkWriteReq, 0, 7), (CkReadReq, 3, 7), (CkWriteData, 6, 7), (CkReadData, 9, 7),
            (CkWriteResp, 12, 3)]))"

text \<open>The granules a list of updates carries for one counter.\<close>

definition update_sum :: "credit_update list \<Rightarrow> nat \<Rightarrow> nat \<Rightarrow> nat" where
  "update_sum us rp k = sum_list (map cu_granules
     (filter (\<lambda>u. cu_rp u = rp \<and> credit_kind_index (cu_kind u) = k) us))"

lemma update_sum_append [simp]: "update_sum (us @ vs) rp k = update_sum us rp k + update_sum vs rp k"
  by (simp add: update_sum_def)

text \<open>The six fields of the header word do not overlap.\<close>

definition header_word :: "nat \<Rightarrow> u8 \<Rightarrow> u8 \<Rightarrow> u8 \<Rightarrow> u8 \<Rightarrow> u8 \<Rightarrow> u16" where
  "header_word rp e0 e1 e2 e3 e4 =
     push_bit 14 (of_nat rp) OR push_bit 0 (ucast e0) OR push_bit 3 (ucast e1) OR
     push_bit 6 (ucast e2) OR push_bit 9 (ucast e3) OR push_bit 12 (ucast e4)"

lemma masked_bits: "e AND mask n = (e :: 'a::len word) \<Longrightarrow> bit e i \<Longrightarrow> i < n"
  by (metis bit_and_iff bit_mask_iff)

lemma bit_header_word:
  "bit (header_word rp e0 e1 e2 e3 e4) i \<longleftrightarrow> i < 16 \<and>
     (14 \<le> i \<and> bit (of_nat rp :: u16) (i - 14) \<or> bit e0 i \<or> 3 \<le> i \<and> bit e1 (i - 3) \<or>
      6 \<le> i \<and> bit e2 (i - 6) \<or> 9 \<le> i \<and> bit e3 (i - 9) \<or> 12 \<le> i \<and> bit e4 (i - 12))"
  by (auto simp: header_word_def bit_or_iff bit_push_bit_iff bit_unsigned_iff dest: bit_imp_le_length)

lemma header_word_fields:
  assumes e: "e0 AND 7 = e0" "e1 AND 7 = e1" "e2 AND 7 = e2" "e3 AND 7 = e3" "e4 AND 3 = e4" "rp < 4"
  shows "ucast (drop_bit 0 (header_word rp e0 e1 e2 e3 e4) AND 7) = e0"
    "ucast (drop_bit 3 (header_word rp e0 e1 e2 e3 e4) AND 7) = e1"
    "ucast (drop_bit 6 (header_word rp e0 e1 e2 e3 e4) AND 7) = e2"
    "ucast (drop_bit 9 (header_word rp e0 e1 e2 e3 e4) AND 7) = e3"
    "ucast (drop_bit 12 (header_word rp e0 e1 e2 e3 e4) AND 3) = e4"
    "unat (drop_bit 14 (header_word rp e0 e1 e2 e3 e4) AND 3) = rp"
proof -
  let ?w = "header_word rp e0 e1 e2 e3 e4"
  have m8: "(7 :: u8) = mask 3" "(3 :: u8) = mask 2" and m16: "(7 :: u16) = mask 3" "(3 :: u16) = mask 2"
    by (simp_all add: mask_eq_exp_minus_1)
  have rp: "(of_nat rp :: u16) AND mask 2 = of_nat rp"
  proof -
    from e(6) have "rp = 0 \<or> rp = 1 \<or> rp = 2 \<or> rp = 3" by auto
    then show ?thesis by (auto simp: mask_eq_exp_minus_1)
  qed
  have z: "3 \<le> i \<Longrightarrow> \<not> bit e0 i" "3 \<le> i \<Longrightarrow> \<not> bit e1 i" "3 \<le> i \<Longrightarrow> \<not> bit e2 i"
    "3 \<le> i \<Longrightarrow> \<not> bit e3 i" "2 \<le> i \<Longrightarrow> \<not> bit e4 i" "2 \<le> i \<Longrightarrow> \<not> bit (of_nat rp :: u16) i" for i
    using e masked_bits rp unfolding m8 by (metis linorder_not_le)+
  have r2: "bit (of_nat rp :: u16) i \<Longrightarrow> i = 0 \<or> i = Suc 0" for i
    using z(6) [of i] by (metis One_nat_def less_2_cases_iff not_less)
  have three: "i < 3 \<longleftrightarrow> i = 0 \<or> i = 1 \<or> i = (2 :: nat)" and two: "i < 2 \<longleftrightarrow> i = 0 \<or> i = (1 :: nat)" for i
    by auto
  have field: "bit (drop_bit n ?w AND mask k) i \<longleftrightarrow> i < k \<and> bit ?w (n + i)" for n k i
    by (auto simp: bit_and_iff bit_mask_iff bit_drop_bit_eq dest: bit_imp_le_length)
  have fld: "ucast (drop_bit n ?w AND mask k) = (e :: u8)"
    if "\<And>i. i < k \<Longrightarrow> bit ?w (n + i) = bit e i" "\<And>i. k \<le> i \<Longrightarrow> \<not> bit e i" for n k and e
  proof (rule bit_word_eqI)
    fix i assume "i < LENGTH(8)"
    then show "bit (ucast (drop_bit n ?w AND mask k) :: u8) i = bit e i"
      using that(1) [of i] that(2) [of i] by (cases "i < k") (simp_all add: bit_unsigned_iff field)
  qed
  show "ucast (drop_bit 0 ?w AND 7) = e0" "ucast (drop_bit 3 ?w AND 7) = e1"
    "ucast (drop_bit 6 ?w AND 7) = e2" "ucast (drop_bit 9 ?w AND 7) = e3"
    "ucast (drop_bit 12 ?w AND 3) = e4"
    unfolding m16 by (rule fld; auto simp: three two bit_header_word z)+
  have "drop_bit 14 ?w AND 3 = (of_nat rp :: u16)"
    unfolding m16 by (rule bit_word_eqI) (auto simp: field two bit_header_word z dest: r2)
  then show "unat (drop_bit 14 ?w AND 3) = rp" using e(6) by (simp add: unat_of_nat)
qed

definition enc_of :: "credit_manager \<Rightarrow> nat \<Rightarrow> nat \<Rightarrow> u8" where
  "enc_of c rp k = encode_credit_amount (cm_rx_pending_return c rp k) (misc_max_enc k)"

text \<open>The pending matrix after the amounts of plane \<open>rp\<close> have been taken out.\<close>

definition pending_taken :: "credit_manager \<Rightarrow> nat \<Rightarrow> credit_matrix" where
  "pending_taken c rp = (\<lambda>r k. if r = rp \<and> k < 5
     then cm_rx_pending_return c r k - misc_grant c r k else cm_rx_pending_return c r k)"

lemma enc_of_masks:
  "enc_of c rp 0 AND 7 = enc_of c rp 0" "enc_of c rp 1 AND 7 = enc_of c rp 1"
  "enc_of c rp 2 AND 7 = enc_of c rp 2" "enc_of c rp 3 AND 7 = enc_of c rp 3"
  "enc_of c rp 4 AND 3 = enc_of c rp 4"
  using encode_and_mask [of 3] encode_and_mask [of 2]
  by (simp_all add: enc_of_def misc_max_enc_def credit_kind_index_def mask_eq_exp_minus_1)

lemma take_header_grant_eq:
  "take_header_grant c =
     (case find (rp_has_pending c) (rp_rotation (cm_next_header_rp c) (cm_rp_count c)) of
        None \<Rightarrow> (0, c)
      | Some rp \<Rightarrow>
         (header_word rp (enc_of c rp 0) (enc_of c rp 1) (enc_of c rp 2) (enc_of c rp 3) (enc_of c rp 4),
          c\<lparr>cm_rx_pending_return := pending_taken c rp,
            cm_next_header_rp := (rp + 1) mod cm_rp_count c\<rparr>))"
proof -
  have five: "k < 5 \<longleftrightarrow> k = 0 \<or> k = 1 \<or> k = 2 \<or> k = 3 \<or> k = (4 :: nat)" for k by auto
  show ?thesis
    by (auto simp: take_header_grant_def take_encoded_def Let_def enc_of_def header_word_def
        misc_grant_def misc_max_enc_def credit_kind_index_def matrix_upd_def pending_taken_def
        fun_eq_iff five split: option.splits prod.splits)
qed

definition wf_credits :: "credit_manager \<Rightarrow> bool" where
  "wf_credits c \<longleftrightarrow> 1 \<le> cm_rp_count c \<and> cm_rp_count c \<le> 4 \<and>
     (\<forall>rp k. cm_tx_available c rp k \<le> CREDIT_COUNTER_MAX) \<and>
     (\<forall>rp k. cm_rx_pending_return c rp k \<le> cm_rx_capacity c rp k)"

lemma find_Some_iff: "find P xs = Some x \<Longrightarrow> x \<in> set xs \<and> P x"
  by (induction xs) (auto split: if_splits)

lemma find_None_list_ex: "find P xs = None \<longleftrightarrow> \<not> list_ex P xs"
  by (induction xs) auto

text \<open>
  Conservation of the piggybacked grant: what the peer decodes from the header is what leaves the
  pending matrix, counter by counter.
\<close>

lemma header_grant_conserves:
  assumes wf: "wf_credits c" and take: "take_header_grant c = (field, c')"
    and rp: "rp < cm_rp_count c" and k: "k < 5"
  shows "cm_rx_pending_return c rp k =
    cm_rx_pending_return c' rp k + update_sum (decode_header_credits field (cm_rp_count c)) rp k"
proof (cases "find (rp_has_pending c) (rp_rotation (cm_next_header_rp c) (cm_rp_count c))")
  case None
  then have "field = 0" "c' = c" using take by (simp_all add: take_header_grant_eq)
  then show ?thesis
    by (simp add: decode_header_credits_def update_sum_def decode_credit_encoding_def)
next
  case (Some p)
  have cnt: "0 < cm_rp_count c" "cm_rp_count c \<le> 4" using wf by (simp_all add: wf_credits_def)
  have p: "p < cm_rp_count c"
    using find_Some_iff [OF Some] rp_rotation_bound [OF cnt(1)] by blast
  then have p4: "p < 4" using cnt by simp
  let ?f = "header_word p (enc_of c p 0) (enc_of c p 1) (enc_of c p 2) (enc_of c p 3) (enc_of c p 4)"
  have field: "field = ?f" and c': "cm_rx_pending_return c' = pending_taken c p"
    using take Some by (auto simp: take_header_grant_eq)
  note F = header_word_fields [OF enc_of_masks p4, of c p]
  have dec: "decode_header_credits field (cm_rp_count c) =
      concat (map (\<lambda>(kind, k). if misc_grant c p k \<noteq> 0
          then [\<lparr>cu_rp = p, cu_kind = kind, cu_granules = misc_grant c p k\<rparr>] else [])
        [(CkWriteReq, 0), (CkReadReq, 1), (CkWriteData, 2), (CkReadData, 3), (CkWriteResp, 4)])"
    using p by (simp add: decode_header_credits_def field F [simplified] Let_def misc_grant_def flip: enc_of_def)
  have five: "k = 0 \<or> k = 1 \<or> k = 2 \<or> k = 3 \<or> k = 4" using k by auto
  have "update_sum (decode_header_credits field (cm_rp_count c)) rp k =
      (if rp = p then misc_grant c p k else 0)"
    using five unfolding dec by (auto simp: update_sum_def credit_kind_index_def)
  moreover have "misc_grant c p k \<le> cm_rx_pending_return c p k"
    by (simp add: misc_grant_def decode_encode_le)
  ultimately show ?thesis using k by (simp add: c' pending_taken_def)
qed

lemma diff_le_bound: "a \<le> b \<Longrightarrow> a - n \<le> (b :: nat)"
  by simp

lemma header_grant_wf: "wf_credits c \<Longrightarrow> take_header_grant c = (field, c') \<Longrightarrow> wf_credits c'"
  by (auto simp: take_header_grant_eq wf_credits_def pending_taken_def intro!: diff_le_bound
      split: option.splits)

section \<open>The dedicated grant message\<close>

definition grant_kinds :: "credit_kind list" where
  "grant_kinds = [CkWriteReq, CkReadReq, CkWriteData, CkReadData]"

definition grant_amount :: "credit_matrix \<Rightarrow> nat \<Rightarrow> nat \<Rightarrow> credit_kind \<Rightarrow> nat" where
  "grant_amount grants rp_count rp kind =
     (if rp < rp_count then grants rp (credit_kind_index kind) else 0)"

definition build_crdt_grant_message :: "credit_matrix \<Rightarrow> nat \<Rightarrow> aou_message result" where
  "build_crdt_grant_message grants rp_count =
     (let bw0 = \<lparr>bw_dst = am_data aou_message0, bw_bit = 0\<rparr>;
          bw1 = bw_put bw0 (ucast (msg_type_code Misc)) 4;
          bw2 = bw_put bw1 (ucast MISCOP_CRDT_GRANT) 3;
          bw3 = fold (\<lambda>kind bw. fold (\<lambda>rp bw.
                  bw_put bw (ucast (encode_credit_amount (grant_amount grants rp_count rp kind) 7)) 3)
                  [0..<MAX_RESOURCE_PLANES] bw) grant_kinds bw2;
          bw4 = fold (\<lambda>rp bw.
                  bw_put bw (ucast (encode_credit_amount (grant_amount grants rp_count rp CkWriteResp) 3)) 2)
                  [0..<MAX_RESOURCE_PLANES] bw3;
          bw5 = bw_skip bw4 17
      in if bw_bit bw5 = 80
         then Inr (aou_message0\<lparr>am_type := Misc, am_rp := 0, am_granules := MISC_CRDTGRANT_GRANULES,
                am_byte_len := MISC_CRDTGRANT_GRANULES * GRANULE_BYTES, am_data := bw_dst bw5\<rparr>)
         else Inl (AssertFailed ''CrdtGrant bit count''))"

definition grant_store :: "nat \<Rightarrow> nat \<Rightarrow> credit_kind \<Rightarrow> nat \<Rightarrow> credit_matrix \<Rightarrow> credit_matrix" where
  "grant_store rp_count rp kind amount grants =
     (if rp < rp_count then matrix_upd grants rp (credit_kind_index kind) amount else grants)"

text \<open>The returned flag and the grant matrix; \<^verbatim>\<open>false\<close> leaves the matrix all zero.\<close>

definition decode_crdt_grant_message :: "aou_message \<Rightarrow> nat \<Rightarrow> bool \<times> credit_matrix" where
  "decode_crdt_grant_message msg rp_count =
     (if am_type msg \<noteq> Misc \<or> am_byte_len msg < MISC_CRDTGRANT_GRANULES * GRANULE_BYTES
      then (False, zero_matrix)
      else
        let br0 = \<lparr>br_src = am_data msg, br_bit = 0\<rparr>;
            (msgtype, br1) = br_get br0 4;
            (opcode, br2) = br_get br1 3
        in if msgtype \<noteq> ucast (msg_type_code Misc) \<or> opcode \<noteq> ucast MISCOP_CRDT_GRANT
           then (False, zero_matrix)
           else
             let (grants3, br3) = fold (\<lambda>kind st. fold (\<lambda>rp (grants, br).
                     let (e, br') = br_get br 3
                     in (grant_store rp_count rp kind (decode_credit_encoding (ucast e)) grants, br'))
                     [0..<MAX_RESOURCE_PLANES] st) grant_kinds (zero_matrix, br2);
                 (grants4, br4) = fold (\<lambda>rp (grants, br).
                     let (e, br') = br_get br 2
                     in (grant_store rp_count rp CkWriteResp (decode_credit_encoding (ucast e)) grants, br'))
                     [0..<MAX_RESOURCE_PLANES] (grants3, br3);
                 br5 = br_skip br4 17
             in (br_bit br5 = 80, grants4))"

lemma upt_4: "[0..<4] = [0, 1, 2, 3 :: nat]"
  by (simp add: upt_rec)

abbreviation enc3 :: "credit_matrix \<Rightarrow> nat \<Rightarrow> nat \<Rightarrow> credit_kind \<Rightarrow> bool list" where
  "enc3 g n rp kind \<equiv> val_bits 3 (ucast (encode_credit_amount (grant_amount g n rp kind) 7))"

abbreviation enc2 :: "credit_matrix \<Rightarrow> nat \<Rightarrow> nat \<Rightarrow> bool list" where
  "enc2 g n rp \<equiv> val_bits 2 (ucast (encode_credit_amount (grant_amount g n rp CkWriteResp) 3))"

lemma aou_message0_data: "am_data aou_message0 = replicate 240 0"
  by (simp add: aou_message0_def aou_consts)

text \<open>The 80 bits of the grant message, followed by the zero padding of the buffer.\<close>

definition crdt_grant_bits :: "credit_matrix \<Rightarrow> nat \<Rightarrow> bool list" where
  "crdt_grant_bits g n = val_bits 4 0 @ val_bits 3 4 @
     concat (map (\<lambda>kind. enc3 g n 0 kind @ enc3 g n 1 kind @ enc3 g n 2 kind @ enc3 g n 3 kind) grant_kinds) @
     enc2 g n 0 @ enc2 g n 1 @ enc2 g n 2 @ enc2 g n 3 @ replicate 17 False"

lemma length_crdt_grant_bits [simp]: "length (crdt_grant_bits g n) = 80"
  by (simp add: crdt_grant_bits_def grant_kinds_def)

lemma build_crdt_grant:
  "build_crdt_grant_message g n = Inr (aou_message0\<lparr>am_type := Misc, am_rp := 0, am_granules := 2,
     am_byte_len := 10, am_data := bytes_of (crdt_grant_bits g n @ replicate 1840 False)\<rparr>)"
  unfolding build_crdt_grant_message_def Let_def
  by (simp add: aou_message0_data codec_simps upt_4 grant_kinds_def aou_consts granule_defs
      msg_type_code_def MISCOP_CRDT_GRANT_def crdt_grant_bits_def)
    (simp add: bw_of_def flip: replicate_add)

lemma grant_message_wf: "build_crdt_grant_message g n = Inr m \<Longrightarrow> wf_msg m"
proof -
  assume "build_crdt_grant_message g n = Inr m"
  then have m: "m = aou_message0\<lparr>am_type := Misc, am_rp := 0, am_granules := 2,
     am_byte_len := 10, am_data := bytes_of (crdt_grant_bits g n @ replicate 1840 False)\<rparr>"
    by (simp add: build_crdt_grant)
  obtain x ys where "crdt_grant_bits g n @ replicate 1840 False = val_bits 4 0 @ val_bits 3 4 @ x # ys"
    by (simp add: crdt_grant_bits_def grant_kinds_def val_bits_Suc eval_nat_numeral)
  note f = misc_byte_fields [OF this]
  have z: "drop 10 (bytes_of (crdt_grant_bits g n @ replicate 1840 False)) = replicate 230 0"
    by (simp add: drop_bytes_of)
  show ?thesis
    using f z by (simp add: wf_msg_def m message_granules_from_header_def msg_type_of_def
        msg_type_cast_def misc_op_of_def MISCOP_CRDT_GRANT_def granule_defs)
qed

lemma decode_enc_u64:
  "decode_credit_encoding (ucast (take_bit 3 (ucast e :: u64))) = decode_credit_encoding e"
proof -
  have "(ucast (take_bit 3 (ucast e :: u64)) :: u8) AND mask 3 = e AND mask 3"
    by (rule bit_word_eqI) (auto simp: bit_simps)
  then show ?thesis by (simp add: decode_credit_encoding_def mask_eq_exp_minus_1)
qed

lemma decode_enc2_u64:
  "decode_credit_encoding (ucast (take_bit 2 (ucast (encode_credit_amount p 3) :: u64))) =
   decode_credit_encoding (encode_credit_amount p 3)"
proof -
  have "encode_credit_amount p 3 AND mask 2 = encode_credit_amount p 3"
    using encode_and_mask [of 2 p] by simp
  then have "bit (encode_credit_amount p 3) i \<Longrightarrow> i < 2" for i by (rule masked_bits)
  then have "(ucast (take_bit 2 (ucast (encode_credit_amount p 3) :: u64)) :: u8) =
      encode_credit_amount p 3"
    by (intro bit_word_eqI) (auto simp: bit_simps)
  then show ?thesis by simp
qed

definition entry_keys :: "(nat \<times> credit_kind \<times> nat) list \<Rightarrow> (nat \<times> nat) list" where
  "entry_keys xs = map (\<lambda>(rp, kind, a). (rp, credit_kind_index kind)) xs"

lemma fold_grant_store:
  "\<forall>(rp, kind, a) \<in> set xs. a = F rp (credit_kind_index kind) \<Longrightarrow>
   fold (\<lambda>(rp, kind, a). grant_store n rp kind a) xs G rp k =
     (if rp < n \<and> (rp, k) \<in> set (entry_keys xs) then F rp k else G rp k)"
proof (induction xs arbitrary: G)
  case (Cons x xs)
  then show ?case
    by (cases x) (auto simp: grant_store_def matrix_upd_def entry_keys_def)
qed (simp add: entry_keys_def)

definition grant_entries :: "credit_matrix \<Rightarrow> nat \<Rightarrow> (nat \<times> credit_kind \<times> nat) list" where
  "grant_entries g n =
     concat (map (\<lambda>kind. map (\<lambda>rp. (rp, kind,
        decode_credit_encoding (encode_credit_amount (grant_amount g n rp kind) 7))) [0, 1, 2, 3]) grant_kinds) @
     map (\<lambda>rp. (rp, CkWriteResp,
        decode_credit_encoding (encode_credit_amount (grant_amount g n rp CkWriteResp) 3))) [0, 1, 2, 3]"

lemma decode_crdt_grant_bits:
  assumes "am_type m = Misc" "am_byte_len m \<ge> 10" "bits (am_data m) = crdt_grant_bits g n @ replicate 1840 False"
  shows "decode_crdt_grant_message m n =
    (True, fold (\<lambda>(rp, kind, a). grant_store n rp kind a) (grant_entries g n) zero_matrix)"
  using assms unfolding decode_crdt_grant_message_def Let_def crdt_grant_bits_def grant_entries_def
  by (simp add: br_init codec_simps upt_4 grant_kinds_def aou_consts granule_defs
      msg_type_code_def MISCOP_CRDT_GRANT_def decode_enc_u64 decode_enc2_u64)

text \<open>
  Decoding a built grant message yields, for each active plane and kind, the largest encodable
  amount not above the requested one; encodable amounts survive unchanged.
\<close>

lemma grant_message_roundtrip:
  assumes n: "n \<le> 4" and build: "build_crdt_grant_message g n = Inr m"
  shows "decode_crdt_grant_message m n = (True, \<lambda>rp k. if rp < n \<and> k < 5
    then decode_credit_encoding (encode_credit_amount (g rp k) (misc_max_enc k)) else 0)"
proof -
  define F where "F = (\<lambda>rp k. decode_credit_encoding (encode_credit_amount
      (if rp < n then g rp k else 0) (misc_max_enc k)))"
  have ent: "\<forall>(rp, kind, a) \<in> set (grant_entries g n). a = F rp (credit_kind_index kind)"
    by (simp add: grant_entries_def grant_kinds_def grant_amount_def misc_max_enc_def
        credit_kind_index_def F_def)
  have mem: "(rp, k) \<in> set (entry_keys (grant_entries g n)) \<longleftrightarrow> rp < 4 \<and> k < 5" for rp k
  proof -
    have keys: "entry_keys (grant_entries g n) = List.product [0, 1, 2, 3] [0] @
        List.product [0, 1, 2, 3] [1] @ List.product [0, 1, 2, 3] [2] @
        List.product [0, 1, 2, 3] [3] @ List.product [0, 1, 2, 3] [4]"
      by (simp add: grant_entries_def grant_kinds_def credit_kind_index_def entry_keys_def)
    have "rp < 4 \<longleftrightarrow> rp \<in> {0, 1, 2, 3}" "k < 5 \<longleftrightarrow> k \<in> {0, 1, 2, 3, 4}" by auto
    then show ?thesis unfolding keys by (simp only: set_append set_product) auto
  qed
  have "m = aou_message0\<lparr>am_type := Misc, am_rp := 0, am_granules := 2,
     am_byte_len := 10, am_data := bytes_of (crdt_grant_bits g n @ replicate 1840 False)\<rparr>"
    using build by (simp add: build_crdt_grant)
  then have "decode_crdt_grant_message m n =
      (True, fold (\<lambda>(rp, kind, a). grant_store n rp kind a) (grant_entries g n) zero_matrix)"
    by (intro decode_crdt_grant_bits) simp_all
  also have "fold (\<lambda>(rp, kind, a). grant_store n rp kind a) (grant_entries g n) zero_matrix =
      (\<lambda>rp k. if rp < n \<and> k < 5
        then decode_credit_encoding (encode_credit_amount (g rp k) (misc_max_enc k)) else 0)"
  proof (intro ext)
    fix rp k
    show "fold (\<lambda>(rp, kind, a). grant_store n rp kind a) (grant_entries g n) zero_matrix rp k =
        (if rp < n \<and> k < 5
         then decode_credit_encoding (encode_credit_amount (g rp k) (misc_max_enc k)) else 0)"
      unfolding fold_grant_store [OF ent] mem using n by (simp add: F_def zero_matrix_def)
  qed
  finally show ?thesis .
qed

text \<open>What a dedicated grant takes from the pending matrix.\<close>

definition misc_step :: "nat \<times> nat \<Rightarrow> credit_matrix \<times> credit_manager \<Rightarrow> credit_matrix \<times> credit_manager" where
  "misc_step = (\<lambda>(rp, k) (grants, c').
        (matrix_upd grants rp k (misc_grant c' rp k),
         c'\<lparr>cm_rx_pending_return := matrix_upd (cm_rx_pending_return c') rp k
              (cm_rx_pending_return c' rp k - misc_grant c' rp k)\<rparr>))"

lemma fold_misc_step:
  "distinct xs \<Longrightarrow> fold misc_step xs (zero_matrix, c) =
     (\<lambda>rp k. if (rp, k) \<in> set xs then misc_grant c rp k else 0,
      c\<lparr>cm_rx_pending_return := \<lambda>rp k. if (rp, k) \<in> set xs
          then cm_rx_pending_return c rp k - misc_grant c rp k else cm_rx_pending_return c rp k\<rparr>)"
proof (induction xs rule: rev_induct)
  case Nil
  then show ?case by (simp add: zero_matrix_def)
next
  case (snoc x xs)
  then show ?case
    by (cases x) (auto simp: misc_step_def matrix_upd_def misc_grant_def fun_eq_iff)
qed

lemma take_misc_grants_eq:
  "take_misc_grants c =
     (\<lambda>rp k. if rp < cm_rp_count c \<and> k < 5 then misc_grant c rp k else 0,
      c\<lparr>cm_rx_pending_return := \<lambda>rp k. if rp < cm_rp_count c \<and> k < 5
          then cm_rx_pending_return c rp k - misc_grant c rp k else cm_rx_pending_return c rp k\<rparr>)"
  using fold_misc_step [of "List.product [0..<cm_rp_count c] [0..<CREDIT_KIND_COUNT]" c]
  by (simp add: take_misc_grants_def misc_step_def distinct_product CREDIT_KIND_COUNT_def)

lemma misc_grant_le: "misc_grant c rp k \<le> cm_rx_pending_return c rp k"
  by (simp add: misc_grant_def decode_encode_le)

lemma encode_decode_fixpoint:
  assumes "n \<le> 7"
  shows "decode_credit_encoding (encode_credit_amount (decode_credit_encoding (encode_credit_amount p n)) n) =
         decode_credit_encoding (encode_credit_amount p n)"
proof -
  obtain e where e: "e \<le> n" "encode_credit_amount p n = of_nat e" using encode_ex by blast
  then show ?thesis
    using encode_maximal [of e n "decode_credit_encoding (of_nat e)"] assms decode_encode_le
    by (metis le_antisym order_refl)
qed

text \<open>The peer decodes from the dedicated message exactly the grants that were taken out.\<close>

lemma misc_grant_message:
  assumes wf: "wf_credits c" and take: "take_misc_grants c = (grants, c')"
  obtains m where "build_crdt_grant_message grants (cm_rp_count c) = Inr m"
    "decode_crdt_grant_message m (cm_rp_count c) = (True, grants)"
proof -
  obtain m where m: "build_crdt_grant_message grants (cm_rp_count c) = Inr m"
    using build_crdt_grant by blast
  have "decode_credit_encoding (encode_credit_amount (grants rp k) (misc_max_enc k)) = grants rp k"
    if "rp < cm_rp_count c" "k < 5" for rp k
    using take that encode_decode_fixpoint [of "misc_max_enc k" "cm_rx_pending_return c rp k"]
    by (auto simp: take_misc_grants_eq misc_grant_def misc_max_enc_def)
  moreover have "grants rp k = 0" if "\<not> (rp < cm_rp_count c \<and> k < 5)" for rp k
    using take that by (auto simp: take_misc_grants_eq)
  ultimately have "(\<lambda>rp k. if rp < cm_rp_count c \<and> k < 5
      then decode_credit_encoding (encode_credit_amount (grants rp k) (misc_max_enc k)) else 0) = grants"
    by (intro ext) auto
  then have "decode_crdt_grant_message m (cm_rp_count c) = (True, grants)"
    using grant_message_roundtrip [OF _ m] wf by (simp add: wf_credits_def)
  with m show ?thesis by (rule that)
qed

section \<open>Invariants of the operations\<close>

lemma cm_make_wf: "cm_make n cap = Inr c \<Longrightarrow> wf_credits c"
  by (auto simp: cm_make_def wf_credits_def zero_matrix_def MAX_RESOURCE_PLANES_def split: if_splits)

lemma cm_reset_wf [wf_intros]: "wf_credits c \<Longrightarrow> wf_credits (cm_reset c)"
  by (simp add: wf_credits_def cm_reset_def zero_matrix_def)

lemma publish_wf [wf_intros]: "wf_credits c \<Longrightarrow> wf_credits (publish_initial_capacity c)"
  by (simp add: wf_credits_def publish_initial_capacity_def)

lemma add_tx_credit_wf [wf_intros]: "wf_credits c \<Longrightarrow> wf_credits (add_tx_credit c u)"
  by (auto simp: wf_credits_def add_tx_credit_def matrix_upd_def Let_def)

lemma return_rx_credit_wf [wf_intros]: "wf_credits c \<Longrightarrow> wf_credits (return_rx_credit c u)"
  by (auto simp: wf_credits_def return_rx_credit_def matrix_upd_def Let_def)

lemma consume_wf: "wf_credits c \<Longrightarrow> consume c rp t n = Inr c' \<Longrightarrow> wf_credits c'"
  by (auto simp: wf_credits_def consume_def matrix_upd_def Let_def intro!: diff_le_bound split: if_splits)

lemma take_misc_wf: "wf_credits c \<Longrightarrow> take_misc_grants c = (g, c') \<Longrightarrow> wf_credits c'"
  by (auto simp: wf_credits_def take_misc_grants_eq intro!: diff_le_bound)

text \<open>The guard of \<^verbatim>\<open>select_from\<close> is exactly what the assertions of \<^verbatim>\<open>consume\<close> demand.\<close>

lemma consume_ok_iff: "(\<exists>c'. consume c rp t n = Inr c') \<longleftrightarrow> can_consume c rp t n"
  by (auto simp: consume_def can_consume_def Let_def split: if_splits)

lemma rp_count_frame [simp]:
  "cm_rp_count (cm_reset c) = cm_rp_count c"
  "cm_rp_count (publish_initial_capacity c) = cm_rp_count c"
  "cm_rp_count (add_tx_credit c u) = cm_rp_count c"
  "cm_rp_count (return_rx_credit c u) = cm_rp_count c"
  by (simp_all add: cm_reset_def publish_initial_capacity_def add_tx_credit_def return_rx_credit_def Let_def)

lemma consume_rp_count: "consume c rp t n = Inr c' \<Longrightarrow> cm_rp_count c' = cm_rp_count c"
  by (auto simp: consume_def Let_def split: if_splits)

lemma take_misc_rp_count: "take_misc_grants c = (g, c') \<Longrightarrow> cm_rp_count c' = cm_rp_count c"
  by (auto simp: take_misc_grants_eq)

lemma take_header_rp_count: "take_header_grant c = (f, c') \<Longrightarrow> cm_rp_count c' = cm_rp_count c"
  by (auto simp: take_header_grant_eq split: option.splits)

end
