(* ===== verification/Credit_Flow.thy ===== *)
theory Credit_Flow
  imports Credit_Manager
begin

text \<open>
  What the credit protocol promises over many grants: an interface for codes of amounts, used for
  the three-bit and the two-bit fields of \<^verbatim>\<open>credit_manager.h\<close>, the conservation of credits by
  header fields and dedicated messages, and the complete draining of the pending matrix.
\<close>

section \<open>Codes of amounts\<close>

text \<open>
  The contract a sender of amounts relies on: a code never announces more than is pending, a
  decoded amount is encodable as it is, and a nonzero amount makes progress.
\<close>

locale amount_code =
  fixes enc :: "nat \<Rightarrow> 'c" and dec :: "'c \<Rightarrow> nat"
  assumes dec_enc_le: "dec (enc p) \<le> p"
    and dec_enc_idem: "dec (enc (dec (enc p))) = dec (enc p)"
    and dec_enc_pos: "0 < p \<Longrightarrow> 0 < dec (enc p)"
begin

lemma rest_less: "0 < p \<Longrightarrow> p - dec (enc p) < p"
  using dec_enc_pos [of p] by simp

lemma drain: "p \<le> n \<Longrightarrow> ((\<lambda>p. p - dec (enc p)) ^^ n) p = 0"
proof (induction n arbitrary: p)
  case (Suc n)
  have "p - dec (enc p) \<le> n" using Suc.prems dec_enc_pos [of p] by (cases "p = 0") simp_all
  then show ?case using Suc.IH by (simp add: funpow_Suc_right del: funpow.simps)
qed simp

text \<open>The amounts announced on the way and the rest add up to the start.\<close>

lemma announced_total:
  "(\<Sum>i<n. dec (enc (((\<lambda>p. p - dec (enc p)) ^^ i) p))) + ((\<lambda>p. p - dec (enc p)) ^^ n) p = p"
proof (induction n)
  case (Suc n)
  then show ?case using dec_enc_le [of "((\<lambda>p. p - dec (enc p)) ^^ n) p"] by simp
qed simp

end

lemma encode_field_code:
  assumes "0 < n" "n \<le> 7"
  shows "amount_code (\<lambda>p. encode_credit_amount p n) decode_credit_encoding"
  using assms by unfold_locales (simp_all add: decode_encode_le encode_decode_fixpoint encode_progress)

interpretation three_bit: amount_code "\<lambda>p. encode_credit_amount p 7" decode_credit_encoding
  by (rule encode_field_code) simp_all

interpretation two_bit: amount_code "\<lambda>p. encode_credit_amount p 3" decode_credit_encoding
  by (rule encode_field_code) simp_all

text \<open>The code of a counter by its kind index.\<close>

lemma misc_grant_cases:
  "misc_grant c rp k = (if k = 4
     then decode_credit_encoding (encode_credit_amount (cm_rx_pending_return c rp k) 3)
     else decode_credit_encoding (encode_credit_amount (cm_rx_pending_return c rp k) 7))"
  by (simp add: misc_grant_def misc_max_enc_def credit_kind_index_def)

section \<open>Draining by dedicated grants\<close>

abbreviation misc_round :: "credit_manager \<Rightarrow> credit_manager" where
  "misc_round c \<equiv> snd (take_misc_grants c)"

lemma misc_round_simps:
  "cm_rp_count (misc_round c) = cm_rp_count c"
  "rp < cm_rp_count c \<Longrightarrow> k < 5 \<Longrightarrow>
     cm_rx_pending_return (misc_round c) rp k = cm_rx_pending_return c rp k - misc_grant c rp k"
  "rp < cm_rp_count c \<Longrightarrow> k < 5 \<Longrightarrow> fst (take_misc_grants c) rp k = misc_grant c rp k"
  by (simp_all add: take_misc_grants_eq)

lemma misc_rounds_count: "cm_rp_count ((misc_round ^^ n) c) = cm_rp_count c"
  by (induction n) (simp_all add: misc_round_simps)

lemma misc_rounds_pending:
  assumes "rp < cm_rp_count c" "k < 5"
  shows "cm_rx_pending_return ((misc_round ^^ n) c) rp k =
    (if k = 4 then ((\<lambda>p. p - decode_credit_encoding (encode_credit_amount p 3)) ^^ n) (cm_rx_pending_return c rp k)
     else ((\<lambda>p. p - decode_credit_encoding (encode_credit_amount p 7)) ^^ n) (cm_rx_pending_return c rp k))"
proof (induction n)
  case (Suc n)
  then show ?case using assms
    by (cases "k = 4") (simp_all add: misc_round_simps misc_rounds_count misc_grant_cases)
qed simp

lemma no_pending_iff:
  "\<not> has_pending_returns c \<longleftrightarrow> (\<forall>rp < cm_rp_count c. \<forall>k < 5. cm_rx_pending_return c rp k = 0)"
  by (auto simp: has_pending_returns_def rp_has_pending_def list_ex_iff CREDIT_KIND_COUNT_def)

lemma misc_rounds_drain:
  assumes "\<And>rp k. rp < cm_rp_count c \<Longrightarrow> k < 5 \<Longrightarrow> cm_rx_pending_return c rp k \<le> n"
  shows "\<not> has_pending_returns ((misc_round ^^ n) c)"
  unfolding no_pending_iff misc_rounds_count
  using assms by (simp add: misc_rounds_pending three_bit.drain two_bit.drain)

lemma misc_rounds_total:
  assumes "rp < cm_rp_count c" "k < 5"
  shows "(\<Sum>i<n. fst (take_misc_grants ((misc_round ^^ i) c)) rp k) +
    cm_rx_pending_return ((misc_round ^^ n) c) rp k = cm_rx_pending_return c rp k"
proof (induction n)
  case (Suc n)
  then show ?case using assms misc_grant_le [of "(misc_round ^^ n) c" rp k]
    by (simp add: misc_round_simps misc_rounds_count)
qed simp

section \<open>Draining by header fields\<close>

definition pending_total :: "credit_manager \<Rightarrow> nat" where
  "pending_total c = (\<Sum>rp<cm_rp_count c. \<Sum>k<5. cm_rx_pending_return c rp k)"

lemma pending_total_zero_iff: "pending_total c = 0 \<longleftrightarrow> \<not> has_pending_returns c"
  by (auto simp: pending_total_def no_pending_iff)

abbreviation header_round :: "credit_manager \<Rightarrow> credit_manager" where
  "header_round c \<equiv> snd (take_header_grant c)"

lemma misc_grant_pos: "0 < cm_rx_pending_return c rp k \<Longrightarrow> 0 < misc_grant c rp k"
  by (cases "k = 4") (simp_all add: misc_grant_cases three_bit.dec_enc_pos two_bit.dec_enc_pos)

lemma header_round_none: "\<not> has_pending_returns c \<Longrightarrow> take_header_grant c = (0, c)"
proof -
  assume "\<not> has_pending_returns c"
  then have "find (rp_has_pending c) (rp_rotation (cm_next_header_rp c) (cm_rp_count c)) = None"
    using rp_rotation_bound [of "cm_rp_count c"]
    by (auto simp: find_None_iff no_pending_iff rp_has_pending_def list_ex_iff CREDIT_KIND_COUNT_def)
      (metis gr_implies_not0 not_gr_zero upt_0 list.map(1) list.set(1) empty_iff rp_rotation_def)
  then show ?thesis by (simp add: take_header_grant_eq)
qed

lemma header_round_plane:
  assumes "has_pending_returns c"
  obtains p where "p < cm_rp_count c" "rp_has_pending c p"
    "cm_rx_pending_return (header_round c) = pending_taken c p"
proof -
  obtain p where p: "p < cm_rp_count c" "rp_has_pending c p"
    using assms by (auto simp: has_pending_returns_def list_ex_iff)
  then have "list_ex (rp_has_pending c) (rp_rotation (cm_next_header_rp c) (cm_rp_count c))"
    using rp_rotation_all by (auto simp: list_ex_iff)
  then obtain q where q: "find (rp_has_pending c) (rp_rotation (cm_next_header_rp c) (cm_rp_count c)) = Some q"
    by (metis find_None_list_ex not_None_eq)
  then have "rp_has_pending c q" "q < cm_rp_count c"
    using find_Some_iff [OF q] rp_rotation_bound [of "cm_rp_count c"] p(1) by auto
  then show ?thesis using that q by (simp add: take_header_grant_eq)
qed

lemma header_round_count: "cm_rp_count (header_round c) = cm_rp_count c"
  by (simp add: take_header_grant_eq split: option.split)

lemma header_round_decreases: "has_pending_returns c \<Longrightarrow> pending_total (header_round c) < pending_total c"
proof -
  assume "has_pending_returns c"
  then obtain p where p: "p < cm_rp_count c" "rp_has_pending c p"
    "cm_rx_pending_return (header_round c) = pending_taken c p" by (rule header_round_plane)
  from p(2) obtain k where k: "k < 5" "0 < cm_rx_pending_return c p k"
    by (auto simp: rp_has_pending_def list_ex_iff CREDIT_KIND_COUNT_def)
  have less: "pending_taken c p p k < cm_rx_pending_return c p k"
    using k misc_grant_pos [OF k(2)] by (simp add: pending_taken_def)
  have row: "(\<Sum>k<5. pending_taken c p p k) < (\<Sum>k<5. cm_rx_pending_return c p k)"
    using k less by (intro sum_strict_mono_ex1) (auto simp: pending_taken_def)
  have "(\<Sum>rp<cm_rp_count c. \<Sum>k<5. pending_taken c p rp k) < pending_total c"
    unfolding pending_total_def
  proof (intro sum_strict_mono_ex1 ballI)
    show "\<exists>a\<in>{..<cm_rp_count c}. (\<Sum>k<5. pending_taken c p a k) < (\<Sum>k<5. cm_rx_pending_return c a k)"
      using p(1) row by blast
  qed (auto simp: pending_taken_def intro!: sum_mono)
  then show ?thesis by (simp add: pending_total_def header_round_count p(3))
qed

lemma header_rounds_drain: "pending_total c \<le> n \<Longrightarrow> \<not> has_pending_returns ((header_round ^^ n) c)"
proof (induction n arbitrary: c)
  case 0
  then show ?case by (simp add: pending_total_zero_iff flip: pending_total_zero_iff)
next
  case (Suc n)
  then have "pending_total (header_round c) \<le> n"
    using header_round_decreases [of c] header_round_none [of c]
    by (cases "has_pending_returns c") (simp_all add: pending_total_zero_iff [THEN iffD2])
  then show ?case using Suc.IH by (simp add: funpow_Suc_right del: funpow.simps)
qed

section \<open>Histories of the manager\<close>

text \<open>The public operations, as events; an assertion that fails ends the history.\<close>

datatype credit_event = PublishCapacity | Granted credit_update | Spent nat msg_type nat
  | Returned credit_update | HeaderGrant | MiscGrant

definition credit_event_step :: "credit_event \<Rightarrow> credit_manager \<Rightarrow> credit_manager result" where
  "credit_event_step e c = (case e of
       PublishCapacity \<Rightarrow> Inr (publish_initial_capacity c)
     | Granted u \<Rightarrow> Inr (add_tx_credit c u)
     | Spent rp t n \<Rightarrow> consume c rp t n
     | Returned u \<Rightarrow> Inr (return_rx_credit c u)
     | HeaderGrant \<Rightarrow> Inr (header_round c)
     | MiscGrant \<Rightarrow> Inr (misc_round c))"

fun credit_run :: "credit_event list \<Rightarrow> credit_manager \<Rightarrow> credit_manager result" where
  "credit_run [] c = Inr c"
| "credit_run (e # es) c = bindR (credit_event_step e c) (credit_run es)"

text \<open>What a history grants to, and spends from, one transmit counter.\<close>

definition granted :: "credit_event list \<Rightarrow> nat \<Rightarrow> nat \<Rightarrow> nat" where
  "granted es rp k = sum_list (map (\<lambda>e. case e of
     Granted u \<Rightarrow> if cu_rp u = rp \<and> credit_kind_index (cu_kind u) = k then cu_granules u else 0
   | _ \<Rightarrow> 0) es)"

definition spent :: "credit_event list \<Rightarrow> nat \<Rightarrow> nat \<Rightarrow> nat" where
  "spent es rp k = sum_list (map (\<lambda>e. case e of
     Spent rp' t n \<Rightarrow> if rp' = rp \<and> credit_kind_index (msgtype_to_credit_kind t) = k then n else 0
   | _ \<Rightarrow> 0) es)"

lemma credit_round_wf [wf_intros]:
  "wf_credits c \<Longrightarrow> wf_credits (header_round c)" "wf_credits c \<Longrightarrow> wf_credits (misc_round c)"
  by (erule header_grant_wf [OF _ surjective_pairing], erule take_misc_wf [OF _ surjective_pairing])

lemma credit_event_wf: "wf_credits c \<Longrightarrow> credit_event_step e c = Inr c' \<Longrightarrow> wf_credits c'"
  by (cases e) (auto simp: credit_event_step_def intro: wf_intros consume_wf simp del: fst_conv snd_conv)

lemma credit_run_wf: "wf_credits c \<Longrightarrow> credit_run es c = Inr c' \<Longrightarrow> wf_credits c'"
proof (induction es arbitrary: c)
  case (Cons e es)
  then show ?case using credit_event_wf [of c e]
    by (cases "credit_event_step e c") (auto simp: bindR_def)
qed simp

lemma add_u32_le: "add_u32 a b \<le> a + b"
  by (simp add: add_u32_def)

lemma round_tx [simp]:
  "cm_tx_available (misc_round c) = cm_tx_available c"
  "cm_tx_available (header_round c) = cm_tx_available c"
  by (simp_all add: take_misc_grants_eq take_header_grant_eq split: option.split)

lemma add_tx_credit_bound:
  "cm_tx_available (add_tx_credit c u) rp k \<le> cm_tx_available c rp k +
     (if cu_rp u = rp \<and> credit_kind_index (cu_kind u) = k then cu_granules u else 0)"
  using add_u32_le [of "cm_tx_available c rp k" "cu_granules u"]
  by (auto simp: add_tx_credit_def matrix_upd_def Let_def)

lemma consume_spends:
  "consume c rp' t n = Inr c' \<Longrightarrow> cm_tx_available c' rp k +
     (if rp' = rp \<and> credit_kind_index (msgtype_to_credit_kind t) = k then n else 0) =
     cm_tx_available c rp k"
  by (auto simp: consume_def matrix_upd_def Let_def split: if_splits)

lemma credit_event_tx:
  assumes "credit_event_step e c = Inr c'"
  shows "cm_tx_available c' rp k + spent [e] rp k \<le> cm_tx_available c rp k + granted [e] rp k"
proof (cases e)
  case (Granted u)
  then show ?thesis using assms add_tx_credit_bound [of c u rp k]
    by (simp add: credit_event_step_def spent_def granted_def)
next
  case (Spent rp' t n)
  then show ?thesis using assms consume_spends [of c rp' t n c' rp k]
    by (simp add: credit_event_step_def spent_def granted_def)
qed (use assms in \<open>auto simp: credit_event_step_def spent_def granted_def
    publish_initial_capacity_def return_rx_credit_def Let_def\<close>)

lemma credit_run_tx:
  "credit_run es c = Inr c' \<Longrightarrow>
   cm_tx_available c' rp k + spent es rp k \<le> cm_tx_available c rp k + granted es rp k"
proof (induction es arbitrary: c)
  case (Cons e es)
  then obtain c1 where c1: "credit_event_step e c = Inr c1" "credit_run es c1 = Inr c'"
    by (cases "credit_event_step e c") (auto simp: bindR_def)
  have "spent (e # es) rp k = spent [e] rp k + spent es rp k"
    "granted (e # es) rp k = granted [e] rp k + granted es rp k"
    by (simp_all add: spent_def granted_def)
  then show ?case using Cons.IH [OF c1(2)] credit_event_tx [OF c1(1), of rp k] by simp
qed (simp add: spent_def granted_def)

section \<open>Properties\<close>

text \<open>A two-plane manager with capacity 200 everywhere and some of it pending.\<close>

definition sample_credits :: credit_manager where
  "sample_credits = \<lparr>cm_rp_count = 2, cm_next_header_rp = 0, cm_tx_available = (\<lambda>_ _. 0),
     cm_rx_capacity = (\<lambda>_ _. 200),
     cm_rx_pending_return = (\<lambda>rp k. if rp = 1 \<and> k = 3 then 130 else if rp = 1 then 7 else 0)\<rparr>"

lemma sample_credits_wf: "wf_credits sample_credits"
  by (simp add: wf_credits_def sample_credits_def CREDIT_COUNTER_MAX_def)

text \<open>
  C21. A header field moves credits and never creates or loses any: for every counter of an active
  plane, the amount that leaves the pending matrix is the amount the peer decodes from the field.
\<close>

theorem header_credit_conserved:
  assumes "wf_credits c" "take_header_grant c = (field, c')" "rp < cm_rp_count c" "k < 5"
  shows "cm_rx_pending_return c rp k =
    cm_rx_pending_return c' rp k + update_sum (decode_header_credits field (cm_rp_count c)) rp k"
  using assms by (rule header_grant_conserves)

theorem header_credit_conserved_witness:
  "cm_rx_pending_return sample_credits 1 3 =
     cm_rx_pending_return (header_round sample_credits) 1 3 +
     update_sum (decode_header_credits (fst (take_header_grant sample_credits)) 2) 1 3"
  using header_credit_conserved [OF sample_credits_wf, of "fst (take_header_grant sample_credits)"
      "header_round sample_credits" 1 3]
  by (simp add: sample_credits_def)

text \<open>
  C29. A dedicated grant can always be built, is a well-formed message, and the peer decodes from it
  exactly the matrix that was taken out of the pending returns, which is reduced by that matrix.
\<close>

theorem dedicated_grant_delivered:
  assumes "wf_credits c" "take_misc_grants c = (grants, c')"
  shows "\<exists>m. build_crdt_grant_message grants (cm_rp_count c) = Inr m \<and> wf_msg m \<and>
    decode_crdt_grant_message m (cm_rp_count c) = (True, grants) \<and>
    (\<forall>rp k. cm_rx_pending_return c rp k = cm_rx_pending_return c' rp k + grants rp k)"
proof -
  obtain m where m: "build_crdt_grant_message grants (cm_rp_count c) = Inr m"
    "decode_crdt_grant_message m (cm_rp_count c) = (True, grants)"
    using misc_grant_message [OF assms] .
  have "cm_rx_pending_return c rp k = cm_rx_pending_return c' rp k + grants rp k" for rp k
    using assms(2) misc_grant_le [of c rp k] by (auto simp: take_misc_grants_eq)
  with m show ?thesis by (blast intro: grant_message_wf)
qed

theorem dedicated_grant_delivered_witness:
  "\<exists>m. build_crdt_grant_message (fst (take_misc_grants sample_credits)) 2 = Inr m \<and>
     decode_crdt_grant_message m 2 = (True, fst (take_misc_grants sample_credits))"
  using dedicated_grant_delivered [OF sample_credits_wf, of "fst (take_misc_grants sample_credits)"
      "misc_round sample_credits"]
  by (auto simp: sample_credits_def)

text \<open>
  C27. Every pending credit is eventually announced: as many header fields as there are pending
  granules, or as many dedicated grants as the largest counter, leave nothing pending, and the
  dedicated grants sent on the way add up to the pending amount.
\<close>

theorem pending_returns_drain:
  assumes "rp < cm_rp_count c" "k < 5"
  shows "(pending_total c \<le> n \<longrightarrow> \<not> has_pending_returns ((header_round ^^ n) c)) \<and>
    ((\<forall>rp k. cm_rx_pending_return c rp k \<le> n) \<longrightarrow>
      \<not> has_pending_returns ((misc_round ^^ n) c) \<and>
      (\<Sum>i<n. fst (take_misc_grants ((misc_round ^^ i) c)) rp k) = cm_rx_pending_return c rp k)"
proof -
  have "(\<Sum>i<n. fst (take_misc_grants ((misc_round ^^ i) c)) rp k) = cm_rx_pending_return c rp k"
    if "\<forall>rp k. cm_rx_pending_return c rp k \<le> n"
    using misc_rounds_total [OF assms, of n] misc_rounds_drain [of c n] that assms
    by (simp add: no_pending_iff misc_rounds_count)
  then show ?thesis using header_rounds_drain misc_rounds_drain by blast
qed

theorem pending_returns_drain_witness:
  "\<not> has_pending_returns ((header_round ^^ 158) sample_credits) \<and>
   \<not> has_pending_returns ((misc_round ^^ 130) sample_credits)"
proof -
  have t: "pending_total sample_credits = 158"
    by (simp add: pending_total_def sample_credits_def numeral_eq_Suc lessThan_Suc)
  have p: "\<forall>rp k. cm_rx_pending_return sample_credits rp k \<le> 130" "1 < cm_rp_count sample_credits"
    by (simp_all add: sample_credits_def)
  show ?thesis
    using pending_returns_drain [OF p(2), of 0 158] pending_returns_drain [OF p(2), of 0 130] t p(1)
    by simp
qed

text \<open>
  C10. No overspending: in every history that trips no assertion, what was spent from a transmit
  counter and what is left never exceed what the peer granted; counters stay within their maximum
  and pending returns within the announced capacity.
\<close>

theorem no_overspending:
  assumes "cm_make n capacity = Inr c0" "credit_run es c0 = Inr c"
  shows "wf_credits c \<and> spent es rp k + cm_tx_available c rp k \<le> granted es rp k"
proof -
  have "cm_tx_available c0 rp k = 0" using assms(1) by (auto simp: cm_make_def zero_matrix_def split: if_splits)
  then show ?thesis
    using credit_run_tx [OF assms(2), of rp k] credit_run_wf [OF cm_make_wf assms(2)] assms(1)
    by simp
qed

theorem no_overspending_witness:
  "\<exists>c0 c. cm_make 1 zero_matrix = Inr c0 \<and>
     credit_run [Granted \<lparr>cu_rp = 0, cu_kind = CkReadReq, cu_granules = 8\<rparr>, Spent 0 ReadReq 3] c0 = Inr c \<and>
     spent [Granted \<lparr>cu_rp = 0, cu_kind = CkReadReq, cu_granules = 8\<rparr>, Spent 0 ReadReq 3] 0 1 +
       cm_tx_available c 0 1 \<le> 8"
proof -
  let ?es = "[Granted \<lparr>cu_rp = 0, cu_kind = CkReadReq, cu_granules = 8\<rparr>, Spent 0 ReadReq 3]"
  obtain c0 where c0: "cm_make 1 zero_matrix = Inr c0"
    by (simp add: cm_make_def MAX_RESOURCE_PLANES_def)
  then obtain c where c: "credit_run ?es c0 = Inr c"
    by (auto simp: cm_make_def credit_event_step_def add_tx_credit_def cm_valid_def consume_def
        Let_def bindR_def matrix_upd_def credit_kind_index_def msgtype_to_credit_kind_def
        zero_matrix_def CREDIT_COUNTER_MAX_def split: if_splits)
  have "granted ?es 0 1 = 8" by (simp add: granted_def credit_kind_index_def)
  with no_overspending [OF c0 c, of 0 1] c0 c show ?thesis by auto
qed

end
