(* ===== verification/Stream_Decoder.thy ===== *)
theory Stream_Decoder
  imports Aou_Flit
begin

text \<open>
  \<^verbatim>\<open>AouStreamDecoder\<close> of \<^verbatim>\<open>aou_stream_decoder.h\<close>: reassembly of messages from the granules of
  successive flits. The main lemma states that a flit whose layout is the rest of a cut message
  followed by pieces decodes to exactly those messages and leaves the new cut behind.
\<close>

section \<open>The decoder\<close>

record stream_decoder =
  sd_carry :: aou_message
  sd_have :: int

definition stream_decoder0 :: stream_decoder where
  "stream_decoder0 = \<lparr>sd_carry = aou_message0, sd_have = 0\<rparr>"

definition sd_reset :: "stream_decoder \<Rightarrow> stream_decoder" where
  "sd_reset d = d\<lparr>sd_carry := aou_message0, sd_have := 0\<rparr>"

definition carry_active :: "stream_decoder \<Rightarrow> bool" where
  "carry_active d \<longleftrightarrow> sd_have d \<noteq> 0"

record decode_result =
  dr_messages :: "aou_message list"
  dr_used_granules :: nat

definition copy_bytes :: "u8 list \<Rightarrow> nat \<Rightarrow> nat \<Rightarrow> u8 list \<Rightarrow> nat \<Rightarrow> u8 list" where
  "copy_bytes src s n dst d = store_loop d n (\<lambda>i. src ! (s + i)) dst"

text \<open>The message object built from the header byte at granule \<open>g\<close> and the granules present.\<close>

definition start_msg :: "aou_flit \<Rightarrow> nat \<Rightarrow> nat \<Rightarrow> aou_message" where
  "start_msg f g taken =
     (let b0 = fl_payload f ! (g * 5); total = message_granules_from_header b0
      in aou_message0\<lparr>am_type := msg_type_of b0, am_rp := msg_rp_of b0, am_granules := total,
           am_byte_len := total * GRANULE_BYTES,
           am_data := copy_bytes (fl_payload f) (g * 5) (taken * 5) (am_data aou_message0) 0\<rparr>)"

text \<open>The scan of \<^verbatim>\<open>parse\<close> from granule \<open>g\<close> on: total length, granules present, inner starts.\<close>

definition scan_total :: "aou_flit \<Rightarrow> nat \<Rightarrow> int" where
  "scan_total f g = message_granules_from_header (fl_payload f ! (g * 5))"

definition scan_take :: "aou_flit \<Rightarrow> nat \<Rightarrow> nat" where
  "scan_take f g = min (nat (scan_total f g)) (48 - g)"

definition interior :: "nat \<Rightarrow> u64" where
  "interior taken = (push_bit taken 1 - 1) AND NOT 1"

function parse_loop ::
  "aou_flit \<Rightarrow> nat \<Rightarrow> stream_decoder \<Rightarrow> decode_result \<Rightarrow> (stream_decoder \<times> decode_result) result" where
  "parse_loop f g d r =
     (if g \<ge> 48 then Inr (d, r)
      else if drop_bit g (fl_msg_start f) AND 1 = 0 then parse_loop f (g + 1) d r
      else if scan_total f g \<le> 0 \<or> scan_total f g * GRANULE_BYTES > MSG_MAX_BYTES
        then Inl (InvalidArgument ''message type, MiscOp or DLENGTH'')
      else if drop_bit g (fl_msg_start f) AND interior (scan_take f g) \<noteq> 0
        then Inl (InvalidArgument ''MsgStart inside the previous message'')
      else if int (scan_take f g) = scan_total f g
        then parse_loop f (g + scan_take f g) d
          (r\<lparr>dr_messages := dr_messages r @ [start_msg f g (scan_take f g)],
             dr_used_granules := dr_used_granules r + scan_take f g\<rparr>)
      else parse_loop f (g + scan_take f g)
          (d\<lparr>sd_carry := start_msg f g (scan_take f g), sd_have := int (scan_take f g)\<rparr>)
          (r\<lparr>dr_used_granules := dr_used_granules r + scan_take f g\<rparr>))"
  by pat_completeness auto
termination
  by (relation "measure (\<lambda>(f, g, d, r). 48 - g)") (auto simp: scan_take_def)

declare parse_loop.simps [simp del]

definition sd_parse :: "stream_decoder \<Rightarrow> aou_flit \<Rightarrow> (stream_decoder \<times> decode_result) result" where
  "sd_parse d f =
     (if drop_bit 48 (fl_msg_start f) \<noteq> 0 then Inl (InvalidArgument ''MsgStart beyond 48 bit'')
      else if sd_have d \<noteq> 0 then
        let taken = min (am_granules (sd_carry d) - sd_have d) GRANULE_COUNT
        in if fl_msg_start f AND (push_bit (nat taken) 1 - 1) \<noteq> 0
           then Inl (InvalidArgument ''MsgStart overlaps the continuation'')
           else
             let carry = (sd_carry d)\<lparr>am_data := copy_bytes (fl_payload f) 0
                   (nat (taken * GRANULE_BYTES)) (am_data (sd_carry d)) (nat (sd_have d * GRANULE_BYTES))\<rparr>;
                 have' = sd_have d + taken
             in if have' = am_granules carry
                then parse_loop f (nat taken) (d\<lparr>sd_carry := carry, sd_have := 0\<rparr>)
                       \<lparr>dr_messages = [carry], dr_used_granules = nat taken\<rparr>
                else parse_loop f (nat taken) (d\<lparr>sd_carry := carry, sd_have := have'\<rparr>)
                       \<lparr>dr_messages = [], dr_used_granules = nat taken\<rparr>
      else parse_loop f 0 d \<lparr>dr_messages = [], dr_used_granules = 0\<rparr>)"

text \<open>
  \<^verbatim>\<open>consume\<close> parses with a copy and stores the copy back only when no exception was thrown:
  the new state and the outcome.
\<close>

definition sd_consume :: "stream_decoder \<Rightarrow> aou_flit \<Rightarrow> stream_decoder \<times> decode_result result" where
  "sd_consume d f = (case sd_parse d f of Inl e \<Rightarrow> (d, Inl e) | Inr (d', r) \<Rightarrow> (d', Inr r))"

section \<open>Decoding a laid-out flit\<close>

lemma exp_minus_one_mask: "push_bit n 1 - 1 = (mask n :: u64)"
  by (simp add: mask_eq_exp_minus_1)

lemma and_mask_zero_iff: "x AND (push_bit n 1 - 1) = 0 \<longleftrightarrow> (\<forall>j<n. \<not> bit (x :: u64) j)"
  unfolding exp_minus_one_mask word_eq_0_iff_bits
  using bit_imp_le_length [of x] by (fastforce simp: bit_and_iff bit_mask_iff)

lemma and_interior_zero_iff:
  "drop_bit g x AND interior n = 0 \<longleftrightarrow> (\<forall>i. 0 < i \<and> i < n \<longrightarrow> \<not> bit (x :: u64) (g + i))"
proof -
  have "bit x (g + i) \<Longrightarrow> i < 64" for i using bit_imp_le_length [of x "g + i"] by simp
  then show ?thesis
    unfolding exp_minus_one_mask word_eq_0_iff_bits interior_def
    by (fastforce simp: bit_and_iff bit_mask_iff bit_not_iff bit_drop_bit_eq bit_1_iff)
qed

lemma drop_bit_and_one: "drop_bit g x AND 1 = 0 \<longleftrightarrow> \<not> bit (x :: u64) g"
  by (auto simp: bit_iff_odd_drop_bit and_one_eq odd_iff_mod_2_eq_one)

lemma copy_bytes_0:
  "n \<le> length dst \<Longrightarrow> s + n \<le> length src \<Longrightarrow>
   copy_bytes src s n dst 0 = take n (drop s src) @ drop n dst"
  by (simp add: copy_bytes_def store_loop_eq map_nth_slice)

text \<open>The part of a layout still to be scanned, from granule \<open>g\<close>.\<close>

definition scan_at :: "aou_flit \<Rightarrow> nat \<Rightarrow> piece list \<Rightarrow> bool" where
  "scan_at f g ps \<longleftrightarrow>
     list_all wf_piece ps \<and> g + pieces_len ps \<le> 48 \<and>
     (list_all full_piece ps \<or> (g + pieces_len ps = 48 \<and> list_all full_piece (butlast ps))) \<and>
     length (fl_payload f) = 240 \<and>
     take (5 * pieces_len ps) (drop (5 * g) (fl_payload f)) = concat (map piece_bytes ps) \<and>
     (\<forall>j\<ge>g. bit (fl_msg_start f) j \<longleftrightarrow> j \<in> starts g ps)"

definition sd_is :: "stream_decoder \<Rightarrow> cut \<Rightarrow> bool" where
  "sd_is d c \<longleftrightarrow> (case c of None \<Rightarrow> sd_have d = 0
     | Some (m, k) \<Rightarrow> wf_cut c \<and> sd_have d = int k \<and> sd_carry d = msg_prefix m k)"

text \<open>What the pieces of one flit deliver, and the cut they leave.\<close>

definition full_msgs :: "piece list \<Rightarrow> aou_message list" where
  "full_msgs ps = map (\<lambda>p. strip_msg (fst p)) (filter full_piece ps)"

definition cut_after :: "piece list \<Rightarrow> cut" where
  "cut_after ps = (if ps = [] \<or> full_piece (last ps) then None else Some (last ps))"

lemma full_msgs_simps [simp]:
  "full_msgs [] = []"
  "full_msgs (p # ps) = (if full_piece p then [strip_msg (fst p)] else []) @ full_msgs ps"
  "full_msgs (ps @ qs) = full_msgs ps @ full_msgs qs"
  by (simp_all add: full_msgs_def)

lemma piece_head:
  assumes "wf_piece p"
  shows "piece_bytes p ! 0 = am_data (fst p) ! 0" "piece_bytes p \<noteq> []"
  using assms wf_piece_props(2,4) [OF assms] by (auto simp: piece_bytes_def)

lemma start_msg_piece:
  assumes wf: "wf_piece p" and len: "length (fl_payload f) = 240"
    and fits: "g + snd p \<le> 48"
    and bytes: "take (5 * snd p) (drop (5 * g) (fl_payload f)) = piece_bytes p"
  shows "start_msg f g (snd p) = msg_prefix (fst p) (snd p)"
    "message_granules_from_header (fl_payload f ! (g * 5)) = am_granules (fst p)"
proof -
  have wfm: "wf_msg (fst p)" and k: "0 < snd p" using wf by (auto simp: wf_piece_def)
  have "fl_payload f ! (g * 5) = take (5 * snd p) (drop (5 * g) (fl_payload f)) ! 0"
    using k fits len by (simp add: mult.commute)
  then have b0: "fl_payload f ! (g * 5) = am_data (fst p) ! 0"
    using bytes piece_head [OF wf] by simp
  then show "message_granules_from_header (fl_payload f ! (g * 5)) = am_granules (fst p)"
    using wfm by (simp add: wf_msg_def)
  have "copy_bytes (fl_payload f) (g * 5) (snd p * 5) (replicate 240 0) 0 =
      piece_bytes p @ replicate (240 - 5 * snd p) 0"
    using fits len bytes by (subst copy_bytes_0) (simp_all add: mult.commute)
  then show "start_msg f g (snd p) = msg_prefix (fst p) (snd p)"
    using wfm by (cases p) (simp add: start_msg_def b0 Let_def aou_message0_def aou_consts wf_msg_def
        msg_prefix_def piece_bytes_def)
qed

lemma parse_loop_done:
  assumes "\<forall>j\<ge>g. \<not> bit (fl_msg_start f) j"
  shows "parse_loop f g d r = Inr (d, r)"
  using assms
proof (induction "48 - g" arbitrary: g)
  case 0
  then show ?case by (subst parse_loop.simps) simp
next
  case (Suc n)
  from Suc.hyps(2) have "n = 48 - (g + 1)" "g < 48" by auto
  then have "parse_loop f (g + 1) d r = Inr (d, r)" using Suc.hyps(1) Suc.prems by simp
  moreover have "drop_bit g (fl_msg_start f) AND 1 = 0"
    using Suc.prems by (simp only: drop_bit_and_one) simp
  ultimately show ?case using \<open>g < 48\<close> by (subst parse_loop.simps) simp
qed

lemma parse_loop_piece:
  assumes scan: "scan_at f g (p # ps)"
  shows "parse_loop f g d r =
    (if full_piece p
     then parse_loop f (g + snd p) d (r\<lparr>dr_messages := dr_messages r @ [strip_msg (fst p)],
            dr_used_granules := dr_used_granules r + snd p\<rparr>)
     else parse_loop f (g + snd p) (d\<lparr>sd_carry := msg_prefix (fst p) (snd p), sd_have := int (snd p)\<rparr>)
            (r\<lparr>dr_used_granules := dr_used_granules r + snd p\<rparr>))"
proof -
  from scan have wf: "wf_piece p" and wfs: "list_all wf_piece ps"
    and fit: "g + snd p + pieces_len ps \<le> 48" and len: "length (fl_payload f) = 240"
    and st: "\<And>j. g \<le> j \<Longrightarrow> bit (fl_msg_start f) j \<longleftrightarrow> j \<in> starts g (p # ps)"
    by (auto simp: scan_at_def)
  note P = wf_piece_props [OF wf]
  note L = wf_msg_len [OF P(1)]
  have "take (5 * snd p) (take (5 * pieces_len (p # ps)) (drop (5 * g) (fl_payload f))) =
      take (5 * snd p) (concat (map piece_bytes (p # ps)))"
    using scan by (simp add: scan_at_def)
  then have bytes: "take (5 * snd p) (drop (5 * g) (fl_payload f)) = piece_bytes p"
    using P(4) by (simp add: min_def)
  note S = start_msg_piece [OF wf len _ bytes]
  have total: "scan_total f g = int (msg_len (fst p))"
    using S(2) fit L(3) by (simp add: scan_total_def)
  have start: "\<not> drop_bit g (fl_msg_start f) AND 1 = 0"
    using st [of g] by (simp add: drop_bit_and_one)
  have inner: "drop_bit g (fl_msg_start f) AND interior (snd p) = 0"
    unfolding and_interior_zero_iff
    using st starts_bounds [OF _ wfs] by force
  have "min (msg_len (fst p)) (48 - g) = snd p"
  proof (cases "full_piece p")
    case True
    then show ?thesis using fit by (auto simp: full_piece_def)
  next
    case False
    then have "ps = []" "g + snd p = 48" using scan by (auto simp: scan_at_def split: if_splits)
    then show ?thesis using wf by (auto simp: wf_piece_def)
  qed
  then have taken: "scan_take f g = snd p" by (simp add: scan_take_def total)
  have full: "snd p = msg_len (fst p) \<longleftrightarrow> full_piece p"
    using P(1) by (simp add: full_piece_def)
  have strip: "full_piece p \<Longrightarrow> msg_prefix (fst p) (snd p) = strip_msg (fst p)"
    using msg_prefix_full [OF P(1)] by (simp add: full_piece_def)
  have g48: "\<not> 48 \<le> g" using fit P(2) by simp
  have tot48: "msg_len (fst p) \<le> 48" "0 < msg_len (fst p)" using L by simp_all
  show ?thesis
    using start inner taken full g48 tot48 S(1) fit strip
    by (subst parse_loop.simps) (simp add: total aou_consts)
qed

lemma scan_at_tail:
  assumes "scan_at f g (p # ps)"
  shows "scan_at f (g + snd p) ps"
proof -
  have wf: "wf_piece p" and wfs: "list_all wf_piece ps" using assms by (auto simp: scan_at_def)
  have "take (5 * pieces_len ps) (drop (5 * (g + snd p)) (fl_payload f)) =
      drop (5 * snd p) (take (5 * pieces_len (p # ps)) (drop (5 * g) (fl_payload f)))"
    by (simp add: drop_take add.commute distrib_left)
  also have "\<dots> = drop (5 * snd p) (concat (map piece_bytes (p # ps)))"
    using assms by (simp add: scan_at_def)
  also have "\<dots> = concat (map piece_bytes ps)" using wf_piece_props(4) [OF wf] by simp
  finally show ?thesis
    using assms starts_bounds [of _ "g + snd p" ps]
    by (auto simp: scan_at_def add.assoc wf_piece_def split: if_splits)
qed

lemma parse_pieces:
  assumes "scan_at f g ps" "sd_have d = 0"
  shows "\<exists>d'. parse_loop f g d r = Inr (d', r\<lparr>dr_messages := dr_messages r @ full_msgs ps,
             dr_used_granules := dr_used_granules r + pieces_len ps\<rparr>) \<and> sd_is d' (cut_after ps)"
  using assms
proof (induction ps arbitrary: g d r)
  case Nil
  then have "\<forall>j\<ge>g. \<not> bit (fl_msg_start f) j" by (simp add: scan_at_def)
  then show ?case using Nil by (simp add: parse_loop_done sd_is_def cut_after_def)
next
  case (Cons p ps)
  note scan = Cons.prems(1) and tail = scan_at_tail [OF Cons.prems(1)]
  show ?case
  proof (cases "full_piece p")
    case True
    have "cut_after (p # ps) = cut_after ps" using True by (auto simp: cut_after_def)
    with Cons.IH [OF tail, of d "r\<lparr>dr_messages := dr_messages r @ [strip_msg (fst p)],
        dr_used_granules := dr_used_granules r + snd p\<rparr>"] Cons.prems(2) True
    show ?thesis by (cases r) (simp add: parse_loop_piece [OF scan] add.assoc)
  next
    case False
    then have ps: "ps = []" using scan by (auto simp: scan_at_def split: if_splits)
    have "wf_piece p" using scan by (simp add: scan_at_def)
    with False have "wf_cut (Some p)"
      by (cases p) (auto simp: wf_cut_def wf_piece_def full_piece_def)
    moreover have "\<forall>j\<ge>g + snd p. \<not> bit (fl_msg_start f) j"
      using tail by (simp add: ps scan_at_def)
    ultimately show ?thesis using False
      by (cases p) (auto simp: parse_loop_piece [OF scan] ps parse_loop_done cut_after_def sd_is_def)
  qed
qed

lemma layout_scan:
  assumes "flit_layout f c ps"
  shows "scan_at f (cut_rest c) ps" "take (5 * cut_rest c) (fl_payload f) = cut_tail c"
    "\<forall>j<cut_rest c. \<not> bit (fl_msg_start f) j" "drop_bit 48 (fl_msg_start f) = 0"
    "length (fl_payload f) = 240"
proof -
  from assms have wfc: "wf_cut c" and wfs: "list_all wf_piece ps"
    and fit: "cut_rest c + pieces_len ps \<le> 48"
    and pay: "fl_payload f = cut_tail c @ concat (map piece_bytes ps) @
       replicate (240 - 5 * (cut_rest c + pieces_len ps)) 0"
    and st: "\<And>j. bit (fl_msg_start f) j \<longleftrightarrow> j \<in> starts (cut_rest c) ps"
    by (auto simp: flit_layout_def)
  note lens = length_cut_tail [OF wfc] length_pieces [OF wfs]
  show len: "length (fl_payload f) = 240" using fit lens by (simp add: pay)
  show "take (5 * cut_rest c) (fl_payload f) = cut_tail c" using lens by (simp add: pay)
  have "take (5 * pieces_len ps) (drop (5 * cut_rest c) (fl_payload f)) = concat (map piece_bytes ps)"
    using lens by (simp add: pay)
  then show "scan_at f (cut_rest c) ps"
    using assms len by (auto simp: scan_at_def flit_layout_def)
  show "\<forall>j<cut_rest c. \<not> bit (fl_msg_start f) j"
    using st starts_bounds [OF _ wfs] by force
  have "\<not> bit (fl_msg_start f) (48 + j)" for j
    using st starts_bounds [OF _ wfs, of "48 + j" "cut_rest c"] fit by force
  then show "drop_bit 48 (fl_msg_start f) = 0"
    by (auto simp: bit_eq_iff bit_drop_bit_eq)
qed

text \<open>Completing a cut message.\<close>

lemma carry_complete:
  assumes cut: "wf_cut (Some (m, k))" and pay: "take (5 * (msg_len m - k)) payload = cut_tail (Some (m, k))"
    and len: "length payload = 240"
  shows "(msg_prefix m k)\<lparr>am_data := copy_bytes payload 0 (5 * (msg_len m - k))
            (am_data (msg_prefix m k)) (5 * k)\<rparr> = strip_msg m"
proof -
  from cut have wf: "wf_msg m" and k: "0 < k" "k < msg_len m" by (auto simp: wf_cut_def)
  then obtain n where n: "msg_len m = k + n" by (metis less_imp_add_positive)
  note L = wf_msg_len [OF wf, unfolded n]
  let ?d = "am_data (msg_prefix m k)"
  have lenD: "length ?d = 240" using L by (simp add: msg_prefix_def)
  have fits: "5 * k + 5 * n \<le> length ?d" using lenD L by simp
  have tail: "take (5 * n) payload = drop (5 * k) (take (5 * k + 5 * n) (am_data m))"
    using pay by (simp add: n cut_tail_def)
  have "copy_bytes payload 0 (5 * n) ?d (5 * k) =
      take (5 * k) ?d @ take (5 * n) payload @ drop (5 * k + 5 * n) ?d"
    unfolding copy_bytes_def store_loop_eq [OF fits] using len L by (simp add: map_nth_take)
  also have "take (5 * k) ?d = take (5 * k) (take (5 * k + 5 * n) (am_data m))"
    using L by (simp add: msg_prefix_def min_def)
  also have "drop (5 * k + 5 * n) ?d = drop (5 * k + 5 * n) (am_data m)"
    using wf_msg_zero [OF wf] L by (simp add: msg_prefix_def n min_def)
  also note tail
  finally have "copy_bytes payload 0 (5 * n) ?d (5 * k) = am_data m"
    by (metis append.assoc append_take_drop_id)
  then show ?thesis by (simp add: msg_prefix_def strip_msg_def n)
qed

text \<open>
  Decoding one flit: the cut message, if any, is completed and comes first, the full pieces follow
  in order, and an incomplete last piece becomes the new cut.
\<close>

definition cut_msgs :: "cut \<Rightarrow> aou_message list" where
  "cut_msgs c = (case c of None \<Rightarrow> [] | Some (m, k) \<Rightarrow> [strip_msg m])"

lemma consume_layout:
  assumes lay: "flit_layout f c ps" and sd: "sd_is d c"
  obtains d' where "sd_consume d f =
      (d', Inr \<lparr>dr_messages = cut_msgs c @ full_msgs ps, dr_used_granules = cut_rest c + pieces_len ps\<rparr>)"
    "sd_is d' (cut_after ps)"
proof (cases c)
  case None
  then have h: "sd_have d = 0" using sd by (simp add: sd_is_def)
  have scan: "scan_at f 0 ps" using layout_scan(1) [OF lay] None by (simp add: cut_rest_def)
  from parse_pieces [OF scan h, of "\<lparr>dr_messages = [], dr_used_granules = 0\<rparr>"]
  obtain d' where "parse_loop f 0 d \<lparr>dr_messages = [], dr_used_granules = 0\<rparr> =
      Inr (d', \<lparr>dr_messages = full_msgs ps, dr_used_granules = pieces_len ps\<rparr>)" "sd_is d' (cut_after ps)"
    by auto
  then show ?thesis
    using that None h layout_scan(4) [OF lay] by (simp add: sd_consume_def sd_parse_def cut_msgs_def cut_rest_def)
next
  case (Some mk)
  obtain m k where c: "c = Some (m, k)" using Some by (cases mk) simp
  with sd have cut: "wf_cut (Some (m, k))" and h: "sd_have d = int k" and carry: "sd_carry d = msg_prefix m k"
    by (simp_all add: sd_is_def)
  from cut have wf: "wf_msg m" and k: "0 < k" "k < msg_len m" by (auto simp: wf_cut_def)
  then obtain n where n: "msg_len m = k + n" and n0: "0 < n" by (metis less_imp_add_positive)
  note L = wf_msg_len [OF wf, unfolded n] and S = layout_scan [OF lay, unfolded c]
  have rest: "cut_rest (Some (m, k)) = n" by (simp add: cut_rest_def n)
  have gr: "am_granules (msg_prefix m k) = int k + int n" using L by (simp add: msg_prefix_def)
  have taken: "min (int n) 48 = int n" using L by simp
  have n5: "nat (int n * 5) = 5 * n" "nat (int k * 5) = 5 * k" by simp_all
  have comp: "(msg_prefix m k)\<lparr>am_data := copy_bytes (fl_payload f) 0 (5 * n)
      (am_data (msg_prefix m k)) (5 * k)\<rparr> = strip_msg m"
    using carry_complete [OF cut _ S(5)] S(2) by (simp add: rest n)
  have mask: "fl_msg_start f AND (push_bit n 1 - 1) = 0"
    using S(3) by (simp only: and_mask_zero_iff rest)
  have "scan_at f n ps" using S(1) rest by simp
  from parse_pieces [OF this, of "d\<lparr>sd_carry := strip_msg m, sd_have := 0\<rparr>"
      "\<lparr>dr_messages = [strip_msg m], dr_used_granules = n\<rparr>"]
  obtain d' where d': "parse_loop f n (d\<lparr>sd_carry := strip_msg m, sd_have := 0\<rparr>)
      \<lparr>dr_messages = [strip_msg m], dr_used_granules = n\<rparr> =
      Inr (d', \<lparr>dr_messages = strip_msg m # full_msgs ps, dr_used_granules = n + pieces_len ps\<rparr>)"
    "sd_is d' (cut_after ps)"
    by auto
  have "am_granules (strip_msg m) = int k + int n" using L by (simp add: strip_msg_def)
  then have "sd_parse d f =
      Inr (d', \<lparr>dr_messages = strip_msg m # full_msgs ps, dr_used_granules = n + pieces_len ps\<rparr>)"
    using h carry k S(4) gr taken mask comp n5 d'(1)
    by (simp add: sd_parse_def Let_def aou_consts)
  then show ?thesis
    using that d'(2) by (simp add: sd_consume_def cut_msgs_def c rest)
qed

end
