(* ===== verification/Flit_Stream.thy ===== *)
theory Flit_Stream
  imports Stream_Decoder
begin

text \<open>
  Sequences of flits: the contract a receiver keeps for one laid-out flit, and what follows from it
  for a whole stream. A stream is a list of flits with the pieces of messages they start; each flit
  begins with the rest of the message its predecessor cut.
\<close>

fun stream_from :: "cut \<Rightarrow> (aou_flit \<times> piece list) list \<Rightarrow> cut \<Rightarrow> bool" where
  "stream_from c [] c' \<longleftrightarrow> c = c'"
| "stream_from c ((f, ps) # xs) c' \<longleftrightarrow> flit_layout f c ps \<and> stream_from (cut_after ps) xs c'"

definition started :: "(aou_flit \<times> piece list) list \<Rightarrow> aou_message list" where
  "started xs = concat (map (\<lambda>x. map fst (snd x)) xs)"

text \<open>The messages a stream completes.\<close>

fun completed :: "cut \<Rightarrow> (aou_flit \<times> piece list) list \<Rightarrow> aou_message list" where
  "completed c [] = []"
| "completed c ((f, ps) # xs) = cut_msgs c @ full_msgs ps @ completed (cut_after ps) xs"

lemma stream_from_append:
  "stream_from c (xs @ ys) c' \<longleftrightarrow> (\<exists>d. stream_from c xs d \<and> stream_from d ys c')"
  by (induction c xs c' rule: stream_from.induct) auto

lemma completed_append:
  "stream_from c xs d \<Longrightarrow> completed c (xs @ ys) = completed c xs @ completed d ys"
  by (induction c xs d rule: stream_from.induct) auto

lemma started_simps [simp]:
  "started [] = []" "started ((f, ps) # xs) = map fst ps @ started xs"
  "started (xs @ ys) = started xs @ started ys"
  by (simp_all add: started_def)

lemma pieces_delivered:
  assumes "list_all full_piece ps \<or> list_all full_piece (butlast ps)"
  shows "full_msgs ps @ cut_msgs (cut_after ps) = map (\<lambda>p. strip_msg (fst p)) ps"
proof (cases ps rule: rev_cases)
  case (snoc qs q)
  then have "list_all full_piece qs" using assms by auto
  then have "full_msgs qs = map (\<lambda>p. strip_msg (fst p)) qs"
    by (induction qs) simp_all
  then show ?thesis using snoc by (cases q) (simp add: cut_after_def cut_msgs_def)
qed (simp add: cut_after_def cut_msgs_def)

text \<open>Completed messages and the one still cut are exactly the started ones, in order.\<close>

lemma stream_delivers:
  "stream_from c xs c' \<Longrightarrow> completed c xs @ cut_msgs c' = cut_msgs c @ map strip_msg (started xs)"
proof (induction c xs c' rule: stream_from.induct)
  case (2 c f ps xs c')
  then have "flit_layout f c ps" by simp
  then have "full_msgs ps @ cut_msgs (cut_after ps) = map (\<lambda>p. strip_msg (fst p)) ps"
    by (intro pieces_delivered) (auto simp: flit_layout_def)
  with 2 show ?case by simp
qed simp

section \<open>Receivers\<close>

text \<open>Feeding flits one after the other; the first error ends the session.\<close>

fun receive_all :: "('s \<Rightarrow> aou_flit \<Rightarrow> 's \<times> decode_result result) \<Rightarrow> 's \<Rightarrow> aou_flit list \<Rightarrow>
    ('s \<times> aou_message list) result" where
  "receive_all recv s [] = Inr (s, [])"
| "receive_all recv s (f # fs) = (case recv s f of
      (s', Inl e) \<Rightarrow> Inl e
    | (s', Inr r) \<Rightarrow> bindR (receive_all recv s' fs) (\<lambda>(s'', ms). Inr (s'', dr_messages r @ ms)))"

locale flit_receiver =
  fixes recv :: "'s \<Rightarrow> aou_flit \<Rightarrow> 's \<times> decode_result result"
    and knows :: "'s \<Rightarrow> cut \<Rightarrow> bool"
    and fresh :: 's
  assumes knows_fresh: "knows fresh None"
    and recv_layout: "flit_layout f c ps \<Longrightarrow> knows s c \<Longrightarrow>
      \<exists>s' r. recv s f = (s', Inr r) \<and> dr_messages r = cut_msgs c @ full_msgs ps \<and> knows s' (cut_after ps)"
begin

lemma receive_stream:
  "stream_from c xs c' \<Longrightarrow> knows s c \<Longrightarrow>
   \<exists>s'. receive_all recv s (map fst xs) = Inr (s', completed c xs) \<and> knows s' c'"
proof (induction c xs c' arbitrary: s rule: stream_from.induct)
  case (2 c f ps xs c')
  then obtain s1 r where r: "recv s f = (s1, Inr r)" "dr_messages r = cut_msgs c @ full_msgs ps"
    "knows s1 (cut_after ps)" using recv_layout [of f c ps s] by auto
  with 2 obtain s' where "receive_all recv s1 (map fst xs) = Inr (s', completed (cut_after ps) xs)" "knows s' c'"
    by force
  with r show ?case by simp
qed simp

text \<open>From reset to a message boundary, the receiver yields exactly what was started.\<close>

lemma receive_complete:
  assumes "stream_from None xs None"
  shows "\<exists>s'. receive_all recv fresh (map fst xs) = Inr (s', map strip_msg (started xs))"
  using receive_stream [OF assms knows_fresh] stream_delivers [OF assms]
  by (auto simp: cut_msgs_def)

end

interpretation decoder: flit_receiver sd_consume sd_is stream_decoder0
proof
  show "sd_is stream_decoder0 None" by (simp add: sd_is_def stream_decoder0_def)
next
  fix f c ps s
  assume "flit_layout f c ps" "sd_is s c"
  then show "\<exists>s' r. sd_consume s f = (s', Inr r) \<and> dr_messages r = cut_msgs c @ full_msgs ps \<and> sd_is s' (cut_after ps)"
    by (rule consume_layout) auto
qed

end
