(* ===== verification/Flit_Packer.thy ===== *)
theory Flit_Packer
  imports Credit_Flow Flit_Stream
begin

text \<open>
  \<^verbatim>\<open>flit_packer.h\<close> and \<^verbatim>\<open>flit_packer.cpp\<close>: the sender. One step is one clock edge of
  \<^verbatim>\<open>packing_thread\<close>. Its inputs are what the \<^verbatim>\<open>sc_fifo\<close> channels hold at that edge and the sampled
  \<^verbatim>\<open>flit_ready\<close>; it returns what it leaves in them. The logging is not modelled.
\<close>

section \<open>State\<close>

definition CREDIT_RETURN_TIMEOUT_CYCLES :: int where "CREDIT_RETURN_TIMEOUT_CYCLES = 2"
definition PACK_MSGS_PER_CYCLE :: nat where "PACK_MSGS_PER_CYCLE = 8"
definition DEFAULT_FLUSH_TIMEOUT_CYCLES :: int where "DEFAULT_FLUSH_TIMEOUT_CYCLES = 0"

type_synonym slots = "nat \<Rightarrow> aou_message option"
type_synonym queues = "nat \<Rightarrow> aou_message list"

record flit_packer =
  fp_rp_count :: nat
  fp_flush_timeout :: int
  fp_credits :: credit_manager
  fp_cur :: aou_flit
  fp_out :: flit_transfer
  fp_out_active :: bool
  fp_spill_active :: bool
  fp_spill_msg :: aou_message
  fp_spill_done :: int
  fp_timeout_cnt :: int
  fp_idle_cnt :: int
  fp_next_rp :: nat
  fp_flits_sent :: u64
  fp_granules_sent :: u64
  fp_rreq :: slots
  fp_wreq :: slots
  fp_wdata :: slots
  fp_port :: flit_transfer

text \<open>The request and data queues of the planes at the packer's inputs.\<close>

record packer_queues =
  pq_rreq :: queues
  pq_wreq :: queues
  pq_wdata :: queues

text \<open>
  The state after the reset part of the thread; the constructor's arguments are the plane count,
  the two capacities and the flush timeout. \<^verbatim>\<open>flit_out\<close> carries an empty transfer.
\<close>

definition packer_reset :: "nat \<Rightarrow> nat \<Rightarrow> nat \<Rightarrow> int \<Rightarrow> flit_packer result" where
  "packer_reset rp_count rdata_capacity wresp_capacity flush_timeout =
     bindR (cm_make_initiator rp_count rdata_capacity wresp_capacity) (\<lambda>credits.
       Inr \<lparr>fp_rp_count = rp_count, fp_flush_timeout = flush_timeout,
         fp_credits = publish_initial_capacity (cm_reset credits),
         fp_cur = clear_flit aou_flit0, fp_out = flit_transfer0, fp_out_active = False,
         fp_spill_active = False, fp_spill_msg = aou_message0, fp_spill_done = 0,
         fp_timeout_cnt = 0, fp_idle_cnt = CREDIT_RETURN_TIMEOUT_CYCLES - 1, fp_next_rp = 0,
         fp_flits_sent = 0, fp_granules_sent = 0,
         fp_rreq = (\<lambda>_. None), fp_wreq = (\<lambda>_. None), fp_wdata = (\<lambda>_. None),
         fp_port = flit_transfer0\<rparr>)"

section \<open>Steps\<close>

definition drain_credit_events :: "credit_update list \<Rightarrow> credit_update list \<Rightarrow> flit_packer \<Rightarrow> flit_packer" where
  "drain_credit_events updates returns p =
     p\<lparr>fp_credits := fold (\<lambda>u c. return_rx_credit c u) returns
        (fold (\<lambda>u c. add_tx_credit c u) updates (fp_credits p))\<rparr>"

text \<open>An empty slot takes the head of its queue; planes are independent of each other.\<close>

definition fill_slots :: "nat \<Rightarrow> slots \<Rightarrow> queues \<Rightarrow> slots" where
  "fill_slots n slots qs = (\<lambda>rp. if rp < n \<and> slots rp = None \<and> qs rp \<noteq> [] then Some (hd (qs rp)) else slots rp)"

definition drain_queues :: "nat \<Rightarrow> slots \<Rightarrow> queues \<Rightarrow> queues" where
  "drain_queues n slots qs = (\<lambda>rp. if rp < n \<and> slots rp = None then tl (qs rp) else qs rp)"

definition fill_staging_slots :: "flit_packer \<Rightarrow> packer_queues \<Rightarrow> flit_packer \<times> packer_queues" where
  "fill_staging_slots p q = (let n = fp_rp_count p in
     (p\<lparr>fp_rreq := fill_slots n (fp_rreq p) (pq_rreq q),
        fp_wreq := fill_slots n (fp_wreq p) (pq_wreq q),
        fp_wdata := fill_slots n (fp_wdata p) (pq_wdata q)\<rparr>,
      \<lparr>pq_rreq = drain_queues n (fp_rreq p) (pq_rreq q),
       pq_wreq = drain_queues n (fp_wreq p) (pq_wreq q),
       pq_wdata = drain_queues n (fp_wdata p) (pq_wdata q)\<rparr>))"

text \<open>The conversion of the message length to the \<^verbatim>\<open>unsigned\<close> credit amount.\<close>

definition credit_need :: "aou_message \<Rightarrow> nat" where
  "credit_need m = nat (am_granules m mod 2 ^ 32)"

definition select_from :: "flit_packer \<Rightarrow> slots \<Rightarrow> (aou_message \<times> nat) option" where
  "select_from p slots =
     (case find (\<lambda>rp. case slots rp of None \<Rightarrow> False
               | Some m \<Rightarrow> can_consume (fp_credits p) rp (am_type m) (credit_need m))
            (rp_rotation (fp_next_rp p) (fp_rp_count p)) of
        None \<Rightarrow> None
      | Some rp \<Rightarrow> Some (the (slots rp), rp))"

definition select_candidate :: "flit_packer \<Rightarrow> (aou_message \<times> nat) option" where
  "select_candidate p =
     (case select_from p (fp_rreq p) of Some c \<Rightarrow> Some c
      | None \<Rightarrow> (case select_from p (fp_wreq p) of Some c \<Rightarrow> Some c
        | None \<Rightarrow> select_from p (fp_wdata p)))"

definition clear_slot :: "msg_type \<Rightarrow> nat \<Rightarrow> flit_packer \<Rightarrow> flit_packer" where
  "clear_slot t rp p =
     (if t = ReadReq then p\<lparr>fp_rreq := (fp_rreq p)(rp := None)\<rparr>
      else if t = WriteReq then p\<lparr>fp_wreq := (fp_wreq p)(rp := None)\<rparr>
      else p\<lparr>fp_wdata := (fp_wdata p)(rp := None)\<rparr>)"

definition consume_candidate :: "aou_message \<times> nat \<Rightarrow> flit_packer \<Rightarrow> flit_packer result" where
  "consume_candidate = (\<lambda>(msg, rp) p.
     bindR (consume (fp_credits p) rp (am_type msg) (credit_need msg)) (\<lambda>credits.
       let (cur, took) = pack_fragment (fp_cur p) msg 0
       in if took \<le> 0 then Inl (AssertFailed ''consume_candidate: took > 0'')
          else
            let p1 = p\<lparr>fp_credits := credits, fp_cur := cur\<rparr>;
                p2 = (if took < am_granules msg
                      then p1\<lparr>fp_spill_msg := msg, fp_spill_done := took, fp_spill_active := True\<rparr> else p1)
            in Inr ((clear_slot (am_type msg) rp p2)\<lparr>fp_next_rp := (rp + 1) mod fp_rp_count p\<rparr>)))"

text \<open>The packing loop for at most \<open>n\<close> more messages; the flag says that nothing is left to pack.\<close>

fun pack_messages :: "nat \<Rightarrow> flit_packer \<Rightarrow> packer_queues \<Rightarrow> ((flit_packer \<times> packer_queues) \<times> bool) result" where
  "pack_messages 0 p q = Inr ((p, q), False)"
| "pack_messages (Suc n) p q =
     (if remaining_granules (fp_cur p) > 0 then
        (case fill_staging_slots p q of (p', q') \<Rightarrow>
          (case select_candidate p' of
             None \<Rightarrow> Inr ((p', q'), True)
           | Some c \<Rightarrow> bindR (consume_candidate c p') (\<lambda>p''.
               if fp_spill_active p'' then Inr ((p'', q'), False) else pack_messages n p'' q')))
      else Inr ((p, q), False))"

definition pack_cycle :: "flit_packer \<Rightarrow> packer_queues \<Rightarrow> ((flit_packer \<times> packer_queues) \<times> bool) result" where
  "pack_cycle p q =
     (if fp_spill_active p then
        if fl_used_granules (fp_cur p) \<noteq> 0 then Inr ((p, q), False)
        else
          let (cur, took) = pack_fragment (fp_cur p) (fp_spill_msg p) (fp_spill_done p);
              p1 = p\<lparr>fp_cur := cur, fp_spill_done := fp_spill_done p + took\<rparr>
          in if fp_spill_done p1 \<ge> am_granules (fp_spill_msg p1)
             then pack_messages PACK_MSGS_PER_CYCLE (p1\<lparr>fp_spill_active := False, fp_spill_done := 0\<rparr>) q
             else Inr ((p1, q), False)
      else pack_messages PACK_MSGS_PER_CYCLE p q)"

definition flush_flit :: "bool \<Rightarrow> flit_packer \<Rightarrow> flit_packer result" where
  "flush_flit allow_header_credit p =
     (if \<not> (fl_valid (fp_cur p) \<and> \<not> fp_out_active p) then Inl (AssertFailed ''flush_flit'')
      else
        let p1 = (if allow_header_credit then
                    (case take_header_grant (fp_credits p) of (field, credits) \<Rightarrow>
                       p\<lparr>fp_credits := credits, fp_cur := (fp_cur p)\<lparr>fl_msg_credit := field\<rparr>,
                         fp_idle_cnt := (if field \<noteq> 0 then 0 else fp_idle_cnt p)\<rparr>)
                  else p);
            t = flit_transfer_of (fp_cur p1)
        in Inr (p1\<lparr>fp_flits_sent := fp_flits_sent p1 + 1,
             fp_granules_sent := fp_granules_sent p1 + of_int (fl_used_granules (fp_cur p1)),
             fp_out := t, fp_out_active := True, fp_port := t,
             fp_cur := clear_flit (fp_cur p1), fp_timeout_cnt := 0\<rparr>))"

definition send_dedicated_credit_grant :: "flit_packer \<Rightarrow> flit_packer result" where
  "send_dedicated_credit_grant p =
     (case take_misc_grants (fp_credits p) of (grants, credits) \<Rightarrow>
       bindR (build_crdt_grant_message grants (fp_rp_count p)) (\<lambda>grant.
         let (cur, packed) = pack_message (fp_cur p) grant
         in if \<not> packed then Inl (AssertFailed ''send_dedicated_credit_grant: packed'')
            else flush_flit False (p\<lparr>fp_credits := credits, fp_cur := cur\<rparr>)))"

text \<open>Step 2 of the loop: the output handshake.\<close>

definition output_handshake :: "bool \<Rightarrow> flit_packer \<Rightarrow> flit_packer" where
  "output_handshake ready p =
     (if fp_out_active p then
        if ready then p\<lparr>fp_out_active := False, fp_out := flit_transfer0, fp_port := flit_transfer0\<rparr>
        else p\<lparr>fp_port := fp_out p\<rparr>
      else p)"

text \<open>Step 4: whether the flit under construction is sent.\<close>

definition send_decision :: "bool \<Rightarrow> flit_packer \<Rightarrow> flit_packer result" where
  "send_decision exhausted p =
     (if fp_out_active p then Inr p
      else if fl_valid (fp_cur p) then
        if remaining_granules (fp_cur p) = 0 then flush_flit True p
        else if exhausted then
          if fp_timeout_cnt p \<ge> fp_flush_timeout p then flush_flit True p
          else Inr (p\<lparr>fp_timeout_cnt := fp_timeout_cnt p + 1\<rparr>)
        else Inr (p\<lparr>fp_timeout_cnt := 0\<rparr>)
      else if has_pending_returns (fp_credits p) then
        let p1 = p\<lparr>fp_idle_cnt := fp_idle_cnt p + 1\<rparr>
        in if fp_idle_cnt p1 \<ge> CREDIT_RETURN_TIMEOUT_CYCLES
           then bindR (send_dedicated_credit_grant p1) (\<lambda>p2. Inr (p2\<lparr>fp_idle_cnt := 0\<rparr>))
           else Inr p1
      else Inr p)"

text \<open>What one clock edge samples.\<close>

record packer_input =
  pi_queues :: packer_queues
  pi_updates :: "credit_update list"
  pi_returns :: "credit_update list"
  pi_ready :: bool

definition packer_cycle :: "packer_input \<Rightarrow> flit_packer \<Rightarrow> (flit_packer \<times> packer_queues) result" where
  "packer_cycle i p =
     bindR (pack_cycle (output_handshake (pi_ready i)
              (drain_credit_events (pi_updates i) (pi_returns i) p)) (pi_queues i))
       (\<lambda>((p1, q), exhausted). bindR (send_decision exhausted p1) (\<lambda>p2. Inr (p2, q)))"

end
