(* ===== verification/Flit_Unpacker.thy ===== *)
theory Flit_Unpacker
  imports Credit_Flow Flit_Stream
begin

text \<open>
  \<^verbatim>\<open>flit_unpacker.h\<close> and \<^verbatim>\<open>flit_unpacker.cpp\<close>: the receiver of the bridge. One step is one clock
  edge of \<^verbatim>\<open>unpacking_thread\<close>; the free places of the output FIFOs at that edge are an input, what
  is written to them is appended to lists. A session feeds transfers edge by edge.
\<close>

section \<open>State\<close>

definition UNPACK_MSGS_PER_CYCLE :: nat where "UNPACK_MSGS_PER_CYCLE = 8"

record flit_unpacker =
  fu_rp_count :: nat
  fu_holding_valid :: bool
  fu_holding :: flit_transfer
  fu_messages :: "aou_message list"
  fu_index :: nat
  fu_credits :: "credit_update list"
  fu_credit_index :: nat
  fu_decoder :: stream_decoder
  fu_flits_received :: u64
  fu_granules_received :: u64
  fu_ready :: bool

definition unpacker_reset :: "nat \<Rightarrow> flit_unpacker result" where
  "unpacker_reset rp_count =
     (if 1 \<le> rp_count \<and> rp_count \<le> MAX_RESOURCE_PLANES
      then Inr \<lparr>fu_rp_count = rp_count, fu_holding_valid = False, fu_holding = flit_transfer0,
        fu_messages = [], fu_index = 0, fu_credits = [], fu_credit_index = 0, fu_decoder = stream_decoder0,
        fu_flits_received = 0, fu_granules_received = 0, fu_ready = True\<rparr>
      else Inl (AssertFailed ''rp_count''))"

text \<open>The output FIFOs: the places left at this edge, and everything written so far.\<close>

record unpacker_sinks =
  us_credit_free :: nat
  us_rdata_free :: "nat \<Rightarrow> nat"
  us_wresp_free :: "nat \<Rightarrow> nat"
  us_credits :: "credit_update list"
  us_rdata :: "nat \<Rightarrow> aou_message list"
  us_wresp :: "nat \<Rightarrow> aou_message list"

definition sinks0 :: unpacker_sinks where
  "sinks0 = \<lparr>us_credit_free = 0, us_rdata_free = (\<lambda>_. 0), us_wresp_free = (\<lambda>_. 0), us_credits = [],
     us_rdata = (\<lambda>_. []), us_wresp = (\<lambda>_. [])\<rparr>"

section \<open>Routing\<close>

text \<open>The two loops of \<^verbatim>\<open>route_messages\<close> over what is pending: the number written, and the FIFOs.\<close>

fun route_credits :: "credit_update list \<Rightarrow> unpacker_sinks \<Rightarrow> nat \<times> unpacker_sinks" where
  "route_credits [] k = (0, k)"
| "route_credits (u # us) k =
     (if us_credit_free k = 0 then (0, k)
      else case route_credits us (k\<lparr>us_credit_free := us_credit_free k - 1, us_credits := us_credits k @ [u]\<rparr>) of
        (n, k') \<Rightarrow> (n + 1, k'))"

definition put_message :: "aou_message \<Rightarrow> unpacker_sinks \<Rightarrow> (bool \<times> unpacker_sinks)" where
  "put_message msg k = (let rp = unat (am_rp msg) in
     if am_type msg = ReadData
     then if us_rdata_free k rp = 0 then (False, k)
       else (True, k\<lparr>us_rdata_free := (us_rdata_free k)(rp := us_rdata_free k rp - 1),
                     us_rdata := (us_rdata k)(rp := us_rdata k rp @ [msg])\<rparr>)
     else if am_type msg = WriteResp
     then if us_wresp_free k rp = 0 then (False, k)
       else (True, k\<lparr>us_wresp_free := (us_wresp_free k)(rp := us_wresp_free k rp - 1),
                     us_wresp := (us_wresp k)(rp := us_wresp k rp @ [msg])\<rparr>)
     else (True, k))"

fun route_pending :: "nat \<Rightarrow> aou_message list \<Rightarrow> unpacker_sinks \<Rightarrow> nat \<times> unpacker_sinks" where
  "route_pending 0 ms k = (0, k)"
| "route_pending (Suc q) [] k = (0, k)"
| "route_pending (Suc q) (m # ms) k =
     (case put_message m k of (written, k') \<Rightarrow>
        if \<not> written then (0, k')
        else case route_pending q ms k' of (n, k'') \<Rightarrow> (n + 1, k''))"

definition route_messages :: "flit_unpacker \<times> unpacker_sinks \<Rightarrow> flit_unpacker \<times> unpacker_sinks" where
  "route_messages = (\<lambda>(u, k).
     case route_credits (drop (fu_credit_index u) (fu_credits u)) k of (n, k) \<Rightarrow>
       let u = u\<lparr>fu_credit_index := fu_credit_index u + n\<rparr> in
       if fu_credit_index u < length (fu_credits u) then (u, k)
       else case route_pending UNPACK_MSGS_PER_CYCLE (drop (fu_index u) (fu_messages u)) k of (n, k) \<Rightarrow>
         (u\<lparr>fu_index := fu_index u + n\<rparr>, k))"

section \<open>Parsing\<close>

definition emit_credit_matrix :: "nat \<Rightarrow> credit_matrix \<Rightarrow> credit_update list" where
  "emit_credit_matrix rp_count grants =
     concat (map (\<lambda>rp. concat (map (\<lambda>k.
       if grants rp k \<noteq> 0 then [\<lparr>cu_rp = rp, cu_kind = credit_kind_cast k, cu_granules = grants rp k\<rparr>] else [])
       [0..<CREDIT_KIND_COUNT])) [0..<rp_count])"

text \<open>The second component collects the warnings.\<close>

definition dispatch_message :: "aou_message \<Rightarrow> flit_unpacker \<times> string list \<Rightarrow> flit_unpacker \<times> string list" where
  "dispatch_message msg = (\<lambda>(u, warnings).
     if am_type msg = Misc
     then case decode_crdt_grant_message msg (fu_rp_count u) of (ok, grants) \<Rightarrow>
       (if ok then u\<lparr>fu_credits := fu_credits u @ emit_credit_matrix (fu_rp_count u) grants\<rparr> else u, warnings)
     else if unat (am_rp msg) \<ge> fu_rp_count u then (u, warnings @ [''disabled plane''])
     else if am_type msg = ReadData \<or> am_type msg = WriteResp
     then (u\<lparr>fu_messages := fu_messages u @ [msg]\<rparr>, warnings)
     else (u, warnings @ [''unimplemented message type'']))"

definition parse_holding_flit :: "flit_unpacker \<Rightarrow> (flit_unpacker \<times> string list) result" where
  "parse_holding_flit u =
     (let u = u\<lparr>fu_messages := [], fu_index := 0\<rparr>; f = ft_flit (fu_holding u) in
      if fl_fdid f \<noteq> 0 then Inl (ReportFatal ''FDId'')
      else case sd_consume (fu_decoder u) f of
          (d, Inl e) \<Rightarrow> Inl (ReportFatal ''FlitUnpacker/Protocol'')
        | (d, Inr decoded) \<Rightarrow>
            Inr (fold dispatch_message (dr_messages decoded)
              (u\<lparr>fu_decoder := d, fu_granules_received := fu_granules_received u + of_nat (dr_used_granules decoded),
                 fu_credits := fu_credits u @ decode_header_credits (fl_msg_credit f) (fu_rp_count u)\<rparr>, [])))"

text \<open>One turn of the loop of \<^verbatim>\<open>unpacking_thread\<close>, with the transfer sampled from \<^verbatim>\<open>flit_in\<close>.\<close>

definition release_holding :: "flit_unpacker \<Rightarrow> flit_unpacker" where
  "release_holding u =
     (if fu_holding_valid u \<and> fu_index u \<ge> length (fu_messages u) \<and> fu_credit_index u \<ge> length (fu_credits u)
      then u\<lparr>fu_holding_valid := False, fu_holding := flit_transfer0, fu_messages := [], fu_index := 0,
             fu_credits := [], fu_credit_index := 0\<rparr>
      else u)"

definition unpacker_cycle ::
  "flit_transfer \<Rightarrow> flit_unpacker \<times> unpacker_sinks \<Rightarrow> ((flit_unpacker \<times> unpacker_sinks) \<times> string list) result" where
  "unpacker_cycle incoming uk =
     (case route_messages uk of (u, k) \<Rightarrow>
       bindR (if \<not> fu_holding_valid u \<and> fu_ready u \<and> ft_valid incoming
              then bindR (parse_holding_flit (u\<lparr>fu_holding := incoming, fu_holding_valid := True,
                            fu_flits_received := fu_flits_received u + 1\<rparr>))
                     (\<lambda>(u, w). Inr (route_messages (u, k), w))
              else Inr ((u, k), []))
         (\<lambda>((u, k), w). let u = release_holding u in Inr ((u\<lparr>fu_ready := \<not> fu_holding_valid u\<rparr>, k), w)))"

section \<open>What is pending\<close>

definition of_type :: "msg_type \<Rightarrow> nat \<Rightarrow> aou_message list \<Rightarrow> aou_message list" where
  "of_type t rp ms = filter (\<lambda>m. am_type m = t \<and> unat (am_rp m) = rp) ms"

lemma of_type_simps [simp]:
  "of_type t rp [] = []"
  "of_type t rp (m # ms) = (if am_type m = t \<and> unat (am_rp m) = rp then m # of_type t rp ms else of_type t rp ms)"
  "of_type t rp (ms @ ns) = of_type t rp ms @ of_type t rp ns"
  by (simp_all add: of_type_def)

definition pending_credits :: "flit_unpacker \<Rightarrow> credit_update list" where
  "pending_credits u = drop (fu_credit_index u) (fu_credits u)"

definition pending_messages :: "flit_unpacker \<Rightarrow> aou_message list" where
  "pending_messages u = drop (fu_index u) (fu_messages u)"

text \<open>What is written plus what is pending, for one direction and plane.\<close>

definition credits_total :: "flit_unpacker \<times> unpacker_sinks \<Rightarrow> credit_update list" where
  "credits_total = (\<lambda>(u, k). us_credits k @ pending_credits u)"

definition rdata_total :: "nat \<Rightarrow> flit_unpacker \<times> unpacker_sinks \<Rightarrow> aou_message list" where
  "rdata_total rp = (\<lambda>(u, k). us_rdata k rp @ of_type ReadData rp (pending_messages u))"

definition wresp_total :: "nat \<Rightarrow> flit_unpacker \<times> unpacker_sinks \<Rightarrow> aou_message list" where
  "wresp_total rp = (\<lambda>(u, k). us_wresp k rp @ of_type WriteResp rp (pending_messages u))"

lemmas total_defs = credits_total_def rdata_total_def wresp_total_def

lemma route_credits_total:
  "route_credits us k = (n, k') \<Longrightarrow> n \<le> length us \<and> us_credits k' @ drop n us = us_credits k @ us \<and>
     us_rdata k' = us_rdata k \<and> us_wresp k' = us_wresp k"
  by (induction us k arbitrary: n k' rule: route_credits.induct) (auto split: if_splits prod.splits)

lemma put_message_total:
  "put_message m k = (True, k') \<Longrightarrow>
     us_rdata k' rp = us_rdata k rp @ of_type ReadData rp [m] \<and>
     us_wresp k' rp = us_wresp k rp @ of_type WriteResp rp [m] \<and> us_credits k' = us_credits k"
  "put_message m k = (False, k') \<Longrightarrow> k' = k"
  by (auto simp: put_message_def Let_def split: if_splits)

lemma route_pending_total:
  "route_pending q ms k = (n, k') \<Longrightarrow> n \<le> length ms \<and> us_credits k' = us_credits k \<and>
     us_rdata k' rp @ of_type ReadData rp (drop n ms) = us_rdata k rp @ of_type ReadData rp ms \<and>
     us_wresp k' rp @ of_type WriteResp rp (drop n ms) = us_wresp k rp @ of_type WriteResp rp ms"
proof (induction q ms k arbitrary: n k' rule: route_pending.induct)
  case (3 q m ms k)
  show ?case
  proof (cases "fst (put_message m k)")
    case True
    then obtain k1 where p: "put_message m k = (True, k1)" by (metis prod.collapse)
    obtain n1 k2 where r: "route_pending q ms k1 = (n1, k2)" by (cases "route_pending q ms k1")
    have "n = n1 + 1" "k' = k2" using 3(2) p r by auto
    moreover have "n1 \<le> length ms \<and> us_credits k2 = us_credits k1 \<and>
       us_rdata k2 rp @ of_type ReadData rp (drop n1 ms) = us_rdata k1 rp @ of_type ReadData rp ms \<and>
       us_wresp k2 rp @ of_type WriteResp rp (drop n1 ms) = us_wresp k1 rp @ of_type WriteResp rp ms"
      using 3(1) [OF p [symmetric] _ r] by simp
    ultimately show ?thesis using put_message_total(1) [OF p, of rp] by simp
  next
    case False
    then obtain k1 where p: "put_message m k = (False, k1)" by (metis prod.collapse)
    then show ?thesis using 3(2) put_message_total(2) [OF p] by auto
  qed
qed auto

text \<open>The part of the state routing does not touch.\<close>

definition same_parse :: "flit_unpacker \<Rightarrow> flit_unpacker \<Rightarrow> bool" where
  "same_parse u u' \<longleftrightarrow> fu_rp_count u' = fu_rp_count u \<and> fu_decoder u' = fu_decoder u \<and>
     fu_messages u' = fu_messages u \<and> fu_credits u' = fu_credits u \<and> fu_holding_valid u' = fu_holding_valid u \<and>
     fu_ready u' = fu_ready u"

lemma route_messages_total:
  assumes "route_messages (u, k) = (u', k')" "fu_index u \<le> length (fu_messages u)" "fu_credit_index u \<le> length (fu_credits u)"
  shows "same_parse u u'" "credits_total (u', k') = credits_total (u, k)" "rdata_total rp (u', k') = rdata_total rp (u, k)"
    "wresp_total rp (u', k') = wresp_total rp (u, k)"
    "fu_index u' \<le> length (fu_messages u') \<and> fu_credit_index u' \<le> length (fu_credits u')"
proof -
  obtain n k1 where c: "route_credits (pending_credits u) k = (n, k1)" by (cases "route_credits (pending_credits u) k")
  obtain l k2 where m: "route_pending UNPACK_MSGS_PER_CYCLE (pending_messages u) k1 = (l, k2)"
    by (cases "route_pending UNPACK_MSGS_PER_CYCLE (pending_messages u) k1")
  note C = route_credits_total [OF c] and M = route_pending_total [OF m, of rp]
  have "(u', k') = (u\<lparr>fu_credit_index := fu_credit_index u + n\<rparr>, k1) \<or>
      (u', k') = (u\<lparr>fu_credit_index := fu_credit_index u + n, fu_index := fu_index u + l\<rparr>, k2)"
    using assms(1) c m by (auto simp: route_messages_def Let_def pending_credits_def pending_messages_def split: if_splits)
  then show "same_parse u u'" "credits_total (u', k') = credits_total (u, k)" "rdata_total rp (u', k') = rdata_total rp (u, k)"
    "wresp_total rp (u', k') = wresp_total rp (u, k)"
    "fu_index u' \<le> length (fu_messages u') \<and> fu_credit_index u' \<le> length (fu_credits u')"
    using C M assms(2,3)
    by (auto simp: same_parse_def total_defs pending_credits_def pending_messages_def add.commute)
qed

text \<open>Nothing is written beyond the free places.\<close>

definition same_room :: "unpacker_sinks \<Rightarrow> unpacker_sinks \<Rightarrow> bool" where
  "same_room k k' \<longleftrightarrow>
     length (us_credits k') + us_credit_free k' = length (us_credits k) + us_credit_free k \<and>
     (\<forall>rp. length (us_rdata k' rp) + us_rdata_free k' rp = length (us_rdata k rp) + us_rdata_free k rp) \<and>
     (\<forall>rp. length (us_wresp k' rp) + us_wresp_free k' rp = length (us_wresp k rp) + us_wresp_free k rp)"

lemma same_room_refl [simp]: "same_room k k"
  by (simp add: same_room_def)

lemma same_room_trans: "same_room a b \<Longrightarrow> same_room b c \<Longrightarrow> same_room a c"
  by (simp add: same_room_def)

lemma route_credits_room: "route_credits us k = (n, k') \<Longrightarrow> same_room k k'"
proof (induction us k arbitrary: n k' rule: route_credits.induct)
  case (2 u us k)
  show ?case
  proof (cases "us_credit_free k = 0")
    case False
    then obtain n1 where "route_credits us (k\<lparr>us_credit_free := us_credit_free k - 1, us_credits := us_credits k @ [u]\<rparr>) = (n1, k')"
      using 2(2) by (auto split: prod.splits)
    from 2(1) [OF False this] show ?thesis using False by (simp add: same_room_def)
  qed (use 2(2) in simp)
qed simp

lemma put_message_room: "put_message m k = (b, k') \<Longrightarrow> same_room k k'"
  by (auto simp: put_message_def Let_def same_room_def split: if_splits)

lemma route_pending_room: "route_pending q ms k = (n, k') \<Longrightarrow> same_room k k'"
proof (induction q ms k arbitrary: n k' rule: route_pending.induct)
  case (3 q m ms k)
  obtain b k1 where p: "put_message m k = (b, k1)" by (cases "put_message m k")
  show ?case
  proof (cases b)
    case True
    then obtain n1 where "route_pending q ms k1 = (n1, k')" using 3(2) p by (auto split: prod.splits)
    from 3(1) [OF p [symmetric] _ this] True same_room_trans [OF put_message_room [OF p]] show ?thesis by simp
  qed (use 3(2) p put_message_room [OF p] in auto)
qed auto

lemma route_messages_room: "route_messages (u, k) = (u', k') \<Longrightarrow> same_room k k'"
  by (auto simp: route_messages_def Let_def split: prod.splits if_splits
      dest!: route_credits_room route_pending_room intro: same_room_trans)

lemma unpacker_cycle_room: "unpacker_cycle t (u, k) = Inr ((u', k'), w) \<Longrightarrow> same_room k k'"
  by (auto simp: unpacker_cycle_def Let_def bindR_eq_Inr split: prod.splits if_splits
      dest!: route_messages_room intro: same_room_trans)

section \<open>What a flit contributes\<close>

definition misc_grants :: "nat \<Rightarrow> aou_message \<Rightarrow> credit_update list" where
  "misc_grants n m = (if am_type m = Misc \<and> fst (decode_crdt_grant_message m n)
     then emit_credit_matrix n (snd (decode_crdt_grant_message m n)) else [])"

definition flit_credits :: "nat \<Rightarrow> aou_flit \<times> aou_message list \<Rightarrow> credit_update list" where
  "flit_credits n = (\<lambda>(f, ms). decode_header_credits (fl_msg_credit f) n @ concat (map (misc_grants n) ms))"

definition routable :: "nat \<Rightarrow> aou_message \<Rightarrow> bool" where
  "routable n m \<longleftrightarrow> unat (am_rp m) < n \<and> (am_type m = ReadData \<or> am_type m = WriteResp)"

lemma of_type_routable:
  "rp < n \<Longrightarrow> of_type ReadData rp (filter (routable n) ms) = of_type ReadData rp ms"
  "rp < n \<Longrightarrow> of_type WriteResp rp (filter (routable n) ms) = of_type WriteResp rp ms"
  by (induction ms) (auto simp: routable_def)

lemma dispatch_message_eq:
  "\<exists>w'. dispatch_message m (u, w) = (u\<lparr>fu_credits := fu_credits u @ misc_grants (fu_rp_count u) m,
     fu_messages := fu_messages u @ (if routable (fu_rp_count u) m then [m] else [])\<rparr>, w')"
  by (auto simp: dispatch_message_def misc_grants_def routable_def split: prod.splits)

lemma dispatch_all:
  "\<exists>w'. fold dispatch_message ms (u, w) = (u\<lparr>fu_credits := fu_credits u @ concat (map (misc_grants (fu_rp_count u)) ms),
     fu_messages := fu_messages u @ filter (routable (fu_rp_count u)) ms\<rparr>, w')"
proof (induction ms arbitrary: u w)
  case (Cons m ms)
  obtain w1 where w1: "dispatch_message m (u, w) = (u\<lparr>fu_credits := fu_credits u @ misc_grants (fu_rp_count u) m,
     fu_messages := fu_messages u @ (if routable (fu_rp_count u) m then [m] else [])\<rparr>, w1)" (is "_ = (?u, w1)")
    using dispatch_message_eq by blast
  obtain w2 where "fold dispatch_message ms (?u, w1) = (?u\<lparr>fu_credits := fu_credits ?u @ concat (map (misc_grants (fu_rp_count ?u)) ms),
     fu_messages := fu_messages ?u @ filter (routable (fu_rp_count ?u)) ms\<rparr>, w2)" using Cons.IH by blast
  then show ?case using w1 by (simp add: fold_Cons comp_def)
qed simp

text \<open>The messages of each flit of a sequence.\<close>

fun decode_flits :: "stream_decoder \<Rightarrow> aou_flit list \<Rightarrow> (stream_decoder \<times> aou_message list list) result" where
  "decode_flits d [] = Inr (d, [])"
| "decode_flits d (f # fs) = (case sd_consume d f of (d', Inl e) \<Rightarrow> Inl e
     | (d', Inr r) \<Rightarrow> bindR (decode_flits d' fs) (\<lambda>(d'', mss). Inr (d'', dr_messages r # mss)))"

lemma decode_flits_receive:
  "receive_all sd_consume d fs = map_sum id (\<lambda>(d', mss). (d', concat mss)) (decode_flits d fs)"
proof (induction d fs rule: decode_flits.induct)
  case (2 d f fs)
  obtain d' x where c: "sd_consume d f = (d', x)" by (cases "sd_consume d f")
  show ?case
  proof (cases x)
    case (Inr r)
    then show ?thesis using 2 [OF c [symmetric] Inr] c by (cases "decode_flits d' fs") auto
  qed (simp add: c)
qed simp

lemma decode_flits_snoc:
  assumes "decode_flits d fs = Inr (d', mss)" "sd_consume d' f = (d'', Inr r)"
  shows "decode_flits d (fs @ [f]) = Inr (d'', mss @ [dr_messages r])"
  using assms
proof (induction d fs arbitrary: mss rule: decode_flits.induct)
  case (2 d g gs)
  then obtain d1 r1 where g: "sd_consume d g = (d1, Inr r1)" by (auto split: prod.splits sum.splits)
  obtain mss1 where "decode_flits d1 gs = Inr (d', mss1)" "mss = dr_messages r1 # mss1"
    using 2(2) g by (auto simp: bindR_eq_Inr)
  with 2(1) [OF g [symmetric] refl] 2(3) g show ?case by simp
qed simp

lemma decode_flits_length: "decode_flits d fs = Inr (d', mss) \<Longrightarrow> length mss = length fs"
  by (induction d fs arbitrary: mss rule: decode_flits.induct) (auto simp: bindR_eq_Inr split: prod.splits sum.splits)

section \<open>A session\<close>

text \<open>
  The flits the link offers, in order; the head stays on the port until it is taken, that is,
  until an edge at which the ready that was published before is high.
\<close>

record unpacker_room =
  ur_credit :: nat
  ur_rdata :: "nat \<Rightarrow> nat"
  ur_wresp :: "nat \<Rightarrow> nat"

definition with_room :: "unpacker_room \<Rightarrow> unpacker_sinks \<Rightarrow> unpacker_sinks" where
  "with_room r k = k\<lparr>us_credit_free := ur_credit r, us_rdata_free := ur_rdata r, us_wresp_free := ur_wresp r\<rparr>"

definition offer :: "aou_flit list \<Rightarrow> flit_transfer" where
  "offer fs = (case fs of [] \<Rightarrow> flit_transfer0 | f # _ \<Rightarrow> flit_transfer_of f)"

fun unpacker_session ::
  "unpacker_room list \<Rightarrow> aou_flit list \<times> flit_unpacker \<times> unpacker_sinks \<Rightarrow> (aou_flit list \<times> flit_unpacker \<times> unpacker_sinks) result" where
  "unpacker_session [] st = Inr st"
| "unpacker_session (r # rs) (fs, u, k) =
     bindR (unpacker_cycle (offer fs) (u, with_room r k)) (\<lambda>((u', k'), w).
       unpacker_session rs (if fu_ready u then tl fs else fs, u', k'))"

text \<open>The account after the flits \<^term>\<open>taken\<close> were handed over.\<close>

definition unpacker_account :: "nat \<Rightarrow> (aou_flit \<times> aou_message list) list \<Rightarrow> flit_unpacker \<times> unpacker_sinks \<Rightarrow> bool" where
  "unpacker_account n xs uk \<longleftrightarrow>
     credits_total uk = concat (map (flit_credits n) xs) \<and>
     (\<forall>rp < n. rdata_total rp uk = of_type ReadData rp (concat (map snd xs)) \<and>
               wresp_total rp uk = of_type WriteResp rp (concat (map snd xs)))"

definition unpacker_shape :: "nat \<Rightarrow> flit_unpacker \<Rightarrow> bool" where
  "unpacker_shape n u \<longleftrightarrow> fu_rp_count u = n \<and> fu_ready u = (\<not> fu_holding_valid u) \<and>
     (\<not> fu_holding_valid u \<longrightarrow> fu_messages u = [] \<and> fu_credits u = [] \<and> fu_index u = 0 \<and> fu_credit_index u = 0) \<and>
     fu_index u \<le> length (fu_messages u) \<and> fu_credit_index u \<le> length (fu_credits u)"

definition unpacker_inv :: "nat \<Rightarrow> aou_flit list \<Rightarrow> flit_unpacker \<times> unpacker_sinks \<Rightarrow> bool" where
  "unpacker_inv n taken = (\<lambda>(u, k). unpacker_shape n u \<and>
     (\<exists>mss. decode_flits stream_decoder0 taken = Inr (fu_decoder u, mss) \<and> unpacker_account n (zip taken mss) (u, k)))"

text \<open>What one edge does, in terms of the flit it takes.\<close>

definition unpacker_moves :: "nat \<Rightarrow> flit_transfer \<Rightarrow> flit_unpacker \<times> unpacker_sinks \<Rightarrow> flit_unpacker \<times> unpacker_sinks \<Rightarrow> bool" where
  "unpacker_moves n t uk uk' \<longleftrightarrow>
     (if fu_ready (fst uk) \<and> ft_valid t
      then fl_fdid (ft_flit t) = 0 \<and> (\<exists>r. sd_consume (fu_decoder (fst uk)) (ft_flit t) = (fu_decoder (fst uk'), Inr r) \<and>
        credits_total uk' = credits_total uk @ flit_credits n (ft_flit t, dr_messages r) \<and>
        (\<forall>rp < n. rdata_total rp uk' = rdata_total rp uk @ of_type ReadData rp (dr_messages r) \<and>
                  wresp_total rp uk' = wresp_total rp uk @ of_type WriteResp rp (dr_messages r)))
      else fu_decoder (fst uk') = fu_decoder (fst uk) \<and> credits_total uk' = credits_total uk \<and>
        (\<forall>rp. rdata_total rp uk' = rdata_total rp uk \<and> wresp_total rp uk' = wresp_total rp uk))"

lemma totals_with_room [simp]:
  "credits_total (u, with_room r k) = credits_total (u, k)" "rdata_total rp (u, with_room r k) = rdata_total rp (u, k)"
  "wresp_total rp (u, with_room r k) = wresp_total rp (u, k)"
  by (simp_all add: total_defs with_room_def)

lemma release_holding_total:
  assumes "fu_index u \<le> length (fu_messages u)" "fu_credit_index u \<le> length (fu_credits u)"
  shows "credits_total (release_holding u, k) = credits_total (u, k)" "rdata_total rp (release_holding u, k) = rdata_total rp (u, k)"
    "wresp_total rp (release_holding u, k) = wresp_total rp (u, k)"
  using assms by (auto simp: total_defs release_holding_def pending_credits_def pending_messages_def)

lemma parse_total:
  assumes dec: "sd_consume (fu_decoder u) f = (d, Inr r)" and fdid: "fl_fdid f = 0" and hold: "ft_flit (fu_holding u) = f"
    and empty: "fu_messages u = []" "fu_credits u = []" "fu_index u = 0" "fu_credit_index u = 0"
  obtains u' w where "parse_holding_flit u = Inr (u', w)" "fu_decoder u' = d" "fu_rp_count u' = fu_rp_count u"
    "fu_holding_valid u' = fu_holding_valid u" "fu_ready u' = fu_ready u" "fu_index u' = 0" "fu_credit_index u' = 0"
    "credits_total (u', k) = credits_total (u, k) @ flit_credits (fu_rp_count u) (f, dr_messages r)"
    "\<forall>rp < fu_rp_count u. rdata_total rp (u', k) = rdata_total rp (u, k) @ of_type ReadData rp (dr_messages r) \<and>
       wresp_total rp (u', k) = wresp_total rp (u, k) @ of_type WriteResp rp (dr_messages r)"
proof -
  define u1 where "u1 = u\<lparr>fu_messages := [], fu_index := 0, fu_decoder := d,
     fu_granules_received := fu_granules_received u + of_nat (dr_used_granules r),
     fu_credits := fu_credits u @ decode_header_credits (fl_msg_credit f) (fu_rp_count u)\<rparr>"
  define u' where "u' = u1\<lparr>fu_credits := fu_credits u1 @ concat (map (misc_grants (fu_rp_count u1)) (dr_messages r)),
     fu_messages := fu_messages u1 @ filter (routable (fu_rp_count u1)) (dr_messages r)\<rparr>"
  obtain w where "fold dispatch_message (dr_messages r) (u1, []) = (u', w)"
    using dispatch_all [of "dr_messages r" u1 "[]"] unfolding u'_def by blast
  then have "parse_holding_flit u = Inr (u', w)"
    using dec fdid hold by (simp add: parse_holding_flit_def Let_def u1_def)
  then show ?thesis
    by (rule that) (auto simp: u'_def u1_def empty total_defs pending_credits_def pending_messages_def flit_credits_def of_type_routable)
qed

lemma finish_edge:
  assumes "unpacker_shape n u \<or> fu_rp_count u = n" "fu_index u \<le> length (fu_messages u)" "fu_credit_index u \<le> length (fu_credits u)"
    "\<not> fu_holding_valid u \<Longrightarrow> fu_messages u = [] \<and> fu_credits u = [] \<and> fu_index u = 0 \<and> fu_credit_index u = 0"
  defines "u' \<equiv> (release_holding u)\<lparr>fu_ready := \<not> fu_holding_valid (release_holding u)\<rparr>"
  shows "unpacker_shape n u'" "fu_decoder u' = fu_decoder u" "credits_total (u', k) = credits_total (u, k)"
    "rdata_total rp (u', k) = rdata_total rp (u, k)" "wresp_total rp (u', k) = wresp_total rp (u, k)"
proof -
  show "unpacker_shape n u'" using assms by (auto simp: unpacker_shape_def release_holding_def)
  show "fu_decoder u' = fu_decoder u" by (simp add: u'_def release_holding_def)
  show "credits_total (u', k) = credits_total (u, k)" "rdata_total rp (u', k) = rdata_total rp (u, k)"
    "wresp_total rp (u', k) = wresp_total rp (u, k)"
    using release_holding_total [OF assms(2,3)]
    by (simp_all add: total_defs u'_def pending_credits_def pending_messages_def)
qed

lemma unpacker_cycle_step:
  assumes shape: "unpacker_shape n u"
  shows "(\<exists>e. unpacker_cycle t (u, k) = Inl (ReportFatal e)) \<and> fu_ready u \<and> ft_valid t \<and>
       (fl_fdid (ft_flit t) \<noteq> 0 \<or> (\<exists>d e. sd_consume (fu_decoder u) (ft_flit t) = (d, Inl e))) \<or>
     (\<exists>u' k' w. unpacker_cycle t (u, k) = Inr ((u', k'), w) \<and> unpacker_shape n u' \<and> unpacker_moves n t (u, k) (u', k'))"
proof -
  have n: "fu_rp_count u = n" and rdy: "fu_ready u = (\<not> fu_holding_valid u)"
    and emp: "\<not> fu_holding_valid u \<Longrightarrow> fu_messages u = [] \<and> fu_credits u = [] \<and> fu_index u = 0 \<and> fu_credit_index u = 0"
    and idx: "fu_index u \<le> length (fu_messages u)" "fu_credit_index u \<le> length (fu_credits u)"
    using shape by (auto simp: unpacker_shape_def)
  obtain u1 k1 where r1: "route_messages (u, k) = (u1, k1)" by (cases "route_messages (u, k)")
  note R1 = route_messages_total [OF r1 idx]
  have same: "fu_rp_count u1 = n" "fu_decoder u1 = fu_decoder u" "fu_messages u1 = fu_messages u" "fu_credits u1 = fu_credits u"
    "fu_holding_valid u1 = fu_holding_valid u" "fu_ready u1 = fu_ready u"
    using R1(1) n by (simp_all add: same_parse_def)
  define f where "f = ft_flit t"
  obtain d x where cons: "sd_consume (fu_decoder u) f = (d, x)" by (cases "sd_consume (fu_decoder u) f")
  define u2 where "u2 = u1\<lparr>fu_holding := t, fu_holding_valid := True, fu_flits_received := fu_flits_received u1 + 1\<rparr>"
  show ?thesis
  proof (cases "fu_ready u \<and> ft_valid t")
    case True
    then have acc: "\<not> fu_holding_valid u1 \<and> fu_ready u1 \<and> ft_valid t" using rdy same by simp
    show ?thesis
    proof (cases "fl_fdid f = 0 \<and> (\<exists>r. x = Inr r)")
      case False
      then have "\<exists>e. parse_holding_flit u2 = Inl (ReportFatal e)"
        using cons same by (cases x) (auto simp: parse_holding_flit_def Let_def u2_def f_def [symmetric])
      then have "\<exists>e. unpacker_cycle t (u, k) = Inl (ReportFatal e)"
        using r1 acc by (auto simp: unpacker_cycle_def u2_def)
      moreover have "fl_fdid f \<noteq> 0 \<or> (\<exists>d e. sd_consume (fu_decoder u) f = (d, Inl e))" using False cons by (cases x) auto
      ultimately show ?thesis using True by (simp add: f_def)
    next
      case ok: True
      then obtain rr where x: "x = Inr rr" and fd: "fl_fdid f = 0" by blast
      have e1: "fu_messages u1 = []" "fu_credits u1 = []" "fu_index u1 = 0" "fu_credit_index u1 = 0"
        using emp True rdy same R1(5) by auto
      have u2: "sd_consume (fu_decoder u2) f = (d, Inr rr)" "ft_flit (fu_holding u2) = f" "fu_messages u2 = []" "fu_credits u2 = []"
        "fu_index u2 = 0" "fu_credit_index u2 = 0"
        using cons x e1 same by (simp_all add: u2_def f_def)
      have tot2: "credits_total (u2, k1) = credits_total (u1, k1)" "rdata_total rp (u2, k1) = rdata_total rp (u1, k1)"
        "wresp_total rp (u2, k1) = wresp_total rp (u1, k1)" for rp
        by (simp_all add: total_defs u2_def pending_credits_def pending_messages_def)
      obtain u3 w where u3: "parse_holding_flit u2 = Inr (u3, w)" "fu_decoder u3 = d" "fu_rp_count u3 = n"
        "fu_holding_valid u3" "fu_index u3 = 0" "fu_credit_index u3 = 0"
        "credits_total (u3, k1) = credits_total (u1, k1) @ flit_credits n (f, dr_messages rr)"
        "\<forall>rp < n. rdata_total rp (u3, k1) = rdata_total rp (u1, k1) @ of_type ReadData rp (dr_messages rr) \<and>
           wresp_total rp (u3, k1) = wresp_total rp (u1, k1) @ of_type WriteResp rp (dr_messages rr)"
        using parse_total [OF u2(1) fd u2(2-6), of k1 thesis] tot2 same(1) by (auto simp: u2_def)
      obtain u4 k4 where r4: "route_messages (u3, k1) = (u4, k4)" by (cases "route_messages (u3, k1)")
      have i3: "fu_index u3 \<le> length (fu_messages u3)" "fu_credit_index u3 \<le> length (fu_credits u3)" using u3 by simp_all
      note R4 = route_messages_total [OF r4 i3]
      have s4: "fu_rp_count u4 = n" "fu_decoder u4 = d" "fu_holding_valid u4" using R4(1) u3 by (simp_all add: same_parse_def)
      define u6 where "u6 = (release_holding u4)\<lparr>fu_ready := \<not> fu_holding_valid (release_holding u4)\<rparr>"
      have fin: "unpacker_shape n u6" "fu_decoder u6 = fu_decoder u4" "credits_total (u6, k4) = credits_total (u4, k4)"
        "rdata_total rp (u6, k4) = rdata_total rp (u4, k4)" "wresp_total rp (u6, k4) = wresp_total rp (u4, k4)" for rp
        unfolding u6_def using finish_edge [of n u4] s4 R4(5) by auto
      have "unpacker_cycle t (u, k) = Inr ((u6, k4), w)"
        using r1 acc u3(1) r4 by (simp add: unpacker_cycle_def u2_def u6_def Let_def)
      moreover have "unpacker_moves n t (u, k) (u6, k4)"
        using True fd cons x s4 fin u3(7,8) R4(2-4) R1(2-4) by (auto simp: unpacker_moves_def f_def [symmetric])
      ultimately show ?thesis using fin(1) by blast
    qed
  next
    case False
    then have idle: "\<not> (\<not> fu_holding_valid u1 \<and> fu_ready u1 \<and> ft_valid t)" using same by auto
    define u6 where "u6 = (release_holding u1)\<lparr>fu_ready := \<not> fu_holding_valid (release_holding u1)\<rparr>"
    have fin: "unpacker_shape n u6" "fu_decoder u6 = fu_decoder u1" "credits_total (u6, k1) = credits_total (u1, k1)"
      "rdata_total rp (u6, k1) = rdata_total rp (u1, k1)" "wresp_total rp (u6, k1) = wresp_total rp (u1, k1)" for rp
      unfolding u6_def using finish_edge [of n u1] same R1(5) emp by auto
    have "unpacker_cycle t (u, k) = Inr ((u6, k1), [])"
      unfolding unpacker_cycle_def r1 prod.case if_not_P [OF idle] bindR_Inr by (simp add: u6_def Let_def)
    moreover have "unpacker_moves n t (u, k) (u6, k1)"
      using False fin same R1(2-4) by (auto simp: unpacker_moves_def)
    ultimately show ?thesis using fin(1) by blast
  qed
qed

lemma unpacker_cycle_inv:
  assumes inv: "unpacker_inv n taken (u, k)"
    and next_ok: "fu_ready u \<Longrightarrow> fs \<noteq> [] \<Longrightarrow> \<exists>d r. sd_consume (fu_decoder u) (hd fs) = (d, Inr r) \<and> fl_fdid (hd fs) = 0"
  obtains u' k' w where "unpacker_cycle (offer fs) (u, with_room r k) = Inr ((u', k'), w)"
    "unpacker_inv n (if fu_ready u then taken @ take 1 fs else taken) (u', k')"
proof -
  obtain mss where shape: "unpacker_shape n u" and dec: "decode_flits stream_decoder0 taken = Inr (fu_decoder u, mss)"
    and acc: "unpacker_account n (zip taken mss) (u, with_room r k)"
    using inv by (auto simp: unpacker_inv_def unpacker_account_def)
  have off: "ft_valid (offer fs) \<longleftrightarrow> fs \<noteq> []" "fs \<noteq> [] \<Longrightarrow> ft_flit (offer fs) = hd fs"
    by (auto simp: offer_def flit_transfer0_def flit_transfer_of_def split: list.splits)
  obtain u' k' w where c: "unpacker_cycle (offer fs) (u, with_room r k) = Inr ((u', k'), w)" "unpacker_shape n u'"
    "unpacker_moves n (offer fs) (u, with_room r k) (u', k')"
    using unpacker_cycle_step [OF shape, of "offer fs" "with_room r k"] next_ok off by fastforce
  have "unpacker_inv n (if fu_ready u then taken @ take 1 fs else taken) (u', k')"
  proof (cases "fu_ready u \<and> fs \<noteq> []")
    case True
    then have one: "take 1 fs = [hd fs]" by (cases fs) auto
    obtain rr where m: "sd_consume (fu_decoder u) (hd fs) = (fu_decoder u', Inr rr)"
      "credits_total (u', k') = credits_total (u, with_room r k) @ flit_credits n (hd fs, dr_messages rr)"
      "\<forall>rp < n. rdata_total rp (u', k') = rdata_total rp (u, with_room r k) @ of_type ReadData rp (dr_messages rr) \<and>
         wresp_total rp (u', k') = wresp_total rp (u, with_room r k) @ of_type WriteResp rp (dr_messages rr)"
      using c(3) True off by (auto simp: unpacker_moves_def)
    have "unpacker_account n (zip (taken @ [hd fs]) (mss @ [dr_messages rr])) (u', k')"
      using acc m(2,3) decode_flits_length [OF dec] by (simp add: unpacker_account_def)
    then show ?thesis using True one c(2) decode_flits_snoc [OF dec m(1)] by (auto simp: unpacker_inv_def)
  next
    case False
    then have "unpacker_account n (zip taken mss) (u', k') \<and> fu_decoder u' = fu_decoder u"
      using c(3) acc off by (auto simp: unpacker_moves_def unpacker_account_def)
    then show ?thesis using False c(2) dec by (auto simp: unpacker_inv_def)
  qed
  then show ?thesis using that c(1) by blast
qed

text \<open>
  The link hands over flits that decode: the receiver that watches the port never fails, and after
  any number of edges what it wrote and what it holds is exactly what the taken flits contain.
\<close>

definition decodable :: "aou_flit list \<Rightarrow> bool" where
  "decodable fs \<longleftrightarrow> list_all (\<lambda>f. fl_fdid f = 0) fs \<and> (\<exists>r. decode_flits stream_decoder0 fs = Inr r)"

lemma decode_flits_append:
  "decode_flits d (fs @ gs) = bindR (decode_flits d fs) (\<lambda>(d', mss). bindR (decode_flits d' gs) (\<lambda>(d'', nss). Inr (d'', mss @ nss)))"
proof (induction d fs rule: decode_flits.induct)
  case (1 d)
  then show ?case by (cases "decode_flits d gs") auto
next
  case (2 d f fs)
  obtain d' x where c: "sd_consume d f = (d', x)" by (cases "sd_consume d f")
  show ?case
  proof (cases x)
    case (Inr r)
    show ?thesis
      using 2 [OF c [symmetric] Inr] c Inr by (cases "decode_flits d' fs") (auto simp: bindR_def split: sum.splits prod.splits)
  qed (simp add: c)
qed

lemma decodable_next:
  assumes "decodable (taken @ f # fs)" "decode_flits stream_decoder0 taken = Inr (d, mss)"
  shows "\<exists>d' r. sd_consume d f = (d', Inr r) \<and> fl_fdid f = 0"
proof -
  have "\<exists>r. decode_flits d (f # fs) = Inr r"
    using assms by (auto simp: decodable_def decode_flits_append bindR_eq_Inr)
  then show ?thesis using assms(1) by (auto simp: decodable_def split: prod.splits sum.splits)
qed

lemma unpacker_session_inv:
  "unpacker_inv n taken (u, k) \<Longrightarrow> decodable (taken @ fs) \<Longrightarrow>
   \<exists>fs' u' k' now. unpacker_session rs (fs, u, k) = Inr (fs', u', k') \<and> fs = now @ fs' \<and> unpacker_inv n (taken @ now) (u', k')"
proof (induction rs arbitrary: taken fs u k)
  case (Cons r rs)
  obtain mss where dec: "decode_flits stream_decoder0 taken = Inr (fu_decoder u, mss)"
    using Cons.prems(1) by (auto simp: unpacker_inv_def)
  have nxt: "\<exists>d r. sd_consume (fu_decoder u) (hd fs) = (d, Inr r) \<and> fl_fdid (hd fs) = 0" if "fs \<noteq> []"
    using decodable_next [OF _ dec, of "hd fs" "tl fs"] Cons.prems(2) that by simp
  obtain u' k' w where c: "unpacker_cycle (offer fs) (u, with_room r k) = Inr ((u', k'), w)"
    "unpacker_inv n (if fu_ready u then taken @ take 1 fs else taken) (u', k')"
    using unpacker_cycle_inv [OF Cons.prems(1) nxt] .
  define now1 fs1 where "now1 = (if fu_ready u then take 1 fs else [])" and "fs1 = (if fu_ready u then tl fs else fs)"
  have split: "fs = now1 @ fs1" by (cases fs) (simp_all add: now1_def fs1_def)
  have "unpacker_inv n (taken @ now1) (u', k')" using c(2) by (simp add: now1_def split: if_splits)
  from Cons.IH [OF this, of fs1] Cons.prems(2)
  obtain fs' u'' k'' now where "unpacker_session rs (fs1, u', k') = Inr (fs', u'', k'')" "fs1 = now @ fs'"
    "unpacker_inv n ((taken @ now1) @ now) (u'', k'')" unfolding split by auto
  moreover have "unpacker_session (r # rs) (fs, u, k) = unpacker_session rs (fs1, u', k')"
    using c(1) by (simp add: fs1_def)
  ultimately have "unpacker_session (r # rs) (fs, u, k) = Inr (fs', u'', k'') \<and> fs = (now1 @ now) @ fs' \<and>
      unpacker_inv n (taken @ now1 @ now) (u'', k'')" using split by simp
  then show ?case by blast
qed simp

lemma unpacker_inv_reset: "unpacker_reset n = Inr u \<Longrightarrow> unpacker_inv n [] (u, sinks0)"
  by (auto simp: unpacker_reset_def unpacker_inv_def unpacker_shape_def unpacker_account_def total_defs sinks0_def pending_credits_def
      pending_messages_def split: if_splits)

section \<open>Properties\<close>

text \<open>
  C32. The receiving side of the bridge loses, duplicates and reorders nothing: fed any flits that
  decode, with any free places at its outputs at each edge, it never fails, takes a prefix of the
  flits, one for each edge with ready high, and for each plane the read data messages written to
  its queue followed by those still held are those the taken flits contain, in order; the same
  holds for the write responses and for the credits of headers and grant messages.
\<close>

theorem unpacker_delivers:
  assumes "unpacker_reset n = Inr u0" "decodable fs"
  shows "\<exists>fs' u k taken d mss. unpacker_session rs (fs, u0, sinks0) = Inr (fs', u, k) \<and> fs = taken @ fs' \<and>
    decode_flits stream_decoder0 taken = Inr (d, mss) \<and>
    us_credits k @ pending_credits u = concat (map (flit_credits n) (zip taken mss)) \<and>
    (\<forall>rp < n. us_rdata k rp @ of_type ReadData rp (pending_messages u) = of_type ReadData rp (concat mss) \<and>
              us_wresp k rp @ of_type WriteResp rp (pending_messages u) = of_type WriteResp rp (concat mss))"
proof -
  obtain fs' u k taken where s: "unpacker_session rs (fs, u0, sinks0) = Inr (fs', u, k)" "fs = taken @ fs'"
    "unpacker_inv n taken (u, k)"
    using unpacker_session_inv [OF unpacker_inv_reset [OF assms(1)], of fs rs] assms(2) by auto
  then obtain mss where d: "decode_flits stream_decoder0 taken = Inr (fu_decoder u, mss)" and a: "unpacker_account n (zip taken mss) (u, k)"
    by (auto simp: unpacker_inv_def)
  have "map snd (zip taken mss) = mss" using decode_flits_length [OF d] by simp
  with s(1,2) d a show ?thesis by (auto simp: unpacker_account_def total_defs)
qed

end
