(* ===== verification/Axi_If.thy ===== *)
theory Axi_If
  imports Aou_Flit
begin

text \<open>
  \<^verbatim>\<open>axi_if.h\<close> and \<^verbatim>\<open>axi_contract.h\<close>: the four channel structures and the request checks at the AXI
  port. The data width is a build parameter of the source; here it is an argument \<open>cfg\<close>, one of
  the three widths the static assertion admits.
\<close>

section \<open>Widths\<close>

definition cfg_ok :: "data_length \<Rightarrow> bool" where
  "cfg_ok cfg \<longleftrightarrow> cfg = B256 \<or> cfg = B512 \<or> cfg = B1024"

definition AXI_ID_MASK :: u32 where "AXI_ID_MASK = push_bit 10 1 - 1"
definition AXI_USER_MASK :: u32 where "AXI_USER_MASK = 0xFFFF"
definition AXI_DATA_BYTES :: "data_length \<Rightarrow> nat" where "AXI_DATA_BYTES cfg = nat (dlength_to_bytes cfg)"
definition AXI_STRB_WIDTH :: "data_length \<Rightarrow> nat" where "AXI_STRB_WIDTH cfg = AXI_DATA_BYTES cfg"
definition AXI_STRB_BYTES :: "data_length \<Rightarrow> nat" where "AXI_STRB_BYTES cfg = AXI_DATA_BYTES cfg div 8"

definition AXI_SIZE_CODE :: "data_length \<Rightarrow> u8" where
  "AXI_SIZE_CODE cfg = (if cfg = B256 then 5 else if cfg = B512 then 6 else 7)"

section \<open>Channels\<close>

record ax_channel =
  ax_valid :: bool
  ax_ready :: bool
  ax_id :: u16
  ax_addr :: u64
  ax_len :: u8
  ax_size :: u8
  ax_burst :: u8
  ax_lock :: u8
  ax_cache :: u8
  ax_prot :: u8
  ax_qos :: u8
  ax_user :: u16

definition ax_channel0 :: "data_length \<Rightarrow> ax_channel" where
  "ax_channel0 cfg = \<lparr>ax_valid = False, ax_ready = False, ax_id = 0, ax_addr = 0, ax_len = 0,
     ax_size = AXI_SIZE_CODE cfg, ax_burst = 1, ax_lock = 0, ax_cache = 0, ax_prot = 0, ax_qos = 0,
     ax_user = 0\<rparr>"

record w_channel =
  w_valid :: bool
  w_ready :: bool
  w_data :: "u8 list"
  w_strb :: "u8 list"
  w_last :: bool
  w_user :: u16

definition w_channel0 :: "data_length \<Rightarrow> w_channel" where
  "w_channel0 cfg = \<lparr>w_valid = False, w_ready = False, w_data = replicate (AXI_DATA_BYTES cfg) 0,
     w_strb = replicate (AXI_STRB_WIDTH cfg) 0, w_last = False, w_user = 0\<rparr>"

record b_channel =
  b_valid :: bool
  b_ready :: bool
  b_id :: u16
  b_resp :: u8
  b_user :: u16

definition b_channel0 :: b_channel where
  "b_channel0 = \<lparr>b_valid = False, b_ready = False, b_id = 0, b_resp = 0, b_user = 0\<rparr>"

record r_channel =
  r_valid :: bool
  r_ready :: bool
  r_id :: u16
  r_data :: "u8 list"
  r_resp :: u8
  r_last :: bool
  r_user :: u16

definition r_channel0 :: "data_length \<Rightarrow> r_channel" where
  "r_channel0 cfg = \<lparr>r_valid = False, r_ready = False, r_id = 0, r_data = replicate (AXI_DATA_BYTES cfg) 0,
     r_resp = 0, r_last = False, r_user = 0\<rparr>"

lemmas channel_defaults = ax_channel0_def w_channel0_def b_channel0_def r_channel0_def

text \<open>The arrays of a data beat have the length of their C++ type.\<close>

definition wf_w :: "data_length \<Rightarrow> w_channel \<Rightarrow> bool" where
  "wf_w cfg w \<longleftrightarrow> length (w_data w) = AXI_DATA_BYTES cfg \<and> length (w_strb w) = AXI_STRB_WIDTH cfg"

definition wf_r :: "data_length \<Rightarrow> r_channel \<Rightarrow> bool" where
  "wf_r cfg r \<longleftrightarrow> length (r_data r) = AXI_DATA_BYTES cfg"

section \<open>Request checks\<close>

datatype axi_error = NotIncr | SizeTooWide | Misaligned | Crosses4K

definition axi_request_error :: "data_length \<Rightarrow> ax_channel \<Rightarrow> axi_error option" where
  "axi_request_error cfg ax =
     (if ax_burst ax \<noteq> 1 then Some NotIncr
      else if ax_size ax > AXI_SIZE_CODE cfg then Some SizeTooWide
      else
        let beat_bytes = push_bit (unat (ax_size ax)) 1 :: u64
        in if ax_addr ax AND (beat_bytes - 1) \<noteq> 0 then Some Misaligned
           else if (ax_addr ax AND 4095) + (ucast (ax_len ax) + 1) * beat_bytes > 4096 then Some Crosses4K
           else None)"

definition axi_wlast_matches :: "nat \<Rightarrow> bool \<Rightarrow> bool" where
  "axi_wlast_matches beats_remaining wlast \<longleftrightarrow> beats_remaining > 0 \<and> wlast = (beats_remaining = 1)"

definition beat_bytes :: "ax_channel \<Rightarrow> nat" where
  "beat_bytes ax = 2 ^ unat (ax_size ax)"

lemma size_code_le: "unat (AXI_SIZE_CODE cfg) \<le> 7"
  by (simp add: AXI_SIZE_CODE_def)

lemma and_mask_mod: "unat (x AND (push_bit n 1 - 1)) = unat x mod 2 ^ n" for x :: u64
proof -
  have "push_bit n 1 - 1 = (mask n :: u64)" by (simp add: push_bit_eq_mult mask_eq_exp_minus_1)
  then have "unat (x AND (push_bit n 1 - 1)) = take_bit n (unat x)"
    by (simp add: unsigned_take_bit_eq flip: take_bit_eq_mask)
  then show ?thesis by (simp add: take_bit_eq_mod)
qed

lemma unat_and_4095: "unat (x AND 4095) = unat x mod 4096" for x :: u64
  using and_mask_mod [of x 12] by (simp add: push_bit_eq_mult)

text \<open>The checks in plain arithmetic; the 64-bit sum in the last one cannot wrap.\<close>

lemma axi_request_error_None_iff:
  "axi_request_error cfg ax = None \<longleftrightarrow>
     ax_burst ax = 1 \<and> ax_size ax \<le> AXI_SIZE_CODE cfg \<and> beat_bytes ax dvd unat (ax_addr ax) \<and>
     unat (ax_addr ax) mod 4096 + (unat (ax_len ax) + 1) * beat_bytes ax \<le> 4096"
proof (cases "ax_size ax \<le> AXI_SIZE_CODE cfg")
  case True
  define s where "s = unat (ax_size ax)"
  have s: "s \<le> 7" using True size_code_le [of cfg] by (simp add: s_def word_le_nat_alt)
  have p: "unat (push_bit s 1 :: u64) = 2 ^ s" 
  proof -
    have "(2 :: nat) ^ s < 2 ^ 64" using s by (intro power_strict_increasing) auto
    then have "unat (of_nat (2 ^ s) :: u64) = 2 ^ s" by (simp add: unat_of_nat del: of_nat_power)
    then show ?thesis by (simp add: push_bit_eq_mult)
  qed
  have bb: "(2 :: nat) ^ s \<le> 2 ^ 7" using s by (intro power_increasing) auto
  have len: "unat (ucast (ax_len ax) + 1 :: u64) = unat (ax_len ax) + 1"
    using unat_u8_less [of "ax_len ax"] by (simp add: unat_word_ariths unsigned_ucast_eq take_bit_nat_eq_self)
  have prod: "(unat (ax_len ax) + 1) * 2 ^ s \<le> 256 * 2 ^ 7"
    using unat_u8_less [of "ax_len ax"] bb by (intro mult_mono) auto
  have m: "unat (ax_addr ax) mod 4096 < 4096" by simp
  have sum: "unat ((ax_addr ax AND 4095) + (ucast (ax_len ax) + 1) * push_bit s 1) =
      unat (ax_addr ax) mod 4096 + (unat (ax_len ax) + 1) * 2 ^ s"
  proof -
    have "unat ((ucast (ax_len ax) + 1) * push_bit s 1 :: u64) = (unat (ax_len ax) + 1) * 2 ^ s"
      using prod by (simp only: unat_word_ariths(2) len p) (simp only: mod_less len_of_numeral_defs, simp)
    then show ?thesis using prod m by (simp only: unat_word_ariths(1) unat_and_4095) simp
  qed
  have z: "ax_addr ax AND (push_bit s 1 - 1) = 0 \<longleftrightarrow> 2 ^ s dvd unat (ax_addr ax)"
    using and_mask_mod [of "ax_addr ax" s] by (simp add: mod_eq_0_iff_dvd flip: unat_eq_0)
  have c: "(ax_addr ax AND 4095) + (ucast (ax_len ax) + 1) * push_bit s 1 > 4096 \<longleftrightarrow>
      \<not> unat (ax_addr ax) mod 4096 + (unat (ax_len ax) + 1) * 2 ^ s \<le> 4096"
    by (simp only: word_less_nat_alt sum) (simp add: not_le)
  show ?thesis
    using True z c leD [OF True] by (simp add: axi_request_error_def Let_def beat_bytes_def s_def [symmetric])
next
  case False
  then show ?thesis by (simp add: axi_request_error_def not_le)
qed

text \<open>An admitted burst stays in its 4 KB page, so no beat address wraps.\<close>

lemma axi_request_in_page:
  assumes "axi_request_error cfg ax = None" "i \<le> unat (ax_len ax)"
  shows "(unat (ax_addr ax) + i * beat_bytes ax) div 4096 = unat (ax_addr ax) div 4096"
    "unat (ax_addr ax) + (i + 1) * beat_bytes ax \<le> 2 ^ 64"
proof -
  let ?a = "unat (ax_addr ax)"
  have b: "?a mod 4096 + (unat (ax_len ax) + 1) * beat_bytes ax \<le> 4096"
    using assms(1) by (simp add: axi_request_error_None_iff)
  have "(i + 1) * beat_bytes ax \<le> (unat (ax_len ax) + 1) * beat_bytes ax"
    using assms(2) by (intro mult_right_mono) simp_all
  then have le: "?a mod 4096 + (i + 1) * beat_bytes ax \<le> 4096" using b by linarith
  have pos: "0 < beat_bytes ax" by (simp add: beat_bytes_def)
  then have lt: "?a mod 4096 + i * beat_bytes ax < 4096" using le by simp
  have split: "?a = 4096 * (?a div 4096) + ?a mod 4096" by simp
  have "(?a + i * beat_bytes ax) div 4096 = (4096 * (?a div 4096) + (?a mod 4096 + i * beat_bytes ax)) div 4096"
    using split by (metis add.assoc)
  also have "\<dots> = ?a div 4096" using lt by (simp only: div_mult_self4)
  finally show "(?a + i * beat_bytes ax) div 4096 = ?a div 4096" .
  have "?a < 2 ^ 64" using unat_u64_less [of "ax_addr ax"] by simp
  then have "?a div 4096 < 2 ^ 52" by (simp add: less_mult_imp_div_less)
  then have "4096 * (?a div 4096) + 4096 \<le> 2 ^ 64" by simp
  then show "?a + (i + 1) * beat_bytes ax \<le> 2 ^ 64" using le split by linarith
qed

section \<open>Properties\<close>

text \<open>
  C31. The request check admits exactly the incrementing bursts whose beat size fits the bus, whose
  address is aligned to the beat, and which end within the 4 KB page they start in; every beat of an
  admitted burst lies in that page and the address arithmetic never wraps.
\<close>

theorem axi_request_admission:
  "(axi_request_error cfg ax = None \<longleftrightarrow>
     ax_burst ax = 1 \<and> ax_size ax \<le> AXI_SIZE_CODE cfg \<and> beat_bytes ax dvd unat (ax_addr ax) \<and>
     unat (ax_addr ax) mod 4096 + (unat (ax_len ax) + 1) * beat_bytes ax \<le> 4096) \<and>
   (axi_request_error cfg ax = None \<longrightarrow> (\<forall>i \<le> unat (ax_len ax).
     (unat (ax_addr ax) + i * beat_bytes ax) div 4096 = unat (ax_addr ax) div 4096 \<and>
     unat (ax_addr ax) + (i + 1) * beat_bytes ax \<le> 2 ^ 64))"
  using axi_request_error_None_iff [of cfg ax] axi_request_in_page [of cfg ax] by blast

theorem axi_request_admission_witness:
  "axi_request_error B256 ((ax_channel0 B256)\<lparr>ax_addr := 0xFC0, ax_len := 1\<rparr>) = None \<and>
   (4032 + 1 * 32) div 4096 = (4032 :: nat) div 4096"
proof -
  have "axi_request_error B256 ((ax_channel0 B256)\<lparr>ax_addr := 0xFC0, ax_len := 1\<rparr>) = None"
    by (simp add: axi_request_error_def ax_channel0_def AXI_SIZE_CODE_def)
  with axi_request_admission [of B256 "(ax_channel0 B256)\<lparr>ax_addr := 0xFC0, ax_len := 1\<rparr>"]
  show ?thesis by (auto simp: beat_bytes_def ax_channel0_def AXI_SIZE_CODE_def dest!: spec [of _ 1])
qed

end
