(* ===== verification/Msg_Codec.thy ===== *)
theory Msg_Codec
  imports Axi_If
begin

text \<open>
  \<^verbatim>\<open>msg_builder.h\<close> and \<^verbatim>\<open>msg_decoder.h\<close>: AXI channel beats as messages and back. A decoder
  returns the flag of the source and the value of its reference argument, which a failed decode
  may leave partly overwritten.
\<close>

section \<open>Strobes\<close>

definition is_full_strobe :: "data_length \<Rightarrow> w_channel \<Rightarrow> bool" where
  "is_full_strobe cfg w = list_all (\<lambda>i. w_strb w ! i \<noteq> 0) [0..<AXI_STRB_WIDTH cfg]"

definition pack_strobe_bit :: "u8 list \<Rightarrow> nat \<Rightarrow> u8 list \<Rightarrow> u8 list" where
  "pack_strobe_bit strb i packed =
     (if strb ! i \<noteq> 0 then packed[i div 8 := packed ! (i div 8) OR push_bit (i mod 8) 1] else packed)"

definition pack_strobe :: "data_length \<Rightarrow> u8 list \<Rightarrow> u8 list \<Rightarrow> u8 list" where
  "pack_strobe cfg strb packed = fold (pack_strobe_bit strb) [0..<AXI_STRB_WIDTH cfg] packed"

definition unpack_strobe :: "data_length \<Rightarrow> u8 list \<Rightarrow> u8 list" where
  "unpack_strobe cfg packed =
     map (\<lambda>i. if drop_bit (i mod 8) (packed ! (i div 8)) AND 1 \<noteq> 0 then 0xFF else 0) [0..<AXI_STRB_WIDTH cfg]"

section \<open>Builders\<close>

definition bw_start :: bit_writer where
  "bw_start = \<lparr>bw_dst = am_data aou_message0, bw_bit = 0\<rparr>"

definition put_header :: "msg_type \<Rightarrow> u8 \<Rightarrow> bit_writer \<Rightarrow> bit_writer" where
  "put_header t rp bw = bw_put (bw_put bw (ucast (msg_type_code t)) 4) (ucast rp) 2"

definition build_req :: "ax_channel \<Rightarrow> u8 \<Rightarrow> msg_type \<Rightarrow> int \<Rightarrow> aou_message result" where
  "build_req ax rp t granules =
     (let m = aou_message0\<lparr>am_type := t, am_rp := rp AND 3, am_granules := granules,
            am_byte_len := granules * GRANULE_BYTES, am_axi_id := ucast (ax_id ax) AND AXI_ID_MASK,
            am_axi_addr := ax_addr ax\<rparr>;
          b = put_header t (rp AND 3) bw_start;
          b = bw_skip b 1;
          b = bw_put b (ucast (ax_lock ax) AND 1) 1;
          b = bw_put b (ucast (ucast (ax_user ax) AND AXI_USER_MASK)) 16;
          b = bw_put b (ucast (ucast (ax_id ax) AND AXI_ID_MASK)) 10;
          b = bw_put b (ucast (ax_size ax) AND 7) 3;
          b = bw_put b (ucast (ax_prot ax) AND 7) 3;
          b = bw_put b (ucast (ax_len ax)) 8;
          b = bw_put b (ucast (ax_cache ax) AND 15) 4;
          b = bw_put b (ucast (ax_qos ax) AND 15) 4;
          b = bw_put b (ax_addr ax) 64
      in if bw_bit b = 120 then Inr (m\<lparr>am_data := bw_dst b\<rparr>)
         else Inl (AssertFailed ''build_req: 120 bits''))"

definition build_write_req :: "ax_channel \<Rightarrow> u8 \<Rightarrow> aou_message result" where
  "build_write_req aw rp = build_req aw rp WriteReq WREQ_GRANULES"

definition build_read_req :: "ax_channel \<Rightarrow> u8 \<Rightarrow> aou_message result" where
  "build_read_req ar rp = build_req ar rp ReadReq RREQ_GRANULES"

definition build_write_data :: "data_length \<Rightarrow> w_channel \<Rightarrow> u8 \<Rightarrow> data_length \<Rightarrow> aou_message result" where
  "build_write_data cfg w rp dl =
     (let m = aou_message0\<lparr>am_type := WriteData, am_rp := rp AND 3, am_granules := wdata_granules dl,
            am_byte_len := wdata_granules dl * GRANULE_BYTES\<rparr>;
          b = put_header WriteData (rp AND 3) bw_start;
          b = bw_put b (ucast (data_length_code dl)) 2;
          b = bw_put b (ucast (ucast (w_user w) AND AXI_USER_MASK)) 16
      in bindR (bw_put_bytes_msb_first b (w_data w) (AXI_DATA_BYTES cfg)) (\<lambda>b.
         let packed_strb = pack_strobe cfg (w_strb w) (replicate (AXI_STRB_BYTES cfg) 0)
         in bindR (bw_put_bytes_msb_first b packed_strb (AXI_STRB_BYTES cfg)) (\<lambda>b.
            Inr (m\<lparr>am_data := bw_dst b\<rparr>))))"

definition build_write_data_full :: "data_length \<Rightarrow> w_channel \<Rightarrow> u8 \<Rightarrow> data_length \<Rightarrow> aou_message result" where
  "build_write_data_full cfg w rp dl =
     (let m = aou_message0\<lparr>am_type := WriteDataFull, am_rp := rp AND 3, am_granules := wdatafull_granules dl,
            am_byte_len := wdatafull_granules dl * GRANULE_BYTES\<rparr>;
          b = put_header WriteDataFull (rp AND 3) bw_start;
          b = bw_put b (ucast (data_length_code dl)) 2;
          b = bw_put b (ucast (ucast (w_user w) AND AXI_USER_MASK)) 16
      in bindR (bw_put_bytes_msb_first b (w_data w) (AXI_DATA_BYTES cfg)) (\<lambda>b.
         Inr (m\<lparr>am_data := bw_dst b\<rparr>)))"

definition build_read_data :: "data_length \<Rightarrow> r_channel \<Rightarrow> u8 \<Rightarrow> data_length \<Rightarrow> aou_message result" where
  "build_read_data cfg r rp dl =
     (let m = aou_message0\<lparr>am_type := ReadData, am_rp := rp AND 3, am_granules := rdata_granules dl,
            am_byte_len := rdata_granules dl * GRANULE_BYTES, am_axi_id := ucast (r_id r) AND AXI_ID_MASK\<rparr>;
          b = put_header ReadData (rp AND 3) bw_start;
          b = bw_put b (ucast (data_length_code dl)) 2;
          b = bw_put b (ucast (ucast (r_user r) AND AXI_USER_MASK)) 16;
          b = bw_put b (ucast (ucast (r_id r) AND AXI_ID_MASK)) 10;
          b = bw_put b (ucast (r_resp r) AND 3) 2;
          b = bw_put b (if r_last r then 1 else 0) 1;
          b = bw_skip b 3
      in bindR (bw_put_bytes_msb_first b (r_data r) (AXI_DATA_BYTES cfg)) (\<lambda>b.
         Inr (m\<lparr>am_data := bw_dst b\<rparr>)))"

definition build_write_resp :: "b_channel \<Rightarrow> u8 \<Rightarrow> aou_message" where
  "build_write_resp r rp =
     (let m = aou_message0\<lparr>am_type := WriteResp, am_rp := rp AND 3, am_granules := WRESP_GRANULES,
            am_byte_len := WRESP_GRANULES * GRANULE_BYTES, am_axi_id := ucast (b_id r) AND AXI_ID_MASK\<rparr>;
          b = put_header WriteResp (rp AND 3) bw_start;
          b = bw_skip b 2;
          b = bw_put b (ucast (ucast (b_user r) AND AXI_USER_MASK)) 16;
          b = bw_put b (ucast (ucast (b_id r) AND AXI_ID_MASK)) 10;
          b = bw_put b (ucast (b_resp r) AND 3) 2;
          b = bw_skip b 4
      in m\<lparr>am_data := bw_dst b\<rparr>)"

section \<open>Decoders\<close>

definition br_start :: "aou_message \<Rightarrow> bit_reader" where
  "br_start msg = \<lparr>br_src = am_data msg, br_bit = 0\<rparr>"

definition decode_write_resp :: "aou_message \<Rightarrow> b_channel \<Rightarrow> (bool \<times> b_channel) result" where
  "decode_write_resp msg old =
     (if am_type msg \<noteq> WriteResp \<or> am_byte_len msg < WRESP_GRANULES * GRANULE_BYTES then Inr (False, old)
      else
        let r = br_skip (br_skip (br_skip (br_start msg) 4) 2) 2;
            (user, r) = br_get r 16;
            (id, r) = br_get r 10;
            (resp, r) = br_get r 2;
            r = br_skip r 4
        in if br_bit r = 40
           then Inr (True, b_channel0\<lparr>b_user := ucast user, b_id := ucast id, b_resp := ucast resp\<rparr>)
           else Inl (AssertFailed ''decode_write_resp: 40 bits''))"

definition decode_read_data :: "data_length \<Rightarrow> aou_message \<Rightarrow> r_channel \<Rightarrow> (bool \<times> r_channel) result" where
  "decode_read_data cfg msg old =
     (if am_type msg \<noteq> ReadData \<or> am_byte_len msg < 5 + int (AXI_DATA_BYTES cfg) then Inr (False, old)
      else
        let r = br_skip (br_skip (br_start msg) 4) 2;
            (dl, r) = br_get r 2;
            (user, r) = br_get r 16;
            (id, r) = br_get r 10;
            (resp, r) = br_get r 2;
            (lst, r) = br_get r 1;
            r = br_skip r 3;
            v = (r_channel0 cfg)\<lparr>r_user := ucast user, r_id := ucast id, r_resp := ucast resp,
                   r_last := (lst \<noteq> 0)\<rparr>
        in if data_length_cast (ucast dl) \<noteq> cfg then Inr (False, v)
           else bindR (br_get_bytes_msb_first r (AXI_DATA_BYTES cfg)) (\<lambda>(data, r).
                Inr (True, v\<lparr>r_data := data\<rparr>)))"

definition decode_req :: "data_length \<Rightarrow> aou_message \<Rightarrow> ax_channel \<Rightarrow> (bool \<times> ax_channel) result" where
  "decode_req cfg msg old =
     (if (am_type msg \<noteq> WriteReq \<and> am_type msg \<noteq> ReadReq) \<or> am_byte_len msg < WREQ_GRANULES * GRANULE_BYTES
      then Inr (False, old)
      else
        let r = br_skip (br_skip (br_skip (br_start msg) 4) 2) 1;
            (lock, r) = br_get r 1;
            (user, r) = br_get r 16;
            (id, r) = br_get r 10;
            (size, r) = br_get r 3;
            (prot, r) = br_get r 3;
            (len, r) = br_get r 8;
            (cache, r) = br_get r 4;
            (qos, r) = br_get r 4;
            (addr, r) = br_get r 64
        in if br_bit r = 120
           then Inr (True, (ax_channel0 cfg)\<lparr>ax_lock := ucast lock, ax_user := ucast user, ax_id := ucast id,
                  ax_size := ucast size, ax_prot := ucast prot, ax_len := ucast len,
                  ax_cache := ucast cache, ax_qos := ucast qos, ax_addr := addr, ax_burst := 1\<rparr>)
           else Inl (AssertFailed ''decode_req: 120 bits''))"

definition decode_write_data :: "data_length \<Rightarrow> aou_message \<Rightarrow> w_channel \<Rightarrow> (bool \<times> w_channel) result" where
  "decode_write_data cfg msg old =
     (let full = (am_type msg = WriteDataFull)
      in if am_type msg \<noteq> WriteData \<and> \<not> full then Inr (False, old)
         else if am_byte_len msg < 3 + int (AXI_DATA_BYTES cfg) then Inr (False, old)
         else
           let r = br_skip (br_skip (br_start msg) 4) 2;
               (dl, r) = br_get r 2;
               (user, r) = br_get r 16;
               v = (w_channel0 cfg)\<lparr>w_user := ucast user\<rparr>
           in if data_length_cast (ucast dl) \<noteq> cfg then Inr (False, v)
              else bindR (br_get_bytes_msb_first r (AXI_DATA_BYTES cfg)) (\<lambda>(data, r).
                if full then Inr (True, v\<lparr>w_data := data, w_strb := replicate (AXI_STRB_WIDTH cfg) 0xFF\<rparr>)
                else bindR (br_get_bytes_msb_first r (AXI_STRB_BYTES cfg)) (\<lambda>(packed, r).
                  Inr (True, v\<lparr>w_data := data, w_strb := unpack_strobe cfg packed\<rparr>))))"

section \<open>The bits of the built messages\<close>

lemma bw_start: "bw_start = bw_of 240 []"
  by (simp add: bw_start_def aou_message0_def aou_consts bw_init)

definition req_bits :: "ax_channel \<Rightarrow> u8 \<Rightarrow> msg_type \<Rightarrow> bool list" where
  "req_bits ax rp t = val_bits 4 (ucast (msg_type_code t)) @ val_bits 2 (ucast (rp AND 3)) @ [False] @
     val_bits 1 (ucast (ax_lock ax)) @ val_bits 16 (ucast (ax_user ax)) @ val_bits 10 (ucast (ax_id ax)) @
     val_bits 3 (ucast (ax_size ax)) @ val_bits 3 (ucast (ax_prot ax)) @ val_bits 8 (ucast (ax_len ax)) @
     val_bits 4 (ucast (ax_cache ax)) @ val_bits 4 (ucast (ax_qos ax)) @ val_bits 64 (ax_addr ax)"

lemma br_skip_one [codec_simps]: "br_skip (br_of pre (b # rest)) (Suc 0) = br_of (pre @ [b]) rest"
  using br_skip_br_of [of "[b]" "Suc 0" pre rest] by simp

lemma bw_dst_bw_of: "length xs \<le> 8 * n \<Longrightarrow>
  bw_dst (bw_of n xs) = bytes_of (xs @ replicate (8 * n - length xs) False)"
  by (intro bytes_of_eqI) (simp add: bits_bw_dst)

lemma val_bits_masks:
  "val_bits (Suc 0) (v AND 1) = val_bits (Suc 0) v" "val_bits 3 (v AND 7) = val_bits 3 v"
  "val_bits 2 (v AND 3) = val_bits 2 v" "val_bits 4 (v AND 15) = val_bits 4 v"
  using val_bits_mask [of "Suc 0" "Suc 0" v] val_bits_mask [of 3 3 v] val_bits_mask [of 2 2 v] val_bits_mask [of 4 4 v]
  by (simp_all add: mask_eq_exp_minus_1)

lemma axi_masks: "AXI_ID_MASK = mask 10" "AXI_USER_MASK = mask 16"
  by (simp_all add: AXI_ID_MASK_def AXI_USER_MASK_def mask_eq_exp_minus_1)

lemma val_bits_axi:
  "val_bits 16 (ucast (ucast (u :: u16) AND AXI_USER_MASK)) = val_bits 16 (ucast u)"
  "val_bits 10 (ucast (ucast (u :: u16) AND AXI_ID_MASK)) = val_bits 10 (ucast u)"
  by (rule nth_equalityI, simp, auto simp: nth_val_bits axi_masks bit_simps)+

text \<open>A field read back into its own type.\<close>

lemma field_back:
  "ucast (take_bit k (ucast (x :: u8) :: u64)) = take_bit k x"
  "ucast (take_bit k (ucast (y :: u16) :: u64)) = take_bit k y"
  by (rule bit_word_eqI, auto simp: bit_simps)+

lemma field_full: "take_bit 8 (x :: u8) = x" "take_bit 16 (y :: u16) = y" "take_bit 64 (z :: u64) = z"
  using take_bit_length_eq [of x] take_bit_length_eq [of y] take_bit_length_eq [of z] by simp_all

lemma build_req_eq:
  "build_req ax rp t n = Inr (aou_message0\<lparr>am_type := t, am_rp := rp AND 3, am_granules := n,
     am_byte_len := n * 5, am_axi_id := ucast (ax_id ax) AND AXI_ID_MASK, am_axi_addr := ax_addr ax,
     am_data := bytes_of (req_bits ax rp t @ replicate 1800 False)\<rparr>)"
  by (simp add: build_req_def Let_def put_header_def bw_start codec_simps val_bits_masks val_bits_axi
      req_bits_def bw_dst_bw_of aou_consts)

text \<open>The fields of a request that survive the wire.\<close>

definition req_fields :: "ax_channel \<Rightarrow> ax_channel" where
  "req_fields ax = \<lparr>ax_valid = False, ax_ready = False, ax_id = take_bit 10 (ax_id ax),
     ax_addr = ax_addr ax, ax_len = ax_len ax, ax_size = take_bit 3 (ax_size ax), ax_burst = 1,
     ax_lock = take_bit 1 (ax_lock ax), ax_cache = take_bit 4 (ax_cache ax), ax_prot = take_bit 3 (ax_prot ax),
     ax_qos = take_bit 4 (ax_qos ax), ax_user = ax_user ax\<rparr>"

lemma decode_build_req:
  assumes "t = WriteReq \<or> t = ReadReq" "build_req ax rp t 3 = Inr m"
  shows "decode_req cfg m old = Inr (True, req_fields ax)"
proof -
  have m: "am_type m = t" "am_byte_len m = 15" "am_data m = bytes_of (req_bits ax rp t @ replicate 1800 False)"
    using assms(2) by (auto simp: build_req_eq)
  have "br_start m = br_of [] (req_bits ax rp t @ replicate 1800 False)"
    by (simp add: br_start_def br_init m req_bits_def)
  then show ?thesis using assms(1) m(1,2)
    by (auto simp: decode_req_def Let_def req_bits_def codec_simps granule_defs aou_consts field_back
        field_full ax_channel0_def req_fields_def simp del: take_bit_Suc_0)
qed


lemma req_wf:
  assumes "t = WriteReq \<or> t = ReadReq" "build_req ax rp t 3 = Inr m"
  shows "wf_msg m"
proof -
  obtain ys where ys: "req_bits ax rp t @ replicate 1800 False =
      val_bits 4 (ucast (msg_type_code t)) @ val_bits 2 (ucast (rp AND 3)) @
      val_bits 2 (push_bit 1 0 OR (ucast (ax_lock ax) AND 1)) @ ys"
    by (simp add: req_bits_def val_bits_Suc bit_simps numeral_2_eq_2)
  note f = header_byte_fields [OF this]
  have z: "drop 15 (bytes_of (req_bits ax rp t @ replicate 1800 False)) = replicate 225 0"
    by (simp add: drop_bytes_of req_bits_def)
  have m: "m = aou_message0\<lparr>am_type := t, am_rp := rp AND 3, am_granules := 3,
     am_byte_len := 15, am_axi_id := ucast (ax_id ax) AND AXI_ID_MASK, am_axi_addr := ax_addr ax,
     am_data := bytes_of (req_bits ax rp t @ replicate 1800 False)\<rparr>"
    using assms(2) by (simp add: build_req_eq)
  show ?thesis
    using f z assms(1) by (auto simp: wf_msg_def m message_granules_from_header_def msg_type_of_def
        msg_type_cast_def msg_type_code_def granule_defs req_bits_def)
qed

section \<open>Strobe maps\<close>

lemma pack_strobe_bit_nth:
  assumes "j < length p" "b < 8"
  shows "bit (pack_strobe_bit strb n p ! j) b \<longleftrightarrow> bit (p ! j) b \<or> 8 * j + b = n \<and> strb ! n \<noteq> 0"
proof -
  have "8 * j + b = n \<longleftrightarrow> n div 8 = j \<and> n mod 8 = b" using assms(2) by auto
  then show ?thesis using assms
    by (cases "n div 8 = j") (auto simp: pack_strobe_bit_def bit_simps)
qed

lemma length_pack_strobe_bit [simp]: "length (pack_strobe_bit strb n p) = length p"
  by (simp add: pack_strobe_bit_def)

lemma length_pack_strobe_fold [simp]: "length (fold (pack_strobe_bit strb) xs p) = length p"
  by (induction xs arbitrary: p) simp_all

lemma pack_strobe_prefix:
  assumes "j < length p" "b < 8"
  shows "bit (fold (pack_strobe_bit strb) [0..<n] p ! j) b \<longleftrightarrow>
     bit (p ! j) b \<or> 8 * j + b < n \<and> strb ! (8 * j + b) \<noteq> 0"
proof (induction n)
  case (Suc n)
  have "fold (pack_strobe_bit strb) [0..<Suc n] p = pack_strobe_bit strb n (fold (pack_strobe_bit strb) [0..<n] p)"
    by simp
  then show ?case using Suc assms
    by (simp only: pack_strobe_bit_nth length_pack_strobe_fold) (auto simp: less_Suc_eq)
qed simp

lemma strobe_roundtrip:
  assumes "length strb = AXI_STRB_WIDTH cfg" "cfg_ok cfg"
  shows "unpack_strobe cfg (pack_strobe cfg strb (replicate (AXI_STRB_BYTES cfg) 0)) =
    map (\<lambda>b. if b = 0 then 0 else 0xFF) strb"
proof (rule nth_equalityI)
  have w: "AXI_STRB_WIDTH cfg = 8 * AXI_STRB_BYTES cfg"
    using assms(2) by (auto simp: cfg_ok_def AXI_STRB_WIDTH_def AXI_STRB_BYTES_def AXI_DATA_BYTES_def dlength_to_bytes_def)
  show "length (unpack_strobe cfg (pack_strobe cfg strb (replicate (AXI_STRB_BYTES cfg) 0))) =
      length (map (\<lambda>b. if b = 0 then 0 else 0xFF) strb)"
    using assms(1) by (simp add: unpack_strobe_def)
  fix i assume "i < length (unpack_strobe cfg (pack_strobe cfg strb (replicate (AXI_STRB_BYTES cfg) 0)))"
  then have i: "i < AXI_STRB_WIDTH cfg" by (simp add: unpack_strobe_def)
  then have j: "i div 8 < AXI_STRB_BYTES cfg" using w by simp
  let ?p = "pack_strobe cfg strb (replicate (AXI_STRB_BYTES cfg) 0)"
  have "bit (?p ! (i div 8)) (i mod 8) \<longleftrightarrow> strb ! i \<noteq> 0"
    using pack_strobe_prefix [of "i div 8" "replicate (AXI_STRB_BYTES cfg) 0" "i mod 8" strb] j i
    by (simp add: pack_strobe_def)
  then have "drop_bit (i mod 8) (?p ! (i div 8)) AND 1 \<noteq> 0 \<longleftrightarrow> strb ! i \<noteq> 0"
    by (simp add: and_one_eq bit_iff_odd_drop_bit odd_iff_mod_2_eq_one)
  then show "unpack_strobe cfg ?p ! i = map (\<lambda>b. if b = 0 then 0 else 0xFF) strb ! i"
    using i assms(1) by (simp add: unpack_strobe_def)
qed

section \<open>Responses and data\<close>

lemma cfg_bytes:
  assumes "cfg_ok cfg"
  shows "8 * AXI_STRB_BYTES cfg = AXI_DATA_BYTES cfg" "AXI_STRB_WIDTH cfg = AXI_DATA_BYTES cfg"
    "AXI_DATA_BYTES cfg \<le> 128" "0 < AXI_DATA_BYTES cfg"
    "8 + int (AXI_DATA_BYTES cfg) + int (AXI_STRB_BYTES cfg) \<le> wdata_granules cfg * 5 + 5"
    "3 + AXI_DATA_BYTES cfg + AXI_STRB_BYTES cfg \<le> nat (wdata_granules cfg * 5)"
    "3 + AXI_DATA_BYTES cfg \<le> nat (wdatafull_granules cfg * 5)"
    "5 + AXI_DATA_BYTES cfg \<le> nat (rdata_granules cfg * 5)"
    "nat (wdata_granules cfg * 5) \<le> 240" "nat (wdatafull_granules cfg * 5) \<le> 240"
    "nat (rdata_granules cfg * 5) \<le> 240"
    "take_bit 2 (ucast (data_length_code cfg) :: u64) = ucast (data_length_code cfg)"
    "data_length_cast (ucast (ucast (data_length_code cfg) :: u64)) = cfg"
  using assms
  by (auto simp: cfg_ok_def AXI_STRB_BYTES_def AXI_STRB_WIDTH_def AXI_DATA_BYTES_def dlength_to_bytes_def
      granule_defs data_length_code_def data_length_cast_def)

definition data_granules :: "msg_type \<Rightarrow> data_length \<Rightarrow> int" where
  "data_granules t cfg = (if t = WriteData then wdata_granules cfg
     else if t = WriteDataFull then wdatafull_granules cfg else rdata_granules cfg)"

definition data_header :: "msg_type \<Rightarrow> u8 \<Rightarrow> data_length \<Rightarrow> bool list" where
  "data_header t rp cfg = val_bits 4 (ucast (msg_type_code t)) @ val_bits 2 (ucast (rp AND 3)) @
     val_bits 2 (ucast (data_length_code cfg))"

lemma length_data_header [simp]: "length (data_header t rp cfg) = 8"
  by (simp add: data_header_def)

lemma data_msg_wf:
  assumes "cfg_ok cfg" and t: "t = WriteData \<or> t = WriteDataFull \<or> t = ReadData"
    and m: "am_type m = t" "am_granules m = data_granules t cfg" "am_byte_len m = data_granules t cfg * 5"
      "am_data m = bytes_of (data_header t rp cfg @ ys @ replicate k False)"
    and len: "8 + length ys + k = 1920" "8 + length ys \<le> 8 * nat (data_granules t cfg * 5)"
  shows "wf_msg m"
proof -
  note f = header_byte_fields [of "data_header t rp cfg @ ys @ replicate k False" _ _ _ "ys @ replicate k False",
      OF data_header_def [THEN arg_cong, of "\<lambda>h. h @ ys @ replicate k False", simplified append_assoc]]
  have mt: "msg_type_of (am_data m ! 0) = t"
    using f(1) t by (auto simp: msg_type_of_def m(4) msg_type_code_def msg_type_cast_def)
  have dl: "msg_dlength_of (am_data m ! 0) = cfg" "am_data m ! 0 AND 3 \<noteq> 3"
    using f(3) assms(1) by (auto simp: msg_dlength_of_def m(4) data_length_code_def data_length_cast_def cfg_ok_def)
  have g: "message_granules_from_header (am_data m ! 0) = data_granules t cfg"
    using t by (auto simp: message_granules_from_header_def mt dl data_granules_def)
  have pos: "0 < data_granules t cfg" "data_granules t cfg \<le> 48"
    using t assms(1) by (auto simp: data_granules_def cfg_ok_def granule_defs)
  let ?n = "nat (data_granules t cfg * 5)"
  have n: "?n \<le> 240" using pos by simp
  have "drop ?n (am_data m) = bytes_of (drop (8 * ?n) (data_header t rp cfg @ ys @ replicate k False))"
    by (simp add: m(4) drop_bytes_of)
  also have "\<dots> = replicate (240 - ?n) 0" using len n by simp
  finally show ?thesis using m g mt pos len by (simp add: wf_msg_def)
qed

definition write_data_bits :: "data_length \<Rightarrow> w_channel \<Rightarrow> bool list" where
  "write_data_bits cfg w = val_bits 16 (ucast (w_user w)) @ bits (rev (w_data w)) @
     bits (rev (pack_strobe cfg (w_strb w) (replicate (AXI_STRB_BYTES cfg) 0)))"

definition full_data_bits :: "w_channel \<Rightarrow> bool list" where
  "full_data_bits w = val_bits 16 (ucast (w_user w)) @ bits (rev (w_data w))"

definition read_data_bits :: "r_channel \<Rightarrow> bool list" where
  "read_data_bits r = val_bits 16 (ucast (r_user r)) @ val_bits 10 (ucast (r_id r)) @
     val_bits 2 (ucast (r_resp r)) @ val_bits 1 (if r_last r then 1 else 0) @ replicate 3 False @
     bits (rev (r_data r))"

lemma length_bits_pack [simp]: "length (pack_strobe cfg s p) = length p"
  by (simp add: pack_strobe_def)

lemma pad_eq: "length xs + k = 1920 \<Longrightarrow> bw_dst (bw_of 240 xs) = bytes_of (xs @ replicate k False)"
  by (subst bw_dst_bw_of) (auto intro!: arg_cong [where f = "\<lambda>k. bytes_of (xs @ replicate k False)"])

lemma build_write_data_eq:
  assumes "cfg_ok cfg" "wf_w cfg w"
  shows "build_write_data cfg w rp cfg = Inr (aou_message0\<lparr>am_type := WriteData, am_rp := rp AND 3,
     am_granules := wdata_granules cfg, am_byte_len := wdata_granules cfg * 5,
     am_data := bytes_of (data_header WriteData rp cfg @ write_data_bits cfg w @
       replicate (1896 - 8 * AXI_DATA_BYTES cfg - 8 * AXI_STRB_BYTES cfg) False)\<rparr>)"
  using cfg_bytes(1,3) [OF assms(1)] assms(2)
  by (simp add: build_write_data_def Let_def put_header_def bw_start codec_simps val_bits_axi
      wf_w_def aou_consts bw_dst_bw_of data_header_def write_data_bits_def)

lemma build_write_data_full_eq:
  assumes "cfg_ok cfg" "wf_w cfg w"
  shows "build_write_data_full cfg w rp cfg = Inr (aou_message0\<lparr>am_type := WriteDataFull, am_rp := rp AND 3,
     am_granules := wdatafull_granules cfg, am_byte_len := wdatafull_granules cfg * 5,
     am_data := bytes_of (data_header WriteDataFull rp cfg @ full_data_bits w @
       replicate (1896 - 8 * AXI_DATA_BYTES cfg) False)\<rparr>)"
  using cfg_bytes(1,3) [OF assms(1)] assms(2)
  by (simp add: build_write_data_full_def Let_def put_header_def bw_start codec_simps val_bits_axi
      wf_w_def aou_consts bw_dst_bw_of data_header_def full_data_bits_def)

lemma build_read_data_eq:
  assumes "cfg_ok cfg" "wf_r cfg r"
  shows "build_read_data cfg r rp cfg = Inr (aou_message0\<lparr>am_type := ReadData, am_rp := rp AND 3,
     am_granules := rdata_granules cfg, am_byte_len := rdata_granules cfg * 5,
     am_axi_id := ucast (r_id r) AND AXI_ID_MASK,
     am_data := bytes_of (data_header ReadData rp cfg @ read_data_bits r @
       replicate (1880 - 8 * AXI_DATA_BYTES cfg) False)\<rparr>)"
  using cfg_bytes(1,3) [OF assms(1)] assms(2)
  by (simp add: build_read_data_def Let_def put_header_def bw_start codec_simps val_bits_axi val_bits_masks
      wf_r_def aou_consts bw_dst_bw_of data_header_def read_data_bits_def)

lemma built_data_wf:
  assumes "cfg_ok cfg"
  shows "wf_w cfg w \<Longrightarrow> build_write_data cfg w rp cfg = Inr m \<Longrightarrow> wf_msg m"
    "wf_w cfg w \<Longrightarrow> build_write_data_full cfg w rp cfg = Inr m \<Longrightarrow> wf_msg m"
    "wf_r cfg r \<Longrightarrow> build_read_data cfg r rp cfg = Inr m \<Longrightarrow> wf_msg m"
proof -
  note c = cfg_bytes [OF assms]
  show "wf_msg m" if "wf_w cfg w" "build_write_data cfg w rp cfg = Inr m"
    using that c
    by (intro data_msg_wf [OF assms, of WriteData m rp "write_data_bits cfg w"
          "1896 - 8 * AXI_DATA_BYTES cfg - 8 * AXI_STRB_BYTES cfg"])
      (auto simp: build_write_data_eq [OF assms] data_granules_def write_data_bits_def wf_w_def)
  show "wf_msg m" if "wf_w cfg w" "build_write_data_full cfg w rp cfg = Inr m"
    using that c
    by (intro data_msg_wf [OF assms, of WriteDataFull m rp "full_data_bits w" "1896 - 8 * AXI_DATA_BYTES cfg"])
      (auto simp: build_write_data_full_eq [OF assms] data_granules_def full_data_bits_def wf_w_def)
  show "wf_msg m" if "wf_r cfg r" "build_read_data cfg r rp cfg = Inr m"
    using that c
    by (intro data_msg_wf [OF assms, of ReadData m rp "read_data_bits r" "1880 - 8 * AXI_DATA_BYTES cfg"])
      (auto simp: build_read_data_eq [OF assms] data_granules_def read_data_bits_def wf_r_def)
qed

lemma decode_build_write_data:
  assumes cfg: "cfg_ok cfg" and w: "wf_w cfg w" and m: "build_write_data cfg w rp cfg = Inr m"
  shows "decode_write_data cfg m old = Inr (True, \<lparr>w_valid = False, w_ready = False, w_data = w_data w,
     w_strb = map (\<lambda>b. if b = 0 then 0 else 0xFF) (w_strb w), w_last = False, w_user = w_user w\<rparr>)"
proof -
  note c = cfg_bytes [OF cfg]
  let ?p = "pack_strobe cfg (w_strb w) (replicate (AXI_STRB_BYTES cfg) 0)"
  have f: "am_type m = WriteData" "am_byte_len m \<ge> 3 + int (AXI_DATA_BYTES cfg)"
    using m c(6) by (auto simp: build_write_data_eq [OF cfg w])
  have "br_start m = br_of [] (val_bits 4 (ucast (msg_type_code WriteData)) @ val_bits 2 (ucast (rp AND 3)) @
      val_bits 2 (ucast (data_length_code cfg)) @ val_bits 16 (ucast (w_user w)) @ bits (rev (w_data w)) @
      bits (rev ?p) @ replicate (1896 - 8 * AXI_DATA_BYTES cfg - 8 * AXI_STRB_BYTES cfg) False)"
    using m c(1,3) w by (auto simp: br_start_def br_init build_write_data_eq [OF cfg w] data_header_def
        write_data_bits_def wf_w_def)
  moreover have "8 dvd AXI_DATA_BYTES cfg" "8 dvd 1896 - 9 * AXI_DATA_BYTES cfg"
    unfolding c(1) [symmetric] by (auto intro!: dvd_diff_nat)
  ultimately show ?thesis
    using f c(1,2,3,12,13) w strobe_roundtrip [of "w_strb w" cfg] cfg
    by (simp add: decode_write_data_def Let_def codec_simps w_channel0_def field_back field_full wf_w_def)
qed

lemma decode_build_write_data_full:
  assumes cfg: "cfg_ok cfg" and w: "wf_w cfg w" and m: "build_write_data_full cfg w rp cfg = Inr m"
  shows "decode_write_data cfg m old = Inr (True, \<lparr>w_valid = False, w_ready = False, w_data = w_data w,
     w_strb = replicate (AXI_STRB_WIDTH cfg) 0xFF, w_last = False, w_user = w_user w\<rparr>)"
proof -
  note c = cfg_bytes [OF cfg]
  have f: "am_type m = WriteDataFull" "am_byte_len m \<ge> 3 + int (AXI_DATA_BYTES cfg)"
    using m c(7) by (auto simp: build_write_data_full_eq [OF cfg w])
  have "br_start m = br_of [] (val_bits 4 (ucast (msg_type_code WriteDataFull)) @ val_bits 2 (ucast (rp AND 3)) @
      val_bits 2 (ucast (data_length_code cfg)) @ val_bits 16 (ucast (w_user w)) @ bits (rev (w_data w)) @
      replicate (1896 - 8 * AXI_DATA_BYTES cfg) False)"
    using m c(3) w by (auto simp: br_start_def br_init build_write_data_full_eq [OF cfg w] data_header_def
        full_data_bits_def wf_w_def)
  then show ?thesis
    using f c(1,2,3,12,13) w
    by (simp add: decode_write_data_def Let_def codec_simps w_channel0_def field_back field_full wf_w_def)
qed

lemma decode_build_read_data:
  assumes cfg: "cfg_ok cfg" and r: "wf_r cfg r" and m: "build_read_data cfg r rp cfg = Inr m"
  shows "decode_read_data cfg m old = Inr (True, \<lparr>r_valid = False, r_ready = False,
     r_id = take_bit 10 (r_id r), r_data = r_data r, r_resp = take_bit 2 (r_resp r), r_last = r_last r,
     r_user = r_user r\<rparr>)"
proof -
  note c = cfg_bytes [OF cfg]
  have f: "am_type m = ReadData" "am_byte_len m \<ge> 5 + int (AXI_DATA_BYTES cfg)"
    using m c(8) by (auto simp: build_read_data_eq [OF cfg r])
  have "br_start m = br_of [] (val_bits 4 (ucast (msg_type_code ReadData)) @ val_bits 2 (ucast (rp AND 3)) @
      val_bits 2 (ucast (data_length_code cfg)) @ val_bits 16 (ucast (r_user r)) @
      val_bits 10 (ucast (r_id r)) @ val_bits 2 (ucast (r_resp r)) @ val_bits 1 (if r_last r then 1 else 0) @
      replicate 3 False @ bits (rev (r_data r)) @ replicate (1880 - 8 * AXI_DATA_BYTES cfg) False)"
    using m c(3) r by (auto simp: br_start_def br_init build_read_data_eq [OF cfg r] data_header_def
        read_data_bits_def wf_r_def)
  then show ?thesis
    using f c(1,2,3,12,13) r
    by (simp add: decode_read_data_def Let_def codec_simps r_channel0_def field_back field_full wf_r_def)
qed

definition resp_bits :: "b_channel \<Rightarrow> u8 \<Rightarrow> bool list" where
  "resp_bits b rp = val_bits 4 (ucast (msg_type_code WriteResp)) @ val_bits 2 (ucast (rp AND 3)) @
     val_bits 2 0 @ val_bits 16 (ucast (b_user b)) @ val_bits 10 (ucast (b_id b)) @
     val_bits 2 (ucast (b_resp b)) @ replicate 4 False"

lemma build_write_resp_eq:
  "build_write_resp b rp = aou_message0\<lparr>am_type := WriteResp, am_rp := rp AND 3, am_granules := 1,
     am_byte_len := 5, am_axi_id := ucast (b_id b) AND AXI_ID_MASK,
     am_data := bytes_of (resp_bits b rp @ replicate 1880 False)\<rparr>"
  by (simp add: build_write_resp_def Let_def put_header_def bw_start codec_simps val_bits_axi val_bits_masks
      aou_consts granule_defs bw_dst_bw_of resp_bits_def val_bits_zero)

lemma resp_wf: "wf_msg (build_write_resp b rp)"
proof -
  have "resp_bits b rp @ replicate 1880 False = val_bits 4 (ucast (msg_type_code WriteResp)) @
      val_bits 2 (ucast (rp AND 3)) @ val_bits 2 0 @ (val_bits 16 (ucast (b_user b)) @
      val_bits 10 (ucast (b_id b)) @ val_bits 2 (ucast (b_resp b)) @ replicate 4 False @ replicate 1880 False)"
    by (simp add: resp_bits_def)
  note f = header_byte_fields [OF this]
  have z: "drop 5 (bytes_of (resp_bits b rp @ replicate 1880 False)) = replicate 235 0"
    by (simp add: drop_bytes_of resp_bits_def)
  show ?thesis
    using f z by (auto simp: wf_msg_def build_write_resp_eq message_granules_from_header_def msg_type_of_def
        msg_type_cast_def msg_type_code_def granule_defs resp_bits_def)
qed

lemma decode_build_write_resp:
  "decode_write_resp (build_write_resp b rp) old = Inr (True, \<lparr>b_valid = False, b_ready = False,
     b_id = take_bit 10 (b_id b), b_resp = take_bit 2 (b_resp b), b_user = b_user b\<rparr>)"
proof -
  have "br_start (build_write_resp b rp) = br_of [] (resp_bits b rp @ replicate 1880 False)"
    by (simp add: br_start_def br_init build_write_resp_eq resp_bits_def)
  then show ?thesis
    by (simp add: decode_write_resp_def Let_def build_write_resp_eq resp_bits_def codec_simps granule_defs
        aou_consts field_back field_full b_channel0_def)
qed

section \<open>Decoding trips no assertion\<close>

text \<open>Every read moves the position by its width, whatever the bytes are.\<close>

lemma br_get_bit: "br_get r w = (v, r') \<Longrightarrow> br_bit r' = br_bit r + w"
proof -
  have one: "br_bit (snd (br_step x)) = br_bit (snd x) + 1" for x
    by (simp add: br_step_def split_beta Let_def)
  have "br_bit (snd ((br_step ^^ w) (0, r))) = br_bit r + w" for w
    by (induction w) (simp_all add: one)
  then show "br_get r w = (v, r') \<Longrightarrow> br_bit r' = br_bit r + w" by (metis br_get_def snd_conv)
qed

lemma br_skip_bit [simp]: "br_bit (br_skip r w) = br_bit r + w"
  by (simp add: br_skip_def)

lemma br_start_bit [simp]: "br_bit (br_start m) = 0"
  by (simp add: br_start_def)

lemma br_get_bytes_total:
  "br_bit r mod 8 = 0 \<Longrightarrow> \<exists>d r'. br_get_bytes_msb_first r n = Inr (d, r') \<and> br_bit r' = br_bit r + n * 8"
  by (simp add: br_get_bytes_msb_first_def)

lemma decode_write_resp_total: "\<exists>ok b. decode_write_resp m old = Inr (ok, b)"
  by (auto simp: decode_write_resp_def Let_def split: prod.splits dest!: br_get_bit)

lemma decode_req_total: "\<exists>ok b. decode_req cfg m old = Inr (ok, b)"
  by (auto simp: decode_req_def Let_def split: prod.splits dest!: br_get_bit)

lemma decode_read_data_total: "\<exists>ok b. decode_read_data cfg m old = Inr (ok, b)"
proof -
  have a: "\<exists>ok b. bindR (br_get_bytes_msb_first r n) (\<lambda>(data, r). Inr (True, f data)) = Inr (ok, b)"
    if "br_bit r mod 8 = 0" for r n and f :: "u8 list \<Rightarrow> r_channel"
    using br_get_bytes_total [OF that, of n] by auto
  show ?thesis
    by (auto simp: decode_read_data_def Let_def split: prod.splits dest!: br_get_bit intro!: a)
qed

lemma decode_write_data_total: "\<exists>ok b. decode_write_data cfg m old = Inr (ok, b)"
proof -
  have a: "\<exists>ok b. bindR (br_get_bytes_msb_first r n) (\<lambda>(data, r). Inr (True, f data)) = Inr (ok, b)"
    if "br_bit r mod 8 = 0" for r n and f :: "u8 list \<Rightarrow> w_channel"
    using br_get_bytes_total [OF that, of n] by auto
  have b: "\<exists>ok b. bindR (br_get_bytes_msb_first r n) (\<lambda>(data, r). bindR (br_get_bytes_msb_first r k) (\<lambda>(packed, r).
      Inr (True, f data packed))) = Inr (ok, b)"
    if al: "br_bit r mod 8 = 0" for r n k and f :: "u8 list \<Rightarrow> u8 list \<Rightarrow> w_channel"
  proof -
    obtain d r' where "br_get_bytes_msb_first r n = Inr (d, r')" "br_bit r' = br_bit r + n * 8"
      using br_get_bytes_total [OF al, of n] by auto
    then show ?thesis using br_get_bytes_total [of r' k] al by auto
  qed
  show ?thesis
    by (auto simp: decode_write_data_def Let_def split: prod.splits dest!: br_get_bit intro!: a b)
qed

section \<open>Properties\<close>

text \<open>
  C30. A read or write request survives the wire: the message built from an address beat is well
  formed, three granules long, and decodes to the beat with every field cut to its wire width.
\<close>

theorem request_roundtrip:
  "(\<exists>m. build_write_req ax rp = Inr m \<and> wf_msg m \<and> am_type m = WriteReq \<and> am_granules m = 3 \<and>
      decode_req cfg m old = Inr (True, req_fields ax)) \<and>
   (\<exists>m. build_read_req ax rp = Inr m \<and> wf_msg m \<and> am_type m = ReadReq \<and> am_granules m = 3 \<and>
      decode_req cfg m old = Inr (True, req_fields ax))"
proof -
  have "\<exists>m. build_req ax rp t 3 = Inr m \<and> wf_msg m \<and> am_type m = t \<and> am_granules m = 3 \<and>
      decode_req cfg m old = Inr (True, req_fields ax)" if t: "t = WriteReq \<or> t = ReadReq" for t
  proof -
    obtain m where m: "build_req ax rp t 3 = Inr m" "am_type m = t" "am_granules m = 3"
      by (auto simp: build_req_eq)
    with req_wf [OF t m(1)] decode_build_req [OF t m(1)] show ?thesis by blast
  qed
  then show ?thesis by (simp add: build_write_req_def build_read_req_def WREQ_GRANULES_def RREQ_GRANULES_def)
qed

text \<open>What the strobed form keeps of a beat, and what the full form keeps.\<close>

definition carried_beat :: "w_channel \<Rightarrow> w_channel" where
  "carried_beat w = w\<lparr>w_valid := False, w_ready := False, w_last := False,
     w_strb := map (\<lambda>b. if b = 0 then 0 else 0xFF) (w_strb w)\<rparr>"

definition carried_full :: "data_length \<Rightarrow> w_channel \<Rightarrow> w_channel" where
  "carried_full cfg w = (carried_beat w)\<lparr>w_strb := replicate (AXI_STRB_WIDTH cfg) 0xFF\<rparr>"

text \<open>
  C22. Write data survives the wire at every bus width. The strobed form decodes to the same data and user field
  and to the same strobes, each normalised to 0 or 0xFF. The full form decodes to the same data and user field with
  every strobe set; these are the strobes of the beat exactly when \<^const>\<open>is_full_strobe\<close> holds, the condition under
  which it may be used. Valid, ready and the last flag are not carried.
\<close>

theorem write_data_roundtrip:
  assumes "cfg_ok cfg" "wf_w cfg w"
  shows "(\<exists>m. build_write_data cfg w rp cfg = Inr m \<and> wf_msg m \<and> decode_write_data cfg m old = Inr (True, carried_beat w)) \<and>
    (\<exists>m. build_write_data_full cfg w rp cfg = Inr m \<and> wf_msg m \<and>
      decode_write_data cfg m old = Inr (True, carried_full cfg w)) \<and>
    (is_full_strobe cfg w \<longleftrightarrow> carried_full cfg w = carried_beat w)"
proof -
  have strb: "is_full_strobe cfg w \<longleftrightarrow> map (\<lambda>b. if b = 0 then 0 else 0xFF) (w_strb w) = replicate (AXI_STRB_WIDTH cfg) (0xFF :: u8)"
    using assms(2) by (auto simp: is_full_strobe_def wf_w_def list_all_iff list_eq_iff_nth_eq)
  have full: "is_full_strobe cfg w \<longleftrightarrow> carried_full cfg w = carried_beat w"
    unfolding strb by (cases w) (auto simp: carried_beat_def carried_full_def)
  obtain m1 m2 where m: "build_write_data cfg w rp cfg = Inr m1" "build_write_data_full cfg w rp cfg = Inr m2"
    using build_write_data_eq [OF assms(1,2)] build_write_data_full_eq [OF assms(1,2)] by blast
  have "decode_write_data cfg m1 old = Inr (True, carried_beat w)"
    using decode_build_write_data [OF assms(1,2) m(1)] by (cases w) (simp add: carried_beat_def carried_full_def)
  moreover have "decode_write_data cfg m2 old = Inr (True, carried_full cfg w)"
    using decode_build_write_data_full [OF assms(1,2) m(2)] by (cases w) (simp add: carried_beat_def carried_full_def)
  ultimately show ?thesis using m full built_data_wf(1,2) [OF assms(1,2)] by blast
qed

definition partial_beat :: w_channel where
  "partial_beat = (w_channel0 B256)\<lparr>w_data := replicate 32 0xA5, w_strb := replicate 16 1 @ replicate 16 0\<rparr>"

theorem write_data_roundtrip_witness:
  "(\<exists>m. build_write_data B256 partial_beat 1 B256 = Inr m \<and>
     decode_write_data B256 m (w_channel0 B256) =
       Inr (True, partial_beat\<lparr>w_strb := replicate 16 0xFF @ replicate 16 0\<rparr>)) \<and>
   (\<exists>m. build_write_data_full B256 partial_beat 1 B256 = Inr m \<and>
     decode_write_data B256 m (w_channel0 B256) = Inr (True, partial_beat\<lparr>w_strb := replicate 32 0xFF\<rparr>)) \<and>
   \<not> is_full_strobe B256 partial_beat"
proof -
  have n: "AXI_DATA_BYTES B256 = 32" "AXI_STRB_WIDTH B256 = 32"
    by (simp_all add: AXI_DATA_BYTES_def AXI_STRB_WIDTH_def dlength_to_bytes_def)
  have wf: "cfg_ok B256" "wf_w B256 partial_beat" by (simp_all add: cfg_ok_def wf_w_def partial_beat_def w_channel0_def n)
  have "\<not> is_full_strobe B256 partial_beat"
    by (auto simp: is_full_strobe_def partial_beat_def w_channel0_def n list_all_iff nth_append intro!: bexI [of _ 20])
  with write_data_roundtrip [OF wf, of 1 "w_channel0 B256"] show ?thesis
    by (simp add: carried_beat_def carried_full_def partial_beat_def w_channel0_def n) blast
qed

text \<open>
  Responses survive the wire: a read data beat and a write response build well-formed messages
  that decode to the same identifier (ten bits), response code (two bits), user field, data and
  last flag.
\<close>

theorem response_roundtrip:
  assumes "cfg_ok cfg" "wf_r cfg r"
  shows "(\<exists>m. build_read_data cfg r rp cfg = Inr m \<and> wf_msg m \<and>
      decode_read_data cfg m r0 = Inr (True, r\<lparr>r_valid := False, r_ready := False,
        r_id := take_bit 10 (r_id r), r_resp := take_bit 2 (r_resp r)\<rparr>)) \<and>
    wf_msg (build_write_resp b rp) \<and>
    decode_write_resp (build_write_resp b rp) b0 = Inr (True, b\<lparr>b_valid := False, b_ready := False,
      b_id := take_bit 10 (b_id b), b_resp := take_bit 2 (b_resp b)\<rparr>)"
proof -
  obtain m where m: "build_read_data cfg r rp cfg = Inr m" using build_read_data_eq [OF assms] by blast
  then show ?thesis
    using decode_build_read_data [OF assms m, of r0] built_data_wf(3) [OF assms m] resp_wf [of b rp]
      decode_build_write_resp [of b rp b0]
    by (cases r; cases b) simp
qed

theorem response_roundtrip_witness:
  "\<exists>m. build_read_data B512 ((r_channel0 B512)\<lparr>r_id := 5\<rparr>) 0 B512 = Inr m \<and>
     decode_read_data B512 m (r_channel0 B512) = Inr (True, (r_channel0 B512)\<lparr>r_id := 5\<rparr>)"
  using response_roundtrip [of B512 "(r_channel0 B512)\<lparr>r_id := 5\<rparr>" 0 "r_channel0 B512"]
  by (auto simp: cfg_ok_def wf_r_def r_channel0_def)

end
