(* ===== verification/Axi_Bridge.thy ===== *)
theory Axi_Bridge
  imports Flit_Packer Flit_Unpacker Msg_Codec
begin

text \<open>
  \<^verbatim>\<open>axi2flit.h\<close>, \<^verbatim>\<open>axi2flit.cpp\<close> and \<^verbatim>\<open>rp_order_guard.h\<close>: the bridge around packer and unpacker.
  Each of the five channel threads is a step function of one clock edge; \<^verbatim>\<open>bridge_edge\<close> runs all
  threads on what the FIFOs hold at the edge and appends what they write, as \<^verbatim>\<open>sc_fifo\<close> does: a
  place freed and an element written at an edge are seen from the next edge on.
\<close>

section \<open>The order guard\<close>

record order_entry =
  oe_rp :: u8
  oe_outstanding :: nat

record rp_order_guard =
  og_table :: "nat \<Rightarrow> order_entry"
  og_violations :: nat

definition order_entry0 :: order_entry where "order_entry0 = \<lparr>oe_rp = 0, oe_outstanding = 0\<rparr>"

definition og_reset :: rp_order_guard where
  "og_reset = \<lparr>og_table = (\<lambda>_. order_entry0), og_violations = 0\<rparr>"

definition og_index :: "u16 \<Rightarrow> nat" where
  "og_index aid = unat (ucast aid AND AXI_ID_MASK)"

definition og_bind :: "u16 \<Rightarrow> u8 \<Rightarrow> rp_order_guard \<Rightarrow> rp_order_guard \<times> bool" where
  "og_bind aid rp g =
     (let j = og_index aid; e = og_table g j in
      if oe_outstanding e \<noteq> 0 \<and> oe_rp e \<noteq> rp
      then (g\<lparr>og_violations := og_violations g + 1,
              og_table := (og_table g)(j := e\<lparr>oe_outstanding := oe_outstanding e + 1\<rparr>)\<rparr>, False)
      else (g\<lparr>og_table := (og_table g)(j := e\<lparr>oe_rp := rp, oe_outstanding := oe_outstanding e + 1\<rparr>)\<rparr>, True))"

definition og_retire :: "u16 \<Rightarrow> rp_order_guard \<Rightarrow> rp_order_guard" where
  "og_retire aid g =
     (let j = og_index aid; e = og_table g j in
      if oe_outstanding e \<noteq> 0
      then g\<lparr>og_table := (og_table g)(j := e\<lparr>oe_outstanding := oe_outstanding e - 1\<rparr>)\<rparr> else g)"

section \<open>Request channels\<close>

record write_route =
  wr_rp :: u8
  wr_beats_remaining :: nat

definition map_qos_to_rp :: "nat \<Rightarrow> u8 \<Rightarrow> u8" where
  "map_qos_to_rp rp_count qos = of_nat (unat qos mod rp_count)"

text \<open>
  A thread step gets the free places of the FIFOs it writes and the contents of those it reads, and
  returns its new registers, what it wrote and how much it read.
\<close>

definition used_at :: "(nat \<times> 'a) option \<Rightarrow> nat \<Rightarrow> nat" where
  "used_at push rp = (case push of Some (r, _) \<Rightarrow> if r = rp then 1 else 0 | None \<Rightarrow> 0)"

definition aw_step ::
  "data_length \<Rightarrow> nat \<Rightarrow> bool \<Rightarrow> ax_channel \<Rightarrow> (nat \<Rightarrow> nat) \<Rightarrow> nat \<Rightarrow> bool \<times> rp_order_guard \<Rightarrow>
     (bool \<times> rp_order_guard \<times> (nat \<times> aou_message \<times> write_route) option) result" where
  "aw_step cfg n valid aw wreq_free route_free = (\<lambda>(ready, guard).
     bindR (if ready \<and> valid then
              (case axi_request_error cfg aw of
                 Some e \<Rightarrow> Inl (ReportFatal ''Axi2Flit/AXI'')
               | None \<Rightarrow>
                   let rp = map_qos_to_rp n (ax_qos aw);
                       guard = fst (og_bind (ax_id aw) rp guard)
                   in bindR (build_write_req aw rp) (\<lambda>msg.
                      if wreq_free (unat rp) > 0 \<and> route_free > 0
                      then Inr (guard, Some (unat rp, msg, \<lparr>wr_rp = rp, wr_beats_remaining = unat (ax_len aw) + 1\<rparr>))
                      else Inl (AssertFailed ''msg_ok && route_ok'')))
            else Inr (guard, None))
       (\<lambda>(guard, push).
          let space = (route_free - (if push = None then 0 else 1) > 0 \<and>
                       list_all (\<lambda>rp. wreq_free rp - used_at push rp > 0) [0..<n])
          in Inr (space, guard, push)))"

definition ar_step ::
  "data_length \<Rightarrow> nat \<Rightarrow> bool \<Rightarrow> ax_channel \<Rightarrow> (nat \<Rightarrow> nat) \<Rightarrow> bool \<times> rp_order_guard \<Rightarrow>
     (bool \<times> rp_order_guard \<times> (nat \<times> aou_message) option) result" where
  "ar_step cfg n valid ar rreq_free = (\<lambda>(ready, guard).
     bindR (if ready \<and> valid then
              (case axi_request_error cfg ar of
                 Some e \<Rightarrow> Inl (ReportFatal ''Axi2Flit/AXI'')
               | None \<Rightarrow>
                   let rp = map_qos_to_rp n (ax_qos ar);
                       guard = fst (og_bind (ax_id ar) rp guard)
                   in bindR (build_read_req ar rp) (\<lambda>msg.
                      if rreq_free (unat rp) > 0 then Inr (guard, Some (unat rp, msg))
                      else Inl (AssertFailed ''written'')))
            else Inr (guard, None))
       (\<lambda>(guard, push).
          Inr (list_all (\<lambda>rp. rreq_free rp - used_at push rp > 0) [0..<n], guard, push)))"

record w_thread =
  wt_ready :: bool
  wt_have_route :: bool
  wt_route :: write_route

definition w_step ::
  "data_length \<Rightarrow> bool \<Rightarrow> w_channel \<Rightarrow> (nat \<Rightarrow> nat) \<Rightarrow> write_route list \<Rightarrow> w_thread \<Rightarrow>
     (w_thread \<times> nat \<times> (nat \<times> aou_message) option) result" where
  "w_step cfg valid w wdata_free routes t =
     bindR (if wt_ready t \<and> valid then
              if \<not> axi_wlast_matches (wr_beats_remaining (wt_route t)) (w_last w)
              then Inl (ReportFatal ''Axi2Flit/AXI'')
              else bindR (if is_full_strobe cfg w then build_write_data_full cfg w (wr_rp (wt_route t)) cfg
                          else build_write_data cfg w (wr_rp (wt_route t)) cfg) (\<lambda>msg.
                let rp = unat (wr_rp (wt_route t)); left = wr_beats_remaining (wt_route t) - 1
                in if wdata_free rp = 0 then Inl (AssertFailed ''written'')
                   else Inr (t\<lparr>wt_route := (wt_route t)\<lparr>wr_beats_remaining := left\<rparr>,
                               wt_have_route := (if left = 0 then False else wt_have_route t)\<rparr>, Some (rp, msg)))
            else Inr (t, None))
       (\<lambda>(t, push).
          let popped = (if \<not> wt_have_route t \<and> routes \<noteq> [] then 1 else (0 :: nat));
              t = (if popped = 1 then t\<lparr>wt_have_route := True, wt_route := hd routes\<rparr> else t);
              rp = unat (wr_rp (wt_route t))
          in Inr (t\<lparr>wt_ready := wt_have_route t \<and> wdata_free rp - used_at push rp > 0\<rparr>, popped, push))"

section \<open>Response channels\<close>

record b_thread =
  bt_active :: bool
  bt_msg :: aou_message
  bt_id :: u16
  bt_next_rp :: nat
  bt_ch :: b_channel

text \<open>Returns the plane whose queue lost its head, and the credit return.\<close>

definition b_step ::
  "nat \<Rightarrow> bool \<Rightarrow> (nat \<Rightarrow> aou_message list) \<Rightarrow> nat \<Rightarrow> b_thread \<times> rp_order_guard \<Rightarrow>
     (b_thread \<times> rp_order_guard \<times> nat option \<times> credit_update list) result" where
  "b_step n ready wresp return_free = (\<lambda>(t, guard).
     bindR (if bt_active t \<and> ready
            then if return_free = 0 then Inl (AssertFailed ''ok'')
              else Inr (t\<lparr>bt_active := False\<rparr>, og_retire (bt_id t) guard,
                [\<lparr>cu_rp = unat (am_rp (bt_msg t)), cu_kind = CkWriteResp, cu_granules = credit_need (bt_msg t)\<rparr>])
            else Inr (t, guard, []))
       (\<lambda>(t, guard, ret).
          if bt_active t then Inr (t, guard, None, ret)
          else case find (\<lambda>rp. wresp rp \<noteq> []) (rp_rotation (bt_next_rp t) n) of
              None \<Rightarrow> Inr (t, guard, None, ret)
            | Some rp \<Rightarrow> let msg = hd (wresp rp) in
                bindR (decode_write_resp msg b_channel0) (\<lambda>(ok, b).
                  if \<not> ok then Inl (ReportError ''Axi2Flit'')
                  else Inr (t\<lparr>bt_active := True, bt_msg := msg, bt_id := b_id b, bt_ch := b,
                              bt_next_rp := (rp + 1) mod n\<rparr>, guard, Some rp, ret))))"

record r_thread =
  rt_active :: bool
  rt_msg :: aou_message
  rt_id :: u16
  rt_last :: bool
  rt_next_rp :: nat
  rt_ch :: r_channel

definition r_step ::
  "data_length \<Rightarrow> nat \<Rightarrow> bool \<Rightarrow> (nat \<Rightarrow> aou_message list) \<Rightarrow> nat \<Rightarrow> r_thread \<times> rp_order_guard \<Rightarrow>
     (r_thread \<times> rp_order_guard \<times> nat option \<times> credit_update list) result" where
  "r_step cfg n ready rdata return_free = (\<lambda>(t, guard).
     bindR (if rt_active t \<and> ready
            then if return_free = 0 then Inl (AssertFailed ''ok'')
              else Inr (t\<lparr>rt_active := False\<rparr>, if rt_last t then og_retire (rt_id t) guard else guard,
                [\<lparr>cu_rp = unat (am_rp (rt_msg t)), cu_kind = CkReadData, cu_granules = credit_need (rt_msg t)\<rparr>])
            else Inr (t, guard, []))
       (\<lambda>(t, guard, ret).
          if rt_active t then Inr (t, guard, None, ret)
          else case find (\<lambda>rp. rdata rp \<noteq> []) (rp_rotation (rt_next_rp t) n) of
              None \<Rightarrow> Inr (t, guard, None, ret)
            | Some rp \<Rightarrow> let msg = hd (rdata rp) in
                bindR (decode_read_data cfg msg (r_channel0 cfg)) (\<lambda>(ok, r).
                  if \<not> ok then Inl (ReportError ''Axi2Flit'')
                  else Inr (t\<lparr>rt_active := True, rt_msg := msg, rt_id := r_id r, rt_last := r_last r, rt_ch := r,
                              rt_next_rp := (rp + 1) mod n\<rparr>, guard, Some rp, ret))))"

section \<open>The bridge\<close>

record axi_bridge =
  ab_rp_count :: nat
  ab_aw_ready :: bool
  ab_ar_ready :: bool
  ab_w :: w_thread
  ab_b :: b_thread
  ab_r :: r_thread
  ab_wr_guard :: rp_order_guard
  ab_rd_guard :: rp_order_guard
  ab_queues :: packer_queues
  ab_routes :: "write_route list"
  ab_rdata :: "nat \<Rightarrow> aou_message list"
  ab_wresp :: "nat \<Rightarrow> aou_message list"
  ab_updates :: "credit_update list"
  ab_returns :: "credit_update list"
  ab_packer :: flit_packer
  ab_unpacker :: flit_unpacker

definition CREDIT_FIFO_DEPTH :: nat where "CREDIT_FIFO_DEPTH = 64"

text \<open>Construction and reset: empty queues, the threads at the top of their loops.\<close>

definition bridge_reset :: "data_length \<Rightarrow> nat \<Rightarrow> axi_bridge result" where
  "bridge_reset cfg n =
     bindR (packer_reset n (RX_RDATA_CREDITS_PER_RP cfg) RX_WRESP_CREDITS_PER_RP DEFAULT_FLUSH_TIMEOUT_CYCLES) (\<lambda>p.
     bindR (unpacker_reset n) (\<lambda>u.
       Inr \<lparr>ab_rp_count = n, ab_aw_ready = False, ab_ar_ready = False,
         ab_w = \<lparr>wt_ready = False, wt_have_route = False, wt_route = \<lparr>wr_rp = 0, wr_beats_remaining = 0\<rparr>\<rparr>,
         ab_b = \<lparr>bt_active = False, bt_msg = aou_message0, bt_id = 0, bt_next_rp = 0, bt_ch = b_channel0\<rparr>,
         ab_r = \<lparr>rt_active = False, rt_msg = aou_message0, rt_id = 0, rt_last = False, rt_next_rp = 0, rt_ch = r_channel0 cfg\<rparr>,
         ab_wr_guard = og_reset, ab_rd_guard = og_reset,
         ab_queues = \<lparr>pq_rreq = (\<lambda>_. []), pq_wreq = (\<lambda>_. []), pq_wdata = (\<lambda>_. [])\<rparr>, ab_routes = [],
         ab_rdata = (\<lambda>_. []), ab_wresp = (\<lambda>_. []), ab_updates = [], ab_returns = [],
         ab_packer = p, ab_unpacker = u\<rparr>))"

record bridge_input =
  bi_aw_valid :: bool
  bi_aw :: ax_channel
  bi_w_valid :: bool
  bi_w :: w_channel
  bi_ar_valid :: bool
  bi_ar :: ax_channel
  bi_b_ready :: bool
  bi_r_ready :: bool
  bi_flit_ready :: bool
  bi_flit_in :: flit_transfer

definition push_at :: "(nat \<times> 'a) option \<Rightarrow> (nat \<Rightarrow> 'a list) \<Rightarrow> nat \<Rightarrow> 'a list" where
  "push_at p q = (case p of None \<Rightarrow> q | Some (rp, m) \<Rightarrow> q(rp := q rp @ [m]))"

definition pop_at :: "nat option \<Rightarrow> (nat \<Rightarrow> 'a list) \<Rightarrow> nat \<Rightarrow> 'a list" where
  "pop_at p q = (case p of None \<Rightarrow> q | Some rp \<Rightarrow> q(rp := tl (q rp)))"

definition bridge_edge :: "data_length \<Rightarrow> bridge_input \<Rightarrow> axi_bridge \<Rightarrow> axi_bridge result" where
  "bridge_edge cfg i s =
     (let n = ab_rp_count s; q = ab_queues s;
          free = (\<lambda>depth f rp. depth - length (f rp));
          sinks = \<lparr>us_credit_free = CREDIT_FIFO_DEPTH - length (ab_updates s),
            us_rdata_free = free (RX_RDATA_FIFO_DEPTH_PER_RP cfg) (ab_rdata s),
            us_wresp_free = free RX_WRESP_FIFO_DEPTH_PER_RP (ab_wresp s),
            us_credits = [], us_rdata = (\<lambda>_. []), us_wresp = (\<lambda>_. [])\<rparr> in
      bindR (aw_step cfg n (bi_aw_valid i) (bi_aw i) (free TX_REQ_FIFO_DEPTH_PER_RP (pq_wreq q))
               (TX_REQ_FIFO_DEPTH_PER_RP * n - length (ab_routes s)) (ab_aw_ready s, ab_wr_guard s)) (\<lambda>(awr, wg, awp).
      bindR (w_step cfg (bi_w_valid i) (bi_w i) (free TX_WDATA_FIFO_DEPTH_PER_RP (pq_wdata q)) (ab_routes s) (ab_w s)) (\<lambda>(wt, rpop, wp).
      bindR (ar_step cfg n (bi_ar_valid i) (bi_ar i) (free TX_REQ_FIFO_DEPTH_PER_RP (pq_rreq q)) (ab_ar_ready s, ab_rd_guard s)) (\<lambda>(arr, rg, arp).
      bindR (b_step n (bi_b_ready i) (ab_wresp s) (CREDIT_FIFO_DEPTH - length (ab_returns s)) (ab_b s, wg)) (\<lambda>(bt, wg, bpop, bret).
      bindR (r_step cfg n (bi_r_ready i) (ab_rdata s) (CREDIT_FIFO_DEPTH - length (ab_returns s) - length bret) (ab_r s, rg)) (\<lambda>(rt, rg, rpop', rret).
      bindR (packer_cycle \<lparr>pi_queues = q, pi_updates = ab_updates s, pi_returns = ab_returns s, pi_ready = bi_flit_ready i\<rparr> (ab_packer s)) (\<lambda>(p, q').
      bindR (unpacker_cycle (bi_flit_in i) (ab_unpacker s, sinks)) (\<lambda>((u, k), _).
        Inr (s\<lparr>ab_aw_ready := awr, ab_ar_ready := arr, ab_w := wt, ab_b := bt, ab_r := rt,
          ab_wr_guard := wg, ab_rd_guard := rg,
          ab_queues := \<lparr>pq_rreq = push_at arp (pq_rreq q'),
            pq_wreq = push_at (map_option (\<lambda>(rp, m, _). (rp, m)) awp) (pq_wreq q'),
            pq_wdata = push_at wp (pq_wdata q')\<rparr>,
          ab_routes := drop rpop (ab_routes s) @ (case awp of None \<Rightarrow> [] | Some (_, _, r) \<Rightarrow> [r]),
          ab_rdata := (\<lambda>rp. pop_at rpop' (ab_rdata s) rp @ us_rdata k rp),
          ab_wresp := (\<lambda>rp. pop_at bpop (ab_wresp s) rp @ us_wresp k rp),
          ab_updates := us_credits k, ab_returns := bret @ rret,
          ab_packer := p, ab_unpacker := u\<rparr>)))))))))"

end
