(* ===== verification/Packer_Correct.thy ===== *)
theory Packer_Correct
  imports Flit_Packer
begin

text \<open>
  Correctness of the packer: whatever the queues, credits and backpressure do, the flits it hands
  over form a stream that every receiver of laid-out flits decodes, and each queue's messages appear
  in it completely, once and in order.
\<close>

section \<open>Classes of traffic\<close>

datatype tx_class = TxRead | TxWrite | TxData

definition class_of :: "msg_type \<Rightarrow> tx_class option" where
  "class_of t = (case t of ReadReq \<Rightarrow> Some TxRead | WriteReq \<Rightarrow> Some TxWrite
     | WriteData \<Rightarrow> Some TxData | WriteDataFull \<Rightarrow> Some TxData | _ \<Rightarrow> None)"

definition slot :: "flit_packer \<Rightarrow> tx_class \<Rightarrow> slots" where
  "slot p cl = (case cl of TxRead \<Rightarrow> fp_rreq p | TxWrite \<Rightarrow> fp_wreq p | TxData \<Rightarrow> fp_wdata p)"

definition queue :: "packer_queues \<Rightarrow> tx_class \<Rightarrow> queues" where
  "queue q cl = (case cl of TxRead \<Rightarrow> pq_rreq q | TxWrite \<Rightarrow> pq_wreq q | TxData \<Rightarrow> pq_wdata q)"

lemmas class_simps = class_of_def slot_def queue_def

text \<open>What may be queued for a class and a plane.\<close>

definition ok_msg :: "tx_class \<Rightarrow> nat \<Rightarrow> aou_message \<Rightarrow> bool" where
  "ok_msg cl rp m \<longleftrightarrow> wf_msg m \<and> class_of (am_type m) = Some cl \<and> rp < 4 \<and> unat (am_rp m) = rp \<and>
     msg_rp_of (am_data m ! 0) = am_rp m"

definition of_class :: "tx_class \<Rightarrow> nat \<Rightarrow> aou_message list \<Rightarrow> aou_message list" where
  "of_class cl rp ms = filter (\<lambda>m. class_of (am_type m) = Some cl \<and> unat (am_rp m) = rp) ms"

lemma of_class_simps [simp]:
  "of_class cl rp [] = []" "of_class cl rp (ms @ ns) = of_class cl rp ms @ of_class cl rp ns"
  "of_class cl rp (m # ms) = (if class_of (am_type m) = Some cl \<and> unat (am_rp m) = rp then [m] else []) @ of_class cl rp ms"
  by (simp_all add: of_class_def)

text \<open>The messages of a class and plane that are not in a flit yet, in order.\<close>

definition waiting :: "flit_packer \<Rightarrow> packer_queues \<Rightarrow> tx_class \<Rightarrow> nat \<Rightarrow> aou_message list" where
  "waiting p q cl rp = (case slot p cl rp of None \<Rightarrow> [] | Some m \<Rightarrow> [m]) @ queue q cl rp"

definition queues_ok :: "packer_queues \<Rightarrow> bool" where
  "queues_ok q \<longleftrightarrow> (\<forall>cl rp. \<forall>m \<in> set (queue q cl rp). ok_msg cl rp m)"

definition packer_ok :: "flit_packer \<Rightarrow> bool" where
  "packer_ok p \<longleftrightarrow> wf_credits (fp_credits p) \<and> fp_rp_count p = cm_rp_count (fp_credits p) \<and>
     (\<forall>cl rp m. slot p cl rp = Some m \<longrightarrow> ok_msg cl rp m)"

text \<open>The spill registers hold exactly the cut of the flit under construction.\<close>

definition spill_is :: "flit_packer \<Rightarrow> cut \<Rightarrow> bool" where
  "spill_is p c \<longleftrightarrow> (case c of None \<Rightarrow> \<not> fp_spill_active p
     | Some (m, k) \<Rightarrow> fp_spill_active p \<and> fp_spill_msg p = m \<and> fp_spill_done p = int k)"

definition building :: "flit_packer \<Rightarrow> cut \<Rightarrow> piece list \<Rightarrow> bool" where
  "building p c ps \<longleftrightarrow> flit_layout (fp_cur p) c ps \<and> fl_fdid (fp_cur p) = 0 \<and>
     (fl_valid (fp_cur p) \<longleftrightarrow> fl_used_granules (fp_cur p) \<noteq> 0) \<and> spill_is p (cut_after ps)"

definition resuming :: "flit_packer \<Rightarrow> cut \<Rightarrow> bool" where
  "resuming p c \<longleftrightarrow> fp_cur p = aou_flit0 \<and> c \<noteq> None \<and> wf_cut c \<and> spill_is p c"

text \<open>What a packing step leaves alone.\<close>

definition same_output :: "flit_packer \<Rightarrow> flit_packer \<Rightarrow> bool" where
  "same_output p p' \<longleftrightarrow> fp_out p' = fp_out p \<and> fp_out_active p' = fp_out_active p \<and>
     fp_port p' = fp_port p \<and> fp_rp_count p' = fp_rp_count p \<and> fp_timeout_cnt p' = fp_timeout_cnt p \<and>
     fp_flush_timeout p' = fp_flush_timeout p \<and> fp_idle_cnt p' = fp_idle_cnt p"

lemma same_output_refl [simp]: "same_output p p"
  by (simp add: same_output_def)

lemma same_output_trans: "same_output p q \<Longrightarrow> same_output q r \<Longrightarrow> same_output p r"
  by (simp add: same_output_def)

section \<open>Staging and selection\<close>

lemma fill_staging_ok:
  assumes p: "packer_ok p" and q: "queues_ok q" and f: "fill_staging_slots p q = (p', q')"
  shows "packer_ok p'" "queues_ok q'" "waiting p' q' cl rp = waiting p q cl rp" "same_output p p'"
    "building p' c ps = building p c ps" "fp_cur p' = fp_cur p" "fp_spill_active p' = fp_spill_active p"
    "fp_credits p' = fp_credits p"
proof -
  have s: "slot p' cl = fill_slots (fp_rp_count p) (slot p cl) (queue q cl)"
    "queue q' cl = drain_queues (fp_rp_count p) (slot p cl) (queue q cl)" for cl
    using f by (auto simp: fill_staging_slots_def class_simps Let_def split: tx_class.split)
  show frame: "fp_cur p' = fp_cur p" "fp_spill_active p' = fp_spill_active p"
      "fp_credits p' = fp_credits p" "same_output p p'" "building p' c ps = building p c ps"
    using f by (auto simp: fill_staging_slots_def Let_def same_output_def building_def spill_is_def
        split: option.split)
  have "fp_rp_count p' = fp_rp_count p" using f by (auto simp: fill_staging_slots_def Let_def)
  then show "packer_ok p'"
    using p q frame(3) by (auto simp: packer_ok_def queues_ok_def s fill_slots_def split: if_splits)
  show "queues_ok q'"
    using q by (auto simp: queues_ok_def s drain_queues_def dest: list.set_sel(2) split: if_splits)
      (metis list.sel(2) list.set_sel(2) empty_iff list.set(1))
  show "waiting p' q' cl rp = waiting p q cl rp"
    by (cases "queue q cl rp") (auto simp: waiting_def s fill_slots_def drain_queues_def split: option.split)
qed

lemma select_from_Some:
  assumes "select_from p slots = Some (m, rp)" "packer_ok p"
  shows "slots rp = Some m" "can_consume (fp_credits p) rp (am_type m) (credit_need m)" "rp < fp_rp_count p"
proof -
  obtain r where r: "find (\<lambda>rp. case slots rp of None \<Rightarrow> False
      | Some m \<Rightarrow> can_consume (fp_credits p) rp (am_type m) (credit_need m))
      (rp_rotation (fp_next_rp p) (fp_rp_count p)) = Some r" "rp = r" "m = the (slots r)"
    using assms(1) by (auto simp: select_from_def split: option.splits)
  from find_Some_iff [OF r(1)] r(2,3)
  show "slots rp = Some m" "can_consume (fp_credits p) rp (am_type m) (credit_need m)"
    by (auto split: option.splits)
  show "rp < fp_rp_count p"
    using find_Some_iff [OF r(1)] rp_rotation_bound [of "fp_rp_count p" r] r(2) assms(2)
    by (auto simp: packer_ok_def wf_credits_def)
qed

lemma select_candidate_Some:
  assumes "select_candidate p = Some (m, rp)" "packer_ok p"
  obtains cl where "slot p cl rp = Some m" "can_consume (fp_credits p) rp (am_type m) (credit_need m)"
    "rp < fp_rp_count p" "ok_msg cl rp m"
proof -
  have "\<exists>cl. select_from p (slot p cl) = Some (m, rp)"
    using assms(1) unfolding select_candidate_def
    by (auto simp: slot_def split: option.splits intro: exI [of _ TxRead] exI [of _ TxWrite] exI [of _ TxData])
  then obtain cl where "select_from p (slot p cl) = Some (m, rp)" by blast
  from select_from_Some [OF this assms(2)] assms(2) that [of cl] show ?thesis
    by (auto simp: packer_ok_def)
qed

section \<open>Packing one message\<close>

lemma credit_need_wf: "wf_msg m \<Longrightarrow> credit_need m = msg_len m"
proof -
  assume "wf_msg m"
  then have "0 < am_granules m" "am_granules m \<le> 48" unfolding wf_msg_def by blast+
  then show ?thesis by (simp add: credit_need_def msg_len_def mod_pos_pos_trivial)
qed

lemma building_used:
  assumes "building p c ps"
  shows "0 \<le> fl_used_granules (fp_cur p)" "fl_used_granules (fp_cur p) \<le> 48"
    "fp_spill_active p \<longleftrightarrow> cut_after ps \<noteq> None"
    "cut_after ps \<noteq> None \<Longrightarrow> fl_used_granules (fp_cur p) = 48"
proof -
  have lay: "flit_layout (fp_cur p) c ps" using assms by (simp add: building_def)
  then show "0 \<le> fl_used_granules (fp_cur p)" "fl_used_granules (fp_cur p) \<le> 48"
    by (simp_all add: flit_layout_def)
  show "fp_spill_active p \<longleftrightarrow> cut_after ps \<noteq> None"
    using assms by (auto simp: building_def spill_is_def split: option.splits)
  assume "cut_after ps \<noteq> None"
  then have "\<not> list_all full_piece ps" by (auto simp: cut_after_def list_all_iff split: if_splits)
  then show "fl_used_granules (fp_cur p) = 48" using lay by (simp add: flit_layout_def)
qed

text \<open>The bookkeeping after a message has been written into the flit.\<close>

lemma slot_clear:
  assumes "class_of t = Some cl"
  shows "slot (clear_slot t rp p) cl' = (if cl' = cl then (slot p cl')(rp := None) else slot p cl')"
  using assms by (cases t; cases cl') (auto simp: class_of_def slot_def clear_slot_def)

lemma clear_slot_frame [simp]:
  "fp_credits (clear_slot t rp p) = fp_credits p" "fp_cur (clear_slot t rp p) = fp_cur p"
  "fp_rp_count (clear_slot t rp p) = fp_rp_count p" "same_output p (clear_slot t rp p)"
  "fp_spill_active (clear_slot t rp p) = fp_spill_active p" "fp_spill_msg (clear_slot t rp p) = fp_spill_msg p"
  "fp_spill_done (clear_slot t rp p) = fp_spill_done p"
  by (simp_all add: clear_slot_def same_output_def)

lemma pack_fragment_fdid:
  "pack_fragment f m n = (f', t) \<Longrightarrow> fl_fdid f' = fl_fdid f"
  "pack_fragment f m n = (f', t) \<Longrightarrow> 0 < t \<Longrightarrow> fl_valid f'"
  "pack_fragment f m n = (f', t) \<Longrightarrow> 0 < t \<Longrightarrow> fl_used_granules f' = fl_used_granules f + t"
  by (auto simp: pack_fragment_def Let_def split: if_splits)

definition kind_index :: "aou_message \<Rightarrow> nat" where
  "kind_index m = credit_kind_index (msgtype_to_credit_kind (am_type m))"

lemma consume_candidate_step:
  assumes b: "building p c ps" and p: "packer_ok p" and room: "fl_used_granules (fp_cur p) < 48"
    and slot: "slot p cl rp = Some m" and ok: "ok_msg cl rp m"
    and can: "can_consume (fp_credits p) rp (am_type m) (credit_need m)"
  obtains p' k where "consume_candidate (m, rp) p = Inr p'" "building p' c (ps @ [(m, k)])" "packer_ok p'"
    "\<And>cl' rp'. slot p' cl' rp' = (if cl' = cl \<and> rp' = rp then None else slot p cl' rp')"
    "same_output p p'"
    "\<And>r k. cm_tx_available (fp_credits p') r k + (if rp = r \<and> kind_index m = k then msg_len m else 0) =
       cm_tx_available (fp_credits p) r k"
proof -
  have wf: "wf_msg m" and cls: "class_of (am_type m) = Some cl" using ok by (simp_all add: ok_msg_def)
  note L = wf_msg_len [OF wf]
  obtain cr where cr: "consume (fp_credits p) rp (am_type m) (credit_need m) = Inr cr"
    using can by (auto simp flip: consume_ok_iff)
  obtain f' t where f': "pack_fragment (fp_cur p) m 0 = (f', t)" by (cases "pack_fragment (fp_cur p) m 0")
  have lay: "flit_layout (fp_cur p) c ps" using b by (simp add: building_def)
  note N = pack_new [OF lay room wf f'] and F = pack_fragment_fdid [OF f']
  have used: "0 \<le> fl_used_granules (fp_cur p)" using building_used(1) [OF b] .
  have t: "0 < t" "t \<le> int (msg_len m)" using N(1) L(1) room used by auto
  have nospill: "\<not> fp_spill_active p" using building_used(3,4) [OF b] room by auto
  let ?p2 = "if t < am_granules m
      then p\<lparr>fp_credits := cr, fp_cur := f', fp_spill_msg := m, fp_spill_done := t, fp_spill_active := True\<rparr>
      else p\<lparr>fp_credits := cr, fp_cur := f'\<rparr>"
  define p' where "p' = (clear_slot (am_type m) rp ?p2)\<lparr>fp_next_rp := (rp + 1) mod fp_rp_count p\<rparr>"
  have run: "consume_candidate (m, rp) p = Inr p'"
    using t(1) by (simp add: consume_candidate_def cr f' Let_def p'_def)
  have frame: "fp_credits p' = cr" "fp_cur p' = f'" "fp_rp_count p' = fp_rp_count p" "same_output p p'"
    by (simp_all add: p'_def same_output_def clear_slot_def)
  have spill: "spill_is p' (if t < am_granules m then Some (m, nat t) else None)"
    using nospill t(1) by (simp add: spill_is_def p'_def)
  have slots: "slot p' cl' = (if cl' = cl then (slot p cl')(rp := None) else slot p cl')" for cl'
    using slot_clear [OF cls, of rp ?p2 cl'] by (auto simp: slot_def p'_def split: tx_class.split)
  have cut: "cut_after (ps @ [(m, nat t)]) = (if t < am_granules m then Some (m, nat t) else None)"
    using t L(3) wf by (auto simp: cut_after_def full_piece_def)
  have "building p' c (ps @ [(m, nat t)])"
    unfolding building_def cut frame
    using N(2) F(1) F(2,3) [OF t(1)] t b used spill by (auto simp: building_def)
  moreover have "packer_ok p'"
    using p consume_wf [OF _ cr] consume_rp_count [OF cr]
    by (auto simp: packer_ok_def slots frame split: if_splits)
  moreover have "cm_tx_available (fp_credits p') r k + (if rp = r \<and> kind_index m = k then msg_len m else 0) =
      cm_tx_available (fp_credits p) r k" for r k
    using consume_spends [OF cr, of r k] unfolding credit_need_wf [OF wf] frame kind_index_def by simp
  ultimately show ?thesis using that [OF run] frame(4) by (simp add: slots)
qed

section \<open>The packing loop\<close>

text \<open>The granules a list of messages takes from one transmit counter.\<close>

definition credit_use :: "aou_message list \<Rightarrow> nat \<Rightarrow> nat \<Rightarrow> nat" where
  "credit_use ms r k = sum_list (map (\<lambda>m. if unat (am_rp m) = r \<and> kind_index m = k then msg_len m else 0) ms)"

lemma credit_use_simps [simp]:
  "credit_use [] r k = 0" "credit_use (ms @ ns) r k = credit_use ms r k + credit_use ns r k"
  "credit_use (m # ms) r k = (if unat (am_rp m) = r \<and> kind_index m = k then msg_len m else 0) + credit_use ms r k"
  by (simp_all add: credit_use_def)

text \<open>
  One run of the loop appends pieces to the flit, moves exactly their messages out of the waiting
  queues, and pays for them with transmit credit.
\<close>

definition packs :: "flit_packer \<Rightarrow> packer_queues \<Rightarrow> flit_packer \<Rightarrow> packer_queues \<Rightarrow> piece list \<Rightarrow> bool" where
  "packs p q p' q' new \<longleftrightarrow> packer_ok p' \<and> queues_ok q' \<and> same_output p p' \<and>
     (\<forall>cl rp. of_class cl rp (map fst new) @ waiting p' q' cl rp = waiting p q cl rp) \<and>
     (\<forall>r k. cm_tx_available (fp_credits p') r k + credit_use (map fst new) r k = cm_tx_available (fp_credits p) r k)"

lemma packs_refl: "packer_ok p \<Longrightarrow> queues_ok q \<Longrightarrow> packs p q p q []"
  by (simp add: packs_def)

lemma packs_trans: "packs p q p1 q1 xs \<Longrightarrow> packs p1 q1 p2 q2 ys \<Longrightarrow> packs p q p2 q2 (xs @ ys)"
  by (simp add: packs_def same_output_def) (metis add.assoc add.commute)

lemma pack_messages_step:
  assumes "building p c ps" "packer_ok p" "queues_ok q"
  shows "\<exists>p' q' ex new. pack_messages n p q = Inr ((p', q'), ex) \<and> building p' c (ps @ new) \<and> packs p q p' q' new"
  using assms
proof (induction n arbitrary: p q ps)
  case 0
  then show ?case by (auto intro!: exI [of _ "[]"] packs_refl)
next
  case (Suc n)
  show ?case
  proof (cases "remaining_granules (fp_cur p) > 0")
    case False
    then show ?thesis using Suc.prems by (auto intro!: exI [of _ "[]"] packs_refl)
  next
    case True
    obtain p1 q1 where fill: "fill_staging_slots p q = (p1, q1)" by (cases "fill_staging_slots p q")
    note f = fill_staging_ok [OF Suc.prems(2,3) fill]
    have b1: "building p1 c ps" using f(5) Suc.prems(1) by simp
    have pk1: "packs p q p1 q1 []" using f by (simp add: packs_def)
    show ?thesis
    proof (cases "select_candidate p1")
      case None
      then show ?thesis using True fill b1 pk1 by (auto intro!: exI [of _ "[]"])
    next
      case (Some cand)
      obtain m rp where cand: "cand = (m, rp)" by (cases cand)
      obtain cl where sel: "slot p1 cl rp = Some m" "ok_msg cl rp m"
        "can_consume (fp_credits p1) rp (am_type m) (credit_need m)"
        using select_candidate_Some [OF Some [unfolded cand] f(1)] by blast
      have room: "fl_used_granules (fp_cur p1) < 48"
        using True f(6) by (simp add: remaining_granules_def aou_consts)
      obtain p2 k where p2: "consume_candidate (m, rp) p1 = Inr p2" "building p2 c (ps @ [(m, k)])"
        "packer_ok p2" "\<And>cl' rp'. slot p2 cl' rp' = (if cl' = cl \<and> rp' = rp then None else slot p1 cl' rp')"
        "same_output p1 p2"
        "\<And>r k. cm_tx_available (fp_credits p2) r k + (if rp = r \<and> kind_index m = k then msg_len m else 0) =
           cm_tx_available (fp_credits p1) r k"
        using consume_candidate_step [OF b1 f(1) room sel(1,2,3)] by blast
      have cls: "class_of (am_type m) = Some cl" "unat (am_rp m) = rp" using sel(2) by (simp_all add: ok_msg_def)
      have w: "of_class cl' rp' [m] @ waiting p2 q1 cl' rp' = waiting p1 q1 cl' rp'" for cl' rp'
        using cls sel(1) by (auto simp: waiting_def p2(4))
      have "packs p1 q1 p2 q1 [(m, k)]"
        using p2(3,5,6) f(2) w cls by (simp add: packs_def) 
      then have pk2: "packs p q p2 q1 [(m, k)]" using packs_trans [OF pk1] by simp
      show ?thesis
      proof (cases "fp_spill_active p2")
        case True': True
        then show ?thesis
          using True fill Some cand p2(1,2) pk2 by (auto intro!: exI [of _ "[(m, k)]"])
      next
        case False
        from Suc.IH [OF p2(2,3) f(2)] obtain p3 q3 ex new where
          r: "pack_messages n p2 q1 = Inr ((p3, q3), ex)" "building p3 c ((ps @ [(m, k)]) @ new)" "packs p2 q1 p3 q3 new"
          by blast
        have "packs p q p3 q3 ((m, k) # new)" using packs_trans [OF pk2 r(3)] by simp
        moreover have "building p3 c (ps @ (m, k) # new)" using r(2) by simp
        moreover have "pack_messages (Suc n) p q = Inr ((p3, q3), ex)"
          using True fill Some cand p2(1) False r(1) by simp
        ultimately show ?thesis by blast
      qed
    qed
  qed
qed

section \<open>One clock edge\<close>

text \<open>Between two flits the packer either builds on, or still owes the rest of a cut message.\<close>

definition packer_state :: "flit_packer \<Rightarrow> cut \<Rightarrow> piece list \<Rightarrow> bool" where
  "packer_state p c ps \<longleftrightarrow> building p c ps \<or> resuming p c \<and> ps = []"

lemma pack_cycle_step:
  assumes st: "packer_state p c ps" and p: "packer_ok p" and q: "queues_ok q"
  shows "\<exists>p' q' ex new. pack_cycle p q = Inr ((p', q'), ex) \<and> building p' c (ps @ new) \<and> packs p q p' q' new"
proof (cases "building p c ps")
  case True
  note u = building_used [OF True]
  show ?thesis
  proof (cases "fp_spill_active p")
    case act: True
    then have "fl_used_granules (fp_cur p) \<noteq> 0" using u by simp
    then show ?thesis using act True p q by (auto simp: pack_cycle_def intro!: exI [of _ "[]"] packs_refl)
  next
    case False
    then show ?thesis using pack_messages_step [OF True p q] by (simp add: pack_cycle_def)
  qed
next
  case False
  then have r: "resuming p c" and ps: "ps = []" using st by (simp_all add: packer_state_def)
  then obtain m k where c: "c = Some (m, k)" by (auto simp: resuming_def)
  with r have cur: "fp_cur p = aou_flit0" and cut: "wf_cut (Some (m, k))" and act: "fp_spill_active p"
    and sp: "fp_spill_msg p = m" "fp_spill_done p = int k"
    by (auto simp: resuming_def spill_is_def)
  obtain f' t where f': "pack_fragment aou_flit0 m (int k) = (f', t)" by (cases "pack_fragment aou_flit0 m (int k)")
  from pack_resume [OF cut f'] have t: "t = int (msg_len m - k)" and lay: "flit_layout f' c []" by (simp_all add: c)
  have wf: "wf_msg m" and k: "0 < k" "k < msg_len m" using cut by (simp_all add: wf_cut_def)
  have pos: "0 < t" using t k by simp
  let ?p1 = "p\<lparr>fp_cur := f', fp_spill_active := False, fp_spill_done := 0\<rparr>"
  have "building ?p1 c []"
    using lay pack_fragment_fdid [OF f'] pos
    by (auto simp: building_def spill_is_def cut_after_def aou_flit0_def)
  moreover have "packer_ok ?p1" using p by (simp add: packer_ok_def slot_def cong: tx_class.case_cong)
  ultimately obtain p' q' ex new where run: "pack_messages PACK_MSGS_PER_CYCLE ?p1 q = Inr ((p', q'), ex)"
    "building p' c new" "packs ?p1 q p' q' new"
    using pack_messages_step [OF _ _ q, of ?p1 c "[]"] by fastforce
  have "packs p q p' q' new"
    using run(3) by (simp add: packs_def same_output_def waiting_def slot_def cong: tx_class.case_cong)
  moreover have "am_granules m \<le> int k + t" using t k wf_msg_len(3) [OF wf] by simp
  ultimately show ?thesis
    using run(1,2) act cur sp f' ps by (auto simp: pack_cycle_def Let_def aou_flit0_def)
qed

lemma layout_cut_after: "flit_layout f c ps \<Longrightarrow> wf_cut (cut_after ps)"
  by (cases ps rule: rev_cases) (auto simp: cut_after_def wf_cut_def flit_layout_def wf_piece_def full_piece_def)

lemma layout_payload: "flit_layout f c ps \<Longrightarrow> length (fl_payload f) = 240"
  by (auto simp: flit_layout_def length_cut_tail length_pieces)

lemma layout_credit [simp]: "flit_layout (f\<lparr>fl_msg_credit := v\<rparr>) c ps = flit_layout f c ps"
  by (simp add: flit_layout_def)

text \<open>The effect of a flush: the flit is latched at the output and the packer starts over.\<close>

definition flushed :: "flit_packer \<Rightarrow> flit_packer \<Rightarrow> cut \<Rightarrow> piece list \<Rightarrow> bool" where
  "flushed p p' c ps \<longleftrightarrow> fp_out_active p' \<and> fp_port p' = fp_out p' \<and>
     (\<exists>f. fp_out p' = flit_transfer_of f \<and> flit_layout f c ps \<and> fl_fdid f = 0) \<and>
     packer_state p' (cut_after ps) [] \<and> packer_ok p' \<and> slot p' = slot p \<and>
     cm_tx_available (fp_credits p') = cm_tx_available (fp_credits p)"

lemma flush_flit_step:
  assumes b: "building p c ps" and p: "packer_ok p" and v: "fl_valid (fp_cur p)" "\<not> fp_out_active p"
  shows "\<exists>p'. flush_flit h p = Inr p' \<and> flushed p p' c ps"
proof -
  have lay: "flit_layout (fp_cur p) c ps" and sp: "spill_is p (cut_after ps)" and fd: "fl_fdid (fp_cur p) = 0"
    using b by (simp_all add: building_def)
  obtain field cr where g: "take_header_grant (fp_credits p) = (field, cr)" by (cases "take_header_grant (fp_credits p)")
  define f where "f = (if h then (fp_cur p)\<lparr>fl_msg_credit := field\<rparr> else fp_cur p)"
  define p' where "p' = (if h then p\<lparr>fp_credits := cr, fp_idle_cnt := (if field \<noteq> 0 then 0 else fp_idle_cnt p)\<rparr> else p)
     \<lparr>fp_flits_sent := fp_flits_sent p + 1,
       fp_granules_sent := fp_granules_sent p + of_int (fl_used_granules f),
       fp_out := flit_transfer_of f, fp_out_active := True, fp_port := flit_transfer_of f,
       fp_cur := aou_flit0, fp_timeout_cnt := 0\<rparr>"
  have layf: "flit_layout f c ps" using lay by (simp add: f_def)
  have "flush_flit h p = Inr p'"
    using v g clear_flit_eq [OF layout_payload [OF layf]]
    by (cases h) (simp_all add: flush_flit_def Let_def f_def p'_def)
  moreover have "packer_state p' (cut_after ps) []"
  proof (cases "cut_after ps")
    case None
    then show ?thesis using layout_empty sp
      by (simp add: packer_state_def building_def p'_def spill_is_def cut_after_def aou_flit0_def)
  next
    case (Some mk)
    then show ?thesis using layout_cut_after [OF lay] sp
      by (auto simp: packer_state_def resuming_def p'_def spill_is_def split: option.splits)
  qed
  moreover have "packer_ok p'" "slot p' = slot p"
    using p header_grant_wf [OF _ g] take_header_rp_count [OF g]
    by (auto simp: packer_ok_def p'_def slot_def fun_eq_iff split: tx_class.splits)
  moreover have "cm_tx_available (fp_credits p') = cm_tx_available (fp_credits p)"
    using round_tx(2) [of "fp_credits p"] g by (simp add: p'_def)
  ultimately show ?thesis
    using layf fd by (auto simp: flushed_def p'_def f_def)
qed

lemma building_empty:
  assumes "building p c ps" "\<not> fl_valid (fp_cur p)"
  shows "c = None" "ps = []" "fl_used_granules (fp_cur p) = 0"
proof -
  have lay: "flit_layout (fp_cur p) c ps" and u: "fl_used_granules (fp_cur p) = 0"
    using assms by (simp_all add: building_def)
  show "fl_used_granules (fp_cur p) = 0" by fact
  show "c = None" using lay u by (auto simp: flit_layout_def cut_rest_def wf_cut_def split: option.splits)
  show "ps = []" using lay u by (cases ps) (auto simp: flit_layout_def wf_piece_def)
qed

lemma send_dedicated_step:
  assumes b: "building p c ps" and p: "packer_ok p" and v: "\<not> fl_valid (fp_cur p)" "\<not> fp_out_active p"
  shows "\<exists>p' m. send_dedicated_credit_grant p = Inr p' \<and> flushed p p' c (ps @ [(m, 2)]) \<and> am_type m = Misc"
proof -
  note e = building_empty [OF b v(1)]
  obtain g cr where g: "take_misc_grants (fp_credits p) = (g, cr)" by (cases "take_misc_grants (fp_credits p)")
  obtain m where m: "build_crdt_grant_message g (fp_rp_count p) = Inr m" using build_crdt_grant by blast
  have wf: "wf_msg m" using grant_message_wf [OF m] .
  have mf: "am_granules m = 2" "am_byte_len m = 10" "am_type m = Misc" "msg_len m = 2"
    using m by (auto simp: build_crdt_grant msg_len_def)
  obtain f' t where f': "pack_fragment (fp_cur p) m 0 = (f', t)" by (cases "pack_fragment (fp_cur p) m 0")
  have lay: "flit_layout (fp_cur p) None []" using b e by (simp add: building_def)
  have room: "fl_used_granules (fp_cur p) < 48" using e by simp
  note N = pack_new [OF lay room wf f']
  have t: "t = 2" using N(1) mf(4) e(3) by simp
  have pk: "pack_message (fp_cur p) m = (f', True)"
    using f' t mf e(3) by (simp add: pack_message_def aou_consts)
  let ?p1 = "p\<lparr>fp_credits := cr, fp_cur := f'\<rparr>"
  have cut: "cut_after ([] @ [(m, 2 :: nat)]) = None" using wf mf by (simp add: cut_after_def full_piece_def)
  have sp: "\<not> fp_spill_active p" using building_used(3) [OF b] e by (simp add: cut_after_def)
  have "building ?p1 None [(m, 2)]"
    using N(2) t b pack_fragment_fdid [OF f'] e(3) cut sp by (simp add: building_def spill_is_def)
  moreover have "packer_ok ?p1"
    using p take_misc_wf [OF _ g] take_misc_rp_count [OF g] by (simp add: packer_ok_def slot_def cong: tx_class.case_cong)
  moreover have "fl_valid (fp_cur ?p1)" using pack_fragment_fdid(2) [OF f'] t by simp
  ultimately obtain p' where fl: "flush_flit False ?p1 = Inr p'" "flushed ?p1 p' None [(m, 2)]"
    using flush_flit_step [of ?p1 None "[(m, 2)]" False] v(2) by auto
  have "cm_tx_available cr = cm_tx_available (fp_credits p)" using round_tx(1) [of "fp_credits p"] g by simp
  moreover have "slot ?p1 = slot p" by (auto simp: slot_def fun_eq_iff split: tx_class.splits)
  ultimately have "flushed p p' None [(m, 2)]" using fl(2) by (simp add: flushed_def)
  then show ?thesis
    using fl(1) mf(3) e by (auto simp: send_dedicated_credit_grant_def g m pk)
qed

text \<open>The decision either leaves the flit under construction alone or flushes it.\<close>

definition kept :: "flit_packer \<Rightarrow> flit_packer \<Rightarrow> cut \<Rightarrow> piece list \<Rightarrow> bool" where
  "kept p p' c ps \<longleftrightarrow> fp_out_active p' = fp_out_active p \<and> fp_out p' = fp_out p \<and> fp_port p' = fp_port p \<and>
     building p' c ps \<and> packer_ok p' \<and> slot p' = slot p \<and>
     cm_tx_available (fp_credits p') = cm_tx_available (fp_credits p)"

lemma kept_counter [intro]:
  assumes "building p c ps" "packer_ok p"
  shows "kept p p c ps" "kept p (p\<lparr>fp_timeout_cnt := n\<rparr>) c ps" "kept p (p\<lparr>fp_idle_cnt := n\<rparr>) c ps"
  using assms
  by (auto simp: kept_def building_def packer_ok_def spill_is_def slot_def fun_eq_iff
      split: option.splits tx_class.splits)

lemma flushed_counter:
  "flushed p (p'\<lparr>fp_idle_cnt := n\<rparr>) c ps = flushed p p' c ps"
  "flushed (p\<lparr>fp_idle_cnt := n\<rparr>) p' c ps = flushed p p' c ps"
  by (auto simp: flushed_def packer_state_def building_def resuming_def packer_ok_def spill_is_def slot_def
      fun_eq_iff split: option.splits tx_class.splits)

lemma send_decision_step:
  assumes b: "building p c ps" and p: "packer_ok p"
  shows "\<exists>p'. send_decision ex p = Inr p' \<and> (kept p p' c ps \<or>
    \<not> fp_out_active p \<and> (\<exists>extra. flushed p p' c (ps @ extra) \<and> (\<forall>x \<in> set extra. am_type (fst x) = Misc)))"
proof (cases "fp_out_active p")
  case True
  then show ?thesis using b p by (auto simp: send_decision_def)
next
  case out: False
  show ?thesis
  proof (cases "fl_valid (fp_cur p)")
    case True
    then obtain p' where "flush_flit True p = Inr p'" "flushed p p' c ps"
      using flush_flit_step [OF b p] out by blast
    then show ?thesis using True out b p
      by (auto simp: send_decision_def intro!: exI [of _ "[]"])
  next
    case v: False
    let ?p1 = "p\<lparr>fp_idle_cnt := fp_idle_cnt p + 1\<rparr>"
    have k: "kept p ?p1 c ps" using b p by blast
    then obtain p' m where "send_dedicated_credit_grant ?p1 = Inr p'" "flushed ?p1 p' c (ps @ [(m, 2)])" "am_type m = Misc"
      using send_dedicated_step [of ?p1 c ps] v out by (auto simp: kept_def)
    then show ?thesis using out v k b p
      by (auto simp: send_decision_def Let_def flushed_counter intro!: exI [of _ "[(m, 2)]"])
  qed
qed

lemma tx_after_updates:
  "cm_tx_available (fold (\<lambda>u c. add_tx_credit c u) us c) r k \<le> cm_tx_available c r k + update_sum us r k"
proof (induction us arbitrary: c)
  case (Cons u us)
  have "update_sum (u # us) r k =
      (if cu_rp u = r \<and> credit_kind_index (cu_kind u) = k then cu_granules u else 0) + update_sum us r k"
    by (simp add: update_sum_def)
  then show ?case using add_tx_credit_bound [of c u r k] Cons [of "add_tx_credit c u"] by simp
qed (simp add: update_sum_def)

lemma credit_events_wf:
  "wf_credits c \<Longrightarrow> wf_credits (fold (\<lambda>u c. add_tx_credit c u) us c)"
  "wf_credits c \<Longrightarrow> wf_credits (fold (\<lambda>u c. return_rx_credit c u) us c)"
  by (induction us arbitrary: c) (auto intro: wf_intros)

lemma credit_events_frame [simp]:
  "cm_rp_count (fold (\<lambda>u c. add_tx_credit c u) us c) = cm_rp_count c"
  "cm_rp_count (fold (\<lambda>u c. return_rx_credit c u) us c) = cm_rp_count c"
  "cm_tx_available (fold (\<lambda>u c. return_rx_credit c u) us c) = cm_tx_available c"
  by (induction us arbitrary: c) (auto simp: return_rx_credit_def Let_def)

text \<open>The registers of the output and the credits do not matter to the flit under construction.\<close>

lemma state_frame [simp]:
  "packer_state (p\<lparr>fp_credits := cr\<rparr>) c ps = packer_state p c ps"
  "packer_state (p\<lparr>fp_out := t\<rparr>) c ps = packer_state p c ps"
  "packer_state (p\<lparr>fp_out_active := b\<rparr>) c ps = packer_state p c ps"
  "packer_state (p\<lparr>fp_port := t\<rparr>) c ps = packer_state p c ps"
  by (simp_all add: packer_state_def building_def resuming_def spill_is_def split: option.split)

lemma slot_frame [simp]:
  "slot (p\<lparr>fp_credits := cr\<rparr>) = slot p" "slot (p\<lparr>fp_out := t\<rparr>) = slot p"
  "slot (p\<lparr>fp_out_active := b\<rparr>) = slot p" "slot (p\<lparr>fp_port := t\<rparr>) = slot p"
  by (auto simp: slot_def fun_eq_iff split: tx_class.splits)

lemma drain_step:
  assumes "packer_state p c ps" "packer_ok p" "p0 = drain_credit_events us rs p"
  shows "packer_state p0 c ps" "packer_ok p0" "slot p0 = slot p" "fp_out_active p0 = fp_out_active p"
    "fp_out p0 = fp_out p" "fp_port p0 = fp_port p"
    "cm_tx_available (fp_credits p0) r k \<le> cm_tx_available (fp_credits p) r k + update_sum us r k"
  using assms(1,2) tx_after_updates [of us "fp_credits p" r k]
  by (simp_all add: assms(3) drain_credit_events_def packer_ok_def credit_events_wf)

lemma handshake_step:
  assumes "packer_state p c ps" "packer_ok p" "p0 = output_handshake rdy p"
  shows "packer_state p0 c ps" "packer_ok p0" "slot p0 = slot p"
    "fp_out_active p0 \<longleftrightarrow> fp_out_active p \<and> \<not> rdy" "fp_out_active p0 \<Longrightarrow> fp_out p0 = fp_out p \<and> fp_port p0 = fp_out p"
    "cm_tx_available (fp_credits p0) = cm_tx_available (fp_credits p)"
  using assms(1,2) by (auto simp: assms(3) output_handshake_def packer_ok_def split: if_splits)

section \<open>Sessions\<close>

text \<open>Arrivals join what the packer left in its queues.\<close>

definition join_queues :: "packer_queues \<Rightarrow> packer_queues \<Rightarrow> packer_queues" where
  "join_queues q a = \<lparr>pq_rreq = \<lambda>rp. pq_rreq q rp @ pq_rreq a rp, pq_wreq = \<lambda>rp. pq_wreq q rp @ pq_wreq a rp,
     pq_wdata = \<lambda>rp. pq_wdata q rp @ pq_wdata a rp\<rparr>"

definition no_queues :: packer_queues where
  "no_queues = \<lparr>pq_rreq = \<lambda>_. [], pq_wreq = \<lambda>_. [], pq_wdata = \<lambda>_. []\<rparr>"

text \<open>
  A session of clock edges; the queues of each input are the new arrivals. The last component
  collects the flits taken at a handshake, that is, valid and ready at the same edge.
\<close>

fun packer_session :: "packer_input list \<Rightarrow> flit_packer \<times> packer_queues \<times> aou_flit list \<Rightarrow>
    (flit_packer \<times> packer_queues \<times> aou_flit list) result" where
  "packer_session [] st = Inr st"
| "packer_session (i # is) (p, q, sent) =
     bindR (packer_cycle (i\<lparr>pi_queues := join_queues q (pi_queues i)\<rparr>) p) (\<lambda>(p', q').
       packer_session is (p', q', if fp_out_active p \<and> pi_ready i then sent @ [ft_flit (fp_out p)] else sent))"

text \<open>What has arrived for a class and plane, and what the peer has granted, over a session.\<close>

definition arrived :: "packer_input list \<Rightarrow> tx_class \<Rightarrow> nat \<Rightarrow> aou_message list" where
  "arrived is cl rp = concat (map (\<lambda>i. queue (pi_queues i) cl rp) is)"

definition granted_by :: "packer_input list \<Rightarrow> nat \<Rightarrow> nat \<Rightarrow> nat" where
  "granted_by is r k = sum_list (map (\<lambda>i. update_sum (pi_updates i) r k) is)"

text \<open>The session invariant.\<close>

definition latched :: "flit_packer \<Rightarrow> aou_flit list" where
  "latched p = (if fp_out_active p then [ft_flit (fp_out p)] else [])"

definition session_inv ::
  "flit_packer \<Rightarrow> packer_queues \<Rightarrow> aou_flit list \<Rightarrow> (tx_class \<Rightarrow> nat \<Rightarrow> aou_message list) \<Rightarrow> (nat \<Rightarrow> nat \<Rightarrow> nat) \<Rightarrow>
   (aou_flit \<times> piece list) list \<Rightarrow> cut \<Rightarrow> piece list \<Rightarrow> bool" where
  "session_inv p q sent inp gr xs c ps \<longleftrightarrow>
     stream_from None xs c \<and> packer_state p c ps \<and> packer_ok p \<and> queues_ok q \<and>
     map fst xs = sent @ latched p \<and> (\<forall>f \<in> set (map fst xs). fl_fdid f = 0) \<and>
     (fp_out_active p \<longrightarrow> ft_valid (fp_out p) \<and> fp_port p = fp_out p) \<and>
     (\<forall>cl rp. of_class cl rp (started xs @ map fst ps) @ waiting p q cl rp = inp cl rp) \<and>
     (\<forall>r. \<forall>k < 5. cm_tx_available (fp_credits p) r k + credit_use (started xs @ map fst ps) r k \<le> gr r k)"

lemma misc_pieces:
  assumes "\<forall>x \<in> set extra. am_type (fst x) = Misc"
  shows "of_class cl rp (map fst extra) = []" "k < 5 \<Longrightarrow> credit_use (map fst extra) r k = 0"
  using assms by (induction extra) (auto simp: class_of_def kind_index_def msgtype_to_credit_kind_def credit_kind_index_def)

lemma session_cycle:
  assumes inv: "session_inv p q sent inp gr xs c ps" and arr: "queues_ok (pi_queues i)"
  shows "\<exists>p' q' xs' c' ps'. packer_cycle (i\<lparr>pi_queues := join_queues q (pi_queues i)\<rparr>) p = Inr (p', q') \<and>
    session_inv p' q' (if fp_out_active p \<and> pi_ready i then sent @ [ft_flit (fp_out p)] else sent)
      (\<lambda>cl rp. inp cl rp @ queue (pi_queues i) cl rp) (\<lambda>r k. gr r k + update_sum (pi_updates i) r k) xs' c' ps'"
proof -
  define sent' where "sent' = (if fp_out_active p \<and> pi_ready i then sent @ [ft_flit (fp_out p)] else sent)"
  have I: "stream_from None xs c" "packer_state p c ps" "packer_ok p" "queues_ok q"
    "map fst xs = sent @ latched p" "\<forall>f \<in> set (map fst xs). fl_fdid f = 0"
    "fp_out_active p \<Longrightarrow> ft_valid (fp_out p) \<and> fp_port p = fp_out p"
    "\<And>cl rp. of_class cl rp (started xs @ map fst ps) @ waiting p q cl rp = inp cl rp"
    "\<And>r k. k < 5 \<Longrightarrow> cm_tx_available (fp_credits p) r k + credit_use (started xs @ map fst ps) r k \<le> gr r k"
    using inv unfolding session_inv_def by blast+
  define p0 where "p0 = drain_credit_events (pi_updates i) (pi_returns i) p"
  define p1 where "p1 = output_handshake (pi_ready i) p0"
  define q1 where "q1 = join_queues q (pi_queues i)"
  note D = drain_step [OF I(2,3) p0_def] and H = handshake_step [OF drain_step(1,2) [OF I(2,3) p0_def] p1_def]
  have q1: "queues_ok q1" "queue q1 cl rp = queue q cl rp @ queue (pi_queues i) cl rp" for cl rp
  proof -
    show e: "queue q1 cl rp = queue q cl rp @ queue (pi_queues i) cl rp" for cl rp
      by (simp add: queue_def q1_def join_queues_def split: tx_class.split)
    show "queues_ok q1" using I(4) arr by (auto simp: queues_ok_def e)
  qed
  obtain p2 q2 ex new where P: "pack_cycle p1 q1 = Inr ((p2, q2), ex)" "building p2 c (ps @ new)" "packs p1 q1 p2 q2 new"
    using pack_cycle_step [OF H(1,2) q1(1)] by blast
  have ok2: "packer_ok p2" "queues_ok q2" using P(3) by (simp_all add: packs_def)
  obtain p3 where S: "send_decision ex p2 = Inr p3" "kept p2 p3 c (ps @ new) \<or>
      \<not> fp_out_active p2 \<and> (\<exists>extra. flushed p2 p3 c ((ps @ new) @ extra) \<and> (\<forall>x \<in> set extra. am_type (fst x) = Misc))"
    using send_decision_step [OF P(2) ok2(1)] by blast
  have run: "packer_cycle (i\<lparr>pi_queues := join_queues q (pi_queues i)\<rparr>) p = Inr (p3, q2)"
    using P(1) S(1) by (simp add: packer_cycle_def p0_def p1_def q1_def)
  have out2: "fp_out_active p2 \<longleftrightarrow> fp_out_active p \<and> \<not> pi_ready i" "fp_out_active p2 \<Longrightarrow> fp_out p2 = fp_out p \<and> fp_port p2 = fp_out p"
    using P(3) H(4,5) D(4,5) by (auto simp: packs_def same_output_def)
  have lat: "sent' @ latched p2 = sent @ latched p"
    using out2 by (auto simp: sent'_def latched_def)
  have acc: "of_class cl rp (started xs @ map fst (ps @ new)) @ waiting p2 q2 cl rp =
      inp cl rp @ queue (pi_queues i) cl rp" for cl rp
  proof -
    have "of_class cl rp (map fst new) @ waiting p2 q2 cl rp = waiting p1 q1 cl rp" using P(3) by (simp add: packs_def)
    also have "\<dots> = waiting p q cl rp @ queue (pi_queues i) cl rp"
      using H(3) D(3) by (simp add: waiting_def q1(2))
    finally show ?thesis using I(8) [of cl rp] by simp
  qed
  have cred: "cm_tx_available (fp_credits p2) r k + credit_use (started xs @ map fst (ps @ new)) r k
      \<le> gr r k + update_sum (pi_updates i) r k" if "k < 5" for r k
  proof -
    have "cm_tx_available (fp_credits p2) r k + credit_use (map fst new) r k = cm_tx_available (fp_credits p1) r k"
      using P(3) by (simp add: packs_def)
    then show ?thesis using I(9) [OF that, of r] H(6) D(7) [of r k] by simp
  qed
  from S(2) show ?thesis
  proof
    assume K: "kept p2 p3 c (ps @ new)"
    then have st: "packer_state p3 c (ps @ new)" "packer_ok p3" "fp_out_active p3 = fp_out_active p2"
        "fp_out p3 = fp_out p2" "fp_port p3 = fp_port p2" "slot p3 = slot p2"
        "cm_tx_available (fp_credits p3) = cm_tx_available (fp_credits p2)"
      by (simp_all add: kept_def packer_state_def)
    have "session_inv p3 q2 sent' (\<lambda>cl rp. inp cl rp @ queue (pi_queues i) cl rp)
        (\<lambda>r k. gr r k + update_sum (pi_updates i) r k) xs c (ps @ new)"
      unfolding session_inv_def
    proof (intro conjI allI impI)
      have "latched p3 = latched p2" using st(3,4) by (simp add: latched_def)
      then show "map fst xs = sent' @ latched p3" using I(5) lat by simp
      show "of_class cl rp (started xs @ map fst (ps @ new)) @ waiting p3 q2 cl rp = inp cl rp @ queue (pi_queues i) cl rp" for cl rp
        using acc [of cl rp] st(6) by (simp add: waiting_def)
      show "cm_tx_available (fp_credits p3) r k + credit_use (started xs @ map fst (ps @ new)) r k
          \<le> gr r k + update_sum (pi_updates i) r k" if "k < 5" for r k
        using cred [OF that, of r] st(7) by simp
      show "fp_port p3 = fp_out p3" "ft_valid (fp_out p3)" if "fp_out_active p3"
        using that st(3,4,5) out2 I(7) by auto
    qed (use I(1,6) st ok2 in simp_all)
    with run show ?thesis unfolding sent'_def by blast
  next
    assume "\<not> fp_out_active p2 \<and> (\<exists>extra. flushed p2 p3 c ((ps @ new) @ extra) \<and> (\<forall>x \<in> set extra. am_type (fst x) = Misc))"
    then obtain extra where off: "\<not> fp_out_active p2" and F: "flushed p2 p3 c ((ps @ new) @ extra)"
      and misc: "\<forall>x \<in> set extra. am_type (fst x) = Misc" by blast
    then obtain f where f: "fp_out p3 = flit_transfer_of f" "flit_layout f c ((ps @ new) @ extra)" "fl_fdid f = 0"
      by (auto simp: flushed_def)
    let ?xs = "xs @ [(f, (ps @ new) @ extra)]"
    have act: "fp_out_active p3" "fp_port p3 = fp_out p3" and st: "packer_state p3 (cut_after ((ps @ new) @ extra)) []"
      and ok3: "packer_ok p3" "slot p3 = slot p2" "cm_tx_available (fp_credits p3) = cm_tx_available (fp_credits p2)"
      using F by (simp_all add: flushed_def)
    have str: "stream_from None ?xs (cut_after ((ps @ new) @ extra))"
      using I(1) f(2) by (auto simp: stream_from_append)
    have fs: "map fst ?xs = sent' @ latched p3"
      using I(5) lat off f(1) act by (simp add: latched_def flit_transfer_of_def)
    have "session_inv p3 q2 sent' (\<lambda>cl rp. inp cl rp @ queue (pi_queues i) cl rp)
        (\<lambda>r k. gr r k + update_sum (pi_updates i) r k) ?xs (cut_after ((ps @ new) @ extra)) []"
      unfolding session_inv_def
    proof (intro conjI allI impI)
      show "of_class cl rp (started ?xs @ map fst []) @ waiting p3 q2 cl rp = inp cl rp @ queue (pi_queues i) cl rp" for cl rp
        using acc [of cl rp] misc_pieces(1) [OF misc] ok3(2) by (simp add: waiting_def)
      show "cm_tx_available (fp_credits p3) r k + credit_use (started ?xs @ map fst []) r k
          \<le> gr r k + update_sum (pi_updates i) r k" if "k < 5" for r k
        using cred [OF that, of r] misc_pieces(2) [OF misc that] ok3(3) by simp
      show "\<forall>f \<in> set (map fst ?xs). fl_fdid f = 0" using I(6) f(3) by auto
    qed (use str st ok3(1) ok2(2) fs act f(1) in \<open>simp_all add: flit_transfer_of_def\<close>)
    with run show ?thesis unfolding sent'_def by blast
  qed
qed

lemma session_run:
  assumes "session_inv p q sent inp gr xs c ps" "\<forall>i \<in> set is. queues_ok (pi_queues i)"
  shows "\<exists>p' q' sent' xs' c' ps'. packer_session is (p, q, sent) = Inr (p', q', sent') \<and>
    session_inv p' q' sent' (\<lambda>cl rp. inp cl rp @ arrived is cl rp) (\<lambda>r k. gr r k + granted_by is r k) xs' c' ps'"
  using assms
proof (induction "is" arbitrary: p q sent inp gr xs c ps)
  case Nil
  then show ?case by (auto simp: arrived_def granted_by_def)
next
  case (Cons i rest)
  obtain p1 q1 xs1 c1 ps1 where s: "packer_cycle (i\<lparr>pi_queues := join_queues q (pi_queues i)\<rparr>) p = Inr (p1, q1)"
    "session_inv p1 q1 (if fp_out_active p \<and> pi_ready i then sent @ [ft_flit (fp_out p)] else sent)
      (\<lambda>cl rp. inp cl rp @ queue (pi_queues i) cl rp) (\<lambda>r k. gr r k + update_sum (pi_updates i) r k) xs1 c1 ps1"
    using session_cycle [OF Cons.prems(1), of i] Cons.prems(2) by auto
  have "\<forall>i \<in> set rest. queues_ok (pi_queues i)" using Cons.prems(2) by simp
  from Cons.IH [OF s(2) this] obtain p' q' sent' xs' c' ps' where
    r: "packer_session rest (p1, q1, if fp_out_active p \<and> pi_ready i then sent @ [ft_flit (fp_out p)] else sent) =
         Inr (p', q', sent')"
    "session_inv p' q' sent' (\<lambda>cl rp. (inp cl rp @ queue (pi_queues i) cl rp) @ arrived rest cl rp)
       (\<lambda>r k. (gr r k + update_sum (pi_updates i) r k) + granted_by rest r k) xs' c' ps'" by blast
  have a: "arrived (i # rest) cl rp = queue (pi_queues i) cl rp @ arrived rest cl rp"
    "granted_by (i # rest) r k = update_sum (pi_updates i) r k + granted_by rest r k" for cl rp r k
    by (simp_all add: arrived_def granted_by_def)
  show ?case using s(1) r by (auto simp: a add.assoc)
qed

lemma session_start:
  assumes "packer_reset n rc wc ft = Inr p"
  shows "session_inv p no_queues [] (\<lambda>_ _. []) (\<lambda>_ _. 0) [] None []"
proof -
  obtain cm where cm: "cm_make_initiator n rc wc = Inr cm"
    using assms by (auto simp: packer_reset_def bindR_eq_Inr)
  then have wf: "wf_credits cm" "cm_rp_count cm = n"
    using cm_make_wf by (auto simp: cm_make_initiator_def cm_make_def split: if_splits)
  have p: "fp_credits p = publish_initial_capacity (cm_reset cm)" "fp_rp_count p = n" "fp_cur p = aou_flit0"
    "\<not> fp_out_active p" "\<not> fp_spill_active p" "slot p = (\<lambda>_ _. None)"
    using assms clear_flit_eq [of aou_flit0]
    by (auto simp: packer_reset_def bindR_eq_Inr cm slot_def fun_eq_iff aou_flit0_def aou_consts split: tx_class.splits)
  have "building p None []"
    using layout_empty p by (simp add: building_def spill_is_def cut_after_def aou_flit0_def)
  moreover have "packer_ok p" using wf p by (simp add: packer_ok_def wf_intros)
  moreover have "queue no_queues = (\<lambda>_ _. [])" by (auto simp: queue_def no_queues_def fun_eq_iff split: tx_class.splits)
  moreover have "cm_tx_available (fp_credits p) r k = 0" for r k
    using p(1) by (simp add: publish_initial_capacity_def cm_reset_def zero_matrix_def)
  ultimately show ?thesis
    using p by (simp add: session_inv_def packer_state_def queues_ok_def latched_def waiting_def)
qed

text \<open>What a receiver makes of the flits handed over so far.\<close>

definition idle :: "flit_packer \<Rightarrow> bool" where
  "idle p \<longleftrightarrow> \<not> fp_out_active p \<and> \<not> fl_valid (fp_cur p) \<and> \<not> fp_spill_active p"

lemma session_received:
  assumes "session_inv p q sent inp gr xs c ps"
  shows "\<exists>d ms rest. receive_all sd_consume stream_decoder0 sent = Inr (d, ms) \<and>
    map strip_msg (started xs @ map fst ps) = ms @ rest \<and> (idle p \<longrightarrow> rest = [])"
proof -
  have x: "stream_from None xs c" "map fst xs = sent @ latched p" "packer_state p c ps"
    using assms by (simp_all add: session_inv_def)
  define ys where "ys = take (length sent) xs"
  have ys: "map fst ys = sent" using x(2) by (simp add: ys_def take_map [symmetric])
  have xs: "xs = ys @ drop (length sent) xs" by (simp add: ys_def)
  obtain d where d: "stream_from None ys d" "stream_from d (drop (length sent) xs) c"
    using x(1) by (subst (asm) xs) (auto simp: stream_from_append)
  obtain s' where s': "receive_all sd_consume stream_decoder0 sent = Inr (s', completed None ys)"
    using decoder.receive_stream [OF d(1) decoder.knows_fresh] ys by auto
  have "completed None ys @ cut_msgs d = map strip_msg (started ys)"
    using stream_delivers [OF d(1)] by (simp add: cut_msgs_def)
  then have eq: "map strip_msg (started xs @ map fst ps) =
      completed None ys @ cut_msgs d @ map strip_msg (started (drop (length sent) xs) @ map fst ps)"
    by (subst xs) simp
  have rest: "cut_msgs d @ map strip_msg (started (drop (length sent) xs) @ map fst ps) = []" if "idle p"
  proof -
    have "building p c ps" using x(3) that by (auto simp: packer_state_def resuming_def spill_is_def idle_def)
    then have "c = None" "ps = []" using building_empty that by (simp_all add: idle_def)
    moreover have none: "drop (length sent) xs = []"
      using arg_cong [OF x(2), of length] that by (simp add: latched_def idle_def)
    ultimately show ?thesis using d(2) by (simp add: cut_msgs_def)
  qed
  show ?thesis using s' eq rest by blast
qed

lemma of_class_strip:
  assumes "\<And>m cl. m \<in> set ms \<Longrightarrow> class_of (am_type m) = Some cl \<Longrightarrow> msg_rp_of (am_data m ! 0) = am_rp m"
  shows "of_class cl rp (map strip_msg ms) = map strip_msg (of_class cl rp ms)"
  using assms by (induction ms) (auto simp: strip_msg_def)

lemma started_ok:
  assumes inv: "session_inv p q sent inp gr xs c ps" and inp: "\<And>cl rp m. m \<in> set (inp cl rp) \<Longrightarrow> ok_msg cl rp m"
    and m: "m \<in> set (started xs @ map fst ps)" "class_of (am_type m) = Some cl"
  shows "msg_rp_of (am_data m ! 0) = am_rp m"
proof -
  have "m \<in> set (of_class cl (unat (am_rp m)) (started xs @ map fst ps))" using m by (simp add: of_class_def)
  moreover have "of_class cl (unat (am_rp m)) (started xs @ map fst ps) @ waiting p q cl (unat (am_rp m)) =
      inp cl (unat (am_rp m))" using inv by (simp add: session_inv_def)
  ultimately have "m \<in> set (inp cl (unat (am_rp m)))" by (metis UnCI set_append)
  from inp [OF this] show ?thesis by (simp add: ok_msg_def)
qed

lemma session_inv_accounts:
  assumes inv: "session_inv p q sent inp gr xs c ps" and ok: "\<And>cl rp m. m \<in> set (inp cl rp) \<Longrightarrow> ok_msg cl rp m"
  shows "\<exists>d ms. receive_all sd_consume stream_decoder0 sent = Inr (d, ms) \<and>
    (\<forall>cl rp. \<exists>inside. of_class cl rp ms @ inside @ map strip_msg (waiting p q cl rp) =
       map strip_msg (inp cl rp) \<and> (idle p \<longrightarrow> inside = []))"
proof -
  obtain d ms rest where rec: "receive_all sd_consume stream_decoder0 sent = Inr (d, ms)"
    "map strip_msg (started xs @ map fst ps) = ms @ rest" "idle p \<longrightarrow> rest = []"
    using session_received [OF inv] by blast
  have "of_class cl rp ms @ of_class cl rp rest @ map strip_msg (waiting p q cl rp) = map strip_msg (inp cl rp)" for cl rp
  proof -
    have "of_class cl rp ms @ of_class cl rp rest = of_class cl rp (map strip_msg (started xs @ map fst ps))"
      by (simp only: rec(2) of_class_simps(2))
    also have "\<dots> = map strip_msg (of_class cl rp (started xs @ map fst ps))"
      by (rule of_class_strip) (rule started_ok [OF inv ok])
    finally have "of_class cl rp ms @ of_class cl rp rest = map strip_msg (of_class cl rp (started xs @ map fst ps))" .
    moreover have "of_class cl rp (started xs @ map fst ps) @ waiting p q cl rp = inp cl rp"
      using inv by (simp add: session_inv_def)
    ultimately show ?thesis by (metis append_assoc map_append)
  qed
  then show ?thesis using rec(1,3) by (metis of_class_simps(1))
qed

lemma session_accounts:
  assumes "packer_reset n rc wc ft = Inr p0" "\<forall>i \<in> set is. queues_ok (pi_queues i)"
  shows "\<exists>p q sent d ms. packer_session is (p0, no_queues, []) = Inr (p, q, sent) \<and>
    receive_all sd_consume stream_decoder0 sent = Inr (d, ms) \<and>
    (\<forall>cl rp. \<exists>inside. of_class cl rp ms @ inside @ map strip_msg (waiting p q cl rp) =
       map strip_msg (arrived is cl rp) \<and> (idle p \<longrightarrow> inside = []))"
proof -
  obtain p q sent xs c ps where run: "packer_session is (p0, no_queues, []) = Inr (p, q, sent)"
    and inv: "session_inv p q sent (arrived is) (granted_by is) xs c ps"
    using session_run [OF session_start [OF assms(1)] assms(2)] by auto
  have "ok_msg cl rp m" if "m \<in> set (arrived is cl rp)" for cl rp m
    using that assms(2) by (auto simp: arrived_def queues_ok_def)
  from session_inv_accounts [OF inv this] run show ?thesis by blast
qed

text \<open>The granules received for a counter were granted before.\<close>

lemma credit_use_strip:
  assumes "\<And>m cl. m \<in> set ms \<Longrightarrow> class_of (am_type m) = Some cl \<Longrightarrow> msg_rp_of (am_data m ! 0) = am_rp m"
    and "\<And>m. m \<in> set ms \<Longrightarrow> class_of (am_type m) \<noteq> None \<or> kind_index m = 5" and "k < 5"
  shows "credit_use (map strip_msg ms) r k = credit_use ms r k"
  using assms(1,2)
proof (induction ms)
  case (Cons m ms)
  have "unat (am_rp (strip_msg m)) = r \<and> kind_index (strip_msg m) = k \<longleftrightarrow> unat (am_rp m) = r \<and> kind_index m = k"
    using Cons.prems [of m] assms(3) by (auto simp: strip_msg_def kind_index_def)
  moreover have "msg_len (strip_msg m) = msg_len m" by (simp add: strip_msg_def msg_len_def)
  ultimately show ?case using Cons by simp
qed simp

section \<open>Backpressure\<close>

lemma consume_candidate_frame:
  assumes "consume_candidate (m, rp) p = Inr p2"
  shows "same_output p p2"
proof -
  obtain cr where cr: "consume (fp_credits p) rp (am_type m) (credit_need m) = Inr cr"
    using assms by (auto simp: consume_candidate_def bindR_eq_Inr)
  obtain f' t where f': "pack_fragment (fp_cur p) m 0 = (f', t)" by (cases "pack_fragment (fp_cur p) m 0")
  show ?thesis
  proof (cases "t \<le> 0")
    case True
    then show ?thesis using assms by (simp add: consume_candidate_def cr f')
  next
    case False
    then show ?thesis using assms
      by (cases "t < am_granules m")
        (auto simp: consume_candidate_def cr f' Let_def same_output_def clear_slot_def split: if_splits)
  qed
qed

lemma pack_frame:
  assumes "pack_messages n p q = Inr ((p', q'), ex)"
  shows "same_output p p'"
  using assms
proof (induction n p q rule: pack_messages.induct)
  case (2 n p q)
  obtain p1 q1 where fill: "fill_staging_slots p q = (p1, q1)" by (cases "fill_staging_slots p q")
  then have s1: "same_output p p1" by (auto simp: fill_staging_slots_def Let_def same_output_def)
  show ?case
  proof (cases "remaining_granules (fp_cur p) > 0")
    case False
    then show ?thesis using 2(2) by simp
  next
    case True
    show ?thesis
    proof (cases "select_candidate p1")
      case None
      then show ?thesis using 2(2) True fill s1 by simp
    next
      case (Some cand)
      then obtain p2 where p2: "consume_candidate cand p1 = Inr p2"
        using 2(2) True fill by (cases "consume_candidate cand p1") simp_all
      then have s2: "same_output p1 p2"
        by (cases cand) (auto dest: consume_candidate_frame)
      show ?thesis
      proof (cases "fp_spill_active p2")
        case True
        then show ?thesis using 2(2) Some p2 fill s1 s2 same_output_trans [OF s1 s2]
          by (simp split: if_splits)
      next
        case False
        then have "pack_messages n p2 q1 = Inr ((p', q'), ex)" using 2(2) True Some p2 fill by simp
        then have "same_output p2 p'" using 2(1) True fill Some p2 False by simp
        then show ?thesis using s1 s2 same_output_trans by blast
      qed
    qed
  qed
qed simp

lemma pack_cycle_frame: "pack_cycle p q = Inr ((p', q'), ex) \<Longrightarrow> same_output p p'"
  by (auto simp: pack_cycle_def Let_def same_output_def dest!: pack_frame split: if_splits prod.splits)

lemma packer_holds_output:
  assumes "packer_cycle i p = Inr (p', q')" "fp_out_active p" "\<not> pi_ready i"
  shows "fp_out_active p' \<and> fp_out p' = fp_out p \<and> fp_port p' = fp_out p"
proof -
  let ?p1 = "output_handshake (pi_ready i) (drain_credit_events (pi_updates i) (pi_returns i) p)"
  obtain p2 ex where p2: "pack_cycle ?p1 (pi_queues i) = Inr ((p2, q'), ex)" "send_decision ex p2 = Inr p'"
    using assms(1) by (auto simp: packer_cycle_def bindR_eq_Inr)
  have "same_output ?p1 p2" using pack_cycle_frame [OF p2(1)] .
  then have "fp_out_active p2" "fp_out p2 = fp_out p" "fp_port p2 = fp_out p"
    using assms(2,3) by (auto simp: same_output_def output_handshake_def drain_credit_events_def)
  then show ?thesis using p2(2) by (auto simp: send_decision_def)
qed

end
