(* ===== verification/Bridge_Tx.thy ===== *)
theory Bridge_Tx
  imports Packer_Correct Msg_Codec
begin

text \<open>
  The transmit path as a whole: messages built from AXI beats, packed under credit control, handed
  over as flits and decoded again at the far side.
\<close>

section \<open>Built messages may be queued\<close>

lemma built_req_ok:
  assumes "rp < 4" "build_req ax (of_nat rp) t 3 = Inr m" "t = ReadReq \<and> cl = TxRead \<or> t = WriteReq \<and> cl = TxWrite"
  shows "ok_msg cl rp m"
proof -
  have t: "t = WriteReq \<or> t = ReadReq" using assms(3) by blast
  have m: "am_type m = t" "am_rp m = of_nat rp AND 3" "am_data m = bytes_of (req_bits ax (of_nat rp) t @ replicate 1800 False)"
    using assms(2) by (auto simp: build_req_eq)
  obtain ys where "req_bits ax (of_nat rp) t @ replicate 1800 False =
      val_bits 4 (ucast (msg_type_code t)) @ val_bits 2 (ucast (of_nat rp AND (3 :: u8))) @
      val_bits 2 (push_bit 1 0 OR (ucast (ax_lock ax) AND 1)) @ ys"
    by (simp add: req_bits_def val_bits_Suc bit_simps numeral_2_eq_2)
  note f = header_byte_fields(2) [OF this]
  have r: "rp \<in> {0, 1, 2, 3}" using assms(1) by auto
  show ?thesis
    using req_wf [OF t assms(2)] f r assms(1,3) m
    by (auto simp: ok_msg_def class_of_def msg_rp_of_def)
qed

lemma built_data_ok:
  assumes cfg: "cfg_ok cfg" and w: "wf_w cfg w" and rp: "rp < 4"
    and m: "build_write_data cfg w (of_nat rp) cfg = Inr m \<or> build_write_data_full cfg w (of_nat rp) cfg = Inr m"
  shows "ok_msg TxData rp m"
proof -
  obtain t ys where f: "am_type m = t" "t = WriteData \<or> t = WriteDataFull" "am_rp m = of_nat rp AND 3"
    "am_data m = bytes_of (data_header t (of_nat rp) cfg @ ys)" and wf: "wf_msg m"
    using m built_data_wf(1,2) [OF cfg w]
    by (elim disjE) (auto simp: build_write_data_eq [OF cfg w] build_write_data_full_eq [OF cfg w])
  have "data_header t (of_nat rp) cfg @ ys = val_bits 4 (ucast (msg_type_code t)) @
      val_bits 2 (ucast (of_nat rp AND (3 :: u8))) @ val_bits 2 (ucast (data_length_code cfg)) @ ys"
    by (simp add: data_header_def)
  note h = header_byte_fields(2) [OF this]
  have "rp \<in> {0, 1, 2, 3}" using rp by auto
  then show ?thesis using f wf h by (auto simp: ok_msg_def class_of_def msg_rp_of_def)
qed

lemma strip_fields [simp]:
  "am_type (strip_msg m) = am_type m" "am_byte_len (strip_msg m) = am_byte_len m"
  "br_start (strip_msg m) = br_start m"
  by (simp_all add: strip_msg_def br_start_def)

lemma decode_strip [simp]:
  "decode_req cfg (strip_msg m) old = decode_req cfg m old"
  "decode_write_data cfg (strip_msg m) w = decode_write_data cfg m w"
  by (simp_all add: decode_req_def decode_write_data_def Let_def cong: if_cong)

text \<open>
  What the far side sees of one queue, through a decoder \<open>D\<close> that inverts the builder: a prefix of
  what was sent, and all of it once the packer is idle and the queue is empty.
\<close>

lemma path_view:
  assumes start: "packer_reset n rc wc ft = Inr p0" "\<forall>i \<in> set is. queues_ok (pi_queues i)"
    and built: "list_all2 R xs (arrived is cl rp)" and inv: "\<And>x m. R x m \<Longrightarrow> D (strip_msg m) = E x"
  shows "\<exists>p q sent d ms k. packer_session is (p0, no_queues, []) = Inr (p, q, sent) \<and>
    receive_all sd_consume stream_decoder0 sent = Inr (d, ms) \<and>
    map D (of_class cl rp ms) = map E (take k xs) \<and>
    (idle p \<and> waiting p q cl rp = [] \<longrightarrow> k = length xs)"
proof -
  obtain p q sent d ms inside where s: "packer_session is (p0, no_queues, []) = Inr (p, q, sent)"
    "receive_all sd_consume stream_decoder0 sent = Inr (d, ms)"
    "of_class cl rp ms @ inside @ map strip_msg (waiting p q cl rp) = map strip_msg (arrived is cl rp)"
    "idle p \<longrightarrow> inside = []"
    using session_accounts [OF start] by metis
  let ?k = "length (of_class cl rp ms)"
  have "map D (map strip_msg (arrived is cl rp)) = map E xs"
    using built inv by (induction rule: list_all2_induct) simp_all
  then have "map D (of_class cl rp ms) @ map D (inside @ map strip_msg (waiting p q cl rp)) = map E xs"
    unfolding s(3) [symmetric] by simp
  then have pre: "map D (of_class cl rp ms) = take ?k (map E xs)"
    by (metis append_eq_conv_conj length_map)
  have "?k = length xs" if "idle p \<and> waiting p q cl rp = []"
    using that s(3,4) list_all2_lengthD [OF built] by (metis append.right_neutral length_map list.simps(8))
  with s(1,2) pre show ?thesis by (auto simp: take_map)
qed

section \<open>Properties\<close>

text \<open>
  C1. The packer never trips an assertion, and no message is lost, duplicated, altered or reordered:
  after any session from reset the flits handed over decode without error, and for every class and
  plane the decoded messages, those still in a flit, and those still waiting make up exactly what
  arrived; when the packer is idle none is left in a flit.
\<close>

theorem packer_delivers:
  assumes "packer_reset n rc wc ft = Inr p0" "\<forall>i \<in> set is. queues_ok (pi_queues i)"
  shows "\<exists>p q sent d ms. packer_session is (p0, no_queues, []) = Inr (p, q, sent) \<and>
    receive_all sd_consume stream_decoder0 sent = Inr (d, ms) \<and>
    (\<forall>cl rp. \<exists>inside. of_class cl rp ms @ inside @ map strip_msg (waiting p q cl rp) =
       map strip_msg (arrived is cl rp) \<and> (idle p \<longrightarrow> inside = []))"
  using assms by (rule session_accounts)

text \<open>One edge at which a read request and enough credit for it arrive.\<close>

definition sample_ax :: ax_channel where
  "sample_ax = (ax_channel0 B256)\<lparr>ax_id := 7, ax_addr := 0x1000, ax_len := 3\<rparr>"

definition sample_w :: w_channel where
  "sample_w = (w_channel0 B256)\<lparr>w_data := replicate 32 0xA5, w_strb := replicate 32 0xFF\<rparr>"

definition right_list :: "'a result \<Rightarrow> 'a list" where
  "right_list r = (case r of Inl _ \<Rightarrow> [] | Inr x \<Rightarrow> [x])"

definition sample_input :: packer_input where
  "sample_input = \<lparr>pi_queues = \<lparr>
       pq_rreq = (\<lambda>rp. if rp = 0 then right_list (build_read_req sample_ax 0) else []),
       pq_wreq = (\<lambda>rp. if rp = 0 then right_list (build_write_req sample_ax 0) else []),
       pq_wdata = (\<lambda>rp. if rp = 0 then right_list (build_write_data_full B256 sample_w 0 B256) else [])\<rparr>,
     pi_updates = [\<lparr>cu_rp = 0, cu_kind = CkReadReq, cu_granules = 8\<rparr>], pi_returns = [], pi_ready = True\<rparr>"

lemma sample_w_ok: "wf_w B256 sample_w" "cfg_ok B256" "is_full_strobe B256 sample_w"
  by (auto simp: wf_w_def sample_w_def w_channel0_def AXI_DATA_BYTES_def AXI_STRB_WIDTH_def dlength_to_bytes_def
      cfg_ok_def is_full_strobe_def list_all_iff)

lemma sample_builds:
  obtains m1 m2 m3 where "build_read_req sample_ax 0 = Inr m1" "build_write_req sample_ax 0 = Inr m2"
    "build_write_data_full B256 sample_w 0 B256 = Inr m3"
  using that build_write_data_full_eq [OF sample_w_ok(2,1)]
  by (simp add: build_read_req_def build_write_req_def build_req_eq)

lemma sample_input_ok: "queues_ok (pi_queues sample_input)"
proof -
  obtain m1 m2 m3 where m: "build_read_req sample_ax 0 = Inr m1" "build_write_req sample_ax 0 = Inr m2"
    "build_write_data_full B256 sample_w 0 B256 = Inr m3" by (rule sample_builds)
  then have "ok_msg TxRead 0 m1" "ok_msg TxWrite 0 m2" "ok_msg TxData 0 m3"
    using built_req_ok [of 0 sample_ax ReadReq m1 TxRead] built_req_ok [of 0 sample_ax WriteReq m2 TxWrite]
      built_data_ok [OF sample_w_ok(2,1), of 0 m3]
    by (simp_all add: build_read_req_def build_write_req_def RREQ_GRANULES_def WREQ_GRANULES_def)
  with m show ?thesis
    by (auto simp: queues_ok_def sample_input_def queue_def right_list_def split: tx_class.splits)
qed

lemma sample_reset: "\<exists>p. packer_reset 1 100 10 0 = Inr p"
  by (simp add: packer_reset_def cm_make_initiator_def cm_make_def MAX_RESOURCE_PLANES_def)

theorem packer_delivers_witness:
  "\<exists>p0 p q sent d ms inside. packer_reset 1 100 10 0 = Inr p0 \<and>
     packer_session [sample_input, sample_input] (p0, no_queues, []) = Inr (p, q, sent) \<and>
     receive_all sd_consume stream_decoder0 sent = Inr (d, ms) \<and>
     of_class TxRead 0 ms @ inside @ map strip_msg (waiting p q TxRead 0) =
       map strip_msg (arrived [sample_input, sample_input] TxRead 0)"
proof -
  obtain p0 where p0: "packer_reset 1 100 10 0 = Inr p0" using sample_reset by blast
  show ?thesis
    using packer_delivers [OF p0, of "[sample_input, sample_input]"] sample_input_ok p0 by fastforce
qed

text \<open>
  C19. End to end for read requests: if the messages queued for a plane are built from the address
  beats \<open>axs\<close>, then what the far side decodes for that plane is a prefix of exactly these beats, in
  order, and all of them once the packer is idle and the queue is drained.
\<close>

theorem read_requests_arrive:
  assumes "packer_reset n rc wc ft = Inr p0" "\<forall>i \<in> set is. queues_ok (pi_queues i)"
    and "list_all2 (\<lambda>ax m. build_read_req ax (of_nat rp) = Inr m) axs (arrived is TxRead rp)"
  shows "\<exists>p q sent d ms k. packer_session is (p0, no_queues, []) = Inr (p, q, sent) \<and>
    receive_all sd_consume stream_decoder0 sent = Inr (d, ms) \<and>
    map (\<lambda>m. decode_req cfg m old) (of_class TxRead rp ms) = map (\<lambda>ax. Inr (True, req_fields ax)) (take k axs) \<and>
    (idle p \<and> waiting p q TxRead rp = [] \<longrightarrow> k = length axs)"
  using assms by (rule path_view) (auto simp: build_read_req_def RREQ_GRANULES_def intro: decode_build_req)

theorem read_requests_arrive_witness:
  "\<exists>p0 p q sent d ms k. packer_reset 1 100 10 0 = Inr p0 \<and>
     packer_session [sample_input] (p0, no_queues, []) = Inr (p, q, sent) \<and>
     receive_all sd_consume stream_decoder0 sent = Inr (d, ms) \<and>
     map (\<lambda>m. decode_req B256 m sample_ax) (of_class TxRead 0 ms) =
       map (\<lambda>ax. Inr (True, req_fields ax)) (take k [sample_ax])"
proof -
  obtain p0 where p0: "packer_reset 1 100 10 0 = Inr p0" using sample_reset by blast
  have "list_all2 (\<lambda>ax m. build_read_req ax (of_nat 0) = Inr m) [sample_ax] (arrived [sample_input] TxRead 0)"
    by (simp add: arrived_def sample_input_def queue_def right_list_def build_read_req_def build_req_eq)
  from read_requests_arrive [OF p0 _ this, of B256 sample_ax] sample_input_ok p0 show ?thesis by fastforce
qed

text \<open>
  C20. End to end for writes: the address beats and the data beats of a plane arrive as they were
  sent, each queue in its own order; a data beat may use either message form.
\<close>

theorem writes_arrive:
  assumes "packer_reset n rc wc ft = Inr p0" "\<forall>i \<in> set is. queues_ok (pi_queues i)" "cfg_ok cfg"
    and "list_all2 (\<lambda>ax m. build_write_req ax (of_nat rp) = Inr m) axs (arrived is TxWrite rp)"
    and "list_all2 (\<lambda>w m. wf_w cfg w \<and> (if is_full_strobe cfg w
        then build_write_data_full cfg w (of_nat rp) cfg = Inr m
        else build_write_data cfg w (of_nat rp) cfg = Inr m)) ws (arrived is TxData rp)"
  shows "\<exists>p q sent d ms j k. packer_session is (p0, no_queues, []) = Inr (p, q, sent) \<and>
    receive_all sd_consume stream_decoder0 sent = Inr (d, ms) \<and>
    map (\<lambda>m. decode_req cfg m old) (of_class TxWrite rp ms) = map (\<lambda>ax. Inr (True, req_fields ax)) (take j axs) \<and>
    map (\<lambda>m. decode_write_data cfg m w0) (of_class TxData rp ms) =
      map (\<lambda>w. Inr (True, \<lparr>w_valid = False, w_ready = False, w_data = w_data w,
        w_strb = map (\<lambda>b. if b = 0 then 0 else 0xFF) (w_strb w), w_last = False, w_user = w_user w\<rparr>)) (take k ws) \<and>
    (idle p \<and> waiting p q TxWrite rp = [] \<longrightarrow> j = length axs) \<and>
    (idle p \<and> waiting p q TxData rp = [] \<longrightarrow> k = length ws)"
proof -
  have full: "map (\<lambda>b. if b = 0 then 0 else 0xFF) (w_strb w) = replicate (AXI_STRB_WIDTH cfg) (0xFF :: u8)"
    if "is_full_strobe cfg w" "wf_w cfg w" for w
    using that by (intro nth_equalityI) (auto simp: is_full_strobe_def wf_w_def list_all_iff)
  have "decode_write_data cfg (strip_msg m) w0 = Inr (True, \<lparr>w_valid = False, w_ready = False, w_data = w_data w,
      w_strb = map (\<lambda>b. if b = 0 then 0 else 0xFF) (w_strb w), w_last = False, w_user = w_user w\<rparr>)"
    if "wf_w cfg w \<and> (if is_full_strobe cfg w then build_write_data_full cfg w (of_nat rp) cfg = Inr m
        else build_write_data cfg w (of_nat rp) cfg = Inr m)" for w m
    using that decode_build_write_data [OF assms(3), of w "of_nat rp" m w0]
      decode_build_write_data_full [OF assms(3), of w "of_nat rp" m w0] full [of w]
    by (auto split: if_splits)
  note data = path_view [where E = "\<lambda>w. Inr (True, \<lparr>w_valid = False, w_ready = False, w_data = w_data w,
      w_strb = map (\<lambda>b. if b = 0 then 0 else 0xFF) (w_strb w), w_last = False, w_user = w_user w\<rparr>)"
      and D = "\<lambda>m. decode_write_data cfg m w0", OF assms(1,2,5) this]
  have "decode_req cfg (strip_msg m) old = Inr (True, req_fields ax)" if "build_write_req ax (of_nat rp) = Inr m" for ax m
    using that by (auto simp: build_write_req_def WREQ_GRANULES_def intro: decode_build_req)
  note reqs = path_view [where E = "\<lambda>ax. Inr (True, req_fields ax)" and D = "\<lambda>m. decode_req cfg m old",
      OF assms(1,2,4) this]
  from reqs obtain p q sent d ms j where
    r: "packer_session is (p0, no_queues, []) = Inr (p, q, sent)"
    "receive_all sd_consume stream_decoder0 sent = Inr (d, ms)"
    "map (\<lambda>m. decode_req cfg m old) (of_class TxWrite rp ms) = map (\<lambda>ax. Inr (True, req_fields ax)) (take j axs)"
    "idle p \<and> waiting p q TxWrite rp = [] \<longrightarrow> j = length axs" by blast
  from data obtain p' q' sent' d' ms' k where
    t: "packer_session is (p0, no_queues, []) = Inr (p', q', sent')"
    "receive_all sd_consume stream_decoder0 sent' = Inr (d', ms')"
    "map (\<lambda>m. decode_write_data cfg m w0) (of_class TxData rp ms') =
      map (\<lambda>w. Inr (True, \<lparr>w_valid = False, w_ready = False, w_data = w_data w,
        w_strb = map (\<lambda>b. if b = 0 then 0 else 0xFF) (w_strb w), w_last = False, w_user = w_user w\<rparr>)) (take k ws)"
    "idle p' \<and> waiting p' q' TxData rp = [] \<longrightarrow> k = length ws" by blast
  have same: "p' = p" "q' = q" "sent' = sent" using r(1) t(1) by auto
  then have "ms' = ms" using r(2) t(2) by simp
  with same t(3,4) r show ?thesis by blast
qed

theorem writes_arrive_witness:
  "\<exists>p0 p q sent d ms j k. packer_reset 1 100 10 0 = Inr p0 \<and>
     packer_session [sample_input] (p0, no_queues, []) = Inr (p, q, sent) \<and>
     receive_all sd_consume stream_decoder0 sent = Inr (d, ms) \<and>
     map (\<lambda>m. decode_req B256 m sample_ax) (of_class TxWrite 0 ms) =
       map (\<lambda>ax. Inr (True, req_fields ax)) (take j [sample_ax]) \<and>
     map (\<lambda>m. decode_write_data B256 m sample_w) (of_class TxData 0 ms) =
       map (\<lambda>w. Inr (True, w)) (take k [sample_w])"
proof -
  obtain p0 where p0: "packer_reset 1 100 10 0 = Inr p0" using sample_reset by blast
  obtain m1 m2 m3 where m: "build_read_req sample_ax 0 = Inr m1" "build_write_req sample_ax 0 = Inr m2"
    "build_write_data_full B256 sample_w 0 B256 = Inr m3" by (rule sample_builds)
  have "arrived [sample_input] TxWrite 0 = [m2]" "arrived [sample_input] TxData 0 = [m3]"
    using m by (simp_all add: arrived_def sample_input_def queue_def right_list_def)
  moreover have "\<lparr>w_valid = False, w_ready = False, w_data = w_data sample_w,
      w_strb = map (\<lambda>b. if b = 0 then 0 else 0xFF) (w_strb sample_w), w_last = False, w_user = w_user sample_w\<rparr> = sample_w"
    by (simp add: sample_w_def w_channel0_def)
  ultimately have e: "map (\<lambda>w. Inr (True, \<lparr>w_valid = False, w_ready = False, w_data = w_data w,
      w_strb = map (\<lambda>b. if b = 0 then 0 else 0xFF) (w_strb w), w_last = False, w_user = w_user w\<rparr>))
      (take k [sample_w]) = map (\<lambda>w. Inr (True, w)) (take k [sample_w])"
    and arr: "arrived [sample_input] TxWrite 0 = [m2]" "arrived [sample_input] TxData 0 = [m3]" for k
    by (cases k; simp)+
  have in_ok: "\<forall>i \<in> set [sample_input]. queues_ok (pi_queues i)" using sample_input_ok by simp
  have aw: "list_all2 (\<lambda>ax m. build_write_req ax (of_nat 0) = Inr m) [sample_ax] (arrived [sample_input] TxWrite 0)"
    using arr m by simp
  have wd: "list_all2 (\<lambda>w m. wf_w B256 w \<and> (if is_full_strobe B256 w
        then build_write_data_full B256 w (of_nat 0) B256 = Inr m
        else build_write_data B256 w (of_nat 0) B256 = Inr m)) [sample_w] (arrived [sample_input] TxData 0)"
    using arr m sample_w_ok by simp
  from writes_arrive [OF p0 in_ok sample_w_ok(2) aw wd, of sample_ax sample_w] p0 show ?thesis
    unfolding e by blast
qed

text \<open>
  Output stability: while a latched flit is not taken, the packer keeps it latched and on its
  port unchanged, whatever else the edge does.
\<close>

theorem packer_holds_flit:
  assumes "packer_cycle i p = Inr (p', q')" "fp_out_active p" "\<not> pi_ready i"
  shows "fp_out_active p' \<and> fp_out p' = fp_out p \<and> fp_port p' = fp_out p"
  using assms by (rule packer_holds_output)

theorem packer_holds_flit_witness:
  "\<exists>p i p' q'. fp_out_active p \<and> \<not> pi_ready i \<and> packer_cycle i p = Inr (p', q') \<and> fp_port p' = fp_out p"
proof -
  obtain p0 where p0: "packer_reset 1 100 10 0 = Inr p0" using sample_reset by blast
  let ?p = "p0\<lparr>fp_out_active := True, fp_out := flit_transfer_of aou_flit0, fp_port := flit_transfer_of aou_flit0\<rparr>"
  let ?i = "sample_input\<lparr>pi_ready := False\<rparr>"
  have "session_inv p0 no_queues [] (\<lambda>_ _. []) (\<lambda>_ _. 0) [] None []" by (rule session_start [OF p0])
  then have "session_inv ?p no_queues [] (\<lambda>_ _. []) (\<lambda>_ _. 0) [(aou_flit0, [])] None []"
    using layout_empty by (simp add: session_inv_def latched_def flit_transfer_of_def cut_after_def
        waiting_def packer_ok_def aou_flit0_def)
  moreover have "queues_ok (pi_queues ?i)" using sample_input_ok by simp
  ultimately obtain p' q' where c: "packer_cycle (?i\<lparr>pi_queues := join_queues no_queues (pi_queues ?i)\<rparr>) ?p = Inr (p', q')"
    using session_cycle [of ?p no_queues "[]" "\<lambda>_ _. []" "\<lambda>_ _. 0" _ None "[]" ?i] by blast
  have "fp_out_active ?p" "\<not> pi_ready (?i\<lparr>pi_queues := join_queues no_queues (pi_queues ?i)\<rparr>)" by simp_all
  with packer_holds_flit [OF c this] c show ?thesis by blast
qed

end
