(* ===== verification/Bridge_Correct.thy ===== *)
theory Bridge_Correct
  imports Axi_Bridge Bridge_Tx
begin

text \<open>
  The bridge as a whole. What each channel thread does at an edge is stated once; the invariant
  joins the reservation of FIFO places, the session invariants of packer and unpacker and the
  order of write routes; every edge keeps it or ends with a protocol report.
\<close>

section \<open>The channel threads\<close>

text \<open>
  A step either stops with a protocol report, and then the fault \<open>F\<close> of a peer is present, or it
  ends in a state with the property.
\<close>

definition protocol_error :: "failure \<Rightarrow> bool" where
  "protocol_error e \<longleftrightarrow> (\<exists>t. e = ReportFatal t \<or> e = ReportError t)"

lemma protocol_error_simps [simp]: "protocol_error (ReportFatal t)" "protocol_error (ReportError t)"
  by (simp_all add: protocol_error_def)

definition runs :: "bool \<Rightarrow> 'a result \<Rightarrow> ('a \<Rightarrow> bool) \<Rightarrow> bool" where
  "runs F m Q = (case m of Inl e \<Rightarrow> protocol_error e \<and> F | Inr x \<Rightarrow> Q x)"

lemma runs_simps [simp]: "runs F (Inr x) Q = Q x" "runs F (Inl e) Q = (protocol_error e \<and> F)"
  by (simp_all add: runs_def)

lemma runs_bind: "runs F m Q \<Longrightarrow> (\<And>x. Q x \<Longrightarrow> runs F (f x) R) \<Longrightarrow> runs F (bindR m f) R"
  by (cases m) simp_all

lemma runs_weaken: "runs F m Q \<Longrightarrow> (F \<Longrightarrow> F') \<Longrightarrow> (\<And>x. Q x \<Longrightarrow> R x) \<Longrightarrow> runs F' m R"
  by (cases m) simp_all

lemma runs_bind_tuple:
  "runs F m (\<lambda>(a, b, c). c = C \<and> Q3 a b) \<Longrightarrow> (\<And>a b. Q3 a b \<Longrightarrow> runs F (f3 a b C) R) \<Longrightarrow>
     runs F (bindR m (\<lambda>(a, b, c). f3 a b c)) R"
  "runs F m' (\<lambda>(a, b, c, d). Q4 a b c d) \<Longrightarrow> (\<And>a b c d. Q4 a b c d \<Longrightarrow> runs F (f4 a b c d) R) \<Longrightarrow>
     runs F (bindR m' (\<lambda>(a, b, c, d). f4 a b c d)) R"
  "runs F m'' (\<lambda>((a, b), c). Qu a b c) \<Longrightarrow> (\<And>a b c. Qu a b c \<Longrightarrow> runs F (fu a b c) R) \<Longrightarrow>
     runs F (bindR m'' (\<lambda>((a, b), c). fu a b c)) R"
  by (auto intro: runs_bind)

lemmas runs_bind3 = runs_bind_tuple(1) and runs_bind4 = runs_bind_tuple(2) and runs_bindU = runs_bind_tuple(3)

text \<open>The faults of the peers: what a report blames.\<close>

definition request_fault :: "data_length \<Rightarrow> bool \<Rightarrow> bool \<Rightarrow> ax_channel \<Rightarrow> bool" where
  "request_fault cfg ready valid ax \<longleftrightarrow> ready \<and> valid \<and> axi_request_error cfg ax \<noteq> None"

definition wlast_fault :: "w_thread \<Rightarrow> bool \<Rightarrow> w_channel \<Rightarrow> bool" where
  "wlast_fault t valid w \<longleftrightarrow> wt_ready t \<and> valid \<and> \<not> axi_wlast_matches (wr_beats_remaining (wt_route t)) (w_last w)"

definition wresp_fault :: "nat \<Rightarrow> (nat \<Rightarrow> aou_message list) \<Rightarrow> bool" where
  "wresp_fault n q \<longleftrightarrow> (\<exists>rp < n. q rp \<noteq> [] \<and> (\<exists>b. decode_write_resp (hd (q rp)) b_channel0 = Inr (False, b)))"

definition rdata_fault :: "data_length \<Rightarrow> nat \<Rightarrow> (nat \<Rightarrow> aou_message list) \<Rightarrow> bool" where
  "rdata_fault cfg n q \<longleftrightarrow> (\<exists>rp < n. q rp \<noteq> [] \<and> (\<exists>r. decode_read_data cfg (hd (q rp)) (r_channel0 cfg) = Inr (False, r)))"

definition flit_fault :: "flit_unpacker \<Rightarrow> flit_transfer \<Rightarrow> bool" where
  "flit_fault u t \<longleftrightarrow> fu_ready u \<and> ft_valid t \<and>
     (fl_fdid (ft_flit t) \<noteq> 0 \<or> (\<exists>d e. sd_consume (fu_decoder u) (ft_flit t) = (d, Inl e)))"

lemmas fault_defs = request_fault_def wlast_fault_def wresp_fault_def rdata_fault_def flit_fault_def

text \<open>The plane of a request and the messages the threads build.\<close>

definition plane_of :: "nat \<Rightarrow> ax_channel \<Rightarrow> nat" where
  "plane_of n ax = unat (ax_qos ax) mod n"

definition read_msg :: "nat \<Rightarrow> ax_channel \<Rightarrow> aou_message" where
  "read_msg rp ax = projr (build_read_req ax (of_nat rp))"

definition write_msg :: "nat \<Rightarrow> ax_channel \<Rightarrow> aou_message" where
  "write_msg rp ax = projr (build_write_req ax (of_nat rp))"

definition data_msg :: "data_length \<Rightarrow> nat \<Rightarrow> w_channel \<Rightarrow> aou_message" where
  "data_msg cfg rp w = projr (if is_full_strobe cfg w then build_write_data_full cfg w (of_nat rp) cfg
     else build_write_data cfg w (of_nat rp) cfg)"

lemma built:
  "build_read_req ax (of_nat rp) = Inr (read_msg rp ax)" "build_write_req ax (of_nat rp) = Inr (write_msg rp ax)"
  by (simp_all add: read_msg_def write_msg_def build_read_req_def build_write_req_def build_req_eq)

lemma built_data:
  assumes "cfg_ok cfg" "wf_w cfg w"
  shows "(if is_full_strobe cfg w then build_write_data_full cfg w (of_nat rp) cfg
     else build_write_data cfg w (of_nat rp) cfg) = Inr (data_msg cfg rp w)"
  using assms by (simp add: data_msg_def build_write_data_full_eq build_write_data_eq)

lemma messages_ok:
  "rp < 4 \<Longrightarrow> ok_msg TxRead rp (read_msg rp ax)" "rp < 4 \<Longrightarrow> ok_msg TxWrite rp (write_msg rp ax)"
  "rp < 4 \<Longrightarrow> cfg_ok cfg \<Longrightarrow> wf_w cfg w \<Longrightarrow> ok_msg TxData rp (data_msg cfg rp w)"
proof -
  show "rp < 4 \<Longrightarrow> ok_msg TxRead rp (read_msg rp ax)"
    using built_req_ok [of rp ax ReadReq _ TxRead] built(1) by (simp add: build_read_req_def granule_defs)
  show "rp < 4 \<Longrightarrow> ok_msg TxWrite rp (write_msg rp ax)"
    using built_req_ok [of rp ax WriteReq _ TxWrite] built(2) by (simp add: build_write_req_def granule_defs)
  show "rp < 4 \<Longrightarrow> cfg_ok cfg \<Longrightarrow> wf_w cfg w \<Longrightarrow> ok_msg TxData rp (data_msg cfg rp w)"
    using built_data_ok built_data by (metis (full_types))
qed

lemma plane_less: "0 < n \<Longrightarrow> plane_of n ax < n"
  by (simp add: plane_of_def)

lemma map_qos_plane: "0 < n \<Longrightarrow> n \<le> 4 \<Longrightarrow> map_qos_to_rp n (ax_qos ax) = of_nat (plane_of n ax) \<and> unat (of_nat (plane_of n ax) :: u8) = plane_of n ax"
proof -
  assume n: "0 < n" "n \<le> 4"
  then have "plane_of n ax < 4" using plane_less [of n ax] by simp
  then have "plane_of n ax \<in> {0, 1, 2, 3}" by auto
  then show ?thesis by (auto simp: map_qos_to_rp_def plane_of_def)
qed

lemma aw_step_ok:
  assumes n: "0 < n" "n \<le> 4" and room: "ready \<Longrightarrow> 0 < route_free \<and> (\<forall>rp < n. 0 < wreq_free rp)"
  assumes push_def: "push = (if ready \<and> valid then Some (plane_of n aw, write_msg (plane_of n aw) aw,
      \<lparr>wr_rp = of_nat (plane_of n aw), wr_beats_remaining = unat (ax_len aw) + 1\<rparr>) else None)"
  shows "runs (request_fault cfg ready valid aw) (aw_step cfg n valid aw wreq_free route_free (ready, g)) (\<lambda>(ready', g', p). p = push \<and>
       (ready' \<longrightarrow> 0 < route_free - (if push = None then 0 else 1) \<and> (\<forall>rp < n. 0 < wreq_free rp - used_at push rp)))"
proof (cases "ready \<and> valid")
  case True
  show ?thesis
  proof (cases "axi_request_error cfg aw")
    case None
    note q = map_qos_plane [OF n, of aw]
    show ?thesis using True None room plane_less [OF n(1), of aw]
      by (auto simp: aw_step_def Let_def q built push_def list_all_iff)
  qed (use True in \<open>simp add: aw_step_def request_fault_def\<close>)
qed (auto simp: aw_step_def push_def list_all_iff)

lemma ar_step_ok:
  assumes n: "0 < n" "n \<le> 4" and room: "ready \<Longrightarrow> \<forall>rp < n. 0 < rreq_free rp"
  assumes push_def: "push = (if ready \<and> valid then Some (plane_of n ar, read_msg (plane_of n ar) ar) else None)"
  shows "runs (request_fault cfg ready valid ar) (ar_step cfg n valid ar rreq_free (ready, g)) (\<lambda>(ready', g', p). p = push \<and>
       (ready' \<longrightarrow> (\<forall>rp < n. 0 < rreq_free rp - used_at push rp)))"
proof (cases "ready \<and> valid")
  case True
  show ?thesis
  proof (cases "axi_request_error cfg ar")
    case None
    note q = map_qos_plane [OF n, of ar]
    show ?thesis using True None room plane_less [OF n(1), of ar]
      by (auto simp: ar_step_def Let_def q built push_def list_all_iff)
  qed (use True in \<open>simp add: ar_step_def request_fault_def\<close>)
qed (auto simp: ar_step_def push_def list_all_iff)

text \<open>The routes still to be served, as one plane for every beat.\<close>

definition route_beats :: "write_route \<Rightarrow> nat list" where
  "route_beats r = replicate (wr_beats_remaining r) (unat (wr_rp r))"

definition open_beats :: "w_thread \<Rightarrow> nat list" where
  "open_beats t = (if wt_have_route t then route_beats (wt_route t) else [])"

lemma w_step_ok:
  assumes cfg: "cfg_ok cfg" and w: "valid \<Longrightarrow> wf_w cfg w"
    and room: "wt_ready t \<Longrightarrow> wt_have_route t \<and> 0 < wdata_free (unat (wr_rp (wt_route t)))"
    and small: "unat (wr_rp (wt_route t)) < 4"
  assumes push_def: "push = (if wt_ready t \<and> valid
      then Some (unat (wr_rp (wt_route t)), data_msg cfg (unat (wr_rp (wt_route t))) w) else None)"
  shows "runs (wlast_fault t valid w) (w_step cfg valid w wdata_free routes t) (\<lambda>(t', k, p). p = push \<and> k \<le> length routes \<and>
       (wt_ready t' \<longrightarrow> wt_have_route t' \<and> 0 < wdata_free (unat (wr_rp (wt_route t'))) - used_at push (unat (wr_rp (wt_route t')))) \<and>
       (wt_route t' = hd routes \<and> k = 1 \<or> wr_rp (wt_route t') = wr_rp (wt_route t)) \<and>
       (case push of None \<Rightarrow> [] | Some (rp, _) \<Rightarrow> [rp]) @ open_beats t' @ concat (map route_beats (drop k routes)) =
         open_beats t @ concat (map route_beats routes))"
proof (cases "wt_ready t \<and> valid")
  case True
  have rp: "of_nat (unat (wr_rp (wt_route t))) = wr_rp (wt_route t)" by simp
  note b = built_data [OF cfg w, of "unat (wr_rp (wt_route t))", unfolded rp]
  show ?thesis
  proof (cases "axi_wlast_matches (wr_beats_remaining (wt_route t)) (w_last w)")
    case wl: True
    then obtain j where j: "wr_beats_remaining (wt_route t) = Suc j" by (cases "wr_beats_remaining (wt_route t)") (auto simp: axi_wlast_matches_def)
    have beats: "open_beats t = unat (wr_rp (wt_route t)) # replicate j (unat (wr_rp (wt_route t)))"
      using room True j by (simp add: open_beats_def route_beats_def)
    show ?thesis using True wl b room j beats
      by (cases routes) (auto simp: w_step_def Let_def push_def open_beats_def route_beats_def)
  qed (use True in \<open>simp add: w_step_def wlast_fault_def\<close>)
next
  case False
  then show ?thesis by (cases routes) (auto simp: w_step_def Let_def push_def open_beats_def)
qed

lemma find_rotation:
  assumes "find P (rp_rotation s n) = Some rp"
  shows "P rp \<and> rp < n"
proof -
  have "rp \<in> set (rp_rotation s n) \<and> P rp" using assms by (auto simp: find_Some_iff)
  then show ?thesis using rp_rotation_bound [of n rp s] by (cases "n = 0") (auto simp: rp_rotation_def)
qed

text \<open>A response thread holds at most one message; an edge may finish it and take the next.\<close>

definition b_held :: "b_thread \<Rightarrow> aou_message list" where
  "b_held t = (if bt_active t then [bt_msg t] else [])"

definition r_held :: "r_thread \<Rightarrow> aou_message list" where
  "r_held t = (if rt_active t then [rt_msg t] else [])"

definition popped :: "nat option \<Rightarrow> (nat \<Rightarrow> 'a list) \<Rightarrow> 'a list" where
  "popped p q = (case p of None \<Rightarrow> [] | Some rp \<Rightarrow> [hd (q rp)])"

lemma b_step_ok:
  assumes "bt_active t \<Longrightarrow> 0 < return_free"
  shows "runs (wresp_fault n wresp) (b_step n ready wresp return_free (t, g)) (\<lambda>(t', g', pop, ret). length ret \<le> 1 \<and>
       (ret \<noteq> [] \<longrightarrow> 0 < return_free) \<and>
       (case pop of None \<Rightarrow> True | Some rp \<Rightarrow> rp < n \<and> wresp rp \<noteq> []) \<and>
       (if bt_active t \<and> ready then [bt_msg t] else []) @ b_held t' = b_held t @ popped pop wresp)"
proof -
  define t1 where "t1 = (if bt_active t \<and> ready then t\<lparr>bt_active := False\<rparr> else t)"
  define g1 where "g1 = (if bt_active t \<and> ready then og_retire (bt_id t) g else g)"
  define ret where "ret = (if bt_active t \<and> ready
    then [\<lparr>cu_rp = unat (am_rp (bt_msg t)), cu_kind = CkWriteResp, cu_granules = credit_need (bt_msg t)\<rparr>] else [])"
  have acc: "(if bt_active t \<and> ready
            then if return_free = 0 then Inl (AssertFailed ''ok'')
              else Inr (t\<lparr>bt_active := False\<rparr>, og_retire (bt_id t) g,
                [\<lparr>cu_rp = unat (am_rp (bt_msg t)), cu_kind = CkWriteResp, cu_granules = credit_need (bt_msg t)\<rparr>])
            else Inr (t, g, [])) = Inr (t1, g1, ret)"
    using assms by (simp add: t1_def g1_def ret_def)
  have run: "b_step n ready wresp return_free (t, g) =
      (if bt_active t1 then Inr (t1, g1, None, ret)
       else case find (\<lambda>rp. wresp rp \<noteq> []) (rp_rotation (bt_next_rp t1) n) of
              None \<Rightarrow> Inr (t1, g1, None, ret)
            | Some rp \<Rightarrow> let msg = hd (wresp rp) in
                bindR (decode_write_resp msg b_channel0) (\<lambda>(ok, b).
                  if \<not> ok then Inl (ReportError ''Axi2Flit'')
                  else Inr (t1\<lparr>bt_active := True, bt_msg := msg, bt_id := b_id b, bt_ch := b,
                              bt_next_rp := (rp + 1) mod n\<rparr>, g1, Some rp, ret)))"
    unfolding b_step_def prod.case acc bindR_Inr by (rule refl)
  have len: "length ret \<le> 1" "ret \<noteq> [] \<longrightarrow> 0 < return_free" using assms by (auto simp: ret_def)
  have held: "(if bt_active t \<and> ready then [bt_msg t] else []) @ b_held t1 = b_held t" by (simp add: b_held_def t1_def)
  show ?thesis
  proof (cases "bt_active t1 \<or> find (\<lambda>rp. wresp rp \<noteq> []) (rp_rotation (bt_next_rp t1) n) = None")
    case True
    then have "b_step n ready wresp return_free (t, g) = Inr (t1, g1, None, ret)" using run by auto
    then show ?thesis using len held by (auto simp: popped_def)
  next
    case False
    then obtain rp where off: "\<not> bt_active t1" and rp: "find (\<lambda>rp. wresp rp \<noteq> []) (rp_rotation (bt_next_rp t1) n) = Some rp" by auto
    obtain ok b where d: "decode_write_resp (hd (wresp rp)) b_channel0 = Inr (ok, b)" using decode_write_resp_total by blast
    show ?thesis using run off rp d find_rotation [OF rp] len held
      by (cases ok) (auto simp: popped_def b_held_def wresp_fault_def)
  qed
qed

lemma r_step_ok:
  assumes "rt_active t \<Longrightarrow> 0 < return_free"
  shows "runs (rdata_fault cfg n rdata) (r_step cfg n ready rdata return_free (t, g)) (\<lambda>(t', g', pop, ret). length ret \<le> 1 \<and>
       (ret \<noteq> [] \<longrightarrow> 0 < return_free) \<and>
       (case pop of None \<Rightarrow> True | Some rp \<Rightarrow> rp < n \<and> rdata rp \<noteq> []) \<and>
       (if rt_active t \<and> ready then [rt_msg t] else []) @ r_held t' = r_held t @ popped pop rdata)"
proof -
  define t1 where "t1 = (if rt_active t \<and> ready then t\<lparr>rt_active := False\<rparr> else t)"
  define g1 where "g1 = (if rt_active t \<and> ready then if rt_last t then og_retire (rt_id t) g else g else g)"
  define ret where "ret = (if rt_active t \<and> ready
    then [\<lparr>cu_rp = unat (am_rp (rt_msg t)), cu_kind = CkReadData, cu_granules = credit_need (rt_msg t)\<rparr>] else [])"
  have acc: "(if rt_active t \<and> ready
            then if return_free = 0 then Inl (AssertFailed ''ok'')
              else Inr (t\<lparr>rt_active := False\<rparr>, if rt_last t then og_retire (rt_id t) g else g,
                [\<lparr>cu_rp = unat (am_rp (rt_msg t)), cu_kind = CkReadData, cu_granules = credit_need (rt_msg t)\<rparr>])
            else Inr (t, g, [])) = Inr (t1, g1, ret)"
    using assms by (simp add: t1_def g1_def ret_def)
  have run: "r_step cfg n ready rdata return_free (t, g) =
      (if rt_active t1 then Inr (t1, g1, None, ret)
       else case find (\<lambda>rp. rdata rp \<noteq> []) (rp_rotation (rt_next_rp t1) n) of
              None \<Rightarrow> Inr (t1, g1, None, ret)
            | Some rp \<Rightarrow> let msg = hd (rdata rp) in
                bindR (decode_read_data cfg msg (r_channel0 cfg)) (\<lambda>(ok, r).
                  if \<not> ok then Inl (ReportError ''Axi2Flit'')
                  else Inr (t1\<lparr>rt_active := True, rt_msg := msg, rt_id := r_id r, rt_last := r_last r, rt_ch := r,
                              rt_next_rp := (rp + 1) mod n\<rparr>, g1, Some rp, ret)))"
    unfolding r_step_def prod.case acc bindR_Inr by (rule refl)
  have len: "length ret \<le> 1" "ret \<noteq> [] \<longrightarrow> 0 < return_free" using assms by (auto simp: ret_def)
  have held: "(if rt_active t \<and> ready then [rt_msg t] else []) @ r_held t1 = r_held t" by (simp add: r_held_def t1_def)
  show ?thesis
  proof (cases "rt_active t1 \<or> find (\<lambda>rp. rdata rp \<noteq> []) (rp_rotation (rt_next_rp t1) n) = None")
    case True
    then have "r_step cfg n ready rdata return_free (t, g) = Inr (t1, g1, None, ret)" using run by auto
    then show ?thesis using len held by (auto simp: popped_def)
  next
    case False
    then obtain rp where off: "\<not> rt_active t1" and rp: "find (\<lambda>rp. rdata rp \<noteq> []) (rp_rotation (rt_next_rp t1) n) = Some rp" by auto
    obtain ok b where d: "decode_read_data cfg (hd (rdata rp)) (r_channel0 cfg) = Inr (ok, b)" using decode_read_data_total by blast
    show ?thesis using run off rp d find_rotation [OF rp] len held
      by (cases ok) (auto simp: popped_def r_held_def rdata_fault_def)
  qed
qed


section \<open>Queues under the packer\<close>

lemma pack_messages_queues:
  "pack_messages n p q = Inr ((p', q'), ex) \<Longrightarrow> length (queue q' cl rp) \<le> length (queue q cl rp)"
proof (induction n p q rule: pack_messages.induct)
  case (2 n p q)
  obtain p1 q1 where fill: "fill_staging_slots p q = (p1, q1)" by (cases "fill_staging_slots p q")
  then have q1: "length (queue q1 cl rp) \<le> length (queue q cl rp)"
    by (cases cl) (auto simp: fill_staging_slots_def Let_def queue_def drain_queues_def)
  show ?case
  proof (cases "remaining_granules (fp_cur p) > 0 \<and> select_candidate p1 \<noteq> None")
    case False
    then show ?thesis using 2(2) fill q1 by (cases "select_candidate p1") (auto split: if_splits)
  next
    case True
    then obtain c p2 where c: "select_candidate p1 = Some c" "consume_candidate c p1 = Inr p2"
      using 2(2) fill by (auto simp: bindR_eq_Inr)
    show ?thesis
      using 2(2) fill q1 c True 2(1) [OF _ fill [symmetric] c(1), of p2] by (auto split: if_splits)
  qed
qed simp

lemma packer_cycle_queues:
  "packer_cycle i p = Inr (p', q') \<Longrightarrow> length (queue q' cl rp) \<le> length (queue (pi_queues i) cl rp)"
  by (auto simp: packer_cycle_def pack_cycle_def Let_def bindR_eq_Inr dest!: pack_messages_queues [where cl = cl and rp = rp]
      split: if_splits prod.splits)

lemma session_push:
  assumes "session_inv p q sent inp gr xs c ps" "queues_ok a"
  shows "session_inv p (join_queues q a) sent (\<lambda>cl rp. inp cl rp @ queue a cl rp) gr xs c ps"
proof -
  have j: "queue (join_queues q a) cl rp = queue q cl rp @ queue a cl rp" for cl rp
    by (cases cl) (simp_all add: queue_def join_queues_def)
  have "of_class cl rp (started xs @ map fst ps) @ waiting p (join_queues q a) cl rp = inp cl rp @ queue a cl rp" for cl rp
    using assms(1) by (simp add: session_inv_def waiting_def j flip: append_assoc)
  moreover have "queues_ok (join_queues q a)" using assms by (auto simp: session_inv_def queues_ok_def j)
  ultimately show ?thesis using assms(1) unfolding session_inv_def by blast
qed

lemma join_no_queues [simp]: "join_queues q no_queues = q" "queue no_queues cl rp = []" "queues_ok no_queues"
  by (cases cl; simp add: join_queues_def no_queues_def queue_def)
    (auto simp: queues_ok_def queue_def no_queues_def split: tx_class.splits)

section \<open>Sessions of the bridge\<close>

text \<open>What crossed the interfaces so far.\<close>

record bridge_log =
  bl_aw :: "ax_channel list"
  bl_ar :: "ax_channel list"
  bl_w :: "(nat \<times> w_channel) list"
  bl_b :: "aou_message list"
  bl_r :: "aou_message list"
  bl_taken :: "aou_flit list"
  bl_sent :: "aou_flit list"

definition bridge_log0 :: bridge_log where
  "bridge_log0 = \<lparr>bl_aw = [], bl_ar = [], bl_w = [], bl_b = [], bl_r = [], bl_taken = [], bl_sent = []\<rparr>"

definition log_edge :: "bridge_input \<Rightarrow> axi_bridge \<Rightarrow> bridge_log \<Rightarrow> bridge_log" where
  "log_edge i s l = \<lparr>
     bl_aw = bl_aw l @ (if ab_aw_ready s \<and> bi_aw_valid i then [bi_aw i] else []),
     bl_ar = bl_ar l @ (if ab_ar_ready s \<and> bi_ar_valid i then [bi_ar i] else []),
     bl_w = bl_w l @ (if wt_ready (ab_w s) \<and> bi_w_valid i then [(unat (wr_rp (wt_route (ab_w s))), bi_w i)] else []),
     bl_b = bl_b l @ (if bt_active (ab_b s) \<and> bi_b_ready i then [bt_msg (ab_b s)] else []),
     bl_r = bl_r l @ (if rt_active (ab_r s) \<and> bi_r_ready i then [rt_msg (ab_r s)] else []),
     bl_taken = bl_taken l @ (if fu_ready (ab_unpacker s) \<and> ft_valid (bi_flit_in i) then [ft_flit (bi_flit_in i)] else []),
     bl_sent = bl_sent l @ (if fp_out_active (ab_packer s) \<and> bi_flit_ready i then [ft_flit (fp_out (ab_packer s))] else [])\<rparr>"

fun bridge_session :: "data_length \<Rightarrow> bridge_input list \<Rightarrow> axi_bridge \<times> bridge_log \<Rightarrow> (axi_bridge \<times> bridge_log) result" where
  "bridge_session cfg [] st = Inr st"
| "bridge_session cfg (i # is) (s, l) = bindR (bridge_edge cfg i s) (\<lambda>s'. bridge_session cfg is (s', log_edge i s l))"

text \<open>The messages the bridge has to send for a class and a plane.\<close>

definition tx_built :: "data_length \<Rightarrow> nat \<Rightarrow> bridge_log \<Rightarrow> tx_class \<Rightarrow> nat \<Rightarrow> aou_message list" where
  "tx_built cfg n l cl rp = (case cl of
     TxRead \<Rightarrow> map (read_msg rp) (filter (\<lambda>a. plane_of n a = rp) (bl_ar l))
   | TxWrite \<Rightarrow> map (write_msg rp) (filter (\<lambda>a. plane_of n a = rp) (bl_aw l))
   | TxData \<Rightarrow> map (\<lambda>x. data_msg cfg rp (snd x)) (filter (\<lambda>x. fst x = rp) (bl_w l)))"

definition write_plan :: "nat \<Rightarrow> ax_channel list \<Rightarrow> nat list" where
  "write_plan n aws = concat (map (\<lambda>a. replicate (unat (ax_len a) + 1) (plane_of n a)) aws)"

text \<open>The reservations: a channel is ready only where its FIFOs have a place.\<close>

definition reserved :: "nat \<Rightarrow> axi_bridge \<Rightarrow> bool" where
  "reserved n s \<longleftrightarrow>
     (ab_aw_ready s \<longrightarrow> length (ab_routes s) < TX_REQ_FIFO_DEPTH_PER_RP * n \<and>
        (\<forall>rp < n. length (pq_wreq (ab_queues s) rp) < TX_REQ_FIFO_DEPTH_PER_RP)) \<and>
     (ab_ar_ready s \<longrightarrow> (\<forall>rp < n. length (pq_rreq (ab_queues s) rp) < TX_REQ_FIFO_DEPTH_PER_RP)) \<and>
     (wt_ready (ab_w s) \<longrightarrow> wt_have_route (ab_w s) \<and>
        length (pq_wdata (ab_queues s) (unat (wr_rp (wt_route (ab_w s))))) < TX_WDATA_FIFO_DEPTH_PER_RP) \<and>
     unat (wr_rp (wt_route (ab_w s))) < n \<and> (\<forall>r \<in> set (ab_routes s). unat (wr_rp r) < n) \<and>
     length (ab_returns s) \<le> 2"

definition rx_account :: "nat \<Rightarrow> axi_bridge \<Rightarrow> bridge_log \<Rightarrow> aou_message list \<Rightarrow> bool" where
  "rx_account n s l ms \<longleftrightarrow> (\<forall>rp < n.
     of_type ReadData rp (bl_r l @ r_held (ab_r s)) @ ab_rdata s rp @ of_type ReadData rp (pending_messages (ab_unpacker s)) =
       of_type ReadData rp ms \<and>
     of_type WriteResp rp (bl_b l @ b_held (ab_b s)) @ ab_wresp s rp @ of_type WriteResp rp (pending_messages (ab_unpacker s)) =
       of_type WriteResp rp ms)"

definition bridge_inv :: "data_length \<Rightarrow> nat \<Rightarrow> axi_bridge \<Rightarrow> bridge_log \<Rightarrow> bool" where
  "bridge_inv cfg n s l \<longleftrightarrow> ab_rp_count s = n \<and> 0 < n \<and> n \<le> 4 \<and> reserved n s \<and> unpacker_shape n (ab_unpacker s) \<and>
     map fst (bl_w l) @ open_beats (ab_w s) @ concat (map route_beats (ab_routes s)) = write_plan n (bl_aw l) \<and>
     (\<forall>cl rp. \<forall>m \<in> set (tx_built cfg n l cl rp). ok_msg cl rp m) \<and>
     (\<exists>gr xs c ps mss.
        session_inv (ab_packer s) (ab_queues s) (bl_sent l) (tx_built cfg n l) gr xs c ps \<and>
        decode_flits stream_decoder0 (bl_taken l) = Inr (fu_decoder (ab_unpacker s), mss) \<and>
        (\<forall>r k. gr r k + update_sum (ab_updates s @ pending_credits (ab_unpacker s)) r k =
           update_sum (concat (map (flit_credits n) (zip (bl_taken l) mss))) r k) \<and>
        rx_account n s l (concat mss))"


text \<open>The pushes of the three request threads, as queues that join those of the packer.\<close>

definition pushes :: "(nat \<times> aou_message) option \<Rightarrow> (nat \<times> aou_message) option \<Rightarrow> (nat \<times> aou_message) option \<Rightarrow> packer_queues" where
  "pushes ar aw w = \<lparr>pq_rreq = push_at ar (\<lambda>_. []), pq_wreq = push_at aw (\<lambda>_. []), pq_wdata = push_at w (\<lambda>_. [])\<rparr>"

lemma push_at_join: "push_at p q = (\<lambda>rp. q rp @ push_at p (\<lambda>_. []) rp)"
  by (auto simp: push_at_def split: option.splits)

lemma push_join:
  "\<lparr>pq_rreq = push_at ar (pq_rreq q), pq_wreq = push_at aw (pq_wreq q), pq_wdata = push_at w (pq_wdata q)\<rparr> =
     join_queues q (pushes ar aw w)"
  using push_at_join [of ar "pq_rreq q"] push_at_join [of aw "pq_wreq q"] push_at_join [of w "pq_wdata q"]
  by (simp add: join_queues_def pushes_def)

lemma length_push_at: "length (push_at p q rp) = length (q rp) + used_at p rp"
  by (auto simp: push_at_def used_at_def split: option.splits)

lemma pushes_ok:
  assumes "\<And>rp m. ar = Some (rp, m) \<Longrightarrow> ok_msg TxRead rp m" "\<And>rp m. aw = Some (rp, m) \<Longrightarrow> ok_msg TxWrite rp m"
    "\<And>rp m. w = Some (rp, m) \<Longrightarrow> ok_msg TxData rp m"
  shows "queues_ok (pushes ar aw w)"
  using assms by (auto simp: queues_ok_def queue_def pushes_def push_at_def split: tx_class.splits option.splits if_splits)

text \<open>Delivery to a channel thread: what is popped was the head of its plane's part.\<close>

lemma popped_account:
  assumes eq: "\<forall>rp < n. of_type t rp held @ q rp @ pend rp = of_type t rp ms"
    and pop: "case pop of None \<Rightarrow> True | Some r \<Rightarrow> r < n \<and> q r \<noteq> []"
    and more: "\<And>rp. rp < n \<Longrightarrow> new rp @ pend' rp = pend rp @ of_type t rp ms'"
  shows "\<forall>rp < n. of_type t rp (held @ popped pop q) @ (pop_at pop q rp @ new rp) @ pend' rp = of_type t rp (ms @ ms')"
proof (intro allI impI)
  fix rp assume rp: "rp < n"
  have "of_type t rp (popped pop q) @ pop_at pop q rp = q rp"
  proof (cases pop)
    case (Some r)
    then have r: "r < n" "q r \<noteq> []" using pop by auto
    then have "set (q r) \<subseteq> set (of_type t r ms)" using eq by (metis append.assoc set_append Un_upper1 Un_upper2 order_trans)
    moreover have "hd (q r) \<in> set (q r)" using r(2) by simp
    ultimately have "am_type (hd (q r)) = t \<and> unat (am_rp (hd (q r))) = r" by (auto simp: of_type_def)
    moreover have "r = rp" if "am_type (hd (q r)) = t \<and> unat (am_rp (hd (q r))) = rp" for rp using that calculation by simp
    ultimately show ?thesis using Some r by (auto simp: popped_def pop_at_def)
  qed (simp add: popped_def pop_at_def)
  then show "of_type t rp (held @ popped pop q) @ (pop_at pop q rp @ new rp) @ pend' rp = of_type t rp (ms @ ms')"
    using eq rp more [OF rp] by (simp flip: append_assoc) (simp add: append_assoc)
qed

text \<open>What the three request threads push at an edge, and what stays in the session's account.\<close>

definition aw_push :: "nat \<Rightarrow> bridge_input \<Rightarrow> axi_bridge \<Rightarrow> (nat \<times> aou_message \<times> write_route) option" where
  "aw_push n i s = (if ab_aw_ready s \<and> bi_aw_valid i then Some (plane_of n (bi_aw i), write_msg (plane_of n (bi_aw i)) (bi_aw i),
     \<lparr>wr_rp = of_nat (plane_of n (bi_aw i)), wr_beats_remaining = unat (ax_len (bi_aw i)) + 1\<rparr>) else None)"

definition ar_push :: "nat \<Rightarrow> bridge_input \<Rightarrow> axi_bridge \<Rightarrow> (nat \<times> aou_message) option" where
  "ar_push n i s = (if ab_ar_ready s \<and> bi_ar_valid i
     then Some (plane_of n (bi_ar i), read_msg (plane_of n (bi_ar i)) (bi_ar i)) else None)"

definition w_push :: "data_length \<Rightarrow> bridge_input \<Rightarrow> axi_bridge \<Rightarrow> (nat \<times> aou_message) option" where
  "w_push cfg i s = (if wt_ready (ab_w s) \<and> bi_w_valid i
     then Some (unat (wr_rp (wt_route (ab_w s))), data_msg cfg (unat (wr_rp (wt_route (ab_w s)))) (bi_w i)) else None)"

lemmas push_defs = aw_push_def ar_push_def w_push_def

definition edge_pushes :: "data_length \<Rightarrow> nat \<Rightarrow> bridge_input \<Rightarrow> axi_bridge \<Rightarrow> packer_queues" where
  "edge_pushes cfg n i s = pushes (ar_push n i s) (map_option (\<lambda>(rp, m, _). (rp, m)) (aw_push n i s)) (w_push cfg i s)"

lemma edge_pushes_ok:
  assumes "0 < n" "n \<le> 4" "cfg_ok cfg" "bi_w_valid i \<Longrightarrow> wf_w cfg (bi_w i)" "unat (wr_rp (wt_route (ab_w s))) < n"
  shows "queues_ok (edge_pushes cfg n i s)"
proof -
  have p: "plane_of n ax < 4" for ax using plane_less [of n ax] assms(1,2) by linarith
  have "unat (wr_rp (wt_route (ab_w s))) < 4" using assms(2,5) by linarith
  then show ?thesis unfolding edge_pushes_def
    by (intro pushes_ok) (use p messages_ok assms(3,4) in \<open>auto simp: push_defs split: if_splits\<close>)
qed

lemma tx_built_edge:
  "tx_built cfg n (log_edge i s l) cl rp = tx_built cfg n l cl rp @ queue (edge_pushes cfg n i s) cl rp"
  by (cases cl) (auto simp: tx_built_def log_edge_def edge_pushes_def pushes_def push_defs queue_def push_at_def)

lemma update_sum_nil [simp]: "update_sum [] r k = 0"
  by (simp add: update_sum_def)

text \<open>The unpacker's part of an edge.\<close>

lemma unpacker_edge:
  assumes shape: "unpacker_shape n u" and dec: "decode_flits stream_decoder0 taken = Inr (fu_decoder u, mss)"
    and k: "us_credits k = []" "us_rdata k = (\<lambda>_. [])" "us_wresp k = (\<lambda>_. [])"
    and taken'_def: "taken' = taken @ (if fu_ready u \<and> ft_valid t then [ft_flit t] else [])"
  shows "runs (flit_fault u t) (unpacker_cycle t (u, k)) (\<lambda>((u', k'), w). unpacker_shape n u' \<and>
     (\<exists>nss. decode_flits stream_decoder0 taken' = Inr (fu_decoder u', mss @ nss) \<and>
       us_credits k' @ pending_credits u' = pending_credits u @ concat (map (flit_credits n) (zip (drop (length taken) taken') nss)) \<and>
       (\<forall>rp < n. us_rdata k' rp @ of_type ReadData rp (pending_messages u') =
           of_type ReadData rp (pending_messages u) @ of_type ReadData rp (concat nss) \<and>
         us_wresp k' rp @ of_type WriteResp rp (pending_messages u') =
           of_type WriteResp rp (pending_messages u) @ of_type WriteResp rp (concat nss))))"
  using unpacker_cycle_step [OF shape, of t k]
proof (elim disjE exE conjE)
  fix u' k' w
  assume c: "unpacker_cycle t (u, k) = Inr ((u', k'), w)" "unpacker_shape n u'" "unpacker_moves n t (u, k) (u', k')"
  show ?thesis
  proof (cases "fu_ready u \<and> ft_valid t")
    case True
    obtain r where m: "sd_consume (fu_decoder u) (ft_flit t) = (fu_decoder u', Inr r)"
      "credits_total (u', k') = credits_total (u, k) @ flit_credits n (ft_flit t, dr_messages r)"
      "\<forall>rp < n. rdata_total rp (u', k') = rdata_total rp (u, k) @ of_type ReadData rp (dr_messages r) \<and>
         wresp_total rp (u', k') = wresp_total rp (u, k) @ of_type WriteResp rp (dr_messages r)"
      using c(3) True by (auto simp: unpacker_moves_def)
    have "decode_flits stream_decoder0 taken' = Inr (fu_decoder u', mss @ [dr_messages r])"
      using decode_flits_snoc [OF dec m(1)] True by (simp add: taken'_def)
    then show ?thesis using c(1,2) m(2,3) k True
      by (auto simp: total_defs taken'_def intro!: exI [of _ "[dr_messages r]"])
  next
    case False
    then have "taken' = taken" by (auto simp: taken'_def)
    then show ?thesis using c k False dec
      by (auto simp: unpacker_moves_def total_defs intro!: exI [of _ "[]"])
  qed
qed (auto simp: flit_fault_def)

text \<open>One edge of the bridge.\<close>

lemma reserved_edge:
  assumes r: "reserved n s" and n: "0 < n" "n \<le> 4"
    and awr: "awr \<longrightarrow> 0 < TX_REQ_FIFO_DEPTH_PER_RP * n - length (ab_routes s) - (if aw_push n i s = None then 0 else 1) \<and>
       (\<forall>rp < n. 0 < TX_REQ_FIFO_DEPTH_PER_RP - length (pq_wreq (ab_queues s) rp) - used_at (aw_push n i s) rp)"
    and arr: "arr \<longrightarrow> (\<forall>rp < n. 0 < TX_REQ_FIFO_DEPTH_PER_RP - length (pq_rreq (ab_queues s) rp) - used_at (ar_push n i s) rp)"
    and wt: "wt_ready t' \<longrightarrow> wt_have_route t' \<and> 0 < TX_WDATA_FIFO_DEPTH_PER_RP -
       length (pq_wdata (ab_queues s) (unat (wr_rp (wt_route t')))) - used_at (w_push cfg i s) (unat (wr_rp (wt_route t')))"
    and k: "k \<le> length (ab_routes s)" "wt_route t' = hd (ab_routes s) \<and> k = 1 \<or> wr_rp (wt_route t') = wr_rp (wt_route (ab_w s))"
    and ret: "length rets \<le> 2" and q: "\<And>cl rp. length (queue q' cl rp) \<le> length (queue (ab_queues s) cl rp)"
  shows "reserved n (s\<lparr>ab_aw_ready := awr, ab_ar_ready := arr, ab_w := t', ab_b := bt, ab_r := rt, ab_wr_guard := wg, ab_rd_guard := rg,
     ab_queues := join_queues q' (edge_pushes cfg n i s),
     ab_routes := drop k (ab_routes s) @ (case aw_push n i s of None \<Rightarrow> [] | Some (_, _, r) \<Rightarrow> [r]),
     ab_rdata := rd, ab_wresp := wr, ab_updates := us, ab_returns := rets, ab_packer := p', ab_unpacker := u'\<rparr>)"
proof -
  have ql: "length (pq_rreq q' rp) \<le> length (pq_rreq (ab_queues s) rp)" "length (pq_wreq q' rp) \<le> length (pq_wreq (ab_queues s) rp)"
    "length (pq_wdata q' rp) \<le> length (pq_wdata (ab_queues s) rp)" for rp
    using q [of TxRead rp] q [of TxWrite rp] q [of TxData rp] by (simp_all add: queue_def)
  have u: "used_at (map_option (\<lambda>(rp, m, _). (rp, m)) p) rp = used_at p rp" for p :: "(nat \<times> aou_message \<times> write_route) option" and rp
    by (cases p) (auto simp: used_at_def)
  define aq bq cq where "aq = push_at (ar_push n i s) (pq_rreq q')"
    and "bq = push_at (map_option (\<lambda>(rp, m, _). (rp, m)) (aw_push n i s)) (pq_wreq q')" and "cq = push_at (w_push cfg i s) (pq_wdata q')"
  have join: "join_queues q' (edge_pushes cfg n i s) = \<lparr>pq_rreq = aq, pq_wreq = bq, pq_wdata = cq\<rparr>"
    unfolding edge_pushes_def push_join [symmetric] aq_def bq_def cq_def ..
  have len: "length (aq rp) \<le> length (pq_rreq (ab_queues s) rp) + used_at (ar_push n i s) rp"
    "length (bq rp) \<le> length (pq_wreq (ab_queues s) rp) + used_at (aw_push n i s) rp"
    "length (cq rp) \<le> length (pq_wdata (ab_queues s) rp) + used_at (w_push cfg i s) rp" for rp
    using ql [of rp] by (simp_all add: aq_def bq_def cq_def length_push_at u)
  have a: "length (aq rp) < TX_REQ_FIFO_DEPTH_PER_RP" if "arr" "rp < n" for rp
    using arr that len(1) [of rp] by (metis add_lessD1 diff_diff_left le_less_trans less_diff_conv plus_nat.add_0 zero_less_diff)
  have b: "length (bq rp) < TX_REQ_FIFO_DEPTH_PER_RP" if "awr" "rp < n" for rp
    using awr that len(2) [of rp] by (metis diff_diff_left le_less_trans zero_less_diff)
  have c: "length (cq (unat (wr_rp (wt_route t')))) < TX_WDATA_FIFO_DEPTH_PER_RP" if "wt_ready t'"
    using wt that len(3) [of "unat (wr_rp (wt_route t'))"] by linarith
  have pl: "unat (of_nat (plane_of n (bi_aw i)) :: u8) < n"
    using plane_less [OF n(1), of "bi_aw i"] map_qos_plane [OF n, of "bi_aw i"] by simp
  have routes: "\<forall>r \<in> set (drop k (ab_routes s) @ (case aw_push n i s of None \<Rightarrow> [] | Some (_, _, r) \<Rightarrow> [r])). unat (wr_rp r) < n"
    using r pl by (auto simp: reserved_def aw_push_def dest: in_set_dropD split: if_splits)
  have cur: "unat (wr_rp (wt_route t')) < n"
    using k r by (cases "ab_routes s") (auto simp: reserved_def)
  have lr: "length (drop k (ab_routes s) @ (case aw_push n i s of None \<Rightarrow> [] | Some (_, _, r) \<Rightarrow> [r])) < TX_REQ_FIFO_DEPTH_PER_RP * n" if awr
    using awr that by (auto split: option.splits)
  show ?thesis using a b c wt routes cur lr ret by (simp add: reserved_def join)
qed

lemma write_plan_append [simp]: "write_plan n (xs @ ys) = write_plan n xs @ write_plan n ys"
  by (simp add: write_plan_def)

definition peer_fault :: "data_length \<Rightarrow> nat \<Rightarrow> bridge_input \<Rightarrow> axi_bridge \<Rightarrow> bool" where
  "peer_fault cfg n i s \<longleftrightarrow> request_fault cfg (ab_aw_ready s) (bi_aw_valid i) (bi_aw i) \<or>
     request_fault cfg (ab_ar_ready s) (bi_ar_valid i) (bi_ar i) \<or> wlast_fault (ab_w s) (bi_w_valid i) (bi_w i) \<or>
     wresp_fault n (ab_wresp s) \<or> rdata_fault cfg n (ab_rdata s) \<or> flit_fault (ab_unpacker s) (bi_flit_in i)"

lemma bridge_edge_ok:
  assumes inv: "bridge_inv cfg n s l" and cfg: "cfg_ok cfg" and w: "bi_w_valid i \<Longrightarrow> wf_w cfg (bi_w i)"
  shows "runs (peer_fault cfg n i s) (bridge_edge cfg i s) (\<lambda>s'. bridge_inv cfg n s' (log_edge i s l))"
proof -
  define l' where "l' = log_edge i s l"
  have n: "0 < n" "n \<le> 4" "ab_rp_count s = n" and res: "reserved n s" and shape: "unpacker_shape n (ab_unpacker s)"
    and plan: "map fst (bl_w l) @ open_beats (ab_w s) @ concat (map route_beats (ab_routes s)) = write_plan n (bl_aw l)"
    using inv by (simp_all add: bridge_inv_def)
  obtain gr xs c ps mss where tx: "session_inv (ab_packer s) (ab_queues s) (bl_sent l) (tx_built cfg n l) gr xs c ps"
    and dec: "decode_flits stream_decoder0 (bl_taken l) = Inr (fu_decoder (ab_unpacker s), mss)"
    and cred: "\<And>r k. gr r k + update_sum (ab_updates s @ pending_credits (ab_unpacker s)) r k =
           update_sum (concat (map (flit_credits n) (zip (bl_taken l) mss))) r k"
    and rx: "rx_account n s l (concat mss)"
    using inv unfolding bridge_inv_def by blast
  define sinks where "sinks = \<lparr>us_credit_free = CREDIT_FIFO_DEPTH - length (ab_updates s),
            us_rdata_free = (\<lambda>rp. RX_RDATA_FIFO_DEPTH_PER_RP cfg - length (ab_rdata s rp)),
            us_wresp_free = (\<lambda>rp. RX_WRESP_FIFO_DEPTH_PER_RP - length (ab_wresp s rp)),
            us_credits = [], us_rdata = (\<lambda>_. []), us_wresp = (\<lambda>_. [])\<rparr>"
  define pin where "pin = \<lparr>pi_queues = no_queues, pi_updates = ab_updates s, pi_returns = ab_returns s, pi_ready = bi_flit_ready i\<rparr>"
  obtain p' q' xs' c' ps' where pk: "packer_cycle (pin\<lparr>pi_queues := ab_queues s\<rparr>) (ab_packer s) = Inr (p', q')"
    and tx': "session_inv p' q' (bl_sent l') (tx_built cfg n l) (\<lambda>r k. gr r k + update_sum (ab_updates s) r k) xs' c' ps'"
    using session_cycle [OF tx, of pin] by (auto simp: pin_def l'_def log_edge_def if_distrib [where f = "\<lambda>x. _ @ x"] cong: if_cong)
  have pin': "packer_cycle \<lparr>pi_queues = ab_queues s, pi_updates = ab_updates s, pi_returns = ab_returns s, pi_ready = bi_flit_ready i\<rparr>
      (ab_packer s) = Inr (p', q')" using pk by (simp add: pin_def)
  have qlen: "length (queue q' cl rp) \<le> length (queue (ab_queues s) cl rp)" for cl rp
    using packer_cycle_queues [OF pk] by simp
  have ok: "queues_ok (edge_pushes cfg n i s)"
    by (rule edge_pushes_ok) (use n cfg w res in \<open>auto simp: reserved_def\<close>)
  have tx2: "session_inv p' (join_queues q' (edge_pushes cfg n i s)) (bl_sent l') (tx_built cfg n l')
      (\<lambda>r k. gr r k + update_sum (ab_updates s) r k) xs' c' ps'"
    using session_push [OF tx' ok] by (simp add: tx_built_edge [abs_def] l'_def)
  have small: "unat (wr_rp (wt_route (ab_w s))) < 4" using res n by (simp add: reserved_def)
  have AW: "runs (peer_fault cfg n i s) (aw_step cfg n (bi_aw_valid i) (bi_aw i) (\<lambda>rp. TX_REQ_FIFO_DEPTH_PER_RP - length (pq_wreq (ab_queues s) rp))
      (TX_REQ_FIFO_DEPTH_PER_RP * n - length (ab_routes s)) (ab_aw_ready s, ab_wr_guard s)) (\<lambda>(awr, wg, p). p = aw_push n i s \<and>
      (awr \<longrightarrow> 0 < TX_REQ_FIFO_DEPTH_PER_RP * n - length (ab_routes s) - (if aw_push n i s = None then 0 else 1) \<and>
       (\<forall>rp < n. 0 < TX_REQ_FIFO_DEPTH_PER_RP - length (pq_wreq (ab_queues s) rp) - used_at (aw_push n i s) rp)))"
    by (rule runs_weaken [OF aw_step_ok [OF n(1,2) _ aw_push_def]]) (use res in \<open>auto simp: reserved_def peer_fault_def\<close>)
  have AR: "runs (peer_fault cfg n i s) (ar_step cfg n (bi_ar_valid i) (bi_ar i) (\<lambda>rp. TX_REQ_FIFO_DEPTH_PER_RP - length (pq_rreq (ab_queues s) rp))
      (ab_ar_ready s, ab_rd_guard s)) (\<lambda>(arr, rg, p). p = ar_push n i s \<and>
      (arr \<longrightarrow> (\<forall>rp < n. 0 < TX_REQ_FIFO_DEPTH_PER_RP - length (pq_rreq (ab_queues s) rp) - used_at (ar_push n i s) rp)))"
    by (rule runs_weaken [OF ar_step_ok [OF n(1,2) _ ar_push_def]]) (use res in \<open>auto simp: reserved_def peer_fault_def\<close>)
  have W: "runs (peer_fault cfg n i s) (w_step cfg (bi_w_valid i) (bi_w i) (\<lambda>rp. TX_WDATA_FIFO_DEPTH_PER_RP - length (pq_wdata (ab_queues s) rp))
      (ab_routes s) (ab_w s)) (\<lambda>(t', k, p). p = w_push cfg i s \<and> k \<le> length (ab_routes s) \<and>
       (wt_ready t' \<longrightarrow> wt_have_route t' \<and> 0 < TX_WDATA_FIFO_DEPTH_PER_RP -
          length (pq_wdata (ab_queues s) (unat (wr_rp (wt_route t')))) - used_at (w_push cfg i s) (unat (wr_rp (wt_route t')))) \<and>
       (wt_route t' = hd (ab_routes s) \<and> k = 1 \<or> wr_rp (wt_route t') = wr_rp (wt_route (ab_w s))) \<and>
       (case w_push cfg i s of None \<Rightarrow> [] | Some (rp, _) \<Rightarrow> [rp]) @ open_beats t' @ concat (map route_beats (drop k (ab_routes s))) =
         open_beats (ab_w s) @ concat (map route_beats (ab_routes s)))"
    by (rule runs_weaken [OF w_step_ok [OF cfg w _ small w_push_def]]) (use res in \<open>auto simp: reserved_def peer_fault_def\<close>)
  have B: "runs (peer_fault cfg n i s) (b_step n (bi_b_ready i) (ab_wresp s) (CREDIT_FIFO_DEPTH - length (ab_returns s)) (ab_b s, wg))
      (\<lambda>(t', g', pop, ret). length ret \<le> 1 \<and> (case pop of None \<Rightarrow> True | Some rp \<Rightarrow> rp < n \<and> ab_wresp s rp \<noteq> []) \<and>
       (if bt_active (ab_b s) \<and> bi_b_ready i then [bt_msg (ab_b s)] else []) @ b_held t' = b_held (ab_b s) @ popped pop (ab_wresp s))" for wg
    by (rule runs_weaken [OF b_step_ok]) (use res in \<open>auto simp: reserved_def CREDIT_FIFO_DEPTH_def peer_fault_def\<close>)
  have R: "runs (peer_fault cfg n i s) (r_step cfg n (bi_r_ready i) (ab_rdata s) (CREDIT_FIFO_DEPTH - length (ab_returns s) - length bret) (ab_r s, rg))
      (\<lambda>(t', g', pop, ret). length ret \<le> 1 \<and> (case pop of None \<Rightarrow> True | Some rp \<Rightarrow> rp < n \<and> ab_rdata s rp \<noteq> []) \<and>
       (if rt_active (ab_r s) \<and> bi_r_ready i then [rt_msg (ab_r s)] else []) @ r_held t' = r_held (ab_r s) @ popped pop (ab_rdata s))"
    if "length bret \<le> 1" for rg and bret :: "credit_update list"
    by (rule runs_weaken [OF r_step_ok]) (use res that in \<open>auto simp: reserved_def CREDIT_FIFO_DEPTH_def peer_fault_def\<close>)
  have U: "runs (peer_fault cfg n i s) (unpacker_cycle (bi_flit_in i) (ab_unpacker s, sinks)) (\<lambda>((u', k'), w). unpacker_shape n u' \<and>
     (\<exists>nss. decode_flits stream_decoder0 (bl_taken l') = Inr (fu_decoder u', mss @ nss) \<and>
       us_credits k' @ pending_credits u' = pending_credits (ab_unpacker s) @
         concat (map (flit_credits n) (zip (drop (length (bl_taken l)) (bl_taken l')) nss)) \<and>
       (\<forall>rp < n. us_rdata k' rp @ of_type ReadData rp (pending_messages u') =
           of_type ReadData rp (pending_messages (ab_unpacker s)) @ of_type ReadData rp (concat nss) \<and>
         us_wresp k' rp @ of_type WriteResp rp (pending_messages u') =
           of_type WriteResp rp (pending_messages (ab_unpacker s)) @ of_type WriteResp rp (concat nss))))"
    by (rule runs_weaken [OF unpacker_edge [OF shape dec]]) (auto simp: sinks_def l'_def log_edge_def peer_fault_def)
  show ?thesis
    unfolding l'_def [symmetric] bridge_edge_def Let_def n(3) sinks_def [symmetric] pin'
  proof (intro runs_bind3 [OF AW] runs_bind3 [OF W] runs_bind3 [OF AR] runs_bind4 [OF B], goal_cases)
    case (1 awr wg t' k arr rg bt wg' bpop bret)
    note aw = 1(1) and w = 1(2) and ar = 1(3) and b = 1(4)
    have ret: "length bret \<le> 1" using b by simp
    show ?case
    proof (rule runs_bind4 [OF R [OF ret]], unfold bindR_Inr prod.case, rule runs_bindU [OF U],
        unfold runs_simps push_join edge_pushes_def [symmetric], goal_cases)
      case (1 rt rg' rpop rret u' k' v)
      note r = 1(1) and u = 1(2)
      have rets: "length (bret @ rret) \<le> 2" using ret r by simp
      note res' = reserved_edge [OF res n(1,2) aw ar _ _ _ rets qlen, where t' = t' and k = k and cfg = cfg]
      obtain nss where nss: "decode_flits stream_decoder0 (bl_taken l') = Inr (fu_decoder u', mss @ nss)"
        "us_credits k' @ pending_credits u' = pending_credits (ab_unpacker s) @
           concat (map (flit_credits n) (zip (drop (length (bl_taken l)) (bl_taken l')) nss))"
        "\<And>rp. rp < n \<Longrightarrow> us_rdata k' rp @ of_type ReadData rp (pending_messages u') =
           of_type ReadData rp (pending_messages (ab_unpacker s)) @ of_type ReadData rp (concat nss) \<and>
         us_wresp k' rp @ of_type WriteResp rp (pending_messages u') =
           of_type WriteResp rp (pending_messages (ab_unpacker s)) @ of_type WriteResp rp (concat nss)"
        using u by blast
      have tk: "bl_taken l' = bl_taken l @ drop (length (bl_taken l)) (bl_taken l')" by (simp add: l'_def log_edge_def)
      have cred': "(gr r k + update_sum (ab_updates s) r k) + update_sum (us_credits k' @ pending_credits u') r k =
           update_sum (concat (map (flit_credits n) (zip (bl_taken l') (mss @ nss)))) r k" for r k
        unfolding nss(2) using cred [of r k] decode_flits_length [OF dec] by (subst tk) simp
      have R': "\<forall>rp < n. of_type ReadData rp ((bl_r l @ r_held (ab_r s)) @ popped rpop (ab_rdata s)) @
          (pop_at rpop (ab_rdata s) rp @ us_rdata k' rp) @ of_type ReadData rp (pending_messages u') = of_type ReadData rp (concat mss @ concat nss)"
        by (rule popped_account [where pend = "\<lambda>rp. of_type ReadData rp (pending_messages (ab_unpacker s))"])
          (use rx r nss(3) in \<open>auto simp: rx_account_def\<close>)
      have B': "\<forall>rp < n. of_type WriteResp rp ((bl_b l @ b_held (ab_b s)) @ popped bpop (ab_wresp s)) @
          (pop_at bpop (ab_wresp s) rp @ us_wresp k' rp) @ of_type WriteResp rp (pending_messages u') = of_type WriteResp rp (concat mss @ concat nss)"
        by (rule popped_account [where pend = "\<lambda>rp. of_type WriteResp rp (pending_messages (ab_unpacker s))"])
          (use rx b nss(3) in \<open>auto simp: rx_account_def\<close>)
      have held: "bl_r l' @ r_held rt = (bl_r l @ r_held (ab_r s)) @ popped rpop (ab_rdata s)"
        "bl_b l' @ b_held bt = (bl_b l @ b_held (ab_b s)) @ popped bpop (ab_wresp s)"
        using r b by (simp_all add: l'_def log_edge_def)
      have plan': "map fst (bl_w l') @ open_beats t' @ concat (map route_beats (drop k (ab_routes s) @
          (case aw_push n i s of None \<Rightarrow> [] | Some (_, _, r) \<Rightarrow> [r]))) = write_plan n (bl_aw l')"
      proof -
        have "map fst (bl_w l') = map fst (bl_w l) @ (case w_push cfg i s of None \<Rightarrow> [] | Some (rp, _) \<Rightarrow> [rp])"
          by (simp add: l'_def log_edge_def w_push_def)
        moreover have "write_plan n (bl_aw l') = write_plan n (bl_aw l) @
            concat (map route_beats (case aw_push n i s of None \<Rightarrow> [] | Some (_, _, r) \<Rightarrow> [r]))"
          using map_qos_plane [OF n(1,2), of "bi_aw i"]
          by (simp add: l'_def log_edge_def aw_push_def write_plan_def route_beats_def)
        ultimately show ?thesis using plan w by simp
      qed
      have mss: "concat mss @ concat nss = concat (mss @ nss)" by simp
      show ?case unfolding bridge_inv_def
      proof (intro conjI, goal_cases)
        case 4 show ?case by (rule res') (use w in blast)+
      next
        case 6 show ?case using plan' by simp
      next
        case 7 show ?case
          using inv ok by (auto simp: bridge_inv_def l'_def tx_built_edge queues_ok_def)
      next
        case 8
        define s' where "s' = s\<lparr>ab_aw_ready := awr, ab_ar_ready := arr, ab_w := t', ab_b := bt, ab_r := rt, ab_wr_guard := wg',
          ab_rd_guard := rg', ab_queues := join_queues q' (edge_pushes cfg n i s),
          ab_routes := drop k (ab_routes s) @ (case aw_push n i s of None \<Rightarrow> [] | Some (_, _, r) \<Rightarrow> [r]),
          ab_rdata := \<lambda>rp. pop_at rpop (ab_rdata s) rp @ us_rdata k' rp, ab_wresp := \<lambda>rp. pop_at bpop (ab_wresp s) rp @ us_wresp k' rp,
          ab_updates := us_credits k', ab_returns := bret @ rret, ab_packer := p', ab_unpacker := u'\<rparr>"
        have f: "ab_packer s' = p'" "ab_queues s' = join_queues q' (edge_pushes cfg n i s)" "ab_unpacker s' = u'" "ab_r s' = rt" "ab_b s' = bt"
          "ab_rdata s' = (\<lambda>rp. pop_at rpop (ab_rdata s) rp @ us_rdata k' rp)"
          "ab_wresp s' = (\<lambda>rp. pop_at bpop (ab_wresp s) rp @ us_wresp k' rp)" "ab_updates s' = us_credits k'"
          by (simp_all add: s'_def)
        have "rx_account n s' l' (concat (mss @ nss))"
          unfolding rx_account_def f held mss [symmetric] using R' B' by blast
        with tx2 nss(1) cred' show ?case unfolding s'_def [symmetric] f by blast
      qed (use n u in simp_all)
    qed
  qed
qed


section \<open>Sessions from reset\<close>

lemma bridge_reset_inv:
  assumes "bridge_reset cfg n = Inr s" shows "bridge_inv cfg n s bridge_log0"
proof -
  obtain p u where p: "packer_reset n (RX_RDATA_CREDITS_PER_RP cfg) RX_WRESP_CREDITS_PER_RP DEFAULT_FLUSH_TIMEOUT_CYCLES = Inr p"
    and u: "unpacker_reset n = Inr u" using assms by (auto simp: bridge_reset_def bindR_eq_Inr)
  have n: "0 < n" "n \<le> 4" using u by (auto simp: unpacker_reset_def MAX_RESOURCE_PLANES_def split: if_splits)
  have f: "fu_decoder u = stream_decoder0" "pending_credits u = []" "pending_messages u = []" "unpacker_shape n u"
    using u by (auto simp: unpacker_reset_def pending_credits_def pending_messages_def unpacker_shape_def split: if_splits)
  have tb: "tx_built cfg n bridge_log0 = (\<lambda>_ _. [])"
    by (auto simp: tx_built_def bridge_log0_def fun_eq_iff split: tx_class.splits)
  note inv = session_start [OF p, folded no_queues_def]
  have s: "ab_packer s = p" "ab_queues s = no_queues" "ab_unpacker s = u" "ab_rp_count s = n" "reserved n s" "ab_updates s = []"
    "open_beats (ab_w s) = []" "ab_routes s = []" "rx_account n s bridge_log0 []"
    using assms p u f n
    by (auto simp: bridge_reset_def reserved_def open_beats_def rx_account_def bridge_log0_def r_held_def b_held_def no_queues_def)
  show ?thesis
    using s n f inv unfolding bridge_inv_def tb
    by (auto simp: bridge_log0_def write_plan_def intro!: exI [of _ "\<lambda>_ _. 0"])
qed

text \<open>Inputs of sensible shape: the data and strobe arrays of a beat have the length of the bus.\<close>

definition input_ok :: "data_length \<Rightarrow> bridge_input \<Rightarrow> bool" where
  "input_ok cfg i \<longleftrightarrow> (bi_w_valid i \<longrightarrow> wf_w cfg (bi_w i))"

lemma bridge_session_inv:
  assumes "bridge_session cfg is (s, l) = Inr (s', l')" "bridge_inv cfg n s l" "cfg_ok cfg" "\<forall>i \<in> set is. input_ok cfg i"
  shows "bridge_inv cfg n s' l'"
  using assms
proof (induction "is" arbitrary: s l)
  case (Cons i rest)
  obtain s1 where e: "bridge_edge cfg i s = Inr s1" "bridge_session cfg rest (s1, log_edge i s l) = Inr (s', l')"
    using Cons.prems(1) by (auto simp: bindR_eq_Inr)
  have "bridge_inv cfg n s1 (log_edge i s l)"
    using bridge_edge_ok [OF Cons.prems(2,3), of i] Cons.prems(4) e(1) by (simp add: input_ok_def)
  then show ?case using Cons e(2) by simp
qed simp

lemma bridge_reachable:
  assumes "bridge_reset cfg n = Inr s0" "bridge_session cfg is (s0, bridge_log0) = Inr (s, l)" "cfg_ok cfg" "\<forall>i \<in> set is. input_ok cfg i"
  shows "bridge_inv cfg n s l"
  using bridge_session_inv [OF assms(2) bridge_reset_inv [OF assms(1)] assms(3,4)] .

text \<open>Without a fault of a peer the bridge runs on; the simplest such runs offer no flit and no data beat.\<close>

lemma faultless_edge:
  assumes "bridge_inv cfg n s l" "cfg_ok cfg" "input_ok cfg i" "\<not> peer_fault cfg n i s"
  obtains s' where "bridge_edge cfg i s = Inr s'" "bridge_inv cfg n s' (log_edge i s l)"
  using bridge_edge_ok [OF assms(1,2), of i] assms(3,4) by (cases "bridge_edge cfg i s") (auto simp: input_ok_def)

definition calm :: "data_length \<Rightarrow> bridge_input \<Rightarrow> bool" where
  "calm cfg i \<longleftrightarrow> \<not> ft_valid (bi_flit_in i) \<and> \<not> bi_w_valid i \<and>
     axi_request_error cfg (bi_aw i) = None \<and> axi_request_error cfg (bi_ar i) = None"

lemma calm_edge:
  assumes inv: "bridge_inv cfg n s l" "bl_taken l = []" and i: "calm cfg i"
  shows "\<not> peer_fault cfg n i s"
proof -
  have rx: "rx_account n s l []" using inv by (auto simp: bridge_inv_def)
  then have "\<forall>rp < n. ab_wresp s rp = [] \<and> ab_rdata s rp = []" by (auto simp: rx_account_def)
  then show ?thesis using i by (auto simp: peer_fault_def fault_defs calm_def)
qed

lemma calm_session:
  "bridge_inv cfg n s l \<Longrightarrow> bl_taken l = [] \<Longrightarrow> cfg_ok cfg \<Longrightarrow> \<forall>i \<in> set is. calm cfg i \<Longrightarrow>
   \<exists>s' l'. bridge_session cfg is (s, l) = Inr (s', l') \<and> bl_taken l' = []"
proof (induction "is" arbitrary: s l)
  case (Cons i rest)
  have ok: "input_ok cfg i" using Cons.prems(4) by (simp add: calm_def input_ok_def)
  have nf: "\<not> peer_fault cfg n i s" using calm_edge [OF Cons.prems(1,2)] Cons.prems(4) by simp
  obtain s' where s': "bridge_edge cfg i s = Inr s'" "bridge_inv cfg n s' (log_edge i s l)"
    using faultless_edge [OF Cons.prems(1,3) ok nf] .
  have "bl_taken (log_edge i s l) = []" using Cons.prems(2,4) by (simp add: log_edge_def calm_def)
  from Cons.IH [OF s'(2) this Cons.prems(3)] Cons.prems(4) s'(1) show ?case by simp
qed simp

text \<open>The granules of requests do not depend on what the decoder strips.\<close>

lemma credit_use_request:
  assumes "\<And>m cl. m \<in> set ms \<Longrightarrow> class_of (am_type m) = Some cl \<Longrightarrow> msg_rp_of (am_data m ! 0) = am_rp m" "k < 3"
  shows "credit_use (map strip_msg ms) r k = credit_use ms r k"
  using assms(1)
proof (induction ms)
  case (Cons m ms)
  have "kind_index m \<noteq> k \<or> class_of (am_type m) \<noteq> None"
    using assms(2) by (auto simp: kind_index_def msgtype_to_credit_kind_def credit_kind_index_def class_of_def split: msg_type.splits)
  then have "unat (am_rp (strip_msg m)) = r \<and> kind_index (strip_msg m) = k \<longleftrightarrow> unat (am_rp m) = r \<and> kind_index m = k"
    using Cons.prems [of m] by (auto simp: strip_msg_def kind_index_def)
  moreover have "msg_len (strip_msg m) = msg_len m" by (simp add: strip_msg_def msg_len_def)
  ultimately show ?case using Cons by simp
qed simp

section \<open>Properties\<close>

text \<open>
  C9. The bridge never trips one of its own assertions, neither for FIFO space nor for credits: at
  every edge from a state reached from reset it runs on within the reserved FIFO places, or it
  stops with a report, and then a peer broke the protocol: an address beat that breaks an AXI rule
  was accepted, a data beat's WLAST disagrees with AWLEN, or what came from the link does not
  decode.
\<close>

theorem bridge_blames_peer:
  assumes "bridge_reset cfg n = Inr s0" "bridge_session cfg is (s0, bridge_log0) = Inr (s, l)"
    and "cfg_ok cfg" "\<forall>j \<in> set (i # is). input_ok cfg j"
  shows "case bridge_edge cfg i s of Inl e \<Rightarrow> protocol_error e \<and> peer_fault cfg n i s | Inr s' \<Rightarrow> reserved n s'"
proof -
  have inv: "bridge_inv cfg n s l" by (rule bridge_reachable [OF assms(1-3)]) (use assms(4) in simp)
  have "runs (peer_fault cfg n i s) (bridge_edge cfg i s) (\<lambda>s'. bridge_inv cfg n s' (log_edge i s l))"
    by (rule bridge_edge_ok [OF inv assms(3)]) (use assms(4) in \<open>simp add: input_ok_def\<close>)
  then show ?thesis by (auto simp: runs_def bridge_inv_def split: sum.splits)
qed

text \<open>A bridge with two planes, two read requests at its input, and a misaligned one.\<close>

definition ar_input :: "ax_channel \<Rightarrow> bridge_input" where
  "ar_input ax = \<lparr>bi_aw_valid = True, bi_aw = ax, bi_w_valid = False, bi_w = sample_w, bi_ar_valid = True, bi_ar = ax,
     bi_b_ready = True, bi_r_ready = True, bi_flit_ready = True, bi_flit_in = flit_transfer0\<rparr>"

definition bridge_sample :: "bridge_input list" where
  "bridge_sample = [ar_input (sample_ax\<lparr>ax_burst := 1\<rparr>), ar_input (sample_ax\<lparr>ax_burst := 1, ax_qos := 3\<rparr>)]"

lemma bridge_sample_run:
  obtains s0 s l where "bridge_reset B256 2 = Inr s0" "bridge_session B256 bridge_sample (s0, bridge_log0) = Inr (s, l)"
    "\<forall>j \<in> set bridge_sample. input_ok B256 j"
proof -
  obtain s0 where s0: "bridge_reset B256 2 = Inr s0"
    by (simp add: bridge_reset_def packer_reset_def unpacker_reset_def cm_make_initiator_def cm_make_def MAX_RESOURCE_PLANES_def)
  have calm: "\<forall>i \<in> set bridge_sample. calm B256 i"
    by (simp add: bridge_sample_def calm_def ar_input_def flit_transfer0_def axi_request_error_def sample_ax_def ax_channel0_def
        AXI_SIZE_CODE_def Let_def)
  obtain s l where s: "bridge_session B256 bridge_sample (s0, bridge_log0) = Inr (s, l)"
    using calm_session [OF bridge_reset_inv [OF s0] _ sample_w_ok(2) calm] by (auto simp: bridge_log0_def)
  show ?thesis by (rule that [OF s0 s]) (simp add: bridge_sample_def input_ok_def ar_input_def)
qed

theorem bridge_blames_peer_witness:
  "\<exists>s0 s l. bridge_reset B256 2 = Inr s0 \<and> bridge_session B256 bridge_sample (s0, bridge_log0) = Inr (s, l) \<and>
     (case bridge_edge B256 (ar_input (sample_ax\<lparr>ax_addr := 3\<rparr>)) s of
        Inl e \<Rightarrow> protocol_error e \<and> peer_fault B256 2 (ar_input (sample_ax\<lparr>ax_addr := 3\<rparr>)) s | Inr s' \<Rightarrow> reserved 2 s')"
proof -
  obtain s0 s l where s: "bridge_reset B256 2 = Inr s0" "bridge_session B256 bridge_sample (s0, bridge_log0) = Inr (s, l)"
    "\<forall>j \<in> set bridge_sample. input_ok B256 j" by (rule bridge_sample_run)
  have "\<forall>j \<in> set (ar_input (sample_ax\<lparr>ax_addr := 3\<rparr>) # bridge_sample). input_ok B256 j"
    using s(3) by (simp add: input_ok_def ar_input_def)
  from bridge_blames_peer [OF s(1,2) sample_w_ok(2) this] s show ?thesis by blast
qed

text \<open>
  C7. The transmit half of the bridge, from the AXI pins to the link: the flits handed over decode
  without error at a receiver, and for every plane what is decoded, what is still inside a flit,
  and what still waits are together exactly the messages of the accepted beats, in the order of
  acceptance: read requests, write requests, and write data.
\<close>

theorem bridge_transmits:
  assumes "bridge_reset cfg n = Inr s0" "bridge_session cfg is (s0, bridge_log0) = Inr (s, l)"
    and "cfg_ok cfg" "\<forall>j \<in> set is. input_ok cfg j"
  shows "\<exists>d ms. receive_all sd_consume stream_decoder0 (bl_sent l) = Inr (d, ms) \<and>
    (\<forall>cl rp. \<exists>inside. of_class cl rp ms @ inside @ map strip_msg (waiting (ab_packer s) (ab_queues s) cl rp) =
       map strip_msg (tx_built cfg n l cl rp) \<and> (idle (ab_packer s) \<longrightarrow> inside = []))"
proof -
  obtain gr xs c ps where "session_inv (ab_packer s) (ab_queues s) (bl_sent l) (tx_built cfg n l) gr xs c ps"
    and "\<And>cl rp m. m \<in> set (tx_built cfg n l cl rp) \<Longrightarrow> ok_msg cl rp m"
    using bridge_reachable [OF assms] unfolding bridge_inv_def by blast
  then show ?thesis by (rule session_inv_accounts)
qed

theorem bridge_transmits_witness:
  "\<exists>s0 s l d ms inside. bridge_reset B256 2 = Inr s0 \<and> bridge_session B256 bridge_sample (s0, bridge_log0) = Inr (s, l) \<and>
     receive_all sd_consume stream_decoder0 (bl_sent l) = Inr (d, ms) \<and>
     of_class TxRead 1 ms @ inside @ map strip_msg (waiting (ab_packer s) (ab_queues s) TxRead 1) =
       map strip_msg (tx_built B256 2 l TxRead 1)"
proof -
  obtain s0 s l where s: "bridge_reset B256 2 = Inr s0" "bridge_session B256 bridge_sample (s0, bridge_log0) = Inr (s, l)"
    "\<forall>j \<in> set bridge_sample. input_ok B256 j" by (rule bridge_sample_run)
  from bridge_transmits [OF s(1,2) sample_w_ok(2) s(3)] s show ?thesis by blast
qed

text \<open>
  C8. The receive half, from the link to the AXI pins: for each plane the read data messages that
  left on the R channel, the one on the pins, those queued and those held by the unpacker are
  together exactly the read data messages of the taken flits, in order; the same holds for write
  responses and the B channel.
\<close>

theorem bridge_receives:
  assumes "bridge_reset cfg n = Inr s0" "bridge_session cfg is (s0, bridge_log0) = Inr (s, l)"
    and "cfg_ok cfg" "\<forall>j \<in> set is. input_ok cfg j"
  shows "\<exists>d ms. receive_all sd_consume stream_decoder0 (bl_taken l) = Inr (d, ms) \<and> (\<forall>rp < n.
    of_type ReadData rp (bl_r l @ r_held (ab_r s)) @ ab_rdata s rp @ of_type ReadData rp (pending_messages (ab_unpacker s)) =
      of_type ReadData rp ms \<and>
    of_type WriteResp rp (bl_b l @ b_held (ab_b s)) @ ab_wresp s rp @ of_type WriteResp rp (pending_messages (ab_unpacker s)) =
      of_type WriteResp rp ms)"
proof -
  obtain mss where "decode_flits stream_decoder0 (bl_taken l) = Inr (fu_decoder (ab_unpacker s), mss)" "rx_account n s l (concat mss)"
    using bridge_reachable [OF assms] unfolding bridge_inv_def by blast
  then show ?thesis by (auto simp: decode_flits_receive rx_account_def)
qed

theorem bridge_receives_witness:
  "\<exists>s0 s l d ms. bridge_reset B256 2 = Inr s0 \<and> bridge_session B256 bridge_sample (s0, bridge_log0) = Inr (s, l) \<and>
     receive_all sd_consume stream_decoder0 (bl_taken l) = Inr (d, ms) \<and>
     of_type ReadData 0 (bl_r l @ r_held (ab_r s)) @ ab_rdata s 0 @ of_type ReadData 0 (pending_messages (ab_unpacker s)) = of_type ReadData 0 ms"
proof -
  obtain s0 s l where s: "bridge_reset B256 2 = Inr s0" "bridge_session B256 bridge_sample (s0, bridge_log0) = Inr (s, l)"
    "\<forall>j \<in> set bridge_sample. input_ok B256 j" by (rule bridge_sample_run)
  from bridge_receives [OF s(1,2) sample_w_ok(2) s(3)] s show ?thesis by fastforce
qed

text \<open>
  C13. Write data follows its address: AXI write beats carry no identifier, so the bridge has to give
  the beats to the planes of the accepted write addresses in their order, \<open>len + 1\<close> beats each. At
  every moment the planes of the beats sent so far are the first part of that plan, and the rest of
  the plan is what the write thread and the route FIFO hold.
\<close>

theorem write_data_follows_address:
  assumes "bridge_reset cfg n = Inr s0" "bridge_session cfg is (s0, bridge_log0) = Inr (s, l)"
    and "cfg_ok cfg" "\<forall>j \<in> set is. input_ok cfg j"
  shows "map fst (bl_w l) @ open_beats (ab_w s) @ concat (map route_beats (ab_routes s)) =
    concat (map (\<lambda>a. replicate (unat (ax_len a) + 1) (plane_of n a)) (bl_aw l))"
  using bridge_reachable [OF assms] unfolding bridge_inv_def write_plan_def by blast

theorem write_data_follows_address_witness:
  "\<exists>s0 s l. bridge_reset B256 2 = Inr s0 \<and> bridge_session B256 bridge_sample (s0, bridge_log0) = Inr (s, l) \<and>
     map fst (bl_w l) @ open_beats (ab_w s) @ concat (map route_beats (ab_routes s)) =
       concat (map (\<lambda>a. replicate (unat (ax_len a) + 1) (plane_of 2 a)) (bl_aw l))"
proof -
  obtain s0 s l where s: "bridge_reset B256 2 = Inr s0" "bridge_session B256 bridge_sample (s0, bridge_log0) = Inr (s, l)"
    "\<forall>j \<in> set bridge_sample. input_ok B256 j" by (rule bridge_sample_run)
  from write_data_follows_address [OF s(1,2) sample_w_ok(2) s(3)] s(1,2) show ?thesis by blast
qed

text \<open>
  C12. The bridge never overdraws the credit of its peer: for each plane and each of the three
  request classes, the granules of the messages a receiver decodes from the flits sent so far are
  at most what the taken flits granted, in their headers and their grant messages.
\<close>

theorem bridge_respects_credit:
  assumes "bridge_reset cfg n = Inr s0" "bridge_session cfg is (s0, bridge_log0) = Inr (s, l)"
    and "cfg_ok cfg" "\<forall>j \<in> set is. input_ok cfg j" and k: "k < 3"
  shows "\<exists>d ms e mss. receive_all sd_consume stream_decoder0 (bl_sent l) = Inr (d, ms) \<and>
    decode_flits stream_decoder0 (bl_taken l) = Inr (e, mss) \<and>
    credit_use ms rp k \<le> update_sum (concat (map (flit_credits n) (zip (bl_taken l) mss))) rp k"
proof -
  obtain gr xs c ps mss where inv: "session_inv (ab_packer s) (ab_queues s) (bl_sent l) (tx_built cfg n l) gr xs c ps"
    and ok: "\<And>cl rp m. m \<in> set (tx_built cfg n l cl rp) \<Longrightarrow> ok_msg cl rp m"
    and dec: "decode_flits stream_decoder0 (bl_taken l) = Inr (fu_decoder (ab_unpacker s), mss)"
    and cred: "gr rp k + update_sum (ab_updates s @ pending_credits (ab_unpacker s)) rp k =
      update_sum (concat (map (flit_credits n) (zip (bl_taken l) mss))) rp k"
    using bridge_reachable [OF assms(1-4)] unfolding bridge_inv_def by blast
  obtain d ms rest where rec: "receive_all sd_consume stream_decoder0 (bl_sent l) = Inr (d, ms)"
    "map strip_msg (started xs @ map fst ps) = ms @ rest" using session_received [OF inv] by blast
  have "credit_use ms rp k \<le> credit_use (map strip_msg (started xs @ map fst ps)) rp k" unfolding rec(2) by simp
  also have "\<dots> = credit_use (started xs @ map fst ps) rp k"
    by (rule credit_use_request [OF _ k]) (rule started_ok [OF inv ok])
  also have "\<dots> \<le> gr rp k"
  proof -
    have "cm_tx_available (fp_credits (ab_packer s)) rp k + credit_use (started xs @ map fst ps) rp k \<le> gr rp k"
      using inv k unfolding session_inv_def by fastforce
    then show ?thesis by (rule add_leD2)
  qed
  finally show ?thesis using rec(1) dec cred by fastforce
qed

theorem bridge_respects_credit_witness:
  "\<exists>s0 s l d ms e mss. bridge_reset B256 2 = Inr s0 \<and> bridge_session B256 bridge_sample (s0, bridge_log0) = Inr (s, l) \<and>
     receive_all sd_consume stream_decoder0 (bl_sent l) = Inr (d, ms) \<and> decode_flits stream_decoder0 (bl_taken l) = Inr (e, mss) \<and>
     credit_use ms 1 1 \<le> update_sum (concat (map (flit_credits 2) (zip (bl_taken l) mss))) 1 1"
proof -
  obtain s0 s l where s: "bridge_reset B256 2 = Inr s0" "bridge_session B256 bridge_sample (s0, bridge_log0) = Inr (s, l)"
    "\<forall>j \<in> set bridge_sample. input_ok B256 j" by (rule bridge_sample_run)
  have "(1 :: nat) < 3" by simp
  from bridge_respects_credit [OF s(1,2) sample_w_ok(2) s(3) this] s show ?thesis by blast
qed

text \<open>A flit with one write response, for the unpacker's property.\<close>

definition response_flit :: aou_flit where
  "response_flit = fst (pack_fragment aou_flit0 (build_write_resp b_channel0 1) 0)"

lemma response_decodable: "decodable [response_flit]"
proof -
  let ?m = "build_write_resp b_channel0 1"
  obtain f t where f: "pack_fragment aou_flit0 ?m 0 = (f, t)" by (cases "pack_fragment aou_flit0 ?m 0")
  have room: "fl_used_granules aou_flit0 < 48" by (simp add: aou_flit0_def)
  note N = pack_new [OF layout_empty room resp_wf f]
  have lay: "flit_layout response_flit None [(?m, nat t)]" using N(2) f by (simp add: response_flit_def)
  have "stream_from None [(response_flit, [(?m, nat t)])] (cut_after [(?m, nat t)])" using lay by simp
  then obtain s' where "receive_all sd_consume stream_decoder0 [response_flit] = Inr (s', completed None [(response_flit, [(?m, nat t)])])"
    using decoder.receive_stream [OF _ decoder.knows_fresh] by fastforce
  then have "\<exists>r. decode_flits stream_decoder0 [response_flit] = Inr r"
    by (cases "decode_flits stream_decoder0 [response_flit]") (simp_all add: decode_flits_receive del: decode_flits.simps receive_all.simps)
  moreover have "fl_fdid response_flit = 0" using pack_fragment_fdid(1) [OF f] f by (simp add: response_flit_def aou_flit0_def)
  ultimately show ?thesis by (simp add: decodable_def)
qed

theorem unpacker_delivers_witness:
  "\<exists>u0 fs' u k taken d mss. unpacker_reset 2 = Inr u0 \<and> decodable [response_flit] \<and>
     unpacker_session (replicate 2 \<lparr>ur_credit = 1, ur_rdata = \<lambda>_. 0, ur_wresp = \<lambda>_. 1\<rparr>) ([response_flit], u0, sinks0) = Inr (fs', u, k) \<and>
     [response_flit] = taken @ fs' \<and> decode_flits stream_decoder0 taken = Inr (d, mss) \<and>
     us_wresp k 1 @ of_type WriteResp 1 (pending_messages u) = of_type WriteResp 1 (concat mss)"
proof -
  obtain u0 where u0: "unpacker_reset 2 = Inr u0" by (simp add: unpacker_reset_def MAX_RESOURCE_PLANES_def)
  have "(1 :: nat) < 2" by simp
  with unpacker_delivers [OF u0 response_decodable, of "replicate 2 \<lparr>ur_credit = 1, ur_rdata = \<lambda>_. 0, ur_wresp = \<lambda>_. 1\<rparr>"]
    response_decodable u0 show ?thesis by blast
qed

end
