(* ===== verification/Order_Guard.thy ===== *)
theory Order_Guard
  imports Axi_Bridge
begin

text \<open>
  What \<^verbatim>\<open>RpOrderGuard\<close> promises (\<^verbatim>\<open>rp_order_guard.h\<close>): its table of one plane and one counter per
  identifier is compared with the full history, a queue of the planes of the transactions that are
  still outstanding. The 32-bit counters are natural numbers: no identifier has \<open>2 ^ 32\<close>
  transactions outstanding.
\<close>

datatype order_event = Bind u16 u8 | Retire u16

definition og_event :: "order_event \<Rightarrow> rp_order_guard \<Rightarrow> rp_order_guard" where
  "og_event e g = (case e of Bind aid rp \<Rightarrow> fst (og_bind aid rp g) | Retire aid \<Rightarrow> og_retire aid g)"

text \<open>The specification: per identifier the planes of its outstanding transactions, oldest first.\<close>

definition planes_event :: "order_event \<Rightarrow> (nat \<Rightarrow> u8 list) \<Rightarrow> nat \<Rightarrow> u8 list" where
  "planes_event e q = (case e of Bind aid rp \<Rightarrow> q(og_index aid := q (og_index aid) @ [rp])
     | Retire aid \<Rightarrow> q(og_index aid := tl (q (og_index aid))))"

fun one_plane :: "order_event list \<Rightarrow> (nat \<Rightarrow> u8 list) \<Rightarrow> bool" where
  "one_plane [] q \<longleftrightarrow> True"
| "one_plane (e # es) q \<longleftrightarrow> (case e of Bind aid rp \<Rightarrow> set (q (og_index aid)) \<subseteq> {rp} | Retire _ \<Rightarrow> True) \<and>
     one_plane es (planes_event e q)"

definition guard_inv :: "rp_order_guard \<Rightarrow> (nat \<Rightarrow> u8 list) \<Rightarrow> bool" where
  "guard_inv g q \<longleftrightarrow> (\<forall>j. oe_outstanding (og_table g j) = length (q j)) \<and>
     (og_violations g = 0 \<longrightarrow> (\<forall>j. \<forall>r \<in> set (q j). r = oe_rp (og_table g j)))"

lemma og_event_violations: "og_violations g \<le> og_violations (og_event e g)"
  by (cases e) (auto simp: og_event_def og_bind_def og_retire_def Let_def)

lemma og_run_violations: "og_violations g \<le> og_violations (fold og_event es g)"
proof (induction es arbitrary: g)
  case (Cons e es)
  then show ?case using og_event_violations [of g e] by (simp add: order_trans)
qed simp

lemma in_tl: "x \<in> set (tl xs) \<Longrightarrow> x \<in> set xs"
  by (cases xs) auto

lemma guard_inv_event: "guard_inv g q \<Longrightarrow> guard_inv (og_event e g) (planes_event e q)"
  by (cases e) (auto simp: guard_inv_def og_event_def planes_event_def og_bind_def og_retire_def Let_def dest!: in_tl)

text \<open>While nothing was reported, the next event is reported exactly if it mixes planes.\<close>

lemma guard_reports:
  assumes "guard_inv g q" "og_violations g = 0"
  shows "og_violations (og_event e g) = 0 \<longleftrightarrow> (case e of Bind aid rp \<Rightarrow> set (q (og_index aid)) \<subseteq> {rp} | Retire _ \<Rightarrow> True)"
proof (cases e)
  case (Bind aid rp)
  have t: "oe_outstanding (og_table g (og_index aid)) = length (q (og_index aid))" "set (q (og_index aid)) \<subseteq> {oe_rp (og_table g (og_index aid))}"
    using assms by (auto simp: guard_inv_def)
  show ?thesis
  proof (cases "q (og_index aid)")
    case (Cons r rs)
    then have "r = oe_rp (og_table g (og_index aid))" using t(2) by simp
    then show ?thesis using t Cons assms(2) by (auto simp: Bind og_event_def og_bind_def Let_def)
  qed (use t assms(2) in \<open>simp add: Bind og_event_def og_bind_def Let_def\<close>)
qed (use assms(2) in \<open>simp add: og_event_def og_retire_def Let_def\<close>)

lemma guard_run:
  "guard_inv g q \<Longrightarrow> og_violations g = 0 \<Longrightarrow> og_violations (fold og_event es g) = 0 \<longleftrightarrow> one_plane es q"
proof (induction es arbitrary: g q)
  case (Cons e es)
  note inv = guard_inv_event [OF Cons.prems(1), of e]
  show ?case
  proof (cases "og_violations (og_event e g) = 0")
    case True
    then show ?thesis using Cons.IH [OF inv True] guard_reports [OF Cons.prems, of e] by simp
  next
    case False
    then have "og_violations (fold og_event (e # es) g) \<noteq> 0" using og_run_violations [of "og_event e g" es] by simp
    then show ?thesis using False guard_reports [OF Cons.prems, of e] by simp
  qed
qed simp

text \<open>
  C24. The order guard is exact: over any history of accepted addresses and completed responses from
  reset, it reports no violation if and only if no transaction was ever accepted on a plane while
  the same identifier had one outstanding on another plane; the check uses one table entry per
  identifier in place of the history.
\<close>

theorem order_guard_exact:
  "og_violations (fold og_event es og_reset) = 0 \<longleftrightarrow> one_plane es (\<lambda>_. [])"
  by (rule guard_run) (simp_all add: guard_inv_def og_reset_def order_entry0_def)

end
