(* ===== verification/Aou_Wire.thy ===== *)
theory Aou_Wire
  imports Aou_Flit
begin

text \<open>
  \<^verbatim>\<open>aou_wire.h\<close> and \<^verbatim>\<open>aou_format6.h\<close>: the 250-byte protocol content of a flit, and its fixed
  scattering over the 256-byte physical frame.
\<close>

section \<open>Protocol content\<close>

definition serialize_aou :: "aou_flit \<Rightarrow> u8 list result" where
  "serialize_aou f =
     (if fl_fdid f > 3 \<or> drop_bit 48 (fl_msg_start f) \<noteq> 0
      then Inl (InvalidArgument ''FDId/MsgStart width'')
      else let s = fl_msg_start f; c = fl_msg_credit f in
        Inr ([fl_fdid f OR ucast (push_bit 4 (s AND 0xF)),
              ucast (drop_bit 4 s AND 0xFF),
              ucast (push_bit 4 (drop_bit 12 s AND 0xF)),
              ucast (drop_bit 16 s AND 0xFF),
              ucast (c AND 0xFF),
              ucast (drop_bit 8 c),
              ucast (push_bit 4 (drop_bit 24 s AND 0xF)),
              ucast (drop_bit 28 s AND 0xFF),
              ucast (push_bit 4 (drop_bit 36 s AND 0xF)),
              ucast (drop_bit 40 s AND 0xFF)] @ take 240 (fl_payload f)))"

definition deserialize_aou :: "u8 list \<Rightarrow> aou_flit result" where
  "deserialize_aou b =
     (if b ! 0 AND 0x0C \<noteq> 0 \<or> b ! 2 AND 0x0F \<noteq> 0 \<or> b ! 6 AND 0x0F \<noteq> 0 \<or> b ! 8 AND 0x0F \<noteq> 0
      then Inl (InvalidArgument ''reserved header bits'')
      else Inr (aou_flit0\<lparr>fl_fdid := b ! 0 AND 3,
        fl_msg_start := ucast (drop_bit 4 (b ! 0)) OR push_bit 4 (ucast (b ! 1)) OR
          push_bit 12 (ucast (drop_bit 4 (b ! 2))) OR push_bit 16 (ucast (b ! 3)) OR
          push_bit 24 (ucast (drop_bit 4 (b ! 6))) OR push_bit 28 (ucast (b ! 7)) OR
          push_bit 36 (ucast (drop_bit 4 (b ! 8))) OR push_bit 40 (ucast (b ! 9)),
        fl_msg_credit := ucast (b ! 4) OR push_bit 8 (ucast (b ! 5)),
        fl_payload := take 240 (drop 10 b), fl_used_granules := -1, fl_valid := True\<rparr>))"

text \<open>One four-bit and one eight-bit field of the start map, put back in its place.\<close>

lemma bit_nibble_field:
  "bit (push_bit k (ucast (drop_bit 4 (ucast (push_bit 4 (x AND 0xF)) :: u8))) :: u64) n \<longleftrightarrow>
     k \<le> n \<and> n < 64 \<and> n - k < 4 \<and> bit (x :: u64) (n - k)"
proof -
  have m: "(0xF :: u64) = mask 4" by (simp add: mask_eq_exp_minus_1)
  have "bit (ucast (drop_bit 4 (ucast (push_bit 4 (x AND 0xF)) :: u8)) :: u64) i \<longleftrightarrow> i < 4 \<and> bit x i" for i
    unfolding m by (auto simp: bit_simps)
  then show ?thesis by (simp add: bit_push_bit_iff)
qed

lemma bit_byte_field:
  "bit (push_bit k (ucast (ucast (x AND 0xFF) :: u8)) :: u64) n \<longleftrightarrow>
     k \<le> n \<and> n < 64 \<and> n - k < 8 \<and> bit (x :: u64) (n - k)"
proof -
  have m: "(0xFF :: u64) = mask 8" by (simp add: mask_eq_exp_minus_1)
  have "bit (ucast (ucast (x AND 0xFF) :: u8) :: u64) i \<longleftrightarrow> i < 8 \<and> bit x i" for i
    unfolding m by (auto simp: bit_simps)
  then show ?thesis by (simp add: bit_push_bit_iff)
qed

text \<open>The fields of the start map do not overlap and cover 48 bits.\<close>

lemma start_map_fields:
  fixes s :: u64
  assumes "drop_bit 48 s = 0"
  shows "push_bit 0 (ucast (drop_bit 4 (ucast (push_bit 4 (s AND 0xF)) :: u8))) OR
    push_bit 4 (ucast (ucast (drop_bit 4 s AND 0xFF) :: u8)) OR
    push_bit 12 (ucast (drop_bit 4 (ucast (push_bit 4 (drop_bit 12 s AND 0xF)) :: u8))) OR
    push_bit 16 (ucast (ucast (drop_bit 16 s AND 0xFF) :: u8)) OR
    push_bit 24 (ucast (drop_bit 4 (ucast (push_bit 4 (drop_bit 24 s AND 0xF)) :: u8))) OR
    push_bit 28 (ucast (ucast (drop_bit 28 s AND 0xFF) :: u8)) OR
    push_bit 36 (ucast (drop_bit 4 (ucast (push_bit 4 (drop_bit 36 s AND 0xF)) :: u8))) OR
    push_bit 40 (ucast (ucast (drop_bit 40 s AND 0xFF) :: u8)) = s"
proof (rule bit_word_eqI, goal_cases)
  case (1 n)
  have top: "i < 48" if "bit s i" for i
  proof (rule ccontr)
    assume "\<not> i < 48"
    then have "bit (drop_bit 48 s) (i - 48)" using that by (simp add: bit_drop_bit_eq)
    then show False by (simp add: assms)
  qed
  have at: "k \<le> n \<and> n < 64 \<and> n - k < w \<and> bit (drop_bit k s) (n - k) \<longleftrightarrow> k \<le> n \<and> n < k + w \<and> bit s n" if "k + w \<le> 48" for k w
    using that by (auto simp: bit_drop_bit_eq)
  have join: "(0 \<le> n \<and> n < 0 + 4 \<and> b \<or> 4 \<le> n \<and> n < 4 + 8 \<and> b \<or> 12 \<le> n \<and> n < 12 + 4 \<and> b \<or>
      16 \<le> n \<and> n < 16 + 8 \<and> b \<or> 24 \<le> n \<and> n < 24 + 4 \<and> b \<or> 28 \<le> n \<and> n < 28 + 8 \<and> b \<or>
      36 \<le> n \<and> n < 36 + 4 \<and> b \<or> 40 \<le> n \<and> n < 40 + 8 \<and> b) \<longleftrightarrow> b \<and> n < 48" for b
    by linarith
  have f0: "0 \<le> n \<and> n < 64 \<and> n - 0 < 4 \<and> bit s (n - 0) \<longleftrightarrow> 0 \<le> n \<and> n < 0 + 4 \<and> bit s n"
    using at [of 0 4] by simp
  have "bit s n \<and> n < 48 \<longleftrightarrow> bit s n" using top by blast
  then show ?case
    unfolding bit_or_iff bit_nibble_field bit_byte_field f0
    using at [of 4 8] at [of 12 4] at [of 16 8] at [of 24 4] at [of 28 8] at [of 36 4] at [of 40 8] join [of "bit s n"]
    by (simp only: disj_assoc)
qed

lemma credit_fields: "ucast (ucast (c AND 0xFF) :: u8) OR push_bit 8 (ucast (ucast (drop_bit 8 c) :: u8)) = (c :: u16)"
proof -
  have m: "(0xFF :: u16) = mask 8" by (simp add: mask_eq_exp_minus_1)
  show ?thesis unfolding m by (rule bit_word_eqI) (auto simp: bit_simps)
qed

lemma reserved_nibble: "ucast (push_bit 4 (x AND 0xF)) AND (0x0F :: u8) = 0" for x :: u64
proof -
  have m: "(0xF :: 'a::len word) = mask 4" by (simp add: mask_eq_exp_minus_1)
  show ?thesis unfolding m by (rule bit_word_eqI) (auto simp: bit_simps)
qed

lemma header_byte0:
  fixes x :: u64
  assumes "d \<le> 3"
  shows "(d OR ucast (push_bit 4 (x AND 0xF))) AND 0x0C = (0 :: u8)"
    "(d OR ucast (push_bit 4 (x AND 0xF))) AND 3 = d"
    "drop_bit 4 (d OR ucast (push_bit 4 (x AND 0xF))) = drop_bit 4 (ucast (push_bit 4 (x AND 0xF)) :: u8)"
proof -
  have m: "(0xF :: u64) = mask 4" "(3 :: u8) = mask 2" "(0x0C :: u8) = push_bit 2 (mask 2)"
    by (simp_all add: mask_eq_exp_minus_1)
  have "unat d \<in> {0, 1, 2, 3}" using assms by (auto simp: word_le_nat_alt)
  then have "d \<in> {0, 1, 2, 3}" by (auto simp: word_unat_eq_iff)
  then have "d AND mask 2 = d" by (auto simp: mask_eq_exp_minus_1)
  then have d: "bit d i \<Longrightarrow> i < 2" for i
    by (metis bit_and_iff bit_mask_iff)
  show "(d OR ucast (push_bit 4 (x AND 0xF))) AND 0x0C = (0 :: u8)"
    "(d OR ucast (push_bit 4 (x AND 0xF))) AND 3 = d"
    "drop_bit 4 (d OR ucast (push_bit 4 (x AND 0xF))) = drop_bit 4 (ucast (push_bit 4 (x AND 0xF)) :: u8)"
    unfolding m by (rule bit_word_eqI, auto simp: bit_simps dest: d)+
qed

lemma serialize_roundtrip:
  assumes "fl_fdid f \<le> 3" "drop_bit 48 (fl_msg_start f) = 0" "length (fl_payload f) = 240"
  obtains b where "serialize_aou f = Inr b" "length b = 250"
    "deserialize_aou b = Inr (f\<lparr>fl_used_granules := -1, fl_valid := True\<rparr>)"
proof -
  let ?s = "fl_msg_start f"
  define b :: "u8 list" where "b = [fl_fdid f OR ucast (push_bit 4 (?s AND 0xF)), ucast (drop_bit 4 ?s AND 0xFF),
    ucast (push_bit 4 (drop_bit 12 ?s AND 0xF)), ucast (drop_bit 16 ?s AND 0xFF), ucast (fl_msg_credit f AND 0xFF),
    ucast (drop_bit 8 (fl_msg_credit f)), ucast (push_bit 4 (drop_bit 24 ?s AND 0xF)), ucast (drop_bit 28 ?s AND 0xFF),
    ucast (push_bit 4 (drop_bit 36 ?s AND 0xF)), ucast (drop_bit 40 ?s AND 0xFF)] @ take 240 (fl_payload f)"
  have legal: "\<not> (3 < fl_fdid f \<or> drop_bit 48 ?s \<noteq> 0)" using leD [OF assms(1)] assms(2) by blast
  have b: "serialize_aou f = Inr b" unfolding serialize_aou_def Let_def b_def by (rule if_not_P [OF legal])
  have len: "length b = 250" and pay: "take 240 (drop 10 b) = fl_payload f" by (simp_all add: b_def assms(3))
  have n: "b ! 0 = fl_fdid f OR ucast (push_bit 4 (fl_msg_start f AND 0xF))" "b ! 1 = ucast (drop_bit 4 (fl_msg_start f) AND 0xFF)"
    "b ! 2 = ucast (push_bit 4 (drop_bit 12 (fl_msg_start f) AND 0xF))" "b ! 3 = ucast (drop_bit 16 (fl_msg_start f) AND 0xFF)"
    "b ! 4 = ucast (fl_msg_credit f AND 0xFF)" "b ! 5 = ucast (drop_bit 8 (fl_msg_credit f))"
    "b ! 6 = ucast (push_bit 4 (drop_bit 24 (fl_msg_start f) AND 0xF))" "b ! 7 = ucast (drop_bit 28 (fl_msg_start f) AND 0xFF)"
    "b ! 8 = ucast (push_bit 4 (drop_bit 36 (fl_msg_start f) AND 0xF))" "b ! 9 = ucast (drop_bit 40 (fl_msg_start f) AND 0xFF)"
    by (simp_all add: b_def nth_append)
  have "deserialize_aou b = Inr (aou_flit0\<lparr>fl_fdid := fl_fdid f, fl_msg_start := fl_msg_start f,
      fl_msg_credit := fl_msg_credit f, fl_payload := fl_payload f, fl_used_granules := -1, fl_valid := True\<rparr>)"
    unfolding deserialize_aou_def n pay header_byte0 [OF assms(1)] reserved_nibble
    using start_map_fields [OF assms(2)] credit_fields [of "fl_msg_credit f"]
    by (simp only: push_bit_0_id id_apply) simp
  then show ?thesis using that [OF b len] by (cases f) (simp add: aou_flit0_def)
qed

section \<open>Format 6\<close>

definition ph_offsets :: "nat list" where
  "ph_offsets = [62, 63, 64, 65, 128, 129, 190, 191, 192, 193]"

definition scatter :: "u8 list \<Rightarrow> u8 list \<Rightarrow> u8 list \<Rightarrow> u8 list" where
  "scatter plp fh crc =
     (let frame = replicate 256 0;
          frame = store_loop 0 2 (\<lambda>i. fh ! i) frame;
          frame = fold (\<lambda>i frame. frame[ph_offsets ! i := plp ! i]) [0..<length ph_offsets] frame;
          frame = fold (\<lambda>block frame. store_loop (block * 64 + 2) 60 (\<lambda>i. plp ! (10 + block * 60 + i)) frame)
                    [0..<4] frame
      in frame[126 := crc ! 0, 127 := crc ! 1, 254 := crc ! 2, 255 := crc ! 3])"

definition gather :: "u8 list \<Rightarrow> u8 list" where
  "gather frame =
     (let plp = replicate 250 0;
          plp = fold (\<lambda>i plp. plp[i := frame ! (ph_offsets ! i)]) [0..<length ph_offsets] plp
      in fold (\<lambda>block plp. store_loop (10 + block * 60) 60 (\<lambda>i. frame ! (block * 64 + 2 + i)) plp) [0..<4] plp)"

lemma upt_unroll: "[0..<4] = [0, 1, 2, 3 :: nat]"
  "[0..<length ph_offsets] = [0, 1, 2, 3, 4, 5, 6, 7, 8, 9 :: nat]"
  by (simp_all add: upt_rec ph_offsets_def)

lemmas scatter_unrolled = scatter_def [unfolded Let_def upt_unroll]
  and gather_unrolled = gather_def [unfolded Let_def upt_unroll]

text \<open>Where each byte of the frame comes from.\<close>

lemma length_scatter [simp]: "length (scatter plp fh crc) = 256"
  by (simp add: scatter_unrolled ph_offsets_def)

lemma scatter_header: "scatter plp fh crc ! 0 = fh ! 0" "scatter plp fh crc ! 1 = fh ! 1"
  by (simp_all add: scatter_unrolled ph_offsets_def nth_store_loop)

lemma scatter_ph:
  "i < 10 \<Longrightarrow> scatter plp fh crc ! (ph_offsets ! i) = plp ! i"
proof -
  assume "i < 10"
  then have "i \<in> {0, 1, 2, 3, 4, 5, 6, 7, 8, 9}" by auto
  then show ?thesis
    by (elim insertE emptyE) (simp_all add: scatter_unrolled ph_offsets_def nth_store_loop)
qed

lemma scatter_data:
  assumes "block < 4" "k < 60"
  shows "scatter plp fh crc ! (block * 64 + 2 + k) = plp ! (10 + block * 60 + k)"
proof -
  have "block \<in> {0, 1, 2, 3}" using assms(1) by auto
  then show ?thesis using assms(2)
    by (elim insertE emptyE) (simp_all add: scatter_unrolled ph_offsets_def nth_store_loop nth_list_update)
qed

lemma gather_scatter:
  assumes "length plp = 250"
  shows "gather (scatter plp fh crc) = plp"
proof (rule nth_equalityI)
  show "length (gather (scatter plp fh crc)) = length plp" using assms by (simp add: gather_unrolled ph_offsets_def)
  fix j assume "j < length (gather (scatter plp fh crc))"
  then have j: "j < 250" by (simp add: gather_unrolled ph_offsets_def)
  let ?s = "scatter plp fh crc"
  have ph: "?s ! 62 = plp ! 0" "?s ! 63 = plp ! 1" "?s ! 64 = plp ! 2" "?s ! 65 = plp ! 3" "?s ! 128 = plp ! 4"
    "?s ! 129 = plp ! 5" "?s ! 190 = plp ! 6" "?s ! 191 = plp ! 7" "?s ! 192 = plp ! 8" "?s ! 193 = plp ! 9"
    using scatter_ph [of 0] scatter_ph [of 1] scatter_ph [of 2] scatter_ph [of 3] scatter_ph [of 4]
      scatter_ph [of 5] scatter_ph [of 6] scatter_ph [of 7] scatter_ph [of 8] scatter_ph [of 9]
    by (simp_all add: ph_offsets_def)
  show "gather ?s ! j = plp ! j"
  proof (cases "j < 10")
    case True
    then have "j \<in> {0, 1, 2, 3, 4, 5, 6, 7, 8, 9}" by auto
    then show ?thesis
      by (elim insertE emptyE) (simp_all add: gather_unrolled ph_offsets_def nth_store_loop ph)
  next
    case False
    define block k where "block = (j - 10) div 60" and "k = (j - 10) mod 60"
    have jj: "j = 10 + block * 60 + k" "block < 4" "k < 60" using False j by (simp_all add: block_def k_def)
    then have "block \<in> {0, 1, 2, 3}" by auto
    then have "gather ?s ! (10 + block * 60 + k) = ?s ! (block * 64 + 2 + k)"
      using jj(3) by (elim insertE emptyE)
        (simp_all add: gather_unrolled ph_offsets_def nth_store_loop nth_list_update)
    then show ?thesis using scatter_data [OF jj(2,3)] jj(1) by simp
  qed
qed

end
