(* ===== verification/Ucie_Common.thy ===== *)
theory Ucie_Common
  imports Aou_Wire
begin

text \<open>
  \<^verbatim>\<open>ucie_common.h\<close>: the configuration of the UCIe link and its derived geometry, the CRC, the
  built-in payload generator, and the construction and the check of the three flit formats.
  \<^verbatim>\<open>double\<close> parameters are rationals; the observer callback of \<^verbatim>\<open>LinkStats\<close> is not modelled.
\<close>

section \<open>Configuration\<close>

datatype modulation = PAM4 | NRZ
datatype flit_format = Standard256 | Compact68 | AouFormat6

record ucie_config =
  uc_flit_count :: u64
  uc_flit_format :: flit_format
  uc_payload_file :: string
  uc_response_file :: string
  uc_memory_delay_ui :: u32
  uc_num_lanes :: u32
  uc_lane_rate_gtps :: rat
  uc_modulation :: modulation
  uc_fdi_queue_size :: u32
  uc_retry_buffer_size :: u32
  uc_tx_pipe_ui :: u32
  uc_rx_pipe_ui :: u32
  uc_channel_ui :: u32
  uc_feedback_ui :: u32
  uc_train_ui :: u32
  uc_fdi_interval_ui :: u32
  uc_awgn_sigma :: rat
  uc_jitter_sigma_ui :: rat
  uc_jitter_isi_gain :: rat
  uc_isi_h0 :: rat
  uc_isi_h1 :: rat
  uc_isi_h2 :: rat
  uc_lane_skew_max_ui :: u32
  uc_deskew_depth_ui :: u32
  uc_extra_flit_error_rate :: rat
  uc_cdr_relock_ui :: u32
  uc_cdr_loss_error_fraction :: rat
  uc_cdr_loss_bad_flit_threshold :: u32
  uc_cdr_unlocked_noise_multiplier :: rat
  uc_nak_repeat_frames :: u32
  uc_seed :: u32
  uc_max_time_ui :: u64
  uc_verbose :: bool
  uc_csv_path :: string

definition ucie_config0 :: ucie_config where
  "ucie_config0 = \<lparr>uc_flit_count = 2000, uc_flit_format = Standard256, uc_payload_file = [],
     uc_response_file = [], uc_memory_delay_ui = 32, uc_num_lanes = 16, uc_lane_rate_gtps = 24,
     uc_modulation = PAM4, uc_fdi_queue_size = 64, uc_retry_buffer_size = 64, uc_tx_pipe_ui = 4,
     uc_rx_pipe_ui = 4, uc_channel_ui = 8, uc_feedback_ui = 32, uc_train_ui = 512,
     uc_fdi_interval_ui = 0, uc_awgn_sigma = 5 / 100, uc_jitter_sigma_ui = 1 / 100,
     uc_jitter_isi_gain = 40 / 100, uc_isi_h0 = 1, uc_isi_h1 = 8 / 100, uc_isi_h2 = 3 / 100,
     uc_lane_skew_max_ui = 2, uc_deskew_depth_ui = 8, uc_extra_flit_error_rate = 0,
     uc_cdr_relock_ui = 512, uc_cdr_loss_error_fraction = 10 / 100,
     uc_cdr_loss_bad_flit_threshold = 4, uc_cdr_unlocked_noise_multiplier = 4,
     uc_nak_repeat_frames = 8, uc_seed = 7, uc_max_time_ui = 50000000, uc_verbose = False,
     uc_csv_path = []\<rparr>"

definition bits_per_ui :: "ucie_config \<Rightarrow> u32" where
  "bits_per_ui cfg = (if uc_modulation cfg = PAM4 then 2 else 1)"

definition flit_bytes :: "ucie_config \<Rightarrow> u32" where
  "flit_bytes cfg = (if uc_flit_format cfg = Compact68 then 68 else 256)"

definition payload_bytes :: "ucie_config \<Rightarrow> u32" where
  "payload_bytes cfg =
     (if uc_flit_format cfg = AouFormat6 then 250
      else if uc_flit_format cfg = Standard256 then 236 else 64)"

definition flit_bits :: "ucie_config \<Rightarrow> u32" where
  "flit_bits cfg = flit_bytes cfg * 8"

text \<open>The division by a zero \<^verbatim>\<open>per_ui\<close>, undefined in C++, is a failure value.\<close>

definition serialize_ui :: "ucie_config \<Rightarrow> u32 result" where
  "serialize_ui cfg =
     (let per_ui = uc_num_lanes cfg * bits_per_ui cfg in
      if per_ui = 0 then Inl (LogicError ''division by zero'')
      else Inr ((flit_bits cfg + per_ui - 1) div per_ui))"

definition ui_fs :: "ucie_config \<Rightarrow> rat" where
  "ui_fs cfg = 1000000 / uc_lane_rate_gtps cfg"

definition flit_efficiency :: "ucie_config \<Rightarrow> rat" where
  "flit_efficiency cfg = of_nat (unat (payload_bytes cfg)) / of_nat (unat (flit_bytes cfg))"

definition require_valid_config :: "ucie_config \<Rightarrow> unit result" where
  "require_valid_config cfg =
     (if uc_num_lanes cfg = 0 then Inl (RuntimeError ''num_lanes must be positive'')
      else if uc_lane_rate_gtps cfg \<le> 0 then Inl (RuntimeError ''lane_rate_gtps must be positive'')
      else if uc_fdi_queue_size cfg = 0 then Inl (RuntimeError ''fdi_queue_size must be positive'')
      else if uc_retry_buffer_size cfg = 0 \<or> uc_retry_buffer_size cfg > 127
      then Inl (RuntimeError ''retry_buffer_size must be in [1,127] (7-bit seq window)'')
      else if uc_flit_count cfg = 0 then Inl (RuntimeError ''flit_count must be positive'')
      else if uc_cdr_loss_bad_flit_threshold cfg = 0
      then Inl (RuntimeError ''cdr_loss_bad_flit_threshold must be positive'')
      else if uc_nak_repeat_frames cfg = 0 then Inl (RuntimeError ''nak_repeat_frames must be positive'')
      else Inr ())"

section \<open>CRC-16/CCITT\<close>

definition crc_bit :: "u16 \<Rightarrow> u16" where
  "crc_bit crc = (if crc AND 0x8000 \<noteq> 0 then push_bit 1 crc XOR 0x1021 else push_bit 1 crc)"

definition crc_byte :: "u8 \<Rightarrow> u16 \<Rightarrow> u16" where
  "crc_byte d crc = (crc_bit ^^ 8) (crc XOR push_bit 8 (ucast d))"

definition crc16_ccitt :: "u8 list \<Rightarrow> nat \<Rightarrow> u16" where
  "crc16_ccitt data n = fold (\<lambda>i. crc_byte (data ! i)) [0..<n] 0xFFFF"

section \<open>The payload generator\<close>

definition splitmix64 :: "u64 \<Rightarrow> u64" where
  "splitmix64 x =
     (let x = x + 0x9e3779b97f4a7c15;
          x = (x XOR drop_bit 30 x) * 0xbf58476d1ce4e5b9;
          x = (x XOR drop_bit 27 x) * 0x94d049bb133111eb
      in x XOR drop_bit 31 x)"

definition fill_payload :: "u8 list \<Rightarrow> nat \<Rightarrow> nat \<Rightarrow> u64 \<Rightarrow> u8 list" where
  "fill_payload bytes off len transaction_id =
     snd (fold (\<lambda>i (s, bytes).
       let s = (if i mod 8 = 0 then splitmix64 (s + of_nat i) else s)
       in (s, bytes[off + i := ucast (drop_bit (i mod 8 * 8) s AND 0xFF)]))
       [0..<len] (splitmix64 (transaction_id XOR 0xC001D00D12345678), bytes))"

section \<open>Flits\<close>

definition put_crc :: "nat \<Rightarrow> u16 \<Rightarrow> u8 list \<Rightarrow> u8 list" where
  "put_crc i c b = b[i := ucast (drop_bit 8 c), i + 1 := ucast (c AND 0xFF)]"

definition get_crc :: "u8 list \<Rightarrow> nat \<Rightarrow> u16" where
  "get_crc b i = push_bit 8 (ucast (b ! i)) OR ucast (b ! (i + 1))"

definition build_flit :: "ucie_config \<Rightarrow> nat \<Rightarrow> u8 list \<Rightarrow> bool \<Rightarrow> u8 list result" where
  "build_flit cfg seq payload replay =
     (if length payload > unat (payload_bytes cfg)
      then Inl (RuntimeError ''FDI payload exceeds configured flit payload capacity'')
      else if uc_flit_format cfg = AouFormat6 then
        (if length payload \<noteq> 250 then Inl (RuntimeError ''AoU PLP must be exactly 250B'')
         else let frame = scatter payload [of_nat seq, if replay then 1 else 0] [0, 0, 0, 0];
                  ca = crc16_ccitt frame 126;
                  cb = crc16_ccitt (drop 128 frame) 126
              in Inr (put_crc 254 cb (put_crc 126 ca frame)))
      else let b = (replicate (unat (flit_bytes cfg)) 0)[0 := of_nat seq, 1 := if replay then 1 else 0];
               b = store_loop 2 (length payload) (\<lambda>i. payload ! i) b
           in if uc_flit_format cfg = Standard256
              then let ca = crc16_ccitt b 128; cb = crc16_ccitt (drop 128 b) 124
                   in Inr (put_crc 254 cb (put_crc 252 ca b))
              else Inr (put_crc 66 (crc16_ccitt b 66) b))"

record flit_check =
  fc_crc_ok :: bool
  fc_seq8 :: u8
  fc_replay_flag :: bool

definition check_flit :: "ucie_config \<Rightarrow> u8 list \<Rightarrow> flit_check" where
  "check_flit cfg b =
     (if length b \<noteq> unat (flit_bytes cfg)
      then \<lparr>fc_crc_ok = False, fc_seq8 = 0, fc_replay_flag = False\<rparr>
      else \<lparr>fc_crc_ok =
              (if uc_flit_format cfg = AouFormat6
               then crc16_ccitt b 126 = get_crc b 126 \<and> crc16_ccitt (drop 128 b) 126 = get_crc b 254
               else if uc_flit_format cfg = Standard256
               then crc16_ccitt b 128 = get_crc b 252 \<and> crc16_ccitt (drop 128 b) 124 = get_crc b 254
               else crc16_ccitt b 66 = get_crc b 66),
            fc_seq8 = b ! 0, fc_replay_flag = (b ! 1 AND 1 \<noteq> 0)\<rparr>)"

section \<open>Statistics\<close>

record link_stats =
  ls_tx_new_flits :: nat
  ls_tx_replay_flits :: nat
  ls_ack_count :: nat
  ls_nak_count :: nat
  ls_stale_nak_count :: nat
  ls_crc_fail_count :: nat
  ls_seq_fail_count :: nat
  ls_duplicate_drop_count :: nat
  ls_retry_buffer_full_events :: nat
  ls_max_retry_buffer_occupancy :: nat
  ls_replay_timeout_events :: nat
  ls_total_phy_frames :: nat
  ls_total_symbols :: nat
  ls_symbol_errors :: nat
  ls_total_bits :: nat
  ls_bit_errors :: nat
  ls_deskew_failures :: nat
  ls_extra_error_flits :: nat
  ls_cdr_lock_loss_count :: nat

definition link_stats0 :: link_stats where
  "link_stats0 = \<lparr>ls_tx_new_flits = 0, ls_tx_replay_flits = 0, ls_ack_count = 0, ls_nak_count = 0,
     ls_stale_nak_count = 0, ls_crc_fail_count = 0, ls_seq_fail_count = 0,
     ls_duplicate_drop_count = 0, ls_retry_buffer_full_events = 0,
     ls_max_retry_buffer_occupancy = 0, ls_replay_timeout_events = 0, ls_total_phy_frames = 0,
     ls_total_symbols = 0, ls_symbol_errors = 0, ls_total_bits = 0, ls_bit_errors = 0,
     ls_deskew_failures = 0, ls_extra_error_flits = 0, ls_cdr_lock_loss_count = 0\<rparr>"

section \<open>The CRC is injective in its state and in each byte\<close>

lemma crc_top: "c AND 0x8000 \<noteq> 0 \<longleftrightarrow> bit (c :: u16) 15"
  using bit_iff_and_push_bit_not_eq_0 [of c 15] by (simp add: push_bit_eq_mult)

lemma bit_crc_bit_0: "bit (crc_bit c) 0 \<longleftrightarrow> bit c 15"
  unfolding crc_bit_def crc_top
  by (simp add: bit_xor_iff bit_push_bit_iff del: bit_0 push_bit_Suc_numeral push_bit_of_1) (simp add: bit_0)

lemma xor_cancel: "x XOR a = y XOR a \<longleftrightarrow> x = (y :: 'a::len word)" "a XOR x = a XOR y \<longleftrightarrow> x = y"
  by (metis xor.assoc xor_self_eq xor.right_neutral xor.commute)+

lemma crc_bit_inject [simp]: "crc_bit c = crc_bit c' \<longleftrightarrow> c = c'"
proof
  assume eq: "crc_bit c = crc_bit c'"
  then have top: "bit c 15 \<longleftrightarrow> bit c' 15" by (metis bit_crc_bit_0)
  have "push_bit 1 c = push_bit 1 c'"
    using eq top unfolding crc_bit_def crc_top by (auto simp: xor_cancel split: if_splits)
  then have shifted: "bit (push_bit 1 c) (Suc i) \<longleftrightarrow> bit (push_bit 1 c') (Suc i)" for i by (simp only:)
  have low: "bit c i \<longleftrightarrow> bit c' i" if "i < 15" for i using shifted [of i] that unfolding bit_push_bit_iff by simp
  show "c = c'"
  proof (rule bit_word_eqI)
    fix n assume "n < LENGTH(16)"
    then show "bit c n \<longleftrightarrow> bit c' n" using low [of n] top by (cases "n = 15") simp_all
  qed
qed simp

lemma crc_bits_inject [simp]: "(crc_bit ^^ n) c = (crc_bit ^^ n) c' \<longleftrightarrow> c = c'"
  by (induction n) simp_all

lemma crc_byte_state [simp]: "crc_byte d c = crc_byte d c' \<longleftrightarrow> c = c'"
  by (simp add: crc_byte_def xor_cancel del: funpow.simps)

lemma crc_byte_data [simp]: "crc_byte d c = crc_byte d' c \<longleftrightarrow> d = d'"
proof -
  have "push_bit 8 (ucast d :: u16) = push_bit 8 (ucast d') \<longleftrightarrow> d = d'"
  proof
    assume eq: "push_bit 8 (ucast d :: u16) = push_bit 8 (ucast d')"
    show "d = d'"
    proof (rule bit_word_eqI)
      fix n assume "n < LENGTH(8)"
      then show "bit d n \<longleftrightarrow> bit d' n"
        using arg_cong [OF eq, of "\<lambda>w. bit w (n + 8)"] by (simp add: bit_push_bit_iff bit_ucast_iff)
    qed
  qed simp
  then show ?thesis by (simp add: crc_byte_def xor_cancel del: funpow.simps)
qed

lemma fold_crc_state [simp]:
  "fold (\<lambda>i. crc_byte (f i)) is c = fold (\<lambda>i. crc_byte (f i)) is c' \<longleftrightarrow> c = c'"
  by (induction "is" arbitrary: c c') simp_all

lemma crc16_cong: "(\<And>i. i < n \<Longrightarrow> xs ! i = ys ! i) \<Longrightarrow> crc16_ccitt xs n = crc16_ccitt ys n"
  unfolding crc16_ccitt_def by (rule fold_cong) simp_all

lemma crc16_one_byte:
  assumes "k < n" "xs ! k \<noteq> ys ! k" "\<And>i. i < n \<Longrightarrow> i \<noteq> k \<Longrightarrow> xs ! i = ys ! i"
  shows "crc16_ccitt xs n \<noteq> crc16_ccitt ys n"
proof -
  have split: "[0..<n] = [0..<k] @ k # [Suc k..<n]" using assms(1)
    by (metis upt_add_eq_append [of 0 k "n - k"] upt_conv_Cons le0 less_imp_le add_0 le_add_diff_inverse)
  have pre: "fold (\<lambda>i. crc_byte (xs ! i)) [0..<k] c = fold (\<lambda>i. crc_byte (ys ! i)) [0..<k] c" for c
    using assms by (intro fold_cong) auto
  have post: "fold (\<lambda>i. crc_byte (xs ! i)) [Suc k..<n] c = fold (\<lambda>i. crc_byte (ys ! i)) [Suc k..<n] c" for c
    using assms by (intro fold_cong) auto
  show ?thesis using assms(2) unfolding crc16_ccitt_def split by (simp add: pre post)
qed

section \<open>What the check protects\<close>

text \<open>A group \<^term>\<open>(s, n, p)\<close>: the checksum of the \<^term>\<open>n\<close> bytes from \<^term>\<open>s\<close> stands at \<^term>\<open>p\<close>.\<close>

definition crc_groups :: "ucie_config \<Rightarrow> (nat \<times> nat \<times> nat) list" where
  "crc_groups cfg = (case uc_flit_format cfg of
     AouFormat6 \<Rightarrow> [(0, 126, 126), (128, 126, 254)]
   | Standard256 \<Rightarrow> [(0, 128, 252), (128, 124, 254)]
   | Compact68 \<Rightarrow> [(0, 66, 66)])"

definition group_ok :: "u8 list \<Rightarrow> nat \<times> nat \<times> nat \<Rightarrow> bool" where
  "group_ok b g = (case g of (s, n, p) \<Rightarrow> crc16_ccitt (drop s b) n = get_crc b p)"

lemma check_flit_groups:
  "length b = unat (flit_bytes cfg) \<Longrightarrow> fc_crc_ok (check_flit cfg b) \<longleftrightarrow> list_all (group_ok b) (crc_groups cfg)"
  by (cases "uc_flit_format cfg") (auto simp: check_flit_def crc_groups_def group_ok_def)

lemma check_flit_fields:
  "length b = unat (flit_bytes cfg) \<Longrightarrow> fc_seq8 (check_flit cfg b) = b ! 0"
  "length b = unat (flit_bytes cfg) \<Longrightarrow> fc_replay_flag (check_flit cfg b) \<longleftrightarrow> b ! 1 AND 1 \<noteq> 0"
  by (auto simp: check_flit_def)

lemma length_flit: "unat (flit_bytes cfg) = (if uc_flit_format cfg = Compact68 then 68 else 256)"
  by (simp add: flit_bytes_def)

lemma crc_fields: "push_bit 8 (ucast (ucast (drop_bit 8 c) :: u8)) OR ucast (ucast (c AND 0xFF) :: u8) = (c :: u16)"
  using credit_fields [of c] by (simp only: or.commute)

lemma crc_pair_inject:
  "push_bit 8 (ucast (a :: u8)) OR ucast (b :: u8) = (push_bit 8 (ucast a') OR ucast b' :: u16) \<longleftrightarrow> a = a' \<and> b = b'"
proof
  assume eq: "push_bit 8 (ucast a) OR ucast b = (push_bit 8 (ucast a') OR ucast b' :: u16)"
  have bits: "bit (push_bit 8 (ucast a) OR ucast b :: u16) n \<longleftrightarrow> bit (push_bit 8 (ucast a') OR ucast b' :: u16) n" for n
    by (simp only: eq)
  have "bit a n \<longleftrightarrow> bit a' n" if "n < 8" for n
    using bits [of "n + 8"] that by (simp add: bit_or_iff bit_push_bit_iff bit_ucast_iff)
      (use bit_imp_le_length [of b "n + 8"] bit_imp_le_length [of b' "n + 8"] in auto)
  moreover have "bit b n \<longleftrightarrow> bit b' n" if "n < 8" for n
    using bits [of n] that by (simp add: bit_or_iff bit_push_bit_iff bit_ucast_iff)
  ultimately show "a = a' \<and> b = b'" by (auto intro!: bit_word_eqI)
qed simp

lemma get_crc_put_crc: "i + 1 < length b \<Longrightarrow> get_crc (put_crc i c b) i = c"
  by (simp add: get_crc_def put_crc_def crc_fields)

lemma put_crc_other [simp]:
  "j \<noteq> i \<Longrightarrow> j \<noteq> i + 1 \<Longrightarrow> put_crc i c b ! j = b ! j"
  "length (put_crc i c b) = length b"
  by (simp_all add: put_crc_def)

lemma group_ok_corrupt:
  assumes ok: "group_ok b (s, n, p)" and len: "s + n \<le> length b" "p + 1 < length b"
    and disj: "s + n \<le> p \<or> p + 1 < s" and k: "s \<le> k \<and> k < s + n \<or> k = p \<or> k = p + 1" and v: "v \<noteq> b ! k"
  shows "\<not> group_ok (b[k := v]) (s, n, p)"
proof (cases "s \<le> k \<and> k < s + n")
  case True
  then have "get_crc (b[k := v]) p = get_crc b p" using disj by (auto simp: get_crc_def nth_list_update)
  moreover have "crc16_ccitt (drop s (b[k := v])) n \<noteq> crc16_ccitt (drop s b) n"
    by (rule crc16_one_byte [of "k - s"]) (use True len v in \<open>auto simp: nth_list_update\<close>)
  ultimately show ?thesis using ok by (simp add: group_ok_def)
next
  case False
  then have "crc16_ccitt (drop s (b[k := v])) n = crc16_ccitt (drop s b) n"
    using len by (intro crc16_cong) (auto simp: nth_list_update)
  moreover have "get_crc (b[k := v]) p \<noteq> get_crc b p"
    using False k v len unfolding get_crc_def crc_pair_inject by (auto simp: nth_list_update)
  ultimately show ?thesis using ok by (simp add: group_ok_def)
qed

lemma corrupt_byte_detected:
  assumes len: "length b = unat (flit_bytes cfg)" and ok: "fc_crc_ok (check_flit cfg b)"
    and k: "k < length b" and v: "v \<noteq> b ! k"
  shows "\<not> fc_crc_ok (check_flit cfg (b[k := v]))"
proof -
  have all: "list_all (group_ok b) (crc_groups cfg)" using ok len by (simp add: check_flit_groups)
  have hit: "\<not> list_all (group_ok (b[k := v])) (crc_groups cfg)"
    if "(s, n, p) \<in> set (crc_groups cfg)" "s \<le> k \<and> k < s + n \<or> k = p \<or> k = p + 1"
      "s + n \<le> length b" "p + 1 < length b" "s + n \<le> p \<or> p + 1 < s" for s n p
    using group_ok_corrupt [of b s n p k v] that all v by (auto simp: list_all_iff)
  have "\<not> list_all (group_ok (b[k := v])) (crc_groups cfg)"
  proof (cases "uc_flit_format cfg")
    case Standard256
    then have "length b = 256" using len by (simp add: length_flit)
    moreover have "crc_groups cfg = [(0, 128, 252), (128, 124, 254)]" using Standard256 by (simp add: crc_groups_def)
    ultimately show ?thesis using hit [of 0 128 252] hit [of 128 124 254] k by fastforce
  next
    case Compact68
    then have "length b = 68" using len by (simp add: length_flit)
    moreover have "crc_groups cfg = [(0, 66, 66)]" using Compact68 by (simp add: crc_groups_def)
    ultimately show ?thesis using hit [of 0 66 66] k by fastforce
  next
    case AouFormat6
    then have "length b = 256" using len by (simp add: length_flit)
    moreover have "crc_groups cfg = [(0, 126, 126), (128, 126, 254)]" using AouFormat6 by (simp add: crc_groups_def)
    ultimately show ?thesis using hit [of 0 126 126] hit [of 128 126 254] k by fastforce
  qed
  then show ?thesis using len by (simp add: check_flit_groups)
qed

section \<open>Building and checking a flit\<close>

definition fits :: "ucie_config \<Rightarrow> u8 list \<Rightarrow> bool" where
  "fits cfg payload \<longleftrightarrow> length payload \<le> unat (payload_bytes cfg) \<and>
     (uc_flit_format cfg = AouFormat6 \<longrightarrow> length payload = 250)"

lemma fits_full: "length payload = unat (payload_bytes cfg) \<Longrightarrow> fits cfg payload"
  by (simp add: fits_def payload_bytes_def)

lemma scatter_put_crc:
  "put_crc 254 cb (put_crc 126 ca (scatter plp fh crc)) =
     scatter plp fh [ucast (drop_bit 8 ca), ucast (ca AND 0xFF), ucast (drop_bit 8 cb), ucast (cb AND 0xFF)]"
proof -
  have over: "xs[126 := a, 127 := b, 254 := c, 255 := d, 126 := a', 127 := b', 254 := c', 255 := d'] =
      xs[126 := a', 127 := b', 254 := c', 255 := d']" for xs :: "u8 list" and a b c d a' b' c' d'
    by (simp add: list_update_swap)
  show ?thesis by (simp add: put_crc_def scatter_def Let_def over)
qed

lemma put_crc_groups:
  assumes "length frame = 256"
  shows "n \<le> p \<Longrightarrow> n \<le> 254 \<Longrightarrow> crc16_ccitt (put_crc 254 cb (put_crc p ca frame)) n = crc16_ccitt frame n"
    and "128 + k \<le> p \<or> p = 126 \<Longrightarrow> 128 + k \<le> 254 \<Longrightarrow>
      crc16_ccitt (drop 128 (put_crc 254 cb (put_crc p ca frame))) k = crc16_ccitt (drop 128 frame) k"
    and "get_crc (put_crc 254 cb (put_crc p ca frame)) 254 = cb"
    and "p = 126 \<or> p = 252 \<Longrightarrow> get_crc (put_crc 254 cb (put_crc p ca frame)) p = ca"
proof -
  show "crc16_ccitt (put_crc 254 cb (put_crc p ca frame)) n = crc16_ccitt frame n" if "n \<le> p" "n \<le> 254"
    using that by (intro crc16_cong) simp
  show "crc16_ccitt (drop 128 (put_crc 254 cb (put_crc p ca frame))) k = crc16_ccitt (drop 128 frame) k"
    if "128 + k \<le> p \<or> p = 126" "128 + k \<le> 254"
    using that assms by (intro crc16_cong) auto
  show "get_crc (put_crc 254 cb (put_crc p ca frame)) 254 = cb" by (rule get_crc_put_crc) (simp add: assms)
  show "get_crc (put_crc 254 cb (put_crc p ca frame)) p = ca" if "p = 126 \<or> p = 252"
  proof -
    have "get_crc (put_crc 254 cb (put_crc p ca frame)) p = get_crc (put_crc p ca frame) p"
      using that by (auto simp: get_crc_def)
    also have "\<dots> = ca" using that assms by (intro get_crc_put_crc) auto
    finally show ?thesis .
  qed
qed

lemma build_flit_checked:
  assumes "fits cfg payload"
  obtains b where "build_flit cfg seq payload replay = Inr b" "length b = unat (flit_bytes cfg)"
    "check_flit cfg b = \<lparr>fc_crc_ok = True, fc_seq8 = of_nat seq, fc_replay_flag = replay\<rparr>"
    "if uc_flit_format cfg = AouFormat6 then gather b = payload else take (length payload) (drop 2 b) = payload"
proof (cases "uc_flit_format cfg = AouFormat6")
  case True
  define frame where "frame = scatter payload [of_nat seq, if replay then 1 else 0] [0, 0, 0, 0]"
  define ca cb where "ca = crc16_ccitt frame 126" and "cb = crc16_ccitt (drop 128 frame) 126"
  define b where "b = put_crc 254 cb (put_crc 126 ca frame)"
  have len: "length payload = 250" "length frame = 256" using assms True by (simp_all add: fits_def frame_def)
  have build: "build_flit cfg seq payload replay = Inr b"
    using True len by (simp add: build_flit_def payload_bytes_def b_def ca_def cb_def frame_def Let_def)
  have bl: "length b = 256" by (simp add: b_def len)
  have "b ! 0 = of_nat seq" "b ! 1 = (if replay then 1 else 0)"
    by (simp_all add: b_def frame_def scatter_put_crc scatter_header del: One_nat_def)
  moreover have "crc16_ccitt b 126 = get_crc b 126 \<and> crc16_ccitt (drop 128 b) 126 = get_crc b 254"
    by (simp add: b_def put_crc_groups [OF len(2)] ca_def [symmetric] cb_def [symmetric])
  ultimately have chk: "check_flit cfg b = \<lparr>fc_crc_ok = True, fc_seq8 = of_nat seq, fc_replay_flag = replay\<rparr>"
    using True bl by (simp add: check_flit_def flit_bytes_def)
  have "gather b = payload" by (simp add: b_def frame_def scatter_put_crc gather_scatter len)
  then show ?thesis using that [OF build _ chk] True bl by (simp add: flit_bytes_def)
next
  case False
  define n where "n = unat (flit_bytes cfg)"
  define frame where "frame = store_loop 2 (length payload) (\<lambda>i. payload ! i)
    ((replicate n 0)[0 := of_nat seq, 1 := if replay then 1 else 0])"
  have n: "n = (if uc_flit_format cfg = Compact68 then 68 else 256)" by (simp add: n_def length_flit)
  have pl: "length payload \<le> (if uc_flit_format cfg = Compact68 then 64 else 236)"
    using assms False by (cases "uc_flit_format cfg") (simp_all add: fits_def payload_bytes_def)
  have len: "length frame = n" by (simp add: frame_def)
  have hdr: "frame ! 0 = of_nat seq" "frame ! 1 = (if replay then 1 else 0)"
    using n pl by (auto simp: frame_def nth_store_loop split: if_splits)
  have dat: "take (length payload) (drop 2 frame) = payload"
    using n pl by (simp add: frame_def take_drop_store_loop map_nth split: if_splits)
  show ?thesis
  proof (cases "uc_flit_format cfg = Compact68")
    case True
    define b where "b = put_crc 66 (crc16_ccitt frame 66) frame"
    have build: "build_flit cfg seq payload replay = Inr b"
      using True pl by (simp add: build_flit_def payload_bytes_def b_def frame_def Let_def n_def)
    have "crc16_ccitt b 66 = crc16_ccitt frame 66" by (intro crc16_cong) (simp add: b_def)
    moreover have "get_crc b 66 = crc16_ccitt frame 66" unfolding b_def by (rule get_crc_put_crc) (simp add: len n True)
    ultimately have chk: "check_flit cfg b = \<lparr>fc_crc_ok = True, fc_seq8 = of_nat seq, fc_replay_flag = replay\<rparr>"
      using True hdr len n by (simp add: check_flit_def b_def n_def [symmetric])
    have "take (length payload) (drop 2 b) = take (length payload) (drop 2 frame)"
      using True pl len n by (intro nth_equalityI) (auto simp: b_def)
    then show ?thesis using that [OF build _ chk] dat True len by (simp add: b_def n_def)
  next
    case False': False
    then have std: "uc_flit_format cfg = Standard256" using False by (cases "uc_flit_format cfg") simp_all
    define ca cb where "ca = crc16_ccitt frame 128" and "cb = crc16_ccitt (drop 128 frame) 124"
    define b where "b = put_crc 254 cb (put_crc 252 ca frame)"
    have build: "build_flit cfg seq payload replay = Inr b"
      using std pl by (simp add: build_flit_def payload_bytes_def b_def ca_def cb_def frame_def Let_def n_def)
    have fl: "length frame = 256" using len n std by simp
    have "crc16_ccitt b 128 = get_crc b 252 \<and> crc16_ccitt (drop 128 b) 124 = get_crc b 254"
      by (simp add: b_def put_crc_groups [OF fl] ca_def [symmetric] cb_def [symmetric])
    moreover have "b ! 0 = frame ! 0" "b ! 1 = frame ! 1" by (simp_all add: b_def)
    ultimately have chk: "check_flit cfg b = \<lparr>fc_crc_ok = True, fc_seq8 = of_nat seq, fc_replay_flag = replay\<rparr>"
      using std hdr fl by (simp add: check_flit_def b_def length_flit)
    have "take (length payload) (drop 2 b) = take (length payload) (drop 2 frame)"
      using std pl fl by (intro nth_equalityI) (auto simp: b_def)
    then show ?thesis using that [OF build _ chk] dat std fl by (simp add: b_def length_flit)
  qed
qed

end
