(* ===== verification/Ucie_Phy.thy ===== *)
theory Ucie_Phy
  imports Ucie_Common
begin

text \<open>
  \<^verbatim>\<open>ucie_phy.h\<close>: lane striping, PAM4 and NRZ levels, the impaired channel with its threshold
  decisions, and the clock recovery abstraction. The values the generators of the C++ library
  draw are an argument, \<^verbatim>\<open>phy_draws\<close>; \<^verbatim>\<open>double\<close> arithmetic is rational arithmetic.
\<close>

section \<open>Levels\<close>

definition pam4_encode :: "u8 \<Rightarrow> u8 \<Rightarrow> int" where
  "pam4_encode b0 b1 =
     (if b0 = 0 \<and> b1 = 0 then -3 else if b0 = 0 \<and> b1 = 1 then -1
      else if b0 = 1 \<and> b1 = 1 then 1 else 3)"

definition pam4_decide :: "rat \<Rightarrow> int" where
  "pam4_decide y = (if y < -2 then -3 else if y < 0 then -1 else if y < 2 then 1 else 3)"

definition pam4_bits :: "int \<Rightarrow> u8 \<times> u8" where
  "pam4_bits lvl =
     (if lvl = -3 then (0, 0) else if lvl = -1 then (0, 1) else if lvl = 1 then (1, 1) else (1, 0))"

definition nrz_decide :: "rat \<Rightarrow> int" where
  "nrz_decide y = (if y < 0 then -1 else 1)"

section \<open>Striping\<close>

text \<open>The symbols of one byte, most significant bits first.\<close>

definition byte_levels :: "nat \<Rightarrow> u8 \<Rightarrow> int list" where
  "byte_levels bits_per_symbol b =
     (if bits_per_symbol = 2
      then map (\<lambda>bit. pam4_encode (drop_bit (bit + 1) b AND 1) (drop_bit bit b AND 1)) [6, 4, 2, 0]
      else map (\<lambda>bit. if drop_bit bit b AND 1 \<noteq> 0 then 1 else -1) [7, 6, 5, 4, 3, 2, 1, 0])"

definition stripe_bytes :: "u8 list \<Rightarrow> nat \<Rightarrow> nat \<Rightarrow> int list list result" where
  "stripe_bytes bytes lanes bits_per_symbol =
     (if lanes = 0 \<or> bits_per_symbol \<noteq> 1 \<and> bits_per_symbol \<noteq> 2
      then Inl (RuntimeError ''invalid lane mapping geometry'')
      else Inr (fold (\<lambda>i levels. levels[i mod lanes := levels ! (i mod lanes) @ byte_levels bits_per_symbol (bytes ! i)])
             [0..<length bytes] (replicate lanes [])))"

text \<open>One byte read back from a lane: the byte and the advanced position.\<close>

fun read_levels :: "int list \<Rightarrow> nat \<Rightarrow> nat \<Rightarrow> nat \<Rightarrow> u8 \<Rightarrow> (u8 \<times> nat) result" where
  "read_levels lv bps 0 pos byte = Inr (byte, pos)"
| "read_levels lv bps (Suc n) pos byte =
     (if pos \<ge> length lv then Inl (RuntimeError ''lane stream is shorter than requested byte count'')
      else let level = lv ! pos in
        read_levels lv bps n (pos + 1)
          (if bps = 2 then push_bit 2 byte OR push_bit 1 (fst (pam4_bits level)) OR snd (pam4_bits level)
           else push_bit 1 byte OR (if level > 0 then 1 else 0)))"

fun destripe_loop :: "int list list \<Rightarrow> nat \<Rightarrow> nat \<Rightarrow> nat \<Rightarrow> nat \<Rightarrow> nat list \<Rightarrow> u8 list \<Rightarrow> u8 list result" where
  "destripe_loop levels lanes bps 0 i lane_pos bytes = Inr bytes"
| "destripe_loop levels lanes bps (Suc n) i lane_pos bytes =
     bindR (read_levels (levels ! (i mod lanes)) bps (8 div bps) (lane_pos ! (i mod lanes)) 0)
       (\<lambda>(byte, pos). destripe_loop levels lanes bps n (i + 1) (lane_pos[i mod lanes := pos]) (bytes[i := byte]))"

definition destripe_bytes :: "int list list \<Rightarrow> nat \<Rightarrow> nat \<Rightarrow> nat \<Rightarrow> u8 list result" where
  "destripe_bytes levels byte_count lanes bits_per_symbol =
     (if lanes = 0 \<or> length levels \<noteq> lanes \<or> bits_per_symbol \<noteq> 1 \<and> bits_per_symbol \<noteq> 2
      then Inl (RuntimeError ''invalid lane de-mapping geometry'')
      else destripe_loop levels lanes bits_per_symbol byte_count 0 (replicate lanes 0) (replicate byte_count 0))"

section \<open>The channel\<close>

record phy_draws =
  pd_skew :: "nat \<Rightarrow> u32"
  pd_jitter :: "nat \<Rightarrow> nat \<Rightarrow> rat"
  pd_noise :: "nat \<Rightarrow> nat \<Rightarrow> rat"
  pd_unit :: rat
  pd_flip_deskew :: nat
  pd_flip_extra :: nat

record phy_result =
  pr_rx_bytes :: "u8 list"
  pr_total_symbols :: nat
  pr_symbol_errors :: nat
  pr_bit_errors :: nat
  pr_max_skew_ui :: u32
  pr_deskew_failure :: bool
  pr_extra_error :: bool
  pr_cdr_locked :: bool

record behavioral_phy =
  bp_relock_until_ui :: rat
  bp_bad_streak :: u32
  bp_lock_loss_count :: nat

definition behavioral_phy0 :: behavioral_phy where
  "behavioral_phy0 = \<lparr>bp_relock_until_ui = 0, bp_bad_streak = 0, bp_lock_loss_count = 0\<rparr>"

definition is_cdr_locked :: "behavioral_phy \<Rightarrow> rat \<Rightarrow> bool" where
  "is_cdr_locked phy now_ui \<longleftrightarrow> now_ui \<ge> bp_relock_until_ui phy"

text \<open>The drawn index of \<^verbatim>\<open>flip_random_bit\<close> lies below \<^term>\<open>8 * length bytes\<close>.\<close>

definition flip_random_bit :: "nat \<Rightarrow> u8 list \<Rightarrow> u8 list" where
  "flip_random_bit idx bytes =
     (if bytes = [] then bytes
      else bytes[idx div 8 := bytes ! (idx div 8) XOR push_bit (idx mod 8) 1])"

definition channel_sample :: "ucie_config \<Rightarrow> rat \<Rightarrow> phy_draws \<Rightarrow> nat \<Rightarrow> int list \<Rightarrow> nat \<Rightarrow> rat" where
  "channel_sample cfg sigma d lane lv k =
     (let x0 = of_int (lv ! k);
          x1 = (if k \<ge> 1 then of_int (lv ! (k - 1)) else 0);
          x2 = (if k \<ge> 2 then of_int (lv ! (k - 2)) else 0);
          jitter_ui = uc_jitter_sigma_ui cfg * pd_jitter d lane k;
          y = uc_isi_h0 cfg * x0 + uc_isi_h1 cfg * x1 + uc_isi_h2 cfg * x2;
          y = y + sigma * pd_noise d lane k
      in y + uc_jitter_isi_gain cfg * jitter_ui * (x0 - x1))"

definition decide_lane :: "ucie_config \<Rightarrow> nat \<Rightarrow> rat \<Rightarrow> phy_draws \<Rightarrow> nat \<Rightarrow> int list \<Rightarrow> int list" where
  "decide_lane cfg bps sigma d lane lv =
     map (\<lambda>k. let y = channel_sample cfg sigma d lane lv k
              in if bps = 2 then pam4_decide y else nrz_decide y) [0..<length lv]"

definition symbol_errors :: "int list \<Rightarrow> int list \<Rightarrow> nat" where
  "symbol_errors sent decided = length (filter (\<lambda>(a, b). b \<noteq> a) (zip sent decided))"

definition phy_sigma :: "ucie_config \<Rightarrow> behavioral_phy \<Rightarrow> rat \<Rightarrow> rat" where
  "phy_sigma cfg phy now_ui =
     (if is_cdr_locked phy now_ui then uc_awgn_sigma cfg
      else uc_awgn_sigma cfg * uc_cdr_unlocked_noise_multiplier cfg)"

definition skewed :: "ucie_config \<Rightarrow> phy_draws \<Rightarrow> bool" where
  "skewed cfg d \<longleftrightarrow> list_ex (\<lambda>lane. pd_skew d lane > uc_deskew_depth_ui cfg) [0..<unat (uc_num_lanes cfg)]"

definition phy_report ::
  "ucie_config \<Rightarrow> phy_draws \<Rightarrow> bool \<Rightarrow> u8 list \<Rightarrow> int list list \<Rightarrow> int list list \<Rightarrow> u8 list \<Rightarrow> phy_result" where
  "phy_report cfg d locked tx_bytes lane_levels lane_rx rx =
     (let rx = (if skewed cfg d then flip_random_bit (pd_flip_deskew d) rx else rx);
          extra = (pd_unit d < uc_extra_flit_error_rate cfg);
          rx = (if extra then flip_random_bit (pd_flip_extra d) rx else rx)
      in \<lparr>pr_rx_bytes = rx,
          pr_total_symbols = sum_list (map length lane_levels),
          pr_symbol_errors = sum_list (map2 symbol_errors lane_levels lane_rx),
          pr_bit_errors = sum_list (map (\<lambda>i. length (filter id (byte_bits (tx_bytes ! i XOR rx ! i)))) [0..<length tx_bytes]),
          pr_max_skew_ui = fold (\<lambda>lane m. max m (pd_skew d lane)) [0..<unat (uc_num_lanes cfg)] 0,
          pr_deskew_failure = skewed cfg d, pr_extra_error = extra, pr_cdr_locked = locked\<rparr>)"

definition phy_transmit ::
  "ucie_config \<Rightarrow> behavioral_phy \<Rightarrow> phy_draws \<Rightarrow> u8 list \<Rightarrow> rat \<Rightarrow> phy_result result" where
  "phy_transmit cfg phy d tx_bytes now_ui =
     (let lanes = unat (uc_num_lanes cfg);
          bps = unat (bits_per_ui cfg) in
      bindR (stripe_bytes tx_bytes lanes bps) (\<lambda>lane_levels.
        let lane_rx = map (\<lambda>lane. decide_lane cfg bps (phy_sigma cfg phy now_ui) d lane (lane_levels ! lane)) [0..<lanes]
        in bindR (destripe_bytes lane_rx (length tx_bytes) lanes bps) (\<lambda>rx.
          Inr (phy_report cfg d (is_cdr_locked phy now_ui) tx_bytes lane_levels lane_rx rx))))"

definition phy_observe :: "ucie_config \<Rightarrow> rat \<Rightarrow> phy_result \<Rightarrow> behavioral_phy \<Rightarrow> behavioral_phy" where
  "phy_observe cfg arrival_ui r phy =
     (let frac = (if pr_total_symbols r = 0 then 0
                  else of_nat (pr_symbol_errors r) / of_nat (pr_total_symbols r));
          phy = phy\<lparr>bp_bad_streak := (if frac > uc_cdr_loss_error_fraction cfg then bp_bad_streak phy + 1 else 0)\<rparr>
      in if bp_bad_streak phy \<ge> uc_cdr_loss_bad_flit_threshold cfg
         then phy\<lparr>bp_lock_loss_count := bp_lock_loss_count phy + 1,
                  bp_relock_until_ui := arrival_ui + of_nat (unat (uc_cdr_relock_ui cfg)),
                  bp_bad_streak := 0\<rparr>
         else phy)"

section \<open>Reading back what was striped\<close>

lemma low_bit: "drop_bit k b AND 1 = of_bool (bit (b :: u8) k)"
  by (simp add: bit_iff_odd_drop_bit and_one_eq mod_2_eq_odd)

lemma pam4_bits_encode: "pam4_bits (pam4_encode (of_bool x) (of_bool y)) = (of_bool x, of_bool y)"
  by (cases x; cases y) (simp_all add: pam4_bits_def pam4_encode_def)

lemma byte_levels_eq:
  "byte_levels 2 b = map (\<lambda>k. pam4_encode (of_bool (bit b (k + 1))) (of_bool (bit b k))) [6, 4, 2, 0]"
  "byte_levels (Suc 0) b = map (\<lambda>k. if bit b k then 1 else -1) [7, 6, 5, 4, 3, 2, 1, 0]"
  by (simp_all add: byte_levels_def low_bit)

lemma length_byte_levels: "bps = 1 \<or> bps = 2 \<Longrightarrow> length (byte_levels bps b) = 8 div bps"
  by (auto simp: byte_levels_def)

text \<open>The bits are shifted in from the left, most significant first.\<close>

lemma shift_in_byte:
  "push_bit 1 (push_bit 1 (push_bit 1 (push_bit 1 (push_bit 1 (push_bit 1 (push_bit 1 (push_bit 1 0 OR
     of_bool (bit b 7)) OR of_bool (bit b 6)) OR of_bool (bit b 5)) OR of_bool (bit b 4)) OR
     of_bool (bit b 3)) OR of_bool (bit b 2)) OR of_bool (bit b 1)) OR of_bool (bit b 0) = (b :: u8)" (is "?x = _")
proof (rule bit_word_eqI)
  fix n assume "n < LENGTH(8)"
  then have "n \<in> {0, 1, 2, 3, 4, 5, 6, 7}" by auto
  then show "bit ?x n \<longleftrightarrow> bit b n"
    by (elim insertE emptyE) (simp_all only: bit_or_iff bit_push_bit_iff bit_of_bool_iff, simp_all)
qed

lemma shift_in_pairs:
  "push_bit 2 (push_bit 2 (push_bit 2 (push_bit 2 0 OR
     push_bit 1 (of_bool (bit b 7)) OR of_bool (bit b 6)) OR push_bit 1 (of_bool (bit b 5)) OR of_bool (bit b 4)) OR
     push_bit 1 (of_bool (bit b 3)) OR of_bool (bit b 2)) OR push_bit 1 (of_bool (bit b 1)) OR of_bool (bit b 0) = (b :: u8)" (is "?x = _")
proof (rule bit_word_eqI)
  fix n assume "n < LENGTH(8)"
  then have "n \<in> {0, 1, 2, 3, 4, 5, 6, 7}" by auto
  then show "bit ?x n \<longleftrightarrow> bit b n"
    by (elim insertE emptyE) (simp_all only: bit_or_iff bit_push_bit_iff bit_of_bool_iff, simp_all)
qed

lemma nrz_in: "(if (if p then 1 else -1 :: int) > 0 then 1 else 0) = (of_bool p :: u8)"
  by simp

lemma read_levels_nth:
  assumes "\<And>i. i < n \<Longrightarrow> pos + i < length lv \<and> pos' + i < length lv' \<and> lv ! (pos + i) = lv' ! (pos' + i)"
  shows "read_levels lv bps n pos byte = Inr (b, pos + n) \<longleftrightarrow> read_levels lv' bps n pos' byte = Inr (b, pos' + n)"
  using assms
proof (induction n arbitrary: pos pos' byte)
  case (Suc n)
  have "pos < length lv" "pos' < length lv'" "lv ! pos = lv' ! pos'" using Suc.prems [of 0] by simp_all
  moreover have "Suc pos + i < length lv \<and> Suc pos' + i < length lv' \<and> lv ! (Suc pos + i) = lv' ! (Suc pos' + i)"
    if "i < n" for i using Suc.prems [of "Suc i"] that by simp
  ultimately show ?case using Suc.IH [of "Suc pos" "Suc pos'"] by (simp add: Let_def)
qed simp

lemma read_byte_levels:
  assumes "bps = 1 \<or> bps = 2"
  shows "read_levels (byte_levels bps b) bps (8 div bps) 0 0 = Inr (b, 8 div bps)"
proof (cases "bps = 2")
  case True
  have "read_levels (byte_levels 2 b) 2 (Suc (Suc (Suc (Suc 0)))) 0 0 = Inr (b, 4)"
    unfolding byte_levels_eq using shift_in_pairs [of b]
    by (simp add: pam4_bits_encode Let_def del: push_bit_of_0 or.left_neutral push_bit_of_1)
  moreover have "8 div bps = Suc (Suc (Suc (Suc 0)))" "bps = 2" using True by simp_all
  ultimately show ?thesis by (simp only:) simp
next
  case False
  have "read_levels (byte_levels (Suc 0) b) (Suc 0) (Suc (Suc (Suc (Suc (Suc (Suc (Suc (Suc 0)))))))) 0 0 = Inr (b, 8)"
    unfolding byte_levels_eq using shift_in_byte [of b]
    by (simp add: nrz_in Let_def del: push_bit_of_0 or.left_neutral push_bit_of_1)
  moreover have "8 div bps = Suc (Suc (Suc (Suc (Suc (Suc (Suc (Suc 0)))))))" "bps = Suc 0" using False assms by simp_all
  ultimately show ?thesis by (simp only:) simp
qed

text \<open>The lanes after the first \<^term>\<open>n\<close> bytes.\<close>

definition striped :: "u8 list \<Rightarrow> nat \<Rightarrow> nat \<Rightarrow> nat \<Rightarrow> int list list" where
  "striped bytes lanes bps n =
     fold (\<lambda>i levels. levels[i mod lanes := levels ! (i mod lanes) @ byte_levels bps (bytes ! i)]) [0..<n] (replicate lanes [])"

lemma striped_0 [simp]: "striped bytes lanes bps 0 = replicate lanes []"
  by (simp add: striped_def)

lemma striped_Suc: "striped bytes lanes bps (Suc n) =
    (striped bytes lanes bps n)[n mod lanes := striped bytes lanes bps n ! (n mod lanes) @ byte_levels bps (bytes ! n)]"
  by (simp add: striped_def)

lemma length_striped [simp]: "length (striped bytes lanes bps n) = lanes"
  by (induction n) (simp_all add: striped_Suc)

lemma striped_prefix:
  assumes "n \<le> m" "l < lanes"
  obtains t where "striped bytes lanes bps m ! l = striped bytes lanes bps n ! l @ t"
proof -
  have "\<exists>t. striped bytes lanes bps m ! l = striped bytes lanes bps n ! l @ t" using assms
  proof (induction m rule: dec_induct)
    case (step m)
    then obtain t where "striped bytes lanes bps m ! l = striped bytes lanes bps n ! l @ t" by blast
    then show ?case using step.prems by (auto simp: striped_Suc nth_list_update)
  qed simp
  then show ?thesis using that by blast
qed

text \<open>A byte is found where the striping left it.\<close>

lemma read_striped:
  assumes "i < n" "0 < lanes" "bps = 1 \<or> bps = 2"
  shows "read_levels (striped bytes lanes bps n ! (i mod lanes)) bps (8 div bps)
      (length (striped bytes lanes bps i ! (i mod lanes))) 0 =
    Inr (bytes ! i, length (striped bytes lanes bps (Suc i) ! (i mod lanes)))"
proof -
  let ?l = "i mod lanes"
  have l: "?l < lanes" using assms(2) by simp
  define pre where "pre = striped bytes lanes bps i ! ?l"
  obtain t where "striped bytes lanes bps n ! ?l = striped bytes lanes bps (Suc i) ! ?l @ t"
    using striped_prefix [of "Suc i" n ?l lanes] assms(1) l by auto
  then have lv: "striped bytes lanes bps n ! ?l = pre @ byte_levels bps (bytes ! i) @ t"
    using l by (simp add: striped_Suc pre_def)
  have "read_levels (pre @ byte_levels bps (bytes ! i) @ t) bps (8 div bps) (length pre) 0 =
      Inr (bytes ! i, length pre + 8 div bps)"
    using read_levels_nth [of "8 div bps" "length pre" "pre @ byte_levels bps (bytes ! i) @ t" 0 "byte_levels bps (bytes ! i)" bps]
      read_byte_levels [OF assms(3)] length_byte_levels [OF assms(3)]
    by (simp add: nth_append)
  moreover have "length (striped bytes lanes bps (Suc i) ! ?l) = length pre + 8 div bps"
    using l length_byte_levels [OF assms(3)] by (simp add: striped_Suc pre_def)
  ultimately show ?thesis by (simp add: lv pre_def)
qed

lemma destripe_striped:
  assumes "0 < lanes" "bps = 1 \<or> bps = 2" "k \<le> length bytes" "length acc = length bytes"
    "take (length bytes - k) acc = take (length bytes - k) bytes"
  shows "destripe_loop (striped bytes lanes bps (length bytes)) lanes bps k (length bytes - k)
      (map length (striped bytes lanes bps (length bytes - k))) acc = Inr bytes"
  using assms(3,4,5)
proof (induction k arbitrary: acc)
  case (Suc k)
  define i where "i = length bytes - Suc k"
  have i: "i < length bytes" "length bytes - k = Suc i" using Suc.prems by (simp_all add: i_def)
  have il: "i mod lanes < lanes" using assms(1) by simp
  have r: "read_levels (striped bytes lanes bps (length bytes) ! (i mod lanes)) bps (8 div bps)
      (map length (striped bytes lanes bps i) ! (i mod lanes)) 0 =
      Inr (bytes ! i, length (striped bytes lanes bps (Suc i) ! (i mod lanes)))"
    using read_striped [OF i(1) assms(1,2), of bytes] il by simp
  have pos: "(map length (striped bytes lanes bps i))[i mod lanes := length (striped bytes lanes bps (Suc i) ! (i mod lanes))] =
      map length (striped bytes lanes bps (Suc i))"
    using il by (simp add: striped_Suc map_update)
  have "take (Suc i) (acc[i := bytes ! i]) = take (Suc i) bytes"
    using Suc.prems i by (simp add: take_Suc_conv_app_nth i_def [symmetric])
  then show ?case
    using Suc.IH [of "acc[i := bytes ! i]"] Suc.prems i r pos by (simp add: i_def [symmetric])
qed simp

lemma stripe_destripe:
  assumes "0 < lanes" "bps = 1 \<or> bps = 2"
  shows "stripe_bytes bytes lanes bps = Inr (striped bytes lanes bps (length bytes))"
    "destripe_bytes (striped bytes lanes bps (length bytes)) (length bytes) lanes bps = Inr bytes"
proof -
  show "stripe_bytes bytes lanes bps = Inr (striped bytes lanes bps (length bytes))"
    using assms by (auto simp: stripe_bytes_def striped_def)
  have "map length (replicate lanes ([] :: int list)) = replicate lanes 0" by simp
  then show "destripe_bytes (striped bytes lanes bps (length bytes)) (length bytes) lanes bps = Inr bytes"
    using destripe_striped [OF assms, of "length bytes" bytes "replicate (length bytes) 0"] assms
    by (auto simp: destripe_bytes_def)
qed

section \<open>A quiet channel\<close>

definition levels_ok :: "nat \<Rightarrow> int list \<Rightarrow> bool" where
  "levels_ok bps lv \<longleftrightarrow> set lv \<subseteq> (if bps = 2 then {-3, -1, 1, 3} else {-1, 1})"

lemma byte_levels_ok: "levels_ok bps (byte_levels bps b)"
proof -
  have "pam4_encode x y \<in> {-3, -1, 1, 3}" for x y by (simp add: pam4_encode_def)
  then show ?thesis by (cases "bps = 2") (simp_all add: levels_ok_def byte_levels_def)
qed

lemma striped_ok: "l < lanes \<Longrightarrow> levels_ok bps (striped bytes lanes bps n ! l)"
proof (induction n)
  case 0
  then show ?case by (simp add: levels_ok_def)
next
  case (Suc n)
  then show ?case using byte_levels_ok [of bps "bytes ! n"] by (auto simp: striped_Suc nth_list_update levels_ok_def)
qed

text \<open>The disturbance of every sample stays below half the distance of two levels.\<close>

definition within_margin :: "ucie_config \<Rightarrow> rat \<Rightarrow> phy_draws \<Rightarrow> nat \<Rightarrow> int list \<Rightarrow> bool" where
  "within_margin cfg sigma d lane lv \<longleftrightarrow>
     list_all (\<lambda>k. \<bar>channel_sample cfg sigma d lane lv k - of_int (lv ! k)\<bar> < 1) [0..<length lv]"

lemma decide_within_margin:
  assumes "within_margin cfg sigma d lane lv" "levels_ok bps lv"
  shows "decide_lane cfg bps sigma d lane lv = lv"
proof (rule nth_equalityI)
  fix k assume "k < length (decide_lane cfg bps sigma d lane lv)"
  then have k: "k < length lv" by (simp add: decide_lane_def)
  then have m: "\<bar>channel_sample cfg sigma d lane lv k - of_int (lv ! k)\<bar> < 1"
    using assms(1) by (simp add: within_margin_def list_all_iff)
  have "lv ! k \<in> (if bps = 2 then {-3, -1, 1, 3} else {-1, 1})"
    using assms(2) k nth_mem by (fastforce simp: levels_ok_def)
  then show "decide_lane cfg bps sigma d lane lv ! k = lv ! k"
    using k m by (auto simp: decide_lane_def Let_def pam4_decide_def nrz_decide_def abs_less_iff split: if_splits)
qed (simp add: decide_lane_def)

definition tx_lanes :: "ucie_config \<Rightarrow> u8 list \<Rightarrow> int list list" where
  "tx_lanes cfg tx = striped tx (unat (uc_num_lanes cfg)) (unat (bits_per_ui cfg)) (length tx)"

definition quiet :: "ucie_config \<Rightarrow> behavioral_phy \<Rightarrow> phy_draws \<Rightarrow> u8 list \<Rightarrow> rat \<Rightarrow> bool" where
  "quiet cfg phy d tx now_ui \<longleftrightarrow>
     list_all (\<lambda>lane. within_margin cfg (phy_sigma cfg phy now_ui) d lane (tx_lanes cfg tx ! lane))
       [0..<unat (uc_num_lanes cfg)]"

lemma symbol_errors_same [simp]: "symbol_errors lv lv = 0"
  by (auto simp: symbol_errors_def filter_empty_conv zip_same)

lemma symbol_errors_lanes: "sum_list (map2 symbol_errors lanes lanes) = 0"
  by (induction lanes) simp_all

lemma bps_cases: "unat (bits_per_ui cfg) = 1 \<or> unat (bits_per_ui cfg) = 2"
  by (simp add: bits_per_ui_def)

lemma phy_transmit_quiet:
  assumes lanes: "uc_num_lanes cfg \<noteq> 0" and q: "quiet cfg phy d tx now_ui"
  obtains r where "phy_transmit cfg phy d tx now_ui = Inr r" "pr_symbol_errors r = 0"
    "pr_deskew_failure r = skewed cfg d" "pr_extra_error r = (pd_unit d < uc_extra_flit_error_rate cfg)"
    "pr_rx_bytes r =
       (if pr_extra_error r then flip_random_bit (pd_flip_extra d) else id)
         ((if pr_deskew_failure r then flip_random_bit (pd_flip_deskew d) else id) tx)"
proof -
  let ?n = "unat (uc_num_lanes cfg)" and ?b = "unat (bits_per_ui cfg)"
  have n: "0 < ?n" using lanes by (simp add: unat_gt_0)
  note str = stripe_destripe [OF n bps_cases, of tx cfg, folded tx_lanes_def]
  have len: "length (tx_lanes cfg tx) = ?n" by (simp add: tx_lanes_def)
  have lane: "decide_lane cfg ?b (phy_sigma cfg phy now_ui) d l (tx_lanes cfg tx ! l) = tx_lanes cfg tx ! l" if "l < ?n" for l
    using decide_within_margin q that striped_ok [OF that] by (simp add: quiet_def list_all_iff tx_lanes_def)
  have rx: "map (\<lambda>l. decide_lane cfg ?b (phy_sigma cfg phy now_ui) d l (tx_lanes cfg tx ! l)) [0..<?n] = tx_lanes cfg tx"
    by (rule nth_equalityI) (simp_all add: len lane)
  have errs: "sum_list (map2 symbol_errors (tx_lanes cfg tx) (tx_lanes cfg tx)) = 0"
    by (rule symbol_errors_lanes)
  have "phy_transmit cfg phy d tx now_ui =
      Inr (phy_report cfg d (is_cdr_locked phy now_ui) tx (tx_lanes cfg tx) (tx_lanes cfg tx) tx)"
    by (simp add: phy_transmit_def Let_def str rx)
  then show ?thesis by (rule that) (simp_all add: phy_report_def Let_def errs)
qed

text \<open>A bit that flips is a byte that changes.\<close>

lemma flip_random_bit_byte:
  assumes "idx < 8 * length bytes"
  obtains v where "flip_random_bit idx bytes = bytes[idx div 8 := v]" "v \<noteq> bytes ! (idx div 8)" "idx div 8 < length bytes"
proof -
  let ?v = "bytes ! (idx div 8) XOR push_bit (idx mod 8) 1"
  have "push_bit (idx mod 8) (1 :: u8) \<noteq> 0" by (simp add: push_bit_eq_0_iff)
  then have "?v \<noteq> bytes ! (idx div 8)" by (metis xor_cancel(2) xor.right_neutral)
  moreover have "idx div 8 < length bytes" "bytes \<noteq> []" using assms by auto
  ultimately show ?thesis using that by (simp add: flip_random_bit_def)
qed

section \<open>Clock recovery\<close>

text \<open>
  The streak stays below the threshold, losses are counted one by one, and a loss unlocks the
  receiver for exactly the relock interval.
\<close>

lemma phy_observe_cases:
  assumes "uc_cdr_loss_bad_flit_threshold cfg \<noteq> 0" "bp_bad_streak phy < uc_cdr_loss_bad_flit_threshold cfg"
  shows "bp_bad_streak (phy_observe cfg now_ui r phy) < uc_cdr_loss_bad_flit_threshold cfg"
    "bp_lock_loss_count (phy_observe cfg now_ui r phy) = bp_lock_loss_count phy \<and>
       bp_relock_until_ui (phy_observe cfg now_ui r phy) = bp_relock_until_ui phy \<or>
     bp_lock_loss_count (phy_observe cfg now_ui r phy) = Suc (bp_lock_loss_count phy) \<and>
       bp_relock_until_ui (phy_observe cfg now_ui r phy) = now_ui + of_nat (unat (uc_cdr_relock_ui cfg)) \<and>
       bp_bad_streak (phy_observe cfg now_ui r phy) = 0"
  using assms by (auto simp: phy_observe_def Let_def not_le word_gt_0)

end
