(* ===== verification/Ucie_Link.thy ===== *)
theory Ucie_Link
  imports Ucie_Phy
begin

text \<open>
  \<^verbatim>\<open>ucie_fdi.h\<close> and \<^verbatim>\<open>ucie_link.h\<close>: one direction of the link. Each SystemC thread is cut at its
  \<^verbatim>\<open>wait\<close> and blocking FIFO calls; each piece between two of them is one function of the state.
  Times are whole unit intervals. The relation \<^verbatim>\<open>link_step\<close> lets any thread whose guard holds
  run next, and lets a thread that waits for an event wake at any moment: the schedules of the
  SystemC kernel are among them.
\<close>

section \<open>Transactions, frames and feedback\<close>

datatype business_kind = Request | Response

datatype link_state = Reset | Training | Active | Degraded | Failed

record fdi_flit =
  fd_payload :: "u8 list"
  fd_valid_bytes :: nat
  fd_transaction_id :: nat
  fd_vc :: u8
  fd_kind :: business_kind
  fd_transaction_start :: nat
  fd_fdi_time :: nat

definition require_valid_fdi :: "ucie_config \<Rightarrow> fdi_flit \<Rightarrow> unit result" where
  "require_valid_fdi cfg f =
     (if length (fd_payload f) \<noteq> unat (payload_bytes cfg)
      then Inl (RuntimeError ''FDI payload is not padded to configured size'')
      else if fd_valid_bytes f > length (fd_payload f)
      then Inl (RuntimeError ''FDI valid_bytes exceeds payload'')
      else if uc_flit_format cfg = AouFormat6 \<and> fd_valid_bytes f \<noteq> 250
      then Inl (RuntimeError ''AoU FDI valid_bytes must be exactly 250'')
      else Inr ())"

record frame =
  fr_bytes :: "u8 list"
  fr_seq :: nat
  fr_transaction_id :: nat
  fr_vc :: u8
  fr_valid_bytes :: nat
  fr_kind :: business_kind
  fr_replay :: bool
  fr_transaction_start :: nat
  fr_fdi_time :: nat

record fb_msg =
  fb_is_nak :: bool
  fb_seq :: nat

definition unpack_fdi :: "ucie_config \<Rightarrow> frame \<Rightarrow> fdi_flit result" where
  "unpack_fdi cfg f =
     (if length (fr_bytes f) < 2 + unat (payload_bytes cfg)
      then Inl (RuntimeError ''received frame is shorter than the configured FDI payload'')
      else if uc_flit_format cfg = AouFormat6 \<and> length (fr_bytes f) \<noteq> 256
      then Inl (RuntimeError ''AoU physical flit must be exactly 256B'')
      else Inr \<lparr>fd_payload = (if uc_flit_format cfg = AouFormat6 then gather (fr_bytes f)
                  else take (unat (payload_bytes cfg)) (drop 2 (fr_bytes f))),
                fd_valid_bytes = fr_valid_bytes f, fd_transaction_id = fr_transaction_id f,
                fd_vc = fr_vc f, fd_kind = fr_kind f,
                fd_transaction_start = fr_transaction_start f, fd_fdi_time = fr_fdi_time f\<rparr>)"

section \<open>Transmit adapter\<close>

datatype tx_state = Idle | AckReceived | NakReceived | NakInProgress

text \<open>
  Where the thread \<^verbatim>\<open>sender\<close> is: in the initial training wait, at the top of its loop, in
  \<^verbatim>\<open>send_one\<close> (with the frame it built, and the time at which its wait ends), or in one of the
  two idle waits.
\<close>

datatype sender_pc =
    TrainingWait nat
  | LoopTop
  | Sending frame nat
  | TimedWait
  | EventWait

record tx_adapter =
  ta_state :: tx_state
  ta_next_seq :: nat
  ta_retry :: "(nat \<times> fdi_flit) list"
  ta_replay_active :: bool
  ta_replay_cursor :: nat
  ta_replay_end :: nat
  ta_last_progress :: nat
  ta_pc :: sender_pc

definition tx_adapter0 :: "ucie_config \<Rightarrow> tx_adapter" where
  "tx_adapter0 cfg = \<lparr>ta_state = Idle, ta_next_seq = 0, ta_retry = [], ta_replay_active = False,
     ta_replay_cursor = 0, ta_replay_end = 0, ta_last_progress = 0,
     ta_pc = TrainingWait (unat (uc_train_ui cfg))\<rparr>"

text \<open>\<^verbatim>\<open>std::map\<close> as a list in the order of its keys.\<close>

definition lower_bound :: "nat \<Rightarrow> (nat \<times> 'a) list \<Rightarrow> (nat \<times> 'a) list" where
  "lower_bound k m = dropWhile (\<lambda>e. fst e < k) m"

fun map_put :: "nat \<Rightarrow> 'a \<Rightarrow> (nat \<times> 'a) list \<Rightarrow> (nat \<times> 'a) list" where
  "map_put k v [] = [(k, v)]"
| "map_put k v ((k', v') # m) =
     (if k < k' then (k, v) # (k', v') # m
      else if k = k' then (k, v) # m
      else (k', v') # map_put k v m)"

definition replay_timeout_ui :: "ucie_config \<Rightarrow> u32 result" where
  "replay_timeout_ui cfg = bindR (serialize_ui cfg) (\<lambda>ser.
     Inr (4 * (ser + uc_tx_pipe_ui cfg + uc_channel_ui cfg + uc_rx_pipe_ui cfg + uc_feedback_ui cfg + 64)))"

text \<open>\<^verbatim>\<open>send_one\<close> up to its wait.\<close>

definition send_one :: "ucie_config \<Rightarrow> nat \<Rightarrow> nat \<Rightarrow> fdi_flit \<Rightarrow> bool \<Rightarrow> tx_adapter \<Rightarrow> tx_adapter result" where
  "send_one cfg now seq f replay ta =
     bindR (build_flit cfg seq (fd_payload f) replay) (\<lambda>bytes.
     bindR (serialize_ui cfg) (\<lambda>ser.
       Inr (ta\<lparr>ta_pc := Sending
         \<lparr>fr_bytes = bytes, fr_seq = seq, fr_transaction_id = fd_transaction_id f, fr_vc = fd_vc f,
           fr_valid_bytes = fd_valid_bytes f, fr_kind = fd_kind f, fr_replay = replay,
           fr_transaction_start = fd_transaction_start f, fr_fdi_time = fd_fdi_time f\<rparr>
         (now + unat ser)\<rparr>)))"

text \<open>One pass of the loop of \<^verbatim>\<open>sender\<close>, from its top to the next wait.\<close>

definition sender_new ::
  "ucie_config \<Rightarrow> nat \<Rightarrow> fdi_flit list \<Rightarrow> tx_adapter \<times> link_stats \<Rightarrow>
     (tx_adapter \<times> link_stats \<times> fdi_flit list) result" where
  "sender_new cfg now fdi_in = (\<lambda>(ta, ls).
     if fdi_in \<noteq> [] \<and> length (ta_retry ta) < unat (uc_retry_buffer_size cfg)
     then let f = hd fdi_in in
       bindR (require_valid_fdi cfg f) (\<lambda>_.
         let seq = ta_next_seq ta;
             ta = ta\<lparr>ta_next_seq := seq + 1, ta_retry := map_put seq f (ta_retry ta)\<rparr>;
             ls = ls\<lparr>ls_max_retry_buffer_occupancy := max (ls_max_retry_buffer_occupancy ls) (length (ta_retry ta))\<rparr>
         in bindR (send_one cfg now seq f False ta) (\<lambda>ta. Inr (ta, ls, tl fdi_in)))
     else let ls = (if fdi_in \<noteq> [] then ls\<lparr>ls_retry_buffer_full_events := ls_retry_buffer_full_events ls + 1\<rparr> else ls)
       in Inr (ta\<lparr>ta_pc := if ta_retry ta \<noteq> [] then TimedWait else EventWait\<rparr>, ls, fdi_in))"

definition sender_top ::
  "ucie_config \<Rightarrow> nat \<Rightarrow> fdi_flit list \<Rightarrow> tx_adapter \<Rightarrow> link_stats \<Rightarrow>
     (tx_adapter \<times> link_stats \<times> fdi_flit list) result" where
  "sender_top cfg now fdi_in ta ls =
     (if ta_replay_active ta
      then (case lower_bound (ta_replay_cursor ta) (ta_retry ta) of
          [] \<Rightarrow> sender_new cfg now fdi_in (ta\<lparr>ta_replay_active := False, ta_state := Idle\<rparr>, ls)
        | (k, f) # _ \<Rightarrow>
            if k > ta_replay_end ta
            then sender_new cfg now fdi_in (ta\<lparr>ta_replay_active := False, ta_state := Idle\<rparr>, ls)
            else bindR (send_one cfg now k f True ta) (\<lambda>ta. Inr (ta, ls, fdi_in)))
      else sender_new cfg now fdi_in (ta, ls))"

text \<open>
  \<^verbatim>\<open>send_one\<close> after its wait, with the write to the channel, and what \<^verbatim>\<open>sender\<close> does after it. The
  iterator \<^verbatim>\<open>it\<close> of a replay is used after the wait: when its entry is gone, the behaviour of the
  source is undefined, a failure here.
\<close>

definition sender_sent :: "nat \<Rightarrow> frame \<Rightarrow> tx_adapter \<Rightarrow> link_stats \<Rightarrow> (tx_adapter \<times> link_stats) result" where
  "sender_sent now f ta ls =
     (let ta = ta\<lparr>ta_last_progress := now, ta_pc := LoopTop\<rparr>;
          ls = (if fr_replay f then ls\<lparr>ls_tx_replay_flits := ls_tx_replay_flits ls + 1\<rparr>
                else ls\<lparr>ls_tx_new_flits := ls_tx_new_flits ls + 1\<rparr>)
      in if fr_replay f
         then if fr_seq f \<notin> fst ` set (ta_retry ta)
           then Inl (LogicError ''iterator of an erased retry buffer entry'')
           else let ta = ta\<lparr>ta_replay_cursor := fr_seq f + 1\<rparr>
             in Inr (if ta_replay_cursor ta > ta_replay_end ta
                     then ta\<lparr>ta_replay_active := False, ta_state := Idle\<rparr> else ta, ls)
         else Inr (ta, ls))"

text \<open>The end of the two idle waits.\<close>

definition sender_wake :: "ucie_config \<Rightarrow> nat \<Rightarrow> tx_adapter \<Rightarrow> link_stats \<Rightarrow> (tx_adapter \<times> link_stats) result" where
  "sender_wake cfg now ta ls =
     (if ta_pc ta = TimedWait
      then bindR (replay_timeout_ui cfg) (\<lambda>timeout.
        if \<not> ta_replay_active ta \<and> ta_retry ta \<noteq> [] \<and> now - ta_last_progress ta \<ge> unat timeout
        then Inr (ta\<lparr>ta_replay_active := True, ta_replay_cursor := fst (hd (ta_retry ta)),
                     ta_replay_end := fst (last (ta_retry ta)), ta_state := NakInProgress,
                     ta_pc := LoopTop\<rparr>,
                  ls\<lparr>ls_replay_timeout_events := ls_replay_timeout_events ls + 1\<rparr>)
        else Inr (ta\<lparr>ta_pc := LoopTop\<rparr>, ls))
      else Inr (ta\<lparr>ta_pc := LoopTop\<rparr>, ls))"

text \<open>One turn of the thread \<^verbatim>\<open>feedback\<close>.\<close>

definition tx_feedback :: "nat \<Rightarrow> fb_msg \<Rightarrow> tx_adapter \<Rightarrow> link_stats \<Rightarrow> tx_adapter \<times> link_stats" where
  "tx_feedback now fb ta ls =
     (let ta = ta\<lparr>ta_last_progress := now\<rparr> in
      if \<not> fb_is_nak fb
      then let ta = ta\<lparr>ta_state := AckReceived, ta_retry := dropWhile (\<lambda>e. fst e \<le> fb_seq fb) (ta_retry ta)\<rparr>
        in (if \<not> ta_replay_active ta then ta\<lparr>ta_state := Idle\<rparr> else ta,
            ls\<lparr>ls_ack_count := ls_ack_count ls + 1\<rparr>)
      else let ta = ta\<lparr>ta_state := NakReceived\<rparr>; ls = ls\<lparr>ls_nak_count := ls_nak_count ls + 1\<rparr>
        in case lower_bound (fb_seq fb) (ta_retry ta) of
            [] \<Rightarrow> (if \<not> ta_replay_active ta then ta\<lparr>ta_state := Idle\<rparr> else ta,
                   ls\<lparr>ls_stale_nak_count := ls_stale_nak_count ls + 1\<rparr>)
          | (k, _) # _ \<Rightarrow>
              (ta\<lparr>ta_replay_active := True, ta_replay_cursor := k,
                  ta_replay_end := fst (last (ta_retry ta)), ta_state := NakInProgress\<rparr>, ls))"

section \<open>Receive adapter\<close>

datatype rx_state = NoRetry | RetryInProgress

record rx_adapter =
  ra_state :: rx_state
  ra_expected_seq :: nat
  ra_frames_since_nak :: u32

definition rx_adapter0 :: rx_adapter where
  "rx_adapter0 = \<lparr>ra_state = NoRetry, ra_expected_seq = 0, ra_frames_since_nak = 0\<rparr>"

text \<open>One turn of \<^verbatim>\<open>run\<close>: the new state, and what is written to \<^verbatim>\<open>fdi_out\<close> and to \<^verbatim>\<open>fb_out\<close>.\<close>

definition rx_frame ::
  "ucie_config \<Rightarrow> frame \<Rightarrow> rx_adapter \<Rightarrow> link_stats \<Rightarrow>
     (rx_adapter \<times> link_stats \<times> fdi_flit list \<times> fb_msg list) result" where
  "rx_frame cfg f ra ls =
     (let chk = check_flit cfg (fr_bytes f);
          expected = ra_expected_seq ra;
          diff = fc_seq8 chk - of_nat expected
      in if fc_crc_ok chk \<and> diff = 0
         then bindR (unpack_fdi cfg f) (\<lambda>delivered.
           Inr (ra\<lparr>ra_state := NoRetry, ra_frames_since_nak := 0, ra_expected_seq := expected + 1\<rparr>, ls,
                [delivered], [\<lparr>fb_is_nak = False, fb_seq = expected\<rparr>]))
         else if fc_crc_ok chk \<and> diff > 127
         then Inr (ra, ls\<lparr>ls_duplicate_drop_count := ls_duplicate_drop_count ls + 1\<rparr>, [],
                if expected > 0 then [\<lparr>fb_is_nak = False, fb_seq = expected - 1\<rparr>] else [])
         else let ls = (if \<not> fc_crc_ok chk then ls\<lparr>ls_crc_fail_count := ls_crc_fail_count ls + 1\<rparr>
                        else ls\<lparr>ls_seq_fail_count := ls_seq_fail_count ls + 1\<rparr>);
                  since = (if ra_state ra = NoRetry then ra_frames_since_nak ra else ra_frames_since_nak ra + 1);
                  send_nak = (ra_state ra = NoRetry \<or> since \<ge> uc_nak_repeat_frames cfg)
              in Inr (ra\<lparr>ra_state := RetryInProgress, ra_frames_since_nak := if send_nak then 0 else since\<rparr>, ls, [],
                      if send_nak then [\<lparr>fb_is_nak = True, fb_seq = expected\<rparr>] else []))"

section \<open>One direction of the link\<close>

record link_dir =
  lk_now :: nat
  lk_fdi_in :: "fdi_flit list"
  lk_tx :: tx_adapter
  lk_tx_to_phy :: "frame list"
  lk_phy :: behavioral_phy
  lk_phy_pending :: "(frame \<times> nat) list"
  lk_phy_to_rx :: "frame list"
  lk_rx :: rx_adapter
  lk_rx_to_feedback :: "fb_msg list"
  lk_fb_pending :: "(fb_msg \<times> nat) list"
  lk_feedback_to_tx :: "fb_msg list"
  lk_stats :: link_stats

definition link_dir0 :: "ucie_config \<Rightarrow> link_dir" where
  "link_dir0 cfg = \<lparr>lk_now = 0, lk_fdi_in = [], lk_tx = tx_adapter0 cfg, lk_tx_to_phy = [],
     lk_phy = behavioral_phy0, lk_phy_pending = [], lk_phy_to_rx = [], lk_rx = rx_adapter0,
     lk_rx_to_feedback = [], lk_fb_pending = [], lk_feedback_to_tx = [], lk_stats = link_stats0\<rparr>"

text \<open>\<^verbatim>\<open>PhyChannel::ingress\<close>, with the result of \<^verbatim>\<open>transmit\<close> on the frame.\<close>

definition channel_ingress :: "ucie_config \<Rightarrow> phy_result \<Rightarrow> frame \<Rightarrow> link_dir \<Rightarrow> link_dir" where
  "channel_ingress cfg r f s =
     (let ls = lk_stats s;
          ls = ls\<lparr>ls_total_phy_frames := ls_total_phy_frames ls + 1,
                  ls_total_symbols := ls_total_symbols ls + pr_total_symbols r,
                  ls_symbol_errors := ls_symbol_errors ls + pr_symbol_errors r,
                  ls_total_bits := ls_total_bits ls + length (fr_bytes f) * 8,
                  ls_bit_errors := ls_bit_errors ls + pr_bit_errors r\<rparr>;
          ls = (if pr_deskew_failure r then ls\<lparr>ls_deskew_failures := ls_deskew_failures ls + 1\<rparr> else ls);
          ls = (if pr_extra_error r then ls\<lparr>ls_extra_error_flits := ls_extra_error_flits ls + 1\<rparr> else ls);
          phy = phy_observe cfg (of_nat (lk_now s)) r (lk_phy s);
          ls = ls\<lparr>ls_cdr_lock_loss_count := bp_lock_loss_count phy\<rparr>;
          pipe_ui = uc_tx_pipe_ui cfg + uc_channel_ui cfg + pr_max_skew_ui r + uc_rx_pipe_ui cfg
      in s\<lparr>lk_phy := phy, lk_stats := ls,
           lk_phy_pending := lk_phy_pending s @ [(f\<lparr>fr_bytes := pr_rx_bytes r\<rparr>, lk_now s + unat pipe_ui)]\<rparr>)"

text \<open>
  The steps. \<^term>\<open>noise cfg phy now bytes r\<close> says that \<^term>\<open>r\<close> is a possible result of \<^verbatim>\<open>transmit\<close>.
  A step is labelled with the flits a caller submits and with those it delivers.
\<close>

type_synonym noise = "behavioral_phy \<Rightarrow> rat \<Rightarrow> u8 list \<Rightarrow> phy_result \<Rightarrow> bool"

inductive link_step :: "ucie_config \<Rightarrow> noise \<Rightarrow> link_dir \<Rightarrow> fdi_flit list \<Rightarrow> fdi_flit list \<Rightarrow> link_dir \<Rightarrow> bool"
  for cfg :: ucie_config and noise :: noise where
  submit: "link_step cfg noise s [f] [] (s\<lparr>lk_fdi_in := lk_fdi_in s @ [f]\<rparr>)"
| tick: "link_step cfg noise s [] [] (s\<lparr>lk_now := lk_now s + 1\<rparr>)"
| trained: "ta_pc (lk_tx s) = TrainingWait t \<Longrightarrow> t \<le> lk_now s \<Longrightarrow>
    link_step cfg noise s [] [] (s\<lparr>lk_tx := (lk_tx s)\<lparr>ta_pc := LoopTop\<rparr>\<rparr>)"
| top: "ta_pc (lk_tx s) = LoopTop \<Longrightarrow>
    sender_top cfg (lk_now s) (lk_fdi_in s) (lk_tx s) (lk_stats s) = Inr (ta, ls, fdi) \<Longrightarrow>
    link_step cfg noise s [] [] (s\<lparr>lk_tx := ta, lk_stats := ls, lk_fdi_in := fdi\<rparr>)"
| sent: "ta_pc (lk_tx s) = Sending f t \<Longrightarrow> t \<le> lk_now s \<Longrightarrow> length (lk_tx_to_phy s) < 4 \<Longrightarrow>
    sender_sent (lk_now s) f (lk_tx s) (lk_stats s) = Inr (ta, ls) \<Longrightarrow>
    link_step cfg noise s [] [] (s\<lparr>lk_tx := ta, lk_stats := ls, lk_tx_to_phy := lk_tx_to_phy s @ [f]\<rparr>)"
| wake: "ta_pc (lk_tx s) = TimedWait \<or> ta_pc (lk_tx s) = EventWait \<Longrightarrow>
    sender_wake cfg (lk_now s) (lk_tx s) (lk_stats s) = Inr (ta, ls) \<Longrightarrow>
    link_step cfg noise s [] [] (s\<lparr>lk_tx := ta, lk_stats := ls\<rparr>)"
| phy_in: "lk_tx_to_phy s = f # fs \<Longrightarrow> noise (lk_phy s) (of_nat (lk_now s)) (fr_bytes f) r \<Longrightarrow>
    link_step cfg noise s [] [] (channel_ingress cfg r f (s\<lparr>lk_tx_to_phy := fs\<rparr>))"
| phy_out: "lk_phy_pending s = (f, due) # rest \<Longrightarrow> due \<le> lk_now s \<Longrightarrow> length (lk_phy_to_rx s) < 4 \<Longrightarrow>
    link_step cfg noise s [] [] (s\<lparr>lk_phy_pending := rest, lk_phy_to_rx := lk_phy_to_rx s @ [f]\<rparr>)"
| receive: "lk_phy_to_rx s = f # fs \<Longrightarrow> rx_frame cfg f (lk_rx s) (lk_stats s) = Inr (ra, ls, out, fb) \<Longrightarrow>
    length (lk_rx_to_feedback s) < 64 \<Longrightarrow>
    link_step cfg noise s [] out (s\<lparr>lk_phy_to_rx := fs, lk_rx := ra, lk_stats := ls,
      lk_rx_to_feedback := lk_rx_to_feedback s @ fb\<rparr>)"
| fb_in: "lk_rx_to_feedback s = m # ms \<Longrightarrow>
    link_step cfg noise s [] [] (s\<lparr>lk_rx_to_feedback := ms,
      lk_fb_pending := lk_fb_pending s @ [(m, lk_now s + unat (uc_feedback_ui cfg))]\<rparr>)"
| fb_out: "lk_fb_pending s = (m, due) # rest \<Longrightarrow> due \<le> lk_now s \<Longrightarrow> length (lk_feedback_to_tx s) < 64 \<Longrightarrow>
    link_step cfg noise s [] [] (s\<lparr>lk_fb_pending := rest, lk_feedback_to_tx := lk_feedback_to_tx s @ [m]\<rparr>)"
| feedback: "lk_feedback_to_tx s = m # ms \<Longrightarrow> tx_feedback (lk_now s) m (lk_tx s) (lk_stats s) = (ta, ls) \<Longrightarrow>
    link_step cfg noise s [] [] (s\<lparr>lk_feedback_to_tx := ms, lk_tx := ta, lk_stats := ls\<rparr>)"

inductive link_run :: "ucie_config \<Rightarrow> noise \<Rightarrow> fdi_flit list \<Rightarrow> fdi_flit list \<Rightarrow> link_dir \<Rightarrow> bool"
  for cfg :: ucie_config and noise :: noise where
  start: "link_run cfg noise [] [] (link_dir0 cfg)"
| step: "link_run cfg noise ins outs s \<Longrightarrow> link_step cfg noise s i out s' \<Longrightarrow>
    link_run cfg noise (ins @ i) (outs @ out) s'"

section \<open>The state of the link\<close>

text \<open>\<^verbatim>\<open>UcieLink::status_thread\<close>: the value written to \<^verbatim>\<open>link_state\<close> after each wait.\<close>

definition status_trained :: "bool \<Rightarrow> link_state" where
  "status_trained failed = (if failed then Failed else Active)"

definition status_turn :: "bool \<Rightarrow> bool \<Rightarrow> link_stats \<Rightarrow> link_stats \<Rightarrow> link_state \<Rightarrow> link_state" where
  "status_turn failed watchdog_fired forward reverse st =
     (if failed \<or> watchdog_fired then Failed
      else if ls_cdr_lock_loss_count forward \<noteq> 0 \<or> ls_cdr_lock_loss_count reverse \<noteq> 0 \<or>
        ls_deskew_failures forward \<noteq> 0 \<or> ls_deskew_failures reverse \<noteq> 0
      then Degraded else st)"

definition reverse_config :: "ucie_config \<Rightarrow> ucie_config" where
  "reverse_config cfg = cfg\<lparr>uc_seed := uc_seed cfg XOR 0xA5A55A5A\<rparr>"

end
