(* ===== verification/Ucie_Link_Correct.thy ===== *)
theory Ucie_Link_Correct
  imports Ucie_Link
begin

text \<open>
  The link delivers what it accepts, in order and once, as long as every frame the channel
  corrupts fails its check. The invariant ties the retry buffer, the frames on their way and
  the feedback on its way to the two sequence numbers of the adapters.
\<close>

section \<open>The retry buffer\<close>

definition entries :: "fdi_flit list \<Rightarrow> nat \<Rightarrow> nat \<Rightarrow> (nat \<times> fdi_flit) list" where
  "entries ins base m = map (\<lambda>k. (k, ins ! k)) [base..<m]"

lemma dropWhile_upt: "dropWhile (\<lambda>k. k < n) [base..<m] = [max base n..<m]"
proof (induction "m - base" arbitrary: base)
  case (Suc d)
  then have "base < m" by simp
  then have "[base..<m] = base # [Suc base..<m]" by (rule upt_conv_Cons)
  then show ?case using Suc.hyps(1) [of "Suc base"] Suc.hyps(2) \<open>base < m\<close> by (auto simp: max_def)
qed simp

lemma lower_bound_entries: "lower_bound k (entries ins base m) = entries ins (max base k) m"
  by (simp add: lower_bound_def entries_def dropWhile_map comp_def dropWhile_upt)

lemma erase_entries: "dropWhile (\<lambda>e. fst e \<le> n) (entries ins base m) = entries ins (max base (Suc n)) m"
  using lower_bound_entries [of "Suc n" ins base m] by (simp add: lower_bound_def less_Suc_eq_le)

lemma entries_Nil [simp]: "entries ins base m = [] \<longleftrightarrow> m \<le> base"
  by (auto simp: entries_def)

lemma length_entries [simp]: "length (entries ins base m) = m - base"
  by (simp add: entries_def)

lemma entries_Cons: "entries ins base m = (k, f) # es \<Longrightarrow> k = base \<and> base < m \<and> f = ins ! base"
  by (cases "base < m") (auto simp: entries_def upt_conv_Cons)

lemma keys_entries: "fst ` set (entries ins base m) = {base..<m}"
  by (auto simp: entries_def image_iff)

lemma entries_append: "m \<le> length ins \<Longrightarrow> entries (ins @ xs) base m = entries ins base m"
  by (simp add: entries_def nth_append)

lemma map_put_last: "\<forall>e \<in> set m. fst e < k \<Longrightarrow> map_put k v m = m @ [(k, v)]"
  by (induction m) auto

lemma map_put_entries: "base \<le> m \<Longrightarrow> map_put m (ins ! m) (entries ins base m) = entries ins base (Suc m)"
  by (subst map_put_last) (auto simp: entries_def)

section \<open>The invariant\<close>

text \<open>The frames on their way, the next to arrive first.\<close>

definition sending :: "tx_adapter \<Rightarrow> frame list" where
  "sending ta = (case ta_pc ta of Sending f t \<Rightarrow> [f] | _ \<Rightarrow> [])"

definition in_flight :: "link_dir \<Rightarrow> frame list" where
  "in_flight s = lk_phy_to_rx s @ map fst (lk_phy_pending s) @ lk_tx_to_phy s @ sending (lk_tx s)"

definition replies :: "link_dir \<Rightarrow> fb_msg list" where
  "replies s = lk_feedback_to_tx s @ map fst (lk_fb_pending s) @ lk_rx_to_feedback s"

text \<open>A frame that passes its check is the frame that was built for its number.\<close>

definition carries :: "ucie_config \<Rightarrow> fdi_flit list \<Rightarrow> frame \<Rightarrow> bool" where
  "carries cfg ins f \<longleftrightarrow> (let g = ins ! fr_seq f in
     fr_transaction_id f = fd_transaction_id g \<and> fr_vc f = fd_vc g \<and> fr_valid_bytes f = fd_valid_bytes g \<and>
     fr_kind f = fd_kind g \<and> fr_transaction_start f = fd_transaction_start g \<and> fr_fdi_time f = fd_fdi_time g \<and>
     (fc_crc_ok (check_flit cfg (fr_bytes f)) \<longrightarrow>
        (\<exists>replay. build_flit cfg (fr_seq f) (fd_payload g) replay = Inr (fr_bytes f))))"

definition reply_ok :: "nat \<Rightarrow> fb_msg \<Rightarrow> bool" where
  "reply_ok e m \<longleftrightarrow> (if fb_is_nak m then fb_seq m \<le> e else fb_seq m < e)"

definition frame_ok :: "ucie_config \<Rightarrow> fdi_flit list \<Rightarrow> nat \<Rightarrow> nat \<Rightarrow> frame \<Rightarrow> bool" where
  "frame_ok cfg ins e m f \<longleftrightarrow> fr_seq f < m \<and> carries cfg ins f \<and> e \<le> fr_seq f + 127"

definition tx_inv :: "ucie_config \<Rightarrow> fdi_flit list \<Rightarrow> nat \<Rightarrow> tx_adapter \<Rightarrow> bool" where
  "tx_inv cfg ins e ta \<longleftrightarrow> ta_next_seq ta \<le> length ins \<and> e \<le> ta_next_seq ta \<and>
     (\<forall>k < ta_next_seq ta. require_valid_fdi cfg (ins ! k) = Inr ()) \<and>
     (\<exists>base \<le> e. ta_next_seq ta \<le> base + 127 \<and> ta_retry ta = entries ins base (ta_next_seq ta))"

definition line_ok :: "ucie_config \<Rightarrow> fdi_flit list \<Rightarrow> nat \<Rightarrow> nat \<Rightarrow> frame list \<Rightarrow> bool" where
  "line_ok cfg ins e m fs \<longleftrightarrow> list_all (frame_ok cfg ins e m) fs \<and> sorted_wrt (\<lambda>f g. fr_seq f < fr_seq g + 127) fs"

definition link_inv :: "ucie_config \<Rightarrow> fdi_flit list \<Rightarrow> fdi_flit list \<Rightarrow> link_dir \<Rightarrow> bool" where
  "link_inv cfg ins outs s \<longleftrightarrow> (let e = ra_expected_seq (lk_rx s); m = ta_next_seq (lk_tx s) in
     tx_inv cfg ins e (lk_tx s) \<and> lk_fdi_in s = drop m ins \<and> outs = take e ins \<and>
     line_ok cfg ins e m (in_flight s) \<and>
     list_all (\<lambda>f. fc_crc_ok (check_flit cfg (fr_bytes f))) (lk_tx_to_phy s @ sending (lk_tx s)) \<and>
     list_all (reply_ok e) (replies s))"

lemma valid_retry_size: "require_valid_config cfg = Inr () \<Longrightarrow> unat (uc_retry_buffer_size cfg) \<le> 127"
  by (auto simp: require_valid_config_def word_le_nat_alt not_less split: if_splits)

lemma valid_fits: "require_valid_fdi cfg f = Inr () \<Longrightarrow> fits cfg (fd_payload f)"
  by (auto simp: require_valid_fdi_def intro: fits_full split: if_splits)

lemma link_inv_start: "link_inv cfg [] [] (link_dir0 cfg)"
  by (simp add: link_inv_def Let_def tx_inv_def line_ok_def link_dir0_def tx_adapter0_def rx_adapter0_def in_flight_def
      sending_def replies_def entries_def)

section \<open>The transmit adapter\<close>

lemma send_one_ok:
  assumes "send_one cfg now k (ins ! k) replay ta = Inr ta'" "require_valid_fdi cfg (ins ! k) = Inr ()"
  obtains f t where "ta' = ta\<lparr>ta_pc := Sending f t\<rparr>" "fr_seq f = k" "carries cfg ins f" "fc_crc_ok (check_flit cfg (fr_bytes f))"
proof -
  obtain b where b: "build_flit cfg k (fd_payload (ins ! k)) replay = Inr b"
    "check_flit cfg b = \<lparr>fc_crc_ok = True, fc_seq8 = of_nat k, fc_replay_flag = replay\<rparr>"
    using build_flit_checked [OF valid_fits [OF assms(2)]] by metis
  obtain u where u: "serialize_ui cfg = Inr u" using assms(1) b(1) by (auto simp: send_one_def bindR_eq_Inr)
  show ?thesis by (rule that) (use assms(1) b u in \<open>auto simp: send_one_def carries_def Let_def\<close>)
qed

text \<open>What a pass of the sender does to the invariant: it may append one frame.\<close>

definition tx_progress :: "ucie_config \<Rightarrow> fdi_flit list \<Rightarrow> nat \<Rightarrow> tx_adapter \<Rightarrow> tx_adapter \<Rightarrow> bool" where
  "tx_progress cfg ins e ta ta' \<longleftrightarrow> tx_inv cfg ins e ta' \<and> ta_next_seq ta \<le> ta_next_seq ta' \<and>
     list_all (\<lambda>f. frame_ok cfg ins e (ta_next_seq ta') f \<and> fc_crc_ok (check_flit cfg (fr_bytes f)) \<and>
       ta_next_seq ta \<le> fr_seq f + 127) (sending ta')"

lemma replay_progress:
  assumes inv: "tx_inv cfg ins e ta" and sel: "lower_bound (ta_replay_cursor ta) (ta_retry ta) = (k, f) # es"
    and send: "send_one cfg now k f True ta = Inr ta'"
  shows "tx_progress cfg ins e ta ta'"
proof -
  obtain base where base: "base \<le> e" "ta_next_seq ta \<le> base + 127" "ta_retry ta = entries ins base (ta_next_seq ta)"
    using inv by (auto simp: tx_inv_def)
  have kf: "k = max base (ta_replay_cursor ta)" "k < ta_next_seq ta" "f = ins ! k"
    using entries_Cons sel unfolding base(3) lower_bound_entries by blast+
  moreover have valid: "require_valid_fdi cfg (ins ! k) = Inr ()" using inv kf by (simp add: tx_inv_def)
  ultimately obtain g t where g: "ta' = ta\<lparr>ta_pc := Sending g t\<rparr>" "fr_seq g = k" "carries cfg ins g"
    "fc_crc_ok (check_flit cfg (fr_bytes g))"
    using send_one_ok send by metis
  have "e \<le> ta_next_seq ta" using inv by (simp add: tx_inv_def)
  then show ?thesis using inv g kf base by (auto simp: tx_progress_def tx_inv_def sending_def frame_ok_def)
qed

lemma sender_new_progress:
  assumes cfg: "unat (uc_retry_buffer_size cfg) \<le> 127"
    and inv: "tx_inv cfg ins e ta" and run: "sender_new cfg now (drop (ta_next_seq ta) ins) (ta, ls) = Inr (ta', ls', fdi)"
  shows "tx_progress cfg ins e ta ta' \<and> fdi = drop (ta_next_seq ta') ins"
proof (cases "drop (ta_next_seq ta) ins \<noteq> [] \<and> length (ta_retry ta) < unat (uc_retry_buffer_size cfg)")
  case True
  define m where "m = ta_next_seq ta"
  obtain base where base: "base \<le> e" "m \<le> base + 127" "ta_retry ta = entries ins base m"
    using inv by (auto simp: tx_inv_def m_def)
  have em: "e \<le> m" using inv by (simp add: tx_inv_def m_def)
  have mi: "m < length ins" using True by (simp add: m_def)
  have hd: "hd (drop m ins) = ins ! m" "tl (drop m ins) = drop (Suc m) ins"
    using mi by (simp_all add: hd_drop_conv_nth drop_Suc tl_drop)
  define ta1 where "ta1 = ta\<lparr>ta_next_seq := m + 1, ta_retry := map_put m (ins ! m) (ta_retry ta)\<rparr>"
  have valid: "require_valid_fdi cfg (ins ! m) = Inr ()" and send: "send_one cfg now m (ins ! m) False ta1 = Inr ta'"
    and fdi: "fdi = drop (Suc m) ins"
    using run True by (auto simp: sender_new_def Let_def bindR_eq_Inr hd ta1_def m_def [symmetric])
  obtain g t where g: "ta' = ta1\<lparr>ta_pc := Sending g t\<rparr>" "fr_seq g = m" "carries cfg ins g"
    "fc_crc_ok (check_flit cfg (fr_bytes g))"
    using send_one_ok [OF send valid] by metis
  have retry: "ta_retry ta1 = entries ins base (Suc m)"
    using base em by (simp add: ta1_def map_put_entries)
  have "Suc m \<le> base + 127" using True cfg base em by (auto simp: m_def [symmetric])
  moreover have "require_valid_fdi cfg (ins ! k) = Inr ()" if "k < Suc m" for k
    using that inv valid by (auto simp: tx_inv_def m_def less_Suc_eq)
  ultimately have "tx_inv cfg ins e ta1" using mi em base(1) retry by (auto simp: tx_inv_def ta1_def)
  then show ?thesis using g em fdi by (auto simp: tx_progress_def tx_inv_def sending_def frame_ok_def ta1_def m_def)
next
  case False
  then have "ta' = ta\<lparr>ta_pc := if ta_retry ta \<noteq> [] then TimedWait else EventWait\<rparr>" "fdi = drop (ta_next_seq ta) ins"
    using run by (auto simp: sender_new_def Let_def)
  then show ?thesis using inv by (auto simp: tx_progress_def tx_inv_def sending_def)
qed

lemma sender_top_progress:
  assumes cfg: "unat (uc_retry_buffer_size cfg) \<le> 127"
    and inv: "tx_inv cfg ins e ta" and run: "sender_top cfg now (drop (ta_next_seq ta) ins) ta ls = Inr (ta', ls', fdi)"
  shows "tx_progress cfg ins e ta ta' \<and> fdi = drop (ta_next_seq ta') ins"
proof -
  have quiet: "tx_progress cfg ins e ta ta' \<and> fdi = drop (ta_next_seq ta') ins"
    if "sender_new cfg now (drop (ta_next_seq ta) ins) (ta\<lparr>ta_replay_active := False, ta_state := Idle\<rparr>, ls) = Inr (ta', ls', fdi)"
  proof -
    have "tx_inv cfg ins e (ta\<lparr>ta_replay_active := False, ta_state := Idle\<rparr>)" using inv by (simp add: tx_inv_def)
    from sender_new_progress [OF cfg this] that show ?thesis by (simp add: tx_progress_def)
  qed
  show ?thesis
  proof (cases "ta_replay_active ta")
    case False
    then show ?thesis using run sender_new_progress [OF cfg inv] by (simp add: sender_top_def)
  next
    case active: True
    show ?thesis
    proof (cases "lower_bound (ta_replay_cursor ta) (ta_retry ta)")
      case Nil
      then show ?thesis using run active quiet by (simp add: sender_top_def)
    next
      case (Cons kf es)
      obtain k f where kf: "kf = (k, f)" by (cases kf)
      show ?thesis
      proof (cases "k > ta_replay_end ta")
        case True
        then show ?thesis using run active Cons kf quiet by (simp add: sender_top_def)
      next
        case False
        then have send: "send_one cfg now k f True ta = Inr ta'" and fdi: "fdi = drop (ta_next_seq ta) ins"
          using run active Cons kf by (auto simp: sender_top_def bindR_eq_Inr)
        have "ta_next_seq ta' = ta_next_seq ta" using send by (auto simp: send_one_def bindR_eq_Inr)
        then show ?thesis using replay_progress [OF inv] Cons kf send fdi by simp
      qed
    qed
  qed
qed

lemma sender_sent_frame:
  "sender_sent now f ta ls = Inr (ta', ls') \<Longrightarrow>
     ta_next_seq ta' = ta_next_seq ta \<and> ta_retry ta' = ta_retry ta \<and> ta_pc ta' = LoopTop"
  by (auto simp: sender_sent_def Let_def split: if_splits)

lemma sender_wake_frame:
  "sender_wake cfg now ta ls = Inr (ta', ls') \<Longrightarrow>
     ta_next_seq ta' = ta_next_seq ta \<and> ta_retry ta' = ta_retry ta \<and> ta_pc ta' = LoopTop"
  by (auto simp: sender_wake_def bindR_eq_Inr split: if_splits)

lemma tx_feedback_frame:
  assumes "tx_feedback now m ta ls = (ta', ls')"
  shows "ta_next_seq ta' = ta_next_seq ta" "ta_pc ta' = ta_pc ta"
    "ta_retry ta' = (if fb_is_nak m then ta_retry ta else dropWhile (\<lambda>e. fst e \<le> fb_seq m) (ta_retry ta))"
  using assms by (auto simp: tx_feedback_def Let_def split: if_splits list.splits)

lemma tx_inv_cong:
  "tx_inv cfg ins e ta \<Longrightarrow> ta_next_seq ta' = ta_next_seq ta \<Longrightarrow> ta_retry ta' = ta_retry ta \<Longrightarrow> tx_inv cfg ins e ta'"
  by (simp add: tx_inv_def)

lemma tx_inv_feedback:
  assumes inv: "tx_inv cfg ins e ta" and run: "tx_feedback now m ta ls = (ta', ls')" and reply: "reply_ok e m"
  shows "tx_inv cfg ins e ta'"
proof (cases "fb_is_nak m")
  case True
  then show ?thesis using tx_inv_cong [OF inv] tx_feedback_frame [OF run] by simp
next
  case False
  obtain base where base: "base \<le> e" "ta_next_seq ta \<le> base + 127" "ta_retry ta = entries ins base (ta_next_seq ta)"
    using inv by (auto simp: tx_inv_def)
  have "max base (Suc (fb_seq m)) \<le> e" using base reply False by (simp add: reply_ok_def)
  moreover have "ta_retry ta' = entries ins (max base (Suc (fb_seq m))) (ta_next_seq ta)"
    using False base tx_feedback_frame [OF run] by (simp add: erase_entries)
  moreover have "ta_next_seq ta \<le> max base (Suc (fb_seq m)) + 127" using base by simp
  ultimately show ?thesis using inv tx_feedback_frame(1) [OF run] unfolding tx_inv_def by metis
qed

section \<open>The receive adapter\<close>

lemma seq8_eq: "s < e + 256 \<Longrightarrow> e < s + 256 \<Longrightarrow> (of_nat s :: u8) - of_nat e = 0 \<longleftrightarrow> s = e"
proof -
  assume near: "s < e + 256" "e < s + 256"
  have "(of_nat s :: u8) - of_nat e = 0 \<longleftrightarrow> s mod 256 = e mod 256"
    by (simp add: word_of_nat_eq_iff take_bit_eq_mod)
  moreover have "s mod 256 = e mod 256 \<longleftrightarrow> s = e"
  proof
    assume eq: "s mod 256 = e mod 256"
    have "s - e = 0 \<and> e - s = 0"
    proof (cases "e \<le> s")
      case True
      then have "256 dvd s - e" using eq by (simp add: mod_eq_dvd_iff_nat)
      then show ?thesis using near True dvd_imp_le [of 256 "s - e"] by (cases "s - e = 0") auto
    next
      case False
      then have "256 dvd e - s" using mod_eq_dvd_iff_nat [of s e 256] eq by simp
      then show ?thesis using near False dvd_imp_le [of 256 "e - s"] by (cases "e - s = 0") auto
    qed
    then show "s = e" by simp
  qed simp
  ultimately show ?thesis by simp
qed

lemma carries_unpack:
  assumes "carries cfg ins f" "fc_crc_ok (check_flit cfg (fr_bytes f))" "require_valid_fdi cfg (ins ! fr_seq f) = Inr ()"
  shows "unpack_fdi cfg f = Inr (ins ! fr_seq f) \<and> fc_seq8 (check_flit cfg (fr_bytes f)) = of_nat (fr_seq f)"
proof -
  let ?g = "ins ! fr_seq f"
  obtain replay where "build_flit cfg (fr_seq f) (fd_payload ?g) replay = Inr (fr_bytes f)"
    using assms(1,2) by (auto simp: carries_def Let_def)
  then obtain len: "length (fr_bytes f) = unat (flit_bytes cfg)"
    and chk: "check_flit cfg (fr_bytes f) = \<lparr>fc_crc_ok = True, fc_seq8 = of_nat (fr_seq f), fc_replay_flag = replay\<rparr>"
    and body: "if uc_flit_format cfg = AouFormat6 then gather (fr_bytes f) = fd_payload ?g
      else take (length (fd_payload ?g)) (drop 2 (fr_bytes f)) = fd_payload ?g"
    using build_flit_checked [OF valid_fits [OF assms(3)]] by (metis sum.inject(2))
  have pl: "length (fd_payload ?g) = unat (payload_bytes cfg)"
    using assms(3) by (auto simp: require_valid_fdi_def split: if_splits)
  have room: "\<not> length (fr_bytes f) < 2 + unat (payload_bytes cfg)" and six: "uc_flit_format cfg = AouFormat6 \<longrightarrow> length (fr_bytes f) = 256"
    using len by (auto simp: flit_bytes_def payload_bytes_def)
  have pay: "(if uc_flit_format cfg = AouFormat6 then gather (fr_bytes f)
      else take (unat (payload_bytes cfg)) (drop 2 (fr_bytes f))) = fd_payload ?g"
    using body unfolding pl [symmetric] by (cases "uc_flit_format cfg = AouFormat6") simp_all
  have "unpack_fdi cfg f = Inr \<lparr>fd_payload = fd_payload ?g, fd_valid_bytes = fd_valid_bytes ?g,
      fd_transaction_id = fd_transaction_id ?g, fd_vc = fd_vc ?g, fd_kind = fd_kind ?g,
      fd_transaction_start = fd_transaction_start ?g, fd_fdi_time = fd_fdi_time ?g\<rparr>"
    using room six assms(1) unfolding unpack_fdi_def pay by (auto simp: carries_def Let_def)
  then show ?thesis by (simp add: chk)
qed

lemma rx_frame_ok:
  assumes ok: "frame_ok cfg ins e m f" and win: "m \<le> e + 127" and e: "ra_expected_seq ra = e"
    and valid: "\<forall>k < m. require_valid_fdi cfg (ins ! k) = Inr ()"
    and run: "rx_frame cfg f ra ls = Inr (ra', ls', outs, fb)"
  shows "fr_seq f = e \<and> outs = [ins ! e] \<and> ra_expected_seq ra' = Suc e \<and> list_all (reply_ok (Suc e)) fb \<or>
    outs = [] \<and> ra_expected_seq ra' = e \<and> list_all (reply_ok e) fb"
proof (cases "fc_crc_ok (check_flit cfg (fr_bytes f)) \<and> fc_seq8 (check_flit cfg (fr_bytes f)) - of_nat e = 0")
  case True
  have s: "fr_seq f < m" "e \<le> fr_seq f + 127" using ok by (simp_all add: frame_ok_def)
  have u: "unpack_fdi cfg f = Inr (ins ! fr_seq f) \<and> fc_seq8 (check_flit cfg (fr_bytes f)) = of_nat (fr_seq f)"
    by (rule carries_unpack) (use ok True valid s in \<open>simp_all add: frame_ok_def\<close>)
  then have "(of_nat (fr_seq f) :: u8) - of_nat e = 0" using True by metis
  then have "fr_seq f = e" using seq8_eq [of "fr_seq f" e] s win by linarith
  then show ?thesis using run True u e by (auto simp: rx_frame_def Let_def reply_ok_def)
next
  case False
  then show ?thesis using run e by (auto simp: rx_frame_def Let_def reply_ok_def split: if_splits)
qed

section \<open>The line\<close>

lemma line_ok_append: "line_ok cfg ins e m (fs @ gs) \<longleftrightarrow>
    line_ok cfg ins e m fs \<and> line_ok cfg ins e m gs \<and> (\<forall>f \<in> set fs. \<forall>g \<in> set gs. fr_seq f < fr_seq g + 127)"
  by (auto simp: line_ok_def sorted_wrt_append)

lemma line_ok_Nil [simp]: "line_ok cfg ins e m []"
  by (simp add: line_ok_def)

lemma line_ok_Cons: "line_ok cfg ins e m (f # fs) \<longleftrightarrow>
    frame_ok cfg ins e m f \<and> line_ok cfg ins e m fs \<and> (\<forall>g \<in> set fs. fr_seq f < fr_seq g + 127)"
  by (auto simp: line_ok_def)

lemma line_ok_mono: "line_ok cfg ins e m fs \<Longrightarrow> m \<le> m' \<Longrightarrow> line_ok cfg ins e m' fs"
  by (auto simp: line_ok_def frame_ok_def list_all_iff)

lemma line_ok_submit: "line_ok cfg ins e m fs \<Longrightarrow> m \<le> length ins \<Longrightarrow> line_ok cfg (ins @ xs) e m fs"
  by (auto simp: line_ok_def frame_ok_def carries_def nth_append list_all_iff Let_def)

lemma line_ok_send:
  assumes "line_ok cfg ins e m fs" "m \<le> m'" "length gs \<le> 1"
    "list_all (\<lambda>f. frame_ok cfg ins e m' f \<and> m \<le> fr_seq f + 127) gs"
  shows "line_ok cfg ins e m' (fs @ gs)"
proof -
  have "fr_seq f < fr_seq g + 127" if "f \<in> set fs" "g \<in> set gs" for f g
  proof -
    have "fr_seq f < m" using that assms(1) by (auto simp: line_ok_def frame_ok_def list_all_iff)
    moreover have "m \<le> fr_seq g + 127" using that assms(4) by (auto simp: list_all_iff)
    ultimately show ?thesis by simp
  qed
  moreover have "line_ok cfg ins e m' gs" using assms(3,4) by (cases gs) (auto simp: line_ok_Cons)
  ultimately show ?thesis using line_ok_mono [OF assms(1,2)] by (simp add: line_ok_append)
qed

lemma line_ok_deliver:
  "line_ok cfg ins e m (f # fs) \<Longrightarrow> fr_seq f = e \<Longrightarrow> line_ok cfg ins (Suc e) m fs"
  by (fastforce simp: line_ok_def frame_ok_def list_all_iff)

lemma line_ok_replace:
  "line_ok cfg ins e m (xs @ f # ys) \<Longrightarrow> fr_seq f' = fr_seq f \<Longrightarrow> carries cfg ins f' \<Longrightarrow> line_ok cfg ins e m (xs @ f' # ys)"
  by (auto simp: line_ok_append line_ok_Cons frame_ok_def)

lemma length_sending: "length (sending ta) \<le> 1"
  by (simp add: sending_def split: sender_pc.split)

section \<open>Every step keeps the invariant\<close>

text \<open>A corrupted frame fails its check.\<close>

definition detected :: "ucie_config \<Rightarrow> noise \<Rightarrow> bool" where
  "detected cfg noise \<longleftrightarrow> (\<forall>phy now b r. fc_crc_ok (check_flit cfg b) \<longrightarrow> noise phy now b r \<longrightarrow>
     pr_rx_bytes r = b \<or> \<not> fc_crc_ok (check_flit cfg (pr_rx_bytes r)))"

lemma carries_noise:
  assumes "carries cfg ins f" "pr_rx_bytes r = fr_bytes f \<or> \<not> fc_crc_ok (check_flit cfg (pr_rx_bytes r))"
  shows "carries cfg ins (f\<lparr>fr_bytes := pr_rx_bytes r\<rparr>)"
  using assms by (auto simp: carries_def Let_def)

lemma channel_ingress_frame:
  "lk_tx (channel_ingress cfg r f s) = lk_tx s" "lk_rx (channel_ingress cfg r f s) = lk_rx s"
  "lk_fdi_in (channel_ingress cfg r f s) = lk_fdi_in s" "lk_tx_to_phy (channel_ingress cfg r f s) = lk_tx_to_phy s"
  "lk_phy_to_rx (channel_ingress cfg r f s) = lk_phy_to_rx s" "replies (channel_ingress cfg r f s) = replies s"
  "map fst (lk_phy_pending (channel_ingress cfg r f s)) = map fst (lk_phy_pending s) @ [f\<lparr>fr_bytes := pr_rx_bytes r\<rparr>]"
  by (simp_all add: channel_ingress_def Let_def replies_def)

locale guarded_link =
  fixes cfg :: ucie_config and noise :: noise
  assumes retry_size: "unat (uc_retry_buffer_size cfg) \<le> 127"
    and noise_detected: "detected cfg noise"
begin

lemma step_inv:
  assumes "link_step cfg noise s i out s'" "link_inv cfg ins outs s"
  shows "link_inv cfg (ins @ i) (outs @ out) s'"
  using assms
proof (induction rule: link_step.cases)
  case (submit s f)
  then have "ta_next_seq (lk_tx s) \<le> length ins" "ra_expected_seq (lk_rx s) \<le> length ins"
    by (auto simp: link_inv_def Let_def tx_inv_def)
  moreover have "tx_inv cfg (ins @ [f]) (ra_expected_seq (lk_rx s)) (lk_tx s)"
    using submit by (auto simp: link_inv_def Let_def tx_inv_def nth_append entries_append)
  ultimately show ?case using submit
    by (auto simp: link_inv_def Let_def in_flight_def replies_def line_ok_submit)
next
  case (tick s)
  then show ?case by (simp add: link_inv_def Let_def in_flight_def replies_def)
next
  case (trained s t)
  then show ?case by (auto simp: link_inv_def Let_def in_flight_def replies_def tx_inv_def sending_def)
next
  case (top s ta ls fdi)
  let ?e = "ra_expected_seq (lk_rx s)" and ?fs = "lk_phy_to_rx s @ map fst (lk_phy_pending s) @ lk_tx_to_phy s"
  have inv: "tx_inv cfg ins ?e (lk_tx s)" "lk_fdi_in s = drop (ta_next_seq (lk_tx s)) ins"
    "line_ok cfg ins ?e (ta_next_seq (lk_tx s)) ?fs"
    using top by (auto simp: link_inv_def Let_def in_flight_def sending_def)
  have prog: "tx_progress cfg ins ?e (lk_tx s) ta" and fdi: "fdi = drop (ta_next_seq ta) ins"
    using sender_top_progress [OF retry_size inv(1)] top inv(2) by auto
  have "line_ok cfg ins ?e (ta_next_seq ta) (?fs @ sending ta)"
    by (rule line_ok_send [OF inv(3)]) (use prog length_sending in \<open>auto simp: tx_progress_def list_all_iff\<close>)
  then show ?case using top prog fdi
    by (auto simp: link_inv_def Let_def in_flight_def replies_def tx_progress_def list_all_iff)
next
  case (sent s f t ta ls)
  then have "sending (lk_tx s) = [f]" "sending ta = []" "ta_next_seq ta = ta_next_seq (lk_tx s)" "ta_retry ta = ta_retry (lk_tx s)"
    using sender_sent_frame [of "lk_now s" f "lk_tx s" "lk_stats s" ta ls] by (auto simp: sending_def)
  then show ?case using sent tx_inv_cong [of cfg ins _ "lk_tx s" ta]
    by (auto simp: link_inv_def Let_def in_flight_def replies_def)
next
  case (wake s ta ls)
  then have "sending (lk_tx s) = []" "sending ta = []" "ta_next_seq ta = ta_next_seq (lk_tx s)" "ta_retry ta = ta_retry (lk_tx s)"
    using sender_wake_frame [of cfg "lk_now s" "lk_tx s" "lk_stats s" ta ls] by (auto simp: sending_def)
  then show ?case using wake tx_inv_cong [of cfg ins _ "lk_tx s" ta]
    by (auto simp: link_inv_def Let_def in_flight_def replies_def)
next
  case (phy_in s f fs r)
  let ?e = "ra_expected_seq (lk_rx s)" and ?m = "ta_next_seq (lk_tx s)"
  have line: "line_ok cfg ins ?e ?m ((lk_phy_to_rx s @ map fst (lk_phy_pending s)) @ f # (fs @ sending (lk_tx s)))"
    using phy_in by (simp add: link_inv_def Let_def in_flight_def)
  have "fc_crc_ok (check_flit cfg (fr_bytes f))" using phy_in by (simp add: link_inv_def Let_def)
  moreover have "carries cfg ins f" using line by (simp add: line_ok_append line_ok_Cons frame_ok_def)
  ultimately have "carries cfg ins (f\<lparr>fr_bytes := pr_rx_bytes r\<rparr>)"
    using noise_detected phy_in by (intro carries_noise) (auto simp: detected_def)
  from line_ok_replace [OF line _ this] show ?case
    using phy_in by (simp add: link_inv_def Let_def in_flight_def channel_ingress_frame) (simp add: replies_def)
next
  case (phy_out s f due rest)
  then show ?case by (auto simp: link_inv_def Let_def in_flight_def replies_def)
next
  case (receive s f fs ra ls del fb)
  let ?e = "ra_expected_seq (lk_rx s)" and ?m = "ta_next_seq (lk_tx s)"
  let ?rest = "fs @ map fst (lk_phy_pending s) @ lk_tx_to_phy s @ sending (lk_tx s)"
  have inv: "tx_inv cfg ins ?e (lk_tx s)" "outs = take ?e ins" and line: "line_ok cfg ins ?e ?m (f # ?rest)"
    and rep: "list_all (reply_ok ?e) (replies s)"
    using receive by (auto simp: link_inv_def Let_def in_flight_def)
  have win: "?m \<le> ?e + 127" and valid: "\<forall>k < ?m. require_valid_fdi cfg (ins ! k) = Inr ()" and ml: "?m \<le> length ins"
    using inv by (auto simp: tx_inv_def)
  have f: "frame_ok cfg ins ?e ?m f" and rest: "line_ok cfg ins ?e ?m ?rest" using line by (simp_all add: line_ok_Cons)
  from rx_frame_ok [OF f win refl valid] receive
  consider (deliver) "fr_seq f = ?e" "del = [ins ! ?e]" "ra_expected_seq ra = Suc ?e" "list_all (reply_ok (Suc ?e)) fb"
    | (keep) "del = []" "ra_expected_seq ra = ?e" "list_all (reply_ok ?e) fb"
    by blast
  then show ?case
  proof cases
    case deliver
    have em: "?e < ?m" using f deliver by (simp add: frame_ok_def)
    have "tx_inv cfg ins (Suc ?e) (lk_tx s)" using inv(1) em by (auto simp: tx_inv_def intro: le_SucI)
    moreover have "take (Suc ?e) ins = outs @ [ins ! ?e]" using inv em ml by (simp add: take_Suc_conv_app_nth)
    moreover have "line_ok cfg ins (Suc ?e) ?m ?rest" by (rule line_ok_deliver [OF line deliver(1)])
    moreover have "list_all (reply_ok (Suc ?e)) (replies s)" using rep by (auto simp: list_all_iff reply_ok_def split: if_splits)
    ultimately show ?thesis using receive deliver
      by (simp add: link_inv_def Let_def in_flight_def replies_def)
  next
    case keep
    then show ?thesis using receive rest rep by (simp add: link_inv_def Let_def in_flight_def replies_def)
  qed
next
  case (fb_in s m ms)
  then show ?case by (simp add: link_inv_def Let_def in_flight_def replies_def)
next
  case (fb_out s m due rest)
  then show ?case by (simp add: link_inv_def Let_def in_flight_def replies_def)
next
  case (feedback s m ms ta ls)
  have "tx_inv cfg ins (ra_expected_seq (lk_rx s)) ta"
    using tx_inv_feedback [of cfg ins _ "lk_tx s"] feedback by (auto simp: link_inv_def Let_def replies_def)
  moreover have "sending ta = sending (lk_tx s)" "ta_next_seq ta = ta_next_seq (lk_tx s)"
    using tx_feedback_frame feedback by (auto simp: sending_def)
  ultimately show ?case using feedback by (simp add: link_inv_def Let_def in_flight_def replies_def)
qed

lemma run_inv: "link_run cfg noise ins outs s \<Longrightarrow> link_inv cfg ins outs s"
  by (induction rule: link_run.induct) (auto intro: link_inv_start step_inv)

lemma in_order:
  assumes "link_run cfg noise ins outs s"
  shows "outs = take (ra_expected_seq (lk_rx s)) ins"
  using run_inv [OF assms] by (simp add: link_inv_def Let_def)

lemma buffered:
  assumes "link_run cfg noise ins outs s"
  shows "length (ta_retry (lk_tx s)) \<le> 127"
    "ins = outs @ map snd (lower_bound (ra_expected_seq (lk_rx s)) (ta_retry (lk_tx s))) @ lk_fdi_in s"
proof -
  let ?e = "ra_expected_seq (lk_rx s)" and ?m = "ta_next_seq (lk_tx s)"
  have inv: "link_inv cfg ins outs s" by (rule run_inv [OF assms])
  then obtain base where b: "base \<le> ?e" "?m \<le> base + 127" "ta_retry (lk_tx s) = entries ins base ?m"
    by (auto simp: link_inv_def Let_def tx_inv_def)
  have r: "?e \<le> ?m" "?m \<le> length ins" "lk_fdi_in s = drop ?m ins" "outs = take ?e ins"
    using inv by (auto simp: link_inv_def Let_def tx_inv_def)
  show "length (ta_retry (lk_tx s)) \<le> 127" using b by simp
  have "map snd (lower_bound ?e (ta_retry (lk_tx s))) = map ((!) ins) [?e..<?m]"
    using b by (simp add: lower_bound_entries max_def) (auto simp: entries_def)
  also have "\<dots> = take (?m - ?e) (drop ?e ins)" using r by (intro nth_equalityI) auto
  finally have mid: "map snd (lower_bound ?e (ta_retry (lk_tx s))) = take (?m - ?e) (drop ?e ins)" .
  have "drop ?e ins = take (?m - ?e) (drop ?e ins) @ drop ?m ins"
    using r by (metis append_take_drop_id drop_drop le_add_diff_inverse2)
  then show "ins = outs @ map snd (lower_bound ?e (ta_retry (lk_tx s))) @ lk_fdi_in s"
    unfolding mid r(3,4) by (metis append_take_drop_id)
qed

end

end
