(* ===== verification/Ucie_Props.thy ===== *)
theory Ucie_Props
  imports Ucie_Link_Correct
begin

text \<open>
  The properties of the UCIe link: flit round trip and error detection, the quiet channel, and
  in-order delivery of one direction over the physical layer of the model, with the runs that
  witness them.
\<close>

section \<open>The physical layer as a noise source\<close>

text \<open>
  Every result of \<^verbatim>\<open>transmit\<close>, whatever the skew, jitter, noise and error draws, the intersymbol interference
  and the state of the clock recovery: any number of symbols may be decided wrongly and any of the bit flips may
  happen. Only what the CRC cannot see is left out, a frame that arrives altered with a check that still holds.
\<close>

definition phy_noise :: "ucie_config \<Rightarrow> noise" where
  "phy_noise cfg phy now_ui b r \<longleftrightarrow> (\<exists>d. phy_transmit cfg phy d b now_ui = Inr r) \<and>
     (fc_crc_ok (check_flit cfg b) \<longrightarrow> pr_rx_bytes r = b \<or> \<not> fc_crc_ok (check_flit cfg (pr_rx_bytes r)))"

lemma crc_ok_length: "fc_crc_ok (check_flit cfg b) \<Longrightarrow> length b = unat (flit_bytes cfg)"
  by (auto simp: check_flit_def split: if_splits)

lemma one_flip_detected:
  assumes "fc_crc_ok (check_flit cfg b)" "idx < 8 * length b"
  shows "\<not> fc_crc_ok (check_flit cfg (flip_random_bit idx b))"
proof -
  obtain v where "flip_random_bit idx b = b[idx div 8 := v]" "v \<noteq> b ! (idx div 8)" "idx div 8 < length b"
    using flip_random_bit_byte [OF assms(2)] .
  then show ?thesis using corrupt_byte_detected [OF crc_ok_length [OF assms(1)] assms(1)] by simp
qed

lemma phy_noise_detected: "detected cfg (phy_noise cfg)"
  by (simp add: detected_def phy_noise_def)

text \<open>Within the decision margin nothing has to be left out: at most one of the two bit flips is always seen.\<close>

lemma phy_noise_quiet:
  assumes lanes: "uc_num_lanes cfg \<noteq> 0" and d: "quiet cfg phy d b now" "\<not> (skewed cfg d \<and> pd_unit d < uc_extra_flit_error_rate cfg)"
    "pd_flip_deskew d < 8 * length b" "pd_flip_extra d < 8 * length b" "phy_transmit cfg phy d b now = Inr r"
  shows "phy_noise cfg phy now b r"
  unfolding phy_noise_def
proof (intro conjI impI)
  show "\<exists>d. phy_transmit cfg phy d b now = Inr r" using d(5) by blast
next
  assume ok: "fc_crc_ok (check_flit cfg b)"
  have "pr_rx_bytes r = (if pr_extra_error r then flip_random_bit (pd_flip_extra d) else id)
       ((if pr_deskew_failure r then flip_random_bit (pd_flip_deskew d) else id) b)"
    "pr_deskew_failure r = skewed cfg d" "pr_extra_error r = (pd_unit d < uc_extra_flit_error_rate cfg)"
    using phy_transmit_quiet [OF lanes d(1)] d(5) by (metis sum.inject(2))+
  then show "pr_rx_bytes r = b \<or> \<not> fc_crc_ok (check_flit cfg (pr_rx_bytes r))"
    using d one_flip_detected [OF ok d(3)] one_flip_detected [OF ok d(4)] by auto
qed

lemma valid_guarded: "require_valid_config cfg = Inr () \<Longrightarrow> guarded_link cfg (phy_noise cfg)"
  by unfold_locales (auto intro: phy_noise_detected valid_retry_size simp: require_valid_config_def split: if_splits)

interpretation default_link: guarded_link ucie_config0 "phy_noise ucie_config0"
  by (rule valid_guarded) (simp add: require_valid_config_def ucie_config0_def)

section \<open>A run of the link\<close>

definition clean_config :: ucie_config where
  "clean_config = ucie_config0\<lparr>uc_train_ui := 0, uc_isi_h1 := 0, uc_isi_h2 := 0, uc_awgn_sigma := 0, uc_jitter_sigma_ui := 0\<rparr>"

definition sample_fdi :: fdi_flit where
  "sample_fdi = \<lparr>fd_payload = replicate 236 7, fd_valid_bytes = 236, fd_transaction_id = 1, fd_vc = 0,
     fd_kind = Request, fd_transaction_start = 0, fd_fdi_time = 0\<rparr>"

definition quiet_draws :: phy_draws where
  "quiet_draws = \<lparr>pd_skew = (\<lambda>_. 0), pd_jitter = (\<lambda>_ _. 0), pd_noise = (\<lambda>_ _. 0), pd_unit = 0, pd_flip_deskew = 0, pd_flip_extra = 0\<rparr>"

lemma clean_valid: "require_valid_config clean_config = Inr ()"
  by (simp add: require_valid_config_def clean_config_def ucie_config0_def)

lemma clean_geometry:
  "serialize_ui clean_config = Inr 64" "replay_timeout_ui clean_config = Inr 704"
  "uc_retry_buffer_size clean_config = 64" "uc_train_ui clean_config = 0"
  by (simp_all add: serialize_ui_def replay_timeout_ui_def bits_per_ui_def flit_bits_def flit_bytes_def clean_config_def
      ucie_config0_def)

lemma sample_valid: "require_valid_fdi clean_config sample_fdi = Inr ()"
  by (simp add: require_valid_fdi_def sample_fdi_def payload_bytes_def clean_config_def ucie_config0_def)

lemma clean_noise:
  assumes "b \<noteq> []"
  obtains r where "phy_noise clean_config phy now b r" "pr_rx_bytes r = b"
proof -
  have q: "quiet clean_config phy quiet_draws b now"
    by (simp add: quiet_def within_margin_def channel_sample_def Let_def phy_sigma_def quiet_draws_def clean_config_def
        ucie_config0_def list_all_iff)
  have s: "\<not> skewed clean_config quiet_draws" "\<not> pd_unit quiet_draws < uc_extra_flit_error_rate clean_config"
    by (simp_all add: skewed_def quiet_draws_def clean_config_def ucie_config0_def list_ex_iff)
  have "uc_num_lanes clean_config \<noteq> 0" by (simp add: clean_config_def ucie_config0_def)
  then obtain r where r: "phy_transmit clean_config phy quiet_draws b now = Inr r" "pr_rx_bytes r = b"
    using phy_transmit_quiet [OF _ q] s by auto
  moreover have "phy_noise clean_config phy now b r"
    by (rule phy_noise_quiet [OF _ q _ _ _ r(1)]) (use assms in \<open>simp_all add: skewed_def quiet_draws_def clean_config_def
        ucie_config0_def list_ex_iff\<close>)
  ultimately show ?thesis using that by blast
qed

lemma run_ticks: "link_run cfg noise ins outs s \<Longrightarrow> link_run cfg noise ins outs (s\<lparr>lk_now := lk_now s + n\<rparr>)"
proof (induction n)
  case (Suc n)
  from link_run.step [OF Suc.IH [OF Suc.prems] link_step.tick] show ?case by simp
qed simp

lemma run_silent: "link_run cfg noise ins outs s \<Longrightarrow> link_step cfg noise s [] [] s' \<Longrightarrow> link_run cfg noise ins outs s'"
  using link_run.step [of cfg noise ins outs s "[]" "[]" s'] by simp

text \<open>
  One flit is submitted and sent, its frame arrives, the sender times out and starts to replay
  it while the receiver still has to turn to the frame.
\<close>

definition sample_frame :: "u8 list \<Rightarrow> bool \<Rightarrow> frame" where
  "sample_frame b replay = \<lparr>fr_bytes = b, fr_seq = 0, fr_transaction_id = 1, fr_vc = 0, fr_valid_bytes = 236, fr_kind = Request,
     fr_replay = replay, fr_transaction_start = 0, fr_fdi_time = 0\<rparr>"

lemma sample_built:
  obtains b where "build_flit clean_config 0 (fd_payload sample_fdi) replay = Inr b" "b \<noteq> []"
    "check_flit clean_config b = \<lparr>fc_crc_ok = True, fc_seq8 = 0, fc_replay_flag = replay\<rparr>"
    "unpack_fdi clean_config (sample_frame b False) = Inr sample_fdi"
proof -
  obtain b where b: "build_flit clean_config 0 (fd_payload sample_fdi) replay = Inr b" "length b = unat (flit_bytes clean_config)"
    "check_flit clean_config b = \<lparr>fc_crc_ok = True, fc_seq8 = of_nat 0, fc_replay_flag = replay\<rparr>"
    by (rule build_flit_checked [OF valid_fits [OF sample_valid]])
  have "carries clean_config [sample_fdi] (sample_frame b False)"
    using b by (auto simp: carries_def sample_frame_def sample_fdi_def)
  from carries_unpack [OF this] have "unpack_fdi clean_config (sample_frame b False) = Inr sample_fdi"
    using b sample_valid by (simp add: sample_frame_def)
  moreover have "b \<noteq> []" using b(2) by (auto simp: length_flit split: if_splits)
  ultimately show ?thesis using that b by simp
qed

lemma sample_send:
  assumes "build_flit clean_config 0 (fd_payload sample_fdi) replay = Inr b"
  shows "send_one clean_config now 0 sample_fdi replay ta = Inr (ta\<lparr>ta_pc := Sending (sample_frame b replay) (now + 64)\<rparr>)"
  using assms by (simp add: send_one_def clean_geometry sample_frame_def sample_fdi_def)

lemma arrived_run:
  obtains s b where "link_run clean_config (phy_noise clean_config) [sample_fdi] [] s"
    "check_flit clean_config b = \<lparr>fc_crc_ok = True, fc_seq8 = 0, fc_replay_flag = False\<rparr>"
    "unpack_fdi clean_config (sample_frame b False) = Inr sample_fdi"
    "ta_pc (lk_tx s) = LoopTop" "\<not> ta_replay_active (lk_tx s)" "ta_retry (lk_tx s) = [(0, sample_fdi)]"
    "lk_fdi_in s = []" "lk_rx s = rx_adapter0" "lk_phy_to_rx s = [sample_frame b False]"
    "lk_rx_to_feedback s = []" "lk_fb_pending s = []" "lk_feedback_to_tx s = []" "lk_tx_to_phy s = []"
proof -
  obtain b where b: "build_flit clean_config 0 (fd_payload sample_fdi) False = Inr b" "b \<noteq> []"
    "check_flit clean_config b = \<lparr>fc_crc_ok = True, fc_seq8 = 0, fc_replay_flag = False\<rparr>"
    "unpack_fdi clean_config (sample_frame b False) = Inr sample_fdi"
    by (rule sample_built)
  let ?run = "link_run clean_config (phy_noise clean_config) [sample_fdi] []"
  define s1 where "s1 = (link_dir0 clean_config)\<lparr>lk_fdi_in := [sample_fdi], lk_tx := (tx_adapter0 clean_config)\<lparr>ta_pc := LoopTop\<rparr>\<rparr>"
  have r0: "?run ((link_dir0 clean_config)\<lparr>lk_fdi_in := [sample_fdi]\<rparr>)"
    using link_run.step [OF link_run.start link_step.submit] by (simp add: link_dir0_def)
  have r1: "?run s1" unfolding s1_def
    using run_silent [OF r0 link_step.trained] by (simp add: link_dir0_def tx_adapter0_def clean_geometry)
  define ta2 where "ta2 = (lk_tx s1)\<lparr>ta_next_seq := 1, ta_retry := [(0, sample_fdi)], ta_pc := Sending (sample_frame b False) 64\<rparr>"
  define ls2 where "ls2 = (lk_stats s1)\<lparr>ls_max_retry_buffer_occupancy := 1\<rparr>"
  have top: "sender_top clean_config (lk_now s1) (lk_fdi_in s1) (lk_tx s1) (lk_stats s1) = Inr (ta2, ls2, [])"
    by (simp add: sender_top_def sender_new_def s1_def ta2_def ls2_def tx_adapter0_def link_dir0_def link_stats0_def
        clean_geometry sample_valid sample_send [OF b(1)] Let_def)
  have "ta_pc (lk_tx s1) = LoopTop" by (simp add: s1_def)
  from run_silent [OF r1 link_step.top [OF this top]]
  have r2: "?run (s1\<lparr>lk_tx := ta2, lk_stats := ls2, lk_fdi_in := []\<rparr>)" .
  define s3 where "s3 = s1\<lparr>lk_tx := ta2, lk_stats := ls2, lk_fdi_in := [], lk_now := 64\<rparr>"
  have r3: "?run s3" using run_ticks [OF r2, of 64] by (simp add: s3_def s1_def link_dir0_def)
  obtain ta4 ls4 where sent: "sender_sent (lk_now s3) (sample_frame b False) (lk_tx s3) (lk_stats s3) = Inr (ta4, ls4)"
    and ta4: "ta_pc ta4 = LoopTop" "\<not> ta_replay_active ta4" "ta_retry ta4 = [(0, sample_fdi)]"
    by (auto simp: sender_sent_def sample_frame_def s3_def ta2_def s1_def tx_adapter0_def link_dir0_def Let_def)
  have "ta_pc (lk_tx s3) = Sending (sample_frame b False) 64" "64 \<le> lk_now s3" "length (lk_tx_to_phy s3) < 4"
    by (simp_all add: s3_def ta2_def s1_def link_dir0_def)
  from run_silent [OF r3 link_step.sent [OF this sent]]
  have r4: "?run (s3\<lparr>lk_tx := ta4, lk_stats := ls4, lk_tx_to_phy := [sample_frame b False]\<rparr>)"
    by (simp add: s3_def s1_def link_dir0_def)
  define s4 where "s4 = s3\<lparr>lk_tx := ta4, lk_stats := ls4, lk_tx_to_phy := [sample_frame b False]\<rparr>"
  obtain r where r: "phy_noise clean_config (lk_phy s4) (of_nat (lk_now s4)) b r" "pr_rx_bytes r = b"
    using clean_noise [OF b(2)] by blast
  define s5 where "s5 = channel_ingress clean_config r (sample_frame b False) (s4\<lparr>lk_tx_to_phy := []\<rparr>)"
  have r5: "?run s5" unfolding s5_def
    by (rule run_silent [OF r4 [folded s4_def] link_step.phy_in]) (use r in \<open>simp_all add: s4_def sample_frame_def\<close>)
  obtain due where due: "lk_phy_pending s5 = [(sample_frame b False, due)]"
    using r(2) by (simp add: s5_def channel_ingress_def Let_def s4_def s3_def s1_def link_dir0_def sample_frame_def)
  have s5: "lk_tx s5 = ta4" "lk_fdi_in s5 = []" "lk_rx s5 = rx_adapter0" "lk_phy_to_rx s5 = []" "lk_rx_to_feedback s5 = []"
    "lk_fb_pending s5 = []" "lk_feedback_to_tx s5 = []" "lk_tx_to_phy s5 = []"
    by (simp_all add: s5_def channel_ingress_def Let_def s4_def s3_def s1_def link_dir0_def)
  define s6 where "s6 = s5\<lparr>lk_now := lk_now s5 + due, lk_phy_pending := [], lk_phy_to_rx := [sample_frame b False]\<rparr>"
  have r6: "?run s6"
    using run_silent [OF run_ticks [OF r5, of due] link_step.phy_out] due s5 by (simp add: s6_def)
  show ?thesis by (rule that [OF r6 b(3,4)]) (simp_all add: s6_def s5 ta4)
qed

text \<open>The receiver delivers the flit and acknowledges it.\<close>

lemma sample_receive:
  assumes "check_flit clean_config b = \<lparr>fc_crc_ok = True, fc_seq8 = 0, fc_replay_flag = replay\<rparr>"
    "unpack_fdi clean_config (sample_frame b False) = Inr sample_fdi"
  obtains ra ls' where "rx_frame clean_config (sample_frame b False) rx_adapter0 ls =
      Inr (ra, ls', [sample_fdi], [\<lparr>fb_is_nak = False, fb_seq = 0\<rparr>])" "ra_expected_seq ra = 1"
  using assms that by (simp add: rx_frame_def Let_def rx_adapter0_def sample_frame_def)

lemma delivered_run:
  obtains s where "link_run clean_config (phy_noise clean_config) [sample_fdi] [sample_fdi] s"
proof -
  obtain s b where s: "link_run clean_config (phy_noise clean_config) [sample_fdi] [] s"
    "check_flit clean_config b = \<lparr>fc_crc_ok = True, fc_seq8 = 0, fc_replay_flag = False\<rparr>"
    "unpack_fdi clean_config (sample_frame b False) = Inr sample_fdi"
    "lk_rx s = rx_adapter0" "lk_phy_to_rx s = [sample_frame b False]" "lk_rx_to_feedback s = []"
    by (rule arrived_run)
  obtain ra ls where "rx_frame clean_config (sample_frame b False) (lk_rx s) (lk_stats s) =
      Inr (ra, ls, [sample_fdi], [\<lparr>fb_is_nak = False, fb_seq = 0\<rparr>])"
    using sample_receive [OF s(2,3)] s(4) by metis
  with link_run.step [OF s(1) link_step.receive [OF s(5) this]] s(6) show ?thesis using that by simp
qed

lemma stale_replay_run:
  obtains s g t where "link_run clean_config (phy_noise clean_config) [sample_fdi] [sample_fdi] s"
    "ta_pc (lk_tx s) = Sending g t" "t \<le> lk_now s" "length (lk_tx_to_phy s) < 4" "fr_replay g" "ta_retry (lk_tx s) = []"
proof -
  obtain s b where s: "link_run clean_config (phy_noise clean_config) [sample_fdi] [] s"
    "check_flit clean_config b = \<lparr>fc_crc_ok = True, fc_seq8 = 0, fc_replay_flag = False\<rparr>"
    "unpack_fdi clean_config (sample_frame b False) = Inr sample_fdi"
    "ta_pc (lk_tx s) = LoopTop" "\<not> ta_replay_active (lk_tx s)" "ta_retry (lk_tx s) = [(0, sample_fdi)]"
    "lk_fdi_in s = []" "lk_rx s = rx_adapter0" "lk_phy_to_rx s = [sample_frame b False]"
    "lk_rx_to_feedback s = []" "lk_fb_pending s = []" "lk_feedback_to_tx s = []" "lk_tx_to_phy s = []"
    by (rule arrived_run)
  let ?run = "link_run clean_config (phy_noise clean_config) [sample_fdi] []"
  define ta1 where "ta1 = (lk_tx s)\<lparr>ta_pc := TimedWait\<rparr>"
  have "sender_top clean_config (lk_now s) (lk_fdi_in s) (lk_tx s) (lk_stats s) = Inr (ta1, lk_stats s, [])"
    using s by (simp add: sender_top_def sender_new_def ta1_def)
  from run_silent [OF s(1) link_step.top [OF s(4) this]] s(7)
  have r1: "?run (s\<lparr>lk_tx := ta1, lk_stats := lk_stats s, lk_fdi_in := []\<rparr>)" by simp
  define t where "t = lk_now s + ta_last_progress (lk_tx s) + 704"
  define s2 where "s2 = s\<lparr>lk_tx := ta1, lk_fdi_in := [], lk_now := t\<rparr>"
  have r2: "?run s2" using run_ticks [OF r1, of "ta_last_progress (lk_tx s) + 704"] by (simp add: s2_def t_def add.assoc)
  define ta3 where "ta3 = ta1\<lparr>ta_replay_active := True, ta_replay_cursor := 0, ta_replay_end := 0, ta_state := NakInProgress, ta_pc := LoopTop\<rparr>"
  define ls3 where "ls3 = (lk_stats s)\<lparr>ls_replay_timeout_events := ls_replay_timeout_events (lk_stats s) + 1\<rparr>"
  have wake: "sender_wake clean_config (lk_now s2) (lk_tx s2) (lk_stats s2) = Inr (ta3, ls3)"
    using s by (simp add: sender_wake_def clean_geometry s2_def ta1_def t_def ta3_def ls3_def)
  define s3 where "s3 = s2\<lparr>lk_tx := ta3, lk_stats := ls3\<rparr>"
  have r3: "?run s3" unfolding s3_def
    by (rule run_silent [OF r2 link_step.wake [OF _ wake]]) (simp add: s2_def ta1_def)
  obtain c where c: "build_flit clean_config 0 (fd_payload sample_fdi) True = Inr c"
    using sample_built by metis
  define ta4 where "ta4 = ta3\<lparr>ta_pc := Sending (sample_frame c True) (t + 64)\<rparr>"
  have "sender_top clean_config (lk_now s3) (lk_fdi_in s3) (lk_tx s3) (lk_stats s3) = Inr (ta4, ls3, [])"
    using s by (simp add: sender_top_def s3_def s2_def ta3_def ta1_def lower_bound_def sample_send [OF c] ta4_def)
  moreover have "ta_pc (lk_tx s3) = LoopTop" by (simp add: s3_def ta3_def)
  ultimately have "?run (s3\<lparr>lk_tx := ta4, lk_stats := ls3, lk_fdi_in := []\<rparr>)"
    using run_silent [OF r3 link_step.top] by blast
  moreover define s4 where "s4 = s3\<lparr>lk_tx := ta4, lk_stats := ls3, lk_fdi_in := []\<rparr>"
  ultimately have r4: "?run s4" by simp
  have s4: "lk_rx s4 = rx_adapter0" "lk_phy_to_rx s4 = [sample_frame b False]" "lk_rx_to_feedback s4 = []"
    "lk_fb_pending s4 = []" "lk_feedback_to_tx s4 = []" "lk_now s4 = t" "lk_tx s4 = ta4"
    using s by (simp_all add: s4_def s3_def s2_def)
  let ?run2 = "link_run clean_config (phy_noise clean_config) [sample_fdi] [sample_fdi]"
  let ?ack = "\<lparr>fb_is_nak = False, fb_seq = 0\<rparr>"
  obtain ra ls where "rx_frame clean_config (sample_frame b False) (lk_rx s4) (lk_stats s4) = Inr (ra, ls, [sample_fdi], [?ack])"
    using sample_receive [OF s(2,3)] s4(1) by metis
  from link_run.step [OF r4 link_step.receive [OF s4(2) this]] s4(3)
  have r5: "link_run clean_config (phy_noise clean_config) [sample_fdi] [sample_fdi]
      (s4\<lparr>lk_phy_to_rx := [], lk_rx := ra, lk_stats := ls, lk_rx_to_feedback := [?ack]\<rparr>)" (is "link_run _ _ _ _ ?s5") by simp
  from run_silent [OF r5 link_step.fb_in [of _ ?ack "[]"]] s4
  have "?run2 (?s5\<lparr>lk_rx_to_feedback := [], lk_fb_pending := [(?ack, t + unat (uc_feedback_ui clean_config))]\<rparr>)" (is "link_run _ _ _ _ ?s6")
    by simp
  from run_ticks [OF this, of "unat (uc_feedback_ui clean_config) + 64"] s4
  have r7: "?run2 (?s6\<lparr>lk_now := t + unat (uc_feedback_ui clean_config) + 64\<rparr>)" (is "link_run _ _ _ _ ?s7") by (simp add: add.assoc)
  have r8: "?run2 (?s7\<lparr>lk_fb_pending := [], lk_feedback_to_tx := [?ack]\<rparr>)" (is "link_run _ _ _ _ ?s8")
    using run_silent [OF r7 link_step.fb_out [of _ ?ack _ "[]"]] s4 by simp
  obtain ta9 ls9 where fb: "tx_feedback (lk_now ?s8) ?ack (lk_tx ?s8) (lk_stats ?s8) = (ta9, ls9)"
    by (cases "tx_feedback (lk_now ?s8) ?ack (lk_tx ?s8) (lk_stats ?s8)") simp
  have r9: "?run2 (?s8\<lparr>lk_feedback_to_tx := [], lk_tx := ta9, lk_stats := ls9\<rparr>)" (is "link_run _ _ _ _ ?s9")
    by (rule run_silent [OF r8 link_step.feedback [OF _ fb]]) simp
  have ta9: "ta_pc ta9 = Sending (sample_frame c True) (t + 64)" "ta_retry ta9 = []"
    using tx_feedback_frame [OF fb] s s4 by (simp_all add: ta4_def ta3_def ta1_def)
  show ?thesis
    by (rule that [OF r9, of "sample_frame c True" "t + 64"]) (use ta9 s s4 in \<open>simp_all add: sample_frame_def s4_def s3_def s2_def\<close>)
qed

section \<open>Properties\<close>

text \<open>
  C33. A flit that was built passes its check in each of the three formats, with the low eight
  bits of its sequence number and its replay flag, and unpacking its frame gives back the padded
  payload: \<^verbatim>\<open>build_flit\<close> against \<^verbatim>\<open>check_flit\<close> and \<^verbatim>\<open>unpack_fdi\<close>.
\<close>

theorem flit_roundtrip:
  assumes "length payload = unat (payload_bytes cfg)"
  shows "\<exists>b. build_flit cfg seq payload replay = Inr b \<and>
    check_flit cfg b = \<lparr>fc_crc_ok = True, fc_seq8 = of_nat seq, fc_replay_flag = replay\<rparr> \<and>
    (\<forall>f. fr_bytes f = b \<longrightarrow> map_sum id fd_payload (unpack_fdi cfg f) = Inr payload)"
proof -
  obtain b where b: "build_flit cfg seq payload replay = Inr b" "length b = unat (flit_bytes cfg)"
    "check_flit cfg b = \<lparr>fc_crc_ok = True, fc_seq8 = of_nat seq, fc_replay_flag = replay\<rparr>"
    "if uc_flit_format cfg = AouFormat6 then gather b = payload else take (length payload) (drop 2 b) = payload"
    by (rule build_flit_checked [OF fits_full [OF assms]])
  have "unat (flit_bytes cfg) \<ge> 2 + unat (payload_bytes cfg)" "uc_flit_format cfg = AouFormat6 \<Longrightarrow> unat (flit_bytes cfg) = 256"
    by (simp_all add: flit_bytes_def payload_bytes_def)
  then have "map_sum id fd_payload (unpack_fdi cfg f) = Inr payload" if "fr_bytes f = b" for f
    using b(2,4) that assms by (auto simp: unpack_fdi_def split: if_splits)
  then show ?thesis using b by blast
qed

theorem flit_roundtrip_witness:
  "\<exists>b. build_flit clean_config 300 (replicate 236 7) True = Inr b \<and>
    check_flit clean_config b = \<lparr>fc_crc_ok = True, fc_seq8 = 44, fc_replay_flag = True\<rparr>"
proof -
  have "length (replicate 236 (7 :: u8)) = unat (payload_bytes clean_config)"
    by (simp add: payload_bytes_def clean_config_def ucie_config0_def)
  from flit_roundtrip [OF this, of 300 True] show ?thesis by auto
qed

text \<open>
  C23. Error detection: when any one byte of a flit that passes its check is changed, header and
  checksum bytes included, the check fails, in each of the three formats.
\<close>

theorem corruption_detected:
  assumes "fc_crc_ok (check_flit cfg b)" "k < length b" "v \<noteq> b ! k"
  shows "\<not> fc_crc_ok (check_flit cfg (b[k := v]))"
  by (rule corrupt_byte_detected [OF crc_ok_length [OF assms(1)] assms])

theorem corruption_detected_witness:
  "\<exists>b. fc_crc_ok (check_flit clean_config b) \<and> \<not> fc_crc_ok (check_flit clean_config (b[255 := b ! 255 + 1]))"
proof -
  have "length (replicate 236 (7 :: u8)) = unat (payload_bytes clean_config)"
    by (simp add: payload_bytes_def clean_config_def ucie_config0_def)
  then obtain b where "check_flit clean_config b = \<lparr>fc_crc_ok = True, fc_seq8 = of_nat 0, fc_replay_flag = False\<rparr>"
    and b1: "length b = unat (flit_bytes clean_config)"
    using build_flit_checked [OF fits_full] by metis
  then have b: "length b = unat (flit_bytes clean_config)" "fc_crc_ok (check_flit clean_config b)" by simp_all
  have "255 < length b" using b(1) by (simp add: flit_bytes_def clean_config_def ucie_config0_def)
  moreover have "x + 1 \<noteq> x" for x :: u8 by simp
  ultimately show ?thesis using corruption_detected [OF b(2), of 255 "b ! 255 + 1"] b(2) by blast
qed

text \<open>
  A channel whose disturbance stays below half the distance between two levels reads every
  symbol right: \<^verbatim>\<open>transmit\<close> succeeds without symbol errors, and without a deskew failure and an
  injected error the received bytes are the sent ones, for PAM4 and for NRZ and any number of lanes.
\<close>

theorem quiet_channel:
  assumes "uc_num_lanes cfg \<noteq> 0" "quiet cfg phy d tx now_ui"
    "\<not> skewed cfg d" "pd_unit d \<ge> uc_extra_flit_error_rate cfg"
  shows "\<exists>r. phy_transmit cfg phy d tx now_ui = Inr r \<and> pr_rx_bytes r = tx \<and> pr_symbol_errors r = 0"
proof -
  obtain r where "phy_transmit cfg phy d tx now_ui = Inr r" "pr_symbol_errors r = 0"
    "pr_deskew_failure r = skewed cfg d" "pr_extra_error r = (pd_unit d < uc_extra_flit_error_rate cfg)"
    "pr_rx_bytes r = (if pr_extra_error r then flip_random_bit (pd_flip_extra d) else id)
         ((if pr_deskew_failure r then flip_random_bit (pd_flip_deskew d) else id) tx)"
    by (rule phy_transmit_quiet [OF assms(1,2)])
  then show ?thesis using assms(3,4) by auto
qed

theorem quiet_channel_witness:
  "\<exists>r. phy_transmit clean_config behavioral_phy0 quiet_draws [1, 2, 3] 0 = Inr r \<and> pr_rx_bytes r = [1, 2, 3] \<and>
     pr_symbol_errors r = 0"
  by (rule quiet_channel) (simp_all add: quiet_def within_margin_def channel_sample_def Let_def phy_sigma_def
      quiet_draws_def clean_config_def ucie_config0_def list_all_iff skewed_def list_ex_iff)

text \<open>
  C2. One direction of the link delivers the accepted flits in order and exactly once, over every run in which
  the CRC rejects each frame that the physical layer altered: whatever the schedule, the symbol errors, the bit
  flips, the clock recovery, the negative acknowledgements and the timeouts, what was submitted is what was
  delivered, followed by the entries of the retry buffer from the expected number on and the flits that still
  wait at the input. The retry buffer never exceeds its seven-bit window. A run with an altered frame whose check
  still holds is left out; within the decision margin and with at most one bit flip there is none.
\<close>

theorem link_delivers_in_order:
  assumes "require_valid_config cfg = Inr ()" "link_run cfg (phy_noise cfg) ins outs s"
  shows "ins = outs @ map snd (lower_bound (ra_expected_seq (lk_rx s)) (ta_retry (lk_tx s))) @ lk_fdi_in s \<and>
    length (ta_retry (lk_tx s)) \<le> 127"
  using guarded_link.buffered [OF valid_guarded [OF assms(1)] assms(2)] by blast

theorem link_delivers_in_order_witness:
  "\<exists>s. link_run clean_config (phy_noise clean_config) [sample_fdi] [sample_fdi] s \<and>
     [sample_fdi] = [sample_fdi] @ map snd (lower_bound (ra_expected_seq (lk_rx s)) (ta_retry (lk_tx s))) @ lk_fdi_in s"
proof -
  obtain s where r: "link_run clean_config (phy_noise clean_config) [sample_fdi] [sample_fdi] s"
    by (rule delivered_run)
  then show ?thesis using link_delivers_in_order [OF clean_valid r] by blast
qed

text \<open>
  C34. The replay loop can use an erased entry: there is a run, with the default protocol settings
  and an error-free channel, in which the acknowledgement of a frame arrives while \<^verbatim>\<open>send_one\<close>
  replays it, so that \<^verbatim>\<open>sender\<close> resumes with the iterator of an entry that \<^verbatim>\<open>feedback\<close> has erased.
\<close>

theorem replay_uses_erased_entry:
  "\<exists>s f t. link_run clean_config (phy_noise clean_config) [sample_fdi] [sample_fdi] s \<and>
     ta_pc (lk_tx s) = Sending f t \<and> t \<le> lk_now s \<and> length (lk_tx_to_phy s) < 4 \<and>
     sender_sent (lk_now s) f (lk_tx s) (lk_stats s) = Inl (LogicError ''iterator of an erased retry buffer entry'')"
proof -
  obtain s g t where s: "link_run clean_config (phy_noise clean_config) [sample_fdi] [sample_fdi] s"
    "ta_pc (lk_tx s) = Sending g t" "t \<le> lk_now s" "length (lk_tx_to_phy s) < 4" "fr_replay g" "ta_retry (lk_tx s) = []"
    by (rule stale_replay_run)
  then have "sender_sent (lk_now s) g (lk_tx s) (lk_stats s) = Inl (LogicError ''iterator of an erased retry buffer entry'')"
    by (simp add: sender_sent_def Let_def)
  with s show ?thesis by blast
qed

end
