(* ===== verification/Ucie_Adapter.thy ===== *)
theory Ucie_Adapter
  imports Ucie_Link
begin

text \<open>
  \<^verbatim>\<open>ucie_aou_adapter.h\<close>: the configuration of the link from the bridge's build parameters, and the
  adapter between the bridge's flit ports and the FIFOs of the link. One step is one clock edge of
  \<^verbatim>\<open>transfer\<close>; the FIFO states at the edge are inputs, what is written and read is returned.
\<close>

section \<open>Configuration\<close>

definition make_aou_ucie_config :: ucie_config where
  "make_aou_ucie_config = ucie_config0\<lparr>uc_flit_format := AouFormat6, uc_num_lanes := of_nat LINK_LANES,
     uc_lane_rate_gtps := LINK_RATE_GTPS, uc_modulation := (if LINK_BITS_PER_SYMBOL = 1 then NRZ else PAM4)\<rparr>"

text \<open>The rate is rational here, so the test for a finite number always passes.\<close>

definition require_aou_ucie_config :: "ucie_config \<Rightarrow> unit result" where
  "require_aou_ucie_config cfg = bindR (require_valid_config cfg) (\<lambda>_.
     if uc_flit_format cfg \<noteq> AouFormat6 \<or> uc_num_lanes cfg \<noteq> of_nat LINK_LANES \<or>
        unat (bits_per_ui cfg) \<noteq> LINK_BITS_PER_SYMBOL \<or> \<bar>uc_lane_rate_gtps cfg - LINK_RATE_GTPS\<bar> > 1 / 10 ^ 9
     then Inl (InvalidArgument ''UCIe format/rate'') else Inr ())"

section \<open>The adapter\<close>

record aou_adapter =
  ad_direction :: business_kind
  ad_ready :: bool
  ad_held :: bool
  ad_trace_id :: u64
  ad_rx :: flit_transfer

definition adapter_make :: "ucie_config \<Rightarrow> business_kind \<Rightarrow> aou_adapter result" where
  "adapter_make cfg direction = bindR (require_aou_ucie_config cfg) (\<lambda>_.
     Inr \<lparr>ad_direction = direction, ad_ready = False, ad_held = False, ad_trace_id = 0, ad_rx = flit_transfer0\<rparr>)"

record adapter_input =
  ai_now :: nat
  ai_link_state :: link_state
  ai_tx :: flit_transfer
  ai_rx_ready :: bool
  ai_tx_free :: nat
  ai_fifo_rx :: "fdi_flit list"

text \<open>The three parts of a turn of the loop: take from the bridge, release, take from the link.\<close>

definition adapter_send :: "adapter_input \<Rightarrow> aou_adapter \<Rightarrow> (aou_adapter \<times> fdi_flit list) result" where
  "adapter_send i s =
     (if ad_ready s \<and> ft_valid (ai_tx i)
      then bindR (serialize_aou (ft_flit (ai_tx i))) (\<lambda>bytes.
        let fdi = \<lparr>fd_payload = bytes, fd_valid_bytes = length bytes, fd_transaction_id = unat (ad_trace_id s),
                   fd_vc = 0, fd_kind = ad_direction s, fd_transaction_start = ai_now i, fd_fdi_time = ai_now i\<rparr>
        in if ai_tx_free i = 0 then Inl (RuntimeError ''FDI FIFO'')
           else Inr (s\<lparr>ad_trace_id := ad_trace_id s + 1\<rparr>, [fdi]))
      else Inr (s, []))"

definition adapter_release :: "adapter_input \<Rightarrow> aou_adapter \<Rightarrow> aou_adapter" where
  "adapter_release i s = (if ad_held s \<and> ai_rx_ready i then s\<lparr>ad_held := False, ad_rx := flit_transfer0\<rparr> else s)"

definition link_active :: "adapter_input \<Rightarrow> bool" where
  "link_active i \<longleftrightarrow> ai_link_state i = Active \<or> ai_link_state i = Degraded"

definition adapter_receive :: "adapter_input \<Rightarrow> aou_adapter \<Rightarrow> (aou_adapter \<times> nat) result" where
  "adapter_receive i s =
     (if link_active i \<and> \<not> ad_held s then
        (case ai_fifo_rx i of
           [] \<Rightarrow> Inr (s, 0)
         | fdi # _ \<Rightarrow>
             if length (fd_payload fdi) \<noteq> 250 \<or> fd_valid_bytes fdi \<noteq> 250 then Inl (InvalidArgument ''250B'')
             else bindR (deserialize_aou (fd_payload fdi)) (\<lambda>f.
               Inr (s\<lparr>ad_rx := flit_transfer_of f, ad_held := True\<rparr>, 1)))
      else Inr (s, 0))"

text \<open>The turn: new state, what is written to \<^verbatim>\<open>fifo_tx\<close>, how much is read from \<^verbatim>\<open>fifo_rx\<close>.\<close>

definition adapter_edge :: "adapter_input \<Rightarrow> aou_adapter \<Rightarrow> (aou_adapter \<times> fdi_flit list \<times> nat) result" where
  "adapter_edge i s =
     map_sum (\<lambda>_. ReportFatal ''UcieAouAdapter'') id
       (bindR (adapter_send i s) (\<lambda>(s, sent).
        bindR (adapter_receive i (adapter_release i s)) (\<lambda>(s, taken).
          Inr (s\<lparr>ad_ready := link_active i \<and> ai_tx_free i - length sent > 0\<rparr>, sent, taken))))"

section \<open>Sessions\<close>

text \<open>
  The two FIFOs around the adapter: the link takes some elements from the transmit FIFO and adds
  some to the receive FIFO at each edge; \<open>d\<close> is the depth of the transmit FIFO. The log holds what
  the bridge handed over, what the link took and added, and what the bridge accepted.
\<close>

record adapter_event =
  ae_now :: nat
  ae_link_state :: link_state
  ae_tx :: flit_transfer
  ae_rx_ready :: bool
  ae_link_takes :: nat
  ae_link_adds :: "fdi_flit list"

record adapter_log =
  al_accepted :: "aou_flit list"
  al_taken :: "fdi_flit list"
  al_added :: "fdi_flit list"
  al_delivered :: "aou_flit list"

type_synonym adapter_state = "aou_adapter \<times> fdi_flit list \<times> fdi_flit list \<times> adapter_log"

definition adapter_step :: "nat \<Rightarrow> adapter_event \<Rightarrow> adapter_state \<Rightarrow> adapter_state result" where
  "adapter_step d e = (\<lambda>(s, txq, rxq, l).
     bindR (adapter_edge \<lparr>ai_now = ae_now e, ai_link_state = ae_link_state e, ai_tx = ae_tx e, ai_rx_ready = ae_rx_ready e,
         ai_tx_free = d - length txq, ai_fifo_rx = rxq\<rparr> s) (\<lambda>(s', sent, taken).
       Inr (s', drop (ae_link_takes e) txq @ sent, drop taken rxq @ ae_link_adds e,
         \<lparr>al_accepted = al_accepted l @ (if ad_ready s \<and> ft_valid (ae_tx e) then [ft_flit (ae_tx e)] else []),
          al_taken = al_taken l @ take (ae_link_takes e) txq, al_added = al_added l @ ae_link_adds e,
          al_delivered = al_delivered l @ (if ad_held s \<and> ae_rx_ready e then [ft_flit (ad_rx s)] else [])\<rparr>)))"

fun adapter_session :: "nat \<Rightarrow> adapter_event list \<Rightarrow> adapter_state \<Rightarrow> adapter_state result" where
  "adapter_session d [] st = Inr st"
| "adapter_session d (e # es) st = bindR (adapter_step d e st) (adapter_session d es)"

definition adapter_log0 :: adapter_log where
  "adapter_log0 = \<lparr>al_accepted = [], al_taken = [], al_added = [], al_delivered = []\<rparr>"

text \<open>Flits the wire format can carry, and elements it can come from.\<close>

definition wire_flit :: "aou_flit \<Rightarrow> bool" where
  "wire_flit f \<longleftrightarrow> fl_fdid f \<le> 3 \<and> drop_bit 48 (fl_msg_start f) = 0 \<and> length (fl_payload f) = 240"

definition wire_fdi :: "fdi_flit \<Rightarrow> aou_flit \<Rightarrow> bool" where
  "wire_fdi x f \<longleftrightarrow> length (fd_payload x) = 250 \<and> fd_valid_bytes x = 250 \<and> deserialize_aou (fd_payload x) = Inr f"

lemma serialized_wire:
  assumes "wire_flit f"
  obtains b where "serialize_aou f = Inr b" "length b = 250" "deserialize_aou b = Inr (f\<lparr>fl_used_granules := -1, fl_valid := True\<rparr>)"
  using assms that serialize_roundtrip [of f thesis] by (auto simp: wire_flit_def)

text \<open>What a flit looks like after the wire.\<close>

definition on_wire :: "aou_flit \<Rightarrow> aou_flit" where
  "on_wire f = f\<lparr>fl_used_granules := -1, fl_valid := True\<rparr>"

definition held_flits :: "aou_adapter \<Rightarrow> aou_flit list" where
  "held_flits s = (if ad_held s then [ft_flit (ad_rx s)] else [])"

definition adapter_inv :: "nat \<Rightarrow> aou_flit list \<Rightarrow> adapter_state \<Rightarrow> bool" where
  "adapter_inv d fs = (\<lambda>(s, txq, rxq, l).
     (ad_ready s \<longrightarrow> length txq < d) \<and>
     list_all2 wire_fdi (al_taken l @ txq) (map on_wire (al_accepted l)) \<and>
     (\<exists>gs. list_all2 wire_fdi rxq gs \<and> fs = al_delivered l @ held_flits s @ gs) \<and>
     list_all2 wire_fdi (al_added l) fs)"

lemma adapter_send_ok:
  assumes "ad_ready s \<Longrightarrow> ft_valid (ai_tx i) \<Longrightarrow> wire_flit (ft_flit (ai_tx i)) \<and> 0 < ai_tx_free i"
  obtains s1 sent where "adapter_send i s = Inr (s1, sent)" "ad_held s1 = ad_held s" "ad_rx s1 = ad_rx s"
    "list_all2 wire_fdi sent (map on_wire (if ad_ready s \<and> ft_valid (ai_tx i) then [ft_flit (ai_tx i)] else []))"
proof (cases "ad_ready s \<and> ft_valid (ai_tx i)")
  case True
  obtain b where "serialize_aou (ft_flit (ai_tx i)) = Inr b" "length b = 250"
    "deserialize_aou b = Inr ((ft_flit (ai_tx i))\<lparr>fl_used_granules := -1, fl_valid := True\<rparr>)"
    using serialized_wire [of "ft_flit (ai_tx i)"] assms True by blast
  then show ?thesis using True assms that by (simp add: adapter_send_def wire_fdi_def on_wire_def)
next
  case False
  then have "adapter_send i s = Inr (s, [])" by (auto simp: adapter_send_def)
  from that [OF this] False show ?thesis by auto
qed

lemma adapter_release_held:
  "held_flits s = (if ad_held s \<and> ai_rx_ready i then [ft_flit (ad_rx s)] else []) @ held_flits (adapter_release i s)"
  "ad_ready (adapter_release i s) = ad_ready s"
  by (auto simp: held_flits_def adapter_release_def)

lemma adapter_receive_ok:
  assumes "list_all2 wire_fdi (ai_fifo_rx i) gs"
  obtains s1 k where "adapter_receive i s = Inr (s1, k)" "held_flits s @ gs = held_flits s1 @ drop k gs"
proof (cases "link_active i \<and> \<not> ad_held s \<and> ai_fifo_rx i \<noteq> []")
  case True
  then obtain x xs g gs' where x: "ai_fifo_rx i = x # xs" "gs = g # gs'" "wire_fdi x g"
    using assms by (cases "ai_fifo_rx i") (auto simp: list_all2_Cons1)
  then show ?thesis using True that by (simp add: adapter_receive_def wire_fdi_def held_flits_def flit_transfer_of_def)
next
  case False
  then have "adapter_receive i s = Inr (s, 0)" by (cases "ai_fifo_rx i") (auto simp: adapter_receive_def)
  from that [OF this] show ?thesis by simp
qed

lemma adapter_step_ok:
  assumes inv: "adapter_inv d fs (s, txq, rxq, l)"
    and tx: "ad_ready s \<Longrightarrow> ft_valid (ae_tx e) \<Longrightarrow> wire_flit (ft_flit (ae_tx e))"
    and add: "list_all2 wire_fdi (ae_link_adds e) gs"
  shows "\<exists>st. adapter_step d e (s, txq, rxq, l) = Inr st \<and> adapter_inv d (fs @ gs) st"
proof -
  define i where "i = \<lparr>ai_now = ae_now e, ai_link_state = ae_link_state e, ai_tx = ae_tx e, ai_rx_ready = ae_rx_ready e,
         ai_tx_free = d - length txq, ai_fifo_rx = rxq\<rparr>"
  have i: "ai_tx i = ae_tx e" "ai_tx_free i = d - length txq" "ai_fifo_rx i = rxq" "ai_rx_ready i = ae_rx_ready e" by (simp_all add: i_def)
  obtain hs where I: "ad_ready s \<longrightarrow> length txq < d" "list_all2 wire_fdi (al_taken l @ txq) (map on_wire (al_accepted l))"
    "list_all2 wire_fdi rxq hs" "fs = al_delivered l @ held_flits s @ hs" "list_all2 wire_fdi (al_added l) fs"
    using inv by (auto simp: adapter_inv_def)
  obtain s1 sent where S: "adapter_send i s = Inr (s1, sent)" "ad_held s1 = ad_held s" "ad_rx s1 = ad_rx s"
    "list_all2 wire_fdi sent (map on_wire (if ad_ready s \<and> ft_valid (ai_tx i) then [ft_flit (ai_tx i)] else []))"
    using adapter_send_ok [of s i] tx I(1) by (auto simp: i)
  have h: "held_flits s = held_flits s1" by (simp add: held_flits_def S)
  obtain s2 k where R: "adapter_receive i (adapter_release i s1) = Inr (s2, k)" "held_flits (adapter_release i s1) @ hs = held_flits s2 @ drop k hs"
    using adapter_receive_ok [of i hs] I(3) by (auto simp: i)
  define s' where "s' = s2\<lparr>ad_ready := link_active i \<and> ai_tx_free i - length sent > 0\<rparr>"
  have edge: "adapter_edge i s = Inr (s', sent, k)" by (simp add: adapter_edge_def S R s'_def)
  have h': "held_flits s' = held_flits s2" by (simp add: s'_def held_flits_def)
  have fs: "al_delivered l @ held_flits s @ hs =
      (al_delivered l @ (if ad_held s \<and> ae_rx_ready e then [ft_flit (ad_rx s)] else [])) @ held_flits s' @ drop k hs"
    using adapter_release_held(1) [of s1 i] R(2) h h' S(2,3) by (simp add: i)
  have txs: "(al_taken l @ take (ae_link_takes e) txq) @ drop (ae_link_takes e) txq @ sent = (al_taken l @ txq) @ sent" by simp
  have acc: "list_all2 wire_fdi ((al_taken l @ txq) @ sent)
      (map on_wire (al_accepted l @ (if ad_ready s \<and> ft_valid (ae_tx e) then [ft_flit (ae_tx e)] else [])))"
    unfolding map_append using I(2) S(4) by (intro list_all2_appendI) (simp_all only: i)
  have "adapter_inv d (fs @ gs) (s', drop (ae_link_takes e) txq @ sent, drop k rxq @ ae_link_adds e,
      \<lparr>al_accepted = al_accepted l @ (if ad_ready s \<and> ft_valid (ae_tx e) then [ft_flit (ae_tx e)] else []),
          al_taken = al_taken l @ take (ae_link_takes e) txq, al_added = al_added l @ ae_link_adds e,
          al_delivered = al_delivered l @ (if ad_held s \<and> ae_rx_ready e then [ft_flit (ad_rx s)] else [])\<rparr>)"
    unfolding adapter_inv_def prod.case
  proof (intro conjI)
    show "ad_ready s' \<longrightarrow> length (drop (ae_link_takes e) txq @ sent) < d" by (auto simp: s'_def i)
  next
    show "\<exists>gs'. list_all2 wire_fdi (drop k rxq @ ae_link_adds e) gs' \<and> fs @ gs = al_delivered
       \<lparr>al_accepted = al_accepted l @ (if ad_ready s \<and> ft_valid (ae_tx e) then [ft_flit (ae_tx e)] else []),
          al_taken = al_taken l @ take (ae_link_takes e) txq, al_added = al_added l @ ae_link_adds e,
          al_delivered = al_delivered l @ (if ad_held s \<and> ae_rx_ready e then [ft_flit (ad_rx s)] else [])\<rparr> @ held_flits s' @ gs'"
      using I(3,4) add fs by (intro exI [of _ "drop k hs @ gs"]) (simp add: list_all2_appendI list_all2_dropI)
  qed (simp_all only: adapter_log.select_convs txs acc list_all2_appendI [OF I(5) add])
  then show ?thesis using edge by (simp add: adapter_step_def i_def [symmetric])
qed


lemma adapter_session_ok:
  "adapter_inv d fs st \<Longrightarrow> \<forall>e \<in> set es. (ft_valid (ae_tx e) \<longrightarrow> wire_flit (ft_flit (ae_tx e))) \<Longrightarrow>
   list_all2 (\<lambda>e gs. list_all2 wire_fdi (ae_link_adds e) gs) es gss \<Longrightarrow>
   \<exists>st'. adapter_session d es st = Inr st' \<and> adapter_inv d (fs @ concat gss) st'"
proof (induction es arbitrary: fs st gss)
  case (Cons e es)
  obtain s txq rxq l where st: "st = (s, txq, rxq, l)" by (cases st) auto
  obtain gs gss' where g: "gss = gs # gss'" "list_all2 wire_fdi (ae_link_adds e) gs"
    "list_all2 (\<lambda>e gs. list_all2 wire_fdi (ae_link_adds e) gs) es gss'"
    using Cons.prems(3) by (auto simp: list_all2_Cons1)
  obtain st1 where s1: "adapter_step d e st = Inr st1" "adapter_inv d (fs @ gs) st1"
    using adapter_step_ok [of d fs s txq rxq l e gs] Cons.prems(1,2) g(2) st by auto
  from Cons.IH [OF s1(2) _ g(3)] Cons.prems(2) s1(1) g(1) show ?case by simp
qed auto

section \<open>Properties\<close>

text \<open>
  C36. The adapter is lossless in both directions and never overruns its FIFO: whatever the link
  state does and however both sides stall, if the bridge offers flits the wire format can carry and
  the link adds elements that are wire images of the flits \<open>fs\<close>, no exception arises; the elements
  taken by the link and still queued are in order the wire images of the accepted flits, and the
  flits the bridge took, the one on its port and those queued are in order \<open>fs\<close>.
\<close>

theorem adapter_lossless:
  assumes "adapter_make cfg dir = Inr s0" "\<forall>e \<in> set es. (ft_valid (ae_tx e) \<longrightarrow> wire_flit (ft_flit (ae_tx e)))"
    and "list_all2 (\<lambda>e gs. list_all2 wire_fdi (ae_link_adds e) gs) es gss"
  shows "\<exists>s txq rxq l gs. adapter_session d es (s0, [], [], adapter_log0) = Inr (s, txq, rxq, l) \<and>
    (ad_ready s \<longrightarrow> length txq < d) \<and>
    list_all2 wire_fdi (al_taken l @ txq) (map on_wire (al_accepted l)) \<and>
    list_all2 wire_fdi rxq gs \<and> concat gss = al_delivered l @ held_flits s @ gs"
proof -
  have "adapter_inv d [] (s0, [], [], adapter_log0)"
    using assms(1) by (auto simp: adapter_inv_def adapter_log0_def adapter_make_def bindR_eq_Inr held_flits_def)
  from adapter_session_ok [OF this assms(2,3)] show ?thesis by (auto simp: adapter_inv_def)
qed

definition sample_event :: adapter_event where
  "sample_event = \<lparr>ae_now = 0, ae_link_state = Active, ae_tx = flit_transfer_of aou_flit0, ae_rx_ready = True,
     ae_link_takes = 1, ae_link_adds = []\<rparr>"

theorem adapter_lossless_witness:
  "\<exists>s0 s txq rxq l. adapter_make make_aou_ucie_config Request = Inr s0 \<and>
     adapter_session 2 [sample_event, sample_event] (s0, [], [], adapter_log0) = Inr (s, txq, rxq, l) \<and>
     list_all2 wire_fdi (al_taken l @ txq) (map on_wire (al_accepted l))"
proof -
  obtain s0 where s0: "adapter_make make_aou_ucie_config Request = Inr s0"
    by (simp add: adapter_make_def require_aou_ucie_config_def require_valid_config_def make_aou_ucie_config_def ucie_config0_def
        link_budget_defs bits_per_ui_def)
  have "\<forall>e \<in> set [sample_event, sample_event]. (ft_valid (ae_tx e) \<longrightarrow> wire_flit (ft_flit (ae_tx e)))"
    by (simp add: sample_event_def wire_flit_def flit_transfer_of_def aou_flit0_def aou_consts)
  moreover have "list_all2 (\<lambda>e gs. list_all2 wire_fdi (ae_link_adds e) gs) [sample_event, sample_event] [[], []]"
    by (simp add: sample_event_def)
  ultimately show ?thesis using adapter_lossless [OF s0, of "[sample_event, sample_event]" "[[], []]" 2] s0 by blast
qed

end
