(* ===== verification/Burst_Memory.thy ===== *)
theory Burst_Memory
  imports Axi_If
begin

text \<open>
  \<^verbatim>\<open>simple_mem_if.h\<close> and \<^verbatim>\<open>simple_burst_memory.h\<close>: whole-burst requests and responses, and the serial
  memory that serves them. One step is one turn of \<^verbatim>\<open>run\<close>: it takes a request and yields the
  response, the new memory and the service time in units of the time resolution.
\<close>

section \<open>Requests and responses\<close>

record mem_write_beat =
  mwb_data :: "u8 list"
  mwb_strobe :: "u8 list"
  mwb_user :: u16

record mem_read_beat =
  mrb_data :: "u8 list"
  mrb_resp :: u8
  mrb_user :: u16

record mem_request =
  mq_write :: bool
  mq_rp :: u8
  mq_address :: ax_channel
  mq_write_beats :: "mem_write_beat list"

definition mq_beats :: "mem_request \<Rightarrow> nat" where
  "mq_beats q = unat (ax_len (mq_address q)) + 1"

record mem_response =
  mp_write :: bool
  mp_rp :: u8
  mp_id :: u16
  mp_resp :: u8
  mp_user :: u16
  mp_read_beats :: "mem_read_beat list"

section \<open>The memory\<close>

record burst_memory =
  bm_base :: u64
  bm_bytes :: "u8 list"
  bm_access :: nat
  bm_per_beat :: nat
  bm_completed :: u64
  bm_errors :: u64

definition memory_make :: "u64 \<Rightarrow> u64 \<Rightarrow> nat \<Rightarrow> nat \<Rightarrow> burst_memory result" where
  "memory_make base sz access per_beat =
     (if sz = 0 \<or> base > - 1 - (sz - 1) then Inl (InvalidArgument ''invalid memory window'')
      else Inr \<lparr>bm_base = base, bm_bytes = replicate (unat sz) 0, bm_access = access,
        bm_per_beat = per_beat, bm_completed = 0, bm_errors = 0\<rparr>)"

text \<open>The address and the bus lane of beat \<open>n\<close>.\<close>

definition beat_addr :: "ax_channel \<Rightarrow> nat \<Rightarrow> u64" where
  "beat_addr a n = ax_addr a + of_nat n * of_nat (beat_bytes a)"

definition beat_lane :: "data_length \<Rightarrow> ax_channel \<Rightarrow> nat \<Rightarrow> nat" where
  "beat_lane cfg a n = unat (beat_addr a n) mod AXI_DATA_BYTES cfg"

definition burst_in_range :: "mem_request \<Rightarrow> burst_memory \<Rightarrow> bool" where
  "burst_in_range q s = (let a = mq_address q; sz = of_nat (length (bm_bytes s)) :: u64 in
     ax_addr a \<ge> bm_base s \<and> ax_addr a - bm_base s < sz \<and>
     of_nat (beat_bytes a) * of_nat (mq_beats q) \<le> sz - (ax_addr a - bm_base s))"

text \<open>A strobe on a lane outside its beat.\<close>

definition illegal_strobe :: "data_length \<Rightarrow> mem_request \<Rightarrow> bool" where
  "illegal_strobe cfg q = (let a = mq_address q in
     list_ex (\<lambda>n. list_ex (\<lambda>j. mwb_strobe (mq_write_beats q ! n) ! j \<noteq> 0 \<and>
         (j < beat_lane cfg a n \<or> j \<ge> beat_lane cfg a n + beat_bytes a))
       [0..<AXI_DATA_BYTES cfg]) [0..<mq_beats q])"

definition burst_status :: "data_length \<Rightarrow> mem_request \<Rightarrow> burst_memory \<Rightarrow> u8" where
  "burst_status cfg q s =
     (if mq_write q \<and> illegal_strobe cfg q then 2
      else if \<not> burst_in_range q s then 3 else if ax_lock (mq_address q) \<noteq> 0 then 2 else 0)"

text \<open>The loops over the beats of a write and of a read.\<close>

definition write_beat :: "data_length \<Rightarrow> ax_channel \<Rightarrow> u64 \<Rightarrow> mem_write_beat \<Rightarrow> nat \<Rightarrow> u8 list \<Rightarrow> u8 list" where
  "write_beat cfg a base beat n bytes =
     fold (\<lambda>j bytes. if mwb_strobe beat ! (beat_lane cfg a n + j) \<noteq> 0
        then bytes[unat (beat_addr a n - base) + j := mwb_data beat ! (beat_lane cfg a n + j)] else bytes)
       [0..<beat_bytes a] bytes"

definition write_burst :: "data_length \<Rightarrow> mem_request \<Rightarrow> u64 \<Rightarrow> u8 list \<Rightarrow> u8 list" where
  "write_burst cfg q base bytes =
     fold (\<lambda>n bytes. write_beat cfg (mq_address q) base (mq_write_beats q ! n) n bytes) [0..<mq_beats q] bytes"

definition read_beat :: "data_length \<Rightarrow> ax_channel \<Rightarrow> u64 \<Rightarrow> u8 list \<Rightarrow> u8 \<Rightarrow> nat \<Rightarrow> mem_read_beat" where
  "read_beat cfg a base bytes status n =
     \<lparr>mrb_data = (if status = 0
        then store_loop (beat_lane cfg a n) (beat_bytes a) (\<lambda>j. bytes ! (unat (beat_addr a n - base) + j))
               (replicate (AXI_DATA_BYTES cfg) 0)
        else replicate (AXI_DATA_BYTES cfg) 0),
      mrb_resp = status, mrb_user = ax_user a\<rparr>"

definition memory_serve :: "data_length \<Rightarrow> mem_request \<Rightarrow> burst_memory \<Rightarrow> (burst_memory \<times> mem_response \<times> nat) result" where
  "memory_serve cfg q s =
     (let a = mq_address q; status = burst_status cfg q s in
      if axi_request_error cfg a \<noteq> None \<or> (mq_write q \<and> length (mq_write_beats q) \<noteq> mq_beats q)
      then Inl (ReportFatal ''SimpleBurstMemory'')
      else Inr (s\<lparr>bm_bytes := (if mq_write q \<and> status = 0 then write_burst cfg q (bm_base s) (bm_bytes s) else bm_bytes s),
                  bm_completed := bm_completed s + 1,
                  bm_errors := (if status \<noteq> 0 then bm_errors s + 1 else bm_errors s)\<rparr>,
                \<lparr>mp_write = mq_write q, mp_rp = mq_rp q, mp_id = ax_id a,
                 mp_resp = (if mq_write q then status else 0), mp_user = ax_user a,
                 mp_read_beats = (if mq_write q then []
                   else map (read_beat cfg a (bm_base s) (bm_bytes s) status) [0..<mq_beats q])\<rparr>,
                bm_access s + bm_per_beat s * mq_beats q))"

lemma unat_of_nat_small: "n < 2 ^ 64 \<Longrightarrow> unat (of_nat n :: u64) = n"
  by (simp add: unat_of_nat)

section \<open>Addresses in plain arithmetic\<close>

definition memory_ok :: "burst_memory \<Rightarrow> bool" where
  "memory_ok s \<longleftrightarrow> 0 < length (bm_bytes s) \<and> length (bm_bytes s) < 2 ^ 64 \<and> unat (bm_base s) + length (bm_bytes s) \<le> 2 ^ 64"

lemma memory_make_ok: "memory_make base sz access per_beat = Inr s \<Longrightarrow> memory_ok s"
proof -
  assume m: "memory_make base sz access per_beat = Inr s"
  then have c: "sz \<noteq> 0" "base \<le> - 1 - (sz - 1)"
    and s: "bm_base s = base" "bm_bytes s = replicate (unat sz) 0"
    by (auto simp: memory_make_def not_less split: if_splits)
  have "unat (sz - 1) + 1 = unat sz" 
  proof -
    have "0 < unat sz" using c(1) by (simp add: unat_gt_0)
    then show ?thesis by (subst unat_sub) (simp_all add: word_le_nat_alt)
  qed
  moreover have "unat (- 1 - (sz - 1)) = 2 ^ 64 - 1 - unat (sz - 1)" using unat_u64_less [of "sz - 1"]
    by (subst unat_sub) (simp_all add: word_le_nat_alt unsigned_minus_1_eq_mask mask_eq_exp_minus_1)
  ultimately have "unat (- 1 - (sz - 1)) = 2 ^ 64 - unat sz" by linarith
  then show ?thesis using c s unat_u64_less [of sz] by (simp add: memory_ok_def word_le_nat_alt unat_gt_0)
qed

lemma beat_bytes_dvd:
  assumes "cfg_ok cfg" "axi_request_error cfg a = None"
  shows "beat_bytes a dvd AXI_DATA_BYTES cfg" "0 < beat_bytes a" "beat_bytes a \<le> 128"
proof -
  have s: "unat (ax_size a) \<le> unat (AXI_SIZE_CODE cfg)"
    using assms(2) by (simp add: axi_request_error_None_iff word_le_nat_alt)
  have "AXI_DATA_BYTES cfg = 2 ^ unat (AXI_SIZE_CODE cfg)"
    using assms(1) by (auto simp: cfg_ok_def AXI_DATA_BYTES_def dlength_to_bytes_def AXI_SIZE_CODE_def)
  then show "beat_bytes a dvd AXI_DATA_BYTES cfg" using s by (simp add: beat_bytes_def le_imp_power_dvd)
  show "0 < beat_bytes a" by (simp add: beat_bytes_def)
  have "(2 :: nat) ^ unat (ax_size a) \<le> 2 ^ 7" using s size_code_le [of cfg] by (intro power_increasing) auto
  then show "beat_bytes a \<le> 128" by (simp add: beat_bytes_def)
qed

lemma unat_beat_addr:
  assumes "cfg_ok cfg" "axi_request_error cfg a = None" "n \<le> unat (ax_len a)"
  shows "unat (beat_addr a n) = unat (ax_addr a) + n * beat_bytes a"
proof -
  have "unat (ax_addr a) + (n + 1) * beat_bytes a \<le> 2 ^ 64" by (rule axi_request_in_page [OF assms(2,3)])
  then have lt: "unat (ax_addr a) + n * beat_bytes a < 2 ^ 64" using beat_bytes_dvd(2) [OF assms(1,2)] by simp
  have "of_nat n * of_nat (beat_bytes a) = (of_nat (n * beat_bytes a) :: u64)" by simp
  moreover have "unat (of_nat (n * beat_bytes a) :: u64) = n * beat_bytes a"
    by (rule unat_of_nat_small) (use lt in linarith)
  ultimately show ?thesis using lt unfolding beat_addr_def by (simp add: unat_plus_if')
qed

text \<open>A beat lies within one bus word, so the lane of its byte \<open>j\<close> is that of the byte's address.\<close>

lemma lane_of_byte:
  assumes "cfg_ok cfg" "axi_request_error cfg a = None" "n \<le> unat (ax_len a)" "j < beat_bytes a"
  shows "beat_lane cfg a n + j = (unat (ax_addr a) + n * beat_bytes a + j) mod AXI_DATA_BYTES cfg"
    "beat_lane cfg a n + beat_bytes a \<le> AXI_DATA_BYTES cfg"
proof -
  let ?w = "beat_bytes a" and ?B = "AXI_DATA_BYTES cfg" and ?x = "unat (ax_addr a) + n * beat_bytes a"
  note w = beat_bytes_dvd [OF assms(1,2)]
  have lane: "beat_lane cfg a n = ?x mod ?B" unfolding beat_lane_def unat_beat_addr [OF assms(1-3)] ..
  have B: "0 < ?B" using assms(1) by (auto simp: cfg_ok_def AXI_DATA_BYTES_def dlength_to_bytes_def)
  have "?w dvd ?x" using assms(2) by (simp add: axi_request_error_None_iff)
  then have d: "?w dvd ?x mod ?B" using w(1) by (simp add: dvd_mod)
  obtain k l where k: "?x mod ?B = ?w * k" and l: "?B = ?w * l" using d w(1) by (auto elim!: dvdE)
  have "?w * k < ?w * l" unfolding k [symmetric] l [symmetric] by (rule mod_less_divisor [OF B])
  then have "k < l" unfolding nat_mult_less_cancel1 [OF w(2)] .
  then have "k + 1 \<le> l" by simp
  then have "?w * (k + 1) \<le> ?B" unfolding l by (rule mult_le_mono2)
  then show le: "beat_lane cfg a n + ?w \<le> ?B" unfolding lane k by simp
  have "(?x + j) mod ?B = (?x mod ?B + j) mod ?B" by (simp add: mod_add_left_eq)
  also have "\<dots> = ?x mod ?B + j" using le lane assms(4) by (intro mod_less) linarith
  finally show "beat_lane cfg a n + j = (?x + j) mod ?B" using lane by simp
qed

lemma burst_in_range_iff:
  assumes cfg: "cfg_ok cfg" and req: "axi_request_error cfg (mq_address q) = None" and ok: "memory_ok s"
  shows "burst_in_range q s \<longleftrightarrow> unat (bm_base s) \<le> unat (ax_addr (mq_address q)) \<and>
    unat (ax_addr (mq_address q)) + mq_beats q * beat_bytes (mq_address q) \<le> unat (bm_base s) + length (bm_bytes s)"
    (is "_ \<longleftrightarrow> ?b \<le> ?a \<and> ?a + ?l \<le> ?b + ?n")
proof (cases "?b \<le> ?a")
  case True
  note w = beat_bytes_dvd [OF cfg req]
  have l: "?l \<le> 256 * 128" unfolding mq_beats_def
    using w(3) unat_u8_less [of "ax_len (mq_address q)"] by (intro mult_mono) auto
  have len: "unat (of_nat (beat_bytes (mq_address q)) * of_nat (mq_beats q) :: u64) = ?l"
  proof -
    have e: "of_nat (beat_bytes (mq_address q)) * of_nat (mq_beats q) = (of_nat ?l :: u64)" by (simp add: mult.commute)
    show ?thesis unfolding e by (rule unat_of_nat_small, rule le_less_trans [OF l]) simp
  qed
  have pos: "0 < ?l" using w(2) by (simp add: mq_beats_def)
  have n: "unat (of_nat ?n :: u64) = ?n" using ok by (simp add: memory_ok_def unat_of_nat)
  have d: "unat (ax_addr (mq_address q) - bm_base s) = ?a - ?b" using True by (simp add: unat_sub word_le_nat_alt)
  show ?thesis
  proof (cases "?a - ?b < ?n")
    case lt: True
    have "unat (of_nat ?n - (ax_addr (mq_address q) - bm_base s)) = ?n - (?a - ?b)"
      using lt by (subst unat_sub) (simp_all add: word_le_nat_alt n d)
    then have "of_nat (beat_bytes (mq_address q)) * of_nat (mq_beats q) \<le> of_nat ?n - (ax_addr (mq_address q) - bm_base s) \<longleftrightarrow> ?l \<le> ?n - (?a - ?b)"
      unfolding word_le_nat_alt len by simp
    then show ?thesis using True lt by (simp add: burst_in_range_def Let_def word_le_nat_alt word_less_nat_alt n d) linarith
  next
    case False
    then have "\<not> ?a + ?l \<le> ?b + ?n" using True pos by linarith
    then show ?thesis using True False by (simp add: burst_in_range_def Let_def word_less_nat_alt n d)
  qed
qed (simp add: burst_in_range_def Let_def word_le_nat_alt)


section \<open>What a burst writes and reads\<close>

lemma fold_store_if:
  "i < length xs \<Longrightarrow> fold (\<lambda>j ys. if P j then ys[d + j := f j] else ys) [0..<n] xs ! i =
     (if d \<le> i \<and> i < d + n \<and> P (i - d) then f (i - d) else xs ! i) \<and>
   length (fold (\<lambda>j ys. if P j then ys[d + j := f j] else ys) [0..<n] xs) = length xs"
  by (induction n) (auto simp: nth_list_update less_Suc_eq)

lemma beat_cover:
  assumes "(0 :: nat) < w" "a + n * w \<le> x" "x < a + n * w + w"
  shows "(x - a) div w = n"
proof -
  have "x - a = (x - a - n * w) + n * w" "x - a - n * w < w" using assms by linarith+
  then show ?thesis by (metis assms(1) div_less div_mult_self1 add.right_neutral add_0 less_numeral_extra(3))
qed

text \<open>
  The byte at an absolute address \<open>x\<close> after a write: the lane \<open>x mod\<close> bus width of the beat that
  covers \<open>x\<close>, if its strobe is set.
\<close>

definition burst_covers :: "mem_request \<Rightarrow> nat \<Rightarrow> bool" where
  "burst_covers q x \<longleftrightarrow> unat (ax_addr (mq_address q)) \<le> x \<and>
     x < unat (ax_addr (mq_address q)) + mq_beats q * beat_bytes (mq_address q)"

definition covering_beat :: "mem_request \<Rightarrow> nat \<Rightarrow> nat" where
  "covering_beat q x = (x - unat (ax_addr (mq_address q))) div beat_bytes (mq_address q)"

definition byte_at :: "burst_memory \<Rightarrow> nat \<Rightarrow> u8" where
  "byte_at s x = bm_bytes s ! (x - unat (bm_base s))"

definition in_window :: "burst_memory \<Rightarrow> nat \<Rightarrow> bool" where
  "in_window s x \<longleftrightarrow> unat (bm_base s) \<le> x \<and> x < unat (bm_base s) + length (bm_bytes s)"

lemma write_beat_nth:
  fixes base :: u64
  assumes cfg: "cfg_ok cfg" and req: "axi_request_error cfg a = None" and n: "n \<le> unat (ax_len a)"
    and base: "unat base \<le> unat (ax_addr a)" and x: "unat base \<le> x" "x < unat base + length bytes"
  shows "write_beat cfg a base beat n bytes ! (x - unat base) =
      (if unat (ax_addr a) + n * beat_bytes a \<le> x \<and> x < unat (ax_addr a) + n * beat_bytes a + beat_bytes a \<and>
          mwb_strobe beat ! (x mod AXI_DATA_BYTES cfg) \<noteq> 0
       then mwb_data beat ! (x mod AXI_DATA_BYTES cfg) else bytes ! (x - unat base)) \<and>
    length (write_beat cfg a base beat n bytes) = length bytes"
proof -
  let ?o = "unat (ax_addr a) + n * beat_bytes a"
  have o: "unat (beat_addr a n - base) = ?o - unat base"
    using base unat_beat_addr [OF cfg req n] by (subst unat_sub) (simp_all add: word_le_nat_alt)
  have lane: "beat_lane cfg a n + (x - unat base - (?o - unat base)) = x mod AXI_DATA_BYTES cfg"
    if "?o \<le> x" "x < ?o + beat_bytes a"
  proof -
    have "x - unat base - (?o - unat base) = x - ?o" using base that by simp
    moreover have "x - ?o < beat_bytes a" using that by linarith
    ultimately show ?thesis using lane_of_byte(1) [OF cfg req n, of "x - ?o"] that(1) by simp
  qed
  have c: "?o - unat base \<le> x - unat base \<and> x - unat base < ?o - unat base + beat_bytes a \<longleftrightarrow> ?o \<le> x \<and> x < ?o + beat_bytes a"
    using base x by linarith
  show ?thesis unfolding write_beat_def o
    using fold_store_if [of "x - unat base" bytes "\<lambda>j. mwb_strobe beat ! (beat_lane cfg a n + j) \<noteq> 0" "?o - unat base" "\<lambda>j. mwb_data beat ! (beat_lane cfg a n + j)"
        "beat_bytes a"] lane c x by auto
qed

lemma write_burst_prefix:
  fixes base :: u64
  assumes cfg: "cfg_ok cfg" and req: "axi_request_error cfg (mq_address q) = None"
    and base: "unat base \<le> unat (ax_addr (mq_address q))" and x: "unat base \<le> x" "x < unat base + length bytes"
  shows "m \<le> mq_beats q \<Longrightarrow>
    fold (\<lambda>n bytes. write_beat cfg (mq_address q) base (mq_write_beats q ! n) n bytes) [0..<m] bytes ! (x - unat base) =
      (if unat (ax_addr (mq_address q)) \<le> x \<and> x < unat (ax_addr (mq_address q)) + m * beat_bytes (mq_address q) \<and>
          mwb_strobe (mq_write_beats q ! covering_beat q x) ! (x mod AXI_DATA_BYTES cfg) \<noteq> 0
       then mwb_data (mq_write_beats q ! covering_beat q x) ! (x mod AXI_DATA_BYTES cfg) else bytes ! (x - unat base)) \<and>
    length (fold (\<lambda>n bytes. write_beat cfg (mq_address q) base (mq_write_beats q ! n) n bytes) [0..<m] bytes) = length bytes"
proof (induction m)
  case (Suc m)
  let ?A = "unat (ax_addr (mq_address q))" and ?w = "beat_bytes (mq_address q)"
  define ys where "ys = fold (\<lambda>n bytes. write_beat cfg (mq_address q) base (mq_write_beats q ! n) n bytes) [0..<m] bytes"
  have IH: "ys ! (x - unat base) = (if ?A \<le> x \<and> x < ?A + m * ?w \<and>
          mwb_strobe (mq_write_beats q ! covering_beat q x) ! (x mod AXI_DATA_BYTES cfg) \<noteq> 0
       then mwb_data (mq_write_beats q ! covering_beat q x) ! (x mod AXI_DATA_BYTES cfg) else bytes ! (x - unat base))"
    and len: "length ys = length bytes" using Suc by (simp_all add: ys_def)
  have n: "m \<le> unat (ax_len (mq_address q))" using Suc.prems by (simp add: mq_beats_def)
  have x': "x < unat base + length ys" using x len by simp
  note W = write_beat_nth [OF cfg req n base x(1) x', of "mq_write_beats q ! m"]
  have cov: "covering_beat q x = m" if "?A + m * ?w \<le> x" "x < ?A + m * ?w + ?w"
    unfolding covering_beat_def using beat_cover [OF beat_bytes_dvd(2) [OF cfg req] that] .
  show ?case using W IH len cov by (auto simp: ys_def [symmetric])
qed auto

lemma write_burst_byte:
  fixes base :: u64
  assumes "cfg_ok cfg" "axi_request_error cfg (mq_address q) = None"
    "unat base \<le> unat (ax_addr (mq_address q))" "unat base \<le> x" "x < unat base + length bytes"
  shows "write_burst cfg q base bytes ! (x - unat base) =
      (if burst_covers q x \<and> mwb_strobe (mq_write_beats q ! covering_beat q x) ! (x mod AXI_DATA_BYTES cfg) \<noteq> 0
       then mwb_data (mq_write_beats q ! covering_beat q x) ! (x mod AXI_DATA_BYTES cfg) else bytes ! (x - unat base))"
    "length (write_burst cfg q base bytes) = length bytes"
  using write_burst_prefix [OF assms order_refl] unfolding write_burst_def burst_covers_def by auto

lemma covered_position:
  assumes cfg: "cfg_ok cfg" and req: "axi_request_error cfg (mq_address q) = None" and x: "burst_covers q x"
  obtains j where "j < beat_bytes (mq_address q)" "covering_beat q x \<le> unat (ax_len (mq_address q))"
    "x = unat (ax_addr (mq_address q)) + covering_beat q x * beat_bytes (mq_address q) + j"
    "beat_lane cfg (mq_address q) (covering_beat q x) + j = x mod AXI_DATA_BYTES cfg"
proof -
  let ?A = "unat (ax_addr (mq_address q))" and ?w = "beat_bytes (mq_address q)" and ?n = "covering_beat q x"
  define j where "j = (x - ?A) mod ?w"
  have w: "0 < ?w" by (rule beat_bytes_dvd(2) [OF cfg req])
  have ax: "?A \<le> x" "x - ?A < mq_beats q * ?w" using x by (auto simp: burst_covers_def)
  have j: "j < ?w" using w by (simp add: j_def)
  have n: "?n \<le> unat (ax_len (mq_address q))"
    using less_mult_imp_div_less [OF ax(2)] by (simp add: covering_beat_def mq_beats_def)
  have "x - ?A = ?n * ?w + j" by (simp add: covering_beat_def j_def)
  then have eq: "x = ?A + ?n * ?w + j" using ax(1) by linarith
  have "beat_lane cfg (mq_address q) ?n + j = x mod AXI_DATA_BYTES cfg"
    using lane_of_byte(1) [OF cfg req n j] eq by simp
  then show ?thesis using that j n eq by blast
qed

lemma read_beat_byte:
  assumes cfg: "cfg_ok cfg" and req: "axi_request_error cfg (mq_address q) = None" and x: "burst_covers q x"
    and base: "unat (bm_base s) \<le> unat (ax_addr (mq_address q))"
  shows "mrb_data (read_beat cfg (mq_address q) (bm_base s) (bm_bytes s) 0 (covering_beat q x)) ! (x mod AXI_DATA_BYTES cfg) = byte_at s x"
proof -
  let ?n = "covering_beat q x"
  obtain j where j: "j < beat_bytes (mq_address q)" and n: "?n \<le> unat (ax_len (mq_address q))"
    and eq: "x = unat (ax_addr (mq_address q)) + ?n * beat_bytes (mq_address q) + j"
    and lane: "beat_lane cfg (mq_address q) ?n + j = x mod AXI_DATA_BYTES cfg"
    by (rule covered_position [OF cfg req x])
  have o: "unat (beat_addr (mq_address q) ?n - bm_base s) + j = x - unat (bm_base s)"
    using base unat_beat_addr [OF cfg req n] eq by (subst unat_sub) (simp_all add: word_le_nat_alt)
  have "x mod AXI_DATA_BYTES cfg < AXI_DATA_BYTES cfg"
    using lane_of_byte(2) [OF cfg req n j] j lane by linarith
  then show ?thesis using j o by (simp add: read_beat_def nth_store_loop byte_at_def flip: lane)
qed

lemma served:
  assumes "memory_serve cfg q s = Inr (s', r, t)"
  shows "axi_request_error cfg (mq_address q) = None"
    "bm_base s' = bm_base s" "bm_bytes s' = (if mq_write q \<and> burst_status cfg q s = 0 then write_burst cfg q (bm_base s) (bm_bytes s) else bm_bytes s)"
    "mp_resp r = (if mq_write q then burst_status cfg q s else 0)"
    "mp_read_beats r = (if mq_write q then [] else map (read_beat cfg (mq_address q) (bm_base s) (bm_bytes s) (burst_status cfg q s)) [0..<mq_beats q])"
    "bm_errors s' = (if burst_status cfg q s \<noteq> 0 then bm_errors s + 1 else bm_errors s)" "bm_completed s' = bm_completed s + 1"
    "mp_write r = mq_write q \<and> mp_rp r = mq_rp q \<and> mp_id r = ax_id (mq_address q)"
    "t = bm_access s + bm_per_beat s * mq_beats q"
  using assms by (auto simp: memory_serve_def Let_def split: if_splits)

lemma status_zero_range: "burst_status cfg q s = 0 \<Longrightarrow> burst_in_range q s"
  by (auto simp: burst_status_def split: if_splits)

lemma serve_ok:
  assumes "memory_serve cfg q s = Inr (s', r, t)" "cfg_ok cfg" "memory_ok s"
  shows "memory_ok s' \<and> length (bm_bytes s') = length (bm_bytes s)"
proof -
  note S = served [OF assms(1)]
  have "length (bm_bytes s') = length (bm_bytes s)"
  proof (cases "mq_write q \<and> burst_status cfg q s = 0")
    case True
    then have "unat (bm_base s) \<le> unat (ax_addr (mq_address q))"
      using burst_in_range_iff [OF assms(2) S(1) assms(3)] status_zero_range by blast
    moreover have "unat (bm_base s) < unat (bm_base s) + length (bm_bytes s)" using assms(3) by (simp add: memory_ok_def)
    ultimately have "length (write_burst cfg q (bm_base s) (bm_bytes s)) = length (bm_bytes s)"
      by (rule write_burst_byte(2) [OF assms(2) S(1) _ order_refl])
    then show ?thesis using True S(3) by simp
  qed (use S(3) in auto)
  then show ?thesis using S(2) assms(3) by (simp add: memory_ok_def)
qed

section \<open>Properties\<close>

text \<open>
  C17. A write burst that is answered OKAY changes exactly the bytes it covers on lanes with a set
  strobe, each to the byte of its own address's lane in the covering beat, and every covered byte
  lies in the memory window.
\<close>

theorem burst_write_exact:
  assumes "cfg_ok cfg" "memory_ok s" "memory_serve cfg q s = Inr (s', r, t)" "mq_write q" "mp_resp r = 0"
  shows "(\<forall>x. burst_covers q x \<longrightarrow> in_window s x) \<and> (\<forall>x. in_window s x \<longrightarrow> byte_at s' x =
    (if burst_covers q x \<and> mwb_strobe (mq_write_beats q ! covering_beat q x) ! (x mod AXI_DATA_BYTES cfg) \<noteq> 0
     then mwb_data (mq_write_beats q ! covering_beat q x) ! (x mod AXI_DATA_BYTES cfg) else byte_at s x))"
proof -
  note S = served [OF assms(3)]
  have st: "burst_status cfg q s = 0" using S(4) assms(4,5) by simp
  have r: "unat (bm_base s) \<le> unat (ax_addr (mq_address q))"
    "unat (ax_addr (mq_address q)) + mq_beats q * beat_bytes (mq_address q) \<le> unat (bm_base s) + length (bm_bytes s)"
    using burst_in_range_iff [OF assms(1) S(1) assms(2)] status_zero_range [OF st] by blast+
  have "\<forall>x. burst_covers q x \<longrightarrow> in_window s x" using r by (auto simp: burst_covers_def in_window_def)
  moreover have "byte_at s' x = (if burst_covers q x \<and> mwb_strobe (mq_write_beats q ! covering_beat q x) ! (x mod AXI_DATA_BYTES cfg) \<noteq> 0
     then mwb_data (mq_write_beats q ! covering_beat q x) ! (x mod AXI_DATA_BYTES cfg) else byte_at s x)" if "in_window s x" for x
    using write_burst_byte(1) [OF assms(1) S(1) r(1), of x "bm_bytes s"] that S(2,3) assms(4) st
    by (simp add: in_window_def byte_at_def)
  ultimately show ?thesis by blast
qed

text \<open>
  C35. Read after write: after an OKAY write, a read burst over the same addresses that is answered
  without error returns, on each byte's lane, the written byte where the strobe was set and the old
  byte elsewhere.
\<close>

theorem read_after_write:
  assumes "cfg_ok cfg" "memory_ok s" "memory_serve cfg q s = Inr (s1, r1, t1)" "mq_write q" "mp_resp r1 = 0"
    and "memory_serve cfg p s1 = Inr (s2, r2, t2)" "\<not> mq_write p" "mq_address p = mq_address q"
  shows "bm_bytes s2 = bm_bytes s1 \<and> length (mp_read_beats r2) = mq_beats q \<and>
    (\<forall>x. burst_covers q x \<longrightarrow> mrb_data (mp_read_beats r2 ! covering_beat q x) ! (x mod AXI_DATA_BYTES cfg) =
      (if mwb_strobe (mq_write_beats q ! covering_beat q x) ! (x mod AXI_DATA_BYTES cfg) \<noteq> 0
       then mwb_data (mq_write_beats q ! covering_beat q x) ! (x mod AXI_DATA_BYTES cfg) else byte_at s x))"
proof -
  note S1 = served [OF assms(3)] and S2 = served [OF assms(6)]
  have st: "burst_status cfg q s = 0" using S1(4) assms(4,5) by simp
  have ok: "memory_ok s1" "length (bm_bytes s1) = length (bm_bytes s)" using serve_ok [OF assms(3,1,2)] by simp_all
  have same: "burst_covers p = burst_covers q" "covering_beat p = covering_beat q" "mq_beats p = mq_beats q"
    using assms(8) by (simp_all add: burst_covers_def covering_beat_def mq_beats_def fun_eq_iff)
  have r: "burst_in_range q s" by (rule status_zero_range [OF st])
  then have r1: "burst_in_range p s1" using ok S1(2) assms(8) by (simp add: burst_in_range_def same)
  have base: "unat (bm_base s1) \<le> unat (ax_addr (mq_address p))"
    using burst_in_range_iff [OF assms(1) S2(1) ok(1)] r1 by blast
  have "ax_lock (mq_address q) = 0" using st by (auto simp: burst_status_def split: if_splits)
  then have st2: "burst_status cfg p s1 = 0" using r1 assms(7,8) by (simp add: burst_status_def)
  note W = burst_write_exact [OF assms(1-5)]
  have "mrb_data (mp_read_beats r2 ! covering_beat q x) ! (x mod AXI_DATA_BYTES cfg) = byte_at s1 x" if "burst_covers q x" for x
  proof -
    have x: "burst_covers p x" using that same by simp
    obtain j where "covering_beat p x \<le> unat (ax_len (mq_address p))" by (rule covered_position [OF assms(1) S2(1) x])
    then have "mp_read_beats r2 ! covering_beat q x = read_beat cfg (mq_address p) (bm_base s1) (bm_bytes s1) 0 (covering_beat p x)"
      using S2(5) assms(7) st2 by (simp add: same(2) mq_beats_def del: upt_Suc)
    then show ?thesis using read_beat_byte [OF assms(1) S2(1) x base] by (simp only:)
  qed
  then show ?thesis using W S2(3,5) assms(7) same(3) by auto
qed

text \<open>
  Errors have no effect: a burst is answered OKAY exactly if it lies in the window, is not
  exclusive, and sets no strobe outside its beats; every other burst that is served leaves the
  memory as it was, reports the error in its response or in every read beat, and returns no data.
\<close>

theorem burst_errors:
  assumes "cfg_ok cfg" "memory_ok s" "memory_serve cfg q s = Inr (s', r, t)"
  shows "(burst_status cfg q s = 0 \<longleftrightarrow> unat (bm_base s) \<le> unat (ax_addr (mq_address q)) \<and>
       unat (ax_addr (mq_address q)) + mq_beats q * beat_bytes (mq_address q) \<le> unat (bm_base s) + length (bm_bytes s) \<and>
       ax_lock (mq_address q) = 0 \<and> \<not> (mq_write q \<and> illegal_strobe cfg q)) \<and>
    (burst_status cfg q s \<noteq> 0 \<longrightarrow> bm_bytes s' = bm_bytes s \<and> bm_errors s' = bm_errors s + 1 \<and>
       (mq_write q \<longrightarrow> mp_resp r \<noteq> 0) \<and>
       (\<forall>b \<in> set (mp_read_beats r). mrb_resp b \<noteq> 0 \<and> mrb_data b = replicate (AXI_DATA_BYTES cfg) 0))"
proof -
  note S = served [OF assms(3)]
  have "burst_status cfg q s = 0 \<longleftrightarrow> burst_in_range q s \<and> ax_lock (mq_address q) = 0 \<and> \<not> (mq_write q \<and> illegal_strobe cfg q)"
    by (simp add: burst_status_def)
  then show ?thesis using S burst_in_range_iff [OF assms(1) S(1) assms(2)] by (auto simp: read_beat_def)
qed


text \<open>Two beats of four bytes on the 32-byte bus, at an address in the middle of a bus word.\<close>

definition sample_mem :: burst_memory where
  "sample_mem = \<lparr>bm_base = 0x1000, bm_bytes = replicate 64 0, bm_access = 20, bm_per_beat = 2, bm_completed = 0, bm_errors = 0\<rparr>"

definition sample_burst :: "bool \<Rightarrow> mem_request" where
  "sample_burst wr = \<lparr>mq_write = wr, mq_rp = 0,
     mq_address = (ax_channel0 B256)\<lparr>ax_addr := 0x1008, ax_len := 1, ax_size := 2\<rparr>,
     mq_write_beats = (if wr then
       [\<lparr>mwb_data = replicate 32 7, mwb_strobe = replicate 8 0 @ replicate 4 1 @ replicate 20 0, mwb_user = 0\<rparr>,
        \<lparr>mwb_data = replicate 32 9, mwb_strobe = replicate 12 0 @ replicate 2 1 @ replicate 18 0, mwb_user = 0\<rparr>] else [])\<rparr>"

lemma sample_mem_ok: "memory_ok sample_mem"
  and sample_mem_base: "bm_base sample_mem = 0x1000" "length (bm_bytes sample_mem) = 64"
  by (simp_all add: memory_ok_def sample_mem_def)

lemma sample_request: "axi_request_error B256 (mq_address (sample_burst wr)) = None"
  by (simp add: sample_burst_def axi_request_error_def ax_channel0_def AXI_SIZE_CODE_def)

lemma sample_lanes: "beat_lane B256 (mq_address (sample_burst wr)) 0 = 8" "beat_lane B256 (mq_address (sample_burst wr)) 1 = 12"
    "beat_bytes (mq_address (sample_burst wr)) = 4" "mq_beats (sample_burst wr) = 2"
  by (simp_all add: beat_lane_def beat_addr_def beat_bytes_def sample_burst_def mq_beats_def ax_channel0_def AXI_DATA_BYTES_def dlength_to_bytes_def)

lemma sample_bus: "AXI_DATA_BYTES B256 = 32"
  by (simp add: AXI_DATA_BYTES_def dlength_to_bytes_def)

lemma sample_cover:
  "burst_covers (sample_burst wr) 0x100D" "covering_beat (sample_burst wr) 0x100D = 1"
  "burst_covers (sample_burst wr) 0x100E" "covering_beat (sample_burst wr) 0x100E = 1"
proof -
  have "unat (ax_addr (mq_address (sample_burst wr))) = 0x1008" by (simp add: sample_burst_def)
  then show "burst_covers (sample_burst wr) 0x100D" "covering_beat (sample_burst wr) 0x100D = 1"
    "burst_covers (sample_burst wr) 0x100E" "covering_beat (sample_burst wr) 0x100E = 1"
    by (simp_all add: burst_covers_def covering_beat_def sample_lanes)
qed

lemma sample_bytes:
  "mwb_strobe (mq_write_beats (sample_burst True) ! 1) ! 13 = 1" "mwb_data (mq_write_beats (sample_burst True) ! 1) ! 13 = 9"
  "mwb_strobe (mq_write_beats (sample_burst True) ! 1) ! 14 = 0"
  by (simp_all add: sample_burst_def nth_append)

lemma sample_legal: "\<not> illegal_strobe B256 (sample_burst True)"
proof -
  have s0: "j < 8 \<or> 12 \<le> j \<Longrightarrow> mwb_strobe (mq_write_beats (sample_burst True) ! 0) ! j = 0" if "j < 32" for j
    using that by (auto simp: sample_burst_def nth_append)
  have s1: "j < 12 \<or> 16 \<le> j \<Longrightarrow> mwb_strobe (mq_write_beats (sample_burst True) ! 1) ! j = 0" if "j < 32" for j
    using that by (auto simp: sample_burst_def nth_append)
  have l: "beat_lane B256 (mq_address (sample_burst True)) 0 = 8" "beat_lane B256 (mq_address (sample_burst True)) 1 = 12"
    by (rule sample_lanes)+
  show ?thesis
  proof
    assume "illegal_strobe B256 (sample_burst True)"
    then obtain n j where n: "n < 2" and j: "j < 32" and z: "mwb_strobe (mq_write_beats (sample_burst True) ! n) ! j \<noteq> 0"
      and o: "j < beat_lane B256 (mq_address (sample_burst True)) n \<or> beat_lane B256 (mq_address (sample_burst True)) n + 4 \<le> j"
      unfolding illegal_strobe_def Let_def sample_lanes(3,4) sample_bus list_ex_iff by auto
    have "n = 0 \<or> n = 1" using n by linarith
    then show False using s0 [OF j] s1 [OF j] z o l by auto
  qed
qed

lemma sample_served:
  assumes "bm_base s = 0x1000" "length (bm_bytes s) = 64" "memory_ok s"
  obtains s' r t where "memory_serve B256 (sample_burst wr) s = Inr (s', r, t)" "mp_resp r = 0" "burst_status B256 (sample_burst wr) s = 0"
proof -
  have cfg: "cfg_ok B256" by (simp add: cfg_ok_def)
  have "burst_in_range (sample_burst wr) s"
    unfolding burst_in_range_iff [OF cfg sample_request assms(3)] using assms(1,2)
    by (simp add: sample_lanes) (simp add: sample_burst_def)
  then have st: "burst_status B256 (sample_burst wr) s = 0"
    using sample_legal by (cases wr) (simp_all add: burst_status_def, simp_all add: sample_burst_def ax_channel0_def)
  have len: "mq_write (sample_burst wr) \<longrightarrow> length (mq_write_beats (sample_burst wr)) = mq_beats (sample_burst wr)"
    by (cases wr) (simp_all add: sample_lanes, simp_all add: sample_burst_def)
  show ?thesis using that st len sample_request by (simp add: memory_serve_def Let_def)
qed

theorem burst_write_exact_witness:
  "\<exists>s' r t. memory_serve B256 (sample_burst True) sample_mem = Inr (s', r, t) \<and> mp_resp r = 0 \<and>
     byte_at s' 0x100D = 9 \<and> byte_at s' 0x100E = 0"
proof -
  obtain s' r t where s: "memory_serve B256 (sample_burst True) sample_mem = Inr (s', r, t)" "mp_resp r = 0"
    by (rule sample_served [OF sample_mem_base sample_mem_ok])
  have w: "mq_write (sample_burst True)" by (simp add: sample_burst_def)
  have cfg: "cfg_ok B256" by (simp add: cfg_ok_def)
  note W = burst_write_exact [OF cfg sample_mem_ok s(1) w s(2), THEN conjunct2, rule_format]
  have win: "in_window sample_mem 0x100D" "in_window sample_mem 0x100E" by (simp_all add: in_window_def sample_mem_base)
  have "byte_at s' 0x100D = 9" using W [OF win(1)] by (simp add: sample_cover sample_bus sample_bytes [unfolded One_nat_def])
  moreover have "byte_at sample_mem 0x100E = 0" by (simp add: byte_at_def sample_mem_def)
  then have "byte_at s' 0x100E = 0" using W [OF win(2)] by (simp add: sample_cover sample_bus sample_bytes [unfolded One_nat_def])
  ultimately show ?thesis using s by blast
qed

theorem read_after_write_witness:
  "\<exists>s1 r1 t1 s2 r2 t2. memory_serve B256 (sample_burst True) sample_mem = Inr (s1, r1, t1) \<and>
     memory_serve B256 (sample_burst False) s1 = Inr (s2, r2, t2) \<and> mrb_data (mp_read_beats r2 ! 1) ! 13 = 9"
proof -
  have cfg: "cfg_ok B256" by (simp add: cfg_ok_def)
  obtain s1 r1 t1 where s: "memory_serve B256 (sample_burst True) sample_mem = Inr (s1, r1, t1)" "mp_resp r1 = 0"
    by (rule sample_served [OF sample_mem_base sample_mem_ok])
  have b: "bm_base s1 = 0x1000" "length (bm_bytes s1) = 64" "memory_ok s1"
    using served(2) [OF s(1)] serve_ok [OF s(1) cfg sample_mem_ok] by (simp_all add: sample_mem_def)
  obtain s2 r2 t2 where p: "memory_serve B256 (sample_burst False) s1 = Inr (s2, r2, t2)" by (rule sample_served [OF b])
  have w: "mq_write (sample_burst True)" "\<not> mq_write (sample_burst False)" "mq_address (sample_burst False) = mq_address (sample_burst True)"
    by (simp_all add: sample_burst_def)
  have "mrb_data (mp_read_beats r2 ! 1) ! 13 = 9"
    using read_after_write [OF cfg sample_mem_ok s(1) w(1) s(2) p w(2,3), THEN conjunct2, THEN conjunct2, rule_format, OF sample_cover(1)]
    by (simp add: sample_cover sample_bus sample_bytes [unfolded One_nat_def])
  with s p show ?thesis by blast
qed

text \<open>An exclusive read is refused.\<close>

theorem burst_errors_witness:
  "\<exists>q s' r t. memory_serve B256 q sample_mem = Inr (s', r, t) \<and> burst_status B256 q sample_mem \<noteq> 0 \<and> bm_bytes s' = bm_bytes sample_mem"
proof -
  let ?q = "(sample_burst False)\<lparr>mq_address := (mq_address (sample_burst False))\<lparr>ax_lock := 1\<rparr>\<rparr>"
  have cfg: "cfg_ok B256" by (simp add: cfg_ok_def)
  have r: "axi_request_error B256 (mq_address ?q) = None"
    by (simp add: sample_burst_def axi_request_error_def ax_channel0_def AXI_SIZE_CODE_def)
  obtain s' r t where s: "memory_serve B256 ?q sample_mem = Inr (s', r, t)" using r by (simp add: memory_serve_def Let_def sample_burst_def)
  have "burst_status B256 ?q sample_mem \<noteq> 0" by (simp add: burst_status_def sample_burst_def)
  with burst_errors [OF cfg sample_mem_ok s] s show ?thesis by blast
qed

end
