(* ===== verification/Aou_Target.thy ===== *)
theory Aou_Target
  imports Ucie_Adapter Burst_Memory Flit_Packer Msg_Codec
begin

text \<open>
  \<^verbatim>\<open>aou_target.h\<close>: the memory side of the link. It unpacks requests, pairs write data with write
  requests, submits whole bursts to the memory and packs the responses. One step is one turn of
  \<^verbatim>\<open>run\<close>; the FIFO states at the clock edge are inputs, what is written is returned. Exceptions
  are error values; \<^verbatim>\<open>run\<close> turns each into a fatal report.
\<close>

section \<open>State\<close>

definition REQUEST_SLOTS :: nat where "REQUEST_SLOTS = 4"
definition WDATA_GRANULES :: nat where "WDATA_GRANULES = 64"
definition MAX_OUTSTANDING :: nat where "MAX_OUTSTANDING = 8"

record target_reply =
  tr_rsp :: mem_response
  tr_beat :: nat

record target_ticket =
  tk_write :: bool
  tk_rp :: u8
  tk_id :: u16
  tk_beats :: nat

text \<open>The statistics, all 64-bit or 32-bit counters.\<close>

record target_stats =
  ts_reads :: u64
  ts_writes :: u64
  ts_read_beats :: u64
  ts_write_beats :: u64
  ts_rx_flits :: u64
  ts_tx_flits :: u64
  ts_rx_spanning :: u64
  ts_tx_spanning :: u64
  ts_response_credit_stalls :: u64
  ts_memory_stalls :: u64
  ts_tx_fifo_stalls :: u64
  ts_max_outstanding :: nat
  ts_max_wdata_granules :: nat

definition target_stats0 :: target_stats where
  "target_stats0 = \<lparr>ts_reads = 0, ts_writes = 0, ts_read_beats = 0, ts_write_beats = 0, ts_rx_flits = 0, ts_tx_flits = 0,
     ts_rx_spanning = 0, ts_tx_spanning = 0, ts_response_credit_stalls = 0, ts_memory_stalls = 0, ts_tx_fifo_stalls = 0,
     ts_max_outstanding = 0, ts_max_wdata_granules = 0\<rparr>"

record aou_target =
  at_rp_count :: nat
  at_outstanding :: nat
  at_next_submit :: nat
  at_next_reply :: nat
  at_credits :: credit_manager
  at_decoder :: stream_decoder
  at_writes :: "nat \<Rightarrow> mem_request list"
  at_reads :: "nat \<Rightarrow> mem_request list"
  at_data :: "nat \<Rightarrow> aou_message list"
  at_data_granules :: "nat \<Rightarrow> nat"
  at_read_replies :: "nat \<Rightarrow> target_reply list"
  at_write_replies :: "nat \<Rightarrow> target_reply list"
  at_tickets :: "target_ticket list"
  at_spill :: aou_message
  at_spill_offset :: int
  at_spill_completes :: bool
  at_trace_id :: u64
  at_stats :: target_stats

definition target_capacity :: "nat \<Rightarrow> credit_matrix result" where
  "target_capacity count =
     (if count < 1 \<or> count > MAX_RESOURCE_PLANES then Inl (InvalidArgument ''Target RP count must be 1..4'')
      else Inr (\<lambda>rp k. if rp < count then
             (if k = credit_kind_index CkWriteReq then REQUEST_SLOTS * nat WREQ_GRANULES
              else if k = credit_kind_index CkReadReq then REQUEST_SLOTS * nat RREQ_GRANULES
              else if k = credit_kind_index CkWriteData then WDATA_GRANULES else 0) else 0))"

definition target_make :: "ucie_config \<Rightarrow> nat \<Rightarrow> aou_target result" where
  "target_make cfg n =
     bindR (target_capacity n) (\<lambda>capacity.
     bindR (cm_make n capacity) (\<lambda>credits.
     bindR (require_aou_ucie_config cfg) (\<lambda>_.
       Inr \<lparr>at_rp_count = n, at_outstanding = 0, at_next_submit = 0, at_next_reply = 0, at_credits = credits,
         at_decoder = stream_decoder0, at_writes = (\<lambda>_. []), at_reads = (\<lambda>_. []), at_data = (\<lambda>_. []),
         at_data_granules = (\<lambda>_. 0), at_read_replies = (\<lambda>_. []), at_write_replies = (\<lambda>_. []), at_tickets = [],
         at_spill = aou_message0, at_spill_offset = 0, at_spill_completes = False, at_trace_id = 0, at_stats = target_stats0\<rparr>)))"

definition target_idle :: "aou_target \<Rightarrow> bool" where
  "target_idle t \<longleftrightarrow> \<not> (at_outstanding t \<noteq> 0 \<or> at_spill_offset t \<noteq> 0 \<or> carry_active (at_decoder t) \<or> has_pending_returns (at_credits t)) \<and>
     list_all (\<lambda>rp. at_writes t rp = [] \<and> at_reads t rp = [] \<and> at_data t rp = []) [0..<at_rp_count t]"

definition target_require :: "bool \<Rightarrow> string \<Rightarrow> unit result" where
  "target_require ok what = check ok (RuntimeError what)"

definition release_credit :: "nat \<Rightarrow> credit_kind \<Rightarrow> nat \<Rightarrow> aou_target \<Rightarrow> aou_target" where
  "release_credit rp kind n t =
     t\<lparr>at_credits := return_rx_credit (at_credits t) \<lparr>cu_rp = rp, cu_kind = kind, cu_granules = n\<rparr>\<rparr>"

section \<open>Receiving\<close>

definition matrix_updates :: "nat \<Rightarrow> credit_matrix \<Rightarrow> credit_update list" where
  "matrix_updates n grants = concat (map (\<lambda>rp. map (\<lambda>k. \<lparr>cu_rp = rp, cu_kind = credit_kind_cast k, cu_granules = grants rp k\<rparr>)
     [0..<CREDIT_KIND_COUNT]) [0..<n])"

definition add_grants :: "credit_update list \<Rightarrow> aou_target \<Rightarrow> aou_target" where
  "add_grants us t = t\<lparr>at_credits := fold (\<lambda>u c. add_tx_credit c u) us (at_credits t)\<rparr>"

definition receive_request :: "data_length \<Rightarrow> aou_message \<Rightarrow> aou_target \<Rightarrow> aou_target result" where
  "receive_request cfg m t =
     (let rp = unat (am_rp m) in
      bindR (decode_req cfg m (ax_channel0 cfg)) (\<lambda>(ok, addr).
      bindR (target_require ok ''Target request decode'') (\<lambda>_.
      bindR (target_require (axi_request_error cfg addr = None) ''Target invalid AXI request'') (\<lambda>_.
        let req = \<lparr>mq_write = (am_type m = WriteReq), mq_rp = am_rp m, mq_address = addr, mq_write_beats = []\<rparr> in
        if mq_write req
        then bindR (target_require (length (at_writes t rp) < REQUEST_SLOTS) ''Target WREQ capacity exceeded'') (\<lambda>_.
          Inr (t\<lparr>at_writes := (at_writes t)(rp := at_writes t rp @ [req]),
                 at_stats := (at_stats t)\<lparr>ts_writes := ts_writes (at_stats t) + 1\<rparr>\<rparr>))
        else bindR (target_require (length (at_reads t rp) < REQUEST_SLOTS) ''Target RREQ capacity exceeded'') (\<lambda>_.
          Inr (t\<lparr>at_reads := (at_reads t)(rp := at_reads t rp @ [req]),
                 at_stats := (at_stats t)\<lparr>ts_reads := ts_reads (at_stats t) + 1\<rparr>\<rparr>))))))"

definition receive_data :: "aou_message \<Rightarrow> aou_target \<Rightarrow> aou_target result" where
  "receive_data m t =
     (let rp = unat (am_rp m); used = add_u32 (at_data_granules t rp) (credit_need m) in
      bindR (target_require (used \<le> WDATA_GRANULES) ''Target WDATA capacity exceeded'') (\<lambda>_.
        Inr (t\<lparr>at_data_granules := (at_data_granules t)(rp := used), at_data := (at_data t)(rp := at_data t rp @ [m]),
               at_stats := (at_stats t)\<lparr>ts_max_wdata_granules := max (ts_max_wdata_granules (at_stats t)) used,
                                       ts_write_beats := ts_write_beats (at_stats t) + 1\<rparr>\<rparr>)))"

definition receive_message :: "data_length \<Rightarrow> aou_message \<Rightarrow> aou_target \<Rightarrow> aou_target result" where
  "receive_message cfg m t =
     (if am_type m = Misc then
        (case decode_crdt_grant_message m (at_rp_count t) of (ok, grants) \<Rightarrow>
           bindR (target_require ok ''Target unexpected Misc'') (\<lambda>_. Inr (add_grants (matrix_updates (at_rp_count t) grants) t)))
      else bindR (target_require (unat (am_rp m) < at_rp_count t) ''Target invalid RP'') (\<lambda>_.
        if am_type m = WriteReq \<or> am_type m = ReadReq then receive_request cfg m t
        else if am_type m = WriteData \<or> am_type m = WriteDataFull then receive_data m t
        else bindR (target_require False ''Target received a response instead of a request'') (\<lambda>_. Inr t)))"

fun receive_messages :: "data_length \<Rightarrow> aou_message list \<Rightarrow> aou_target \<Rightarrow> aou_target result" where
  "receive_messages cfg [] t = Inr t"
| "receive_messages cfg (m # ms) t = bindR (receive_message cfg m t) (receive_messages cfg ms)"

text \<open>The second component is how many elements of \<^verbatim>\<open>link_rx\<close> are taken.\<close>

definition target_receive :: "data_length \<Rightarrow> fdi_flit list \<Rightarrow> aou_target \<Rightarrow> (aou_target \<times> nat) result" where
  "target_receive cfg link_rx t =
     (case link_rx of [] \<Rightarrow> Inr (t, 0)
      | fdi # _ \<Rightarrow>
        bindR (target_require (length (fd_payload fdi) = 250 \<and> fd_valid_bytes fdi = 250) ''Target FDI size'') (\<lambda>_.
        bindR (deserialize_aou (fd_payload fdi)) (\<lambda>flit.
        bindR (target_require (fl_fdid flit = 0) ''Target unsupported FDId'') (\<lambda>_.
        let had_carry = carry_active (at_decoder t) in
        case sd_consume (at_decoder t) flit of (d, parsed) \<Rightarrow>
        bindR parsed (\<lambda>parsed.
          let t = t\<lparr>at_decoder := d, at_stats := (at_stats t)\<lparr>ts_rx_flits := ts_rx_flits (at_stats t) + 1,
                      ts_rx_spanning := ts_rx_spanning (at_stats t) + (if had_carry then 1 else 0)\<rparr>\<rparr>
          in bindR (receive_messages cfg (dr_messages parsed)
                     (add_grants (decode_header_credits (fl_msg_credit flit) (at_rp_count t)) t))
               (\<lambda>t. Inr (t, 1)))))))"

section \<open>Assembling and submitting\<close>

text \<open>The beat goes to the first write request of the plane that still misses beats.\<close>

fun append_beat :: "mem_write_beat \<Rightarrow> mem_request list \<Rightarrow> mem_request list" where
  "append_beat b [] = []"
| "append_beat b (q # qs) =
     (if length (mq_write_beats q) = mq_beats q then q # append_beat b qs
      else q\<lparr>mq_write_beats := mq_write_beats q @ [b]\<rparr> # qs)"

definition needs_data :: "mem_request list \<Rightarrow> bool" where
  "needs_data qs = list_ex (\<lambda>q. length (mq_write_beats q) \<noteq> mq_beats q) qs"

definition assemble_plane :: "data_length \<Rightarrow> nat \<Rightarrow> aou_target \<Rightarrow> aou_target result" where
  "assemble_plane cfg rp t =
     (if needs_data (at_writes t rp) \<and> at_data t rp \<noteq> [] then
        let m = hd (at_data t rp) in
        bindR (decode_write_data cfg m (w_channel0 cfg)) (\<lambda>(ok, w).
        bindR (target_require ok ''Target WDATA decode'') (\<lambda>_.
          let beat = \<lparr>mwb_data = take (AXI_DATA_BYTES cfg) (w_data w), mwb_strobe = take (AXI_DATA_BYTES cfg) (w_strb w), mwb_user = w_user w\<rparr>
          in Inr (release_credit rp CkWriteData (credit_need m)
               (t\<lparr>at_writes := (at_writes t)(rp := append_beat beat (at_writes t rp)),
                  at_data := (at_data t)(rp := tl (at_data t rp)),
                  at_data_granules := (at_data_granules t)(rp := at_data_granules t rp - credit_need m)\<rparr>))))
      else Inr t)"

fun assemble_planes :: "data_length \<Rightarrow> nat list \<Rightarrow> aou_target \<Rightarrow> aou_target result" where
  "assemble_planes cfg [] t = Inr t"
| "assemble_planes cfg (rp # rps) t = bindR (assemble_plane cfg rp t) (assemble_planes cfg rps)"

definition target_assemble :: "data_length \<Rightarrow> aou_target \<Rightarrow> aou_target result" where
  "target_assemble cfg t = assemble_planes cfg [0..<at_rp_count t] t"

text \<open>Slots alternate reads and writes of the planes.\<close>

definition slot_ready :: "aou_target \<Rightarrow> nat \<Rightarrow> bool" where
  "slot_ready t s = (let rp = s div 2 in
     if s mod 2 \<noteq> 0
     then at_writes t rp \<noteq> [] \<and> length (mq_write_beats (hd (at_writes t rp))) = mq_beats (hd (at_writes t rp))
     else at_reads t rp \<noteq> [])"

definition target_submit :: "nat \<Rightarrow> aou_target \<Rightarrow> (aou_target \<times> mem_request list) result" where
  "target_submit mem_free t =
     (case find (slot_ready t) (rp_rotation (at_next_submit t) (at_rp_count t * 2)) of
        None \<Rightarrow> Inr (t, [])
      | Some s \<Rightarrow>
        if at_outstanding t = MAX_OUTSTANDING \<or> mem_free = 0
        then Inr (t\<lparr>at_stats := (at_stats t)\<lparr>ts_memory_stalls := ts_memory_stalls (at_stats t) + 1\<rparr>\<rparr>, [])
        else
          let rp = s div 2; wr = (s mod 2 \<noteq> 0); req = (if wr then hd (at_writes t rp) else hd (at_reads t rp)) in
          bindR (target_require (mem_free > 0) ''Target memory reservation failed'') (\<lambda>_.
            let t = t\<lparr>at_tickets := at_tickets t @ [\<lparr>tk_write = wr, tk_rp = of_nat rp, tk_id = ax_id (mq_address req), tk_beats = mq_beats req\<rparr>],
                  at_outstanding := at_outstanding t + 1,
                  at_stats := (at_stats t)\<lparr>ts_max_outstanding := max (ts_max_outstanding (at_stats t)) (at_outstanding t + 1)\<rparr>\<rparr>;
                t = (if wr then t\<lparr>at_writes := (at_writes t)(rp := tl (at_writes t rp))\<rparr>
                     else t\<lparr>at_reads := (at_reads t)(rp := tl (at_reads t rp))\<rparr>);
                t = release_credit rp (if wr then CkWriteReq else CkReadReq) (if wr then nat WREQ_GRANULES else nat RREQ_GRANULES) t
            in Inr (t\<lparr>at_next_submit := (s + 1) mod (at_rp_count t * 2)\<rparr>, [req])))"

section \<open>Collecting and answering\<close>

definition ticket_matches :: "mem_response \<Rightarrow> target_ticket \<Rightarrow> bool" where
  "ticket_matches rsp tk \<longleftrightarrow> tk_write tk = mp_write rsp \<and> tk_rp tk = mp_rp rsp \<and> tk_id tk = mp_id rsp"

definition target_collect :: "mem_response list \<Rightarrow> aou_target \<Rightarrow> (aou_target \<times> nat) result" where
  "target_collect mem_rsp t =
     (case mem_rsp of [] \<Rightarrow> Inr (t, 0)
      | rsp # _ \<Rightarrow>
        bindR (target_require (unat (mp_rp rsp) < at_rp_count t) ''Target response RP'') (\<lambda>_.
        let tail = dropWhile (\<lambda>tk. \<not> ticket_matches rsp tk) (at_tickets t); rp = unat (mp_rp rsp);
            reply = \<lparr>tr_rsp = rsp, tr_beat = 0\<rparr> in
        bindR (target_require (tail \<noteq> []) ''Target unmatched memory response'') (\<lambda>_.
        bindR (target_require (length (mp_read_beats rsp) = (if mp_write rsp then 0 else tk_beats (hd tail))) ''Target response length'') (\<lambda>_.
          let t = t\<lparr>at_tickets := takeWhile (\<lambda>tk. \<not> ticket_matches rsp tk) (at_tickets t) @ tl tail\<rparr> in
          Inr (if mp_write rsp then t\<lparr>at_write_replies := (at_write_replies t)(rp := at_write_replies t rp @ [reply])\<rparr>
               else t\<lparr>at_read_replies := (at_read_replies t)(rp := at_read_replies t rp @ [reply])\<rparr>, 1)))))"

definition reply_message :: "data_length \<Rightarrow> bool \<Rightarrow> nat \<Rightarrow> target_reply \<Rightarrow> aou_message result" where
  "reply_message cfg wr rp p =
     (if wr then Inr (build_write_resp (b_channel0\<lparr>b_id := mp_id (tr_rsp p), b_user := mp_user (tr_rsp p), b_resp := mp_resp (tr_rsp p)\<rparr>) (of_nat rp))
      else let b = mp_read_beats (tr_rsp p) ! tr_beat p in
        build_read_data cfg ((r_channel0 cfg)\<lparr>r_id := mp_id (tr_rsp p), r_user := mrb_user b, r_resp := mrb_resp b,
           r_last := (tr_beat p + 1 = length (mp_read_beats (tr_rsp p))), r_data := mrb_data b\<rparr>) (of_nat rp) cfg)"

text \<open>The loops over write and read replies: the first one whose credit suffices.\<close>

fun try_replies :: "data_length \<Rightarrow> (bool \<times> nat) list \<Rightarrow> aou_target \<Rightarrow> (aou_target \<times> (aou_message \<times> bool) option) result" where
  "try_replies cfg [] t = Inr (t, None)"
| "try_replies cfg ((wr, rp) # cs) t =
     (case (if wr then at_write_replies t else at_read_replies t) rp of
        [] \<Rightarrow> try_replies cfg cs t
      | p # ps \<Rightarrow> bindR (reply_message cfg wr rp p) (\<lambda>msg.
          if \<not> can_consume (at_credits t) rp (am_type msg) (credit_need msg)
          then try_replies cfg cs (t\<lparr>at_stats := (at_stats t)\<lparr>ts_response_credit_stalls := ts_response_credit_stalls (at_stats t) + 1\<rparr>\<rparr>)
          else bindR (consume (at_credits t) rp (am_type msg) (credit_need msg)) (\<lambda>credits.
            let t = t\<lparr>at_credits := credits, at_next_reply := (rp + 1) mod at_rp_count t\<rparr> in
            if wr then Inr (t\<lparr>at_write_replies := (at_write_replies t)(rp := ps)\<rparr>, Some (msg, True))
            else
              let p' = p\<lparr>tr_beat := tr_beat p + 1\<rparr>; done = (tr_beat p' = length (mp_read_beats (tr_rsp p))) in
              Inr (t\<lparr>at_read_replies := (at_read_replies t)(rp := (if done then ps else p' # ps)),
                     at_stats := (at_stats t)\<lparr>ts_read_beats := ts_read_beats (at_stats t) + 1\<rparr>\<rparr>, Some (msg, done)))))"

definition next_message :: "data_length \<Rightarrow> aou_target \<Rightarrow> (aou_target \<times> (aou_message \<times> bool) option) result" where
  "next_message cfg t = (let rps = rp_rotation (at_next_reply t) (at_rp_count t) in
     try_replies cfg (map (Pair True) rps @ map (Pair False) rps) t)"

section \<open>Transmitting\<close>

definition resume_spill :: "aou_flit \<times> aou_target \<Rightarrow> aou_flit \<times> aou_target" where
  "resume_spill = (\<lambda>(f, t).
     if at_spill_offset t \<noteq> 0 then
       (case pack_fragment f (at_spill t) (at_spill_offset t) of (f, took) \<Rightarrow>
          let off = at_spill_offset t + took in
          if off = am_granules (at_spill t)
          then (f, t\<lparr>at_spill_offset := 0, at_outstanding := (if at_spill_completes t then at_outstanding t - 1 else at_outstanding t)\<rparr>)
          else (f, t\<lparr>at_spill_offset := off\<rparr>))
     else (f, t))"

text \<open>
  The loop that fills the flit; every turn uses at least one of the 48 granules, so 48 turns of fuel
  are enough (\<open>fill_flit_ok\<close> shows it is never used up).
\<close>

fun fill_flit :: "nat \<Rightarrow> data_length \<Rightarrow> aou_flit \<times> aou_target \<Rightarrow> (aou_flit \<times> aou_target) result" where
  "fill_flit fuel cfg (f, t) =
     (if at_spill_offset t = 0 \<and> remaining_granules f \<noteq> 0 then
        (case fuel of 0 \<Rightarrow> Inl (LogicError ''fuel'') | Suc fuel \<Rightarrow>
          bindR (next_message cfg t) (\<lambda>(t, r). case r of None \<Rightarrow> Inr (f, t)
          | Some (m, completes) \<Rightarrow>
             (case pack_fragment f m 0 of (f, took) \<Rightarrow>
              if took < am_granules m
              then fill_flit fuel cfg (f, t\<lparr>at_spill := m, at_spill_offset := took, at_spill_completes := completes,
                  at_stats := (at_stats t)\<lparr>ts_tx_spanning := ts_tx_spanning (at_stats t) + 1\<rparr>\<rparr>)
              else fill_flit fuel cfg (f, if completes then t\<lparr>at_outstanding := at_outstanding t - 1\<rparr> else t))))
      else Inr (f, t))"

definition target_transmit :: "data_length \<Rightarrow> nat \<Rightarrow> nat \<Rightarrow> aou_target \<Rightarrow> (aou_target \<times> fdi_flit list) result" where
  "target_transmit cfg now tx_free t =
     (if tx_free = 0 then Inr (t\<lparr>at_stats := (at_stats t)\<lparr>ts_tx_fifo_stalls := ts_tx_fifo_stalls (at_stats t) + 1\<rparr>\<rparr>, [])
      else bindR (fill_flit 48 cfg (resume_spill (aou_flit0, t))) (\<lambda>(f, t).
        case take_header_grant (at_credits t) of (field, credits) \<Rightarrow>
        let f = f\<lparr>fl_msg_credit := field\<rparr>; t = t\<lparr>at_credits := credits\<rparr> in
        if fl_used_granules f = 0 \<and> fl_msg_credit f = 0 then Inr (t, [])
        else bindR (serialize_aou f) (\<lambda>bytes.
          let fdi = \<lparr>fd_payload = bytes, fd_valid_bytes = length bytes, fd_transaction_id = unat (at_trace_id t), fd_vc = 0,
                     fd_kind = Response, fd_transaction_start = now, fd_fdi_time = now\<rparr> in
          bindR (target_require (tx_free > 0) ''Target TX reservation failed'') (\<lambda>_.
            Inr (t\<lparr>at_trace_id := at_trace_id t + 1,
                   at_stats := (at_stats t)\<lparr>ts_tx_flits := ts_tx_flits (at_stats t) + 1\<rparr>\<rparr>, [fdi])))))"

section \<open>The loop\<close>

record target_input =
  gi_now :: nat
  gi_rst_n :: bool
  gi_link_rx :: "fdi_flit list"
  gi_link_free :: nat
  gi_mem_free :: nat
  gi_mem_rsp :: "mem_response list"

text \<open>What a turn takes from and writes to the FIFOs.\<close>

record target_output =
  go_rx_taken :: nat
  go_rsp_taken :: nat
  go_requests :: "mem_request list"
  go_flits :: "fdi_flit list"

definition target_turn :: "data_length \<Rightarrow> target_input \<Rightarrow> aou_target \<Rightarrow> (aou_target \<times> target_output) result" where
  "target_turn cfg i t =
     bindR (target_require (gi_rst_n i) ''Target hot reset requires complete link reconstruction'') (\<lambda>_.
     bindR (target_receive cfg (gi_link_rx i) t) (\<lambda>(t, rx).
     bindR (target_collect (gi_mem_rsp i) t) (\<lambda>(t, rsp).
     bindR (target_assemble cfg t) (\<lambda>t.
     bindR (target_submit (gi_mem_free i) t) (\<lambda>(t, reqs).
     bindR (target_transmit cfg (gi_now i) (gi_link_free i) t) (\<lambda>(t, flits).
       Inr (t, \<lparr>go_rx_taken = rx, go_rsp_taken = rsp, go_requests = reqs, go_flits = flits\<rparr>)))))))"

definition target_start :: "aou_target \<Rightarrow> aou_target" where
  "target_start t = t\<lparr>at_credits := publish_initial_capacity (at_credits t)\<rparr>"

definition target_edge :: "data_length \<Rightarrow> target_input \<Rightarrow> aou_target \<Rightarrow> (aou_target \<times> target_output) result" where
  "target_edge cfg i t = map_sum (\<lambda>_. ReportFatal ''AouTarget'') id (target_turn cfg i t)"

end
