(* ===== verification/Mem_Types.thy ===== *)
theory Mem_Types
  imports Prelude
begin

text \<open>
  The specification data of the memory simulator (\<^verbatim>\<open>src/mem_sim/include/hbm_sim/core/common.hpp\<close>,
  \<^verbatim>\<open>dram/spec.hpp\<close>, \<^verbatim>\<open>dram/spec.cpp\<close>): commands, policies, organisation, timing values and the
  table of timing constraints, with \<^verbatim>\<open>validate_spec\<close> and the derivation of the constraint tables
  by \<^verbatim>\<open>finalize_spec\<close>. \<^verbatim>\<open>int\<close> fields are \<^typ>\<open>int\<close>; \<^verbatim>\<open>Cycle\<close>, \<^verbatim>\<open>Address\<close> and other \<^verbatim>\<open>uint64_t\<close>
  values are \<^typ>\<open>nat\<close>, with the range checks of the code written out; \<^verbatim>\<open>double\<close> values are exact
  rationals (so \<^verbatim>\<open>isfinite\<close> always holds). Names, notes and the other descriptive text fields of
  the structures, which no modelled operation reads, are left out.
\<close>

section \<open>Enumerations\<close>

datatype dram_standard = StdUnknown | Hbm3 | Hbm4 | Lpddr5 | Lpddr6

datatype request_type = ReqRead | ReqWrite | ReqMaintenance

datatype command =
    ACT | ACT1 | ACT2 | PRE | PREPB | PREAB | CASRD | CASWR | RD | WR | RDA | WRA
  | REFAB | REFPB | REFDB | RFMAB | RFMPB | MRW | MRR | WCKSYNC | WCKTRAIN | DVFS
  | PDE | PDX | SREFEN | SREFEX | ECCSCRUB | RASERR | NOP

datatype bus_class = BusRow | BusColumn | BusUnified

datatype scheduler_kind = FRFCFS | FCFS

datatype low_power_mode = LowPowerOff | LowPowerDown | LowPowerSelfRefresh

datatype row_policy_kind = OpenPage | ClosedPage | ClosedCap

datatype address_mapping_kind = MapDefault | RoBaRaCoCh | ChRaBaRoCo | RoCoRaBaCh

datatype lpddr_efficiency_mode = EffNormal | EffStatic | EffDynamic

datatype lpddr_dvfs_mode = DvfsNominal | DvfsLow | DvfsDisabled

datatype lpddr_wck_mode = CasSync | AlwaysOn | BurstSync

datatype maintenance_policy_kind = PerBank | AllBank

datatype refresh_temperature_mode = TempNormal | TempHigh | TempExtended

datatype timing_scope = ScopeChannel | ScopePseudoChannel | ScopeSid | ScopeRank | ScopeBankGroup | ScopeBank

text \<open>The scopes are ordered from the coarsest to the finest level of the hierarchy.\<close>

fun scope_level :: "timing_scope \<Rightarrow> nat" where
  "scope_level ScopeChannel = 0"
| "scope_level ScopePseudoChannel = 1"
| "scope_level ScopeSid = 2"
| "scope_level ScopeRank = 3"
| "scope_level ScopeBankGroup = 4"
| "scope_level ScopeBank = 5"

lemma scope_level_inject: "scope_level a = scope_level b \<Longrightarrow> a = b"
  by (cases a; cases b) simp_all

instantiation timing_scope :: linorder
begin

definition less_eq_timing_scope :: "timing_scope \<Rightarrow> timing_scope \<Rightarrow> bool" where
  "less_eq_timing_scope a b \<longleftrightarrow> scope_level a \<le> scope_level b"

definition less_timing_scope :: "timing_scope \<Rightarrow> timing_scope \<Rightarrow> bool" where
  "less_timing_scope a b \<longleftrightarrow> scope_level a < scope_level b"

instance
  by standard (auto simp: less_eq_timing_scope_def less_timing_scope_def scope_level_inject)

end

section \<open>Organisation, timing and constraints\<close>

record organization =
  channels :: int
  pseudo_channels :: int
  sids :: int
  ranks :: int
  bank_groups :: int
  banks_per_group :: int
  org_rows :: int
  org_columns :: int
  line_size :: int
  dram_transaction_bytes :: int

record timing =
  nBL :: int
  nCL :: int
  nCWL :: int
  nRCDRD :: int
  nRCDWR :: int
  nRP :: int
  nRAS :: int
  nRC :: int
  nRTP :: int
  nWR :: int
  nCCDS :: int
  nCCDL :: int
  nRRDS :: int
  nRRDL :: int
  nFAW :: int
  nAADMin :: int
  nAADMax :: int
  nWCK2CK :: int
  nWCKPST :: int
  nCAS :: int
  nCS :: int
  nPPD :: int
  nRPab :: int
  nWTRS :: int
  nWTRL :: int
  nRTW :: int
  nCCDR :: int
  nRFC :: int
  nRFCpb :: int
  nRFMab :: int
  nRFMpb :: int
  nRREFD :: int
  nREFDB2ACT :: int
  nREFDB2REFDBS :: int
  nREFDB2REFDBL :: int
  nREFI :: int
  nREFIpb :: int
  nMRW :: int
  nMRR :: int
  nWCKSYNC :: int
  nWCKTRAIN :: int
  nDVFS :: int
  nPDEX :: int
  nSREFEX :: int
  nECCSCRUB :: int
  nRASERR :: int
  nLINKRETRY :: int
  tCK_ps :: rat

definition read_latency :: "timing \<Rightarrow> int" where
  "read_latency t = nCL t + nBL t"

record timing_constraint =
  tc_scope :: timing_scope
  preceding :: "command list"
  following :: "command list"
  latency :: int
  window :: int
  sibling :: bool
  parameter :: string

record dram_spec =
  standard :: dram_standard
  org :: organization
  timing_of :: timing
  speed_bin_mbps :: int
  density_gb :: rat
  density_reference_channels :: int
  stack_height :: int
  split_activate :: bool
  lpddr_family :: bool
  dual_command_bus :: bool
  data_rate_mbps :: int
  data_bus_bits :: int
  internal_prefetch_size :: int
  dfi_read_latency_nck :: int
  dfi_write_latency_nck :: int
  tick_multiplier :: int
  supports_refresh :: bool
  refresh_policy :: maintenance_policy_kind
  lpddr_dual_bank_refresh :: bool
  supports_rfm :: bool
  rfm_policy :: maintenance_policy_kind
  supports_ecc :: bool
  hbm_edge_pairing :: bool
  hbm_strict_edge_pairing :: bool
  hbm_link_retry_enabled :: bool
  hbm_link_crc_bits_per_request :: int
  hbm_ras_metadata_bits_per_request :: int
  hbm_ecc_bits_per_request :: int
  rfm_act_threshold :: int
  rfm_decrement :: int
  lpddr_efficiency_mode :: lpddr_efficiency_mode
  lpddr_dvfs_mode :: lpddr_dvfs_mode
  lpddr_wck_mode :: lpddr_wck_mode
  lpddr_wck_ratio :: int
  lpddr_wck_training_mode :: string
  lpddr_wck_training_required :: bool
  lpddr_ca_parity_enabled :: bool
  lpddr_link_protection :: bool
  lpddr_link_ecc_enabled :: bool
  lpddr_dbi_bits_per_request :: int
  lpddr_link_ecc_bits_per_request :: int
  lpddr_ca_parity_bits_per_command :: int
  low_power_mode :: low_power_mode
  low_power_entry_cycles :: int
  low_power_exit_cycles :: int
  self_refresh_exit_cycles :: int
  refresh_postpone_limit :: int
  refresh_pullin_limit :: int
  refresh_credit_limit :: int
  refresh_temperature_mode :: refresh_temperature_mode
  refresh_high_temp_multiplier :: int
  address_mapping :: address_mapping_kind
  metadata_bits_per_request :: int
  ecc_bits_per_request :: int
  timing_constraints :: "timing_constraint list"
  activation_scope :: timing_scope
  row_bus_scope :: timing_scope
  column_bus_scope :: timing_scope
  wck_scope :: timing_scope

section \<open>Geometry\<close>

definition u64_max :: nat where
  "u64_max = 2 ^ 64 - 1"

definition int_max :: nat where
  "int_max = 2 ^ 31 - 1"

fun checked_product_loop :: "int list \<Rightarrow> nat \<Rightarrow> nat result" where
  "checked_product_loop [] r = Inr r"
| "checked_product_loop (f # fs) r =
     (if f \<le> 0 then Inl (InvalidArgument ''requires positive dimensions'')
      else if u64_max div nat f < r then Inl (OverflowError ''exceeds uint64 range'')
      else checked_product_loop fs (r * nat f))"

definition checked_product :: "int list \<Rightarrow> nat result" where
  "checked_product fs = checked_product_loop fs 1"

definition banks_per_channel :: "dram_spec \<Rightarrow> int result" where
  "banks_per_channel s =
     bindR (checked_product [pseudo_channels (org s), sids (org s), ranks (org s), bank_groups (org s),
       banks_per_group (org s)])
       (\<lambda>c. if int_max < c then Inl (OverflowError ''banks_per_channel exceeds int range'') else Inr (int c))"

definition total_banks :: "dram_spec \<Rightarrow> int result" where
  "total_banks s =
     bindR (checked_product [channels (org s), pseudo_channels (org s), sids (org s), ranks (org s),
       bank_groups (org s), banks_per_group (org s)])
       (\<lambda>c. if int_max < c then Inl (OverflowError ''total_banks exceeds int range'') else Inr (int c))"

definition total_addressable_transactions :: "dram_spec \<Rightarrow> nat result" where
  "total_addressable_transactions s =
     checked_product [channels (org s), pseudo_channels (org s), sids (org s), ranks (org s),
       bank_groups (org s), banks_per_group (org s), org_rows (org s), org_columns (org s)]"

definition transaction_bytes :: "dram_spec \<Rightarrow> int" where
  "transaction_bytes s =
     (if dram_transaction_bytes (org s) > 0 then dram_transaction_bytes (org s) else max 1 (line_size (org s)))"

definition addressable_capacity_bytes :: "dram_spec \<Rightarrow> nat result" where
  "addressable_capacity_bytes s =
     bindR (total_addressable_transactions s) (\<lambda>n.
       let bytes = nat (transaction_bytes s) in
       if n \<noteq> 0 \<and> u64_max div n < bytes
       then Inl (OverflowError ''addressable_capacity_bytes exceeds uint64 range'')
       else Inr (n * bytes))"

text \<open>\<^verbatim>\<open>std::string::find\<close> compared with \<^verbatim>\<open>npos\<close>: the second string occurs in the first.\<close>

fun contains_string :: "string \<Rightarrow> string \<Rightarrow> bool" where
  "contains_string [] p = (p = [])"
| "contains_string (c # cs) p = (take (length p) (c # cs) = p \<or> contains_string cs p)"

definition lpddr_requires_wck_retrain_after_dvfs :: "dram_spec \<Rightarrow> bool" where
  "lpddr_requires_wck_retrain_after_dvfs s =
     (if \<not> lpddr_family s \<or> \<not> lpddr_wck_training_required s \<or> lpddr_dvfs_mode s = DvfsDisabled then False
      else contains_string (lpddr_wck_training_mode s) ''dvfs''
         \<or> contains_string (lpddr_wck_training_mode s) ''DVFS''
         \<or> contains_string (lpddr_wck_training_mode s) ''retrain''
         \<or> contains_string (lpddr_wck_training_mode s) ''Retrain'')"

section \<open>Validation\<close>

definition density_gbit_from_geometry :: "rat \<Rightarrow> bool \<Rightarrow> int \<Rightarrow> int \<Rightarrow> int \<Rightarrow> int \<Rightarrow> rat result" where
  "density_gbit_from_geometry capacity lpddr height chs subchs rks =
     (if capacity \<le> 0 \<or> (if lpddr then chs \<le> 0 \<or> subchs \<le> 0 \<or> rks \<le> 0 else height \<le> 0)
      then Inl (InvalidArgument ''invalid geometry for density calculation'')
      else Inr (capacity / 134217728 / (if lpddr then of_int chs * of_int subchs * of_int rks else of_int height)))"

definition validate_geometry :: "dram_spec \<Rightarrow> unit result" where
  "validate_geometry s =
     bindR (check (channels (org s) > 0 \<and> pseudo_channels (org s) > 0 \<and> sids (org s) > 0 \<and> ranks (org s) > 0
         \<and> bank_groups (org s) > 0 \<and> banks_per_group (org s) > 0 \<and> org_rows (org s) > 0
         \<and> org_columns (org s) > 0 \<and> line_size (org s) > 0)
       (InvalidArgument ''all DRAM organization dimensions must be > 0'')) (\<lambda>_.
     bindR (check (\<not> (dram_transaction_bytes (org s) < 0
         \<or> dram_transaction_bytes (org s) > 0 \<and> line_size (org s) mod dram_transaction_bytes (org s) \<noteq> 0))
       (InvalidArgument ''dram_transaction_bytes must be 0 or a positive divisor of line_size'')) (\<lambda>_.
     bindR (check (data_rate_mbps s > 0 \<and> data_bus_bits s > 0 \<and> internal_prefetch_size s > 0
         \<and> speed_bin_mbps s > 0 \<and> density_gb s > 0 \<and> tCK_ps (timing_of s) > 0 \<and> tick_multiplier s > 0)
       (InvalidArgument ''data rate, bus width, prefetch, speed bin, density, tCK and tick_multiplier must be > 0'')) (\<lambda>_.
     check (\<not> (\<not> lpddr_family s \<and> stack_height s \<le> 0 \<or> lpddr_family s \<and> stack_height s < 0))
       (InvalidArgument ''HBM stack_height must be > 0; LPDDR stack_height must be >= 0''))))"

definition validate_density :: "dram_spec \<Rightarrow> unit result" where
  "validate_density s =
     bindR (addressable_capacity_bytes s) (\<lambda>capacity.
     bindR (check (capacity \<noteq> 0) (InvalidArgument ''DRAM geometry capacity overflow'')) (\<lambda>_.
     bindR (check (\<not> (density_reference_channels s < 0
         \<or> density_reference_channels s > 0 \<and> channels (org s) \<noteq> 1))
       (InvalidArgument ''invalid channel-local density reference'')) (\<lambda>_.
     let reference = (if density_reference_channels s > 0 then density_reference_channels s else channels (org s)) in
     bindR (density_gbit_from_geometry
         (of_nat capacity * of_int reference / of_int (channels (org s)))
         (lpddr_family s) (stack_height s) reference (pseudo_channels (org s)) (ranks (org s))) (\<lambda>density.
     check (\<bar>density_gb s - density\<bar> \<le> (1 / 10 ^ 9) * max 1 density)
       (InvalidArgument ''density_gb conflicts with geometry-derived density'')))))"

definition validate_clock :: "dram_spec \<Rightarrow> unit result" where
  "validate_clock s =
     (let ratio = (if standard s = Lpddr5 then lpddr_wck_ratio s else 2);
          expected = 2000000 * of_int ratio / of_int (data_rate_mbps s) in
      bindR (check (speed_bin_mbps s = data_rate_mbps s)
        (InvalidArgument ''speed_bin_mbps must equal data_rate_mbps'')) (\<lambda>_.
      bindR (check (\<not> (standard s = Lpddr5 \<and> ratio \<noteq> 2 \<and> ratio \<noteq> 4
          \<or> standard s = Lpddr6 \<and> lpddr_wck_ratio s \<noteq> 2))
        (InvalidArgument ''unsupported LPDDR WCK:CK ratio'')) (\<lambda>_.
      check (\<bar>tCK_ps (timing_of s) - expected\<bar> \<le> 1 / 2 + 1 / 10 ^ 9)
        (InvalidArgument ''tCK_ps conflicts with data_rate_mbps and protocol clock ratio''))))"

definition non_negative_fields :: "dram_spec \<Rightarrow> int list" where
  "non_negative_fields s =
     [metadata_bits_per_request s, ecc_bits_per_request s, hbm_link_crc_bits_per_request s,
      hbm_ras_metadata_bits_per_request s, hbm_ecc_bits_per_request s, lpddr_dbi_bits_per_request s,
      lpddr_link_ecc_bits_per_request s, lpddr_ca_parity_bits_per_command s, low_power_entry_cycles s,
      low_power_exit_cycles s, self_refresh_exit_cycles s, refresh_postpone_limit s, refresh_pullin_limit s,
      refresh_credit_limit s]"

definition validate_policies :: "dram_spec \<Rightarrow> unit result" where
  "validate_policies s =
     bindR (check (list_all (\<lambda>v. 0 \<le> v) (non_negative_fields s)) (InvalidArgument ''must be >= 0'')) (\<lambda>_.
     bindR (check (refresh_high_temp_multiplier s > 0)
       (InvalidArgument ''refresh_high_temp_multiplier must be > 0'')) (\<lambda>_.
     bindR (check (\<not> (lpddr_family s \<and> lpddr_wck_ratio s \<le> 0))
       (InvalidArgument ''lpddr_wck_ratio must be > 0'')) (\<lambda>_.
     bindR (check (\<not> (supports_rfm s \<and> (rfm_act_threshold s \<le> 0 \<or> rfm_decrement s \<le> 0)))
       (InvalidArgument ''RFM-enabled models require rfm_act_threshold and rfm_decrement > 0'')) (\<lambda>_.
     check (lpddr_wck_mode s \<noteq> BurstSync)
       (InvalidArgument ''lpddr_wck_mode=burst_sync is reserved and has no executable semantics'')))))"

definition validate_rows :: "dram_spec \<Rightarrow> unit result" where
  "validate_rows s =
     bindR (check (split_activate s \<longrightarrow> nAADMin (timing_of s) > 0)
       (InvalidArgument ''nAADMin must be > 0 for split activate'')) (\<lambda>_.
     bindR (check (split_activate s \<longrightarrow> nAADMax (timing_of s) \<ge> nAADMin (timing_of s))
       (InvalidArgument ''nAADMax must be >= nAADMin for split activate'')) (\<lambda>_.
     bindR (check (\<not> (lpddr_dual_bank_refresh s \<and> (bank_groups (org s) < 2 \<or> bank_groups (org s) mod 2 \<noteq> 0)))
       (InvalidArgument ''LPDDR REFdb adjacent-BG pair table requires an even bank_groups >= 2'')) (\<lambda>_.
     check (\<not> (nRAS (timing_of s) < 0 \<or> nRP (timing_of s) < 0
         \<or> nRC (timing_of s) < nRAS (timing_of s) + nRP (timing_of s)))
       (InvalidArgument ''nRC must be >= nRAS + nRP (non-negative model row timings)''))))"

definition validate_spec :: "dram_spec \<Rightarrow> unit result" where
  "validate_spec s =
     bindR (validate_geometry s) (\<lambda>_. bindR (validate_density s) (\<lambda>_. bindR (validate_clock s) (\<lambda>_.
     bindR (validate_policies s) (\<lambda>_. validate_rows s))))"

section \<open>The tables of timing constraints\<close>

definition tc :: "timing_scope \<Rightarrow> command list \<Rightarrow> command list \<Rightarrow> int \<Rightarrow> string \<Rightarrow> timing_constraint" where
  "tc sc p f l name = \<lparr> tc_scope = sc, preceding = p, following = f, latency = l, window = 0,
     sibling = False, parameter = name \<rparr>"

definition tc_window :: "timing_scope \<Rightarrow> command list \<Rightarrow> command list \<Rightarrow> int \<Rightarrow> string \<Rightarrow> int \<Rightarrow> timing_constraint" where
  "tc_window sc p f l name w = (tc sc p f l name)\<lparr> window := w \<rparr>"

definition tc_sibling :: "timing_scope \<Rightarrow> command list \<Rightarrow> command list \<Rightarrow> int \<Rightarrow> string \<Rightarrow> timing_constraint" where
  "tc_sibling sc p f l name = (tc sc p f l name)\<lparr> sibling := True \<rparr>"

definition make_hbm_constraints :: "timing \<Rightarrow> timing_constraint list" where
  "make_hbm_constraints t =
     (let nccdr = (if nCCDR t > 0 then nCCDR t else nCCDS t);
          nrrefd = (if nRREFD t > 0 then nRREFD t else nRFCpb t) in
     [tc ScopePseudoChannel [RD, RDA] [RD, RDA] (nBL t) ''nBL'',
      tc ScopePseudoChannel [WR, WRA] [WR, WRA] (nBL t) ''nBL'',
      tc ScopePseudoChannel [RD, RDA] [WR, WRA] (nRTW t) ''nRTW'',
      tc ScopePseudoChannel [WR, WRA] [RD, RDA] (nCWL t + nBL t + nWTRS t) ''nCWL+nBL+nWTRS'',
      tc ScopePseudoChannel [ACT] [ACT] (nRRDS t) ''nRRDS'',
      tc_window ScopePseudoChannel [ACT] [ACT] (nFAW t) ''nFAW'' 4,
      tc ScopeSid [RD, RDA] [RD, RDA] (nCCDS t) ''nCCDS'',
      tc_sibling ScopeSid [RD, RDA] [RD, RDA] nccdr ''nCCDR'',
      tc ScopeSid [WR, WRA] [WR, WRA] (nCCDS t) ''nCCDS'',
      tc ScopeBankGroup [RD, RDA] [RD, RDA] (nCCDL t) ''nCCDL'',
      tc ScopeBankGroup [WR, WRA] [WR, WRA] (nCCDL t) ''nCCDL'',
      tc ScopeBankGroup [WR, WRA] [RD, RDA] (nCWL t + nBL t + nWTRL t) ''nCWL+nBL+nWTRL'',
      tc ScopeBankGroup [ACT] [ACT] (nRRDL t) ''nRRDL'',
      tc ScopePseudoChannel [PRE, PREPB, PREAB] [PRE, PREPB, PREAB] (nPPD t) ''nPPD'',
      tc ScopeBank [ACT] [ACT] (nRC t) ''nRC'',
      tc ScopeBank [ACT] [RD, RDA] (nRCDRD t) ''nRCDRD'',
      tc ScopeBank [ACT] [WR, WRA] (nRCDWR t) ''nRCDWR'',
      tc ScopeBank [ACT] [PREPB] (nRAS t) ''nRAS'',
      tc ScopeBank [PREPB] [ACT] (nRP t) ''nRP'',
      tc ScopeBank [RD] [PREPB] (nRTP t) ''nRTP'',
      tc ScopeBank [WR] [PREPB] (nCWL t + nBL t + nWR t) ''nCWL+nBL+nWR'',
      tc ScopeBank [REFPB] [ACT] (nRFCpb t) ''nRFCpb'',
      tc ScopePseudoChannel [REFPB] [ACT] nrrefd ''nRREFD_or_nRFCpb'',
      tc ScopePseudoChannel [REFAB] [ACT, PREPB, REFPB] (nRFC t) ''nRFC'',
      tc ScopeBank [RFMPB] [ACT] (nRFMpb t) ''nRFMpb'',
      tc ScopePseudoChannel [RFMAB] [ACT, PREPB, RFMPB] (nRFMab t) ''nRFMab'',
      tc ScopeChannel [MRW] [ACT, RD, WR, MRW, MRR] (nMRW t) ''nMRW'',
      tc ScopeChannel [MRR] [ACT, RD, WR, MRW, MRR] (nMRR t) ''nMRR'',
      tc ScopeChannel [ECCSCRUB, RASERR] [ACT, REFPB, RFMPB, MRW, MRR] (max (nECCSCRUB t) (nRASERR t))
        ''max(nECCSCRUB,nRASERR)'',
      tc ScopeChannel [RASERR] [RD, WR] (nLINKRETRY t) ''nLINKRETRY''])"

definition make_lpddr_constraints :: "timing \<Rightarrow> timing_constraint list" where
  "make_lpddr_constraints t =
     (let nrefdb2act = (if nREFDB2ACT t > 0 then nREFDB2ACT t else if nRREFD t > 0 then nRREFD t else nRRDS t) in
     [tc ScopeChannel [RD, RDA] [RD, RDA] (nBL t) ''nBL'',
      tc ScopeChannel [WR, WRA] [WR, WRA] (nBL t) ''nBL'',
      tc ScopeBank [CASRD] [RD, RDA] (max 0 (nCAS t)) ''nCAS'',
      tc ScopeBank [CASWR] [WR, WRA] (max 0 (nCAS t)) ''nCAS'',
      tc ScopeRank [RD, RDA] [RD, RDA] (nCCDS t) ''nCCDS'',
      tc ScopeRank [WR, WRA] [WR, WRA] (nCCDS t) ''nCCDS'',
      tc ScopeRank [RD, RDA] [WR, WRA] (nCL t + nBL t + 2 - nCWL t) ''nCL+nBL+2-nCWL'',
      tc ScopeRank [WR, WRA] [RD, RDA] (nCWL t + nBL t + nWTRS t) ''nCWL+nBL+nWTRS'',
      tc ScopeRank [ACT1] [ACT1] (nRRDS t) ''nRRDS'',
      tc_window ScopeRank [ACT1] [ACT1] (nFAW t) ''nFAW'' 4,
      tc ScopeBankGroup [RD, RDA] [RD, RDA] (nCCDL t) ''nCCDL'',
      tc ScopeBankGroup [WR, WRA] [WR, WRA] (nCCDL t) ''nCCDL'',
      tc ScopeBankGroup [WR, WRA] [RD, RDA] (nCWL t + nBL t + nWTRL t) ''nCWL+nBL+nWTRL'',
      tc ScopeBankGroup [ACT1] [ACT1] (nRRDL t) ''nRRDL'',
      tc ScopeChannel [PRE, PREPB, PREAB] [PRE, PREPB, PREAB] (nPPD t) ''nPPD'',
      tc ScopeBank [ACT1] [ACT1] (nRC t) ''nRC'',
      tc ScopeBank [ACT1] [RD, RDA] (nRCDRD t) ''nRCDRD'',
      tc ScopeBank [ACT1] [WR, WRA] (nRCDWR t) ''nRCDWR'',
      tc ScopeBank [ACT1] [PREPB] (nRAS t) ''nRAS'',
      tc ScopeBank [PREPB] [ACT1] (nRP t) ''nRP'',
      tc ScopeBank [PREPB] [REFDB] (nRP t) ''nRP'',
      tc ScopeRank [PREAB] [REFDB] (nRPab t) ''nRPab'',
      tc ScopeBank [RD] [PREPB] (nRTP t) ''nRTP'',
      tc ScopeBank [WR] [PREPB] (nCWL t + nBL t + nWR t) ''nCWL+nBL+nWR'',
      tc ScopeBank [REFPB] [ACT1] (nRFCpb t) ''nRFCpb'',
      tc ScopeBank [REFDB] [ACT1] (nRFCpb t) ''nRFCpb'',
      tc ScopeBank [RFMPB] [ACT1] (if nRFMpb t > 0 then nRFMpb t else nRFCpb t) ''nRFMpb_or_nRFCpb'',
      tc ScopePseudoChannel [REFDB] [ACT1] nrefdb2act ''nREFDB2ACT'',
      tc ScopeBank [REFDB] [REFDB] (nRFCpb t) ''nRFCpb'',
      tc ScopeRank [REFDB] [REFAB] (nRFCpb t) ''nRFCpb'',
      tc ScopeRank [REFAB] [REFDB, REFAB] (nRFC t) ''nRFC'',
      tc ScopePseudoChannel [RFMPB] [ACT1] nrefdb2act ''nREFDB2ACT'',
      tc ScopePseudoChannel [RFMPB] [RFMPB] (nRRDL t) ''nRRDL'',
      tc ScopeRank [REFAB] [ACT1, PREAB] (nRFC t) ''nRFC'',
      tc ScopeRank [RFMAB] [ACT1, PREAB, RFMPB] (if nRFMab t > 0 then nRFMab t else nRFC t) ''nRFMab_or_nRFC'',
      tc ScopeChannel [MRW] [ACT1, CASRD, CASWR, MRW, MRR] (nMRW t) ''nMRW'',
      tc ScopeChannel [MRR] [ACT1, CASRD, CASWR, MRW, MRR] (nMRR t) ''nMRR'',
      tc ScopePseudoChannel [WCKSYNC] [RD, WR] (nWCKSYNC t) ''nWCKSYNC'',
      tc ScopeChannel [WCKTRAIN] [ACT1, CASRD, CASWR] (nWCKTRAIN t) ''nWCKTRAIN'',
      tc ScopeChannel [DVFS] [ACT1, CASRD, CASWR, MRW] (nDVFS t) ''nDVFS'',
      tc ScopeChannel [PDE, PDX] [ACT1, CASRD, CASWR] (nPDEX t) ''nPDEX'',
      tc ScopeChannel [SREFEN, SREFEX] [ACT1, REFDB, RFMPB] (nSREFEX t) ''nSREFEX'',
      tc ScopeChannel [ECCSCRUB, RASERR] [ACT1, REFDB, RFMPB, CASRD, CASWR] (max (nECCSCRUB t) (nRASERR t))
        ''max(nECCSCRUB,nRASERR)''])"

text \<open>\<^verbatim>\<open>finalize_spec\<close> without the rebuilding of the audit table.\<close>

definition finalize_spec :: "dram_spec \<Rightarrow> dram_spec result" where
  "finalize_spec s =
     bindR (validate_spec s) (\<lambda>_.
       Inr (s\<lparr> timing_constraints :=
         (if lpddr_family s then make_lpddr_constraints (timing_of s) else make_hbm_constraints (timing_of s)) \<rparr>))"

section \<open>Delays\<close>

text \<open>
  \<^verbatim>\<open>timing_delay\<close>, which \<^verbatim>\<open>TimingEngine\<close>, \<^verbatim>\<open>CommandExecutor\<close> and \<^verbatim>\<open>RefreshManager\<close> define
  alike: a latency in clock cycles as controller ticks.
\<close>

definition timing_delay :: "dram_spec \<Rightarrow> int \<Rightarrow> nat" where
  "timing_delay s cycles = (if cycles \<le> 0 then 0 else nat cycles * nat (max 1 (tick_multiplier s)))"

lemma timing_delay_mono: "a \<le> b \<Longrightarrow> timing_delay s a \<le> timing_delay s b"
  by (auto simp: timing_delay_def intro: mult_right_mono nat_mono)

section \<open>What validation guarantees\<close>

lemma validate_geometryD:
  assumes "validate_geometry s = Inr ()"
  shows "channels (org s) > 0" "pseudo_channels (org s) > 0" "sids (org s) > 0" "ranks (org s) > 0"
    "bank_groups (org s) > 0" "banks_per_group (org s) > 0" "org_rows (org s) > 0" "org_columns (org s) > 0"
    "line_size (org s) > 0" "tick_multiplier s > 0"
  using assms by (auto simp: validate_geometry_def bindR_eq_Inr)

lemma validate_specD:
  assumes "validate_spec s = Inr ()"
  shows "validate_geometry s = Inr ()" "validate_density s = Inr ()" "validate_clock s = Inr ()"
    "validate_policies s = Inr ()" "validate_rows s = Inr ()"
  using assms by (auto simp: validate_spec_def bindR_eq_Inr)

lemmas valid_dims = validate_geometryD [OF validate_specD(1)]

lemma checked_product_loop_ok:
  "checked_product_loop fs r = Inr n \<Longrightarrow>
   n = r * prod_list (map nat fs) \<and> (\<forall>f\<in>set fs. 0 < f) \<and> (r \<le> u64_max \<longrightarrow> n \<le> u64_max)"
proof (induction fs arbitrary: r)
  case (Cons f fs)
  then have f: "0 < f" "r \<le> u64_max div nat f" and *: "checked_product_loop fs (r * nat f) = Inr n"
    by (auto split: if_splits)
  have "r * nat f \<le> u64_max div nat f * nat f" using f by simp
  also have "\<dots> \<le> u64_max" by (metis div_times_less_eq_dividend)
  finally have "r * nat f \<le> u64_max" .
  with Cons.IH [OF *] f show ?case by (simp add: mult.assoc)
qed simp

lemma checked_product_ok:
  assumes "checked_product fs = Inr n"
  shows "n = prod_list (map nat fs)" "\<forall>f\<in>set fs. 0 < f" "n \<le> u64_max"
  using checked_product_loop_ok [of fs 1 n] assms by (auto simp: checked_product_def u64_max_def)

lemma checked_product_complete:
  "(\<forall>f\<in>set fs. 0 < f) \<Longrightarrow> r * prod_list (map nat fs) \<le> u64_max \<Longrightarrow>
   checked_product_loop fs r = Inr (r * prod_list (map nat fs))"
proof (induction fs arbitrary: r)
  case (Cons f fs)
  then have f: "0 < f" by simp
  from Cons.prems(1) have pos: "0 < prod_list (map nat fs)" by (induction fs) auto
  have "r * nat f \<le> r * nat f * prod_list (map nat fs)" using pos by simp
  also have "\<dots> \<le> u64_max" using Cons.prems(2) by (simp add: mult.assoc)
  finally have "r \<le> u64_max div nat f" using f by (simp add: less_eq_div_iff_mult_less_eq)
  with f Cons.IH [of "r * nat f"] Cons.prems show ?case by (simp add: mult.assoc)
qed simp

end
