(* ===== verification/Mem_Address.thy ===== *)
theory Mem_Address
  imports Mem_Types
begin

text \<open>
  Address mapping of the memory simulator (\<^verbatim>\<open>core/addr_map.hpp\<close>, \<^verbatim>\<open>core/addr_map.cpp\<close>): the split of
  a system address over the stacks and the decoding of a stack-local address into channel,
  pseudo-channel, SID, rank, bank group, bank, row and column. The lemmas show that both splits
  are bijections on the addressable range and that the flattened bank number identifies the bank.
\<close>

section \<open>Decoded addresses\<close>

record decoded_address =
  da_channel :: int
  da_pseudo_channel :: int
  da_sid :: int
  da_rank :: int
  da_bank_group :: int
  da_bank :: int
  da_row :: int
  da_column :: int

definition decoded_zero :: decoded_address where
  "decoded_zero = \<lparr> da_channel = 0, da_pseudo_channel = 0, da_sid = 0, da_rank = 0, da_bank_group = 0,
     da_bank = 0, da_row = 0, da_column = 0 \<rparr>"

definition flat_bank :: "dram_spec \<Rightarrow> decoded_address \<Rightarrow> int" where
  "flat_bank s d =
     (let x = da_channel d;
          x = x * pseudo_channels (org s) + da_pseudo_channel d;
          x = x * sids (org s) + da_sid d;
          x = x * ranks (org s) + da_rank d;
          x = x * bank_groups (org s) + da_bank_group d;
          x = x * banks_per_group (org s) + da_bank d
      in x)"

definition take_mod :: "nat \<Rightarrow> int \<Rightarrow> int \<times> nat" where
  "take_mod v m = (let safe = nat (max 1 m) in (int (v mod safe), v div safe))"

definition apply_lpddr_efficiency :: "dram_spec \<Rightarrow> decoded_address \<Rightarrow> decoded_address" where
  "apply_lpddr_efficiency s d =
     (if lpddr_family s \<and> lpddr_efficiency_mode s \<noteq> EffNormal then d\<lparr> da_pseudo_channel := 0 \<rparr> else d)"

definition take_bank_composite :: "dram_spec \<Rightarrow> nat \<Rightarrow> decoded_address \<Rightarrow> decoded_address \<times> nat" where
  "take_bank_composite s line d =
     (let (b, line) = take_mod line (banks_per_group (org s));
          (g, line) = take_mod line (bank_groups (org s));
          (p, line) = take_mod line (pseudo_channels (org s));
          (i, line) = take_mod line (sids (org s))
      in (d\<lparr> da_bank := b, da_bank_group := g, da_pseudo_channel := p, da_sid := i \<rparr>, line))"

definition decode_line :: "dram_spec \<Rightarrow> nat \<Rightarrow> decoded_address" where
  "decode_line s line =
     (case address_mapping s of
        MapDefault \<Rightarrow>
          (let (c, line) = take_mod line (org_columns (org s));
               (d, line) = take_bank_composite s line (decoded_zero\<lparr> da_column := c \<rparr>);
               (r, line) = take_mod line (ranks (org s));
               (h, line) = take_mod line (channels (org s));
               (w, line) = take_mod line (org_rows (org s))
           in d\<lparr> da_rank := r, da_channel := h, da_row := w \<rparr>)
      | RoBaRaCoCh \<Rightarrow>
          (let (h, line) = take_mod line (channels (org s));
               (c, line) = take_mod line (org_columns (org s));
               (r, line) = take_mod line (ranks (org s));
               (d, line) = take_bank_composite s line
                 (decoded_zero\<lparr> da_channel := h, da_column := c, da_rank := r \<rparr>);
               (w, line) = take_mod line (org_rows (org s))
           in d\<lparr> da_row := w \<rparr>)
      | ChRaBaRoCo \<Rightarrow>
          (let (c, line) = take_mod line (org_columns (org s));
               (w, line) = take_mod line (org_rows (org s));
               (d, line) = take_bank_composite s line (decoded_zero\<lparr> da_column := c, da_row := w \<rparr>);
               (r, line) = take_mod line (ranks (org s));
               (h, line) = take_mod line (channels (org s))
           in d\<lparr> da_rank := r, da_channel := h \<rparr>)
      | RoCoRaBaCh \<Rightarrow>
          (let (h, line) = take_mod line (channels (org s));
               (d, line) = take_bank_composite s line (decoded_zero\<lparr> da_channel := h \<rparr>);
               (r, line) = take_mod line (ranks (org s));
               (c, line) = take_mod line (org_columns (org s));
               (w, line) = take_mod line (org_rows (org s))
           in d\<lparr> da_rank := r, da_column := c, da_row := w \<rparr>))"

definition decode_address :: "dram_spec \<Rightarrow> nat \<Rightarrow> decoded_address" where
  "decode_address s address =
     apply_lpddr_efficiency s (decode_line s (address div nat (max 1 (transaction_bytes s))))"

text \<open>The constructor \<^verbatim>\<open>AddressMapper(DramSpec)\<close> validates its specification first.\<close>

definition address_mapper :: "dram_spec \<Rightarrow> dram_spec result" where
  "address_mapper s = bindR (validate_spec s) (\<lambda>_. Inr s)"

section \<open>Stack routing\<close>

datatype stack_mapping_kind = Interleaved | Blocked

record stack_mapper =
  stack_count :: int
  interleave_bytes :: nat
  stack_capacity_bytes :: nat
  stack_kind :: stack_mapping_kind

definition checked_multiply :: "nat \<Rightarrow> nat \<Rightarrow> nat result" where
  "checked_multiply a b = (if a \<noteq> 0 \<and> u64_max div a < b then Inl (OverflowError ''exceeds Address space'') else Inr (a * b))"

definition checked_add :: "nat \<Rightarrow> nat \<Rightarrow> nat result" where
  "checked_add a b = (if u64_max - a < b then Inl (OverflowError ''exceeds Address space'') else Inr (a + b))"

definition make_stack_mapper :: "int \<Rightarrow> nat \<Rightarrow> nat \<Rightarrow> stack_mapping_kind \<Rightarrow> stack_mapper result" where
  "make_stack_mapper n ilv cap k =
     bindR (check (0 < n) (InvalidArgument ''stack_count must be positive'')) (\<lambda>_.
     bindR (check (ilv \<noteq> 0) (InvalidArgument ''stack_interleave_bytes must be positive'')) (\<lambda>_.
     bindR (check (\<not> (k = Blocked \<and> cap = 0))
       (InvalidArgument ''blocked stack mapping requires non-zero stack capacity'')) (\<lambda>_.
     Inr \<lparr> stack_count = n, interleave_bytes = ilv, stack_capacity_bytes = cap, stack_kind = k \<rparr>)))"

definition decode_stack :: "stack_mapper \<Rightarrow> nat \<Rightarrow> (int \<times> nat) result" where
  "decode_stack m a =
     (if stack_count m = 1 then
        (if stack_capacity_bytes m \<noteq> 0 \<and> stack_capacity_bytes m \<le> a
         then Inl (OutOfRange ''system address exceeds stack capacity'') else Inr (0, a))
      else if stack_kind m = Blocked then
        (if nat (stack_count m) \<le> a div stack_capacity_bytes m
         then Inl (OutOfRange ''system address exceeds aggregate multi-stack capacity'')
         else Inr (int (a div stack_capacity_bytes m), a mod stack_capacity_bytes m))
      else
        let stripe = a div interleave_bytes m; offset = a mod interleave_bytes m in
        bindR (checked_multiply (stripe div nat (stack_count m)) (interleave_bytes m)) (\<lambda>b.
        bindR (checked_add b offset) (\<lambda>loc.
          if stack_capacity_bytes m \<noteq> 0 \<and> stack_capacity_bytes m \<le> loc
          then Inl (OutOfRange ''system address exceeds aggregate multi-stack capacity'')
          else Inr (int (stripe mod nat (stack_count m)), loc))))"

definition encode_stack :: "stack_mapper \<Rightarrow> int \<Rightarrow> nat \<Rightarrow> nat result" where
  "encode_stack m st loc =
     (if st < 0 \<or> stack_count m \<le> st then Inl (OutOfRange ''stack_id out of range'')
      else if stack_capacity_bytes m \<noteq> 0 \<and> stack_capacity_bytes m \<le> loc
      then Inl (OutOfRange ''local address exceeds stack capacity'')
      else if stack_count m = 1 then Inr loc
      else if stack_kind m = Blocked then
        (if stack_capacity_bytes m \<le> loc then Inl (OutOfRange ''local address exceeds stack capacity'')
         else bindR (checked_multiply (nat st) (stack_capacity_bytes m)) (\<lambda>b. checked_add b loc))
      else
        bindR (checked_multiply (loc div interleave_bytes m) (nat (stack_count m))) (\<lambda>b.
        bindR (checked_add b (nat st)) (\<lambda>stripe.
        bindR (checked_multiply stripe (interleave_bytes m)) (\<lambda>c.
          checked_add c (loc mod interleave_bytes m)))))"

section \<open>Decoding is a bijection\<close>

text \<open>The coordinates of the organisation, and the inverse of the decoder: a mixed-radix number.\<close>

definition coordinates :: "dram_spec \<Rightarrow> decoded_address set" where
  "coordinates s = {d. da_channel d \<in> {0..<channels (org s)} \<and> da_pseudo_channel d \<in> {0..<pseudo_channels (org s)}
     \<and> da_sid d \<in> {0..<sids (org s)} \<and> da_rank d \<in> {0..<ranks (org s)}
     \<and> da_bank_group d \<in> {0..<bank_groups (org s)} \<and> da_bank d \<in> {0..<banks_per_group (org s)}
     \<and> da_row d \<in> {0..<org_rows (org s)} \<and> da_column d \<in> {0..<org_columns (org s)}}"

definition mix :: "int \<Rightarrow> int \<Rightarrow> nat \<Rightarrow> nat" where
  "mix m c k = nat c + nat m * k"

definition mix_bank :: "dram_spec \<Rightarrow> decoded_address \<Rightarrow> nat \<Rightarrow> nat" where
  "mix_bank s d k = mix (banks_per_group (org s)) (da_bank d) (mix (bank_groups (org s)) (da_bank_group d)
     (mix (pseudo_channels (org s)) (da_pseudo_channel d) (mix (sids (org s)) (da_sid d) k)))"

definition encode_line :: "dram_spec \<Rightarrow> decoded_address \<Rightarrow> nat" where
  "encode_line s d =
     (let C = mix (org_columns (org s)) (da_column d); R = mix (ranks (org s)) (da_rank d);
          H = mix (channels (org s)) (da_channel d); W = mix (org_rows (org s)) (da_row d); B = mix_bank s d in
      case address_mapping s of
        MapDefault \<Rightarrow> C (B (R (H (W 0))))
      | RoBaRaCoCh \<Rightarrow> H (C (R (B (W 0))))
      | ChRaBaRoCo \<Rightarrow> C (W (B (R (H 0))))
      | RoCoRaBaCh \<Rightarrow> H (B (R (C (W 0)))))"

lemma take_mod_mix [simp]: "0 \<le> c \<Longrightarrow> c < m \<Longrightarrow> take_mod (mix m c k) m = (c, k)"
  by (simp add: take_mod_def mix_def nat_less_iff)

lemma mix_take_mod [simp]: "0 < m \<Longrightarrow> mix m (fst (take_mod v m)) (snd (take_mod v m)) = v"
  by (simp add: take_mod_def mix_def Let_def add.commute)

lemma mix_last [simp]: "0 < m \<Longrightarrow> v < nat m \<Longrightarrow> mix m (fst (take_mod v m)) 0 = v"
  by (simp add: take_mod_def mix_def)

lemma fst_take_mod_range [simp]:
  "0 < m \<Longrightarrow> 0 \<le> fst (take_mod v m)" "0 < m \<Longrightarrow> fst (take_mod v m) < m"
  by (auto simp: take_mod_def Let_def) (metis mod_less_divisor zero_less_nat_eq int_nat_eq less_imp_le of_nat_less_iff)

lemma mix_less: "0 \<le> c \<Longrightarrow> c < m \<Longrightarrow> k < n \<Longrightarrow> mix m c k < nat m * n"
proof -
  assume "0 \<le> c" "c < m" "k < n"
  then have "nat c + nat m * k < nat m * (k + 1)" by simp
  also have "\<dots> \<le> nat m * n" using \<open>k < n\<close> by (intro mult_left_mono) auto
  finally show ?thesis by (simp add: mix_def)
qed

lemma snd_take_mod_less: "0 < m \<Longrightarrow> v < nat m * n \<Longrightarrow> snd (take_mod v m) < n"
  by (simp add: take_mod_def Let_def less_mult_imp_div_less mult.commute)

definition total_lines :: "dram_spec \<Rightarrow> nat" where
  "total_lines s = nat (channels (org s)) * nat (pseudo_channels (org s)) * nat (sids (org s)) * nat (ranks (org s))
     * nat (bank_groups (org s)) * nat (banks_per_group (org s)) * nat (org_rows (org s)) * nat (org_columns (org s))"

text \<open>Positive dimensions, the part of \<^verbatim>\<open>validate_spec\<close> the mapper relies on.\<close>

definition positive_dims :: "dram_spec \<Rightarrow> bool" where
  "positive_dims s \<longleftrightarrow> 0 < channels (org s) \<and> 0 < pseudo_channels (org s) \<and> 0 < sids (org s) \<and> 0 < ranks (org s)
     \<and> 0 < bank_groups (org s) \<and> 0 < banks_per_group (org s) \<and> 0 < org_rows (org s) \<and> 0 < org_columns (org s)"

lemma valid_positive_dims: "validate_spec s = Inr () \<Longrightarrow> positive_dims s"
  using valid_dims by (simp add: positive_dims_def)

lemma total_addressable_ok:
  "total_addressable_transactions s = Inr n \<Longrightarrow> n = total_lines s"
  using checked_product_ok(1) by (force simp: total_addressable_transactions_def total_lines_def mult.assoc)

lemma decode_encode_line: "d \<in> coordinates s \<Longrightarrow> decode_line s (encode_line s d) = d"
  by (cases "address_mapping s")
    (auto simp: coordinates_def encode_line_def decode_line_def take_bank_composite_def mix_bank_def decoded_zero_def)

lemma decode_line_coordinates: "positive_dims s \<Longrightarrow> decode_line s l \<in> coordinates s"
  by (cases "address_mapping s")
    (auto simp: positive_dims_def coordinates_def decode_line_def take_bank_composite_def decoded_zero_def
      split_def Let_def)

text \<open>The quotient left after seven fields is a digit of the eighth.\<close>

lemma last_quotient:
  assumes "0 < a" "0 < b" "0 < c" "0 < d" "0 < e" "0 < f" "0 < g"
    and "l < nat a * (nat b * (nat c * (nat d * (nat e * (nat f * (nat g * h))))))"
  shows "snd (take_mod (snd (take_mod (snd (take_mod (snd (take_mod (snd (take_mod (snd (take_mod
     (snd (take_mod l a)) b)) c)) d)) e)) f)) g) < h"
  using assms by (intro snd_take_mod_less) auto

lemma encode_decode_line:
  assumes dims: "positive_dims s" and l: "l < total_lines s"
  shows "encode_line s (decode_line s l) = l"
proof (cases "address_mapping s")
  case MapDefault
  have "l < nat (org_columns (org s)) * (nat (banks_per_group (org s)) * (nat (bank_groups (org s)) *
    (nat (pseudo_channels (org s)) * (nat (sids (org s)) * (nat (ranks (org s)) *
    (nat (channels (org s)) * nat (org_rows (org s))))))))"
    using l by (simp add: total_lines_def ac_simps)
  from last_quotient [OF _ _ _ _ _ _ _ this] dims MapDefault show ?thesis
    by (simp add: positive_dims_def encode_line_def decode_line_def take_bank_composite_def mix_bank_def
      decoded_zero_def split_def Let_def)
next
  case RoBaRaCoCh
  have "l < nat (channels (org s)) * (nat (org_columns (org s)) * (nat (ranks (org s)) *
    (nat (banks_per_group (org s)) * (nat (bank_groups (org s)) * (nat (pseudo_channels (org s)) *
    (nat (sids (org s)) * nat (org_rows (org s))))))))"
    using l by (simp add: total_lines_def ac_simps)
  from last_quotient [OF _ _ _ _ _ _ _ this] dims RoBaRaCoCh show ?thesis
    by (simp add: positive_dims_def encode_line_def decode_line_def take_bank_composite_def mix_bank_def
      decoded_zero_def split_def Let_def)
next
  case ChRaBaRoCo
  have "l < nat (org_columns (org s)) * (nat (org_rows (org s)) * (nat (banks_per_group (org s)) *
    (nat (bank_groups (org s)) * (nat (pseudo_channels (org s)) * (nat (sids (org s)) *
    (nat (ranks (org s)) * nat (channels (org s))))))))"
    using l by (simp add: total_lines_def ac_simps)
  from last_quotient [OF _ _ _ _ _ _ _ this] dims ChRaBaRoCo show ?thesis
    by (simp add: positive_dims_def encode_line_def decode_line_def take_bank_composite_def mix_bank_def
      decoded_zero_def split_def Let_def)
next
  case RoCoRaBaCh
  have "l < nat (channels (org s)) * (nat (banks_per_group (org s)) * (nat (bank_groups (org s)) *
    (nat (pseudo_channels (org s)) * (nat (sids (org s)) * (nat (ranks (org s)) *
    (nat (org_columns (org s)) * nat (org_rows (org s))))))))"
    using l by (simp add: total_lines_def ac_simps)
  from last_quotient [OF _ _ _ _ _ _ _ this] dims RoCoRaBaCh show ?thesis
    by (simp add: positive_dims_def encode_line_def decode_line_def take_bank_composite_def mix_bank_def
      decoded_zero_def split_def Let_def)
qed

lemma decode_line_inj: "positive_dims s \<Longrightarrow> inj_on (decode_line s) {..<total_lines s}"
  by (rule inj_on_inverseI [of _ "encode_line s"]) (simp add: encode_decode_line)

text \<open>
  The encoding stays below the number of transactions: the decoder maps onto the coordinates.
\<close>

lemma encode_line_less: "d \<in> coordinates s \<Longrightarrow> encode_line s d < total_lines s"
proof (cases "address_mapping s")
  assume d: "d \<in> coordinates s" and "address_mapping s = MapDefault"
  then have "encode_line s d < nat (org_columns (org s)) * (nat (banks_per_group (org s)) * (nat (bank_groups (org s)) *
    (nat (pseudo_channels (org s)) * (nat (sids (org s)) * (nat (ranks (org s)) *
    (nat (channels (org s)) * (nat (org_rows (org s)) * 1)))))))"
    by (simp only: encode_line_def mix_bank_def Let_def address_mapping_kind.case, intro mix_less)
      (auto simp: coordinates_def)
  then show ?thesis by (simp add: total_lines_def ac_simps)
next
  assume d: "d \<in> coordinates s" and "address_mapping s = RoBaRaCoCh"
  then have "encode_line s d < nat (channels (org s)) * (nat (org_columns (org s)) * (nat (ranks (org s)) *
    (nat (banks_per_group (org s)) * (nat (bank_groups (org s)) * (nat (pseudo_channels (org s)) *
    (nat (sids (org s)) * (nat (org_rows (org s)) * 1)))))))"
    by (simp only: encode_line_def mix_bank_def Let_def address_mapping_kind.case, intro mix_less)
      (auto simp: coordinates_def)
  then show ?thesis by (simp add: total_lines_def ac_simps)
next
  assume d: "d \<in> coordinates s" and "address_mapping s = ChRaBaRoCo"
  then have "encode_line s d < nat (org_columns (org s)) * (nat (org_rows (org s)) * (nat (banks_per_group (org s)) *
    (nat (bank_groups (org s)) * (nat (pseudo_channels (org s)) * (nat (sids (org s)) *
    (nat (ranks (org s)) * (nat (channels (org s)) * 1)))))))"
    by (simp only: encode_line_def mix_bank_def Let_def address_mapping_kind.case, intro mix_less)
      (auto simp: coordinates_def)
  then show ?thesis by (simp add: total_lines_def ac_simps)
next
  assume d: "d \<in> coordinates s" and "address_mapping s = RoCoRaBaCh"
  then have "encode_line s d < nat (channels (org s)) * (nat (banks_per_group (org s)) * (nat (bank_groups (org s)) *
    (nat (pseudo_channels (org s)) * (nat (sids (org s)) * (nat (ranks (org s)) *
    (nat (org_columns (org s)) * (nat (org_rows (org s)) * 1)))))))"
    by (simp only: encode_line_def mix_bank_def Let_def address_mapping_kind.case, intro mix_less)
      (auto simp: coordinates_def)
  then show ?thesis by (simp add: total_lines_def ac_simps)
qed

section \<open>The flattened bank number\<close>

definition same_bank :: "decoded_address \<Rightarrow> decoded_address \<Rightarrow> bool" where
  "same_bank d e \<longleftrightarrow> da_channel d = da_channel e \<and> da_pseudo_channel d = da_pseudo_channel e
     \<and> da_sid d = da_sid e \<and> da_rank d = da_rank e \<and> da_bank_group d = da_bank_group e \<and> da_bank d = da_bank e"

lemma horner_eq:
  fixes x y m c d :: int
  assumes "0 \<le> c" "c < m" "0 \<le> d" "d < m"
  shows "x * m + c = y * m + d \<longleftrightarrow> x = y \<and> c = d"
proof
  assume eq: "x * m + c = y * m + d"
  from assms have "(x * m + c) div m = x" "(y * m + d) div m = y" by simp_all
  with eq show "x = y \<and> c = d" by simp
qed simp

lemma horner_range:
  fixes x m n c :: int
  assumes "0 \<le> x \<and> x < n" "0 \<le> c \<and> c < m"
  shows "0 \<le> x * m + c \<and> x * m + c < n * m"
proof -
  have "(x + 1) * m \<le> n * m" using assms by (intro mult_right_mono) auto
  then show ?thesis using assms by (simp add: algebra_simps)
qed

lemma flat_bank_eq_iff:
  assumes "d \<in> coordinates s" "e \<in> coordinates s"
  shows "flat_bank s d = flat_bank s e \<longleftrightarrow> same_bank d e"
  using assms by (auto simp: flat_bank_def Let_def coordinates_def same_bank_def horner_eq)

definition bank_total :: "dram_spec \<Rightarrow> int" where
  "bank_total s = channels (org s) * pseudo_channels (org s) * sids (org s) * ranks (org s) * bank_groups (org s)
     * banks_per_group (org s)"

lemma flat_bank_range:
  assumes "d \<in> coordinates s"
  shows "0 \<le> flat_bank s d \<and> flat_bank s d < bank_total s"
  unfolding flat_bank_def Let_def bank_total_def
  by (intro horner_range; use assms in \<open>simp add: coordinates_def\<close>)

lemma total_banks_ok:
  assumes "total_banks s = Inr n"
  shows "n = bank_total s"
proof -
  from assms obtain c where c: "checked_product [channels (org s), pseudo_channels (org s), sids (org s),
      ranks (org s), bank_groups (org s), banks_per_group (org s)] = Inr c" and n: "n = int c"
    by (auto simp: total_banks_def bindR_eq_Inr split: if_splits)
  from checked_product_ok(1,2) [OF c] show ?thesis by (simp add: n bank_total_def mult.assoc)
qed

section \<open>Properties of the address mapper\<close>

lemma decode_address_line:
  assumes "0 < tb" "nat (transaction_bytes s) = tb" "lpddr_family s \<longrightarrow> lpddr_efficiency_mode s = EffNormal"
  shows "decode_address s (l * tb + r mod tb) = decode_line s l"
proof -
  have "nat (max 1 (transaction_bytes s)) = tb" using assms by auto
  then show ?thesis using assms by (auto simp: decode_address_def apply_lpddr_efficiency_def)
qed

lemma transaction_bytes_pos [simp]: "0 < transaction_bytes s"
  by (auto simp: transaction_bytes_def max_def)

lemma max_transaction_bytes [simp]: "max 1 (transaction_bytes s) = transaction_bytes s"
  using transaction_bytes_pos [of s] by (simp add: max_def del: transaction_bytes_pos)

text \<open>C18. Outside the LPDDR efficiency modes the address mapper of a valid specification is a
  bijection: every coordinate of the organisation is the image of exactly one transaction of the
  addressable range, under each of the four mapping templates, and all bytes of a transaction share
  its coordinate.\<close>

theorem decode_address_bijective:
  assumes valid: "validate_spec s = Inr ()" and n: "total_addressable_transactions s = Inr n"
    and eff: "lpddr_family s \<longrightarrow> lpddr_efficiency_mode s = EffNormal"
  shows "bij_betw (\<lambda>l. decode_address s (l * nat (transaction_bytes s))) {..<n} (coordinates s)
    \<and> (\<forall>l r. decode_address s (l * nat (transaction_bytes s) + r mod nat (transaction_bytes s))
         = decode_address s (l * nat (transaction_bytes s)))"
proof
  have dims: "positive_dims s" using valid by (rule valid_positive_dims)
  have line: "decode_address s (l * nat (transaction_bytes s) + r mod nat (transaction_bytes s)) = decode_line s l" for l r
    using eff by (intro decode_address_line) auto
  from this [of _ 0] have line0: "decode_address s (l * nat (transaction_bytes s)) = decode_line s l" for l by simp
  show "bij_betw (\<lambda>l. decode_address s (l * nat (transaction_bytes s))) {..<n} (coordinates s)"
    unfolding line0 total_addressable_ok [OF n]
    by (rule bij_betw_byWitness [where f' = "encode_line s"])
      (auto simp: encode_decode_line [OF dims] decode_encode_line encode_line_less decode_line_coordinates [OF dims])
  show "\<forall>l r. decode_address s (l * nat (transaction_bytes s) + r mod nat (transaction_bytes s))
      = decode_address s (l * nat (transaction_bytes s))"
    by (simp add: line line0)
qed

text \<open>A small HBM device with two pseudo-channels: 2 GiB in a stack of height four.\<close>

definition sample_org :: organization where
  "sample_org = \<lparr> channels = 1, pseudo_channels = 2, sids = 1, ranks = 1, bank_groups = 4, banks_per_group = 4,
     org_rows = 32768, org_columns = 64, line_size = 64, dram_transaction_bytes = 32 \<rparr>"

definition sample_timing :: timing where
  "sample_timing = \<lparr> nBL = 2, nCL = 20, nCWL = 10, nRCDRD = 20, nRCDWR = 14, nRP = 20, nRAS = 42, nRC = 62,
     nRTP = 8, nWR = 18, nCCDS = 2, nCCDL = 4, nRRDS = 4, nRRDL = 6, nFAW = 16, nAADMin = 1, nAADMax = 8,
     nWCK2CK = 1, nWCKPST = 8, nCAS = 0, nCS = 2, nPPD = 2, nRPab = 20, nWTRS = 8, nWTRL = 12, nRTW = 16, nCCDR = 2,
     nRFC = 350, nRFCpb = 200, nRFMab = 350, nRFMpb = 200, nRREFD = 8, nREFDB2ACT = 0, nREFDB2REFDBS = 0,
     nREFDB2REFDBL = 0, nREFI = 6240, nREFIpb = 195, nMRW = 8, nMRR = 8, nWCKSYNC = 8, nWCKTRAIN = 64, nDVFS = 128,
     nPDEX = 8, nSREFEX = 256, nECCSCRUB = 64, nRASERR = 64, nLINKRETRY = 16, tCK_ps = 625 \<rparr>"

definition sample_hbm :: dram_spec where
  "sample_hbm = \<lparr> standard = Hbm3, org = sample_org, timing_of = sample_timing, speed_bin_mbps = 6400,
     density_gb = 4, density_reference_channels = 0, stack_height = 4, split_activate = False, lpddr_family = False, dual_command_bus = True,
     data_rate_mbps = 6400, data_bus_bits = 128, internal_prefetch_size = 8, dfi_read_latency_nck = 0,
     dfi_write_latency_nck = 0, tick_multiplier = 1, supports_refresh = True, refresh_policy = PerBank,
     lpddr_dual_bank_refresh = False, supports_rfm = True, rfm_policy = PerBank, supports_ecc = False, hbm_edge_pairing = False,
     hbm_strict_edge_pairing = True, hbm_link_retry_enabled = False,
     hbm_link_crc_bits_per_request = 0, hbm_ras_metadata_bits_per_request = 0, hbm_ecc_bits_per_request = 0,
     rfm_act_threshold = 4, rfm_decrement = 4, lpddr_efficiency_mode = EffNormal, lpddr_dvfs_mode = DvfsNominal,
     lpddr_wck_mode = CasSync, lpddr_wck_ratio = 4, lpddr_wck_training_mode = ''startup_only'',
     lpddr_wck_training_required = True, lpddr_ca_parity_enabled = False, lpddr_link_protection = False,
     lpddr_link_ecc_enabled = False, lpddr_dbi_bits_per_request = 0,
     lpddr_link_ecc_bits_per_request = 0, lpddr_ca_parity_bits_per_command = 1, low_power_mode = LowPowerOff, low_power_entry_cycles = 0,
     low_power_exit_cycles = 0, self_refresh_exit_cycles = 0, refresh_postpone_limit = 2, refresh_pullin_limit = 2,
     refresh_credit_limit = 4, refresh_temperature_mode = TempNormal, refresh_high_temp_multiplier = 2,
     address_mapping = RoBaRaCoCh, metadata_bits_per_request = 0, ecc_bits_per_request = 0,
     timing_constraints = make_hbm_constraints sample_timing, activation_scope = ScopePseudoChannel,
     row_bus_scope = ScopePseudoChannel, column_bus_scope = ScopePseudoChannel, wck_scope = ScopePseudoChannel \<rparr>"

lemmas validate_defs = validate_spec_def validate_geometry_def validate_density_def validate_clock_def
  validate_policies_def validate_rows_def non_negative_fields_def addressable_capacity_bytes_def
  total_addressable_transactions_def checked_product_def density_gbit_from_geometry_def transaction_bytes_def u64_max_def

lemma sample_hbm_valid: "validate_spec sample_hbm = Inr ()"
  by (simp add: validate_defs sample_hbm_def sample_org_def sample_timing_def)

lemma sample_hbm_transactions: "total_addressable_transactions sample_hbm = Inr 67108864"
  by (simp add: validate_defs sample_hbm_def sample_org_def)

lemma decode_address_bijective_witness:
  "bij_betw (\<lambda>l. decode_address sample_hbm (l * nat (transaction_bytes sample_hbm))) {..<67108864} (coordinates sample_hbm)"
  using decode_address_bijective [OF sample_hbm_valid sample_hbm_transactions] by (simp add: sample_hbm_def)

text \<open>
  In the efficiency modes the decoder still consumes the pseudo-channel digit of the address but
  then forces the field to zero, so two different transactions get the same coordinates (the
  storage key of the data is computed from them).
\<close>

theorem efficiency_mode_aliases:
  assumes valid: "validate_spec s = Inr ()" and mode: "lpddr_family s" "lpddr_efficiency_mode s \<noteq> EffNormal"
    and pc: "1 < pseudo_channels (org s)"
  shows "\<exists>k l. k < total_lines s \<and> l < total_lines s \<and> k \<noteq> l
    \<and> decode_address s (k * nat (transaction_bytes s)) = decode_address s (l * nat (transaction_bytes s))"
proof (intro exI conjI)
  have dims: "positive_dims s" using valid by (rule valid_positive_dims)
  let ?d = "decoded_zero\<lparr> da_pseudo_channel := 1 \<rparr>"
  have d: "decoded_zero \<in> coordinates s" "?d \<in> coordinates s"
    using dims pc by (auto simp: positive_dims_def coordinates_def decoded_zero_def)
  show "encode_line s decoded_zero < total_lines s" "encode_line s ?d < total_lines s"
    using d by (auto intro: encode_line_less)
  have "decoded_zero \<noteq> ?d" by (simp add: decoded_zero_def)
  then show "encode_line s decoded_zero \<noteq> encode_line s ?d" using d decode_encode_line by metis
  have "decode_address s (l * nat (transaction_bytes s)) = (decode_line s l)\<lparr> da_pseudo_channel := 0 \<rparr>" for l
    using mode by (simp add: decode_address_def apply_lpddr_efficiency_def)
  then show "decode_address s (encode_line s decoded_zero * nat (transaction_bytes s))
      = decode_address s (encode_line s ?d * nat (transaction_bytes s))"
    using d by (simp add: decode_encode_line decoded_zero_def)
qed

lemma checked_multiply_eq: "checked_multiply a b = (if a * b \<le> u64_max then Inr (a * b) else Inl (OverflowError ''exceeds Address space''))"
proof (cases "a = 0")
  case False
  then have "u64_max div a < b \<longleftrightarrow> u64_max < a * b"
    by (simp add: div_less_iff_less_mult mult.commute)
  with False show ?thesis by (auto simp: checked_multiply_def)
qed (simp add: checked_multiply_def)

lemma checked_add_eq: "a \<le> u64_max \<Longrightarrow> checked_add a b = (if a + b \<le> u64_max then Inr (a + b) else Inl (OverflowError ''exceeds Address space''))"
  by (auto simp: checked_add_def)

lemma interleave_decode:
  fixes i N loc k :: nat
  assumes "0 < i" "k < N"
  shows "a = (loc div i * N + k) * i + loc mod i \<longleftrightarrow> k = a div i mod N \<and> loc = a div i div N * i + a mod i"
proof
  assume a: "a = (loc div i * N + k) * i + loc mod i"
  with assms have "a div i = loc div i * N + k" "a mod i = loc mod i" by simp_all
  with assms show "k = a div i mod N \<and> loc = a div i div N * i + a mod i" by simp
next
  assume "k = a div i mod N \<and> loc = a div i div N * i + a mod i"
  with assms show "a = (loc div i * N + k) * i + loc mod i" by simp
qed

lemma encode_interleaved:
  assumes "m = \<lparr> stack_count = n, interleave_bytes = ilv, stack_capacity_bytes = cap, stack_kind = Interleaved \<rparr>"
    and "n \<noteq> 1" "0 < ilv" "a \<le> u64_max"
  shows "encode_stack m st loc = Inr a \<longleftrightarrow>
    0 \<le> st \<and> st < n \<and> (cap \<noteq> 0 \<longrightarrow> loc < cap) \<and> a = (loc div ilv * nat n + nat st) * ilv + loc mod ilv"
proof -
  let ?q = "loc div ilv * nat n" and ?o = "loc mod ilv"
  let ?t = "(?q + nat st) * ilv + ?o"
  have le: "?q \<le> ?q + nat st" "?q + nat st \<le> (?q + nat st) * ilv" "(?q + nat st) * ilv \<le> ?t"
    using assms(3) by simp_all
  show ?thesis
  proof (cases "?t \<le> u64_max")
    case True
    with le have "?q \<le> u64_max" "?q + nat st \<le> u64_max" "(?q + nat st) * ilv \<le> u64_max" by linarith+
    with True show ?thesis using assms(1,2)
      by (auto simp: encode_stack_def checked_multiply_eq checked_add_eq)
  next
    case False
    then have "a \<noteq> ?t" using assms(4) by auto
    moreover have "encode_stack m st loc \<noteq> Inr a"
      using assms(1,2) False
      by (auto simp: encode_stack_def checked_multiply_eq checked_add_eq bindR_eq_Inr split: if_splits)
    ultimately show ?thesis by blast
  qed
qed

lemma decode_interleaved:
  assumes "m = \<lparr> stack_count = n, interleave_bytes = ilv, stack_capacity_bytes = cap, stack_kind = Interleaved \<rparr>"
    and "n \<noteq> 1" "0 < n" "0 < ilv" "a \<le> u64_max"
  shows "decode_stack m a = Inr (st, loc) \<longleftrightarrow>
    st = int (a div ilv mod nat n) \<and> loc = a div ilv div nat n * ilv + a mod ilv \<and> (cap \<noteq> 0 \<longrightarrow> loc < cap)"
proof -
  have "a div ilv div nat n * ilv \<le> a div ilv * ilv" by (intro mult_right_mono div_le_dividend) simp
  then have le: "a div ilv div nat n * ilv + a mod ilv \<le> a" by (metis add_le_mono1 div_mult_mod_eq)
  with assms(5) have "a div ilv div nat n * ilv \<le> u64_max" "a div ilv div nat n * ilv + a mod ilv \<le> u64_max" by linarith+
  with assms show ?thesis
    by (auto simp: decode_stack_def Let_def checked_multiply_eq checked_add_eq)
qed

text \<open>C37. The stack router and its inverse agree in both directions: decoding the system address of
  a stack-local address gives back the stack and the local address, and encoding what a system
  address was decoded to gives back the system address, for interleaved and blocked mappings; the
  router never hands out a stack that does not exist or a local address beyond its capacity.\<close>

theorem stack_routing_roundtrip:
  assumes m: "make_stack_mapper n ilv cap k = Inr m" and a: "a \<le> u64_max" and l: "loc \<le> u64_max"
  shows "(encode_stack m st loc = Inr a \<longleftrightarrow> decode_stack m a = Inr (st, loc))
    \<and> (decode_stack m a = Inr (st, loc) \<longrightarrow> 0 \<le> st \<and> st < n \<and> (cap \<noteq> 0 \<longrightarrow> loc < cap))"
proof -
  from m have n: "0 < n" and i: "0 < ilv" and k: "k = Blocked \<Longrightarrow> cap \<noteq> 0"
    and m': "m = \<lparr> stack_count = n, interleave_bytes = ilv, stack_capacity_bytes = cap, stack_kind = k \<rparr>"
    by (auto simp: make_stack_mapper_def bindR_eq_Inr)
  consider "n = 1" | "n \<noteq> 1" "k = Blocked" | "n \<noteq> 1" "k = Interleaved" by (cases k) auto
  then show ?thesis
  proof cases
    case 1
    then show ?thesis by (auto simp: m' encode_stack_def decode_stack_def)
  next
    case 2
    then have cap: "0 < cap" using k by simp
    have enc: "encode_stack m st loc = Inr a \<longleftrightarrow> 0 \<le> st \<and> st < n \<and> loc < cap \<and> a = nat st * cap + loc"
      using 2 cap a by (auto simp: m' encode_stack_def checked_multiply_eq checked_add_eq bindR_eq_Inr split: if_splits)
    have dec: "decode_stack m a = Inr (st, loc) \<longleftrightarrow> a div cap < nat n \<and> st = int (a div cap) \<and> loc = a mod cap"
      using 2 by (auto simp: m' decode_stack_def)
    have "a = nat st * cap + loc \<and> loc < cap \<longleftrightarrow> nat st = a div cap \<and> loc = a mod cap" using cap by auto
    with cap show ?thesis unfolding enc dec by (auto simp: zless_nat_eq_int_zless split: if_splits)
  next
    case 3
    note m'' = m' [unfolded 3(2)]
    have "int (a div ilv mod nat n) < n" using n by (metis int_nat_eq mod_less_divisor of_nat_less_iff zero_less_nat_eq less_imp_le)
    then have "0 \<le> st \<and> st < n" if "decode_stack m a = Inr (st, loc)"
      using that unfolding decode_interleaved [OF m'' 3(1) n i a] by simp
    moreover have "encode_stack m st loc = Inr a \<longleftrightarrow> decode_stack m a = Inr (st, loc)" if "0 \<le> st \<and> st < n"
      using interleave_decode [OF i, of "nat st" "nat n" a loc] that
      unfolding encode_interleaved [OF m'' 3(1) i a] decode_interleaved [OF m'' 3(1) n i a] by auto
    moreover have "0 \<le> st \<and> st < n" if "encode_stack m st loc = Inr a"
      using that unfolding encode_interleaved [OF m'' 3(1) i a] by simp
    moreover have "cap \<noteq> 0 \<longrightarrow> loc < cap" if "decode_stack m a = Inr (st, loc)"
      using that unfolding decode_interleaved [OF m'' 3(1) n i a] by blast
    ultimately show ?thesis by blast
  qed
qed

lemma stack_routing_roundtrip_witness:
  "\<exists>m. make_stack_mapper 4 256 (2 ^ 30) Interleaved = Inr m \<and> encode_stack m 3 1000 = Inr 4072
     \<and> decode_stack m 4072 = Inr (3, 1000)"
proof -
  define m where "m = \<lparr> stack_count = 4, interleave_bytes = 256, stack_capacity_bytes = 2 ^ 30, stack_kind = Interleaved \<rparr>"
  have m: "make_stack_mapper 4 256 (2 ^ 30) Interleaved = Inr m" by (simp add: make_stack_mapper_def m_def)
  have "encode_stack m 3 1000 = Inr 4072"
    by (simp add: m_def encode_stack_def checked_multiply_def checked_add_def u64_max_def)
  with stack_routing_roundtrip [OF m, of 4072 1000 3] m show ?thesis by (simp add: u64_max_def)
qed

text \<open>The flattened bank number of \<^verbatim>\<open>flat_bank\<close> is a valid index of an array of
  \<^verbatim>\<open>total_banks()\<close> entries for every coordinate the mapper produces, and two coordinates get
  the same number exactly when they name the same bank.\<close>

theorem flat_bank_identifies_bank:
  assumes valid: "validate_spec s = Inr ()" and n: "total_banks s = Inr n"
    and eff: "lpddr_family s \<longrightarrow> lpddr_efficiency_mode s = EffNormal"
  shows "0 \<le> flat_bank s (decode_address s a) \<and> flat_bank s (decode_address s a) < n
    \<and> (flat_bank s (decode_address s a) = flat_bank s (decode_address s b)
        \<longleftrightarrow> same_bank (decode_address s a) (decode_address s b))"
proof -
  have "decode_address s x \<in> coordinates s" for x
    using decode_line_coordinates [OF valid_positive_dims [OF valid]] eff
    by (auto simp: decode_address_def apply_lpddr_efficiency_def)
  then show ?thesis using flat_bank_range total_banks_ok [OF n] by (simp add: flat_bank_eq_iff)
qed

lemma flat_bank_identifies_bank_witness:
  "total_banks sample_hbm = Inr 32 \<and> flat_bank sample_hbm (decode_address sample_hbm 0) = 0
    \<and> flat_bank sample_hbm (decode_address sample_hbm 2048) = 1
    \<and> \<not> same_bank (decode_address sample_hbm 0) (decode_address sample_hbm 2048)"
proof -
  have n: "total_banks sample_hbm = Inr 32"
    by (simp add: total_banks_def checked_product_def sample_hbm_def sample_org_def u64_max_def int_max_def)
  have v: "flat_bank sample_hbm (decode_address sample_hbm 0) = 0" "flat_bank sample_hbm (decode_address sample_hbm 2048) = 1"
    by (simp_all add: flat_bank_def decode_address_def decode_line_def take_bank_composite_def take_mod_def
      apply_lpddr_efficiency_def transaction_bytes_def decoded_zero_def sample_hbm_def sample_org_def)
  from flat_bank_identifies_bank [OF sample_hbm_valid n, of 0 2048] v n show ?thesis
    by (simp add: sample_hbm_def)
qed

end
