(* ===== verification/Mem_Secded.thy ===== *)
theory Mem_Secded
  imports Mem_Address
begin

text \<open>
  The data block of the memory image (\<^verbatim>\<open>core/data.hpp\<close>, \<^verbatim>\<open>core/storage_key.hpp\<close>) and its error
  code (\<^verbatim>\<open>core/data.cpp\<close>): a Hamming code over the data bits of the block with an overall parity,
  recomputed and compared on reads. The lemmas give the code its algebraic form, the exclusive or of
  the code positions of the set bits, and determine the outcome of a check after a single error.
  Code positions and the Hamming word are kept as natural numbers: they stay below \<open>2\<close> to the
  number of parity bits, far inside the 64 bits of the code.
\<close>

section \<open>Data blocks\<close>

record storage_key =
  sk_stack :: int
  sk_channel :: int
  sk_pseudo_channel :: int
  sk_sid :: int
  sk_rank :: int
  sk_bank_group :: int
  sk_bank :: int
  sk_row :: int
  sk_column :: int

record data_block =
  db_bytes :: "u8 list"
  db_byte_mask :: "u8 list"
  db_initialized_mask :: "u8 list"
  db_initialized :: bool
  db_version :: nat
  db_last_writer_request_id :: nat
  db_last_write_cycle :: nat
  db_last_access_cycle :: nat
  db_checksum :: u32
  db_ecc_hamming :: nat
  db_ecc_overall :: bool
  db_ecc_parity_bits :: int
  db_ecc_valid :: bool
  db_ecc_uncorrectable :: bool
  db_ecc_error_injections :: nat
  db_line_base :: nat
  db_storage_key :: storage_key

text \<open>The fields of \<^verbatim>\<open>StorageModelOptions\<close> and the counters of \<^verbatim>\<open>MemoryImage\<close> that concern the code.\<close>

record ecc_options =
  ecc_shadow_enabled :: bool
  ecc_check_on_read :: bool
  ecc_correct_single_bit :: bool
  ecc_inject_period :: int

record ecc_counters =
  ecc_shadow_updates :: nat
  ecc_checked_reads :: nat
  ecc_corrected_errors :: nat
  ecc_uncorrectable_errors :: nat
  ecc_injected_errors :: nat
  ecc_parity_repairs :: nat

section \<open>The code\<close>

text \<open>\<^verbatim>\<open>checksum_bytes\<close> is the 32-bit FNV-1a hash, with the multiplication wrapping.\<close>

definition checksum_bytes :: "u8 list \<Rightarrow> u32" where
  "checksum_bytes bytes = fold (\<lambda>b h. (h XOR ucast b) * 16777619) bytes 2166136261"

definition is_power_of_two :: "nat \<Rightarrow> bool" where
  "is_power_of_two v \<longleftrightarrow> v \<noteq> 0 \<and> v AND (v - 1) = 0"

definition byte_bit :: "u8 list \<Rightarrow> nat \<Rightarrow> bool" where
  "byte_bit bytes n \<longleftrightarrow> n div 8 < length bytes \<and> bit (bytes ! (n div 8)) (n mod 8)"

definition flip_byte_bit :: "u8 list \<Rightarrow> nat \<Rightarrow> u8 list" where
  "flip_byte_bit bytes n =
     (if n div 8 < length bytes then bytes[n div 8 := bytes ! (n div 8) XOR push_bit (n mod 8) 1] else bytes)"

function parity_bits_loop :: "nat \<Rightarrow> nat \<Rightarrow> nat" where
  "parity_bits_loop n p = (if 2 ^ p < n + p + 1 then parity_bits_loop n (p + 1) else p)"
  by pat_completeness auto

termination
proof (relation "measure (\<lambda>(n, p). n + 1 - p)")
  fix n p :: nat
  assume "2 ^ p < n + p + 1"
  moreover have "2 * p \<le> 2 ^ p"
  proof (cases p)
    case (Suc k)
    have "Suc k \<le> 2 ^ k" using less_exp [of k] by (simp add: Suc_le_eq)
    with Suc show ?thesis by simp
  qed simp
  ultimately show "((n, p + 1), n, p) \<in> measure (\<lambda>(n, p). n + 1 - p)" by auto
qed simp

definition parity_bits_for_data_bits :: "nat \<Rightarrow> nat" where
  "parity_bits_for_data_bits n = parity_bits_loop n 1"

text \<open>
  The loops that walk over the code positions. \<open>remaining\<close> is \<^verbatim>\<open>data_bit - data_seen\<close>; a position
  that is a power of two is skipped, which happens at most twice in a row.
\<close>

definition skip_measure :: "nat \<Rightarrow> nat" where
  "skip_measure pos = (if \<not> is_power_of_two pos then 0 else if pos = 1 then 2 else 1)"

lemma odd_not_power_of_two: "odd n \<Longrightarrow> n \<noteq> 1 \<Longrightarrow> \<not> is_power_of_two n"
proof -
  assume "odd n" "n \<noteq> 1"
  then obtain m where m: "n = 2 * m + 1" "m \<noteq> 0" by (metis One_nat_def add.left_neutral mult_0_right oddE)
  have "n AND (n - 1) = 2 * m" unfolding m(1) by (subst and_rec) simp
  with m show ?thesis by (simp add: is_power_of_two_def)
qed

lemma skip_measure_Suc: "is_power_of_two pos \<Longrightarrow> skip_measure (pos + 1) < skip_measure pos"
proof -
  assume pos: "is_power_of_two pos"
  show ?thesis
  proof (cases "pos = 1")
    case False
    have "even pos" using odd_not_power_of_two [of pos] pos False by auto
    then have "\<not> is_power_of_two (pos + 1)" using odd_not_power_of_two [of "pos + 1"] pos
      by (auto simp: is_power_of_two_def)
    with pos False show ?thesis by (simp add: skip_measure_def)
  qed (simp add: skip_measure_def is_power_of_two_def)
qed

function code_position_loop :: "nat \<Rightarrow> nat \<Rightarrow> nat" where
  "code_position_loop remaining pos =
     (if \<not> is_power_of_two pos
      then (if remaining = 0 then pos else code_position_loop (remaining - 1) (pos + 1))
      else code_position_loop remaining (pos + 1))"
  by pat_completeness auto

termination
  by (relation "measures [\<lambda>(r, p). r, \<lambda>(r, p). skip_measure p]") (use skip_measure_Suc in auto)

definition code_position_for_data_bit :: "nat \<Rightarrow> nat" where
  "code_position_for_data_bit b = code_position_loop b 1"

function data_bit_loop :: "nat \<Rightarrow> nat \<Rightarrow> nat \<Rightarrow> nat \<Rightarrow> nat option" where
  "data_bit_loop target data_bits seen pos =
     (if \<not> seen < data_bits then None
      else if is_power_of_two pos then data_bit_loop target data_bits seen (pos + 1)
      else if pos = target then Some seen
      else data_bit_loop target data_bits (seen + 1) (pos + 1))"
  by pat_completeness auto

termination
  by (relation "measures [\<lambda>(t, b, s, p). b - s, \<lambda>(t, b, s, p). skip_measure p]") (use skip_measure_Suc in auto)

definition data_bit_for_code_position :: "nat \<Rightarrow> nat \<Rightarrow> nat option" where
  "data_bit_for_code_position target data_bits = data_bit_loop target data_bits 0 1"

declare parity_bits_loop.simps [simp del] code_position_loop.simps [simp del] data_bit_loop.simps [simp del]

record secded_shadow =
  shadow_hamming :: nat
  shadow_overall :: bool
  shadow_parity_bits :: nat

text \<open>The inner loop over the parity bits of one data bit, and the loop that folds them into the overall parity.\<close>

definition hamming_accumulate :: "nat \<Rightarrow> nat \<Rightarrow> nat \<Rightarrow> nat" where
  "hamming_accumulate parity_bits pos hamming =
     fold (\<lambda>q h. if pos AND 2 ^ q \<noteq> 0 then h XOR 2 ^ q else h) [0..<parity_bits] hamming"

definition overall_accumulate :: "nat \<Rightarrow> nat \<Rightarrow> bool \<Rightarrow> bool" where
  "overall_accumulate parity_bits hamming overall =
     fold (\<lambda>q acc. if hamming AND 2 ^ q \<noteq> 0 then \<not> acc else acc) [0..<parity_bits] overall"

definition compute_secded_shadow :: "u8 list \<Rightarrow> secded_shadow" where
  "compute_secded_shadow bytes =
     (let data_bits = length bytes * 8; parity_bits = parity_bits_for_data_bits data_bits;
          (overall, hamming) = fold (\<lambda>b (overall, hamming).
             if \<not> byte_bit bytes b then (overall, hamming)
             else (\<not> overall, hamming_accumulate parity_bits (code_position_for_data_bit b) hamming))
             [0..<data_bits] (False, 0)
      in \<lparr> shadow_hamming = hamming, shadow_overall = overall_accumulate parity_bits hamming overall,
           shadow_parity_bits = parity_bits \<rparr>)"

definition refresh_ecc_shadow :: "ecc_options \<Rightarrow> data_block \<times> ecc_counters \<Rightarrow> data_block \<times> ecc_counters" where
  "refresh_ecc_shadow opt = (\<lambda>(b, n).
     if \<not> ecc_shadow_enabled opt then (b\<lparr> db_ecc_valid := False, db_ecc_uncorrectable := False \<rparr>, n)
     else let shadow = compute_secded_shadow (db_bytes b) in
       (b\<lparr> db_ecc_hamming := shadow_hamming shadow, db_ecc_overall := shadow_overall shadow,
          db_ecc_parity_bits := int (shadow_parity_bits shadow), db_ecc_valid := True, db_ecc_uncorrectable := False \<rparr>,
        n\<lparr> ecc_shadow_updates := ecc_shadow_updates n + 1 \<rparr>))"

definition maybe_inject_ecc_error :: "ecc_options \<Rightarrow> data_block \<times> ecc_counters \<Rightarrow> data_block \<times> ecc_counters" where
  "maybe_inject_ecc_error opt = (\<lambda>(b, n).
     if \<not> ecc_shadow_enabled opt \<or> ecc_inject_period opt \<le> 0 then (b, n)
     else if db_version b = 0 \<or> db_version b mod nat (ecc_inject_period opt) \<noteq> 0 then (b, n)
     else let b = b\<lparr> db_bytes := flip_byte_bit (db_bytes b) 0 \<rparr> in
       (b\<lparr> db_checksum := checksum_bytes (db_bytes b), db_ecc_error_injections := db_ecc_error_injections b + 1 \<rparr>,
        n\<lparr> ecc_injected_errors := ecc_injected_errors n + 1 \<rparr>))"

definition check_ecc_shadow :: "ecc_options \<Rightarrow> data_block \<times> ecc_counters \<Rightarrow> data_block \<times> ecc_counters" where
  "check_ecc_shadow opt = (\<lambda>(b, n).
     if \<not> ecc_shadow_enabled opt \<or> \<not> ecc_check_on_read opt \<or> \<not> db_ecc_valid b then (b, n)
     else
       let n = n\<lparr> ecc_checked_reads := ecc_checked_reads n + 1 \<rparr>;
           now = compute_secded_shadow (db_bytes b);
           syndrome = db_ecc_hamming b XOR shadow_hamming now;
           overall_mismatch = (db_ecc_overall b \<noteq> shadow_overall now);
           uncorrectable = (b\<lparr> db_ecc_uncorrectable := True \<rparr>,
             n\<lparr> ecc_uncorrectable_errors := ecc_uncorrectable_errors n + 1 \<rparr>);
           repaired = n\<lparr> ecc_parity_repairs := ecc_parity_repairs n + 1 \<rparr>
       in if syndrome = 0 \<and> \<not> overall_mismatch then (b, n)
          else if syndrome = 0 \<and> overall_mismatch then (b\<lparr> db_ecc_overall := shadow_overall now \<rparr>, repaired)
          else if \<not> overall_mismatch then uncorrectable
          else if is_power_of_two syndrome
          then (b\<lparr> db_ecc_hamming := shadow_hamming now, db_ecc_overall := shadow_overall now \<rparr>, repaired)
          else (case data_bit_for_code_position syndrome (length (db_bytes b) * 8) of
              None \<Rightarrow> uncorrectable
            | Some data_bit \<Rightarrow>
                if \<not> ecc_correct_single_bit opt then uncorrectable
                else
                  let b = b\<lparr> db_bytes := flip_byte_bit (db_bytes b) data_bit \<rparr>;
                      b = b\<lparr> db_checksum := checksum_bytes (db_bytes b) \<rparr>;
                      (b, n) = refresh_ecc_shadow opt (b, n)
                  in (b, n\<lparr> ecc_corrected_errors := ecc_corrected_errors n + 1 \<rparr>)))"

section \<open>Powers of two and code positions\<close>

lemma is_power_of_two_iff: "is_power_of_two v \<longleftrightarrow> (\<exists>j. v = 2 ^ j)"
proof
  assume "is_power_of_two v"
  then show "\<exists>j. v = 2 ^ j"
  proof (induction v rule: less_induct)
    case (less v)
    show ?case
    proof (cases "v = 1")
      case False
      then have "even v" using odd_not_power_of_two [of v] less.prems by auto
      then obtain m where m: "v = 2 * m" by blast
      with less.prems have "m \<noteq> 0" by (auto simp: is_power_of_two_def)
      moreover have "v AND (v - 1) = 2 * (m AND (m - 1))"
        unfolding m using \<open>m \<noteq> 0\<close> by (subst and_rec) (cases m; simp)
      ultimately have "is_power_of_two m" "m < v" using less.prems m by (auto simp: is_power_of_two_def)
      with less.IH obtain j where "m = 2 ^ j" by blast
      with m have "v = 2 ^ Suc j" by simp
      then show ?thesis by blast
    qed (auto intro: exI [of _ 0])
  qed
next
  have "is_power_of_two (2 ^ j)" for j
  proof (induction j)
    case (Suc j)
    have "(2 ^ Suc j :: nat) AND (2 ^ Suc j - 1) = 2 * (2 ^ j AND (2 ^ j - 1))"
      by (subst and_rec) (cases "2 ^ j :: nat"; simp)
    with Suc show ?case by (simp add: is_power_of_two_def)
  qed (simp add: is_power_of_two_def)
  then show "\<exists>j. v = 2 ^ j \<Longrightarrow> is_power_of_two v" by blast
qed

definition data_positions :: "nat \<Rightarrow> nat \<Rightarrow> nat set" where
  "data_positions p q = {v \<in> {p..<q}. \<not> is_power_of_two v}"

lemma finite_data_positions [simp]: "finite (data_positions p q)"
  by (simp add: data_positions_def)

lemma card_data_positions: "card (data_positions 1 (2 ^ k)) = 2 ^ k - 1 - k"
proof -
  have split: "data_positions 1 (2 ^ k) = {1..<2 ^ k} - (\<lambda>j. 2 ^ j) ` {..<k}"
    by (auto simp: data_positions_def is_power_of_two_iff power_strict_increasing_iff)
  have "(\<lambda>j. 2 ^ j :: nat) ` {..<k} \<subseteq> {1..<2 ^ k}" by auto
  then show ?thesis unfolding split by (subst card_Diff_subset) (simp_all add: card_image inj_on_def)
qed

lemma code_position_loop:
  "p \<le> code_position_loop r p \<and> \<not> is_power_of_two (code_position_loop r p)
   \<and> card (data_positions p (code_position_loop r p)) = r"
proof (induction r p rule: code_position_loop.induct)
  case (1 r p)
  have skip: "data_positions p q = (if is_power_of_two p then {} else {p}) \<union> data_positions (p + 1) q" if "p < q" for q
    using that by (auto simp: data_positions_def Suc_le_eq le_less)
  show ?case
  proof (cases "is_power_of_two p")
    case True
    with 1(2) have ih: "p + 1 \<le> code_position_loop r (p + 1)" "\<not> is_power_of_two (code_position_loop r (p + 1))"
      "card (data_positions (p + 1) (code_position_loop r (p + 1))) = r" by simp_all
    with True skip [of "code_position_loop r (p + 1)"] show ?thesis by (subst (1 2 3) code_position_loop.simps) simp
  next
    case False
    show ?thesis
    proof (cases "r = 0")
      case True
      with False show ?thesis by (subst (1 2 3) code_position_loop.simps) (simp add: data_positions_def)
    next
      case nz: False
      with False 1(1) have ih: "p + 1 \<le> code_position_loop (r - 1) (p + 1)"
        "\<not> is_power_of_two (code_position_loop (r - 1) (p + 1))"
        "card (data_positions (p + 1) (code_position_loop (r - 1) (p + 1))) = r - 1" by simp_all
      have "card ({p} \<union> data_positions (p + 1) (code_position_loop (r - 1) (p + 1))) = r"
        using ih(3) nz by (subst card_Un_disjoint) (auto simp: data_positions_def)
      with ih(1,2) False nz skip [of "code_position_loop (r - 1) (p + 1)"]
      show ?thesis by (subst (1 2 3) code_position_loop.simps) simp
    qed
  qed
qed

lemma parity_bits_cover: "n + parity_bits_for_data_bits n + 1 \<le> 2 ^ parity_bits_for_data_bits n"
proof -
  have "n + parity_bits_loop n p + 1 \<le> 2 ^ parity_bits_loop n p" for p
  proof (induction n p rule: parity_bits_loop.induct)
    case (1 n p)
    then show ?case by (cases "2 ^ p < n + p + 1") (subst (1 2) parity_bits_loop.simps; simp)+
  qed
  then show ?thesis by (simp add: parity_bits_for_data_bits_def)
qed

text \<open>The parity bits address every code position of the block.\<close>

lemma code_position_bound:
  assumes "b < n"
  shows "code_position_for_data_bit b < 2 ^ parity_bits_for_data_bits n"
proof (rule ccontr)
  let ?k = "parity_bits_for_data_bits n" and ?q = "code_position_for_data_bit b"
  assume "\<not> ?q < 2 ^ ?k"
  then have "data_positions 1 (2 ^ ?k) \<subseteq> data_positions 1 ?q" by (auto simp: data_positions_def)
  then have "card (data_positions 1 (2 ^ ?k)) \<le> b"
    using code_position_loop [of 1 b] by (metis card_mono code_position_for_data_bit_def finite_data_positions)
  with card_data_positions [of ?k] parity_bits_cover [of n] assms show False by simp
qed

lemma code_position_not_power: "\<not> is_power_of_two (code_position_for_data_bit b)"
  using code_position_loop [of 1 b] by (simp add: code_position_for_data_bit_def)

lemma code_position_positive: "0 < code_position_for_data_bit b"
  using code_position_loop [of 1 b] by (simp add: code_position_for_data_bit_def)

lemma data_bit_loop_inverse:
  "s + r < n \<Longrightarrow> data_bit_loop (code_position_loop r p) n s p = Some (s + r)"
proof (induction r p arbitrary: s rule: code_position_loop.induct)
  case (1 r p)
  show ?case
  proof (cases "is_power_of_two p")
    case True
    with 1 show ?thesis by (subst code_position_loop.simps) (subst data_bit_loop.simps, simp)
  next
    case False
    show ?thesis
    proof (cases "r = 0")
      case True
      with 1 False show ?thesis by (subst code_position_loop.simps) (subst data_bit_loop.simps, simp)
    next
      case nz: False
      have "p \<noteq> code_position_loop (r - 1) (p + 1)" using code_position_loop [of "p + 1" "r - 1"] by linarith
      with 1(1) [OF _ nz, of "s + 1"] 1(3) False nz show ?thesis
        by (subst code_position_loop.simps) (subst data_bit_loop.simps, simp)
    qed
  qed
qed

lemma data_bit_for_code_position_inverse:
  "b < n \<Longrightarrow> data_bit_for_code_position (code_position_for_data_bit b) n = Some b"
  using data_bit_loop_inverse [of 0 b n 1] by (simp add: data_bit_for_code_position_def code_position_for_data_bit_def)

section \<open>The algebra of the code\<close>

text \<open>The parity of the number of set bits among the lowest \<open>k\<close>.\<close>

definition odd_weight :: "nat \<Rightarrow> nat \<Rightarrow> bool" where
  "odd_weight k v \<longleftrightarrow> odd (length (filter (bit v) [0..<k]))"

lemma odd_weight_0 [simp]: "odd_weight 0 v = False"
  and odd_weight_Suc: "odd_weight (Suc k) v = (odd_weight k v \<noteq> bit v k)"
  by (simp_all add: odd_weight_def)

lemma odd_weight_xor: "odd_weight k (v XOR w) = (odd_weight k v \<noteq> odd_weight k w)"
  by (induction k) (auto simp: odd_weight_Suc bit_xor_iff)

lemma and_exp_nonzero: "(v AND 2 ^ q \<noteq> 0) = bit (v :: nat) q"
  by (simp add: and_exp_eq_0_iff_not_bit)

lemma overall_accumulate: "overall_accumulate k v acc = (acc \<noteq> odd_weight k v)"
  unfolding overall_accumulate_def and_exp_nonzero by (induction k arbitrary: acc) (auto simp: odd_weight_Suc)

lemma hamming_accumulate: "hamming_accumulate k pos h = h XOR take_bit k pos"
proof (induction k)
  case (Suc k)
  have "hamming_accumulate (Suc k) pos h =
      (if bit pos k then hamming_accumulate k pos h XOR 2 ^ k else hamming_accumulate k pos h)"
    unfolding hamming_accumulate_def and_exp_nonzero by simp
  moreover have "take_bit (Suc k) pos = (if bit pos k then take_bit k pos XOR 2 ^ k else take_bit k pos)"
    by (rule bit_eqI) (auto simp: bit_take_bit_iff bit_xor_iff bit_exp_iff less_Suc_eq)
  ultimately show ?case using Suc by (simp add: xor.assoc)
qed (simp add: hamming_accumulate_def)

lemma xor_cancel_middle: "a XOR (a XOR b) = (b :: nat)"
  by (simp add: xor.assoc [symmetric])

primrec xor_sum :: "(nat \<Rightarrow> bool) \<Rightarrow> (nat \<Rightarrow> nat) \<Rightarrow> nat list \<Rightarrow> nat" where
  "xor_sum f g [] = 0"
| "xor_sum f g (x # xs) = (if f x then g x else 0) XOR xor_sum f g xs"

lemma xor_sum_cong: "(\<And>x. x \<in> set xs \<Longrightarrow> f x = f' x) \<Longrightarrow> xor_sum f g xs = xor_sum f' g xs"
  by (induction xs) auto

definition flip_at :: "nat \<Rightarrow> (nat \<Rightarrow> bool) \<Rightarrow> nat \<Rightarrow> bool" where
  "flip_at d f x \<longleftrightarrow> f x \<noteq> (x = d)"

lemma flip_at_simps [simp]: "flip_at d f d = (\<not> f d)" "x \<noteq> d \<Longrightarrow> flip_at d f x = f x"
  by (simp_all add: flip_at_def)

lemma xor_sum_flip:
  "distinct xs \<Longrightarrow> d \<in> set xs \<Longrightarrow> xor_sum (flip_at d f) g xs = xor_sum f g xs XOR g d"
proof (induction xs)
  case (Cons x xs)
  show ?case
  proof (cases "x = d")
    case True
    with Cons have "xor_sum (flip_at d f) g xs = xor_sum f g xs" by (intro xor_sum_cong) (auto simp: flip_at_def)
    with True show ?thesis by (auto simp: ac_simps xor_cancel_middle)
  qed (use Cons in \<open>auto simp: ac_simps\<close>)
qed simp

lemma odd_flip:
  "distinct xs \<Longrightarrow> d \<in> set xs \<Longrightarrow>
   odd (length (filter (flip_at d f) xs)) \<longleftrightarrow> \<not> odd (length (filter f xs))"
proof (induction xs)
  case (Cons x xs)
  show ?case
  proof (cases "x = d")
    case True
    with Cons have "filter (flip_at d f) xs = filter f xs" by (intro filter_cong) (auto simp: flip_at_def)
    with True show ?thesis by auto
  qed (use Cons in auto)
qed simp

definition hamming_of :: "nat \<Rightarrow> (nat \<Rightarrow> bool) \<Rightarrow> nat" where
  "hamming_of n f = xor_sum f code_position_for_data_bit [0..<n]"

definition overall_of :: "nat \<Rightarrow> (nat \<Rightarrow> bool) \<Rightarrow> bool" where
  "overall_of n f \<longleftrightarrow> odd (length (filter f [0..<n])) \<noteq> odd_weight (parity_bits_for_data_bits n) (hamming_of n f)"

lemma shadow_fold:
  "(\<And>b. b \<in> set xs \<Longrightarrow> take_bit k (g b) = g b) \<Longrightarrow>
   fold (\<lambda>b (overall, hamming). if \<not> f b then (overall, hamming)
       else (\<not> overall, hamming_accumulate k (g b) hamming)) xs (acc, ham)
   = (acc \<noteq> odd (length (filter f xs)), ham XOR xor_sum f g xs)"
  by (induction xs arbitrary: acc ham) (auto simp: hamming_accumulate ac_simps)

text \<open>The shadow of a block in closed form.\<close>

lemma compute_secded_shadow_eq:
  "compute_secded_shadow bytes = (let n = length bytes * 8 in
     \<lparr> shadow_hamming = hamming_of n (byte_bit bytes), shadow_overall = overall_of n (byte_bit bytes),
       shadow_parity_bits = parity_bits_for_data_bits n \<rparr>)"
proof -
  let ?n = "length bytes * 8"
  have "take_bit (parity_bits_for_data_bits ?n) (code_position_for_data_bit b) = code_position_for_data_bit b"
    if "b \<in> set [0..<?n]" for b
    using code_position_bound [of b ?n] that by (simp add: take_bit_nat_eq_self)
  from shadow_fold [where f = "byte_bit bytes" and g = code_position_for_data_bit, where xs = "[0..<?n]" and acc = False and ham = 0, OF this]
  show ?thesis
    by (simp add: compute_secded_shadow_def Let_def overall_accumulate hamming_of_def overall_of_def)
qed

lemma hamming_of_flip: "d < n \<Longrightarrow> hamming_of n (flip_at d f) = hamming_of n f XOR code_position_for_data_bit d"
  unfolding hamming_of_def by (rule xor_sum_flip) simp_all

text \<open>Flipping one data bit flips the recomputed overall parity only when the weight of its code position is even.\<close>

lemma overall_of_flip:
  assumes "d < n"
  shows "overall_of n (flip_at d f) \<longleftrightarrow>
    (overall_of n f = odd_weight (parity_bits_for_data_bits n) (code_position_for_data_bit d))"
proof -
  have "odd (length (filter (flip_at d f) [0..<n])) \<longleftrightarrow> \<not> odd (length (filter f [0..<n]))"
    using assms by (intro odd_flip) simp_all
  then show ?thesis unfolding overall_of_def hamming_of_flip [OF assms] odd_weight_xor by blast
qed

lemma length_flip_byte_bit [simp]: "length (flip_byte_bit bytes d) = length bytes"
  by (simp add: flip_byte_bit_def)

lemma byte_bit_flip:
  assumes "d < length bytes * 8"
  shows "byte_bit (flip_byte_bit bytes d) = flip_at d (byte_bit bytes)"
proof
  fix b
  have lt: "d div 8 < length bytes" using assms by (simp add: less_mult_imp_div_less)
  show "byte_bit (flip_byte_bit bytes d) b = flip_at d (byte_bit bytes) b"
  proof (cases "b div 8 = d div 8")
    case True
    have "(b = d) = (b mod 8 = d mod 8)" using True by (metis div_mod_decomp)
    with True lt show ?thesis
      by (auto simp: byte_bit_def flip_byte_bit_def bit_xor_iff bit_exp_iff flip_at_def)
  next
    case False
    with lt show ?thesis by (auto simp: byte_bit_def flip_byte_bit_def flip_at_def)
  qed
qed

lemma flip_byte_bit_twice: "flip_byte_bit (flip_byte_bit bytes d) d = bytes"
proof (cases "d div 8 < length bytes")
  case True
  then show ?thesis by (simp add: flip_byte_bit_def xor.assoc)
qed (simp add: flip_byte_bit_def)

section \<open>Outcome of a check\<close>

definition ecc_clean :: "data_block \<Rightarrow> bool" where
  "ecc_clean b \<longleftrightarrow> db_ecc_valid b \<and> \<not> db_ecc_uncorrectable b
     \<and> db_ecc_hamming b = shadow_hamming (compute_secded_shadow (db_bytes b))
     \<and> db_ecc_overall b = shadow_overall (compute_secded_shadow (db_bytes b))
     \<and> db_ecc_parity_bits b = int (shadow_parity_bits (compute_secded_shadow (db_bytes b)))
     \<and> db_checksum b = checksum_bytes (db_bytes b)"

lemma refresh_ecc_shadow_clean:
  "ecc_shadow_enabled opt \<Longrightarrow> db_checksum b = checksum_bytes (db_bytes b) \<Longrightarrow>
   ecc_clean (fst (refresh_ecc_shadow opt (b, n)))"
  by (simp add: refresh_ecc_shadow_def ecc_clean_def Let_def)

lemma refresh_ecc_shadow_of_clean:
  "ecc_shadow_enabled opt \<Longrightarrow> ecc_clean b \<Longrightarrow>
   refresh_ecc_shadow opt (b, n) = (b, n\<lparr> ecc_shadow_updates := ecc_shadow_updates n + 1 \<rparr>)"
  by (simp add: refresh_ecc_shadow_def ecc_clean_def Let_def)

lemma check_ecc_shadow_clean:
  "ecc_clean b \<Longrightarrow> fst (check_ecc_shadow opt (b, n)) = b"
  by (simp add: check_ecc_shadow_def ecc_clean_def Let_def)

lemma syndrome_of_flip:
  assumes "ecc_clean b" "d < length (db_bytes b) * 8"
  shows "db_ecc_hamming b XOR shadow_hamming (compute_secded_shadow (flip_byte_bit (db_bytes b) d))
      = code_position_for_data_bit d"
    and "(db_ecc_overall b \<noteq> shadow_overall (compute_secded_shadow (flip_byte_bit (db_bytes b) d)))
      \<longleftrightarrow> \<not> odd_weight (parity_bits_for_data_bits (length (db_bytes b) * 8)) (code_position_for_data_bit d)"
  using assms by (auto simp: ecc_clean_def compute_secded_shadow_eq Let_def byte_bit_flip hamming_of_flip
      overall_of_flip xor_cancel_middle)

text \<open>C26. After one data bit of a protected block is flipped, a read check restores the block exactly when the
  code position of the bit has an even number of ones; otherwise it leaves the data and reports the
  block as uncorrectable. It never passes a single data error silently, and a check of an intact
  block changes nothing.\<close>

theorem ecc_single_data_error:
  assumes "ecc_shadow_enabled opt" "ecc_check_on_read opt" "ecc_correct_single_bit opt"
    and "ecc_clean b" "d < length (db_bytes b) * 8"
  defines "e \<equiv> b\<lparr> db_bytes := flip_byte_bit (db_bytes b) d \<rparr>"
  shows "fst (check_ecc_shadow opt (e, n)) =
      (if odd_weight (parity_bits_for_data_bits (length (db_bytes b) * 8)) (code_position_for_data_bit d)
       then e\<lparr> db_ecc_uncorrectable := True \<rparr> else b)
    \<and> fst (check_ecc_shadow opt (b, n)) = b"
proof -
  let ?odd = "odd_weight (parity_bits_for_data_bits (length (db_bytes b) * 8)) (code_position_for_data_bit d)"
  note flip = syndrome_of_flip [OF assms(4,5)]
  have valid: "db_ecc_valid b" using assms(4) by (simp add: ecc_clean_def)
  have fixed: "e\<lparr> db_bytes := flip_byte_bit (db_bytes e) d \<rparr>\<lparr> db_checksum := checksum_bytes (flip_byte_bit (db_bytes e) d) \<rparr> = b"
    using assms(4) by (simp add: e_def flip_byte_bit_twice ecc_clean_def)
  have "fst (check_ecc_shadow opt (e, n)) = (if ?odd then e\<lparr> db_ecc_uncorrectable := True \<rparr> else b)"
  proof (cases ?odd)
    case True
    then show ?thesis using assms(1,2) valid flip code_position_positive [of d]
      by (simp add: check_ecc_shadow_def Let_def e_def)
  next
    case False
    then show ?thesis using assms(1-3) valid flip code_position_positive [of d] code_position_not_power [of d]
        data_bit_for_code_position_inverse [OF assms(5)] fixed refresh_ecc_shadow_of_clean [OF assms(1,4)]
      by (simp add: check_ecc_shadow_def Let_def e_def)
  qed
  then show ?thesis using check_ecc_shadow_clean [OF assms(4)] by simp
qed

text \<open>Evaluation of the code on a one-byte block.\<close>

lemma parity_bits_8: "parity_bits_for_data_bits 8 = 4"
  by (simp add: parity_bits_for_data_bits_def parity_bits_loop.simps)

lemma code_position_small:
  "code_position_for_data_bit 0 = 3" "code_position_for_data_bit (Suc 0) = 5" "code_position_for_data_bit 2 = 6"
  "code_position_for_data_bit 3 = 7" "code_position_for_data_bit 4 = 9"
  by code_simp+

definition sample_block :: data_block where
  "sample_block = \<lparr> db_bytes = [0], db_byte_mask = [0], db_initialized_mask = [0], db_initialized = False, db_version = 0,
     db_last_writer_request_id = 0, db_last_write_cycle = 0, db_last_access_cycle = 0, db_checksum = checksum_bytes [0],
     db_ecc_hamming = 0, db_ecc_overall = False, db_ecc_parity_bits = 0, db_ecc_valid = False,
     db_ecc_uncorrectable = False, db_ecc_error_injections = 0, db_line_base = 0,
     db_storage_key = \<lparr> sk_stack = 0, sk_channel = 0, sk_pseudo_channel = 0, sk_sid = 0, sk_rank = 0, sk_bank_group = 0,
       sk_bank = 0, sk_row = 0, sk_column = 0 \<rparr> \<rparr>"

definition ecc_on :: ecc_options where
  "ecc_on = \<lparr> ecc_shadow_enabled = True, ecc_check_on_read = True, ecc_correct_single_bit = True, ecc_inject_period = 1 \<rparr>"

definition ecc_counters0 :: ecc_counters where
  "ecc_counters0 = \<lparr> ecc_shadow_updates = 0, ecc_checked_reads = 0, ecc_corrected_errors = 0, ecc_uncorrectable_errors = 0,
     ecc_injected_errors = 0, ecc_parity_repairs = 0 \<rparr>"

definition sample_clean :: data_block where
  "sample_clean = fst (refresh_ecc_shadow ecc_on (sample_block, ecc_counters0))"

lemma ecc_single_data_error_witness:
  "fst (check_ecc_shadow ecc_on (sample_clean\<lparr> db_bytes := flip_byte_bit [0] 2 \<rparr>, ecc_counters0)) = sample_clean
   \<and> db_ecc_uncorrectable (fst (check_ecc_shadow ecc_on (sample_clean\<lparr> db_bytes := flip_byte_bit [0] 3 \<rparr>, ecc_counters0)))"
proof -
  have clean: "ecc_clean sample_clean"
    unfolding sample_clean_def by (rule refresh_ecc_shadow_clean) (simp_all add: ecc_on_def sample_block_def)
  have bytes: "db_bytes sample_clean = [0]"
    by (simp add: sample_clean_def refresh_ecc_shadow_def ecc_on_def Let_def sample_block_def)
  have on: "ecc_shadow_enabled ecc_on" "ecc_check_on_read ecc_on" "ecc_correct_single_bit ecc_on"
    by (simp_all add: ecc_on_def)
  have weight: "\<not> odd_weight 4 6" "odd_weight 4 7" by code_simp+
  show ?thesis
    using ecc_single_data_error [of ecc_on sample_clean 2 ecc_counters0]
      ecc_single_data_error [of ecc_on sample_clean 3 ecc_counters0] clean bytes on weight
    by (simp add: parity_bits_8 code_position_small)
qed

text \<open>A bit flipped by the configured error injection after a write is corrected by the next read check:
  the data read back is the data written.\<close>

theorem injected_error_corrected:
  assumes "ecc_shadow_enabled opt" "ecc_check_on_read opt" "ecc_correct_single_bit opt"
    and "db_checksum b = checksum_bytes (db_bytes b)" "db_bytes b \<noteq> []"
  shows "db_bytes (fst (check_ecc_shadow opt (maybe_inject_ecc_error opt (refresh_ecc_shadow opt (b, n))))) = db_bytes b"
proof -
  obtain c m where c: "refresh_ecc_shadow opt (b, n) = (c, m)" by (cases "refresh_ecc_shadow opt (b, n)")
  have clean: "ecc_clean c" using refresh_ecc_shadow_clean [OF assms(1,4), of n] c by simp
  have bytes: "db_bytes c = db_bytes b" using c assms(1) by (auto simp: refresh_ecc_shadow_def Let_def)
  show ?thesis
  proof (cases "ecc_inject_period opt \<le> 0 \<or> db_version c = 0 \<or> db_version c mod nat (ecc_inject_period opt) \<noteq> 0")
    case True
    then have "maybe_inject_ecc_error opt (c, m) = (c, m)" by (auto simp: maybe_inject_ecc_error_def)
    with c check_ecc_shadow_clean [OF clean] bytes show ?thesis by simp
  next
    case False
    let ?e = "c\<lparr> db_bytes := flip_byte_bit (db_bytes c) 0 \<rparr>"
    let ?i = "?e\<lparr> db_checksum := checksum_bytes (db_bytes ?e), db_ecc_error_injections := db_ecc_error_injections c + 1 \<rparr>"
    have inj: "maybe_inject_ecc_error opt (c, m) = (?i, m\<lparr> ecc_injected_errors := ecc_injected_errors m + 1 \<rparr>)"
      using False assms(1) by (simp add: maybe_inject_ecc_error_def Let_def)
    have d: "0 < length (db_bytes c) * 8" using assms(5) bytes by simp
    obtain k where k: "parity_bits_for_data_bits (length (db_bytes c) * 8) = Suc (Suc k)"
    proof (cases "parity_bits_for_data_bits (length (db_bytes c) * 8)")
      case 0
      with parity_bits_cover [of "length (db_bytes c) * 8"] d show ?thesis by simp
    next
      case (Suc j)
      with parity_bits_cover [of "length (db_bytes c) * 8"] d that show ?thesis by (cases j) simp_all
    qed
    have "\<not> odd_weight (Suc (Suc k)) 3"
      by (induction k) (simp_all add: odd_weight_Suc bit_0)
    then have even: "\<not> odd_weight (parity_bits_for_data_bits (length (db_bytes c) * 8)) (code_position_for_data_bit 0)"
      using k by (simp add: code_position_small)
    note flip = syndrome_of_flip [OF clean d]
    have "db_bytes (fst (check_ecc_shadow opt (?i, n'))) = db_bytes c" for n'
      using assms(1-3) clean flip even data_bit_for_code_position_inverse [OF d]
        code_position_positive [of 0] code_position_not_power [of 0]
      by (simp add: check_ecc_shadow_def Let_def refresh_ecc_shadow_def flip_byte_bit_twice ecc_clean_def)
    with c inj bytes show ?thesis by simp
  qed
qed

lemma injected_error_corrected_witness:
  "db_bytes (fst (check_ecc_shadow ecc_on (maybe_inject_ecc_error ecc_on
     (refresh_ecc_shadow ecc_on (sample_block\<lparr> db_version := 1 \<rparr>, ecc_counters0))))) = [0]
   \<and> db_bytes (fst (maybe_inject_ecc_error ecc_on (refresh_ecc_shadow ecc_on (sample_block\<lparr> db_version := 1 \<rparr>, ecc_counters0)))) = [1]"
proof -
  have "db_bytes (fst (maybe_inject_ecc_error ecc_on (refresh_ecc_shadow ecc_on (sample_block\<lparr> db_version := 1 \<rparr>, ecc_counters0)))) = [1]"
    by code_simp
  with injected_error_corrected [of ecc_on "sample_block\<lparr> db_version := 1 \<rparr>" ecc_counters0] show ?thesis
    by (simp add: ecc_on_def sample_block_def)
qed

text \<open>A double error whose two code positions differ in an odd number of bits is not reported: for the
  data bits 0 and 3 the check takes the syndrome for a parity error, accepts the corrupted byte and
  rewrites the shadow.\<close>

lemma ecc_double_error_accepted:
  "let e = sample_clean\<lparr> db_bytes := flip_byte_bit (flip_byte_bit [0] 0) 3 \<rparr>;
       r = fst (check_ecc_shadow ecc_on (e, ecc_counters0))
   in db_bytes r = [9] \<and> \<not> db_ecc_uncorrectable r \<and> fst (check_ecc_shadow ecc_on (r, ecc_counters0)) = r"
  by code_simp

end
