(* ===== verification/Mem_Image.thy ===== *)
theory Mem_Image
  imports Mem_Secded "HOL-Library.AList"
begin

text \<open>
  The memory image (\<^verbatim>\<open>MemoryImage\<close> of \<^verbatim>\<open>core/data.cpp\<close>) over the sparse backend of
  \<^verbatim>\<open>core/memory_backend.cpp\<close>: lines of bytes kept in the backend, one row buffer per bank that holds
  the touched columns of the open row, masked writes, lazy loads, write-back on precharge and the
  error code of \<^verbatim>\<open>Mem_Secded\<close>. The hash tables whose iteration order C++ leaves open are
  association lists. The power and thermal models are not part of the image here; they read the
  same events and never change data.
\<close>

section \<open>State\<close>

record backend_line =
  bl_bytes :: "u8 list"
  bl_initialized_mask :: "u8 list"
  bl_initialized :: bool
  bl_version :: nat
  bl_last_writer_request_id :: nat
  bl_last_write_cycle :: nat
  bl_last_access_cycle :: nat
  bl_checksum :: u32
  bl_ecc_hamming :: nat
  bl_ecc_overall :: bool
  bl_ecc_parity_bits :: int
  bl_ecc_valid :: bool
  bl_ecc_uncorrectable :: bool
  bl_ecc_error_injections :: nat
  bl_storage_key :: storage_key

record sparse_backend =
  sb_line_size :: nat
  sb_capacity_bytes :: nat
  sb_lines :: "nat \<rightharpoonup> backend_line"
  sb_reverse :: "storage_key \<rightharpoonup> nat"
  sb_unique_written_lines :: nat

record row_buffer =
  rb_open :: bool
  rb_dirty :: bool
  rb_bank_key :: storage_key
  rb_row_key :: storage_key
  rb_opened_cycle :: nat
  rb_last_access_cycle :: nat
  rb_columns :: "(int \<times> data_block) list"

record image_counters =
  read_line_accesses :: nat
  write_line_accesses :: nat
  row_buffer_activations :: nat
  row_buffer_precharges :: nat
  row_buffer_dirty_writebacks :: nat
  row_buffer_clean_precharges :: nat
  row_buffer_hits :: nat
  row_buffer_misses :: nat
  row_buffer_lazy_loads :: nat
  row_buffer_reads :: nat
  row_buffer_writes :: nat
  row_buffer_forced_closes :: nat

record memory_image =
  mi_line_size :: nat
  mi_default_value :: u8
  mi_spec :: "dram_spec option"
  mi_stack_id :: int
  mi_ecc :: ecc_options
  mi_backend :: sparse_backend
  mi_next_version :: nat
  mi_row_buffers :: "(storage_key \<times> row_buffer) list"
  mi_ecc_counters :: ecc_counters
  mi_counters :: image_counters

definition storage_key0 :: storage_key where
  "storage_key0 = \<lparr> sk_stack = 0, sk_channel = 0, sk_pseudo_channel = 0, sk_sid = 0, sk_rank = 0, sk_bank_group = 0,
     sk_bank = 0, sk_row = 0, sk_column = 0 \<rparr>"

definition row_buffer0 :: row_buffer where
  "row_buffer0 = \<lparr> rb_open = False, rb_dirty = False, rb_bank_key = storage_key0, rb_row_key = storage_key0,
     rb_opened_cycle = 0, rb_last_access_cycle = 0, rb_columns = [] \<rparr>"

definition image_counters0 :: image_counters where
  "image_counters0 = \<lparr> read_line_accesses = 0, write_line_accesses = 0, row_buffer_activations = 0,
     row_buffer_precharges = 0, row_buffer_dirty_writebacks = 0, row_buffer_clean_precharges = 0,
     row_buffer_hits = 0, row_buffer_misses = 0, row_buffer_lazy_loads = 0, row_buffer_reads = 0,
     row_buffer_writes = 0, row_buffer_forced_closes = 0 \<rparr>"

text \<open>The constructor over a specification, with the sparse backend.\<close>

definition memory_image_make :: "dram_spec \<Rightarrow> u8 \<Rightarrow> int \<Rightarrow> ecc_options \<Rightarrow> nat \<Rightarrow> memory_image result" where
  "memory_image_make s default_value stack ecc capacity =
     bindR (validate_spec s) (\<lambda>_. bindR (total_addressable_transactions s) (\<lambda>_.
     bindR (if capacity = 0 then addressable_capacity_bytes s else Inr capacity) (\<lambda>capacity.
     let size = nat (transaction_bytes s) in
     Inr \<lparr> mi_line_size = size, mi_default_value = default_value, mi_spec = Some s, mi_stack_id = stack, mi_ecc = ecc,
           mi_backend = \<lparr> sb_line_size = size, sb_capacity_bytes = capacity, sb_lines = Map.empty,
             sb_reverse = Map.empty, sb_unique_written_lines = 0 \<rparr>,
           mi_next_version = 1, mi_row_buffers = [], mi_ecc_counters = ecc_counters0,
           mi_counters = image_counters0 \<rparr>)))"

section \<open>The backend\<close>

definition backend_load :: "nat \<Rightarrow> sparse_backend \<Rightarrow> backend_line option" where
  "backend_load base k = sb_lines k base"

definition validate_line :: "nat \<Rightarrow> backend_line \<Rightarrow> sparse_backend \<Rightarrow> unit result" where
  "validate_line base l k =
     bindR (check (base mod sb_line_size k = 0) (InvalidArgument ''memory backend address is not line aligned'')) (\<lambda>_.
     bindR (check (length (bl_bytes l) = sb_line_size k \<and> length (bl_initialized_mask l) = sb_line_size k)
       (InvalidArgument ''memory backend line has incorrect payload or init-mask size'')) (\<lambda>_.
     check (\<not> (sb_capacity_bytes k \<noteq> 0 \<and> (sb_capacity_bytes k \<le> base \<or> sb_capacity_bytes k - base < sb_line_size k)))
       (OutOfRange ''memory backend address exceeds configured capacity'')))"

definition backend_store :: "nat \<Rightarrow> backend_line \<Rightarrow> sparse_backend \<Rightarrow> sparse_backend result" where
  "backend_store base l k =
     bindR (validate_line base l k) (\<lambda>_.
       let was_written = (case sb_lines k base of None \<Rightarrow> False | Some old \<Rightarrow> 0 < bl_version old);
           is_written = (0 < bl_version l);
           reverse = (case sb_lines k base of None \<Rightarrow> sb_reverse k | Some old \<Rightarrow> (sb_reverse k)(bl_storage_key old := None));
           unique = sb_unique_written_lines k;
           unique = (if \<not> was_written \<and> is_written then unique + 1 else unique);
           unique = (if was_written \<and> \<not> is_written then unique - 1 else unique)
       in Inr (k\<lparr> sb_lines := (sb_lines k)(base \<mapsto> l), sb_reverse := reverse(bl_storage_key l \<mapsto> base),
                  sb_unique_written_lines := unique \<rparr>))"

definition backend_clear :: "sparse_backend \<Rightarrow> sparse_backend" where
  "backend_clear k = k\<lparr> sb_lines := Map.empty, sb_reverse := Map.empty, sb_unique_written_lines := 0 \<rparr>"

definition address_for_storage_key :: "storage_key \<Rightarrow> sparse_backend \<Rightarrow> nat option" where
  "address_for_storage_key key k = sb_reverse k key"

section \<open>Addresses and keys\<close>

definition line_base :: "memory_image \<Rightarrow> nat \<Rightarrow> nat" where
  "line_base m a = a - a mod mi_line_size m"

definition line_offset :: "memory_image \<Rightarrow> nat \<Rightarrow> nat" where
  "line_offset m a = a mod mi_line_size m"

definition require_coordinate :: "int \<Rightarrow> int \<Rightarrow> unit result" where
  "require_coordinate v n = check (0 \<le> v \<and> v < n) (OutOfRange ''decoded coordinate is outside the DRAM organization'')"

definition validate_decoded_address :: "memory_image \<Rightarrow> decoded_address \<Rightarrow> unit result" where
  "validate_decoded_address m d =
     (case mi_spec m of None \<Rightarrow> Inr ()
      | Some s \<Rightarrow>
          bindR (require_coordinate (da_channel d) (channels (org s))) (\<lambda>_.
          bindR (require_coordinate (da_pseudo_channel d) (pseudo_channels (org s))) (\<lambda>_.
          bindR (require_coordinate (da_sid d) (sids (org s))) (\<lambda>_.
          bindR (require_coordinate (da_rank d) (ranks (org s))) (\<lambda>_.
          bindR (require_coordinate (da_bank_group d) (bank_groups (org s))) (\<lambda>_.
          bindR (require_coordinate (da_bank d) (banks_per_group (org s))) (\<lambda>_.
          bindR (require_coordinate (da_row d) (org_rows (org s))) (\<lambda>_.
          require_coordinate (da_column d) (org_columns (org s))))))))))"

text \<open>
  The coordinates that \<^verbatim>\<open>physical_address\<close> uses: the given ones, or those the mapper derives from the
  line, or a flat row number without a specification. Only the storage key and the line base of the
  physical address are kept.
\<close>

definition physical_decoded :: "memory_image \<Rightarrow> nat \<Rightarrow> decoded_address option \<Rightarrow> decoded_address result" where
  "physical_decoded m a dec =
     (case dec of
        Some d \<Rightarrow> bindR (validate_decoded_address m d) (\<lambda>_. Inr d)
      | None \<Rightarrow> (case mi_spec m of
            Some s \<Rightarrow> bindR (address_mapper s) (\<lambda>s. Inr (decode_address s (line_base m a)))
          | None \<Rightarrow> Inr (decoded_zero\<lparr> da_row := int ((line_base m a div mi_line_size m) mod 2 ^ 31) \<rparr>)))"

definition key_of_decoded :: "memory_image \<Rightarrow> decoded_address \<Rightarrow> storage_key" where
  "key_of_decoded m d = \<lparr> sk_stack = mi_stack_id m, sk_channel = da_channel d, sk_pseudo_channel = da_pseudo_channel d,
     sk_sid = da_sid d, sk_rank = da_rank d, sk_bank_group = da_bank_group d, sk_bank = da_bank d, sk_row = da_row d,
     sk_column = da_column d \<rparr>"

definition storage_key_of :: "memory_image \<Rightarrow> nat \<Rightarrow> decoded_address option \<Rightarrow> storage_key result" where
  "storage_key_of m a dec = bindR (physical_decoded m a dec) (\<lambda>d. Inr (key_of_decoded m d))"

definition decoded_from_storage_key :: "storage_key \<Rightarrow> decoded_address" where
  "decoded_from_storage_key k = \<lparr> da_channel = sk_channel k, da_pseudo_channel = sk_pseudo_channel k, da_sid = sk_sid k,
     da_rank = sk_rank k, da_bank_group = sk_bank_group k, da_bank = sk_bank k, da_row = sk_row k, da_column = sk_column k \<rparr>"

definition bank_key_from_storage_key :: "storage_key \<Rightarrow> storage_key" where
  "bank_key_from_storage_key k = k\<lparr> sk_row := -1, sk_column := -1 \<rparr>"

definition row_key_from_storage_key :: "storage_key \<Rightarrow> storage_key" where
  "row_key_from_storage_key k = k\<lparr> sk_column := -1 \<rparr>"

definition bank_key_from_decoded :: "memory_image \<Rightarrow> decoded_address \<Rightarrow> storage_key" where
  "bank_key_from_decoded m d = \<lparr> sk_stack = mi_stack_id m, sk_channel = da_channel d, sk_pseudo_channel = da_pseudo_channel d,
     sk_sid = da_sid d, sk_rank = da_rank d, sk_bank_group = da_bank_group d, sk_bank = da_bank d, sk_row = -1, sk_column = -1 \<rparr>"

definition row_key_from_decoded :: "memory_image \<Rightarrow> decoded_address \<Rightarrow> storage_key" where
  "row_key_from_decoded m d = (bank_key_from_decoded m d)\<lparr> sk_row := da_row d, sk_column := -1 \<rparr>"

section \<open>Lines\<close>

definition all_masked :: "u8 list \<Rightarrow> bool" where
  "all_masked bs \<longleftrightarrow> list_all (\<lambda>b. b \<noteq> 0) bs"

definition make_line :: "memory_image \<Rightarrow> nat \<Rightarrow> decoded_address option \<Rightarrow> data_block result" where
  "make_line m base dec =
     bindR (storage_key_of m base dec) (\<lambda>key.
       let bytes = replicate (mi_line_size m) (mi_default_value m); zeros = replicate (mi_line_size m) 0 in
       Inr \<lparr> db_bytes = bytes, db_byte_mask = zeros, db_initialized_mask = zeros, db_initialized = False, db_version = 0,
             db_last_writer_request_id = 0, db_last_write_cycle = 0, db_last_access_cycle = 0,
             db_checksum = checksum_bytes bytes, db_ecc_hamming = 0, db_ecc_overall = False, db_ecc_parity_bits = 0,
             db_ecc_valid = False, db_ecc_uncorrectable = False, db_ecc_error_injections = 0,
             db_line_base = line_base m base, db_storage_key = key \<rparr>)"

text \<open>The storage key of a block is a copy of its physical address, so refreshing it changes nothing.\<close>

definition refresh_line_metadata :: "data_block \<Rightarrow> data_block" where
  "refresh_line_metadata b =
     b\<lparr> db_initialized := all_masked (db_initialized_mask b), db_checksum := checksum_bytes (db_bytes b) \<rparr>"

definition backend_line_from_block :: "data_block \<Rightarrow> backend_line" where
  "backend_line_from_block b = \<lparr> bl_bytes = db_bytes b, bl_initialized_mask = db_initialized_mask b,
     bl_initialized = db_initialized b, bl_version = db_version b,
     bl_last_writer_request_id = db_last_writer_request_id b, bl_last_write_cycle = db_last_write_cycle b,
     bl_last_access_cycle = db_last_access_cycle b, bl_checksum = db_checksum b, bl_ecc_hamming = db_ecc_hamming b,
     bl_ecc_overall = db_ecc_overall b, bl_ecc_parity_bits = db_ecc_parity_bits b, bl_ecc_valid = db_ecc_valid b,
     bl_ecc_uncorrectable = db_ecc_uncorrectable b, bl_ecc_error_injections = db_ecc_error_injections b,
     bl_storage_key = db_storage_key b \<rparr>"

definition load_backend_line :: "memory_image \<Rightarrow> nat \<Rightarrow> decoded_address option \<Rightarrow> data_block option result" where
  "load_backend_line m base dec =
     (case backend_load base (mi_backend m) of
        None \<Rightarrow> Inr None
      | Some l \<Rightarrow>
          bindR (case dec of None \<Rightarrow> Inr (bl_storage_key l) | Some _ \<Rightarrow> storage_key_of m base dec) (\<lambda>key.
          bindR (physical_decoded m base (case dec of None \<Rightarrow> Some (decoded_from_storage_key key) | Some _ \<Rightarrow> dec)) (\<lambda>_.
          Inr (Some \<lparr> db_bytes = bl_bytes l, db_byte_mask = replicate (mi_line_size m) 0,
             db_initialized_mask = bl_initialized_mask l, db_initialized = bl_initialized l, db_version = bl_version l,
             db_last_writer_request_id = bl_last_writer_request_id l, db_last_write_cycle = bl_last_write_cycle l,
             db_last_access_cycle = bl_last_access_cycle l, db_checksum = bl_checksum l,
             db_ecc_hamming = bl_ecc_hamming l, db_ecc_overall = bl_ecc_overall l,
             db_ecc_parity_bits = bl_ecc_parity_bits l, db_ecc_valid = bl_ecc_valid l,
             db_ecc_uncorrectable = bl_ecc_uncorrectable l, db_ecc_error_injections = bl_ecc_error_injections l,
             db_line_base = line_base m base, db_storage_key = key \<rparr>))))"

definition store_backend_line :: "nat \<Rightarrow> data_block \<Rightarrow> memory_image \<Rightarrow> memory_image result" where
  "store_backend_line base b m =
     bindR (backend_store base (backend_line_from_block b) (mi_backend m)) (\<lambda>k. Inr (m\<lparr> mi_backend := k \<rparr>))"

section \<open>Row buffers\<close>

primrec fold_result :: "('a \<Rightarrow> 's \<Rightarrow> 's result) \<Rightarrow> 'a list \<Rightarrow> 's \<Rightarrow> 's result" where
  "fold_result f [] st = Inr st"
| "fold_result f (x # xs) st = bindR (f x st) (fold_result f xs)"

definition count_image :: "(image_counters \<Rightarrow> image_counters) \<Rightarrow> memory_image \<Rightarrow> memory_image" where
  "count_image f m = m\<lparr> mi_counters := f (mi_counters m) \<rparr>"

definition row_buffer_of :: "memory_image \<Rightarrow> storage_key \<Rightarrow> row_buffer option" where
  "row_buffer_of m bk = map_of (mi_row_buffers m) bk"

definition put_row_buffer :: "storage_key \<Rightarrow> row_buffer \<Rightarrow> memory_image \<Rightarrow> memory_image" where
  "put_row_buffer bk rb m = m\<lparr> mi_row_buffers := AList.update bk rb (mi_row_buffers m) \<rparr>"

definition touch_block :: "nat \<Rightarrow> data_block \<Rightarrow> data_block" where
  "touch_block cycle b = refresh_line_metadata (b\<lparr> db_last_access_cycle := cycle \<rparr>)"

text \<open>The loop that stores the columns of a dirty row buffer.\<close>

definition store_columns :: "nat \<Rightarrow> (int \<times> data_block) list \<Rightarrow> memory_image \<Rightarrow> memory_image result" where
  "store_columns cycle = fold_result (\<lambda>(column, b) m.
     bindR (store_backend_line (db_line_base b) (touch_block cycle b) m) (\<lambda>m.
     Inr (count_image (\<lambda>n. n\<lparr> row_buffer_dirty_writebacks := row_buffer_dirty_writebacks n + 1 \<rparr>) m)))"

definition writeback_row_buffer :: "storage_key \<Rightarrow> nat \<Rightarrow> memory_image \<Rightarrow> memory_image result" where
  "writeback_row_buffer bk cycle m =
     (case row_buffer_of m bk of
        None \<Rightarrow> Inr m
      | Some rb \<Rightarrow>
          if \<not> rb_open rb then Inr m
          else
            let m = count_image (\<lambda>n. n\<lparr> row_buffer_precharges := row_buffer_precharges n + 1 \<rparr>) m in
            if \<not> rb_dirty rb then
              Inr (put_row_buffer bk (rb\<lparr> rb_open := False, rb_columns := [] \<rparr>)
                (count_image (\<lambda>n. n\<lparr> row_buffer_clean_precharges := row_buffer_clean_precharges n + 1 \<rparr>) m))
            else
              bindR (store_columns cycle (rb_columns rb) m) (\<lambda>m.
              Inr (put_row_buffer bk (rb\<lparr> rb_dirty := False, rb_open := False, rb_columns := [] \<rparr>) m)))"

definition activate_row :: "decoded_address \<Rightarrow> nat \<Rightarrow> memory_image \<Rightarrow> memory_image result" where
  "activate_row d cycle m =
     bindR (validate_decoded_address m d) (\<lambda>_.
       let bk = bank_key_from_decoded m d; rk = row_key_from_decoded m d;
           rb = (case row_buffer_of m bk of None \<Rightarrow> row_buffer0 | Some rb \<Rightarrow> rb);
           m = put_row_buffer bk rb m in
       if rb_open rb \<and> rb_row_key rb = rk then Inr (put_row_buffer bk (rb\<lparr> rb_last_access_cycle := cycle \<rparr>) m)
       else
         bindR (if rb_open rb then writeback_row_buffer bk cycle
                  (count_image (\<lambda>n. n\<lparr> row_buffer_forced_closes := row_buffer_forced_closes n + 1 \<rparr>) m)
                else Inr m) (\<lambda>m.
         Inr (put_row_buffer bk \<lparr> rb_open = True, rb_dirty = False, rb_bank_key = bk, rb_row_key = rk,
                rb_opened_cycle = cycle, rb_last_access_cycle = cycle, rb_columns = [] \<rparr>
              (count_image (\<lambda>n. n\<lparr> row_buffer_activations := row_buffer_activations n + 1 \<rparr>) m))))"

definition precharge_bank :: "decoded_address \<Rightarrow> nat \<Rightarrow> memory_image \<Rightarrow> memory_image result" where
  "precharge_bank d cycle m =
     bindR (validate_decoded_address m d) (\<lambda>_. writeback_row_buffer (bank_key_from_decoded m d) cycle m)"

definition precharge_all :: "decoded_address \<Rightarrow> nat \<Rightarrow> memory_image \<Rightarrow> memory_image result" where
  "precharge_all d cycle m =
     bindR (validate_decoded_address m d) (\<lambda>_.
       let targets = map fst (filter (\<lambda>(bk, rb). rb_open rb \<and> sk_channel bk = da_channel d
             \<and> sk_pseudo_channel bk = da_pseudo_channel d \<and> sk_sid bk = da_sid d \<and> sk_rank bk = da_rank d)
             (mi_row_buffers m))
       in fold_result (\<lambda>bk. writeback_row_buffer bk cycle) targets m)"

definition flush_row_buffer :: "nat \<Rightarrow> storage_key \<Rightarrow> memory_image \<Rightarrow> memory_image result" where
  "flush_row_buffer cycle bk m =
     (case row_buffer_of m bk of
        None \<Rightarrow> Inr m
      | Some rb \<Rightarrow>
          if \<not> rb_open rb \<or> \<not> rb_dirty rb then Inr m
          else bindR (store_columns cycle (rb_columns rb) m) (\<lambda>m.
            Inr (put_row_buffer bk (rb\<lparr> rb_dirty := False,
                   rb_columns := map (\<lambda>(c, b). (c, touch_block cycle b)) (rb_columns rb) \<rparr>) m)))"

definition flush_dirty_row_buffers :: "nat \<Rightarrow> memory_image \<Rightarrow> memory_image result" where
  "flush_dirty_row_buffers cycle m = fold_result (flush_row_buffer cycle) (map fst (mi_row_buffers m)) m"

definition flush_all_row_buffers :: "nat \<Rightarrow> memory_image \<Rightarrow> memory_image result" where
  "flush_all_row_buffers cycle m =
     fold_result (\<lambda>bk. writeback_row_buffer bk cycle) (map fst (filter (\<lambda>(bk, rb). rb_open rb) (mi_row_buffers m))) m"

text \<open>
  The block that \<^verbatim>\<open>row_buffer_block\<close> points to is returned by value together with its place; writes
  through the pointer are \<open>put_row_block\<close>.
\<close>

definition put_row_block :: "storage_key \<Rightarrow> int \<Rightarrow> data_block \<Rightarrow> memory_image \<Rightarrow> memory_image" where
  "put_row_block bk c b m =
     (case row_buffer_of m bk of
        None \<Rightarrow> m
      | Some rb \<Rightarrow> put_row_buffer bk (rb\<lparr> rb_columns := AList.update c b (rb_columns rb) \<rparr>) m)"

definition row_buffer_block :: "nat \<Rightarrow> decoded_address option \<Rightarrow> nat \<Rightarrow> memory_image
    \<Rightarrow> ((storage_key \<times> int \<times> data_block) option \<times> memory_image) result" where
  "row_buffer_block base dec cycle m =
     (let missed = Inr (None, count_image (\<lambda>n. n\<lparr> row_buffer_misses := row_buffer_misses n + 1 \<rparr>) m) in
      if dec = None then missed
      else
        bindR (storage_key_of m base dec) (\<lambda>line_key.
          let bk = bank_key_from_storage_key line_key; rk = row_key_from_storage_key line_key; c = sk_column line_key in
          case row_buffer_of m bk of
            None \<Rightarrow> missed
          | Some rb \<Rightarrow>
              if \<not> rb_open rb \<or> rb_row_key rb \<noteq> rk then missed
              else
                let m = count_image (\<lambda>n. n\<lparr> row_buffer_hits := row_buffer_hits n + 1 \<rparr>) m;
                    m = put_row_buffer bk (rb\<lparr> rb_last_access_cycle := cycle \<rparr>) m in
                bindR (case map_of (rb_columns rb) c of
                    Some b \<Rightarrow> Inr (b, m)
                  | None \<Rightarrow>
                      let m = count_image (\<lambda>n. n\<lparr> row_buffer_lazy_loads := row_buffer_lazy_loads n + 1 \<rparr>) m in
                      bindR (load_backend_line m base dec) (\<lambda>backing.
                        case backing of
                          Some b \<Rightarrow> Inr (b, m)
                        | None \<Rightarrow> bindR (make_line m base dec) (\<lambda>b. Inr (b, m)))) (\<lambda>(b, m).
                let b = b\<lparr> db_line_base := line_base m base, db_storage_key := line_key \<rparr> in
                Inr (Some (bk, c, b), put_row_block bk c b m))))"

definition row_buffer_peek :: "memory_image \<Rightarrow> nat \<Rightarrow> decoded_address option \<Rightarrow> data_block option result" where
  "row_buffer_peek m base dec =
     (if dec = None then Inr None
      else
        bindR (storage_key_of m base dec) (\<lambda>line_key.
          case row_buffer_of m (bank_key_from_storage_key line_key) of
            None \<Rightarrow> Inr None
          | Some rb \<Rightarrow>
              if \<not> rb_open rb \<or> rb_row_key rb \<noteq> row_key_from_storage_key line_key then Inr None
              else Inr (map_of (rb_columns rb) (sk_column line_key))))"

section \<open>Reading and writing\<close>

text \<open>
  The pieces into which a span is cut at line boundaries: the offset in the request, the line, the
  offset in the line and the length. A line size of zero, where C++ divides by zero, has no pieces.
\<close>

function line_chunks :: "nat \<Rightarrow> nat \<Rightarrow> nat \<Rightarrow> nat \<Rightarrow> (nat \<times> nat \<times> nat \<times> nat) list" where
  "line_chunks ls address len copied =
     (if ls = 0 \<or> \<not> copied < len then []
      else
        let current = address + copied; offset = current mod ls; base = current - offset;
            chunk = min (len - copied) (ls - offset)
        in (copied, base, offset, chunk) # line_chunks ls address len (copied + chunk))"
  by pat_completeness auto

termination
proof (relation "measure (\<lambda>(ls, a, len, copied). len - copied)")
  fix ls address len copied :: nat and current offset base chunk
  assume guard: "\<not> (ls = 0 \<or> \<not> copied < len)"
    and loc: "current = address + copied" "offset = current mod ls" "base = current - offset"
      "chunk = min (len - copied) (ls - offset)"
  then have "offset < ls" by simp
  with guard loc show "((ls, address, len, copied + chunk), ls, address, len, copied) \<in> measure (\<lambda>(ls, a, len, copied). len - copied)"
    by simp
qed simp

declare line_chunks.simps [simp del]

definition validate_address_span :: "nat \<Rightarrow> nat \<Rightarrow> nat \<Rightarrow> unit result" where
  "validate_address_span address len capacity =
     (if len = 0 then Inr ()
      else bindR (check (len - 1 \<le> u64_max - address) (OverflowError ''address range exceeds Address space'')) (\<lambda>_.
        check (\<not> (capacity \<noteq> 0 \<and> (capacity \<le> address \<or> capacity - address \<le> len - 1)))
          (OutOfRange ''address range exceeds configured capacity'')))"

text \<open>The coordinates of the request describe its first line; further lines are decoded from their address.\<close>

definition line_decoded :: "memory_image \<Rightarrow> nat \<Rightarrow> decoded_address option \<Rightarrow> nat \<Rightarrow> decoded_address option result" where
  "line_decoded m first_base dec base =
     (if base = first_base then Inr dec
      else (case mi_spec m of None \<Rightarrow> Inr None | Some s \<Rightarrow> bindR (address_mapper s) (\<lambda>s. Inr (Some (decode_address s base)))))"

definition with_ecc :: "(ecc_options \<Rightarrow> data_block \<times> ecc_counters \<Rightarrow> data_block \<times> ecc_counters)
    \<Rightarrow> data_block \<times> memory_image \<Rightarrow> data_block \<times> memory_image" where
  "with_ecc f = (\<lambda>(b, m). let (b, n) = f (mi_ecc m) (b, mi_ecc_counters m) in (b, m\<lparr> mi_ecc_counters := n \<rparr>))"

definition read_chunk :: "nat \<Rightarrow> decoded_address option \<Rightarrow> nat \<times> nat \<times> nat \<times> nat
    \<Rightarrow> u8 list \<times> bool \<times> memory_image \<Rightarrow> (u8 list \<times> bool \<times> memory_image) result" where
  "read_chunk first_base dec = (\<lambda>(copied, base, offset, chunk) (out, all_initialized, m).
     bindR (line_decoded m first_base dec base) (\<lambda>line_dec.
     let m = count_image (\<lambda>n. n\<lparr> read_line_accesses := read_line_accesses n + 1 \<rparr>) m in
     bindR (row_buffer_block base line_dec 0 m) (\<lambda>(slot, m).
     case slot of
       Some (bk, c, b) \<Rightarrow>
         let (b, m) = with_ecc check_ecc_shadow (b, m);
             m = count_image (\<lambda>n. n\<lparr> row_buffer_reads := row_buffer_reads n + 1 \<rparr>) (put_row_block bk c b m)
         in Inr (out @ take chunk (drop offset (db_bytes b)),
                 all_initialized \<and> list_all (\<lambda>x. x \<noteq> 0) (take chunk (drop offset (db_initialized_mask b))), m)
     | None \<Rightarrow>
         bindR (load_backend_line m base line_dec) (\<lambda>backing.
         case backing of
           None \<Rightarrow> Inr (out @ replicate chunk (mi_default_value m), False, m)
         | Some before \<Rightarrow>
             let (b, m) = with_ecc check_ecc_shadow (before, m) in
             bindR (if db_bytes b \<noteq> db_bytes before \<or> db_ecc_hamming b \<noteq> db_ecc_hamming before
                      \<or> db_ecc_overall b \<noteq> db_ecc_overall before \<or> db_ecc_valid b \<noteq> db_ecc_valid before
                      \<or> db_ecc_uncorrectable b \<noteq> db_ecc_uncorrectable before
                    then store_backend_line base (refresh_line_metadata b) m else Inr m) (\<lambda>m.
             Inr (out @ take chunk (drop offset (db_bytes b)),
                  all_initialized \<and> list_all (\<lambda>x. x \<noteq> 0) (take chunk (drop offset (db_initialized_mask b))), m))))))"

definition image_read :: "nat \<Rightarrow> nat \<Rightarrow> decoded_address option \<Rightarrow> memory_image \<Rightarrow> (u8 list \<times> bool \<times> memory_image) result" where
  "image_read address len dec m =
     bindR (validate_address_span address len (sb_capacity_bytes (mi_backend m))) (\<lambda>_.
     fold_result (read_chunk (line_base m address) dec) (line_chunks (mi_line_size m) address len 0) ([], True, m))"

text \<open>\<^verbatim>\<open>read_initialized_mask\<close> does not change the image.\<close>

definition mask_chunk :: "memory_image \<Rightarrow> nat \<Rightarrow> decoded_address option \<Rightarrow> nat \<times> nat \<times> nat \<times> nat \<Rightarrow> u8 list \<Rightarrow> u8 list result" where
  "mask_chunk m first_base dec = (\<lambda>(copied, base, offset, chunk) out.
     bindR (line_decoded m first_base dec base) (\<lambda>line_dec.
     bindR (row_buffer_peek m base line_dec) (\<lambda>slot.
     case slot of
       Some b \<Rightarrow> Inr (out @ take chunk (drop offset (db_initialized_mask b)))
     | None \<Rightarrow>
         bindR (load_backend_line m base line_dec) (\<lambda>backing.
         Inr (out @ (case backing of
             None \<Rightarrow> replicate chunk 0
           | Some b \<Rightarrow> take chunk (drop offset (db_initialized_mask b))))))))"

definition read_initialized_mask :: "nat \<Rightarrow> nat \<Rightarrow> decoded_address option \<Rightarrow> memory_image \<Rightarrow> u8 list result" where
  "read_initialized_mask address len dec m =
     bindR (validate_address_span address len (sb_capacity_bytes (mi_backend m))) (\<lambda>_.
     fold_result (mask_chunk m (line_base m address) dec) (line_chunks (mi_line_size m) address len 0) [])"

definition masked_store :: "nat \<Rightarrow> nat \<Rightarrow> (nat \<Rightarrow> bool) \<Rightarrow> (nat \<Rightarrow> u8) \<Rightarrow> u8 list \<Rightarrow> u8 list" where
  "masked_store offset chunk sel f bytes = fold (\<lambda>i ys. if sel i then ys[offset + i := f i] else ys) [0..<chunk] bytes"

definition selected :: "u8 list option \<Rightarrow> nat \<Rightarrow> nat \<Rightarrow> bool" where
  "selected ms copied i = (case ms of None \<Rightarrow> True | Some bs \<Rightarrow> bs ! (copied + i) \<noteq> 0)"

text \<open>The update of the target block: the masked bytes, the masks and, if any byte was written, the writer.\<close>

definition write_block :: "u8 list \<Rightarrow> u8 list option \<Rightarrow> nat \<Rightarrow> nat \<Rightarrow> nat \<Rightarrow> nat \<Rightarrow> nat \<Rightarrow> nat \<Rightarrow> data_block \<Rightarrow> data_block" where
  "write_block data ms copied offset chunk version request_id cycle b =
     (let sel = selected ms copied;
          b = b\<lparr> db_byte_mask := map (\<lambda>_. 0) (db_byte_mask b) \<rparr>;
          b = b\<lparr> db_bytes := masked_store offset chunk sel (\<lambda>i. data ! (copied + i)) (db_bytes b),
                 db_initialized_mask := masked_store offset chunk sel (\<lambda>_. 255) (db_initialized_mask b),
                 db_byte_mask := masked_store offset chunk sel (\<lambda>_. 255) (db_byte_mask b) \<rparr>
      in if list_ex sel [0..<chunk]
         then b\<lparr> db_version := version, db_last_writer_request_id := request_id, db_last_write_cycle := cycle,
                 db_last_access_cycle := cycle \<rparr>
         else b)"

definition write_chunk :: "nat \<Rightarrow> decoded_address option \<Rightarrow> u8 list \<Rightarrow> u8 list option \<Rightarrow> nat \<Rightarrow> nat
    \<Rightarrow> nat \<times> nat \<times> nat \<times> nat \<Rightarrow> memory_image \<Rightarrow> memory_image result" where
  "write_chunk first_base dec data ms request_id cycle = (\<lambda>(copied, base, offset, chunk) m.
     let m = count_image (\<lambda>n. n\<lparr> write_line_accesses := write_line_accesses n + 1 \<rparr>) m in
     bindR (line_decoded m first_base dec base) (\<lambda>line_dec.
     bindR (load_backend_line m base line_dec) (\<lambda>loaded.
     bindR (case loaded of None \<Rightarrow> make_line m base line_dec | Some b \<Rightarrow> Inr b) (\<lambda>backing.
     bindR (row_buffer_block base line_dec cycle m) (\<lambda>(slot, m).
     let wrote_any = list_ex (selected ms copied) [0..<chunk];
         write = write_block data ms copied offset chunk (mi_next_version m) request_id cycle;
         bumped = (\<lambda>m. if wrote_any then m\<lparr> mi_next_version := mi_next_version m + 1 \<rparr> else m)
     in case slot of
       Some (bk, c, b) \<Rightarrow>
         bindR (if loaded = None then store_backend_line base backing m else Inr m) (\<lambda>m.
         let b = write b; m = bumped m;
             m = (if wrote_any
                  then count_image (\<lambda>n. n\<lparr> row_buffer_writes := row_buffer_writes n + 1 \<rparr>)
                         (case row_buffer_of m (bank_key_from_storage_key (db_storage_key b)) of
                            None \<Rightarrow> put_row_buffer (bank_key_from_storage_key (db_storage_key b)) (row_buffer0\<lparr> rb_dirty := True \<rparr>) m
                          | Some rb \<Rightarrow> put_row_buffer (bank_key_from_storage_key (db_storage_key b)) (rb\<lparr> rb_dirty := True \<rparr>) m)
                  else m);
             b = b\<lparr> db_initialized := all_masked (db_initialized_mask b), db_checksum := checksum_bytes (db_bytes b) \<rparr>;
             (b, m) = with_ecc maybe_inject_ecc_error (with_ecc refresh_ecc_shadow (b, m))
         in Inr (put_row_block bk c b m))
     | None \<Rightarrow>
         let b = refresh_line_metadata (write backing);
             (b, m) = with_ecc maybe_inject_ecc_error (with_ecc refresh_ecc_shadow (b, bumped m))
         in store_backend_line base b m)))))"

definition image_write :: "nat \<Rightarrow> u8 list \<Rightarrow> u8 list option \<Rightarrow> decoded_address option \<Rightarrow> nat \<Rightarrow> nat
    \<Rightarrow> memory_image \<Rightarrow> memory_image result" where
  "image_write address data ms dec request_id cycle m =
     bindR (validate_address_span address (length data) (sb_capacity_bytes (mi_backend m))) (\<lambda>_.
     bindR (check (case ms of None \<Rightarrow> True | Some bs \<Rightarrow> length bs = length data)
       (InvalidArgument ''memory image write mask size does not match data size'')) (\<lambda>_.
     fold_result (write_chunk (line_base m address) dec data ms request_id cycle)
       (line_chunks (mi_line_size m) address (length data) 0) m))"

end
