(* ===== verification/Mem_Image_View.thy ===== *)
theory Mem_Image_View
  imports Mem_Image
begin

text \<open>
  The memory image implements a byte-addressed memory. The view of a line is the column of the open
  row buffer of its bank when the line has been touched there, and the line of the backend
  otherwise; the invariant ties the two levels together, and every operation is shown to act on the
  view as the abstract memory does.
\<close>

section \<open>Configuration, lines and views\<close>

definition image_cfg :: "memory_image \<Rightarrow> dram_spec \<Rightarrow> bool" where
  "image_cfg m s \<longleftrightarrow> mi_spec m = Some s \<and> validate_spec s = Inr ()
     \<and> (lpddr_family s \<longrightarrow> lpddr_efficiency_mode s = EffNormal)
     \<and> mi_line_size m = nat (transaction_bytes s) \<and> sb_line_size (mi_backend m) = mi_line_size m
     \<and> sb_capacity_bytes (mi_backend m) = total_lines s * mi_line_size m \<and> total_lines s * mi_line_size m \<le> u64_max"

definition same_cfg :: "memory_image \<Rightarrow> memory_image \<Rightarrow> bool" where
  "same_cfg m m' \<longleftrightarrow> mi_spec m' = mi_spec m \<and> mi_line_size m' = mi_line_size m \<and> mi_default_value m' = mi_default_value m
     \<and> mi_stack_id m' = mi_stack_id m \<and> mi_ecc m' = mi_ecc m
     \<and> sb_line_size (mi_backend m') = sb_line_size (mi_backend m)
     \<and> sb_capacity_bytes (mi_backend m') = sb_capacity_bytes (mi_backend m)"

lemma same_cfg_trans: "same_cfg m m' \<Longrightarrow> same_cfg m' m'' \<Longrightarrow> same_cfg m m''"
  by (simp add: same_cfg_def)

lemma same_cfg_refl [simp]: "same_cfg m m"
  by (simp add: same_cfg_def)

lemma same_cfg_image_cfg: "same_cfg m m' \<Longrightarrow> image_cfg m' s = image_cfg m s"
  by (simp add: same_cfg_def image_cfg_def)

definition is_line :: "dram_spec \<Rightarrow> nat \<Rightarrow> bool" where
  "is_line s base \<longleftrightarrow> (\<exists>l < total_lines s. base = l * nat (transaction_bytes s))"

definition line_key :: "memory_image \<Rightarrow> dram_spec \<Rightarrow> nat \<Rightarrow> storage_key" where
  "line_key m s base = key_of_decoded m (decode_address s base)"

lemma line_key_inj:
  assumes "image_cfg m s" "is_line s base" "is_line s base'" "line_key m s base = line_key m s base'"
  shows "base = base'"
proof -
  obtain k l where kl: "k < total_lines s" "l < total_lines s" "base = k * nat (transaction_bytes s)"
    "base' = l * nat (transaction_bytes s)" using assms(2,3) by (auto simp: is_line_def)
  have dims: "positive_dims s" using assms(1) by (simp add: image_cfg_def valid_positive_dims)
  have "decode_address s (l * nat (transaction_bytes s)) = decode_line s l" for l
    using decode_address_line [of "nat (transaction_bytes s)" s l 0] assms(1) by (simp add: image_cfg_def)
  then have "decode_line s k = decode_line s l" using assms(4) kl
    by (simp add: line_key_def key_of_decoded_def)
  with decode_line_inj [OF dims] kl show ?thesis by (auto dest: inj_onD)
qed

lemma line_decoded_valid:
  assumes "image_cfg m s"
  shows "validate_decoded_address m (decode_address s base) = Inr ()"
proof -
  have dims: "positive_dims s" using assms by (simp add: image_cfg_def valid_positive_dims)
  have "decode_address s base = decode_line s (base div nat (transaction_bytes s))"
    using assms by (auto simp: decode_address_def apply_lpddr_efficiency_def image_cfg_def)
  then have "decode_address s base \<in> coordinates s" using decode_line_coordinates [OF dims] by simp
  then show ?thesis using assms
    by (simp add: validate_decoded_address_def image_cfg_def require_coordinate_def coordinates_def)
qed

lemma storage_key_of_line:
  "image_cfg m s \<Longrightarrow> storage_key_of m a (Some (decode_address s base)) = Inr (line_key m s base)"
  by (simp add: storage_key_of_def physical_decoded_def line_decoded_valid line_key_def)

lemma bank_of_row_key [simp]: "bank_key_from_storage_key (row_key_from_storage_key k) = bank_key_from_storage_key k"
  by (simp add: bank_key_from_storage_key_def row_key_from_storage_key_def)

lemma storage_key_split:
  "row_key_from_storage_key k = row_key_from_storage_key k' \<Longrightarrow> sk_column k = sk_column k' \<Longrightarrow> k = k'"
  by (cases k; cases k') (simp add: row_key_from_storage_key_def)

type_synonym line_content = "u8 list \<times> u8 list"

definition block_content :: "data_block \<Rightarrow> line_content" where
  "block_content b = (db_bytes b, db_initialized_mask b)"

definition backend_view :: "memory_image \<Rightarrow> nat \<Rightarrow> line_content" where
  "backend_view m base =
     (case sb_lines (mi_backend m) base of
        None \<Rightarrow> (replicate (mi_line_size m) (mi_default_value m), replicate (mi_line_size m) 0)
      | Some l \<Rightarrow> (bl_bytes l, bl_initialized_mask l))"

definition line_view :: "memory_image \<Rightarrow> dram_spec \<Rightarrow> nat \<Rightarrow> line_content" where
  "line_view m s base =
     (let key = line_key m s base in
      case row_buffer_of m (bank_key_from_storage_key key) of
        None \<Rightarrow> backend_view m base
      | Some rb \<Rightarrow>
          if rb_open rb \<and> rb_row_key rb = row_key_from_storage_key key
          then (case map_of (rb_columns rb) (sk_column key) of None \<Rightarrow> backend_view m base | Some b \<Rightarrow> block_content b)
          else backend_view m base)"

section \<open>The invariant\<close>

definition shadow_matches :: "u8 list \<Rightarrow> bool \<Rightarrow> nat \<Rightarrow> bool \<Rightarrow> bool" where
  "shadow_matches bytes valid hamming overall \<longleftrightarrow>
     (valid \<longrightarrow> hamming = shadow_hamming (compute_secded_shadow bytes) \<and> overall = shadow_overall (compute_secded_shadow bytes))"

definition block_ok :: "memory_image \<Rightarrow> data_block \<Rightarrow> bool" where
  "block_ok m b \<longleftrightarrow> length (db_bytes b) = mi_line_size m \<and> length (db_initialized_mask b) = mi_line_size m
     \<and> length (db_byte_mask b) = mi_line_size m
     \<and> shadow_matches (db_bytes b) (db_ecc_valid b) (db_ecc_hamming b) (db_ecc_overall b)"

definition stored_ok :: "memory_image \<Rightarrow> backend_line \<Rightarrow> bool" where
  "stored_ok m l \<longleftrightarrow> length (bl_bytes l) = mi_line_size m \<and> length (bl_initialized_mask l) = mi_line_size m
     \<and> shadow_matches (bl_bytes l) (bl_ecc_valid l) (bl_ecc_hamming l) (bl_ecc_overall l)"

definition column_ok :: "memory_image \<Rightarrow> dram_spec \<Rightarrow> row_buffer \<Rightarrow> int \<Rightarrow> data_block \<Rightarrow> bool" where
  "column_ok m s rb c b \<longleftrightarrow> is_line s (db_line_base b) \<and> db_storage_key b = line_key m s (db_line_base b)
     \<and> row_key_from_storage_key (line_key m s (db_line_base b)) = rb_row_key rb
     \<and> sk_column (line_key m s (db_line_base b)) = c \<and> block_ok m b
     \<and> (\<not> rb_dirty rb \<longrightarrow> backend_view m (db_line_base b) = block_content b)"

lemma column_okD:
  assumes "column_ok m s rb c b"
  shows "is_line s (db_line_base b)" "line_key m s (db_line_base b) = db_storage_key b"
    "row_key_from_storage_key (line_key m s (db_line_base b)) = rb_row_key rb"
    "sk_column (line_key m s (db_line_base b)) = c" "block_ok m b"
    "\<not> rb_dirty rb \<Longrightarrow> backend_view m (db_line_base b) = block_content b"
  using assms unfolding column_ok_def by simp_all

definition buffer_ok :: "memory_image \<Rightarrow> dram_spec \<Rightarrow> storage_key \<Rightarrow> row_buffer \<Rightarrow> bool" where
  "buffer_ok m s bk rb \<longleftrightarrow> (rb_open rb \<longrightarrow> bank_key_from_storage_key (rb_row_key rb) = bk
     \<and> distinct (map fst (rb_columns rb)) \<and> (\<forall>c b. map_of (rb_columns rb) c = Some b \<longrightarrow> column_ok m s rb c b))"

definition image_inv :: "memory_image \<Rightarrow> dram_spec \<Rightarrow> bool" where
  "image_inv m s \<longleftrightarrow> image_cfg m s \<and> (\<forall>base l. sb_lines (mi_backend m) base = Some l \<longrightarrow> stored_ok m l)
     \<and> (\<forall>bk rb. row_buffer_of m bk = Some rb \<longrightarrow> buffer_ok m s bk rb)"

section \<open>Frame rules\<close>

lemma row_buffer_of_simps [simp]:
  "row_buffer_of (count_image f m) = row_buffer_of m"
  "row_buffer_of (put_row_buffer bk rb m) = (row_buffer_of m)(bk \<mapsto> rb)"
  "row_buffer_of (m\<lparr> mi_ecc_counters := n \<rparr>) = row_buffer_of m"
  "row_buffer_of (m\<lparr> mi_next_version := v \<rparr>) = row_buffer_of m"
  by (simp_all add: row_buffer_of_def fun_eq_iff count_image_def put_row_buffer_def update_conv')

lemma backend_view_simps [simp]:
  "backend_view (count_image f m) = backend_view m"
  "backend_view (put_row_buffer bk rb m) = backend_view m"
  "backend_view (m\<lparr> mi_ecc_counters := n \<rparr>) = backend_view m"
  "backend_view (m\<lparr> mi_next_version := v \<rparr>) = backend_view m"
  by (simp_all add: backend_view_def fun_eq_iff count_image_def put_row_buffer_def split: option.split)

lemma same_cfg_simps [simp]:
  "same_cfg m (count_image f m') = same_cfg m m'"
  "same_cfg m (put_row_buffer bk rb m') = same_cfg m m'"
  "same_cfg m (m'\<lparr> mi_ecc_counters := n \<rparr>) = same_cfg m m'"
  "same_cfg m (m'\<lparr> mi_next_version := v \<rparr>) = same_cfg m m'"
  by (simp_all add: same_cfg_def count_image_def put_row_buffer_def)

lemma backend_simps [simp]:
  "mi_backend (count_image f m) = mi_backend m"
  "mi_backend (put_row_buffer bk rb m) = mi_backend m"
  by (simp_all add: count_image_def put_row_buffer_def)

lemma same_cfg_views:
  assumes "same_cfg m m'"
  shows "line_key m' s = line_key m s" "block_ok m' = block_ok m" "stored_ok m' = stored_ok m"
  using assms by (simp_all add: fun_eq_iff same_cfg_def line_key_def key_of_decoded_def block_ok_def stored_ok_def)

text \<open>The invariant only depends on the configuration, the lines of the backend and the row buffers.\<close>

definition core_eq :: "memory_image \<Rightarrow> memory_image \<Rightarrow> bool" where
  "core_eq m m' \<longleftrightarrow> same_cfg m m' \<and> row_buffer_of m' = row_buffer_of m \<and> sb_lines (mi_backend m') = sb_lines (mi_backend m)"

lemma core_eq_views:
  assumes "core_eq m m'"
  shows "backend_view m' = backend_view m" "line_view m' s = line_view m s" "image_inv m' s = image_inv m s"
proof -
  have same: "same_cfg m m'" "row_buffer_of m' = row_buffer_of m" "sb_lines (mi_backend m') = sb_lines (mi_backend m)"
    using assms by (auto simp: core_eq_def)
  show view: "backend_view m' = backend_view m"
    using same by (auto simp: backend_view_def fun_eq_iff same_cfg_def split: option.split)
  show "line_view m' s = line_view m s"
    by (rule ext) (simp only: line_view_def view same(2) same_cfg_views [OF same(1)])
  show "image_inv m' s = image_inv m s"
    by (simp add: image_inv_def buffer_ok_def column_ok_def view same same_cfg_views [OF same(1)] same_cfg_image_cfg [OF same(1)])
qed

lemma core_eq_simps [simp]:
  "core_eq m (count_image f m)" "core_eq m (m\<lparr> mi_ecc_counters := n \<rparr>)" "core_eq m (m\<lparr> mi_next_version := v \<rparr>)" "core_eq m m"
  by (simp_all add: core_eq_def)

section \<open>Storing lines\<close>

lemma store_backend_line_ok:
  assumes "image_cfg m s" "is_line s base" "block_ok m b"
  shows "\<exists>m'. store_backend_line base b m = Inr m' \<and> same_cfg m m' \<and> row_buffer_of m' = row_buffer_of m
    \<and> sb_lines (mi_backend m') = (sb_lines (mi_backend m))(base \<mapsto> backend_line_from_block b)"
proof -
  let ?T = "mi_line_size m"
  obtain l where l: "l < total_lines s" "base = l * ?T" using assms(1,2) by (auto simp: is_line_def image_cfg_def)
  have "(l + 1) * ?T \<le> total_lines s * ?T" using l(1) by (intro mult_right_mono) auto
  moreover have "0 < ?T" using assms(1) by (simp add: image_cfg_def)
  ultimately have "base < total_lines s * ?T" "?T \<le> total_lines s * ?T - base" using l by auto
  then have "validate_line base (backend_line_from_block b) (mi_backend m) = Inr ()"
    using assms(1,3) l by (simp add: validate_line_def image_cfg_def block_ok_def backend_line_from_block_def)
  then show ?thesis
    by (simp add: store_backend_line_def backend_store_def same_cfg_def row_buffer_of_def fun_eq_iff Let_def)
qed

lemma backend_view_update:
  assumes "same_cfg m m'" "sb_lines (mi_backend m') = (sb_lines (mi_backend m))(base \<mapsto> backend_line_from_block b)"
  shows "backend_view m' = (backend_view m)(base := block_content b)"
  using assms by (auto simp: fun_eq_iff backend_view_def same_cfg_def backend_line_from_block_def block_content_def
    split: option.split)

lemma touch_block_simps [simp]:
  "block_content (touch_block cycle b) = block_content b" "db_line_base (touch_block cycle b) = db_line_base b"
  "db_storage_key (touch_block cycle b) = db_storage_key b" "block_ok m (touch_block cycle b) = block_ok m b"
  by (simp_all add: touch_block_def refresh_line_metadata_def block_content_def block_ok_def)

definition stored_content :: "(int \<times> data_block) list \<Rightarrow> nat \<rightharpoonup> line_content" where
  "stored_content cols = map_of (map (\<lambda>(c, b). (db_line_base b, block_content b)) cols)"

lemma store_columns_ok:
  assumes "image_cfg m s" "\<forall>(c, b)\<in>set cols. is_line s (db_line_base b) \<and> block_ok m b"
    "distinct (map (\<lambda>cb. db_line_base (snd cb)) cols)"
    "\<forall>base l. sb_lines (mi_backend m) base = Some l \<longrightarrow> stored_ok m l"
  shows "\<exists>m'. store_columns cycle cols m = Inr m' \<and> same_cfg m m' \<and> row_buffer_of m' = row_buffer_of m
    \<and> (\<forall>base l. sb_lines (mi_backend m') base = Some l \<longrightarrow> stored_ok m' l)
    \<and> (\<forall>base. backend_view m' base = (case stored_content cols base of None \<Rightarrow> backend_view m base | Some v \<Rightarrow> v))"
  using assms
proof (induction cols arbitrary: m)
  case Nil
  then show ?case by (simp add: store_columns_def stored_content_def)
next
  case (Cons cb cols)
  obtain c b where cb: "cb = (c, b)" by (cases cb)
  from Cons.prems cb have ok: "is_line s (db_line_base b)" "block_ok m b" by auto
  from store_backend_line_ok [OF Cons.prems(1) ok(1), of "touch_block cycle b"] ok(2)
  obtain m1 where m1: "store_backend_line (db_line_base b) (touch_block cycle b) m = Inr m1" "same_cfg m m1"
    "row_buffer_of m1 = row_buffer_of m"
    "sb_lines (mi_backend m1) = (sb_lines (mi_backend m))(db_line_base b \<mapsto> backend_line_from_block (touch_block cycle b))"
    by auto
  define m2 where "m2 = count_image (\<lambda>n. n\<lparr> row_buffer_dirty_writebacks := row_buffer_dirty_writebacks n + 1 \<rparr>) m1"
  have m2: "same_cfg m m2" "row_buffer_of m2 = row_buffer_of m"
    "sb_lines (mi_backend m2) = (sb_lines (mi_backend m))(db_line_base b \<mapsto> backend_line_from_block (touch_block cycle b))"
    using m1 by (simp_all add: m2_def)
  have stored: "stored_ok m2 (backend_line_from_block (touch_block cycle b))"
    using ok(2) m2(1) touch_block_simps(4) [of m cycle b] unfolding same_cfg_views [OF m2(1)]
    by (simp add: stored_ok_def block_ok_def backend_line_from_block_def)
  have "\<exists>m'. store_columns cycle cols m2 = Inr m' \<and> same_cfg m2 m' \<and> row_buffer_of m' = row_buffer_of m2
    \<and> (\<forall>base l. sb_lines (mi_backend m') base = Some l \<longrightarrow> stored_ok m' l)
    \<and> (\<forall>base. backend_view m' base = (case stored_content cols base of None \<Rightarrow> backend_view m2 base | Some v \<Rightarrow> v))"
  proof (rule Cons.IH)
    show "image_cfg m2 s" using Cons.prems(1) same_cfg_image_cfg [OF m2(1)] by simp
    show "\<forall>(c, b)\<in>set cols. is_line s (db_line_base b) \<and> block_ok m2 b"
      using Cons.prems(2) same_cfg_views(2) [OF m2(1)] by auto
    show "distinct (map (\<lambda>cb. db_line_base (snd cb)) cols)" using Cons.prems(3) by simp
    show "\<forall>base l. sb_lines (mi_backend m2) base = Some l \<longrightarrow> stored_ok m2 l"
      using Cons.prems(4) stored m2(3) same_cfg_views(3) [OF m2(1)] by (metis fun_upd_apply option.inject)
  qed
  then obtain m' where m': "store_columns cycle cols m2 = Inr m'" "same_cfg m2 m'" "row_buffer_of m' = row_buffer_of m2"
    "\<forall>base l. sb_lines (mi_backend m') base = Some l \<longrightarrow> stored_ok m' l"
    "\<forall>base. backend_view m' base = (case stored_content cols base of None \<Rightarrow> backend_view m2 base | Some v \<Rightarrow> v)" by blast
  have run: "store_columns cycle (cb # cols) m = Inr m'"
    using m1(1) m'(1) by (simp add: store_columns_def cb m2_def)
  have "db_line_base b \<notin> set (map (\<lambda>cb. db_line_base (snd cb)) cols)" using Cons.prems(3) cb by simp
  then have "stored_content cols (db_line_base b) = None"
    by (auto simp: stored_content_def map_of_eq_None_iff image_iff split: prod.splits)
  then have "backend_view m' base = (case stored_content (cb # cols) base of None \<Rightarrow> backend_view m base | Some v \<Rightarrow> v)" for base
    using m'(5) backend_view_update [OF m2(1,3)] by (simp add: stored_content_def cb split: option.split)
  with run m' m2 same_cfg_trans show ?case by metis
qed

section \<open>Closing and flushing row buffers\<close>

text \<open>Which lines the columns of an open row buffer hold.\<close>

lemma stored_content_columns:
  assumes "image_cfg m s" "buffer_ok m s bk rb" "rb_open rb" "is_line s base"
  shows "stored_content (rb_columns rb) base =
     (if row_key_from_storage_key (line_key m s base) = rb_row_key rb
      then map_option block_content (map_of (rb_columns rb) (sk_column (line_key m s base))) else None)"
    and "distinct (map (\<lambda>cb. db_line_base (snd cb)) (rb_columns rb))"
    and "\<forall>(c, b)\<in>set (rb_columns rb). is_line s (db_line_base b) \<and> block_ok m b"
proof -
  have dist: "distinct (map fst (rb_columns rb))" using assms(2,3) by (simp add: buffer_ok_def)
  have col: "column_ok m s rb c b" if "(c, b) \<in> set (rb_columns rb)" for c b
    using that assms(2,3) dist by (simp add: buffer_ok_def map_of_is_SomeI)
  have key: "line_key m s (db_line_base b) = db_storage_key b" "sk_column (db_storage_key b) = c"
    "row_key_from_storage_key (db_storage_key b) = rb_row_key rb" if "(c, b) \<in> set (rb_columns rb)" for c b
    using column_okD [OF col [OF that]] by simp_all
  have same: "b = b'" if "(c, b) \<in> set (rb_columns rb)" "(c', b') \<in> set (rb_columns rb)"
    "db_line_base b = db_line_base b'" for c b c' b'
    using that key [OF that(1)] key [OF that(2)] dist by (metis eq_key_imp_eq_value)
  show dist2: "distinct (map (\<lambda>cb. db_line_base (snd cb)) (rb_columns rb))"
    unfolding distinct_map
  proof
    show "distinct (rb_columns rb)" using dist by (simp add: distinct_map)
    show "inj_on (\<lambda>cb. db_line_base (snd cb)) (set (rb_columns rb))"
    proof (rule inj_onI)
      fix x y assume xy: "x \<in> set (rb_columns rb)" "y \<in> set (rb_columns rb)" "db_line_base (snd x) = db_line_base (snd y)"
      obtain c b c' b' where pairs: "x = (c, b)" "y = (c', b')" by fastforce
      with xy same have "b = b'" by auto
      with pairs xy key(2) [of c b] key(2) [of c' b'] show "x = y" by simp
    qed
  qed
  show "\<forall>(c, b)\<in>set (rb_columns rb). is_line s (db_line_base b) \<and> block_ok m b"
    using col by (auto simp: column_ok_def)
  have dist3: "distinct (map fst (map (\<lambda>(c, b). (db_line_base b, block_content b)) (rb_columns rb)))"
    using dist2 by (simp add: comp_def split_def)
  show "stored_content (rb_columns rb) base =
     (if row_key_from_storage_key (line_key m s base) = rb_row_key rb
      then map_option block_content (map_of (rb_columns rb) (sk_column (line_key m s base))) else None)"
  proof (cases "stored_content (rb_columns rb) base")
    case (Some v)
    then obtain c b where cb: "(c, b) \<in> set (rb_columns rb)" "db_line_base b = base" "v = block_content b"
      by (auto simp: stored_content_def dest!: map_of_SomeD)
    from cb(1) dist have c: "map_of (rb_columns rb) c = Some b" by simp
    have "line_key m s base = db_storage_key b" using key(1) [OF cb(1)] cb(2) by simp
    with Some c cb(3) key(2,3) [OF cb(1)] show ?thesis by simp
  next
    case None
    have False if "row_key_from_storage_key (line_key m s base) = rb_row_key rb"
      "map_of (rb_columns rb) (sk_column (line_key m s base)) = Some b" for b
    proof -
      have mem: "(sk_column (line_key m s base), b) \<in> set (rb_columns rb)" using that(2) by (rule map_of_SomeD)
      have "db_storage_key b = line_key m s base"
        by (rule storage_key_split) (simp_all only: key(2,3) [OF mem] that(1))
      then have "line_key m s (db_line_base b) = line_key m s base" by (simp only: key(1) [OF mem])
      with line_key_inj [OF assms(1) column_okD(1) [OF col [OF mem]] assms(4)] have "db_line_base b = base" by blast
      with mem None show False by (force simp: stored_content_def map_of_eq_None_iff)
    qed
    with None show ?thesis by (cases "map_of (rb_columns rb) (sk_column (line_key m s base))") auto
  qed
qed

text \<open>
  A state change that keeps the view: backend lines may take the content of the columns of the bank
  \<open>bk\<close>, whose row buffer is replaced by \<open>rb'\<close>.
\<close>

lemma view_after_store:
  assumes inv: "image_inv m s" and rb: "row_buffer_of m bk = Some rb" "rb_open rb"
    and cfg: "same_cfg m m'" and rbs: "row_buffer_of m' = (row_buffer_of m)(bk \<mapsto> rb')"
    and lines: "\<forall>base l. sb_lines (mi_backend m') base = Some l \<longrightarrow> stored_ok m' l"
    and view: "\<forall>base. is_line s base \<longrightarrow> backend_view m' base =
      (case stored_content (rb_columns rb) base of None \<Rightarrow> backend_view m base | Some v \<Rightarrow> v)"
    and new: "rb_open rb' \<longrightarrow> rb_row_key rb' = rb_row_key rb \<and> distinct (map fst (rb_columns rb'))
      \<and> (\<forall>c. map_option (\<lambda>b. (block_content b, db_line_base b, db_storage_key b)) (map_of (rb_columns rb') c)
           = map_option (\<lambda>b. (block_content b, db_line_base b, db_storage_key b)) (map_of (rb_columns rb) c))
      \<and> (\<forall>c b. map_of (rb_columns rb') c = Some b \<longrightarrow> block_ok m b)"
  shows "image_inv m' s \<and> (\<forall>base. is_line s base \<longrightarrow> line_view m' s base = line_view m s base)"
proof (intro conjI allI impI)
  have cfg_ok: "image_cfg m s" using inv by (simp add: image_inv_def)
  have ok: "buffer_ok m s bk rb" using inv rb by (simp add: image_inv_def)
  have bank: "bank_key_from_storage_key (rb_row_key rb) = bk" using ok rb(2) by (simp add: buffer_ok_def)
  note stored = stored_content_columns(1) [OF cfg_ok ok rb(2)]
  note keys = same_cfg_views [OF cfg]
  have other: "backend_view m' base = backend_view m base"
    if "is_line s base" "bank_key_from_storage_key (line_key m s base) \<noteq> bk" for base
  proof -
    have "row_key_from_storage_key (line_key m s base) \<noteq> rb_row_key rb" using that(2) bank bank_of_row_key by metis
    with view stored [OF that(1)] that(1) show ?thesis by simp
  qed
  show "line_view m' s base = line_view m s base" if line: "is_line s base" for base
  proof (cases "bank_key_from_storage_key (line_key m s base) = bk")
    case False
    with other [OF line False] show ?thesis by (simp add: line_view_def rbs keys Let_def split: option.split)
  next
    case True
    let ?k = "line_key m s base"
    have new_col: "map_option block_content (map_of (rb_columns rb') c) = map_option block_content (map_of (rb_columns rb) c)"
      if "rb_open rb'" for c
    proof -
      have "map_option (\<lambda>b. (block_content b, db_line_base b, db_storage_key b)) (map_of (rb_columns rb') c)
         = map_option (\<lambda>b. (block_content b, db_line_base b, db_storage_key b)) (map_of (rb_columns rb) c)" using new that by blast
      then show ?thesis by (cases "map_of (rb_columns rb') c"; cases "map_of (rb_columns rb) c") auto
    qed
    show ?thesis
    proof (cases "row_key_from_storage_key ?k = rb_row_key rb")
      case False
      with True rb line view stored [OF line] new show ?thesis
        by (auto simp: line_view_def rbs keys Let_def)
    next
      case row: True
      with True rb line view stored [OF line] new new_col [of "sk_column ?k"] show ?thesis
        by (cases "map_of (rb_columns rb) (sk_column ?k)"; cases "map_of (rb_columns rb') (sk_column ?k)")
          (auto simp: line_view_def rbs keys Let_def)
    qed
  qed
  have "buffer_ok m' s bk' r" if r: "row_buffer_of m' bk' = Some r" for bk' r
  proof (cases "bk' = bk")
    case False
    with r rbs have r: "row_buffer_of m bk' = Some r" by simp
    then have old: "buffer_ok m s bk' r" using inv by (simp add: image_inv_def)
    have "column_ok m' s r c b" if open_r: "rb_open r" and c: "map_of (rb_columns r) c = Some b" for c b
    proof -
      have col: "column_ok m s r c b" "bank_key_from_storage_key (rb_row_key r) = bk'"
        using old that by (auto simp: buffer_ok_def)
      note row = column_okD(3,1) [OF col(1)]
      have "bank_key_from_storage_key (line_key m s (db_line_base b)) = bank_key_from_storage_key (rb_row_key r)"
        unfolding row(1) [symmetric] by simp
      with col(2) False row(2) have "is_line s (db_line_base b)"
        "bank_key_from_storage_key (line_key m s (db_line_base b)) \<noteq> bk" by simp_all
      with other col show ?thesis by (auto simp: column_ok_def keys)
    qed
    with old show ?thesis by (simp add: buffer_ok_def)
  next
    case True
    with r rbs have r: "r = rb'" by simp
    have "column_ok m' s rb' c b" if open_r: "rb_open rb'" and c: "map_of (rb_columns rb') c = Some b" for c b
    proof -
      from new open_r c obtain b0 where b0: "map_of (rb_columns rb) c = Some b0" "block_content b = block_content b0"
        "db_line_base b = db_line_base b0" "db_storage_key b = db_storage_key b0" "block_ok m b"
        by (metis (mono_tags, lifting) map_option_eq_Some prod.inject)
      have col: "column_ok m s rb c b0" using ok rb(2) b0(1) by (simp add: buffer_ok_def)
      then have "backend_view m' (db_line_base b0) = block_content b0"
        using view stored [of "db_line_base b0"] b0(1) by (auto simp: column_ok_def)
      with col b0 new open_r show ?thesis by (auto simp: column_ok_def keys)
    qed
    with bank new r True show ?thesis by (auto simp: buffer_ok_def)
  qed
  then show "image_inv m' s" using lines cfg_ok same_cfg_image_cfg [OF cfg] by (simp add: image_inv_def)
qed

text \<open>The image \<open>m'\<close> has the same configuration and the same view as \<open>m\<close>, and keeps the invariant.\<close>

definition same_view :: "dram_spec \<Rightarrow> memory_image \<Rightarrow> memory_image \<Rightarrow> bool" where
  "same_view s m m' \<longleftrightarrow> image_inv m' s \<and> same_cfg m m' \<and> (\<forall>base. is_line s base \<longrightarrow> line_view m' s base = line_view m s base)"

lemma same_view_trans: "same_view s m m' \<Longrightarrow> same_view s m' m'' \<Longrightarrow> same_view s m m''"
  using same_cfg_trans by (auto simp: same_view_def)

lemma same_view_core: "image_inv m s \<Longrightarrow> core_eq m m' \<Longrightarrow> same_view s m m'"
  using core_eq_views(2,3) [of m m' s] by (simp add: same_view_def core_eq_def)

lemma same_view_inv: "same_view s m m' \<Longrightarrow> image_inv m' s"
  by (simp add: same_view_def)

text \<open>Replacing a row buffer without touching its blocks, or by a freshly opened or closed one.\<close>

lemma put_row_buffer_view:
  assumes inv: "image_inv m s" and rb: "row_buffer_of m bk = Some rb"
    and new: "rb_open rb' = rb_open rb" "rb_row_key rb' = rb_row_key rb" "rb_columns rb' = rb_columns rb"
      "rb_dirty rb \<longrightarrow> rb_dirty rb'"
  shows "same_view s m (put_row_buffer bk rb' m)"
proof -
  let ?m = "put_row_buffer bk rb' m"
  have cfg: "same_cfg m ?m" by simp
  have ok: "buffer_ok m s bk rb" using inv rb by (simp add: image_inv_def)
  have "line_view ?m s base = line_view m s base" for base
    using new rb by (auto simp: line_view_def same_cfg_views [OF cfg] Let_def split: option.split)
  moreover have "buffer_ok ?m s bk' r" if "row_buffer_of ?m bk' = Some r" for bk' r
  proof (cases "bk' = bk")
    case True
    with that have "r = rb'" by simp
    with ok new True show ?thesis by (auto simp: buffer_ok_def column_ok_def same_cfg_views [OF cfg])
  next
    case False
    with that inv have "buffer_ok m s bk' r" by (simp add: image_inv_def)
    then show ?thesis by (simp add: buffer_ok_def column_ok_def same_cfg_views [OF cfg])
  qed
  ultimately show ?thesis using inv same_cfg_image_cfg [OF cfg] same_cfg_views [OF cfg]
    by (simp add: same_view_def image_inv_def)
qed

lemma put_empty_row_buffer_view:
  assumes inv: "image_inv m s" and closed: "\<forall>rb. row_buffer_of m bk = Some rb \<longrightarrow> \<not> rb_open rb"
    and new: "rb_columns rb' = []" "rb_open rb' \<longrightarrow> bank_key_from_storage_key (rb_row_key rb') = bk"
  shows "same_view s m (put_row_buffer bk rb' m)"
proof -
  let ?m = "put_row_buffer bk rb' m"
  have cfg: "same_cfg m ?m" by simp
  have "line_view ?m s base = line_view m s base" for base
    using new closed by (auto simp: line_view_def same_cfg_views [OF cfg] Let_def split: option.split)
  moreover have "buffer_ok ?m s bk' r" if "row_buffer_of ?m bk' = Some r" for bk' r
  proof (cases "bk' = bk")
    case True
    with that have "r = rb'" by simp
    with new True show ?thesis by (auto simp: buffer_ok_def)
  next
    case False
    with that inv have "buffer_ok m s bk' r" by (simp add: image_inv_def)
    then show ?thesis by (simp add: buffer_ok_def column_ok_def same_cfg_views [OF cfg])
  qed
  ultimately show ?thesis using inv same_cfg_image_cfg [OF cfg] same_cfg_views [OF cfg]
    by (simp add: same_view_def image_inv_def)
qed

text \<open>Storing the columns of a dirty buffer and then replacing the buffer.\<close>

lemma store_columns_view:
  assumes inv: "image_inv m s" and rb: "row_buffer_of m bk = Some rb" "rb_open rb"
    and new: "rb_open rb' \<longrightarrow> rb_row_key rb' = rb_row_key rb \<and> distinct (map fst (rb_columns rb'))
      \<and> (\<forall>c. map_option (\<lambda>b. (block_content b, db_line_base b, db_storage_key b)) (map_of (rb_columns rb') c)
           = map_option (\<lambda>b. (block_content b, db_line_base b, db_storage_key b)) (map_of (rb_columns rb) c))
      \<and> (\<forall>c b. map_of (rb_columns rb') c = Some b \<longrightarrow> block_ok m b)"
  shows "\<exists>m'. store_columns cycle (rb_columns rb) m = Inr m' \<and> same_view s m (put_row_buffer bk rb' m')
    \<and> row_buffer_of m' = row_buffer_of m"
proof -
  have cfg_ok: "image_cfg m s" using inv by (simp add: image_inv_def)
  have ok: "buffer_ok m s bk rb" using inv rb by (simp add: image_inv_def)
  note cols = stored_content_columns(2,3) [OF cfg_ok ok rb(2)]
  have line0: "is_line s 0" using cfg_ok
    by (auto simp: is_line_def image_cfg_def positive_dims_def total_lines_def dest!: valid_positive_dims intro!: exI [of _ 0])
  from store_columns_ok [OF cfg_ok cols(2) [OF line0] cols(1) [OF line0]] inv
  obtain m' where m': "store_columns cycle (rb_columns rb) m = Inr m'" "same_cfg m m'" "row_buffer_of m' = row_buffer_of m"
    "\<forall>base l. sb_lines (mi_backend m') base = Some l \<longrightarrow> stored_ok m' l"
    "\<forall>base. backend_view m' base = (case stored_content (rb_columns rb) base of None \<Rightarrow> backend_view m base | Some v \<Rightarrow> v)"
    unfolding image_inv_def by blast
  have "image_inv (put_row_buffer bk rb' m') s
    \<and> (\<forall>base. is_line s base \<longrightarrow> line_view (put_row_buffer bk rb' m') s base = line_view m s base)"
  proof (rule view_after_store [OF inv rb])
    show "same_cfg m (put_row_buffer bk rb' m')" using m'(2) by simp
    show "row_buffer_of (put_row_buffer bk rb' m') = (row_buffer_of m)(bk \<mapsto> rb')" using m'(3) by simp
    have "same_cfg m' (put_row_buffer bk rb' m')" by simp
    from m'(4) same_cfg_views(3) [OF this]
    show "\<forall>base l. sb_lines (mi_backend (put_row_buffer bk rb' m')) base = Some l \<longrightarrow> stored_ok (put_row_buffer bk rb' m') l"
      by simp
    show "\<forall>base. is_line s base \<longrightarrow> backend_view (put_row_buffer bk rb' m') base =
        (case stored_content (rb_columns rb) base of None \<Rightarrow> backend_view m base | Some v \<Rightarrow> v)" using m'(5) by simp
    show "rb_open rb' \<longrightarrow> rb_row_key rb' = rb_row_key rb \<and> distinct (map fst (rb_columns rb'))
      \<and> (\<forall>c. map_option (\<lambda>b. (block_content b, db_line_base b, db_storage_key b)) (map_of (rb_columns rb') c)
           = map_option (\<lambda>b. (block_content b, db_line_base b, db_storage_key b)) (map_of (rb_columns rb) c))
      \<and> (\<forall>c b. map_of (rb_columns rb') c = Some b \<longrightarrow> block_ok m b)" by (rule new)
  qed
  with m'(1-3) show ?thesis by (auto simp: same_view_def)
qed

lemma clean_close_view:
  assumes inv: "image_inv m s" and rb: "row_buffer_of m bk = Some rb" "rb_open rb" "\<not> rb_dirty rb"
    and new: "\<not> rb_open rb'"
  shows "same_view s m (put_row_buffer bk rb' m)"
proof -
  have cfg_ok: "image_cfg m s" using inv by (simp add: image_inv_def)
  have ok: "buffer_ok m s bk rb" using inv rb by (simp add: image_inv_def)
  have stored: "backend_view m base = (case stored_content (rb_columns rb) base of None \<Rightarrow> backend_view m base | Some v \<Rightarrow> v)"
    if "is_line s base" for base
  proof (cases "stored_content (rb_columns rb) base")
    case (Some v)
    with stored_content_columns(1) [OF cfg_ok ok rb(2) that]
    obtain b where b: "map_of (rb_columns rb) (sk_column (line_key m s base)) = Some b" "v = block_content b"
      "row_key_from_storage_key (line_key m s base) = rb_row_key rb"
      by (cases "map_of (rb_columns rb) (sk_column (line_key m s base))") (auto split: if_splits)
    with ok rb(2) have col: "column_ok m s rb (sk_column (line_key m s base)) b" by (simp add: buffer_ok_def)
    have "line_key m s (db_line_base b) = line_key m s base"
      by (rule storage_key_split) (simp_all only: column_okD(3,4) [OF col] b(3))
    with line_key_inj [OF cfg_ok column_okD(1) [OF col] that] have "db_line_base b = base" by blast
    with column_okD(6) [OF col rb(3)] b(2) Some show ?thesis by simp
  qed simp
  have "image_inv (put_row_buffer bk rb' m) s
    \<and> (\<forall>base. is_line s base \<longrightarrow> line_view (put_row_buffer bk rb' m) s base = line_view m s base)"
    by (rule view_after_store [OF inv rb(1,2), of _ rb'])
      (use new inv stored in \<open>auto simp: image_inv_def same_cfg_views(3) [of m "put_row_buffer bk rb' m"]\<close>)
  then show ?thesis by (simp add: same_view_def)
qed

lemma writeback_row_buffer_view:
  assumes inv: "image_inv m s"
  shows "\<exists>m'. writeback_row_buffer bk cycle m = Inr m' \<and> same_view s m m'
    \<and> (\<forall>rb. row_buffer_of m' bk = Some rb \<longrightarrow> \<not> rb_open rb)"
proof (cases "row_buffer_of m bk")
  case None
  with inv show ?thesis by (simp add: writeback_row_buffer_def same_view_core)
next
  case (Some rb)
  define m1 where "m1 = count_image (\<lambda>n. n\<lparr> row_buffer_precharges := row_buffer_precharges n + 1 \<rparr>) m"
  have m1: "same_view s m m1" "row_buffer_of m1 = row_buffer_of m" using inv by (simp_all add: m1_def same_view_core)
  show ?thesis
  proof (cases "rb_open rb")
    case False
    with Some inv show ?thesis by (simp add: writeback_row_buffer_def same_view_core)
  next
    case True
    show ?thesis
    proof (cases "rb_dirty rb")
      case False
      define m2 where "m2 = count_image (\<lambda>n. n\<lparr> row_buffer_clean_precharges := row_buffer_clean_precharges n + 1 \<rparr>) m1"
      have m2: "same_view s m m2" "row_buffer_of m2 = row_buffer_of m"
        using same_view_trans [OF m1(1) same_view_core [OF same_view_inv [OF m1(1)]]] m1(2) by (simp_all add: m2_def)
      have "writeback_row_buffer bk cycle m = Inr (put_row_buffer bk (rb\<lparr> rb_open := False, rb_columns := [] \<rparr>) m2)"
        using Some True False by (simp add: writeback_row_buffer_def m1_def m2_def Let_def)
      moreover have "same_view s m2 (put_row_buffer bk (rb\<lparr> rb_open := False, rb_columns := [] \<rparr>) m2)"
        by (rule clean_close_view [OF same_view_inv [OF m2(1)], of bk rb]) (use m2(2) Some True False in simp_all)
      ultimately show ?thesis using same_view_trans [OF m2(1)] by auto
    next
      case dirty: True
      let ?rb = "rb\<lparr> rb_dirty := False, rb_open := False, rb_columns := [] \<rparr>"
      from store_columns_view [OF same_view_inv [OF m1(1)], of bk rb ?rb cycle] Some True m1(2)
      obtain m' where m': "store_columns cycle (rb_columns rb) m1 = Inr m'" "same_view s m1 (put_row_buffer bk ?rb m')" by auto
      have "writeback_row_buffer bk cycle m = Inr (put_row_buffer bk ?rb m')"
        using Some True dirty m'(1) by (simp add: writeback_row_buffer_def m1_def Let_def)
      with same_view_trans [OF m1(1) m'(2)] show ?thesis by auto
    qed
  qed
qed

lemma writeback_view:
  assumes "image_inv m s"
  shows "\<exists>m'. writeback_row_buffer bk cycle m = Inr m' \<and> same_view s m m'"
  using writeback_row_buffer_view [OF assms, of bk cycle] by blast

lemma fold_result_view:
  assumes "image_inv m s" "\<And>x m. image_inv m s \<Longrightarrow> \<exists>m'. f x m = Inr m' \<and> same_view s m m'"
  shows "\<exists>m'. fold_result f xs m = Inr m' \<and> same_view s m m'"
  using assms(1)
proof (induction xs arbitrary: m)
  case Nil
  then show ?case by (simp add: same_view_core)
next
  case (Cons x xs)
  from assms(2) [OF Cons.prems] obtain m1 where m1: "f x m = Inr m1" "same_view s m m1" by blast
  from Cons.IH [OF same_view_inv [OF m1(2)]] m1 same_view_trans show ?case by fastforce
qed

lemma precharge_all_view:
  assumes "image_inv m s" "validate_decoded_address m d = Inr ()"
  shows "\<exists>m'. precharge_all d cycle m = Inr m' \<and> same_view s m m'"
  unfolding precharge_all_def Let_def assms(2) bindR_Inr
  by (rule fold_result_view [OF assms(1)]) (rule writeback_view)

lemma precharge_bank_view:
  assumes "image_inv m s" "validate_decoded_address m d = Inr ()"
  shows "\<exists>m'. precharge_bank d cycle m = Inr m' \<and> same_view s m m'"
  unfolding precharge_bank_def assms(2) bindR_Inr by (rule writeback_view [OF assms(1)])

lemma flush_all_row_buffers_view:
  "image_inv m s \<Longrightarrow> \<exists>m'. flush_all_row_buffers cycle m = Inr m' \<and> same_view s m m'"
  unfolding flush_all_row_buffers_def by (rule fold_result_view) (auto intro: writeback_view)

lemma flush_row_buffer_view:
  assumes inv: "image_inv m s"
  shows "\<exists>m'. flush_row_buffer cycle bk m = Inr m' \<and> same_view s m m'"
proof (cases "row_buffer_of m bk")
  case None
  with inv show ?thesis by (simp add: flush_row_buffer_def same_view_core)
next
  case (Some rb)
  show ?thesis
  proof (cases "rb_open rb \<and> rb_dirty rb")
    case False
    with Some inv show ?thesis by (simp add: flush_row_buffer_def same_view_core)
  next
    case True
    let ?rb = "rb\<lparr> rb_dirty := False, rb_columns := map (\<lambda>(c, b). (c, touch_block cycle b)) (rb_columns rb) \<rparr>"
    have ok: "buffer_ok m s bk rb" using inv Some by (simp add: image_inv_def)
    have fst_eq: "map fst (map (\<lambda>(c, b). (c, touch_block cycle b)) (rb_columns rb)) = map fst (rb_columns rb)"
      by (induction "rb_columns rb") auto
    have "\<exists>m'. store_columns cycle (rb_columns rb) m = Inr m' \<and> same_view s m (put_row_buffer bk ?rb m')
      \<and> row_buffer_of m' = row_buffer_of m"
    proof (rule store_columns_view [OF inv Some], goal_cases)
      case 1
      then show ?case using True by simp
    next
      case 2
      have "block_ok m b" if "map_of (rb_columns rb) c = Some b" for b c
        using ok True that unfolding buffer_ok_def by (blast dest: column_okD(5))
      then show ?case using ok True fst_eq
        by (auto simp: map_of_map buffer_ok_def option.map_comp comp_def simp del: map_map)
    qed
    then show ?thesis using Some True by (auto simp: flush_row_buffer_def)
  qed
qed

lemma flush_dirty_row_buffers_view:
  "image_inv m s \<Longrightarrow> \<exists>m'. flush_dirty_row_buffers cycle m = Inr m' \<and> same_view s m m'"
  unfolding flush_dirty_row_buffers_def by (rule fold_result_view) (auto intro: flush_row_buffer_view)

lemma bank_of_row_decoded [simp]:
  "bank_key_from_storage_key (row_key_from_decoded m d) = bank_key_from_decoded m d"
  by (simp add: bank_key_from_storage_key_def row_key_from_decoded_def bank_key_from_decoded_def)

lemma activate_row_view:
  assumes inv: "image_inv m s" and valid: "validate_decoded_address m d = Inr ()"
  shows "\<exists>m'. activate_row d cycle m = Inr m' \<and> same_view s m m'"
proof -
  let ?bk = "bank_key_from_decoded m d"
  define rb where "rb = (case row_buffer_of m ?bk of None \<Rightarrow> row_buffer0 | Some rb \<Rightarrow> rb)"
  define m1 where "m1 = put_row_buffer ?bk rb m"
  have m1: "same_view s m m1"
  proof (cases "row_buffer_of m ?bk")
    case None
    then show ?thesis unfolding m1_def rb_def
      by (intro put_empty_row_buffer_view [OF inv]) (simp_all add: row_buffer0_def)
  next
    case (Some r)
    then show ?thesis unfolding m1_def rb_def by (intro put_row_buffer_view [OF inv]) auto
  qed
  have rb_m1: "row_buffer_of m1 ?bk = Some rb" by (simp add: m1_def)
  have cfg1: "bank_key_from_decoded m1 d = ?bk" by (simp add: m1_def bank_key_from_decoded_def put_row_buffer_def)
  show ?thesis
  proof (cases "rb_open rb \<and> rb_row_key rb = row_key_from_decoded m d")
    case True
    have "same_view s m1 (put_row_buffer ?bk (rb\<lparr> rb_last_access_cycle := cycle \<rparr>) m1)"
      by (rule put_row_buffer_view [OF same_view_inv [OF m1] rb_m1]) simp_all
    with same_view_trans [OF m1] True valid show ?thesis
      by (auto simp: activate_row_def Let_def rb_def [symmetric] m1_def [symmetric])
  next
    case False
    define m2 where "m2 = (if rb_open rb then writeback_row_buffer ?bk cycle
        (count_image (\<lambda>n. n\<lparr> row_buffer_forced_closes := row_buffer_forced_closes n + 1 \<rparr>) m1) else Inr m1)"
    have "\<exists>m'. m2 = Inr m' \<and> same_view s m1 m' \<and> (\<forall>rb. row_buffer_of m' ?bk = Some rb \<longrightarrow> \<not> rb_open rb)"
    proof (cases "rb_open rb")
      case True
      have "same_view s m1 (count_image (\<lambda>n. n\<lparr> row_buffer_forced_closes := row_buffer_forced_closes n + 1 \<rparr>) m1)"
        by (rule same_view_core [OF same_view_inv [OF m1]]) simp
      from writeback_row_buffer_view [OF same_view_inv [OF this], of ?bk cycle] same_view_trans [OF this] True
      show ?thesis by (auto simp: m2_def)
    next
      case False
      then show ?thesis using rb_m1 same_view_core [OF same_view_inv [OF m1]] by (simp add: m2_def)
    qed
    then obtain m3 where m3: "m2 = Inr m3" "same_view s m1 m3" "\<forall>rb. row_buffer_of m3 ?bk = Some rb \<longrightarrow> \<not> rb_open rb"
      by blast
    define m4 where "m4 = count_image (\<lambda>n. n\<lparr> row_buffer_activations := row_buffer_activations n + 1 \<rparr>) m3"
    let ?rb = "\<lparr> rb_open = True, rb_dirty = False, rb_bank_key = ?bk, rb_row_key = row_key_from_decoded m d,
        rb_opened_cycle = cycle, rb_last_access_cycle = cycle, rb_columns = [] \<rparr>"
    have m4: "same_view s m3 m4" unfolding m4_def by (rule same_view_core [OF same_view_inv [OF m3(2)]]) simp
    have "same_view s m4 (put_row_buffer ?bk ?rb m4)"
      by (rule put_empty_row_buffer_view [OF same_view_inv [OF m4]]) (use m3(3) in \<open>simp_all add: m4_def\<close>)
    then have "same_view s m (put_row_buffer ?bk ?rb m4)"
      using m1 m3(2) m4 same_view_trans by blast
    moreover have "activate_row d cycle m = Inr (put_row_buffer ?bk ?rb m4)"
      unfolding activate_row_def valid bindR_Inr Let_def rb_def [symmetric] m1_def [symmetric] if_not_P [OF False]
        m2_def [symmetric] m3(1) by (simp add: m4_def)
    ultimately show ?thesis by blast
  qed
qed

section \<open>Columns\<close>

text \<open>Writing a block into a column of the open row replaces the view of its line.\<close>

lemma put_row_block_view:
  assumes inv: "image_inv m s" and line: "is_line s base"
    and rb: "row_buffer_of m (bank_key_from_storage_key (line_key m s base)) = Some rb" "rb_open rb"
      "rb_row_key rb = row_key_from_storage_key (line_key m s base)"
    and b: "db_line_base b = base" "db_storage_key b = line_key m s base" "block_ok m b"
      "\<not> rb_dirty rb \<longrightarrow> backend_view m base = block_content b"
  defines "m' \<equiv> put_row_block (bank_key_from_storage_key (line_key m s base)) (sk_column (line_key m s base)) b m"
  shows "image_inv m' s \<and> same_cfg m m'
    \<and> (\<forall>base'. is_line s base' \<longrightarrow> line_view m' s base' = (if base' = base then block_content b else line_view m s base'))"
proof -
  let ?k = "line_key m s base" let ?bk = "bank_key_from_storage_key ?k" let ?c = "sk_column ?k"
  let ?rb = "rb\<lparr> rb_columns := AList.update ?c b (rb_columns rb) \<rparr>"
  have m': "m' = put_row_buffer ?bk ?rb m" by (simp add: m'_def put_row_block_def rb(1))
  have cfg: "same_cfg m m'" by (simp add: m')
  note keys = same_cfg_views [OF cfg]
  have rbs: "row_buffer_of m' = (row_buffer_of m)(?bk \<mapsto> ?rb)" by (simp add: m')
  have views: "backend_view m' = backend_view m" by (simp add: m')
  have ok: "buffer_ok m s ?bk rb" using inv rb by (simp add: image_inv_def)
  have cfg_ok: "image_cfg m s" using inv by (simp add: image_inv_def)
  have col: "column_ok m s rb ?c b" using line b rb(3) by (simp add: column_ok_def)
  have "line_view m' s base' = (if base' = base then block_content b else line_view m s base')" if line': "is_line s base'" for base'
  proof (cases "base' = base")
    case True
    with rb show ?thesis by (simp add: line_view_def rbs keys views Let_def update_conv')
  next
    case False
    show ?thesis
    proof (cases "bank_key_from_storage_key (line_key m s base') = ?bk \<and> row_key_from_storage_key (line_key m s base') = rb_row_key rb")
      case True
      have "sk_column (line_key m s base') \<noteq> ?c"
        using line_key_inj [OF cfg_ok line' line] storage_key_split [of "line_key m s base'" ?k] True rb(3) False by auto
      with True False rb show ?thesis by (simp add: line_view_def rbs keys views Let_def update_conv' split: option.split)
    next
      case other: False
      with False rb show ?thesis by (auto simp: line_view_def rbs keys views Let_def split: option.split)
    qed
  qed
  moreover have "buffer_ok m' s bk' r" if "row_buffer_of m' bk' = Some r" for bk' r
  proof (cases "bk' = ?bk")
    case True
    with that rbs have r: "r = ?rb" by simp
    have "distinct (map fst (AList.update ?c b (rb_columns rb)))" using ok rb(2) by (simp add: buffer_ok_def distinct_update)
    with ok rb(2) col r True show ?thesis
      by (auto simp: buffer_ok_def update_conv' column_ok_def keys views split: if_splits)
  next
    case False
    with that rbs inv have "buffer_ok m s bk' r" by (simp add: image_inv_def)
    then show ?thesis by (simp add: buffer_ok_def column_ok_def keys views)
  qed
  ultimately show ?thesis using inv cfg same_cfg_image_cfg [OF cfg] keys by (simp add: image_inv_def m')
qed

end
