(* ===== verification/Mem_Image_Correct.thy ===== *)
theory Mem_Image_Correct
  imports Mem_Image_View
begin

text \<open>
  Reads and writes of the memory image act on the views of the touched lines as on a byte-addressed
  memory, whatever rows are open. The last section states the refinement for whole sequences of
  reads, writes, activates, precharges and flushes.
\<close>

section \<open>The block behind a line\<close>

lemma is_line_base: "image_cfg m s \<Longrightarrow> is_line s base \<Longrightarrow> line_base m base = base"
  by (auto simp: is_line_def image_cfg_def line_base_def)

lemma load_backend_line_view:
  assumes "image_inv m s" "is_line s base"
  shows "\<exists>loaded. load_backend_line m base (Some (decode_address s base)) = Inr loaded
    \<and> (loaded = None \<longleftrightarrow> sb_lines (mi_backend m) base = None)
    \<and> (\<forall>b. loaded = Some b \<longrightarrow> block_ok m b \<and> block_content b = backend_view m base \<and> db_line_base b = base
          \<and> db_storage_key b = line_key m s base)"
proof -
  have cfg: "image_cfg m s" using assms(1) by (simp add: image_inv_def)
  note key = storage_key_of_line [OF cfg, of base base]
  have dec: "physical_decoded m base (Some (decode_address s base)) = Inr (decode_address s base)"
    using line_decoded_valid [OF cfg] by (simp add: physical_decoded_def)
  show ?thesis
  proof (cases "sb_lines (mi_backend m) base")
    case None
    then show ?thesis by (simp add: load_backend_line_def backend_load_def)
  next
    case (Some l)
    with assms(1) have ok: "stored_ok m l" by (simp add: image_inv_def)
    show ?thesis using Some key dec is_line_base [OF cfg assms(2)] ok
      by (simp add: load_backend_line_def backend_load_def block_ok_def stored_ok_def block_content_def backend_view_def)
  qed
qed

lemma make_line_view:
  assumes "image_cfg m s" "is_line s base"
  shows "\<exists>b. make_line m base (Some (decode_address s base)) = Inr b \<and> block_ok m b \<and> db_line_base b = base
    \<and> db_storage_key b = line_key m s base
    \<and> block_content b = (replicate (mi_line_size m) (mi_default_value m), replicate (mi_line_size m) 0)"
  using storage_key_of_line [OF assms(1), of base base] is_line_base [OF assms]
  by (simp add: make_line_def Let_def block_ok_def shadow_matches_def block_content_def)

text \<open>What a pointer into the open row refers to.\<close>

definition slot_ok :: "memory_image \<Rightarrow> dram_spec \<Rightarrow> nat \<Rightarrow> storage_key \<Rightarrow> int \<Rightarrow> data_block \<Rightarrow> bool" where
  "slot_ok m s base bk c b \<longleftrightarrow> bk = bank_key_from_storage_key (line_key m s base) \<and> c = sk_column (line_key m s base)
     \<and> db_line_base b = base \<and> db_storage_key b = line_key m s base \<and> block_ok m b \<and> block_content b = line_view m s base
     \<and> (\<exists>rb. row_buffer_of m bk = Some rb \<and> rb_open rb \<and> rb_row_key rb = row_key_from_storage_key (line_key m s base)
          \<and> map_of (rb_columns rb) c = Some b)"

lemma slot_ok_core: "core_eq m m' \<Longrightarrow> slot_ok m' s = slot_ok m s"
proof -
  assume core: "core_eq m m'"
  then have cfg: "same_cfg m m'" and rbs: "row_buffer_of m' = row_buffer_of m" by (simp_all add: core_eq_def)
  show ?thesis unfolding slot_ok_def [abs_def] core_eq_views(2) [OF core] same_cfg_views [OF cfg] rbs by (rule refl)
qed

definition row_closed :: "memory_image \<Rightarrow> dram_spec \<Rightarrow> nat \<Rightarrow> bool" where
  "row_closed m s base \<longleftrightarrow> (\<forall>rb. row_buffer_of m (bank_key_from_storage_key (line_key m s base)) = Some rb \<longrightarrow>
     \<not> (rb_open rb \<and> rb_row_key rb = row_key_from_storage_key (line_key m s base)))"

lemma row_closed_view: "row_closed m s base \<Longrightarrow> line_view m s base = backend_view m base"
  by (auto simp: row_closed_def line_view_def Let_def split: option.split)

lemma row_buffer_block_view:
  assumes inv: "image_inv m s" and line: "is_line s base"
  shows "\<exists>slot m'. row_buffer_block base (Some (decode_address s base)) cycle m = Inr (slot, m') \<and> same_view s m m'
    \<and> mi_backend m' = mi_backend m \<and> mi_ecc m' = mi_ecc m \<and> mi_next_version m' = mi_next_version m
    \<and> (case slot of None \<Rightarrow> row_closed m' s base | Some (bk, c, b) \<Rightarrow> slot_ok m' s base bk c b)"
proof -
  let ?d = "decode_address s base" and ?k = "line_key m s base"
  let ?bk = "bank_key_from_storage_key ?k" and ?c = "sk_column ?k"
  have cfg: "image_cfg m s" using inv by (simp add: image_inv_def)
  note key = storage_key_of_line [OF cfg, of base base]
  define mm where "mm = count_image (\<lambda>n. n\<lparr> row_buffer_misses := row_buffer_misses n + 1 \<rparr>) m"
  have mm: "same_view s m mm" "mi_backend mm = mi_backend m" "mi_ecc mm = mi_ecc m" "mi_next_version mm = mi_next_version m"
    using same_view_core [OF inv] by (simp_all add: mm_def) (simp_all add: count_image_def)
  have missed: ?thesis
    if run: "row_buffer_block base (Some ?d) cycle m = Inr (None, mm)" and closed: "row_closed m s base"
  proof -
    have "same_cfg m mm" by (simp add: mm_def)
    with closed have "row_closed mm s base" unfolding row_closed_def same_cfg_views [OF \<open>same_cfg m mm\<close>] by (simp add: mm_def)
    with run mm show ?thesis by (intro exI [of _ None] exI [of _ mm]) simp
  qed
  show ?thesis
  proof (cases "row_buffer_of m ?bk")
    case None
    then show ?thesis using key
      by (intro missed) (simp_all add: row_buffer_block_def mm_def row_closed_def Let_def)
  next
    case (Some rb)
    show ?thesis
    proof (cases "\<not> rb_open rb \<or> rb_row_key rb \<noteq> row_key_from_storage_key ?k")
      case True
      then show ?thesis using key Some
        by (intro missed) (auto simp: row_buffer_block_def mm_def row_closed_def Let_def)
    next
      case False
      define m1 where "m1 = count_image (\<lambda>n. n\<lparr> row_buffer_hits := row_buffer_hits n + 1 \<rparr>) m"
      define rb1 where "rb1 = rb\<lparr> rb_last_access_cycle := cycle \<rparr>"
      define m2 where "m2 = put_row_buffer ?bk rb1 m1"
      have m1: "same_view s m m1" "row_buffer_of m1 = row_buffer_of m" using same_view_core [OF inv] by (simp_all add: m1_def)
      have "same_view s m1 m2" unfolding m2_def
        by (rule put_row_buffer_view [OF same_view_inv [OF m1(1)]]) (use Some m1(2) in \<open>auto simp: rb1_def\<close>)
      with m1(1) have m2: "same_view s m m2" by (rule same_view_trans)
      have keep2: "mi_backend m2 = mi_backend m" "mi_ecc m2 = mi_ecc m" "mi_next_version m2 = mi_next_version m"
        "row_buffer_of m2 ?bk = Some rb1" "backend_view m2 = backend_view m"
        by (simp_all add: m2_def m1_def) (simp_all add: put_row_buffer_def count_image_def)
      have cfg2: "same_cfg m m2" using m2 by (simp add: same_view_def)
      note keys2 = same_cfg_views [OF cfg2]
      have open1: "rb_open rb1" "rb_row_key rb1 = row_key_from_storage_key (line_key m2 s base)" "rb_columns rb1 = rb_columns rb"
        "rb_dirty rb1 = rb_dirty rb"
        using False by (simp_all add: rb1_def keys2)
      have rbok: "buffer_ok m s ?bk rb" using inv Some by (simp add: image_inv_def)
      define fetch where "fetch = (case map_of (rb_columns rb) ?c of
          Some b \<Rightarrow> Inr (b, m2)
        | None \<Rightarrow> let m = count_image (\<lambda>n. n\<lparr> row_buffer_lazy_loads := row_buffer_lazy_loads n + 1 \<rparr>) m2 in
            bindR (load_backend_line m base (Some ?d)) (\<lambda>backing.
              case backing of Some b \<Rightarrow> Inr (b, m) | None \<Rightarrow> bindR (make_line m base (Some ?d)) (\<lambda>b. Inr (b, m))))"
      have "\<exists>b m3. fetch = Inr (b, m3) \<and> core_eq m2 m3 \<and> mi_backend m3 = mi_backend m2 \<and> mi_ecc m3 = mi_ecc m2
          \<and> mi_next_version m3 = mi_next_version m2 \<and> block_ok m b \<and> block_content b = line_view m s base
          \<and> (\<not> rb_dirty rb \<longrightarrow> backend_view m base = block_content b)"
      proof (cases "map_of (rb_columns rb) ?c")
        case (Some b)
        with rbok False have col: "column_ok m s rb ?c b" by (simp add: buffer_ok_def)
        have "line_key m s (db_line_base b) = ?k"
          by (rule storage_key_split) (use column_okD(3,4) [OF col] False in auto)
        then have "db_line_base b = base" using line_key_inj [OF cfg column_okD(1) [OF col] line] by blast
        moreover have "block_content b = line_view m s base"
          using Some False \<open>row_buffer_of m ?bk = Some rb\<close> by (simp add: line_view_def Let_def)
        ultimately show ?thesis using Some column_okD(5,6) [OF col] by (simp add: fetch_def)
      next
        case None
        define m3 where "m3 = count_image (\<lambda>n. n\<lparr> row_buffer_lazy_loads := row_buffer_lazy_loads n + 1 \<rparr>) m2"
        have m3: "core_eq m2 m3" "mi_backend m3 = mi_backend m2" "mi_ecc m3 = mi_ecc m2" "mi_next_version m3 = mi_next_version m2"
          by (simp_all add: m3_def) (simp_all add: count_image_def)
        have inv3: "image_inv m3 s" using core_eq_views(3) [OF m3(1)] same_view_inv [OF m2] by simp
        have cfg3: "same_cfg m m3" using cfg2 m3(1) same_cfg_trans by (auto simp: core_eq_def)
        have back3: "backend_view m3 = backend_view m" using keep2(5) core_eq_views(1) [OF m3(1)] by simp
        have view: "line_view m s base = backend_view m base"
          using None False \<open>row_buffer_of m ?bk = Some rb\<close> by (simp add: line_view_def Let_def)
        from load_backend_line_view [OF inv3 line] obtain loaded where
          "load_backend_line m3 base (Some ?d) = Inr loaded
            \<and> (loaded = None \<longleftrightarrow> sb_lines (mi_backend m3) base = None)
            \<and> (\<forall>b. loaded = Some b \<longrightarrow> block_ok m3 b \<and> block_content b = backend_view m3 base \<and> db_line_base b = base
               \<and> db_storage_key b = line_key m3 s base)" by (rule exE)
        note loaded = this [THEN conjunct1] this [THEN conjunct2, THEN conjunct1] this [THEN conjunct2, THEN conjunct2]
        have fetch: "fetch = bindR (load_backend_line m3 base (Some ?d)) (\<lambda>backing.
              case backing of Some b \<Rightarrow> Inr (b, m3) | None \<Rightarrow> bindR (make_line m3 base (Some ?d)) (\<lambda>b. Inr (b, m3)))"
          unfolding fetch_def None Let_def m3_def [symmetric] by simp
        show ?thesis
        proof (cases loaded)
          case (Some b)
          with fetch loaded m3 back3 view same_cfg_views(2) [OF cfg3] show ?thesis by simp
        next
          case none: None
          have "image_cfg m3 s" using inv3 by (simp add: image_inv_def)
          from make_line_view [OF this line] obtain b where b: "make_line m3 base (Some ?d) = Inr b" "block_ok m3 b"
            "block_content b = (replicate (mi_line_size m3) (mi_default_value m3), replicate (mi_line_size m3) 0)" by blast
          moreover have "backend_view m3 base = (replicate (mi_line_size m3) (mi_default_value m3), replicate (mi_line_size m3) 0)"
            using none loaded(2) by (simp add: backend_view_def)
          ultimately show ?thesis using fetch loaded(1) none m3 back3 view same_cfg_views(2) [OF cfg3] by simp
        qed
      qed
      then obtain b m3 where b: "fetch = Inr (b, m3)" "core_eq m2 m3" "mi_backend m3 = mi_backend m2" "mi_ecc m3 = mi_ecc m2"
        "mi_next_version m3 = mi_next_version m2" "block_ok m b" "block_content b = line_view m s base"
        "\<not> rb_dirty rb \<longrightarrow> backend_view m base = block_content b" by blast
      have sv3: "same_view s m m3" using same_view_trans [OF m2 same_view_core [OF same_view_inv [OF m2] b(2)]] .
      then have cfg3: "same_cfg m m3" by (simp add: same_view_def)
      note keys3 = same_cfg_views [OF cfg3]
      have rb3: "row_buffer_of m3 ?bk = Some rb1" using b(2) keep2(4) by (simp add: core_eq_def)
      have base3: "line_base m3 base = base"
        by (rule is_line_base [OF _ line]) (use same_view_inv [OF sv3] in \<open>simp add: image_inv_def\<close>)
      define b' where "b' = b\<lparr> db_line_base := base, db_storage_key := ?k \<rparr>"
      have b': "block_ok m3 b'" "block_content b' = line_view m s base" "db_line_base b' = base"
        "db_storage_key b' = line_key m3 s base"
        using b(6,7) by (simp_all add: b'_def keys3) (simp_all add: block_ok_def block_content_def)
      define m4 where "m4 = put_row_block ?bk ?c b' m3"
      have "\<not> rb_dirty rb1 \<longrightarrow> backend_view m3 base = block_content b'"
        using b(8) b(7) b'(2) open1(4) keep2(5) core_eq_views(1) [OF b(2)] by simp
      from put_row_block_view [OF same_view_inv [OF sv3] line, unfolded keys3, OF rb3 open1(1), of b'] open1(2) b' this
      have m4: "image_inv m4 s" "same_cfg m3 m4"
        "\<forall>base'. is_line s base' \<longrightarrow> line_view m4 s base' = (if base' = base then block_content b' else line_view m3 s base')"
        by (simp_all add: keys2 keys3 m4_def)
      have sv4: "same_view s m m4"
        using m4 sv3 b'(2) same_cfg_trans [OF cfg3 m4(2)] by (simp add: same_view_def)
      then have keys4: "line_key m4 s = line_key m s" "block_ok m4 = block_ok m"
        using same_cfg_views [of m m4] by (simp_all add: same_view_def)
      have rb4: "row_buffer_of m4 ?bk = Some (rb1\<lparr> rb_columns := AList.update ?c b' (rb_columns rb1) \<rparr>)"
        by (simp add: m4_def put_row_block_def rb3)
      have "slot_ok m4 s base ?bk ?c b'"
        using b' sv4 line rb4 open1 by (simp add: slot_ok_def keys4 keys3 keys2 same_view_def update_conv')
      moreover have "row_buffer_block base (Some ?d) cycle m = Inr (Some (?bk, ?c, b'), m4)"
        unfolding row_buffer_block_def Let_def key bindR_Inr Some option.case if_not_P [OF False]
          m1_def [symmetric] rb1_def [symmetric] m2_def [symmetric] fetch_def [unfolded Let_def, symmetric] b(1)
        by (simp add: base3 b'_def m4_def)
      moreover have "mi_backend m4 = mi_backend m" "mi_ecc m4 = mi_ecc m" "mi_next_version m4 = mi_next_version m"
        using keep2(1-3) b(3-5) by (simp_all add: m4_def put_row_block_def rb3 put_row_buffer_def)
      ultimately show ?thesis using sv4 by (intro exI [of _ "Some (?bk, ?c, b')"] exI [of _ m4]) simp
    qed
  qed
qed

section \<open>One piece of a read\<close>

lemma check_ecc_block_ok:
  assumes "block_ok m b"
  shows "fst (check_ecc_shadow opt (b, n)) = b"
  using assms by (auto simp: check_ecc_shadow_def block_ok_def shadow_matches_def Let_def)

lemma with_ecc_check:
  "block_ok m b \<Longrightarrow> \<exists>n. with_ecc check_ecc_shadow (b, k) = (b, k\<lparr> mi_ecc_counters := n \<rparr>)"
  using check_ecc_block_ok [of m b "mi_ecc k" "mi_ecc_counters k"]
  by (auto simp: with_ecc_def split: prod.splits)

text \<open>Writing a block back unchanged keeps the view.\<close>

lemma put_same_block_view:
  assumes inv: "image_inv m s" and line: "is_line s base" and slot: "slot_ok m s base bk c b"
  shows "same_view s m (put_row_block bk c b m)"
proof -
  from slot obtain rb where rb: "row_buffer_of m bk = Some rb" "rb_open rb"
    "rb_row_key rb = row_key_from_storage_key (line_key m s base)" "map_of (rb_columns rb) c = Some b"
    by (auto simp: slot_ok_def)
  have bk: "bk = bank_key_from_storage_key (line_key m s base)" "c = sk_column (line_key m s base)"
    "db_line_base b = base" "db_storage_key b = line_key m s base" "block_ok m b" "block_content b = line_view m s base"
    using slot by (simp_all add: slot_ok_def)
  have "buffer_ok m s bk rb" using inv rb(1) by (simp add: image_inv_def)
  with rb(2,4) have "column_ok m s rb c b" by (simp add: buffer_ok_def)
  then have clean: "\<not> rb_dirty rb \<longrightarrow> backend_view m base = block_content b"
    using column_okD(6) bk(3) by blast
  from put_row_block_view [OF inv line rb(1) [unfolded bk(1)] rb(2,3) bk(3-5) clean]
  show ?thesis unfolding bk(1,2) by (auto simp: same_view_def bk(6))
qed

lemma line_decoded_cfg: "same_cfg m m' \<Longrightarrow> line_decoded m' first_base dec base = line_decoded m first_base dec base"
  by (simp add: line_decoded_def same_cfg_def)

lemma read_chunk_view:
  assumes inv: "image_inv m s" and line: "is_line s base"
    and dec: "line_decoded m first_base dec base = Inr (Some (decode_address s base))"
    and chunk: "0 < chunk" "offset + chunk \<le> mi_line_size m"
  shows "\<exists>m'. read_chunk first_base dec (copied, base, offset, chunk) (out, ini, m)
      = Inr (out @ take chunk (drop offset (fst (line_view m s base))),
             ini \<and> list_all (\<lambda>x. x \<noteq> 0) (take chunk (drop offset (snd (line_view m s base)))), m')
    \<and> same_view s m m'"
proof -
  let ?d = "Some (decode_address s base)"
  define m1 where "m1 = count_image (\<lambda>n. n\<lparr> read_line_accesses := read_line_accesses n + 1 \<rparr>) m"
  have m1: "same_view s m m1" unfolding m1_def by (rule same_view_core [OF inv]) simp
  from row_buffer_block_view [OF same_view_inv [OF m1] line, of 0] obtain slot m2 where
    m2: "row_buffer_block base ?d 0 m1 = Inr (slot, m2)" "same_view s m1 m2"
      "case slot of None \<Rightarrow> row_closed m2 s base | Some (bk, c, b) \<Rightarrow> slot_ok m2 s base bk c b"
    by (elim exE conjE) simp
  have sv2: "same_view s m m2" using same_view_trans [OF m1 m2(2)] .
  have view2: "line_view m2 s base = line_view m s base" using sv2 line by (simp add: same_view_def)
  have run: "read_chunk first_base dec (copied, base, offset, chunk) (out, ini, m) = (case slot of
       Some (bk, c, b) \<Rightarrow>
         let (b, m) = with_ecc check_ecc_shadow (b, m2);
             m = count_image (\<lambda>n. n\<lparr> row_buffer_reads := row_buffer_reads n + 1 \<rparr>) (put_row_block bk c b m)
         in Inr (out @ take chunk (drop offset (db_bytes b)),
                 ini \<and> list_all (\<lambda>x. x \<noteq> 0) (take chunk (drop offset (db_initialized_mask b))), m)
     | None \<Rightarrow>
         bindR (load_backend_line m2 base ?d) (\<lambda>backing.
         case backing of
           None \<Rightarrow> Inr (out @ replicate chunk (mi_default_value m2), False, m2)
         | Some before \<Rightarrow>
             let (b, m) = with_ecc check_ecc_shadow (before, m2) in
             bindR (if db_bytes b \<noteq> db_bytes before \<or> db_ecc_hamming b \<noteq> db_ecc_hamming before
                      \<or> db_ecc_overall b \<noteq> db_ecc_overall before \<or> db_ecc_valid b \<noteq> db_ecc_valid before
                      \<or> db_ecc_uncorrectable b \<noteq> db_ecc_uncorrectable before
                    then store_backend_line base (refresh_line_metadata b) m else Inr m) (\<lambda>m.
             Inr (out @ take chunk (drop offset (db_bytes b)),
                  ini \<and> list_all (\<lambda>x. x \<noteq> 0) (take chunk (drop offset (db_initialized_mask b))), m))))"
    unfolding read_chunk_def prod.case dec bindR_Inr m1_def [symmetric] Let_def [of m1] m2(1) by simp
  show ?thesis
  proof (cases slot)
    case (Some x)
    obtain bk c b where x: "slot = Some (bk, c, b)" by (cases x) (simp add: Some)
    with m2(3) have slot: "slot_ok m2 s base bk c b" by simp
    then have b: "block_ok m2 b" "block_content b = line_view m s base" by (simp_all add: slot_ok_def view2)
    from with_ecc_check [OF b(1)] obtain n where n: "with_ecc check_ecc_shadow (b, m2) = (b, m2\<lparr> mi_ecc_counters := n \<rparr>)" by blast
    define m3 where "m3 = m2\<lparr> mi_ecc_counters := n \<rparr>"
    have core: "core_eq m2 m3" by (simp add: m3_def)
    have sv3: "same_view s m2 m3" by (rule same_view_core [OF same_view_inv [OF sv2] core])
    have "slot_ok m3 s base bk c b"
      using slot slot_ok_core [OF core] by simp
    from put_same_block_view [OF same_view_inv [OF sv3] line this]
    have sv4: "same_view s m3 (put_row_block bk c b m3)" .
    have sv5: "same_view s (put_row_block bk c b m3)
        (count_image (\<lambda>n. n\<lparr> row_buffer_reads := row_buffer_reads n + 1 \<rparr>) (put_row_block bk c b m3))"
      by (rule same_view_core [OF same_view_inv [OF sv4]]) simp
    have "same_view s m (count_image (\<lambda>n. n\<lparr> row_buffer_reads := row_buffer_reads n + 1 \<rparr>) (put_row_block bk c b m3))"
      using sv2 sv3 sv4 sv5 same_view_trans by blast
    moreover have "db_bytes b = fst (line_view m s base)" "db_initialized_mask b = snd (line_view m s base)"
      using b(2) by (simp_all add: block_content_def) (metis fst_conv, metis snd_conv)
    ultimately show ?thesis unfolding run x by (simp add: n m3_def [symmetric])
  next
    case None
    with m2(3) view2 have bview: "backend_view m2 base = line_view m s base" using row_closed_view [of m2 s base] by simp
    from load_backend_line_view [OF same_view_inv [OF sv2] line] obtain loaded where
      "load_backend_line m2 base ?d = Inr loaded
        \<and> (loaded = None \<longleftrightarrow> sb_lines (mi_backend m2) base = None)
        \<and> (\<forall>b. loaded = Some b \<longrightarrow> block_ok m2 b \<and> block_content b = backend_view m2 base \<and> db_line_base b = base
           \<and> db_storage_key b = line_key m2 s base)" by (rule exE)
    note loaded = this [THEN conjunct1] this [THEN conjunct2, THEN conjunct1] this [THEN conjunct2, THEN conjunct2]
    show ?thesis
    proof (cases loaded)
      case none: None
      have "mi_line_size m2 = mi_line_size m" "mi_default_value m2 = mi_default_value m"
        using sv2 by (simp_all add: same_view_def same_cfg_def)
      moreover have "line_view m s base = (replicate (mi_line_size m2) (mi_default_value m2), replicate (mi_line_size m2) 0)"
        using none loaded(2) bview by (simp add: backend_view_def)
      ultimately show ?thesis using sv2 chunk none loaded(1) None unfolding run
        by (auto simp: drop_replicate min_def list_all_iff)
    next
      case (Some b)
      with loaded(3) bview have b: "block_ok m2 b" "block_content b = line_view m s base" by simp_all
      from with_ecc_check [OF b(1)] obtain n where n: "with_ecc check_ecc_shadow (b, m2) = (b, m2\<lparr> mi_ecc_counters := n \<rparr>)" by blast
      have "same_view s m2 (m2\<lparr> mi_ecc_counters := n \<rparr>)" by (rule same_view_core [OF same_view_inv [OF sv2]]) simp
      with sv2 have "same_view s m (m2\<lparr> mi_ecc_counters := n \<rparr>)" by (rule same_view_trans)
      moreover have "db_bytes b = fst (line_view m s base)" "db_initialized_mask b = snd (line_view m s base)"
        using b(2) by (simp_all add: block_content_def) (metis fst_conv, metis snd_conv)
      ultimately show ?thesis unfolding run None using loaded(1) Some by (simp add: n)
    qed
  qed
qed

section \<open>One piece of a write\<close>

definition write_content :: "u8 list \<Rightarrow> u8 list option \<Rightarrow> nat \<Rightarrow> nat \<Rightarrow> nat \<Rightarrow> line_content \<Rightarrow> line_content" where
  "write_content data ms copied offset chunk v =
     (masked_store offset chunk (selected ms copied) (\<lambda>i. data ! (copied + i)) (fst v),
      masked_store offset chunk (selected ms copied) (\<lambda>_. 255) (snd v))"

lemma length_masked_store [simp]: "length (masked_store offset chunk sel f bytes) = length bytes"
proof -
  have "length (fold (\<lambda>i ys. if sel i then ys[offset + i := f i] else ys) ks bytes) = length bytes" for ks
    by (induction ks arbitrary: bytes) auto
  then show ?thesis by (simp add: masked_store_def)
qed

lemma masked_store_none: "\<not> list_ex sel [0..<chunk] \<Longrightarrow> masked_store offset chunk sel f bytes = bytes"
proof -
  assume none: "\<not> list_ex sel [0..<chunk]"
  have "(\<forall>i\<in>set ks. \<not> sel i) \<Longrightarrow> fold (\<lambda>i ys. if sel i then ys[offset + i := f i] else ys) ks bytes = bytes" for ks
    by (induction ks) auto
  with none show ?thesis by (simp add: masked_store_def list_ex_iff)
qed

lemma nth_masked_store:
  assumes "i < length bytes"
  shows "masked_store offset chunk sel f bytes ! i =
    (if offset \<le> i \<and> i < offset + chunk \<and> sel (i - offset) then f (i - offset) else bytes ! i)"
proof (induction chunk)
  case 0
  then show ?case by (auto simp: masked_store_def)
next
  case (Suc n)
  have step: "masked_store offset (Suc n) sel f bytes =
      (if sel n then (masked_store offset n sel f bytes)[offset + n := f n] else masked_store offset n sel f bytes)"
    by (simp add: masked_store_def)
  show ?case
  proof (cases "i = offset + n")
    case True
    with Suc assms show ?thesis by (simp add: step)
  next
    case False
    with Suc assms show ?thesis by (auto simp: step)
  qed
qed

lemma write_block_simps:
  "block_content (write_block data ms copied offset chunk v r t b) = write_content data ms copied offset chunk (block_content b)"
  "db_line_base (write_block data ms copied offset chunk v r t b) = db_line_base b"
  "db_storage_key (write_block data ms copied offset chunk v r t b) = db_storage_key b"
  "length (db_byte_mask (write_block data ms copied offset chunk v r t b)) = length (db_byte_mask b)"
  by (simp_all add: write_block_def block_content_def write_content_def Let_def)

definition no_injection :: "memory_image \<Rightarrow> bool" where
  "no_injection m \<longleftrightarrow> \<not> ecc_shadow_enabled (mi_ecc m) \<or> ecc_inject_period (mi_ecc m) \<le> 0"

text \<open>Protecting a block: the shadow is recomputed and nothing is injected.\<close>

lemma protect_block:
  assumes "no_injection k" "length (db_bytes b) = mi_line_size m" "length (db_initialized_mask b) = mi_line_size m"
    "length (db_byte_mask b) = mi_line_size m"
  shows "\<exists>b' n. with_ecc maybe_inject_ecc_error (with_ecc refresh_ecc_shadow (b, k)) = (b', k\<lparr> mi_ecc_counters := n \<rparr>)
    \<and> block_ok m b' \<and> block_content b' = block_content b \<and> db_line_base b' = db_line_base b \<and> db_storage_key b' = db_storage_key b"
proof -
  obtain b1 n1 where r: "refresh_ecc_shadow (mi_ecc k) (b, mi_ecc_counters k) = (b1, n1)" by fastforce
  then have b1: "block_ok m b1" "block_content b1 = block_content b" "db_line_base b1 = db_line_base b"
    "db_storage_key b1 = db_storage_key b"
    using assms(2-4)
    by (auto simp: refresh_ecc_shadow_def block_ok_def shadow_matches_def block_content_def Let_def split: if_splits)
  have "maybe_inject_ecc_error (mi_ecc k) (b1, n1) = (b1, n1)"
    using assms(1) by (auto simp: no_injection_def maybe_inject_ecc_error_def)
  with r b1 show ?thesis by (intro exI [of _ b1] exI [of _ n1]) (simp add: with_ecc_def)
qed

lemma view_frame:
  assumes inv: "image_inv m s" and cfg: "same_cfg m m'" and rbs: "row_buffer_of m' = row_buffer_of m"
    and view: "backend_view m' = backend_view m"
    and lines: "\<forall>base l. sb_lines (mi_backend m') base = Some l \<longrightarrow> stored_ok m' l"
  shows "same_view s m m'"
proof -
  have "line_view m' s = line_view m s"
    by (rule ext) (simp only: line_view_def view rbs same_cfg_views [OF cfg])
  moreover have "image_inv m' s" using inv lines
    by (simp add: image_inv_def buffer_ok_def column_ok_def view rbs same_cfg_views [OF cfg] same_cfg_image_cfg [OF cfg])
  ultimately show ?thesis using cfg by (simp add: same_view_def)
qed

lemma stored_ok_block: "block_ok m b \<Longrightarrow> stored_ok m (backend_line_from_block b)"
  by (simp add: block_ok_def stored_ok_def backend_line_from_block_def)

lemma store_same_view:
  assumes inv: "image_inv m s" and line: "is_line s base" and b: "block_ok m b" "block_content b = backend_view m base"
  shows "\<exists>m'. store_backend_line base b m = Inr m' \<and> same_view s m m' \<and> row_buffer_of m' = row_buffer_of m
    \<and> backend_view m' = backend_view m"
proof -
  have cfg_ok: "image_cfg m s" using inv by (simp add: image_inv_def)
  from store_backend_line_ok [OF cfg_ok line b(1)] obtain m' where m': "store_backend_line base b m = Inr m'" "same_cfg m m'"
    "row_buffer_of m' = row_buffer_of m" "sb_lines (mi_backend m') = (sb_lines (mi_backend m))(base \<mapsto> backend_line_from_block b)"
    by blast
  have view: "backend_view m' = backend_view m" using backend_view_update [OF m'(2,4)] b(2) by auto
  have "same_view s m m'"
    by (rule view_frame [OF inv m'(2,3) view])
      (use inv m'(4) stored_ok_block [OF b(1)] same_cfg_views(3) [OF m'(2)] in \<open>auto simp: image_inv_def split: if_splits\<close>)
  with m' view show ?thesis by blast
qed

lemma store_closed_view:
  assumes inv: "image_inv m s" and line: "is_line s base" and b: "block_ok m b" and closed: "row_closed m s base"
  shows "\<exists>m'. store_backend_line base b m = Inr m' \<and> image_inv m' s \<and> same_cfg m m'
    \<and> (\<forall>base'. is_line s base' \<longrightarrow> line_view m' s base' = (if base' = base then block_content b else line_view m s base'))"
proof -
  have cfg_ok: "image_cfg m s" using inv by (simp add: image_inv_def)
  from store_backend_line_ok [OF cfg_ok line b(1)] obtain m' where m': "store_backend_line base b m = Inr m'" "same_cfg m m'"
    "row_buffer_of m' = row_buffer_of m" "sb_lines (mi_backend m') = (sb_lines (mi_backend m))(base \<mapsto> backend_line_from_block b)"
    by blast
  note keys = same_cfg_views [OF m'(2)]
  have view: "backend_view m' = (backend_view m)(base := block_content b)" by (rule backend_view_update [OF m'(2,4)])
  have "row_closed m' s base" using closed by (simp add: row_closed_def m'(3) keys)
  then have "line_view m' s base = block_content b" using row_closed_view view by simp
  moreover have "line_view m' s base' = line_view m s base'" if "base' \<noteq> base" for base'
    using that by (simp add: line_view_def m'(3) keys view Let_def split: option.split)
  moreover have "buffer_ok m' s bk rb" if r: "row_buffer_of m' bk = Some rb" for bk rb
  proof -
    from r m'(3) have r: "row_buffer_of m bk = Some rb" by simp
    then have old: "buffer_ok m s bk rb" using inv by (simp add: image_inv_def)
    have "column_ok m' s rb c b'" if open_r: "rb_open rb" and c: "map_of (rb_columns rb) c = Some b'" for c b'
    proof -
      have col: "column_ok m s rb c b'" "bank_key_from_storage_key (rb_row_key rb) = bk"
        using old that by (simp_all add: buffer_ok_def)
      have "db_line_base b' \<noteq> base"
      proof
        assume eq: "db_line_base b' = base"
        have "bank_key_from_storage_key (line_key m s base) = bk"
          using column_okD(3) [OF col(1), unfolded eq, symmetric] col(2) by simp
        with closed r open_r column_okD(3) [OF col(1)] eq show False by (simp add: row_closed_def)
      qed
      with col(1) show ?thesis by (auto simp: column_ok_def keys view)
    qed
    with old show ?thesis by (simp add: buffer_ok_def)
  qed
  moreover have "stored_ok m' l" if "sb_lines (mi_backend m') base' = Some l" for base' l
    using that inv m'(4) stored_ok_block [OF b] keys(3) by (auto simp: image_inv_def split: if_splits)
  ultimately show ?thesis using m'(1,2) cfg_ok same_cfg_image_cfg [OF m'(2)] by (auto simp: image_inv_def)
qed

text \<open>Marking the open row dirty and storing the new block there.\<close>

lemma dirty_block_view:
  assumes inv: "image_inv m s" and line: "is_line s base" and slot: "slot_ok m s base bk c b"
    and m1: "m1 = (if wrote then count_image f (case row_buffer_of m bk of
        None \<Rightarrow> put_row_buffer bk (row_buffer0\<lparr> rb_dirty := True \<rparr>) m
      | Some rb \<Rightarrow> put_row_buffer bk (rb\<lparr> rb_dirty := True \<rparr>) m) else m)"
    and m2: "core_eq m1 m2" and b': "block_ok m b'" "db_line_base b' = base" "db_storage_key b' = line_key m s base"
      "\<not> wrote \<longrightarrow> block_content b' = block_content b"
  shows "image_inv (put_row_block bk c b' m2) s \<and> same_cfg m (put_row_block bk c b' m2)
    \<and> (\<forall>base'. is_line s base' \<longrightarrow> line_view (put_row_block bk c b' m2) s base' =
         (if base' = base then block_content b' else line_view m s base'))"
proof -
  from slot obtain rb where rb: "row_buffer_of m bk = Some rb" "rb_open rb"
    "rb_row_key rb = row_key_from_storage_key (line_key m s base)" "map_of (rb_columns rb) c = Some b"
    and bk: "bk = bank_key_from_storage_key (line_key m s base)" "c = sk_column (line_key m s base)"
      "db_line_base b = base" by (auto simp: slot_ok_def)
  let ?rb = "if wrote then rb\<lparr> rb_dirty := True \<rparr> else rb"
  have sv1: "same_view s m m1"
  proof (cases wrote)
    case True
    have "same_view s m (put_row_buffer bk (rb\<lparr> rb_dirty := True \<rparr>) m)"
      by (rule put_row_buffer_view [OF inv rb(1)]) simp_all
    from same_view_trans [OF this same_view_core [OF same_view_inv [OF this]]] True rb(1) show ?thesis by (simp add: m1)
  qed (use inv in \<open>simp add: m1 same_view_core\<close>)
  have sv2: "same_view s m m2" using same_view_trans [OF sv1 same_view_core [OF same_view_inv [OF sv1] m2]] .
  then have cfg2: "same_cfg m m2" by (simp add: same_view_def)
  note keys = same_cfg_views [OF cfg2]
  have rb2: "row_buffer_of m2 bk = Some ?rb" using m2 rb(1) by (auto simp: core_eq_def m1)
  have "backend_view m2 = backend_view m1" by (rule core_eq_views(1) [OF m2])
  also have "backend_view m1 = backend_view m" using rb(1) by (simp add: m1)
  finally have view: "backend_view m2 = backend_view m" .
  have "buffer_ok m s bk rb" using inv rb(1) by (simp add: image_inv_def)
  with rb(2,4) have "column_ok m s rb c b" by (simp add: buffer_ok_def)
  then have clean: "\<not> rb_dirty rb \<longrightarrow> backend_view m base = block_content b" using column_okD(6) bk(3) by blast
  have "image_inv (put_row_block bk c b' m2) s \<and> same_cfg m2 (put_row_block bk c b' m2)
    \<and> (\<forall>base'. is_line s base' \<longrightarrow> line_view (put_row_block bk c b' m2) s base' =
         (if base' = base then block_content b' else line_view m2 s base'))"
    unfolding bk(1,2)
    by (rule put_row_block_view [OF same_view_inv [OF sv2] line, unfolded keys, of ?rb])
      (use rb2 rb(2,3) b' clean bk view in \<open>auto simp: keys\<close>)
  with sv2 same_cfg_trans [OF cfg2] show ?thesis by (simp add: same_view_def)
qed

lemma write_chunk_view:
  assumes inv: "image_inv m s" and line: "is_line s base" and inj: "no_injection m"
    and dec: "line_decoded m first_base dec base = Inr (Some (decode_address s base))"
  shows "\<exists>m'. write_chunk first_base dec data ms request_id cycle (copied, base, offset, chunk) m = Inr m'
    \<and> image_inv m' s \<and> same_cfg m m'
    \<and> (\<forall>base'. is_line s base' \<longrightarrow> line_view m' s base' =
        (if base' = base then write_content data ms copied offset chunk (line_view m s base) else line_view m s base'))"
proof -
  let ?d = "Some (decode_address s base)" and ?sel = "selected ms copied"
  define m1 where "m1 = count_image (\<lambda>n. n\<lparr> write_line_accesses := write_line_accesses n + 1 \<rparr>) m"
  have sv1: "same_view s m m1" unfolding m1_def by (rule same_view_core [OF inv]) simp
  have "same_cfg m m1" by (simp add: m1_def)
  with dec have dec1: "line_decoded m1 first_base dec base = Inr ?d" by (simp only: line_decoded_cfg)
  have inv1: "image_inv m1 s" by (rule same_view_inv [OF sv1])
  from load_backend_line_view [OF inv1 line] obtain loaded where
    "load_backend_line m1 base ?d = Inr loaded \<and> (loaded = None \<longleftrightarrow> sb_lines (mi_backend m1) base = None)
      \<and> (\<forall>b. loaded = Some b \<longrightarrow> block_ok m1 b \<and> block_content b = backend_view m1 base \<and> db_line_base b = base
           \<and> db_storage_key b = line_key m1 s base)" by (rule exE)
  note loaded = this [THEN conjunct1] this [THEN conjunct2, THEN conjunct1] this [THEN conjunct2, THEN conjunct2]
  have "image_cfg m1 s" using inv1 by (simp add: image_inv_def)
  from make_line_view [OF this line] obtain fresh where fresh: "make_line m1 base ?d = Inr fresh" "block_ok m1 fresh"
    "db_line_base fresh = base" "db_storage_key fresh = line_key m1 s base"
    "block_content fresh = (replicate (mi_line_size m1) (mi_default_value m1), replicate (mi_line_size m1) 0)" by blast
  define backing where "backing = (case loaded of None \<Rightarrow> fresh | Some b \<Rightarrow> b)"
  have backing: "(case loaded of None \<Rightarrow> make_line m1 base ?d | Some b \<Rightarrow> Inr b) = Inr backing"
    "block_ok m1 backing" "block_content backing = backend_view m1 base" "db_line_base backing = base"
    "db_storage_key backing = line_key m1 s base"
    using loaded(2,3) fresh by (auto simp: backing_def backend_view_def split: option.split)
  from row_buffer_block_view [OF inv1 line, of cycle] obtain slot m2 where
    m2: "row_buffer_block base ?d cycle m1 = Inr (slot, m2)" "same_view s m1 m2" "mi_backend m2 = mi_backend m1"
      "mi_ecc m2 = mi_ecc m1" "mi_next_version m2 = mi_next_version m1"
      "case slot of None \<Rightarrow> row_closed m2 s base | Some (bk, c, b) \<Rightarrow> slot_ok m2 s base bk c b"
    by (elim exE conjE) simp
  have sv2: "same_view s m m2" using same_view_trans [OF sv1 m2(2)] .
  have inv2: "image_inv m2 s" by (rule same_view_inv [OF sv2])
  have cfg2: "same_cfg m m2" "same_cfg m1 m2" "same_cfg m m1" using sv1 sv2 m2(2) by (simp_all add: same_view_def)
  note keys2 = same_cfg_views [OF cfg2(2)]
  have back2: "backend_view m2 = backend_view m1"
    using m2(3) cfg2(2) by (auto simp: backend_view_def fun_eq_iff same_cfg_def split: option.split)
  define wr where "wr = write_block data ms copied offset chunk (mi_next_version m2) request_id cycle"
  define wrote where "wrote = list_ex ?sel [0..<chunk]"
  define bumped :: "memory_image \<Rightarrow> memory_image" where "bumped = (\<lambda>m. if wrote then m\<lparr> mi_next_version := mi_next_version m + 1 \<rparr> else m)"
  have bump: "core_eq k (bumped k)" "mi_ecc (bumped k) = mi_ecc k" for k by (simp_all add: bumped_def)
  have goal_of: ?thesis if "write_chunk first_base dec data ms request_id cycle (copied, base, offset, chunk) m = Inr m'"
    "image_inv m' s" "same_cfg m2 m'"
    "\<forall>base'. is_line s base' \<longrightarrow> line_view m' s base' =
        (if base' = base then write_content data ms copied offset chunk (line_view m2 s base) else line_view m2 s base')" for m'
    using that sv2 line same_cfg_trans [OF cfg2(1) that(3)] by (simp add: same_view_def)
  show ?thesis
  proof (cases slot)
    case None
    define b where "b = refresh_line_metadata (wr backing)"
    have len: "length (db_bytes b) = mi_line_size m2" "length (db_initialized_mask b) = mi_line_size m2"
      "length (db_byte_mask b) = mi_line_size m2"
    proof -
      have "block_ok m2 backing" using backing(2) keys2 by simp
      then show "length (db_bytes b) = mi_line_size m2" "length (db_initialized_mask b) = mi_line_size m2"
        "length (db_byte_mask b) = mi_line_size m2"
        by (simp_all add: b_def wr_def refresh_line_metadata_def write_block_def block_ok_def Let_def)
    qed
    have content: "block_content b = write_content data ms copied offset chunk (backend_view m1 base)"
      using write_block_simps(1) [of data ms copied offset chunk "mi_next_version m2" request_id cycle backing] backing(3)
      by (simp add: b_def wr_def refresh_line_metadata_def block_content_def)
    have inj2: "no_injection (bumped m2)" using inj cfg2(1) by (simp add: no_injection_def bump same_cfg_def)
    from protect_block [OF inj2 len] obtain b' n where b': "with_ecc maybe_inject_ecc_error (with_ecc refresh_ecc_shadow (b, bumped m2))
        = (b', (bumped m2)\<lparr> mi_ecc_counters := n \<rparr>)" "block_ok m2 b'" "block_content b' = block_content b" by blast
    define m3 where "m3 = (bumped m2)\<lparr> mi_ecc_counters := n \<rparr>"
    have core: "core_eq m2 m3" using bump(1) [of m2] by (simp add: m3_def core_eq_def)
    then have cfg3: "same_cfg m2 m3" by (simp add: core_eq_def)
    have inv3: "image_inv m3 s" using core_eq_views(3) [OF core] inv2 by simp
    have closed: "row_closed m2 s base" using m2(6) None by simp
    then have closed3: "row_closed m3 s base" using core same_cfg_views [OF cfg3] by (simp add: row_closed_def core_eq_def)
    have "block_ok m3 b'" using b'(2) same_cfg_views [OF cfg3] by simp
    from store_closed_view [OF inv3 line this closed3] obtain m' where m': "store_backend_line base b' m3 = Inr m'"
      "image_inv m' s" "same_cfg m3 m'"
      "\<forall>base'. is_line s base' \<longrightarrow> line_view m' s base' = (if base' = base then block_content b' else line_view m3 s base')" by blast
    have "line_view m2 s base = backend_view m1 base" using row_closed_view [OF closed] back2 by simp
    then have views: "\<forall>base'. is_line s base' \<longrightarrow> line_view m' s base' =
        (if base' = base then write_content data ms copied offset chunk (line_view m2 s base) else line_view m2 s base')"
      using m'(4) b'(3) content core_eq_views(2) [OF core] by simp
    have protect: "with_ecc maybe_inject_ecc_error (with_ecc refresh_ecc_shadow
        (b, if wrote then m2\<lparr> mi_next_version := mi_next_version m2 + 1 \<rparr> else m2)) = (b', m3)"
      using b'(1) unfolding bumped_def m3_def .
    have "write_chunk first_base dec data ms request_id cycle (copied, base, offset, chunk) m = Inr m'"
      unfolding write_chunk_def prod.case m1_def [symmetric] Let_def [of m1] dec1 bindR_Inr loaded(1) backing(1) m2(1) None
        option.case Let_def wr_def [symmetric] wrote_def [symmetric] b_def [symmetric] protect prod.case by (rule m'(1))
    with views show ?thesis using goal_of m'(2) same_cfg_trans [OF cfg3 m'(3)] by blast
  next
    case (Some x)
    obtain bk c b where x: "slot = Some (bk, c, b)" by (cases x) (simp add: Some)
    with m2(6) have slot: "slot_ok m2 s base bk c b" by simp
    have "\<exists>m3. (if loaded = None then store_backend_line base backing m2 else Inr m2) = Inr m3 \<and> same_view s m2 m3
      \<and> row_buffer_of m3 = row_buffer_of m2"
    proof (cases "loaded = None")
      case True
      from store_same_view [OF inv2 line, of backing] backing(2,3) keys2 back2 True show ?thesis by auto
    qed (use same_view_core [OF inv2] in auto)
    then obtain m3 where m3: "(if loaded = None then store_backend_line base backing m2 else Inr m2) = Inr m3"
      "same_view s m2 m3" "row_buffer_of m3 = row_buffer_of m2" by blast
    have inv3: "image_inv m3 s" by (rule same_view_inv [OF m3(2)])
    have cfg3: "same_cfg m2 m3" using m3(2) by (simp add: same_view_def)
    note keys3 = same_cfg_views [OF cfg3]
    define m4 where "m4 = bumped m3"
    have m4_if: "(if wrote then m3\<lparr> mi_next_version := mi_next_version m3 + 1 \<rparr> else m3) = m4" by (simp add: m4_def bumped_def)
    have core4: "core_eq m3 m4" using bump by (simp add: m4_def)
    have inv4: "image_inv m4 s" using core_eq_views(3) [OF core4] inv3 by simp
    have cfg4: "same_cfg m2 m4" using cfg3 core4 same_cfg_trans by (auto simp: core_eq_def)
    note keys4 = same_cfg_views [OF cfg4]
    have view4: "line_view m4 s base' = line_view m2 s base'" if "is_line s base'" for base'
      using that m3(2) core_eq_views(2) [OF core4] by (simp add: same_view_def)
    have rbs4: "row_buffer_of m4 = row_buffer_of m2" using core4 m3(3) by (simp add: core_eq_def)
    have slot4: "slot_ok m4 s base bk c b"
      using slot unfolding slot_ok_def keys4 rbs4 view4 [OF line] .
    have bk_eq: "bank_key_from_storage_key (db_storage_key (wr b)) = bk"
      using slot by (simp add: slot_ok_def wr_def write_block_simps)
    define m5 where "m5 = (if wrote then count_image (\<lambda>n. n\<lparr> row_buffer_writes := row_buffer_writes n + 1 \<rparr>) (case row_buffer_of m4 bk of
        None \<Rightarrow> put_row_buffer bk (row_buffer0\<lparr> rb_dirty := True \<rparr>) m4
      | Some rb \<Rightarrow> put_row_buffer bk (rb\<lparr> rb_dirty := True \<rparr>) m4) else m4)"
    define b1 where "b1 = (wr b)\<lparr> db_initialized := all_masked (db_initialized_mask (wr b)), db_checksum := checksum_bytes (db_bytes (wr b)) \<rparr>"
    have bok: "block_ok m2 b" "block_content b = line_view m2 s base" "db_line_base b = base" "db_storage_key b = line_key m2 s base"
      using slot by (simp_all add: slot_ok_def)
    have len: "length (db_bytes b1) = mi_line_size m2" "length (db_initialized_mask b1) = mi_line_size m2"
      "length (db_byte_mask b1) = mi_line_size m2"
      using bok(1) by (simp_all add: b1_def wr_def write_block_def block_ok_def Let_def)
    have b1: "block_content b1 = write_content data ms copied offset chunk (line_view m2 s base)"
      "db_line_base b1 = base" "db_storage_key b1 = line_key m2 s base"
      using write_block_simps [of data ms copied offset chunk "mi_next_version m2" request_id cycle b] bok(2-4)
      by (simp_all add: b1_def wr_def block_content_def)
    have ecc5: "mi_ecc m5 = mi_ecc m4"
      by (simp add: m5_def count_image_def put_row_buffer_def split: option.split)
    have inj5: "no_injection m5" using inj cfg2(1) cfg4 ecc5 by (simp add: no_injection_def same_cfg_def)
    from protect_block [OF inj5 len] obtain b' n where b': "with_ecc maybe_inject_ecc_error (with_ecc refresh_ecc_shadow (b1, m5))
        = (b', m5\<lparr> mi_ecc_counters := n \<rparr>)" "block_ok m2 b'" "block_content b' = block_content b1"
        "db_line_base b' = db_line_base b1" "db_storage_key b' = db_storage_key b1" by blast
    have same: "\<not> wrote \<longrightarrow> block_content b' = block_content b"
      using b'(3) b1(1) bok(2) masked_store_none [of ?sel chunk] by (simp add: wrote_def write_content_def)
    let ?m' = "put_row_block bk c b' (m5\<lparr> mi_ecc_counters := n \<rparr>)"
    have fin: "image_inv ?m' s \<and> same_cfg m4 ?m' \<and> (\<forall>base'. is_line s base' \<longrightarrow> line_view ?m' s base' =
         (if base' = base then block_content b' else line_view m4 s base'))"
      by (rule dirty_block_view [OF inv4 line slot4 m5_def])
        (use b' b1 same in \<open>simp_all add: keys4\<close>)
    have run: "write_chunk first_base dec data ms request_id cycle (copied, base, offset, chunk) m = Inr ?m'"
      unfolding write_chunk_def prod.case m1_def [symmetric] Let_def [of m1] dec1 bindR_Inr loaded(1) backing(1) m2(1) x
        option.case
        Let_def wr_def [symmetric] wrote_def [symmetric] m3(1) m4_if bk_eq
        m5_def [symmetric] b1_def [symmetric] b'(1) ..
    show ?thesis
    proof (rule goal_of [OF run])
      show "image_inv ?m' s" "same_cfg m2 ?m'" using fin same_cfg_trans [OF cfg4] by blast+
      show "\<forall>base'. is_line s base' \<longrightarrow> line_view ?m' s base' =
          (if base' = base then write_content data ms copied offset chunk (line_view m2 s base) else line_view m2 s base')"
        using fin view4 unfolding b'(3) b1(1) by simp
    qed
  qed
qed

section \<open>The byte memory\<close>

text \<open>The content of the addressable range: a byte, and whether it has ever been written.\<close>

definition image_byte :: "memory_image \<Rightarrow> dram_spec \<Rightarrow> nat \<Rightarrow> u8 \<times> bool" where
  "image_byte m s a =
     (let v = line_view m s (line_base m a) in (fst v ! line_offset m a, snd v ! line_offset m a \<noteq> 0))"

definition image_capacity :: "memory_image \<Rightarrow> nat" where
  "image_capacity m = sb_capacity_bytes (mi_backend m)"

definition in_range :: "memory_image \<Rightarrow> nat \<Rightarrow> nat \<Rightarrow> bool" where
  "in_range m address len \<longleftrightarrow> address + len \<le> image_capacity m"

lemma line_of_address:
  assumes "image_cfg m s" "a < image_capacity m"
  shows "is_line s (line_base m a)" "line_offset m a < mi_line_size m" "a = line_base m a + line_offset m a"
proof -
  have pos: "0 < mi_line_size m" and T: "mi_line_size m = nat (transaction_bytes s)" using assms(1) by (simp_all add: image_cfg_def)
  have "a div mi_line_size m < total_lines s"
    using assms by (simp add: image_cfg_def image_capacity_def less_mult_imp_div_less)
  moreover have "line_base m a = a div mi_line_size m * mi_line_size m"
    by (simp add: line_base_def minus_mod_eq_div_mult)
  ultimately show "is_line s (line_base m a)" using T by (auto simp: is_line_def)
  show "line_offset m a < mi_line_size m" using pos by (simp add: line_offset_def)
  show "a = line_base m a + line_offset m a" by (simp add: line_base_def line_offset_def)
qed

lemma same_cfg_addresses:
  "same_cfg m m' \<Longrightarrow> line_base m' = line_base m" "same_cfg m m' \<Longrightarrow> line_offset m' = line_offset m"
  "same_cfg m m' \<Longrightarrow> image_capacity m' = image_capacity m" "same_cfg m m' \<Longrightarrow> no_injection m' = no_injection m"
  by (simp_all add: same_cfg_def line_base_def line_offset_def image_capacity_def no_injection_def fun_eq_iff)

lemma view_bytes:
  assumes "image_inv m s" "same_view s m m'" "a < image_capacity m"
  shows "image_byte m' s a = image_byte m s a"
proof -
  have cfg: "image_cfg m s" "same_cfg m m'" using assms(1,2) by (simp_all add: image_inv_def same_view_def)
  from line_of_address(1) [OF cfg(1) assms(3)] assms(2) show ?thesis
    by (simp add: image_byte_def same_view_def same_cfg_addresses [OF cfg(2)])
qed

text \<open>The pieces of a span inside the range.\<close>

lemma line_chunks_step:
  assumes "0 < ls" "copied < len"
  shows "line_chunks ls address len copied =
     (let offset = (address + copied) mod ls; chunk = min (len - copied) (ls - offset)
      in (copied, address + copied - offset, offset, chunk) # line_chunks ls address len (copied + chunk))"
  using assms by (subst line_chunks.simps) (simp add: Let_def)

lemma line_chunks_done: "\<not> copied < len \<Longrightarrow> line_chunks ls address len copied = []"
  by (subst line_chunks.simps) simp

text \<open>The coordinates handed in with a request are those of its first line.\<close>

lemma line_decoded_ok:
  assumes "image_cfg m s" "dec = Some (decode_address s first_base)"
  shows "line_decoded m first_base dec base = Inr (Some (decode_address s base))"
  using assms by (auto simp: line_decoded_def image_cfg_def address_mapper_def)

lemma lengths_view:
  assumes "image_inv m s" "is_line s base"
  shows "length (fst (line_view m s base)) = mi_line_size m" "length (snd (line_view m s base)) = mi_line_size m"
proof -
  have blen: "length (fst (backend_view m base)) = mi_line_size m \<and> length (snd (backend_view m base)) = mi_line_size m"
    using assms(1) by (auto simp: backend_view_def image_inv_def stored_ok_def split: option.split)
  have "length (fst (line_view m s base)) = mi_line_size m \<and> length (snd (line_view m s base)) = mi_line_size m"
  proof (cases "row_closed m s base")
    case True
    with blen show ?thesis by (simp add: row_closed_view)
  next
    case False
    then obtain rb where rb: "row_buffer_of m (bank_key_from_storage_key (line_key m s base)) = Some rb" "rb_open rb"
      "rb_row_key rb = row_key_from_storage_key (line_key m s base)" by (auto simp: row_closed_def)
    then have ok: "buffer_ok m s (bank_key_from_storage_key (line_key m s base)) rb" using assms(1) by (simp add: image_inv_def)
    show ?thesis
    proof (cases "map_of (rb_columns rb) (sk_column (line_key m s base))")
      case None
      with rb blen show ?thesis by (simp add: line_view_def)
    next
      case (Some b)
      with ok rb(2) have "column_ok m s rb (sk_column (line_key m s base)) b" by (simp add: buffer_ok_def)
      with Some rb show ?thesis
        by (simp add: line_view_def column_ok_def block_ok_def block_content_def)
    qed
  qed
  then show "length (fst (line_view m s base)) = mi_line_size m" "length (snd (line_view m s base)) = mi_line_size m" by auto
qed

text \<open>The bytes of one piece.\<close>

lemma piece_address:
  fixes a ls chunk offset i :: nat
  assumes "offset = a mod ls" "i < chunk" "offset + chunk \<le> ls"
  shows "(a + i) mod ls = offset + i" "(a + i) - (a + i) mod ls = a - offset"
proof -
  have a: "a = a - offset + offset" "(a - offset) mod ls = 0" using assms(1) by (simp_all add: minus_mod_eq_div_mult)
  have "(a + i) mod ls = ((a - offset) + (offset + i)) mod ls" using a(1) by (metis add.assoc)
  also have "\<dots> = (offset + i) mod ls" using a(2) by (metis add.left_neutral mod_add_left_eq)
  also have "\<dots> = offset + i" using assms by simp
  finally show mod: "(a + i) mod ls = offset + i" .
  show "(a + i) - (a + i) mod ls = a - offset" unfolding mod using a(1) by simp
qed

lemma piece_bytes:
  assumes inv: "image_inv m s" and off: "offset = (address + copied) mod mi_line_size m" "offset + chunk \<le> mi_line_size m"
    and line: "is_line s (address + copied - offset)"
  shows "take chunk (drop offset (fst (line_view m s (address + copied - offset)))) =
      map (\<lambda>i. fst (image_byte m s (address + i))) [copied..<copied + chunk]"
    and "list_all (\<lambda>x. x \<noteq> 0) (take chunk (drop offset (snd (line_view m s (address + copied - offset))))) =
      list_all (\<lambda>i. snd (image_byte m s (address + i))) [copied..<copied + chunk]"
proof -
  note len = lengths_view [OF inv line]
  have byte: "image_byte m s (address + (copied + i)) =
      (fst (line_view m s (address + copied - offset)) ! (offset + i), snd (line_view m s (address + copied - offset)) ! (offset + i) \<noteq> 0)"
    if "i < chunk" for i
    using piece_address [OF off(1) that off(2)] by (simp add: image_byte_def line_base_def line_offset_def add.assoc Let_def)
  show "take chunk (drop offset (fst (line_view m s (address + copied - offset)))) =
      map (\<lambda>i. fst (image_byte m s (address + i))) [copied..<copied + chunk]"
    using len(1) off(2) byte by (intro nth_equalityI) simp_all
  have "map (\<lambda>x. x \<noteq> 0) (take chunk (drop offset (snd (line_view m s (address + copied - offset))))) =
      map (\<lambda>i. snd (image_byte m s (address + i))) [copied..<copied + chunk]"
    using len(2) off(2) byte by (intro nth_equalityI) simp_all
  from arg_cong [OF this, of "list_all id"]
  show "list_all (\<lambda>x. x \<noteq> 0) (take chunk (drop offset (snd (line_view m s (address + copied - offset))))) =
      list_all (\<lambda>i. snd (image_byte m s (address + i))) [copied..<copied + chunk]"
    unfolding list.pred_map comp_def id_apply .
qed

text \<open>The geometry of the next piece of a span that stays in the range.\<close>

lemma next_piece:
  assumes cfg: "image_cfg m s" and range: "in_range m address len" and "copied < len"
  defines "offset \<equiv> (address + copied) mod mi_line_size m"
  defines "chunk \<equiv> min (len - copied) (mi_line_size m - offset)"
  shows "line_chunks (mi_line_size m) address len copied =
      (copied, address + copied - offset, offset, chunk) # line_chunks (mi_line_size m) address len (copied + chunk)"
    and "0 < chunk" "offset + chunk \<le> mi_line_size m" "copied + chunk \<le> len"
    and "is_line s (address + copied - offset)"
proof -
  have pos: "0 < mi_line_size m" using cfg by (simp add: image_cfg_def)
  then have off: "offset < mi_line_size m" by (simp add: offset_def)
  show "line_chunks (mi_line_size m) address len copied =
      (copied, address + copied - offset, offset, chunk) # line_chunks (mi_line_size m) address len (copied + chunk)"
    using line_chunks_step [OF pos assms(3), of address] by (simp add: Let_def offset_def chunk_def)
  show "0 < chunk" "offset + chunk \<le> mi_line_size m" "copied + chunk \<le> len"
    using off assms(3) by (auto simp: chunk_def)
  have "address + copied < image_capacity m" using range assms(3) by (simp add: in_range_def)
  from line_of_address(1) [OF cfg this] show "is_line s (address + copied - offset)"
    by (simp add: line_base_def offset_def)
qed

lemma read_chunks:
  assumes "image_inv m s" "in_range m address len" "dec = Some (decode_address s first_base)" "copied \<le> len"
  shows "\<exists>m'. fold_result (read_chunk first_base dec) (line_chunks (mi_line_size m) address len copied) (out, ini, m)
      = Inr (out @ map (\<lambda>i. fst (image_byte m s (address + i))) [copied..<len],
             ini \<and> list_all (\<lambda>i. snd (image_byte m s (address + i))) [copied..<len], m')
    \<and> same_view s m m'"
  using assms
proof (induction "len - copied" arbitrary: copied out ini m rule: less_induct)
  case less
  have cfg: "image_cfg m s" using less.prems(1) by (simp add: image_inv_def)
  show ?case
  proof (cases "copied < len")
    case False
    with less.prems show ?thesis by (simp add: line_chunks_done same_view_core)
  next
    case True
    define offset where "offset = (address + copied) mod mi_line_size m"
    define chunk where "chunk = min (len - copied) (mi_line_size m - offset)"
    let ?base = "address + copied - offset"
    note piece = next_piece [OF cfg less.prems(2) True, folded offset_def, folded chunk_def]
    have dec: "line_decoded m first_base dec ?base = Inr (Some (decode_address s ?base))"
      using line_decoded_ok [OF cfg less.prems(3)] .
    from read_chunk_view [OF less.prems(1) piece(5) dec piece(2,3), of copied out ini]
    obtain m1 where m1: "read_chunk first_base dec (copied, ?base, offset, chunk) (out, ini, m) =
        Inr (out @ take chunk (drop offset (fst (line_view m s ?base))),
             ini \<and> list_all (\<lambda>x. x \<noteq> 0) (take chunk (drop offset (snd (line_view m s ?base)))), m1)" "same_view s m m1" by blast
    note bytes = piece_bytes [OF less.prems(1) offset_def piece(3,5)]
    have cfg1: "same_cfg m m1" using m1(2) by (simp add: same_view_def)
    have same: "image_byte m1 s (address + i) = image_byte m s (address + i)" if "i < len" for i
      using view_bytes [OF less.prems(1) m1(2), of "address + i"] that less.prems(2) by (simp add: in_range_def)
    have "len - (copied + chunk) < len - copied" using piece(2) True by simp
    from less.hyps [OF this same_view_inv [OF m1(2)] _ less.prems(3) piece(4)]
    obtain m2 where m2: "\<And>out ini. fold_result (read_chunk first_base dec) (line_chunks (mi_line_size m1) address len (copied + chunk)) (out, ini, m1)
      = Inr (out @ map (\<lambda>i. fst (image_byte m1 s (address + i))) [copied + chunk..<len],
             ini \<and> list_all (\<lambda>i. snd (image_byte m1 s (address + i))) [copied + chunk..<len], m2 out ini)
        \<and> same_view s m1 (m2 out ini)"
      using less.prems(2) same_cfg_addresses(3) [OF cfg1] unfolding in_range_def by metis
    have split: "[copied..<len] = [copied..<copied + chunk] @ [copied + chunk..<len]"
      using piece(4) by (metis le_add1 le_add_diff_inverse upt_add_eq_append)
    have ls: "mi_line_size m1 = mi_line_size m" using cfg1 by (simp add: same_cfg_def)
    have rest: "map (\<lambda>i. fst (image_byte m1 s (address + i))) [copied + chunk..<len]
        = map (\<lambda>i. fst (image_byte m s (address + i))) [copied + chunk..<len]"
      "list_all (\<lambda>i. snd (image_byte m1 s (address + i))) [copied + chunk..<len]
        = list_all (\<lambda>i. snd (image_byte m s (address + i))) [copied + chunk..<len]"
      using same by (auto simp: list_all_iff)
    show ?thesis
      using m2 [of "out @ map (\<lambda>i. fst (image_byte m s (address + i))) [copied..<copied + chunk]"
          "ini \<and> list_all (\<lambda>i. snd (image_byte m s (address + i))) [copied..<copied + chunk]"] same_view_trans [OF m1(2)]
      unfolding piece(1) by (auto simp: m1(1) bytes ls rest split)
  qed
qed

lemma write_chunks:
  assumes "image_inv m s" "no_injection m" "in_range m address len" "dec = Some (decode_address s first_base)" "copied \<le> len"
  shows "\<exists>m'. fold_result (write_chunk first_base dec data ms request_id cycle) (line_chunks (mi_line_size m) address len copied) m = Inr m'
    \<and> image_inv m' s \<and> same_cfg m m'
    \<and> (\<forall>a < image_capacity m. image_byte m' s a =
        (if address + copied \<le> a \<and> a < address + len \<and> selected ms 0 (a - address) then (data ! (a - address), True)
         else image_byte m s a))"
  using assms
proof (induction "len - copied" arbitrary: copied m rule: less_induct)
  case less
  have cfg: "image_cfg m s" using less.prems(1) by (simp add: image_inv_def)
  show ?case
  proof (cases "copied < len")
    case False
    with less.prems show ?thesis by (auto simp: line_chunks_done)
  next
    case True
    define offset where "offset = (address + copied) mod mi_line_size m"
    define chunk where "chunk = min (len - copied) (mi_line_size m - offset)"
    let ?base = "address + copied - offset"
    note piece = next_piece [OF cfg less.prems(3) True, folded offset_def, folded chunk_def]
    have dec: "line_decoded m first_base dec ?base = Inr (Some (decode_address s ?base))"
      using line_decoded_ok [OF cfg less.prems(4)] .
    from write_chunk_view [OF less.prems(1) piece(5) less.prems(2) dec, of data ms request_id cycle copied offset chunk]
    obtain m1 where m1: "write_chunk first_base dec data ms request_id cycle (copied, ?base, offset, chunk) m = Inr m1"
      "image_inv m1 s" "same_cfg m m1" "\<forall>base'. is_line s base' \<longrightarrow> line_view m1 s base' =
        (if base' = ?base then write_content data ms copied offset chunk (line_view m s ?base) else line_view m s base')" by blast
    note addr = same_cfg_addresses [OF m1(3)]
    have byte1: "image_byte m1 s a = (if address + copied \<le> a \<and> a < address + copied + chunk \<and> selected ms 0 (a - address)
        then (data ! (a - address), True) else image_byte m s a)" if a: "a < image_capacity m" for a
    proof -
      note loc = line_of_address [OF cfg a]
      show ?thesis
      proof (cases "line_base m a = ?base")
        case False
        have "\<not> (address + copied \<le> a \<and> a < address + copied + chunk)"
        proof
          assume "address + copied \<le> a \<and> a < address + copied + chunk"
          then have i: "a - (address + copied) < chunk" and a_eq: "a = address + copied + (a - (address + copied))" by auto
          from piece_address(2) [OF offset_def i piece(3), folded a_eq] False show False by (simp add: line_base_def)
        qed
        with False m1(4) loc(1) addr show ?thesis by (auto simp: image_byte_def)
      next
        case on: True
        let ?o = "line_offset m a"
        have a_eq: "a = ?base + ?o" using loc(3) on by simp
        have o_le: "offset \<le> address + copied" by (simp add: offset_def)
        have iff: "offset \<le> ?o \<and> ?o < offset + chunk \<longleftrightarrow> address + copied \<le> a \<and> a < address + copied + chunk"
          using a_eq o_le by auto
        have sel: "selected ms copied (?o - offset) = selected ms 0 (a - address)" "copied + (?o - offset) = a - address"
          if "offset \<le> ?o"
        proof -
          show eq: "copied + (?o - offset) = a - address" using a_eq o_le that by simp
          show "selected ms copied (?o - offset) = selected ms 0 (a - address)" using eq by (simp add: selected_def split: option.split)
        qed
        from m1(4) piece(5) have "line_view m1 s ?base = write_content data ms copied offset chunk (line_view m s ?base)" by simp
        then have new: "image_byte m1 s a = (fst (write_content data ms copied offset chunk (line_view m s ?base)) ! ?o,
            snd (write_content data ms copied offset chunk (line_view m s ?base)) ! ?o \<noteq> 0)"
          by (simp add: image_byte_def addr on Let_def)
        have old: "image_byte m s a = (fst (line_view m s ?base) ! ?o, snd (line_view m s ?base) ! ?o \<noteq> 0)"
          by (simp add: image_byte_def on Let_def)
        have lens: "?o < length (fst (line_view m s ?base))" "?o < length (snd (line_view m s ?base))"
          using lengths_view [OF less.prems(1) piece(5)] loc(2) by simp_all
        show ?thesis
        proof (cases "offset \<le> ?o \<and> ?o < offset + chunk")
          case True
          with iff sel show ?thesis unfolding new old by (simp add: write_content_def nth_masked_store lens)
        next
          case False
          with iff show ?thesis unfolding new old by (auto simp: write_content_def nth_masked_store lens)
        qed
      qed
    qed
    have "len - (copied + chunk) < len - copied" using piece(2) True by simp
    from less.hyps [OF this m1(2) _ _ less.prems(4) piece(4)] less.prems(2,3) addr
    obtain m2 where m2: "fold_result (write_chunk first_base dec data ms request_id cycle)
        (line_chunks (mi_line_size m1) address len (copied + chunk)) m1 = Inr m2" "image_inv m2 s" "same_cfg m1 m2"
      "\<forall>a < image_capacity m1. image_byte m2 s a =
        (if address + (copied + chunk) \<le> a \<and> a < address + len \<and> selected ms 0 (a - address) then (data ! (a - address), True)
         else image_byte m1 s a)" unfolding in_range_def by auto
    have ls: "mi_line_size m1 = mi_line_size m" using m1(3) by (simp add: same_cfg_def)
    have "image_byte m2 s a =
        (if address + copied \<le> a \<and> a < address + len \<and> selected ms 0 (a - address) then (data ! (a - address), True)
         else image_byte m s a)" if "a < image_capacity m" for a
      using m2(4) that addr(3) byte1 [OF that] piece(4) by auto
    moreover have "fold_result (write_chunk first_base dec data ms request_id cycle) (line_chunks (mi_line_size m) address len copied) m = Inr m2"
      unfolding piece(1) using m1(1) m2(1) ls by simp
    ultimately show ?thesis using m2(2) same_cfg_trans [OF m1(3) m2(3)] by blast
  qed
qed

section \<open>Reads and writes of a span\<close>

lemma validate_span_ok:
  assumes "image_cfg m s" "in_range m address len"
  shows "validate_address_span address len (sb_capacity_bytes (mi_backend m)) = Inr ()"
proof -
  have "image_capacity m \<le> u64_max" using assms(1) by (auto simp: image_cfg_def image_capacity_def)
  with assms(2) show ?thesis
    by (cases "len = 0") (auto simp: validate_address_span_def in_range_def image_capacity_def check_def)
qed

lemma span_list: "map (\<lambda>i. f (address + i)) [0..<len] = map f [address..<address + len]"
  by (rule nth_equalityI) (simp_all add: add.commute)

lemma span_all: "list_all (\<lambda>i. f (address + i)) [0..<len] = list_all f [address..<address + len]" for address :: nat
  using arg_cong [OF span_list [of f address len], of "list_all id"] by (simp add: list.pred_map comp_def)

lemma image_read_view:
  assumes inv: "image_inv m s" and range: "in_range m address len"
  shows "\<exists>m'. image_read address len (Some (decode_address s (line_base m address))) m
      = Inr (map (\<lambda>a. fst (image_byte m s a)) [address..<address + len],
             list_all (\<lambda>a. snd (image_byte m s a)) [address..<address + len], m') \<and> same_view s m m'"
proof -
  have cfg: "image_cfg m s" using inv by (simp add: image_inv_def)
  from read_chunks [OF inv range refl, of 0 "line_base m address" "[]" True] show ?thesis
    by (simp add: image_read_def validate_span_ok [OF cfg range] span_list [of "\<lambda>a. fst (image_byte m s a)"]
      span_all [of "\<lambda>a. snd (image_byte m s a)"])
qed

lemma image_write_view:
  assumes inv: "image_inv m s" and inj: "no_injection m" and range: "in_range m address (length data)"
    and ms: "case ms of None \<Rightarrow> True | Some bs \<Rightarrow> length bs = length data"
  shows "\<exists>m'. image_write address data ms (Some (decode_address s (line_base m address))) request_id cycle m = Inr m'
    \<and> image_inv m' s \<and> same_cfg m m'
    \<and> (\<forall>a < image_capacity m. image_byte m' s a =
        (if address \<le> a \<and> a < address + length data \<and> selected ms 0 (a - address) then (data ! (a - address), True)
         else image_byte m s a))"
proof -
  have cfg: "image_cfg m s" using inv by (simp add: image_inv_def)
  from write_chunks [OF inv inj range refl, of 0 "line_base m address" data ms request_id cycle] ms show ?thesis
    by (simp add: image_write_def validate_span_ok [OF cfg range] check_def)
qed

section \<open>The image as a byte-addressed memory\<close>

text \<open>The operations a channel controller performs on its image, in the order it performs them.\<close>

datatype image_op =
    ImageWrite nat "u8 list" "u8 list option" nat nat
  | ImageRead nat nat
  | ImageActivate decoded_address nat
  | ImagePrecharge decoded_address nat
  | ImagePrechargeAll decoded_address nat
  | ImageFlushDirty nat
  | ImageFlushAll nat

definition silent :: "'m result \<Rightarrow> ((u8 list \<times> bool) option \<times> 'm) result" where
  "silent r = bindR r (\<lambda>m. Inr (None, m))"

fun image_step :: "dram_spec \<Rightarrow> image_op \<Rightarrow> memory_image \<Rightarrow> ((u8 list \<times> bool) option \<times> memory_image) result" where
  "image_step s (ImageWrite address data ms request_id cycle) m =
     silent (image_write address data ms (Some (decode_address s (line_base m address))) request_id cycle m)"
| "image_step s (ImageRead address len) m =
     bindR (image_read address len (Some (decode_address s (line_base m address))) m)
       (\<lambda>(bytes, initialized, m). Inr (Some (bytes, initialized), m))"
| "image_step s (ImageActivate d cycle) m = silent (activate_row d cycle m)"
| "image_step s (ImagePrecharge d cycle) m = silent (precharge_bank d cycle m)"
| "image_step s (ImagePrechargeAll d cycle) m = silent (precharge_all d cycle m)"
| "image_step s (ImageFlushDirty cycle) m = silent (flush_dirty_row_buffers cycle m)"
| "image_step s (ImageFlushAll cycle) m = silent (flush_all_row_buffers cycle m)"

text \<open>The specification: a function from addresses to a byte and whether it was ever written. Only writes change it.\<close>

fun byte_step :: "image_op \<Rightarrow> (nat \<Rightarrow> u8 \<times> bool) \<Rightarrow> (u8 list \<times> bool) option \<times> (nat \<Rightarrow> u8 \<times> bool)" where
  "byte_step (ImageWrite address data ms _ _) c =
     (None, \<lambda>a. if address \<le> a \<and> a < address + length data \<and> selected ms 0 (a - address) then (data ! (a - address), True) else c a)"
| "byte_step (ImageRead address len) c =
     (Some (map (\<lambda>a. fst (c a)) [address..<address + len], list_all (\<lambda>a. snd (c a)) [address..<address + len]), c)"
| "byte_step _ c = (None, c)"

text \<open>What the controller guarantees of an operation: the span lies in the capacity, a mask has the length of the data, the
  coordinates are within the organization.\<close>

fun op_ok :: "memory_image \<Rightarrow> image_op \<Rightarrow> bool" where
  "op_ok m (ImageWrite address data ms _ _) \<longleftrightarrow>
     in_range m address (length data) \<and> (case ms of None \<Rightarrow> True | Some bs \<Rightarrow> length bs = length data)"
| "op_ok m (ImageRead address len) \<longleftrightarrow> in_range m address len"
| "op_ok m (ImageActivate d _) \<longleftrightarrow> validate_decoded_address m d = Inr ()"
| "op_ok m (ImagePrecharge d _) \<longleftrightarrow> validate_decoded_address m d = Inr ()"
| "op_ok m (ImagePrechargeAll d _) \<longleftrightarrow> validate_decoded_address m d = Inr ()"
| "op_ok m (ImageFlushDirty _) \<longleftrightarrow> True"
| "op_ok m (ImageFlushAll _) \<longleftrightarrow> True"

fun run_ops :: "('op \<Rightarrow> 'm \<Rightarrow> ('out \<times> 'm) result) \<Rightarrow> 'op list \<Rightarrow> 'm \<Rightarrow> ('out list \<times> 'm) result" where
  "run_ops step [] m = Inr ([], m)"
| "run_ops step (q # qs) m =
     bindR (step q m) (\<lambda>(out, m). bindR (run_ops step qs m) (\<lambda>(outs, m). Inr (out # outs, m)))"

fun spec_ops :: "('op \<Rightarrow> 'c \<Rightarrow> 'out \<times> 'c) \<Rightarrow> 'op list \<Rightarrow> 'c \<Rightarrow> 'out list \<times> 'c" where
  "spec_ops spec [] c = ([], c)"
| "spec_ops spec (q # qs) c =
     (let (out, c) = spec q c; (outs, c) = spec_ops spec qs c in (out # outs, c))"

text \<open>A provider of bytes: every operation succeeds, answers as the specification does and keeps the relation to it.\<close>

locale byte_memory =
  fixes step :: "'op \<Rightarrow> 'm \<Rightarrow> ('out \<times> 'm) result"
    and spec :: "'op \<Rightarrow> 'c \<Rightarrow> 'out \<times> 'c"
    and agrees :: "'m \<Rightarrow> 'c \<Rightarrow> bool"
    and accepts :: "'m \<Rightarrow> 'op \<Rightarrow> bool"
  assumes step_agrees: "agrees m c \<Longrightarrow> accepts m q \<Longrightarrow>
      \<exists>m'. step q m = Inr (fst (spec q c), m') \<and> agrees m' (snd (spec q c)) \<and> accepts m' = accepts m"
begin

lemma run_agrees:
  assumes "agrees m c" "list_all (accepts m) qs"
  shows "\<exists>m'. run_ops step qs m = Inr (fst (spec_ops spec qs c), m') \<and> agrees m' (snd (spec_ops spec qs c))"
  using assms
proof (induction qs arbitrary: m c)
  case Nil
  then show ?case by simp
next
  case (Cons q qs)
  from step_agrees [OF Cons.prems(1), of q] Cons.prems(2) obtain m1 where
    m1: "step q m = Inr (fst (spec q c), m1)" "agrees m1 (snd (spec q c))" "accepts m1 = accepts m" by auto
  from Cons.IH [OF m1(2)] Cons.prems(2) m1(1,3) show ?case by (auto simp: case_prod_unfold Let_def)
qed

end

definition image_agrees :: "dram_spec \<Rightarrow> memory_image \<Rightarrow> (nat \<Rightarrow> u8 \<times> bool) \<Rightarrow> bool" where
  "image_agrees s m c \<longleftrightarrow> image_inv m s \<and> no_injection m \<and> (\<forall>a < image_capacity m. image_byte m s a = c a)"

lemma op_ok_cfg: "same_cfg m m' \<Longrightarrow> op_ok m' = op_ok m"
proof
  fix q
  assume cfg: "same_cfg m m'"
  have "validate_decoded_address m' d = validate_decoded_address m d" for d
    using cfg by (simp add: validate_decoded_address_def same_cfg_def)
  then show "op_ok m' q = op_ok m q"
    by (cases q) (simp_all add: in_range_def same_cfg_addresses [OF cfg])
qed

lemma agrees_same_view:
  assumes "image_agrees s m c" "same_view s m m'"
  shows "image_agrees s m' c \<and> op_ok m' = op_ok m"
proof -
  have cfg: "same_cfg m m'" using assms(2) by (simp add: same_view_def)
  from assms show ?thesis
    by (auto simp: image_agrees_def same_view_inv view_bytes same_cfg_addresses [OF cfg] op_ok_cfg [OF cfg])
qed

lemma silent_view:
  assumes "image_agrees s m c" "\<exists>m'. r = Inr m' \<and> same_view s m m'"
  shows "\<exists>m'. silent r = Inr (None, m') \<and> image_agrees s m' c \<and> op_ok m' = op_ok m"
proof -
  from assms(2) obtain m' where "r = Inr m'" "same_view s m m'" by blast
  with agrees_same_view [OF assms(1)] show ?thesis by (auto simp: silent_def)
qed

lemma image_step_agrees:
  assumes agrees: "image_agrees s m c" and ok: "op_ok m q"
  shows "\<exists>m'. image_step s q m = Inr (fst (byte_step q c), m') \<and> image_agrees s m' (snd (byte_step q c)) \<and> op_ok m' = op_ok m"
proof (cases q)
  case (ImageWrite address data ms request_id cycle)
  have inv: "image_inv m s" and inj: "no_injection m" using agrees by (simp_all add: image_agrees_def)
  have range: "in_range m address (length data)" "case ms of None \<Rightarrow> True | Some bs \<Rightarrow> length bs = length data"
    using ok ImageWrite by simp_all
  from image_write_view [OF inv inj range, of request_id cycle] obtain m' where
    m': "image_write address data ms (Some (decode_address s (line_base m address))) request_id cycle m = Inr m'"
    "image_inv m' s" "same_cfg m m'" "\<forall>a < image_capacity m. image_byte m' s a =
        (if address \<le> a \<and> a < address + length data \<and> selected ms 0 (a - address) then (data ! (a - address), True)
         else image_byte m s a)" by blast
  note addr = same_cfg_addresses [OF m'(3)]
  have "image_agrees s m' (snd (byte_step q c))"
    using m'(2,4) agrees inj by (simp add: image_agrees_def addr ImageWrite)
  then show ?thesis using m'(1) op_ok_cfg [OF m'(3)] ImageWrite by (simp add: silent_def)
next
  case (ImageRead address len)
  have inv: "image_inv m s" using agrees by (simp add: image_agrees_def)
  have range: "in_range m address len" using ok ImageRead by simp
  have bytes: "image_byte m s a = c a" if "a \<in> set [address..<address + len]" for a
    using that agrees range by (auto simp: image_agrees_def in_range_def)
  then have same: "map (\<lambda>a. fst (image_byte m s a)) [address..<address + len] = map (\<lambda>a. fst (c a)) [address..<address + len]"
    "list_all (\<lambda>a. snd (image_byte m s a)) [address..<address + len] = list_all (\<lambda>a. snd (c a)) [address..<address + len]"
    by (auto simp: list_all_iff)
  from image_read_view [OF inv range] same ImageRead agrees_same_view [OF agrees] show ?thesis
    by (auto simp del: upt_Suc)
next
  case (ImageActivate d cycle)
  with activate_row_view [of m s d cycle] agrees ok show ?thesis
    using silent_view [OF agrees, of "activate_row d cycle m"] by (simp add: image_agrees_def)
next
  case (ImagePrecharge d cycle)
  with precharge_bank_view [of m s d cycle] agrees ok show ?thesis
    using silent_view [OF agrees, of "precharge_bank d cycle m"] by (simp add: image_agrees_def)
next
  case (ImagePrechargeAll d cycle)
  with precharge_all_view [of m s d cycle] agrees ok show ?thesis
    using silent_view [OF agrees, of "precharge_all d cycle m"] by (simp add: image_agrees_def)
next
  case (ImageFlushDirty cycle)
  with flush_dirty_row_buffers_view [of m s cycle] agrees show ?thesis
    using silent_view [OF agrees, of "flush_dirty_row_buffers cycle m"] by (simp add: image_agrees_def)
next
  case (ImageFlushAll cycle)
  with flush_all_row_buffers_view [of m s cycle] agrees show ?thesis
    using silent_view [OF agrees, of "flush_all_row_buffers cycle m"] by (simp add: image_agrees_def)
qed

interpretation image_bytes: byte_memory "image_step s" byte_step "image_agrees s" op_ok for s
  by unfold_locales (rule image_step_agrees)

lemma mult_div_le_any: "(k::nat) \<le> n div d \<Longrightarrow> d * k \<le> n"
  by (metis mult_le_mono2 order_trans times_div_less_eq_dividend)

text \<open>A fresh image of a valid specification agrees with the memory that holds the default byte everywhere.\<close>

lemma memory_image_make_agrees:
  assumes make: "memory_image_make s v stack ecc 0 = Inr m" and normal: "lpddr_family s \<longrightarrow> lpddr_efficiency_mode s = EffNormal"
    and inj: "\<not> ecc_shadow_enabled ecc \<or> ecc_inject_period ecc \<le> 0"
  shows "image_agrees s m (\<lambda>_. (v, False))"
proof -
  from make obtain n capacity where valid: "validate_spec s = Inr ()" and n: "total_addressable_transactions s = Inr n"
    and capacity: "addressable_capacity_bytes s = Inr capacity"
    and m: "m = \<lparr> mi_line_size = nat (transaction_bytes s), mi_default_value = v, mi_spec = Some s, mi_stack_id = stack,
           mi_ecc = ecc, mi_backend = \<lparr> sb_line_size = nat (transaction_bytes s), sb_capacity_bytes = capacity,
             sb_lines = Map.empty, sb_reverse = Map.empty, sb_unique_written_lines = 0 \<rparr>,
           mi_next_version = 1, mi_row_buffers = [], mi_ecc_counters = ecc_counters0, mi_counters = image_counters0 \<rparr>"
    by (auto simp: memory_image_make_def Let_def bindR_def split: sum.splits if_splits)
  have lines: "n = total_lines s" by (rule total_addressable_ok [OF n])
  have cap: "capacity = total_lines s * nat (transaction_bytes s)" "total_lines s * nat (transaction_bytes s) \<le> u64_max"
    using capacity n lines mult_div_le_any [of "nat (transaction_bytes s)" u64_max "total_lines s"]
    by (auto simp: addressable_capacity_bytes_def Let_def not_less split: if_splits)
  have cfg: "image_cfg m s" using valid normal cap by (simp add: image_cfg_def m)
  have inv: "image_inv m s" using cfg by (simp add: image_inv_def row_buffer_of_def m)
  have "image_byte m s a = (v, False)" if a: "a < image_capacity m" for a
  proof -
    have "line_view m s (line_base m a) = (replicate (mi_line_size m) v, replicate (mi_line_size m) 0)"
      by (simp add: line_view_def backend_view_def row_buffer_of_def m Let_def)
    with line_of_address(2) [OF cfg a] show ?thesis by (simp add: image_byte_def Let_def)
  qed
  with inv inj show ?thesis by (simp add: image_agrees_def no_injection_def m)
qed

text \<open>C3. Without ECC error injection and outside the LPDDR efficiency modes, a fresh image stores and returns bytes exactly as a plain
  byte-addressed memory does, whatever rows are opened, written back, closed or flushed in between: activation, lazy loading, dirty
  tracking, write-back and masks are not observable. Accesses lie within the capacity, and each carries the decoded coordinates of its
  first line. In an LPDDR efficiency mode two lines can share a storage key, and an injected error changes what is read back: both
  are excluded by hypotheses.\<close>

theorem image_is_byte_memory:
  assumes "memory_image_make s v stack ecc 0 = Inr m" "lpddr_family s \<longrightarrow> lpddr_efficiency_mode s = EffNormal"
    and "\<not> ecc_shadow_enabled ecc \<or> ecc_inject_period ecc \<le> 0" "list_all (op_ok m) qs"
  shows "\<exists>m'. run_ops (image_step s) qs m = Inr (fst (spec_ops byte_step qs (\<lambda>_. (v, False))), m')"
  using image_bytes.run_agrees [OF memory_image_make_agrees [OF assms(1-3)] assms(4)] by blast

definition plain_ecc :: ecc_options where
  "plain_ecc = \<lparr> ecc_shadow_enabled = True, ecc_check_on_read = True, ecc_correct_single_bit = True, ecc_inject_period = 0 \<rparr>"

definition sample_image_ops :: "image_op list" where
  "sample_image_ops = [ImageWrite 30 [1, 2, 3, 4] None 7 10, ImageActivate decoded_zero 11, ImageRead 29 3,
     ImageWrite 31 [8, 9] (Some [0, 255]) 8 12, ImagePrecharge decoded_zero 13, ImageRead 30 4]"

lemma image_is_byte_memory_witness:
  "\<exists>m m'. memory_image_make sample_hbm 0 0 plain_ecc 0 = Inr m
     \<and> run_ops (image_step sample_hbm) sample_image_ops m =
       Inr ([None, None, Some ([0, 1, 2], False), None, None, Some ([1, 2, 9, 4], True)], m')"
proof -
  have T: "nat (transaction_bytes sample_hbm) = 32" by (simp add: transaction_bytes_def sample_hbm_def sample_org_def)
  obtain m where make: "memory_image_make sample_hbm 0 0 plain_ecc 0 = Inr m"
    and cap: "image_capacity m = 67108864 * 32" and spec: "mi_spec m = Some sample_hbm"
    by (simp add: memory_image_make_def sample_hbm_valid sample_hbm_transactions addressable_capacity_bytes_def T
      image_capacity_def u64_max_def)
  have zero: "validate_decoded_address m decoded_zero = Inr ()"
    by (simp add: validate_decoded_address_def spec require_coordinate_def check_def decoded_zero_def sample_hbm_def sample_org_def)
  have ok: "list_all (op_ok m) sample_image_ops" by (simp add: sample_image_ops_def in_range_def cap zero)
  have normal: "lpddr_family sample_hbm \<longrightarrow> lpddr_efficiency_mode sample_hbm = EffNormal" by (simp add: sample_hbm_def)
  have ecc: "\<not> ecc_shadow_enabled plain_ecc \<or> ecc_inject_period plain_ecc \<le> 0" by (simp add: plain_ecc_def)
  have "fst (spec_ops byte_step sample_image_ops (\<lambda>_. (0, False))) =
      [None, None, Some ([0, 1, 2], False), None, None, Some ([1, 2, 9, 4], True)]"
    by (simp add: sample_image_ops_def upt_rec selected_def)
  with image_is_byte_memory [OF make normal ecc ok] make show ?thesis by simp
qed

end
