(* ===== verification/Mem_Command.thy ===== *)
theory Mem_Command
  imports Mem_Address
begin

text \<open>
  The command semantics of the memory simulator: the table of command classes
  (\<^verbatim>\<open>dram/semantics.cpp\<close>), the legality state machine of \<^verbatim>\<open>dram/state.cpp\<close>, the accounting of
  interface overhead (\<^verbatim>\<open>dram/interface.cpp\<close>) and the unit conversion of \<^verbatim>\<open>dram/jedec.cpp\<close>.
\<close>

section \<open>The table of command classes\<close>

fun command_index :: "command \<Rightarrow> nat" where
  "command_index ACT = 0"
| "command_index ACT1 = 1"
| "command_index ACT2 = 2"
| "command_index PRE = 3"
| "command_index PREPB = 4"
| "command_index PREAB = 5"
| "command_index CASRD = 6"
| "command_index CASWR = 7"
| "command_index RD = 8"
| "command_index WR = 9"
| "command_index RDA = 10"
| "command_index WRA = 11"
| "command_index REFAB = 12"
| "command_index REFPB = 13"
| "command_index REFDB = 14"
| "command_index RFMAB = 15"
| "command_index RFMPB = 16"
| "command_index MRW = 17"
| "command_index MRR = 18"
| "command_index WCKSYNC = 19"
| "command_index WCKTRAIN = 20"
| "command_index DVFS = 21"
| "command_index PDE = 22"
| "command_index PDX = 23"
| "command_index SREFEN = 24"
| "command_index SREFEX = 25"
| "command_index ECCSCRUB = 26"
| "command_index RASERR = 27"
| "command_index NOP = 28"

fun command_name :: "command \<Rightarrow> string" where
  "command_name ACT = ''ACT''"
| "command_name ACT1 = ''ACT1''"
| "command_name ACT2 = ''ACT2''"
| "command_name PRE = ''PRE''"
| "command_name PREPB = ''PREpb''"
| "command_name PREAB = ''PREab''"
| "command_name CASRD = ''CAS_RD''"
| "command_name CASWR = ''CAS_WR''"
| "command_name RD = ''RD''"
| "command_name WR = ''WR''"
| "command_name RDA = ''RDA''"
| "command_name WRA = ''WRA''"
| "command_name REFAB = ''REFab''"
| "command_name REFPB = ''REFpb''"
| "command_name REFDB = ''REFdb''"
| "command_name RFMAB = ''RFMab''"
| "command_name RFMPB = ''RFMpb''"
| "command_name MRW = ''MRW''"
| "command_name MRR = ''MRR''"
| "command_name WCKSYNC = ''WCK_SYNC''"
| "command_name WCKTRAIN = ''WCK_TRAIN''"
| "command_name DVFS = ''DVFS''"
| "command_name PDE = ''PDE''"
| "command_name PDX = ''PDX''"
| "command_name SREFEN = ''SREFEN''"
| "command_name SREFEX = ''SREFEX''"
| "command_name ECCSCRUB = ''ECC_SCRUB''"
| "command_name RASERR = ''RAS_ERR''"
| "command_name NOP = ''NOP''"

record command_meta =
  meta_name :: string
  meta_row_command :: bool
  meta_column_command :: bool
  meta_activate :: bool
  meta_precharge :: bool
  meta_cas :: bool
  meta_data :: bool
  meta_refresh :: bool
  meta_rfm :: bool
  meta_opening :: bool
  meta_closing :: bool
  meta_accessing :: bool
  meta_all_bank :: bool
  meta_auto_precharge :: bool
  meta_mode_register :: bool
  meta_training :: bool
  meta_power :: bool
  meta_ras :: bool

definition meta :: "string \<Rightarrow> bool \<Rightarrow> bool \<Rightarrow> bool \<Rightarrow> bool \<Rightarrow> bool \<Rightarrow> bool \<Rightarrow> bool \<Rightarrow> bool \<Rightarrow> bool \<Rightarrow> bool
  \<Rightarrow> bool \<Rightarrow> bool \<Rightarrow> bool \<Rightarrow> bool \<Rightarrow> bool \<Rightarrow> bool \<Rightarrow> bool \<Rightarrow> command_meta" where
  "meta n b0 b1 b2 b3 b4 b5 b6 b7 b8 b9 b10 b11 b12 b13 b14 b15 b16 =
     \<lparr> meta_name = n, meta_row_command = b0, meta_column_command = b1, meta_activate = b2, meta_precharge = b3, meta_cas = b4, 
        meta_data = b5, meta_refresh = b6, meta_rfm = b7, meta_opening = b8, meta_closing = b9, meta_accessing = b10, 
        meta_all_bank = b11, meta_auto_precharge = b12, meta_mode_register = b13, meta_training = b14, meta_power = b15, meta_ras = b16 \<rparr>"

definition kMeta :: "command_meta list" where
  "kMeta =
     [meta ''ACT'' True False True False False False False False True False False False False False False False False,
      meta ''ACT1'' True False True False False False False False True False False False False False False False False,
      meta ''ACT2'' True False False False False False False False False False False False False False False False False,
      meta ''PRE'' True False False True False False False False False True False False False False False False False,
      meta ''PREpb'' True False False True False False False False False True False False False False False False False,
      meta ''PREab'' True False False True False False False False False True False True False False False False False,
      meta ''CAS_RD'' False True False False True False False False False False False False False False False False False,
      meta ''CAS_WR'' False True False False True False False False False False False False False False False False False,
      meta ''RD'' False True False False False True False False False False True False False False False False False,
      meta ''WR'' False True False False False True False False False False True False False False False False False,
      meta ''RDA'' False True False False False True False False False True True False True False False False False,
      meta ''WRA'' False True False False False True False False False True True False True False False False False,
      meta ''REFab'' True False False False False False True False False False False True False False False False False,
      meta ''REFpb'' True False False False False False True False False False False False False False False False False,
      meta ''REFdb'' True False False False False False True False False False False False False False False False False,
      meta ''RFMab'' True False False False False False False True False False False True False False False False False,
      meta ''RFMpb'' True False False False False False False True False False False False False False False False False,
      meta ''MRW'' True False False False False False False False False False False True False True False False False,
      meta ''MRR'' True False False False False False False False False False False True False True False False False,
      meta ''WCK_SYNC'' False True False False True False False False False False False False False False True False False,
      meta ''WCK_TRAIN'' True False False False False False False False False False False True False False True False False,
      meta ''DVFS'' True False False False False False False False False False False True False False False True False,
      meta ''PDE'' True False False False False False False False False False False True False False False True False,
      meta ''PDX'' True False False False False False False False False False False True False False False True False,
      meta ''SREFEN'' True False False False False False False False False False False True False False False True False,
      meta ''SREFEX'' True False False False False False False False False False False True False False False True False,
      meta ''ECC_SCRUB'' True False False False False False False False False False False True False False False False True,
      meta ''RAS_ERR'' True False False False False False False False False False False True False False False False True,
      meta ''NOP'' False False False False False False False False False False False False False False False False False]"

definition command_meta_of :: "command \<Rightarrow> command_meta" where
  "command_meta_of c = kMeta ! command_index c"

definition read_command_for :: "row_policy_kind \<Rightarrow> command" where
  "read_command_for p = (if p = ClosedPage then RDA else RD)"

definition write_command_for :: "row_policy_kind \<Rightarrow> command" where
  "write_command_for p = (if p = ClosedPage then WRA else WR)"

text \<open>\<^verbatim>\<open>decoded.bank_group ^ 1\<close> flips the lowest bit of the bank group.\<close>

definition flip_low :: "int \<Rightarrow> int" where
  "flip_low g = (if even g then g + 1 else g - 1)"

definition lpddr_refdb_partner :: "dram_spec \<Rightarrow> decoded_address \<Rightarrow> decoded_address" where
  "lpddr_refdb_partner s d =
     (let groups = max 1 (bank_groups (org s)) in
      if groups < 2 then d
      else if flip_low (da_bank_group d) \<ge> groups then d
      else d\<lparr> da_bank_group := flip_low (da_bank_group d) \<rparr>)"

section \<open>Legality of a command in a state\<close>

datatype bank_protocol_state = BankClosed | BankActivating | BankOpened

record command_state =
  cs_bank_state :: bank_protocol_state
  cs_row_hit :: bool
  cs_wck_ready :: bool
  cs_any_bank_busy :: bool
  cs_split_activate :: bool
  cs_lpddr_family :: bool
  cs_maintenance :: bool
  cs_issued_first_activate :: bool
  cs_low_power_active :: bool
  cs_self_refresh_active :: bool
  cs_training_active :: bool
  cs_dvfs_transition_active :: bool
  cs_wck_training_required :: bool
  cs_ras_ecc_supported :: bool
  cs_link_retry_supported :: bool

text \<open>The field \<^verbatim>\<open>legal\<close> of the result; \<^verbatim>\<open>reason\<close> is only printed.\<close>

fun check_command_state :: "command_state \<Rightarrow> command \<Rightarrow> bool" where
  "check_command_state s ACT = (\<not> cs_split_activate s \<and> cs_bank_state s = BankClosed)"
| "check_command_state s ACT1 = (cs_split_activate s \<and> cs_bank_state s = BankClosed)"
| "check_command_state s ACT2 =
     (cs_split_activate s \<and> cs_bank_state s = BankActivating \<and> cs_issued_first_activate s)"
| "check_command_state s PRE = (cs_bank_state s = BankOpened)"
| "check_command_state s PREPB = (cs_bank_state s = BankOpened)"
| "check_command_state s PREAB = cs_any_bank_busy s"
| "check_command_state s CASRD = (cs_lpddr_family s \<and> cs_bank_state s = BankOpened \<and> cs_row_hit s
     \<and> \<not> cs_wck_training_required s)"
| "check_command_state s CASWR = (cs_lpddr_family s \<and> cs_bank_state s = BankOpened \<and> cs_row_hit s
     \<and> \<not> cs_wck_training_required s)"
| "check_command_state s RD = (cs_bank_state s = BankOpened \<and> cs_row_hit s
     \<and> (\<not> cs_lpddr_family s \<or> cs_wck_ready s \<and> \<not> cs_wck_training_required s))"
| "check_command_state s WR = (cs_bank_state s = BankOpened \<and> cs_row_hit s
     \<and> (\<not> cs_lpddr_family s \<or> cs_wck_ready s \<and> \<not> cs_wck_training_required s))"
| "check_command_state s RDA = (cs_bank_state s = BankOpened \<and> cs_row_hit s
     \<and> (\<not> cs_lpddr_family s \<or> cs_wck_ready s \<and> \<not> cs_wck_training_required s))"
| "check_command_state s WRA = (cs_bank_state s = BankOpened \<and> cs_row_hit s
     \<and> (\<not> cs_lpddr_family s \<or> cs_wck_ready s \<and> \<not> cs_wck_training_required s))"
| "check_command_state s REFPB = (cs_maintenance s \<and> cs_bank_state s = BankClosed)"
| "check_command_state s REFDB = (cs_maintenance s \<and> cs_bank_state s = BankClosed)"
| "check_command_state s RFMPB = (cs_maintenance s \<and> cs_bank_state s = BankClosed)"
| "check_command_state s REFAB = (cs_maintenance s \<and> \<not> cs_any_bank_busy s)"
| "check_command_state s RFMAB = (cs_maintenance s \<and> \<not> cs_any_bank_busy s)"
| "check_command_state s MRW = (cs_maintenance s \<and> \<not> cs_any_bank_busy s \<and> \<not> cs_low_power_active s
     \<and> \<not> cs_self_refresh_active s \<and> \<not> cs_training_active s \<and> \<not> cs_dvfs_transition_active s)"
| "check_command_state s MRR = (cs_maintenance s \<and> \<not> cs_any_bank_busy s \<and> \<not> cs_low_power_active s
     \<and> \<not> cs_self_refresh_active s \<and> \<not> cs_training_active s \<and> \<not> cs_dvfs_transition_active s)"
| "check_command_state s WCKSYNC = (cs_lpddr_family s \<and> \<not> cs_low_power_active s
     \<and> \<not> cs_self_refresh_active s \<and> \<not> cs_training_active s \<and> \<not> cs_dvfs_transition_active s
     \<and> \<not> cs_wck_training_required s)"
| "check_command_state s WCKTRAIN = (cs_lpddr_family s \<and> cs_maintenance s \<and> \<not> cs_any_bank_busy s
     \<and> \<not> cs_low_power_active s \<and> \<not> cs_self_refresh_active s \<and> \<not> cs_dvfs_transition_active s)"
| "check_command_state s DVFS = (cs_lpddr_family s \<and> cs_maintenance s \<and> \<not> cs_any_bank_busy s
     \<and> \<not> cs_low_power_active s \<and> \<not> cs_self_refresh_active s \<and> \<not> cs_training_active s)"
| "check_command_state s PDE = (cs_maintenance s \<and> \<not> cs_any_bank_busy s \<and> \<not> cs_low_power_active s
     \<and> \<not> cs_self_refresh_active s \<and> \<not> cs_training_active s \<and> \<not> cs_dvfs_transition_active s)"
| "check_command_state s PDX = (cs_maintenance s \<and> cs_low_power_active s \<and> \<not> cs_self_refresh_active s)"
| "check_command_state s SREFEN = (cs_maintenance s \<and> \<not> cs_any_bank_busy s
     \<and> \<not> cs_self_refresh_active s \<and> \<not> cs_training_active s \<and> \<not> cs_dvfs_transition_active s)"
| "check_command_state s SREFEX = (cs_maintenance s \<and> cs_self_refresh_active s)"
| "check_command_state s ECCSCRUB = (cs_maintenance s \<and> cs_ras_ecc_supported s \<and> \<not> cs_any_bank_busy s
     \<and> \<not> cs_low_power_active s \<and> \<not> cs_self_refresh_active s)"
| "check_command_state s RASERR = (cs_maintenance s \<and> (cs_ras_ecc_supported s \<or> cs_link_retry_supported s)
     \<and> \<not> cs_training_active s \<and> \<not> cs_dvfs_transition_active s)"
| "check_command_state s NOP = False"

section \<open>Interface overhead\<close>

definition lpddr_metadata_lane_bits :: "dram_spec \<Rightarrow> int" where
  "lpddr_metadata_lane_bits s =
     (if \<not> lpddr_family s then 0
      else max (max 0 (lpddr_dbi_bits_per_request s)) (max 0 (lpddr_link_ecc_bits_per_request s)))"

definition request_protocol_overhead_bits :: "dram_spec \<Rightarrow> int" where
  "request_protocol_overhead_bits s =
     max 0 (metadata_bits_per_request s) + max 0 (ecc_bits_per_request s)
     + max 0 (hbm_link_crc_bits_per_request s) + max 0 (hbm_ras_metadata_bits_per_request s)
     + max 0 (hbm_ecc_bits_per_request s) + lpddr_metadata_lane_bits s"

definition request_interface_bytes :: "dram_spec \<Rightarrow> nat \<Rightarrow> nat" where
  "request_interface_bytes s payload = (max 1 payload * 8 + nat (request_protocol_overhead_bits s) + 7) div 8"

definition transaction_interface_bytes :: "dram_spec \<Rightarrow> nat" where
  "transaction_interface_bytes s = request_interface_bytes s (nat (max 1 (transaction_bytes s)))"

definition command_interface_overhead_bits :: "dram_spec \<Rightarrow> command \<Rightarrow> int" where
  "command_interface_overhead_bits s c =
     (if c = NOP then 0
      else if lpddr_family s \<and> lpddr_ca_parity_enabled s then max 0 (lpddr_ca_parity_bits_per_command s) else 0)"

section \<open>Unit conversion\<close>

definition ps_to_nck :: "rat \<Rightarrow> rat \<Rightarrow> int" where
  "ps_to_nck time tck = (if time \<le> 0 \<or> tck \<le> 0 then 0 else \<lceil>time / tck\<rceil>)"

definition ns_to_nck :: "rat \<Rightarrow> rat \<Rightarrow> int" where
  "ns_to_nck time tck = ps_to_nck (time * 1000) tck"

definition us_to_nck :: "rat \<Rightarrow> rat \<Rightarrow> int" where
  "us_to_nck time tck = ps_to_nck (time * 1000000) tck"

definition max_ns_or_nck :: "rat \<Rightarrow> int \<Rightarrow> rat \<Rightarrow> int" where
  "max_ns_or_nck time cycles tck = max cycles (ns_to_nck time tck)"

definition hbm_tccdl_nck :: "rat \<Rightarrow> int" where
  "hbm_tccdl_nck tck = max_ns_or_nck (5 / 2) 4 tck"

definition hbm_trefipb_nck :: "rat \<Rightarrow> int \<Rightarrow> int" where
  "hbm_trefipb_nck tck banks = (if banks \<le> 0 then 0 else ps_to_nck (3900000 / of_int banks) tck)"

text \<open>The conversion is the least number of clock cycles that lasts at least as long.\<close>

lemma ps_to_nck_least:
  assumes "0 < time" "0 < tck"
  shows "time \<le> of_int (ps_to_nck time tck) * tck \<and> (\<forall>n. time \<le> of_int n * tck \<longrightarrow> ps_to_nck time tck \<le> n)"
proof -
  have "time / tck \<le> of_int n \<longleftrightarrow> time \<le> of_int n * tck" for n using assms by (simp add: divide_le_eq)
  moreover from this [of "\<lceil>time / tck\<rceil>"] have "time \<le> of_int \<lceil>time / tck\<rceil> * tck" by simp
  ultimately show ?thesis using assms by (simp add: ps_to_nck_def ceiling_le_iff)
qed

section \<open>Consistency of the tables\<close>

lemma length_kMeta: "length kMeta = 29"
  by (simp add: kMeta_def)

lemma command_index_less: "command_index c < length kMeta"
  by (cases c) (simp_all add: length_kMeta)

lemma command_index_inject: "command_index c = command_index e \<longleftrightarrow> c = e"
  by (cases c; cases e) simp_all

text \<open>The table of command classes is aligned with the enumeration: the entry selected by a
  command carries that command's name, every command but \<^verbatim>\<open>NOP\<close> is on exactly one of the row and
  the column path, the data commands are the accessing ones, closing commands are the precharges and
  the auto-precharging data commands, and no command is both refresh and RFM.\<close>

theorem command_table_aligned:
  "meta_name (command_meta_of c) = command_name c
   \<and> (c \<noteq> NOP \<longleftrightarrow> (meta_row_command (command_meta_of c) \<noteq> meta_column_command (command_meta_of c)))
   \<and> meta_data (command_meta_of c) = meta_accessing (command_meta_of c)
   \<and> (meta_closing (command_meta_of c) \<longleftrightarrow> meta_precharge (command_meta_of c) \<or> meta_auto_precharge (command_meta_of c))
   \<and> (meta_auto_precharge (command_meta_of c) \<longrightarrow> meta_data (command_meta_of c))
   \<and> \<not> (meta_refresh (command_meta_of c) \<and> meta_rfm (command_meta_of c))"
  by (cases c) (simp_all add: command_meta_of_def kMeta_def meta_def)

lemma command_table_aligned_witness:
  "meta_auto_precharge (command_meta_of RDA) \<and> meta_data (command_meta_of RDA) \<and> meta_closing (command_meta_of RDA)"
  using command_table_aligned [of RDA] by (simp add: command_meta_of_def kMeta_def meta_def)

text \<open>What a legal command guarantees about the state, by the class the command table gives it:
  activates meet a closed bank; data commands meet the open row and, on LPDDR, a running and trained
  WCK; refreshes and RFMs belong to maintenance requests and meet a closed bank or, for all-bank
  commands, an idle rank; a precharge closes something.\<close>

theorem legal_command_classes:
  assumes "check_command_state s c"
  shows "(meta_activate (command_meta_of c) \<longrightarrow> cs_bank_state s = BankClosed)
    \<and> (meta_data (command_meta_of c) \<longrightarrow> cs_bank_state s = BankOpened \<and> cs_row_hit s
        \<and> (cs_lpddr_family s \<longrightarrow> cs_wck_ready s \<and> \<not> cs_wck_training_required s))
    \<and> (meta_refresh (command_meta_of c) \<or> meta_rfm (command_meta_of c) \<longrightarrow> cs_maintenance s
        \<and> (if meta_all_bank (command_meta_of c) then \<not> cs_any_bank_busy s else cs_bank_state s = BankClosed))
    \<and> (meta_precharge (command_meta_of c) \<longrightarrow>
        (if meta_all_bank (command_meta_of c) then cs_any_bank_busy s else cs_bank_state s = BankOpened))"
  using assms by (cases c) (simp_all add: command_meta_of_def kMeta_def meta_def)

definition idle_snapshot :: command_state where
  "idle_snapshot = \<lparr> cs_bank_state = BankClosed, cs_row_hit = False, cs_wck_ready = True, cs_any_bank_busy = False,
     cs_split_activate = False, cs_lpddr_family = False, cs_maintenance = True, cs_issued_first_activate = False,
     cs_low_power_active = False, cs_self_refresh_active = False, cs_training_active = False,
     cs_dvfs_transition_active = False, cs_wck_training_required = False, cs_ras_ecc_supported = False,
     cs_link_retry_supported = False \<rparr>"

lemma legal_command_classes_witness:
  "check_command_state idle_snapshot REFAB \<and> \<not> cs_any_bank_busy idle_snapshot \<and> cs_maintenance idle_snapshot"
  using legal_command_classes [of idle_snapshot REFAB]
  by (simp add: idle_snapshot_def command_meta_of_def kMeta_def meta_def)

lemma flip_low_flip [simp]: "flip_low (flip_low g) = g"
  by (auto simp: flip_low_def)

lemma flip_low_range: "0 \<le> g \<Longrightarrow> g < n \<Longrightarrow> even n \<Longrightarrow> 0 \<le> flip_low g \<and> flip_low g < n"
  by (auto simp: flip_low_def elim!: evenE oddE)

lemma refdb_partner_eq:
  assumes "d \<in> coordinates s" "even (bank_groups (org s))"
  shows "lpddr_refdb_partner s d = d\<lparr> da_bank_group := flip_low (da_bank_group d) \<rparr>"
proof -
  have "0 \<le> da_bank_group d \<and> da_bank_group d < bank_groups (org s)" using assms(1) by (auto simp: coordinates_def)
  moreover from flip_low_range [OF _ _ assms(2)] this have "flip_low (da_bank_group d) < bank_groups (org s)" by blast
  moreover have "2 \<le> bank_groups (org s)" using calculation(1) assms(2) by (auto elim!: evenE)
  ultimately show ?thesis by (simp add: lpddr_refdb_partner_def)
qed

text \<open>On a valid specification with dual-bank refresh the REFdb partner of a bank is another
  bank of the same organisation with the same bank address, and partnership is symmetric: the pairs
  form a disjoint schedule.\<close>

theorem refdb_partner_involution:
  assumes "validate_spec s = Inr ()" "lpddr_dual_bank_refresh s" "d \<in> coordinates s"
  shows "lpddr_refdb_partner s d \<in> coordinates s \<and> \<not> same_bank d (lpddr_refdb_partner s d)
    \<and> da_bank (lpddr_refdb_partner s d) = da_bank d
    \<and> lpddr_refdb_partner s (lpddr_refdb_partner s d) = d"
proof -
  have even: "even (bank_groups (org s))"
    using validate_specD(5) [OF assms(1)] assms(2) by (auto simp: validate_rows_def bindR_eq_Inr even_iff_mod_2_eq_zero)
  let ?p = "lpddr_refdb_partner s d"
  have p: "?p = d\<lparr> da_bank_group := flip_low (da_bank_group d) \<rparr>" using assms(3) even by (rule refdb_partner_eq)
  have in_range: "?p \<in> coordinates s"
    using assms(3) flip_low_range [OF _ _ even] unfolding p by (auto simp: coordinates_def)
  have "lpddr_refdb_partner s ?p = d" using refdb_partner_eq [OF in_range even] p by simp
  with in_range p show ?thesis by (auto simp: same_bank_def flip_low_def)
qed

definition sample_lpddr :: dram_spec where
  "sample_lpddr = sample_hbm\<lparr> standard := Lpddr6, lpddr_family := True, stack_height := 0, density_gb := 8,
     split_activate := True, lpddr_dual_bank_refresh := True, lpddr_wck_ratio := 2,
     timing_constraints := make_lpddr_constraints sample_timing \<rparr>"

lemma sample_lpddr_valid: "validate_spec sample_lpddr = Inr ()"
  by (simp add: validate_defs sample_lpddr_def sample_hbm_def sample_org_def sample_timing_def)

lemma refdb_partner_involution_witness:
  "da_bank_group (lpddr_refdb_partner sample_lpddr decoded_zero) = 1
   \<and> lpddr_refdb_partner sample_lpddr (lpddr_refdb_partner sample_lpddr decoded_zero) = decoded_zero"
proof -
  have "lpddr_dual_bank_refresh sample_lpddr" "decoded_zero \<in> coordinates sample_lpddr"
    by (simp_all add: sample_lpddr_def coordinates_def decoded_zero_def sample_hbm_def sample_org_def)
  from refdb_partner_involution [OF sample_lpddr_valid this] show ?thesis
    by (simp add: lpddr_refdb_partner_def sample_lpddr_def decoded_zero_def flip_low_def sample_hbm_def sample_org_def)
qed

end
