(* ===== verification/Mem_Policy.thy ===== *)
theory Mem_Policy
  imports Mem_Command
begin

text \<open>
  The policy objects of the memory controller: the request of \<^verbatim>\<open>core/request.hpp\<close>, the FCFS and
  FR-FCFS selection of \<^verbatim>\<open>controller/scheduler.cpp\<close>, the row policy of \<^verbatim>\<open>controller/row_policy.cpp\<close>
  and the request queues of \<^verbatim>\<open>controller/request_queues.hpp\<close>. The lemmas characterise the selected
  candidate, relate the row-policy counters to the commands issued since the row was last closed,
  and show that the ownership counters of the queues always match the queue contents.
\<close>

section \<open>Requests\<close>

record dram_request =
  dr_id :: nat
  dr_address :: nat
  dr_system_address :: nat
  dr_has_system_address :: bool
  dr_target_stack :: int
  dr_has_explicit_stack :: bool
  dr_target_channel :: int
  dr_qos_class :: int
  dr_system_sequence :: nat
  dr_type :: request_type
  dr_decoded :: decoded_address
  dr_storage_decoded :: decoded_address
  dr_has_storage_decoded :: bool
  dr_arrival :: nat
  dr_controller_sequence :: nat
  dr_inject_cycle :: nat
  dr_completion :: nat
  dr_issued_cycle :: nat
  dr_bypass_dram :: bool
  dr_host_request_id :: nat
  dr_transaction_index :: nat
  dr_transaction_count :: nat
  dr_transfer_bytes :: nat
  dr_payload :: "u8 list"
  dr_expected_payload :: "u8 list"
  dr_byte_mask :: "u8 list"
  dr_has_payload :: bool
  dr_has_expected_payload :: bool
  dr_has_byte_mask :: bool
  dr_data_committed :: bool
  dr_response_ecc_corrected :: bool
  dr_response_ecc_uncorrectable :: bool
  dr_issued_data_command :: command
  dr_next :: command
  dr_issued_first_activate :: bool
  dr_cas_sync_issued :: bool
  dr_row_status_counted :: bool
  dr_burst_id :: nat
  dr_burst_offset :: nat

definition dram_request0 :: dram_request where
  "dram_request0 = \<lparr> dr_id = 0, dr_address = 0, dr_system_address = 0, dr_has_system_address = False,
     dr_target_stack = -1, dr_has_explicit_stack = False, dr_target_channel = -1, dr_qos_class = 0,
     dr_system_sequence = 0, dr_type = ReqRead, dr_decoded = decoded_zero, dr_storage_decoded = decoded_zero,
     dr_has_storage_decoded = False, dr_arrival = 0, dr_controller_sequence = 0, dr_inject_cycle = 0,
     dr_completion = 0, dr_issued_cycle = 0, dr_bypass_dram = False, dr_host_request_id = 0,
     dr_transaction_index = 0, dr_transaction_count = 1, dr_transfer_bytes = 0, dr_payload = [],
     dr_expected_payload = [], dr_byte_mask = [], dr_has_payload = False, dr_has_expected_payload = False,
     dr_has_byte_mask = False, dr_data_committed = False, dr_response_ecc_corrected = False,
     dr_response_ecc_uncorrectable = False, dr_issued_data_command = NOP, dr_next = NOP,
     dr_issued_first_activate = False, dr_cas_sync_issued = False, dr_row_status_counted = False,
     dr_burst_id = 0, dr_burst_offset = 0 \<rparr>"

section \<open>Scheduling\<close>

record candidate =
  cand_index :: nat
  cand_arrival :: nat
  cand_command :: command
  cand_eligible :: bool
  cand_ready :: bool

text \<open>One step of the selection loop, on the pair of the first eligible and the first ready candidate.\<close>

definition older :: "candidate option \<Rightarrow> candidate \<Rightarrow> bool" where
  "older best c = (case best of None \<Rightarrow> True | Some b \<Rightarrow> cand_arrival c < cand_arrival b)"

definition select_step :: "candidate \<Rightarrow> candidate option \<times> candidate option \<Rightarrow> candidate option \<times> candidate option" where
  "select_step c best =
     (if \<not> cand_eligible c then best
      else (if older (fst best) c then Some c else fst best,
            if cand_ready c \<and> older (snd best) c then Some c else snd best))"

definition select_scheduled_request :: "scheduler_kind \<Rightarrow> candidate list \<Rightarrow> candidate option" where
  "select_scheduled_request kind cs =
     (let (first_eligible, first_ready) = fold select_step cs (None, None) in
      if kind = FCFS
      then (case first_eligible of None \<Rightarrow> None | Some c \<Rightarrow> if cand_ready c then Some c else None)
      else first_ready)"

text \<open>The first candidate of a list among those of least arrival time.\<close>

definition oldest :: "(candidate \<Rightarrow> bool) \<Rightarrow> candidate list \<Rightarrow> candidate option" where
  "oldest P cs = fold (\<lambda>c best. if P c \<and> older best c then Some c else best) cs None"

lemma fold_select_step:
  "fold select_step cs (a, b) =
     (fold (\<lambda>c best. if cand_eligible c \<and> older best c then Some c else best) cs a,
      fold (\<lambda>c best. if (cand_eligible c \<and> cand_ready c) \<and> older best c then Some c else best) cs b)"
  by (induction cs arbitrary: a b) (auto simp: select_step_def)

definition is_oldest :: "(candidate \<Rightarrow> bool) \<Rightarrow> candidate list \<Rightarrow> candidate option \<Rightarrow> bool" where
  "is_oldest P cs r = (case r of
     None \<Rightarrow> \<forall>c\<in>set cs. \<not> P c
   | Some c \<Rightarrow> P c \<and> (\<exists>xs ys. cs = xs @ c # ys \<and> (\<forall>x\<in>set xs. P x \<longrightarrow> cand_arrival c < cand_arrival x)
       \<and> (\<forall>y\<in>set ys. P y \<longrightarrow> cand_arrival c \<le> cand_arrival y)))"

lemma oldest_correct: "is_oldest P cs (oldest P cs)"
proof (induction cs rule: rev_induct)
  case Nil
  then show ?case by (simp add: oldest_def is_oldest_def)
next
  case (snoc c cs)
  have step: "oldest P (cs @ [c]) = (if P c \<and> older (oldest P cs) c then Some c else oldest P cs)"
    by (simp add: oldest_def)
  show ?case
  proof (cases "oldest P cs")
    case None
    with snoc have none: "\<forall>x\<in>set cs. \<not> P x" by (simp add: is_oldest_def)
    show ?thesis
    proof (cases "P c")
      case True
      with None step have "oldest P (cs @ [c]) = Some c" by (simp add: older_def)
      moreover have "\<exists>xs ys. cs @ [c] = xs @ c # ys \<and> (\<forall>x\<in>set xs. P x \<longrightarrow> cand_arrival c < cand_arrival x)
          \<and> (\<forall>y\<in>set ys. P y \<longrightarrow> cand_arrival c \<le> cand_arrival y)"
        by (rule exI [of _ cs], rule exI [of _ "[]"]) (use none in auto)
      ultimately show ?thesis using True by (simp add: is_oldest_def)
    next
      case False
      with None none step show ?thesis by (simp add: is_oldest_def)
    qed
  next
    case (Some b)
    with snoc obtain xs ys where b: "P b" "cs = xs @ b # ys"
      "\<forall>x\<in>set xs. P x \<longrightarrow> cand_arrival b < cand_arrival x" "\<forall>y\<in>set ys. P y \<longrightarrow> cand_arrival b \<le> cand_arrival y"
      by (auto simp: is_oldest_def)
    show ?thesis
    proof (cases "P c \<and> cand_arrival c < cand_arrival b")
      case True
      with Some step have "oldest P (cs @ [c]) = Some c" by (simp add: older_def)
      moreover have "\<exists>xs ys. cs @ [c] = xs @ c # ys \<and> (\<forall>x\<in>set xs. P x \<longrightarrow> cand_arrival c < cand_arrival x)
          \<and> (\<forall>y\<in>set ys. P y \<longrightarrow> cand_arrival c \<le> cand_arrival y)"
        by (rule exI [of _ cs], rule exI [of _ "[]"]) (use True b in fastforce)
      ultimately show ?thesis using True by (simp add: is_oldest_def)
    next
      case False
      with Some step have "oldest P (cs @ [c]) = Some b" by (simp add: older_def)
      moreover have "\<exists>us vs. cs @ [c] = us @ b # vs \<and> (\<forall>x\<in>set us. P x \<longrightarrow> cand_arrival b < cand_arrival x)
          \<and> (\<forall>y\<in>set vs. P y \<longrightarrow> cand_arrival b \<le> cand_arrival y)"
        by (rule exI [of _ xs], rule exI [of _ "ys @ [c]"]) (use False b in fastforce)
      ultimately show ?thesis using b by (simp add: is_oldest_def)
    qed
  qed
qed

lemma select_by_oldest:
  "select_scheduled_request FRFCFS cs = oldest (\<lambda>c. cand_eligible c \<and> cand_ready c) cs"
  "select_scheduled_request FCFS cs =
     (case oldest cand_eligible cs of None \<Rightarrow> None | Some c \<Rightarrow> if cand_ready c then Some c else None)"
  by (simp_all add: select_scheduled_request_def oldest_def fold_select_step)

lemma is_oldest_unique:
  assumes "is_oldest P cs (Some b)" "is_oldest P cs (Some c)"
  shows "b = c"
proof -
  from assms(1) obtain xs ys where b: "P b" "cs = xs @ b # ys"
    "\<forall>x\<in>set xs. P x \<longrightarrow> cand_arrival b < cand_arrival x" "\<forall>y\<in>set ys. P y \<longrightarrow> cand_arrival b \<le> cand_arrival y"
    by (auto simp: is_oldest_def)
  from assms(2) obtain us vs where c: "P c" "cs = us @ c # vs"
    "\<forall>x\<in>set us. P x \<longrightarrow> cand_arrival c < cand_arrival x" "\<forall>y\<in>set vs. P y \<longrightarrow> cand_arrival c \<le> cand_arrival y"
    by (auto simp: is_oldest_def)
  from b(2) c(2) have "xs @ b # ys = us @ c # vs" by simp
  then consider w where "xs = us @ w" "w @ b # ys = c # vs" | w where "us = xs @ w" "b # ys = w @ c # vs"
    by (auto simp: append_eq_append_conv2)
  then show ?thesis
  proof cases
    case 1
    show ?thesis
    proof (cases w)
      case (Cons x w')
      with 1 have "c \<in> set xs" "b \<in> set vs" by auto
      with b c show ?thesis by fastforce
    qed (use 1 in simp)
  next
    case 2
    show ?thesis
    proof (cases w)
      case (Cons x w')
      with 2 have "b \<in> set us" "c \<in> set ys" by auto
      with b c show ?thesis by fastforce
    qed (use 2 in simp)
  qed
qed

lemma is_oldest_iff: "is_oldest P cs (Some c) \<longleftrightarrow> oldest P cs = Some c"
proof
  assume c: "is_oldest P cs (Some c)"
  then obtain b where "oldest P cs = Some b" using oldest_correct [of P cs]
    by (cases "oldest P cs") (auto simp: is_oldest_def)
  with oldest_correct [of P cs] is_oldest_unique c show "oldest P cs = Some c" by metis
qed (use oldest_correct [of P cs] in simp)

text \<open>FR-FCFS selects, among the eligible candidates whose timing is ready, the earliest one of
  the least arrival time, and nothing exactly when there is none; FCFS selects the earliest eligible
  candidate of the least arrival time if its timing is ready, and never bypasses it.\<close>

theorem scheduler_selects_oldest:
  "is_oldest (\<lambda>c. cand_eligible c \<and> cand_ready c) cs (select_scheduled_request FRFCFS cs)
   \<and> (select_scheduled_request FCFS cs = Some c \<longleftrightarrow> is_oldest cand_eligible cs (Some c) \<and> cand_ready c)"
  by (auto simp: select_by_oldest oldest_correct is_oldest_iff split: option.splits)

lemma scheduler_selects_oldest_witness:
  "is_oldest (\<lambda>c. cand_eligible c \<and> cand_ready c)
     [\<lparr> cand_index = 0, cand_arrival = 5, cand_command = ACT, cand_eligible = True, cand_ready = False \<rparr>,
      \<lparr> cand_index = 1, cand_arrival = 7, cand_command = RD, cand_eligible = True, cand_ready = True \<rparr>]
     (Some \<lparr> cand_index = 1, cand_arrival = 7, cand_command = RD, cand_eligible = True, cand_ready = True \<rparr>)"
  using scheduler_selects_oldest [THEN conjunct1,
    of "[\<lparr> cand_index = 0, cand_arrival = 5, cand_command = ACT, cand_eligible = True, cand_ready = False \<rparr>,
      \<lparr> cand_index = 1, cand_arrival = 7, cand_command = RD, cand_eligible = True, cand_ready = True \<rparr>]"]
  by (simp add: select_scheduled_request_def select_step_def older_def)

section \<open>Row policy\<close>

record row_policy =
  rp_cap :: int
  column_accesses :: "int list"
  precharge_pending :: "bool list"

definition row_policy_reset :: "nat \<Rightarrow> int \<Rightarrow> row_policy result" where
  "row_policy_reset banks cap =
     bindR (check (banks \<noteq> 0) (InvalidArgument ''row-policy bank_count must be positive'')) (\<lambda>_.
     bindR (check (0 < cap) (InvalidArgument ''closed-page cap must be positive'')) (\<lambda>_.
     Inr \<lparr> rp_cap = cap, column_accesses = replicate banks 0, precharge_pending = replicate banks False \<rparr>))"

definition rp_valid_bank :: "row_policy \<Rightarrow> int \<Rightarrow> bool" where
  "rp_valid_bank p b \<longleftrightarrow> 0 \<le> b \<and> b < int (length (column_accesses p))"

definition should_schedule_precharge :: "row_policy \<Rightarrow> row_policy_kind \<Rightarrow> int \<Rightarrow> int \<Rightarrow> bool" where
  "should_schedule_precharge p policy b active =
     (if policy \<noteq> ClosedCap \<or> \<not> rp_valid_bank p b then False
      else if active > 0 \<or> precharge_pending p ! nat b then False
      else rp_cap p \<le> column_accesses p ! nat b)"

definition should_auto_precharge :: "row_policy \<Rightarrow> row_policy_kind \<Rightarrow> int \<Rightarrow> bool" where
  "should_auto_precharge p policy b =
     (if policy \<noteq> ClosedCap \<or> \<not> rp_valid_bank p b then False else rp_cap p \<le> column_accesses p ! nat b)"

definition mark_precharge_pending :: "int \<Rightarrow> row_policy \<Rightarrow> row_policy" where
  "mark_precharge_pending b p =
     (if rp_valid_bank p b then p\<lparr> precharge_pending := (precharge_pending p)[nat b := True] \<rparr> else p)"

definition row_policy_issue :: "row_policy_kind \<Rightarrow> int \<Rightarrow> command \<Rightarrow> row_policy \<Rightarrow> row_policy" where
  "row_policy_issue policy b c p =
     (if policy \<noteq> ClosedCap then p
      else if meta_all_bank (command_meta_of c) \<and> meta_closing (command_meta_of c)
      then p\<lparr> column_accesses := map (\<lambda>_. 0) (column_accesses p), precharge_pending := map (\<lambda>_. False) (precharge_pending p) \<rparr>
      else if \<not> rp_valid_bank p b then p
      else if meta_closing (command_meta_of c)
      then p\<lparr> column_accesses := (column_accesses p)[nat b := 0], precharge_pending := (precharge_pending p)[nat b := False] \<rparr>
      else if meta_accessing (command_meta_of c)
      then p\<lparr> column_accesses := (column_accesses p)[nat b := column_accesses p ! nat b + 1] \<rparr>
      else p)"

text \<open>
  The reference: the accesses to a bank since it was last closed, counted over the history of
  issued commands, newest first.
\<close>

fun accesses_since_close :: "int \<Rightarrow> (int \<times> command) list \<Rightarrow> nat" where
  "accesses_since_close b [] = 0"
| "accesses_since_close b ((bank, c) # h) =
     (if meta_closing (command_meta_of c) \<and> (meta_all_bank (command_meta_of c) \<or> bank = b) then 0
      else if meta_accessing (command_meta_of c) \<and> bank = b then Suc (accesses_since_close b h)
      else accesses_since_close b h)"

definition row_policy_run :: "(int \<times> command) list \<Rightarrow> row_policy \<Rightarrow> row_policy" where
  "row_policy_run h p = foldr (\<lambda>(b, c). row_policy_issue ClosedCap b c) h p"

lemma row_policy_run_counts:
  assumes "row_policy_reset banks cap = Inr p0"
  shows "rp_cap (row_policy_run h p0) = cap \<and> length (column_accesses (row_policy_run h p0)) = banks
    \<and> length (precharge_pending (row_policy_run h p0)) = banks
    \<and> (\<forall>b < banks. column_accesses (row_policy_run h p0) ! b = int (accesses_since_close (int b) h))"
proof (induction h)
  case Nil
  from assms show ?case by (auto simp: row_policy_run_def row_policy_reset_def bindR_eq_Inr)
next
  case (Cons x h)
  obtain bank c where x: "x = (bank, c)" by (cases x)
  have step: "row_policy_run ((bank, c) # h) p0 = row_policy_issue ClosedCap bank c (row_policy_run h p0)"
    by (simp add: row_policy_run_def)
  have "\<not> (meta_accessing (command_meta_of c) \<and> meta_all_bank (command_meta_of c))"
    by (cases c) (simp_all add: command_meta_of_def kMeta_def meta_def)
  with Cons show ?case unfolding x step row_policy_issue_def
    by (auto simp: rp_valid_bank_def nth_list_update)
qed

text \<open>Under the ClosedCAP policy the counters implement the specification: after any history of
  issued commands, an automatic precharge is requested for a bank exactly when the number of column
  accesses to it since it was last closed (by a precharge, an auto-precharging access or an all-bank
  precharge) has reached the cap.\<close>

theorem row_policy_refines_history:
  assumes "row_policy_reset banks cap = Inr p0" "b < banks"
  shows "should_auto_precharge (row_policy_run h p0) ClosedCap (int b) \<longleftrightarrow> cap \<le> int (accesses_since_close (int b) h)"
  using row_policy_run_counts [OF assms(1), of h] assms(2)
  by (simp add: should_auto_precharge_def rp_valid_bank_def)

lemma row_policy_refines_history_witness:
  "\<exists>p0. row_policy_reset 4 2 = Inr p0
     \<and> should_auto_precharge (row_policy_run [(1, RD), (1, WR), (1, PREPB), (1, RD)] p0) ClosedCap 1
     \<and> \<not> should_auto_precharge (row_policy_run [(1, RD), (0, PREAB), (1, WR), (1, RD)] p0) ClosedCap 1"
proof -
  obtain p0 where p0: "row_policy_reset 4 2 = Inr p0" by (simp add: row_policy_reset_def)
  from row_policy_refines_history [OF p0, of 1 "[(1, RD), (1, WR), (1, PREPB), (1, RD)]"]
    row_policy_refines_history [OF p0, of 1 "[(1, RD), (0, PREAB), (1, WR), (1, RD)]"] p0
  show ?thesis by (simp add: command_meta_of_def kMeta_def meta_def)
qed

section \<open>Request queues\<close>

datatype request_queue_kind = QActive | QPriority | QRead | QWrite

record request_queues =
  rq_queues :: "request_queue_kind \<Rightarrow> dram_request list"
  rq_limits :: "request_queue_kind \<Rightarrow> nat"
  active_counts :: "int list"

definition request_queues_make :: "nat \<Rightarrow> nat \<Rightarrow> nat \<Rightarrow> nat \<Rightarrow> request_queues result" where
  "request_queues_make banks priority reads writes =
     bindR (check (banks \<noteq> 0 \<and> priority \<noteq> 0 \<and> reads \<noteq> 0 \<and> writes \<noteq> 0)
       (InvalidArgument ''request queue capacity must be positive'')) (\<lambda>_.
     Inr \<lparr> rq_queues = (\<lambda>_. []),
           rq_limits = (\<lambda>k. case k of QActive \<Rightarrow> banks | QPriority \<Rightarrow> priority | QRead \<Rightarrow> reads | QWrite \<Rightarrow> writes),
           active_counts = replicate banks 0 \<rparr>)"

definition rq_has_space :: "request_queues \<Rightarrow> request_queue_kind \<Rightarrow> bool" where
  "rq_has_space q k \<longleftrightarrow> length (rq_queues q k) < rq_limits q k"

definition rq_size :: "request_queues \<Rightarrow> nat" where
  "rq_size q = length (rq_queues q QActive) + length (rq_queues q QPriority) + length (rq_queues q QRead)
     + length (rq_queues q QWrite)"

text \<open>\<^verbatim>\<open>vector::at\<close> with an \<^verbatim>\<open>int\<close> index: a negative index becomes a huge unsigned one.\<close>

definition in_bounds :: "int \<Rightarrow> 'a list \<Rightarrow> bool" where
  "in_bounds i xs \<longleftrightarrow> 0 \<le> i \<and> i < int (length xs)"

definition remove_nth :: "nat \<Rightarrow> 'a list \<Rightarrow> 'a list" where
  "remove_nth i xs = take i xs @ drop (Suc i) xs"

definition rq_erase :: "dram_spec \<Rightarrow> request_queue_kind \<Rightarrow> nat \<Rightarrow> request_queues \<Rightarrow> request_queues result" where
  "rq_erase s k i q =
     (if length (rq_queues q k) \<le> i then Inr q
      else bindR
        (if k = QActive then
           (let b = flat_bank s (dr_decoded (rq_queues q k ! i)) in
            bindR (check (in_bounds b (active_counts q)) (OutOfRange ''active_counts'')) (\<lambda>_.
            bindR (check (0 < active_counts q ! nat b) (LogicError ''active queue ownership underflow'')) (\<lambda>_.
            Inr (q\<lparr> active_counts := (active_counts q)[nat b := active_counts q ! nat b - 1] \<rparr>))))
         else Inr q)
        (\<lambda>q. Inr (q\<lparr> rq_queues := (rq_queues q)(k := remove_nth i (rq_queues q k)) \<rparr>)))"

definition rq_promote :: "dram_spec \<Rightarrow> request_queue_kind \<Rightarrow> nat \<Rightarrow> request_queues \<Rightarrow> (bool \<times> request_queues) result" where
  "rq_promote s k i q =
     (if k = QActive \<or> length (rq_queues q k) \<le> i \<or> \<not> rq_has_space q QActive then Inr (False, q)
      else
        let r = rq_queues q k ! i; b = flat_bank s (dr_decoded r) in
        bindR (check (in_bounds b (active_counts q)) (OutOfRange ''active_counts'')) (\<lambda>_.
        let q = q\<lparr> rq_queues := (rq_queues q)(QActive := rq_queues q QActive @ [r]) \<rparr>;
            q = q\<lparr> active_counts := (active_counts q)[nat b := active_counts q ! nat b + 1] \<rparr> in
        Inr (True, q\<lparr> rq_queues := (rq_queues q)(k := remove_nth i (rq_queues q k)) \<rparr>)))"

text \<open>
  The ownership invariant: the counter of a bank is the number of active requests on it, and no
  queue exceeds its capacity.
\<close>

definition owned :: "dram_spec \<Rightarrow> nat \<Rightarrow> dram_request list \<Rightarrow> nat" where
  "owned s b rs = length (filter (\<lambda>r. flat_bank s (dr_decoded r) = int b) rs)"

definition queues_inv :: "dram_spec \<Rightarrow> request_queues \<Rightarrow> bool" where
  "queues_inv s q \<longleftrightarrow> (\<forall>b < length (active_counts q). active_counts q ! b = int (owned s b (rq_queues q QActive)))
     \<and> (\<forall>k. \<forall>r\<in>set (rq_queues q k). in_bounds (flat_bank s (dr_decoded r)) (active_counts q))
     \<and> (\<forall>k. length (rq_queues q k) \<le> rq_limits q k)"

lemma remove_nth_split: "i < length xs \<Longrightarrow> \<exists>us vs. xs = us @ xs ! i # vs \<and> remove_nth i xs = us @ vs"
  by (metis id_take_nth_drop remove_nth_def)

lemma set_remove_nth: "set (remove_nth i xs) \<subseteq> set xs"
  by (auto simp: remove_nth_def dest: in_set_takeD in_set_dropD)

lemma length_remove_nth: "i < length xs \<Longrightarrow> length (remove_nth i xs) = length xs - 1"
  by (simp add: remove_nth_def)

lemma owned_remove:
  "i < length xs \<Longrightarrow> owned s b xs = owned s b (remove_nth i xs) + (if flat_bank s (dr_decoded (xs ! i)) = int b then 1 else 0)"
proof -
  assume "i < length xs"
  from remove_nth_split [OF this] obtain us vs where *: "xs = us @ xs ! i # vs" "remove_nth i xs = us @ vs" by blast
  have "owned s b (us @ x # vs) = owned s b (us @ vs) + (if flat_bank s (dr_decoded x) = int b then 1 else 0)" for x
    by (simp add: owned_def)
  with * show ?thesis by metis
qed

lemma queues_make_inv: "request_queues_make a b c d = Inr q \<Longrightarrow> queues_inv s q"
  by (auto simp: request_queues_make_def bindR_eq_Inr queues_inv_def owned_def split: request_queue_kind.splits)

text \<open>The queues keep the ownership counters exact and within capacity: under the invariant
  erasing a request never raises the underflow error, it removes exactly the addressed request and
  adjusts the counter of its bank, and the invariant holds again.\<close>

theorem queue_erase_keeps_ownership:
  assumes "queues_inv s q" "i < length (rq_queues q k)"
  shows "\<exists>q'. rq_erase s k i q = Inr q' \<and> queues_inv s q'
    \<and> rq_queues q' = (rq_queues q)(k := remove_nth i (rq_queues q k)) \<and> rq_size q' + 1 = rq_size q"
proof (cases "k = QActive")
  case True
  let ?r = "rq_queues q k ! i"
  let ?b = "flat_bank s (dr_decoded ?r)"
  have mem: "?r \<in> set (rq_queues q k)" using assms(2) by simp
  with assms(1) have b: "in_bounds ?b (active_counts q)" by (simp add: queues_inv_def)
  then have nb: "nat ?b < length (active_counts q)" "int (nat ?b) = ?b" by (auto simp: in_bounds_def)
  then have cnt: "active_counts q ! nat ?b = int (owned s (nat ?b) (rq_queues q k))"
    using assms(1) True by (simp add: queues_inv_def)
  have "0 < active_counts q ! nat ?b" using nb cnt owned_remove [OF assms(2), of s "nat ?b"] by simp
  let ?q = "q\<lparr> active_counts := (active_counts q)[nat ?b := active_counts q ! nat ?b - 1],
    rq_queues := (rq_queues q)(k := remove_nth i (rq_queues q k)) \<rparr>"
  have "rq_erase s k i q = Inr ?q"
    using assms(2) True b \<open>0 < active_counts q ! nat ?b\<close> by (simp add: rq_erase_def Let_def not_le)
  moreover have "queues_inv s ?q"
    unfolding queues_inv_def
  proof (intro conjI allI impI ballI)
    fix x assume "x < length (active_counts ?q)"
    then have x: "x < length (active_counts q)" by simp
    with assms(1) True have "active_counts q ! x = int (owned s x (rq_queues q k))" by (simp add: queues_inv_def)
    with owned_remove [OF assms(2), of s x] x nb True
    show "active_counts ?q ! x = int (owned s x (rq_queues ?q QActive))"
      by (cases "x = nat ?b") (auto simp: nth_list_update)
  next
    fix k' r assume "r \<in> set (rq_queues ?q k')"
    with assms(1) set_remove_nth [of i "rq_queues q k"] show "in_bounds (flat_bank s (dr_decoded r)) (active_counts ?q)"
      by (auto simp: queues_inv_def in_bounds_def split: if_splits)
  next
    fix k' show "length (rq_queues ?q k') \<le> rq_limits ?q k'"
      using assms by (auto simp: queues_inv_def length_remove_nth le_diff_conv trans_le_add1 le_SucI)
  qed
  moreover have "rq_size ?q + 1 = rq_size q" using assms(2) True by (simp add: rq_size_def length_remove_nth)
  ultimately show ?thesis by (intro exI [of _ ?q]) simp
next
  case False
  let ?q = "q\<lparr> rq_queues := (rq_queues q)(k := remove_nth i (rq_queues q k)) \<rparr>"
  have "rq_erase s k i q = Inr ?q" using assms(2) False by (simp add: rq_erase_def)
  moreover have "queues_inv s ?q"
    using assms set_remove_nth [of i "rq_queues q k"] False
    by (auto simp: queues_inv_def length_remove_nth le_diff_conv trans_le_add1 le_SucI)
  moreover have "rq_size ?q + 1 = rq_size q"
    using assms(2) False by (cases k) (auto simp: rq_size_def length_remove_nth)
  ultimately show ?thesis by (intro exI [of _ ?q]) simp
qed

text \<open>Promoting a request under the invariant never fails: it succeeds exactly when the source is
  not the active queue, the index exists and the active queue has space, and then moves that request
  to the end of the active queue, counts it for its bank and keeps the total; otherwise nothing
  changes.\<close>

theorem queue_promote_keeps_ownership:
  assumes inv: "queues_inv s q"
  shows "\<exists>ok q'. rq_promote s k i q = Inr (ok, q') \<and> queues_inv s q' \<and> rq_size q' = rq_size q
    \<and> (ok \<longleftrightarrow> k \<noteq> QActive \<and> i < length (rq_queues q k) \<and> rq_has_space q QActive)
    \<and> (if ok then rq_queues q' = (rq_queues q)(QActive := rq_queues q QActive @ [rq_queues q k ! i],
         k := remove_nth i (rq_queues q k)) else q' = q)"
proof (cases "k \<noteq> QActive \<and> i < length (rq_queues q k) \<and> rq_has_space q QActive")
  case False
  then have "rq_promote s k i q = Inr (False, q)" by (auto simp: rq_promote_def)
  with False inv show ?thesis by (intro exI [of _ False] exI [of _ q]) simp
next
  case True
  let ?r = "rq_queues q k ! i"
  let ?b = "flat_bank s (dr_decoded ?r)"
  have mem: "?r \<in> set (rq_queues q k)" using True by simp
  with inv have b: "in_bounds ?b (active_counts q)" by (simp add: queues_inv_def)
  then have nb: "nat ?b < length (active_counts q)" "int (nat ?b) = ?b" by (auto simp: in_bounds_def)
  define q' where "q' = q\<lparr> rq_queues := (rq_queues q)(QActive := rq_queues q QActive @ [?r],
      k := remove_nth i (rq_queues q k)),
    active_counts := (active_counts q)[nat ?b := active_counts q ! nat ?b + 1] \<rparr>"
  have run: "rq_promote s k i q = Inr (True, q')"
    using True b by (simp add: rq_promote_def Let_def q'_def not_le)
  have "queues_inv s q'"
    unfolding queues_inv_def
  proof (intro conjI allI impI ballI)
    fix x assume "x < length (active_counts q')"
    then have x: "x < length (active_counts q)" by (simp add: q'_def)
    with inv have "active_counts q ! x = int (owned s x (rq_queues q QActive))" by (simp add: queues_inv_def)
    with x nb True show "active_counts q' ! x = int (owned s x (rq_queues q' QActive))"
      by (cases "x = nat ?b") (auto simp: q'_def nth_list_update owned_def)
  next
    fix k' r assume "r \<in> set (rq_queues q' k')"
    with inv set_remove_nth [of i "rq_queues q k"] mem
    show "in_bounds (flat_bank s (dr_decoded r)) (active_counts q')"
      by (auto simp: q'_def queues_inv_def in_bounds_def split: if_splits)
  next
    fix k' show "length (rq_queues q' k') \<le> rq_limits q' k'"
      using True inv by (auto simp: q'_def queues_inv_def rq_has_space_def length_remove_nth le_diff_conv trans_le_add1 Suc_le_eq le_SucI)
  qed
  moreover have "rq_size q' = rq_size q" using True by (cases k) (auto simp: q'_def rq_size_def length_remove_nth)
  moreover have "rq_queues q' = (rq_queues q)(QActive := rq_queues q QActive @ [?r], k := remove_nth i (rq_queues q k))"
    by (simp add: q'_def)
  ultimately show ?thesis using True run by (intro exI [of _ True] exI [of _ q']) simp
qed

definition one_request_queues :: request_queues where
  "one_request_queues = \<lparr> rq_queues = (\<lambda>k. if k = QRead then [dram_request0] else []), rq_limits = (\<lambda>_. 1),
     active_counts = replicate 32 0 \<rparr>"

lemma one_request_queues_inv: "queues_inv sample_hbm one_request_queues"
  by (auto simp: queues_inv_def one_request_queues_def owned_def in_bounds_def dram_request0_def decoded_zero_def
    flat_bank_def)

lemma queue_promote_keeps_ownership_witness:
  "\<exists>q'. rq_promote sample_hbm QRead 0 one_request_queues = Inr (True, q') \<and> queues_inv sample_hbm q'
     \<and> rq_size q' = 1"
proof -
  have "rq_queues one_request_queues QRead = [dram_request0]" "rq_has_space one_request_queues QActive"
    "rq_size one_request_queues = 1"
    by (simp_all add: one_request_queues_def rq_has_space_def rq_size_def)
  moreover obtain ok q' where "rq_promote sample_hbm QRead 0 one_request_queues = Inr (ok, q')" "queues_inv sample_hbm q'"
    "ok \<longleftrightarrow> QRead \<noteq> QActive \<and> 0 < length (rq_queues one_request_queues QRead) \<and> rq_has_space one_request_queues QActive"
    "rq_size q' = rq_size one_request_queues"
    using queue_promote_keeps_ownership [OF one_request_queues_inv, of QRead 0] by blast
  ultimately show ?thesis by simp
qed

lemma queue_erase_keeps_ownership_witness:
  "\<exists>q'. rq_erase sample_hbm QRead 0 one_request_queues = Inr q' \<and> queues_inv sample_hbm q' \<and> rq_size q' = 0"
proof -
  have "0 < length (rq_queues one_request_queues QRead)" "rq_size one_request_queues = 1"
    by (simp_all add: one_request_queues_def rq_size_def)
  with queue_erase_keeps_ownership [OF one_request_queues_inv] show ?thesis by fastforce
qed

end
