(* ===== verification/Mem_Rfm.thy ===== *)
theory Mem_Rfm
  imports Mem_Policy
begin

text \<open>
  Activation counting and row-fault mitigation (\<^verbatim>\<open>controller/rfm.hpp\<close>, \<^verbatim>\<open>controller/rfm.cpp\<close>): the
  counters of activates per bank, the pending flags that keep a mitigation from being requested
  twice, and the bank range of a rank.
\<close>

section \<open>Statistics counters\<close>

text \<open>
  The counters of \<^verbatim>\<open>Stats\<close> that the controller's components update. The per-command counters
  \<^verbatim>\<open>act\<close>, \<^verbatim>\<open>rd\<close>, \<^verbatim>\<open>refab\<close> and so on are the values of \<open>issued_count\<close>.
\<close>

record mem_stats =
  rfm_events :: nat
  rfm_per_bank_events :: nat
  rfm_all_bank_events :: nat
  rfm_decrements :: nat
  issued_count :: "command \<Rightarrow> nat"
  wck_syncs :: nat
  wck_sync_skips :: nat
  mode_register_ops :: nat
  wck_training_events :: nat
  dvfs_transitions :: nat
  ras_ecc_events :: nat

definition mem_stats0 :: mem_stats where
  "mem_stats0 = \<lparr> rfm_events = 0, rfm_per_bank_events = 0, rfm_all_bank_events = 0, rfm_decrements = 0,
     issued_count = (\<lambda>_. 0), wck_syncs = 0, wck_sync_skips = 0, mode_register_ops = 0,
     wck_training_events = 0, dvfs_transitions = 0, ras_ecc_events = 0 \<rparr>"

section \<open>The manager\<close>

record rfm_manager =
  act_counts :: "int list"
  rfm_pending_bank :: "bool list"
  rfm_pending_all_bank :: "bool list"

definition clampI :: "int \<Rightarrow> int \<Rightarrow> int \<Rightarrow> int" where
  "clampI x lo hi = (if x < lo then lo else if hi < x then hi else x)"

definition rank_index :: "dram_spec \<Rightarrow> decoded_address \<Rightarrow> int" where
  "rank_index s d =
     (let channel = clampI (da_channel d) 0 (max 1 (channels (org s)) - 1);
          pc = clampI (da_pseudo_channel d) 0 (max 1 (pseudo_channels (org s)) - 1);
          sid = clampI (da_sid d) 0 (max 1 (sids (org s)) - 1);
          rank = clampI (da_rank d) 0 (max 1 (ranks (org s)) - 1)
      in ((channel * max 1 (pseudo_channels (org s)) + pc) * max 1 (sids (org s)) + sid) * max 1 (ranks (org s)) + rank)"

definition rank_bank_range :: "dram_spec \<Rightarrow> nat \<Rightarrow> decoded_address \<Rightarrow> int \<times> int" where
  "rank_bank_range s n d =
     (let per_rank = max 1 (bank_groups (org s) * banks_per_group (org s)); lower = rank_index s d * per_rank
      in (lower, min (int n) (lower + per_rank)))"

definition decrement_value :: "dram_spec \<Rightarrow> int" where
  "decrement_value s =
     (let fallback = (if rfm_act_threshold s > 0 then rfm_act_threshold s else 1)
      in max 1 (if rfm_decrement s > 0 then rfm_decrement s else fallback))"

definition rfm_reset :: "dram_spec \<Rightarrow> rfm_manager result" where
  "rfm_reset s =
     bindR (validate_spec s) (\<lambda>_. bindR (total_banks s) (\<lambda>banks.
       Inr \<lparr> act_counts = replicate (nat banks) 0, rfm_pending_bank = replicate (nat banks) False,
             rfm_pending_all_bank = replicate (nat (max 1 (channels (org s)) * max 1 (pseudo_channels (org s))
               * max 1 (sids (org s)) * max 1 (ranks (org s)))) False \<rparr>))"

definition rfm_on_activate :: "dram_spec \<Rightarrow> decoded_address \<Rightarrow> rfm_manager \<Rightarrow> mem_stats
    \<Rightarrow> (command \<times> decoded_address) option \<times> rfm_manager \<times> mem_stats" where
  "rfm_on_activate s d m st =
     (if \<not> supports_rfm s \<or> rfm_act_threshold s \<le> 0 then (None, m, st)
      else let flat = flat_bank s d in
        if \<not> in_bounds flat (act_counts m) then (None, m, st)
        else let m = m\<lparr> act_counts := (act_counts m)[nat flat := act_counts m ! nat flat + 1] \<rparr> in
          if act_counts m ! nat flat < rfm_act_threshold s then (None, m, st)
          else if rfm_policy s = AllBank then
            (let target = rank_index s d in
             if \<not> in_bounds target (rfm_pending_all_bank m) \<or> rfm_pending_all_bank m ! nat target then (None, m, st)
             else (Some (RFMAB, d), m\<lparr> rfm_pending_all_bank := (rfm_pending_all_bank m)[nat target := True] \<rparr>,
                   st\<lparr> rfm_events := rfm_events st + 1, rfm_all_bank_events := rfm_all_bank_events st + 1 \<rparr>))
          else if rfm_pending_bank m ! nat flat then (None, m, st)
          else (Some (RFMPB, d), m\<lparr> rfm_pending_bank := (rfm_pending_bank m)[nat flat := True] \<rparr>,
                st\<lparr> rfm_events := rfm_events st + 1, rfm_per_bank_events := rfm_per_bank_events st + 1 \<rparr>))"

definition rfm_on_rfmpb :: "dram_spec \<Rightarrow> decoded_address \<Rightarrow> rfm_manager \<Rightarrow> mem_stats \<Rightarrow> rfm_manager \<times> mem_stats" where
  "rfm_on_rfmpb s d m st =
     (let flat = flat_bank s d in
      if \<not> in_bounds flat (act_counts m) then (m, st)
      else (m\<lparr> act_counts := (act_counts m)[nat flat := max 0 (act_counts m ! nat flat - decrement_value s)],
               rfm_pending_bank := (rfm_pending_bank m)[nat flat := False] \<rparr>,
            st\<lparr> rfm_decrements := rfm_decrements st + 1 \<rparr>))"

text \<open>The loop over the bank range updates each bank of the range once.\<close>

definition map_range :: "int \<times> int \<Rightarrow> ('a \<Rightarrow> 'a) \<Rightarrow> 'a list \<Rightarrow> 'a list" where
  "map_range r f xs = fold (\<lambda>i ys. ys[i := f (ys ! i)]) [nat (fst r)..<nat (snd r)] xs"

definition rfm_on_rfmab :: "dram_spec \<Rightarrow> decoded_address \<Rightarrow> rfm_manager \<Rightarrow> mem_stats \<Rightarrow> rfm_manager \<times> mem_stats" where
  "rfm_on_rfmab s d m st =
     (let range = rank_bank_range s (length (act_counts m)) d;
          m = m\<lparr> act_counts := map_range range (\<lambda>c. max 0 (c - decrement_value s)) (act_counts m),
                 rfm_pending_bank := map_range range (\<lambda>_. False) (rfm_pending_bank m) \<rparr>;
          target = rank_index s d in
      (if in_bounds target (rfm_pending_all_bank m)
       then m\<lparr> rfm_pending_all_bank := (rfm_pending_all_bank m)[nat target := False] \<rparr> else m,
       st\<lparr> rfm_decrements := rfm_decrements st + 1 \<rparr>))"

section \<open>The bank range of a rank\<close>

lemma length_map_range [simp]: "length (map_range r f xs) = length xs"
proof -
  have "length (fold (\<lambda>i ys. ys[i := f (ys ! i)]) ks xs) = length xs" for ks
    by (induction ks arbitrary: xs) simp_all
  then show ?thesis by (simp add: map_range_def)
qed

lemma nth_map_range:
  assumes "i < length xs"
  shows "map_range (a, b) f xs ! i = (if a \<le> int i \<and> int i < b then f (xs ! i) else xs ! i)"
proof -
  have "distinct ks \<Longrightarrow> fold (\<lambda>i ys. ys[i := f (ys ! i)]) ks xs ! i = (if i \<in> set ks then f (xs ! i) else xs ! i)"
    if "i < length xs" for ks xs
    using that
  proof (induction ks arbitrary: xs)
    case (Cons k ks)
    then show ?case by (cases "k = i") auto
  qed simp
  from this [OF assms, of "[nat a..<nat b]"] show ?thesis by (auto simp: map_range_def)
qed

definition same_rank :: "decoded_address \<Rightarrow> decoded_address \<Rightarrow> bool" where
  "same_rank d e \<longleftrightarrow> da_channel d = da_channel e \<and> da_pseudo_channel d = da_pseudo_channel e
     \<and> da_sid d = da_sid e \<and> da_rank d = da_rank e"

lemma rank_index_coordinates:
  "d \<in> coordinates s \<Longrightarrow> rank_index s d =
     ((da_channel d * pseudo_channels (org s) + da_pseudo_channel d) * sids (org s) + da_sid d) * ranks (org s) + da_rank d"
  by (auto simp: rank_index_def coordinates_def clampI_def max_def Let_def)

lemma rank_index_eq_iff:
  assumes "d \<in> coordinates s" "e \<in> coordinates s"
  shows "rank_index s d = rank_index s e \<longleftrightarrow> same_rank d e"
  using assms by (auto simp: rank_index_coordinates coordinates_def same_rank_def horner_eq)

lemma flat_bank_rank:
  "d \<in> coordinates s \<Longrightarrow> flat_bank s d =
     rank_index s d * (bank_groups (org s) * banks_per_group (org s)) + (da_bank_group d * banks_per_group (org s) + da_bank d)"
  by (simp add: rank_index_coordinates flat_bank_def Let_def algebra_simps)

lemma rank_range_iff:
  assumes d: "d \<in> coordinates s" and e: "e \<in> coordinates s" and n: "int n = bank_total s"
  shows "fst (rank_bank_range s n d) \<le> flat_bank s e \<and> flat_bank s e < snd (rank_bank_range s n d) \<longleftrightarrow> same_rank d e"
proof -
  let ?m = "bank_groups (org s) * banks_per_group (org s)"
  have r: "0 \<le> da_bank_group e * banks_per_group (org s) + da_bank e
      \<and> da_bank_group e * banks_per_group (org s) + da_bank e < ?m"
    using e by (intro horner_range) (auto simp: coordinates_def)
  then have m: "0 < ?m" by linarith
  have div: "flat_bank s e div ?m = rank_index s e"
    using r flat_bank_rank [OF e]
    by (intro int_div_pos_eq [of _ _ _ "da_bank_group e * banks_per_group (org s) + da_bank e"]) (auto simp: mult.commute)
  have "rank_index s d * ?m \<le> flat_bank s e \<and> flat_bank s e < rank_index s d * ?m + ?m
      \<longleftrightarrow> rank_index s d = rank_index s e"
  proof
    assume *: "rank_index s d * ?m \<le> flat_bank s e \<and> flat_bank s e < rank_index s d * ?m + ?m"
    then have "flat_bank s e div ?m = rank_index s d"
      using m by (intro int_div_pos_eq [of _ _ _ "flat_bank s e - rank_index s d * ?m"]) (auto simp: mult.commute)
    with div show "rank_index s d = rank_index s e" by simp
  qed (use r flat_bank_rank [OF e] in simp)
  moreover have "flat_bank s e < int n" using flat_bank_range [OF e] n by simp
  ultimately show ?thesis
    using m rank_index_eq_iff [OF d e] by (auto simp: rank_bank_range_def Let_def max_def)
qed

section \<open>One outstanding mitigation per bank\<close>

datatype rfm_event = RfmActivate decoded_address | RfmServed decoded_address

text \<open>The run of the manager over a history (newest event first): what it requested, and its state.\<close>

fun rfm_run :: "dram_spec \<Rightarrow> rfm_manager \<Rightarrow> rfm_event list \<Rightarrow> rfm_manager \<times> mem_stats" where
  "rfm_run s m0 [] = (m0, mem_stats0)"
| "rfm_run s m0 (RfmActivate d # h) = (case rfm_run s m0 h of (m, st) \<Rightarrow> snd (rfm_on_activate s d m st))"
| "rfm_run s m0 (RfmServed d # h) = (case rfm_run s m0 h of (m, st) \<Rightarrow> rfm_on_rfmpb s d m st)"

text \<open>The mitigations requested for a bank and not yet served.\<close>

fun outstanding_rfm :: "dram_spec \<Rightarrow> rfm_manager \<Rightarrow> int \<Rightarrow> rfm_event list \<Rightarrow> nat" where
  "outstanding_rfm s m0 b [] = 0"
| "outstanding_rfm s m0 b (RfmActivate d # h) = outstanding_rfm s m0 b h
     + (case rfm_run s m0 h of (m, st) \<Rightarrow> case fst (rfm_on_activate s d m st) of
          Some (c, e) \<Rightarrow> if c = RFMPB \<and> flat_bank s e = b then 1 else 0 | None \<Rightarrow> 0)"
| "outstanding_rfm s m0 b (RfmServed d # h) = (if flat_bank s d = b then 0 else outstanding_rfm s m0 b h)"

lemma rfm_run_shape:
  assumes "rfm_reset s = Inr m0" "rfm_run s m0 h = (m, st)"
  shows "length (act_counts m) = length (act_counts m0) \<and> length (rfm_pending_bank m) = length (act_counts m0)"
  using assms(2)
proof (induction h arbitrary: m st)
  case Nil
  with assms(1) show ?case by (auto simp: rfm_reset_def bindR_eq_Inr)
next
  case (Cons x h)
  obtain m1 st1 where "rfm_run s m0 h = (m1, st1)" by fastforce
  with Cons show ?case
    by (cases x) (auto simp: rfm_on_activate_def rfm_on_rfmpb_def Let_def split: if_splits)
qed

text \<open>With the per-bank policy the manager requests a mitigation for a bank at most once until it
  is served, its pending flag says exactly whether one is outstanding, and it is never forgotten: an
  activate that leaves the counter of its bank at the threshold or above leaves one outstanding.\<close>

theorem rfm_one_outstanding:
  assumes init: "rfm_reset s = Inr m0" and policy: "rfm_policy s = PerBank" "supports_rfm s"
    and run: "rfm_run s m0 h = (m, st)" and b: "b < length (act_counts m0)"
  shows "outstanding_rfm s m0 (int b) h = (if rfm_pending_bank m ! b then 1 else 0)
    \<and> (\<forall>d h'. h = RfmActivate d # h' \<and> flat_bank s d = int b \<and> rfm_act_threshold s \<le> act_counts m ! b
         \<longrightarrow> rfm_pending_bank m ! b)"
proof
  have thr: "0 < rfm_act_threshold s"
    using init policy by (auto simp: rfm_reset_def bindR_eq_Inr validate_spec_def validate_policies_def)
  show "outstanding_rfm s m0 (int b) h = (if rfm_pending_bank m ! b then 1 else 0)" using run
  proof (induction h arbitrary: m st)
    case Nil
    with init b show ?case by (auto simp: rfm_reset_def bindR_eq_Inr)
  next
    case (Cons x h)
    obtain m1 st1 where r: "rfm_run s m0 h = (m1, st1)" by fastforce
    note IH = Cons.IH [OF r] and shape = rfm_run_shape [OF init r]
    show ?case
    proof (cases x)
      case (RfmActivate d)
      with Cons.prems r IH shape b policy thr show ?thesis
        by (auto simp: rfm_on_activate_def Let_def in_bounds_def nth_list_update split: if_splits)
    next
      case (RfmServed d)
      with Cons.prems r IH shape b show ?thesis
        by (auto simp: rfm_on_rfmpb_def Let_def in_bounds_def nth_list_update split: if_splits)
    qed
  qed
  show "\<forall>d h'. h = RfmActivate d # h' \<and> flat_bank s d = int b \<and> rfm_act_threshold s \<le> act_counts m ! b
      \<longrightarrow> rfm_pending_bank m ! b"
  proof (intro allI impI, elim conjE)
    fix d h' assume h: "h = RfmActivate d # h'" "flat_bank s d = int b" "rfm_act_threshold s \<le> act_counts m ! b"
    obtain m1 st1 where r: "rfm_run s m0 h' = (m1, st1)" by fastforce
    from rfm_run_shape [OF init r] h run r b policy thr show "rfm_pending_bank m ! b"
      by (auto simp: rfm_on_activate_def Let_def in_bounds_def split: if_splits)
  qed
qed

lemma rfm_one_outstanding_witness:
  "\<exists>m0 m st. rfm_reset sample_hbm = Inr m0
     \<and> rfm_run sample_hbm m0 (replicate 5 (RfmActivate decoded_zero)) = (m, st)
     \<and> outstanding_rfm sample_hbm m0 0 (replicate 5 (RfmActivate decoded_zero)) = 1"
proof -
  have banks: "total_banks sample_hbm = Inr 32"
    by (simp add: total_banks_def checked_product_def sample_hbm_def sample_org_def u64_max_def int_max_def)
  define m0 where "m0 = \<lparr> act_counts = replicate 32 0, rfm_pending_bank = replicate 32 False,
      rfm_pending_all_bank = replicate 2 False \<rparr>"
  have init: "rfm_reset sample_hbm = Inr m0"
    by (simp add: rfm_reset_def sample_hbm_valid banks m0_def) (simp add: sample_hbm_def sample_org_def)
  obtain m st where run: "rfm_run sample_hbm m0 (replicate 5 (RfmActivate decoded_zero)) = (m, st)" by fastforce
  have "flat_bank sample_hbm decoded_zero = 0" by (simp add: flat_bank_def decoded_zero_def)
  then have "rfm_pending_bank m ! 0" using run
    by (auto simp: numeral_eq_Suc rfm_on_activate_def sample_hbm_def m0_def in_bounds_def Let_def split: if_splits)
  with rfm_one_outstanding [OF init _ _ run, of 0] have
    "outstanding_rfm sample_hbm m0 0 (replicate 5 (RfmActivate decoded_zero)) = 1"
    by (simp add: sample_hbm_def m0_def)
  with init run show ?thesis by blast
qed

text \<open>An all-bank mitigation has rank scope: it lowers the counters and clears the pending flags of
  exactly the banks that share channel, pseudo-channel, SID and rank with its target, each counter by
  the configured decrement and never below zero.\<close>

theorem rfmab_rank_scope:
  assumes init: "rfm_reset s = Inr m0" and shape: "length (act_counts m) = length (act_counts m0)"
    "length (rfm_pending_bank m) = length (act_counts m0)"
    and d: "d \<in> coordinates s" and e: "e \<in> coordinates s"
  shows "act_counts (fst (rfm_on_rfmab s d m st)) ! nat (flat_bank s e) =
      (if same_rank d e then max 0 (act_counts m ! nat (flat_bank s e) - decrement_value s)
       else act_counts m ! nat (flat_bank s e))
    \<and> rfm_pending_bank (fst (rfm_on_rfmab s d m st)) ! nat (flat_bank s e) =
      (\<not> same_rank d e \<and> rfm_pending_bank m ! nat (flat_bank s e))"
proof -
  have n: "int (length (act_counts m)) = bank_total s"
    using init shape total_banks_ok flat_bank_range [OF e] by (force simp: rfm_reset_def bindR_eq_Inr)
  then have i: "nat (flat_bank s e) < length (act_counts m)" "int (nat (flat_bank s e)) = flat_bank s e"
    using flat_bank_range [OF e] by linarith+
  obtain a b where ab: "rank_bank_range s (length (act_counts m)) d = (a, b)" by fastforce
  with rank_range_iff [OF d e n] have "a \<le> flat_bank s e \<and> flat_bank s e < b \<longleftrightarrow> same_rank d e" by simp
  with i ab shape show ?thesis by (auto simp: rfm_on_rfmab_def Let_def nth_map_range)
qed

lemma rfmab_rank_scope_witness:
  "\<exists>m0. rfm_reset sample_hbm = Inr m0
     \<and> act_counts (fst (rfm_on_rfmab sample_hbm decoded_zero (m0\<lparr> act_counts := replicate 32 7 \<rparr>) mem_stats0)) ! 0 = 3
     \<and> act_counts (fst (rfm_on_rfmab sample_hbm decoded_zero (m0\<lparr> act_counts := replicate 32 7 \<rparr>) mem_stats0)) ! 16 = 7"
proof -
  have banks: "total_banks sample_hbm = Inr 32"
    by (simp add: total_banks_def checked_product_def sample_hbm_def sample_org_def u64_max_def int_max_def)
  define m0 where "m0 = \<lparr> act_counts = replicate 32 0, rfm_pending_bank = replicate 32 False,
      rfm_pending_all_bank = replicate 2 False \<rparr>"
  have init: "rfm_reset sample_hbm = Inr m0"
    by (simp add: rfm_reset_def sample_hbm_valid banks m0_def) (simp add: sample_hbm_def sample_org_def)
  let ?e = "decoded_zero\<lparr> da_pseudo_channel := 1 \<rparr>"
  have "decoded_zero \<in> coordinates sample_hbm" "?e \<in> coordinates sample_hbm"
    "flat_bank sample_hbm decoded_zero = 0" "flat_bank sample_hbm ?e = 16" "\<not> same_rank decoded_zero ?e"
    "same_rank decoded_zero decoded_zero" "decrement_value sample_hbm = 4"
    by (simp_all add: coordinates_def decoded_zero_def flat_bank_def same_rank_def decrement_value_def
      sample_hbm_def sample_org_def)
  with init rfmab_rank_scope [OF init, of "m0\<lparr> act_counts := replicate 32 7 \<rparr>" decoded_zero decoded_zero]
    rfmab_rank_scope [OF init, of "m0\<lparr> act_counts := replicate 32 7 \<rparr>" decoded_zero ?e]
  show ?thesis by (intro exI [of _ m0]) (simp add: m0_def)
qed

end
