(* ===== verification/Mem_Refresh.thy ===== *)
theory Mem_Refresh
  imports Mem_Rfm
begin

text \<open>
  The refresh manager (\<^verbatim>\<open>controller/refresh.hpp\<close>, \<^verbatim>\<open>controller/refresh.cpp\<close>): per-rank deadlines with a
  credit ledger that lets obligations be postponed and pulled in, and the rotation of the refreshed
  banks. The catch-up loop of \<^verbatim>\<open>tick\<close> is a partial function; it is shown to end.
\<close>

section \<open>State\<close>

record rank_refresh =
  next_refresh_cycle :: nat
  sid_cursor :: int
  flat_bank_cursor :: int
  rr_credit :: int
  postpone_count :: int
  pullin_count :: int

record refresh_manager =
  rank_states :: "rank_refresh list"
  rank_cursor :: int

record refresh_tick =
  started_batch :: bool
  postponed :: bool
  pulled_in :: bool
  tick_credit :: int
  tick_commands :: "(command \<times> decoded_address) list"

definition refresh_tick0 :: refresh_tick where
  "refresh_tick0 = \<lparr> started_batch = False, postponed = False, pulled_in = False, tick_credit = 0, tick_commands = [] \<rparr>"

definition refresh_interval :: "dram_spec \<Rightarrow> int" where
  "refresh_interval s =
     (let interval = (if refresh_policy s = AllBank then nREFI (timing_of s)
        else if nREFIpb (timing_of s) > 0 then nREFIpb (timing_of s) else nREFI (timing_of s))
      in if refresh_temperature_mode s \<noteq> TempNormal
         then max 1 (interval div max 1 (refresh_high_temp_multiplier s)) else interval)"

definition refresh_reset :: "dram_spec \<Rightarrow> nat \<Rightarrow> refresh_manager result" where
  "refresh_reset s clk =
     bindR (validate_spec s) (\<lambda>_.
       Inr \<lparr> rank_states = replicate (nat (max 1 (ranks (org s))))
               \<lparr> next_refresh_cycle = clk + timing_delay s (refresh_interval s), sid_cursor = 0, flat_bank_cursor = 0,
                  rr_credit = 0, postpone_count = 0, pullin_count = 0 \<rparr>,
             rank_cursor = 0 \<rparr>)"

section \<open>The rotation of the refreshed banks\<close>

definition refresh_positions :: "dram_spec \<Rightarrow> int" where
  "refresh_positions s =
     (let groups = max 1 (bank_groups (org s)); per_group = max 1 (banks_per_group (org s)) in
      if lpddr_dual_bank_refresh s then max 1 (groups div 2) * per_group else groups * per_group)"

definition seed_refresh_batch :: "dram_spec \<Rightarrow> int \<Rightarrow> rank_refresh \<Rightarrow> (command \<times> decoded_address) list \<times> rank_refresh" where
  "seed_refresh_batch s rank st =
     (if refresh_policy s = AllBank then
        ([(REFAB, decoded_zero\<lparr> da_pseudo_channel := pc, da_sid := sid, da_rank := rank \<rparr>).
           pc \<leftarrow> [0..max 1 (pseudo_channels (org s)) - 1], sid \<leftarrow> [0..max 1 (sids (org s)) - 1]], st)
      else
        let per_group = max 1 (banks_per_group (org s));
            positions = refresh_positions s;
            sid_count = max 1 (sids (org s));
            flat = flat_bank_cursor st mod positions;
            sid = sid_cursor st mod sid_count;
            commands =
              [(if lpddr_dual_bank_refresh s then REFDB else REFPB,
                decoded_zero\<lparr> da_channel := ch, da_pseudo_channel := pc, da_sid := sid, da_rank := rank,
                  da_bank_group := (if lpddr_dual_bank_refresh s then (flat div per_group) * 2 else flat div per_group),
                  da_bank := flat mod per_group \<rparr>).
                ch \<leftarrow> [0..max 1 (channels (org s)) - 1], pc \<leftarrow> [0..max 1 (pseudo_channels (org s)) - 1]];
            st = st\<lparr> flat_bank_cursor := flat_bank_cursor st + 1 \<rparr>
        in (commands,
            if positions \<le> flat_bank_cursor st
            then st\<lparr> flat_bank_cursor := 0, sid_cursor := (sid_cursor st + 1) mod sid_count \<rparr> else st))"

section \<open>One tick\<close>

text \<open>The catch-up loop of one rank; the flag says that a deadline passed.\<close>

partial_function (option) catch_up :: "nat \<Rightarrow> nat \<Rightarrow> rank_refresh \<Rightarrow> bool \<Rightarrow> (rank_refresh \<times> bool) option" where
  "catch_up clk ticks st due =
     (if next_refresh_cycle st \<le> clk
      then catch_up clk ticks (st\<lparr> rr_credit := rr_credit st + 1,
             next_refresh_cycle := next_refresh_cycle st + ticks \<rparr>) True
      else Some (st, due))"

fun catch_up_all :: "nat \<Rightarrow> nat \<Rightarrow> rank_refresh list \<Rightarrow> (rank_refresh list \<times> bool list) option" where
  "catch_up_all clk ticks [] = Some ([], [])"
| "catch_up_all clk ticks (st # sts) =
     (case catch_up clk ticks st False of
        None \<Rightarrow> None
      | Some (st, due) \<Rightarrow>
          (let st = (if rr_credit st \<ge> 0 then st\<lparr> pullin_count := 0 \<rparr> else st) in
           case catch_up_all clk ticks sts of None \<Rightarrow> None | Some (sts, dues) \<Rightarrow> Some (st # sts, due # dues)))"

definition aggregate_credit :: "rank_refresh list \<Rightarrow> int" where
  "aggregate_credit sts = sum_list (map rr_credit sts)"

definition update_rank :: "nat \<Rightarrow> rank_refresh \<Rightarrow> refresh_manager \<Rightarrow> refresh_manager" where
  "update_rank r st m = m\<lparr> rank_states := (rank_states m)[r := st],
     rank_cursor := (int r + 1) mod int (length (rank_states m)) \<rparr>"

text \<open>A due rank: postponed, left waiting, or served by a batch.\<close>

definition serve_due :: "dram_spec \<Rightarrow> bool \<Rightarrow> bool list \<Rightarrow> refresh_manager \<Rightarrow> nat \<Rightarrow> (refresh_tick \<times> refresh_manager) option" where
  "serve_due s postpone_ok newly m r =
     (let st = rank_states m ! r; limit = max 0 (refresh_credit_limit s) in
      if rr_credit st \<le> 0 then None
      else if newly ! r \<and> postpone_ok \<and> refresh_postpone_limit s > 0 \<and> postpone_count st < refresh_postpone_limit s
          \<and> (limit = 0 \<or> rr_credit st \<le> limit)
      then (let m = update_rank r (st\<lparr> postpone_count := postpone_count st + 1 \<rparr>) m in
            Some (refresh_tick0\<lparr> postponed := True, tick_credit := aggregate_credit (rank_states m) \<rparr>, m))
      else if postpone_ok \<and> \<not> newly ! r \<and> postpone_count st > 0 \<and> postpone_count st < refresh_postpone_limit s
      then None
      else (let (commands, st) = seed_refresh_batch s (int r) st;
                st = st\<lparr> rr_credit := rr_credit st - 1 \<rparr>;
                st = (if rr_credit st \<le> 0 then st\<lparr> postpone_count := 0 \<rparr> else st);
                m = update_rank r st m in
            Some (refresh_tick0\<lparr> started_batch := True, tick_commands := commands,
                    tick_credit := aggregate_credit (rank_states m) \<rparr>, m)))"

definition pull_in :: "dram_spec \<Rightarrow> nat \<Rightarrow> refresh_manager \<Rightarrow> nat \<Rightarrow> (refresh_tick \<times> refresh_manager) option" where
  "pull_in s clk m r =
     (let st = rank_states m ! r in
      if rr_credit st = 0 \<and> next_refresh_cycle st \<le> clk + timing_delay s (max 1 (refresh_interval s div 2))
         \<and> pullin_count st < refresh_pullin_limit s
      then (let (commands, st) = seed_refresh_batch s (int r) st;
                st = st\<lparr> rr_credit := rr_credit st - 1, pullin_count := pullin_count st + 1 \<rparr>;
                m = update_rank r st m in
            Some (refresh_tick0\<lparr> started_batch := True, pulled_in := True, tick_commands := commands,
                    tick_credit := aggregate_credit (rank_states m) \<rparr>, m))
      else None)"

fun first_some :: "('a \<Rightarrow> 'b option) \<Rightarrow> 'a list \<Rightarrow> 'b option" where
  "first_some f [] = None"
| "first_some f (x # xs) = (case f x of None \<Rightarrow> first_some f xs | Some y \<Rightarrow> Some y)"

text \<open>The ranks in the order of the loops, starting at the cursor.\<close>

definition rank_order :: "refresh_manager \<Rightarrow> nat list" where
  "rank_order m = map (\<lambda>offset. nat ((rank_cursor m + int offset) mod int (length (rank_states m))))
     [0..<length (rank_states m)]"

definition serve_ranks :: "dram_spec \<Rightarrow> nat \<Rightarrow> bool \<Rightarrow> bool \<Rightarrow> bool list \<Rightarrow> refresh_manager \<Rightarrow> refresh_tick \<times> refresh_manager" where
  "serve_ranks s clk postpone_ok pull_ok newly m =
     (case first_some (serve_due s postpone_ok newly m) (rank_order m) of
        Some r \<Rightarrow> r
      | None \<Rightarrow>
          (case (if pull_ok \<and> refresh_pullin_limit s > 0 then first_some (pull_in s clk m) (rank_order m) else None) of
             Some r \<Rightarrow> r
           | None \<Rightarrow> (refresh_tick0\<lparr> tick_credit := aggregate_credit (rank_states m) \<rparr>, m)))"

definition refresh_tick_step :: "dram_spec \<Rightarrow> nat \<Rightarrow> bool \<Rightarrow> bool \<Rightarrow> refresh_manager \<Rightarrow> (refresh_tick \<times> refresh_manager) result option" where
  "refresh_tick_step s clk postpone_ok pull_ok m =
     (if \<not> supports_refresh s \<or> refresh_interval s \<le> 0 then Some (Inr (refresh_tick0, m))
      else case (if length (rank_states m) \<noteq> nat (max 1 (ranks (org s))) then refresh_reset s clk else Inr m) of
        Inl e \<Rightarrow> Some (Inl e)
      | Inr m \<Rightarrow>
          (case catch_up_all clk (timing_delay s (refresh_interval s)) (rank_states m) of
             None \<Rightarrow> None
           | Some (sts, newly) \<Rightarrow>
               Some (Inr (serve_ranks s clk postpone_ok pull_ok newly (m\<lparr> rank_states := sts \<rparr>)))))"

section \<open>Termination\<close>

definition deadlines_passed :: "nat \<Rightarrow> nat \<Rightarrow> rank_refresh \<Rightarrow> nat" where
  "deadlines_passed clk ticks st =
     (if next_refresh_cycle st \<le> clk then (clk - next_refresh_cycle st) div ticks + 1 else 0)"

lemma deadlines_passed_step:
  assumes "0 < ticks" "next_refresh_cycle st \<le> clk"
  shows "deadlines_passed clk ticks st = deadlines_passed clk ticks (st\<lparr> next_refresh_cycle := next_refresh_cycle st + ticks \<rparr>) + 1"
proof (cases "next_refresh_cycle st + ticks \<le> clk")
  case True
  have "(clk - next_refresh_cycle st) div ticks = (clk - (next_refresh_cycle st + ticks)) div ticks + 1"
    using True assms(1) by (simp add: le_div_geq diff_diff_eq)
  with True show ?thesis by (simp add: deadlines_passed_def)
next
  case False
  then have "(clk - next_refresh_cycle st) div ticks = 0" using assms(2) by (intro div_less) linarith
  with False assms(2) show ?thesis by (simp add: deadlines_passed_def)
qed

lemma deadlines_passed_cong [simp]:
  "deadlines_passed clk ticks (st\<lparr> rr_credit := c, next_refresh_cycle := d \<rparr>) = deadlines_passed clk ticks (st\<lparr> next_refresh_cycle := d \<rparr>)"
  by (simp add: deadlines_passed_def)

lemma catch_up_result:
  assumes "0 < ticks"
  shows "catch_up clk ticks st due = Some (st\<lparr> rr_credit := rr_credit st + int (deadlines_passed clk ticks st),
      next_refresh_cycle := next_refresh_cycle st + ticks * deadlines_passed clk ticks st \<rparr>,
      due \<or> next_refresh_cycle st \<le> clk)"
proof (induction "clk + 1 - next_refresh_cycle st" arbitrary: st due rule: less_induct)
  case less
  show ?case
  proof (cases "next_refresh_cycle st \<le> clk")
    case True
    let ?st = "st\<lparr> rr_credit := rr_credit st + 1, next_refresh_cycle := next_refresh_cycle st + ticks \<rparr>"
    have dec: "clk + 1 - next_refresh_cycle ?st < clk + 1 - next_refresh_cycle st" using True assms by simp
    have "catch_up clk ticks st due = catch_up clk ticks ?st True" using True by (subst catch_up.simps) simp
    also have "\<dots> = Some (?st\<lparr> rr_credit := rr_credit ?st + int (deadlines_passed clk ticks ?st),
        next_refresh_cycle := next_refresh_cycle ?st + ticks * deadlines_passed clk ticks ?st \<rparr>, True)"
      using less [OF dec] by simp
    finally show ?thesis using True deadlines_passed_step [OF assms True] by (simp add: algebra_simps)
  next
    case False
    then show ?thesis by (subst catch_up.simps) (simp add: deadlines_passed_def)
  qed
qed

definition caught_up :: "nat \<Rightarrow> nat \<Rightarrow> rank_refresh \<Rightarrow> rank_refresh" where
  "caught_up clk ticks st =
     (let st' = st\<lparr> rr_credit := rr_credit st + int (deadlines_passed clk ticks st),
        next_refresh_cycle := next_refresh_cycle st + ticks * deadlines_passed clk ticks st \<rparr>
      in if rr_credit st' \<ge> 0 then st'\<lparr> pullin_count := 0 \<rparr> else st')"

lemma catch_up_all_result:
  "0 < ticks \<Longrightarrow> catch_up_all clk ticks sts =
     Some (map (caught_up clk ticks) sts, map (\<lambda>st. next_refresh_cycle st \<le> clk) sts)"
  by (induction sts) (simp_all add: catch_up_result caught_up_def Let_def)

lemma interval_ticks_pos: "0 < refresh_interval s \<Longrightarrow> 0 < timing_delay s (refresh_interval s)"
  by (simp add: timing_delay_def)

lemma next_deadline_future:
  "0 < ticks \<Longrightarrow> clk < next_refresh_cycle st + ticks * deadlines_passed clk ticks st"
proof -
  assume t: "0 < ticks"
  let ?n = "next_refresh_cycle st"
  have "(clk - ?n) mod ticks < ticks" using t by simp
  then have "clk - ?n < ticks * ((clk - ?n) div ticks + 1)"
    using mult_div_mod_eq [of ticks "clk - ?n"] unfolding distrib_left mult_1_right by linarith
  then show ?thesis by (auto simp: deadlines_passed_def)
qed

text \<open>
  The catch-up loop at its machine widths: a deadline is a \<^verbatim>\<open>uint64_t\<close> that wraps, the credit an \<^verbatim>\<open>int\<close>
  whose overflow is undefined, a failure here. The loop above keeps both unbounded.
\<close>

partial_function (option) catch_up_u64 :: "u64 \<Rightarrow> u64 \<Rightarrow> u64 \<Rightarrow> int \<Rightarrow> bool \<Rightarrow> (u64 \<times> int \<times> bool) result option" where
  "catch_up_u64 clk ticks deadline credit due =
     (if deadline \<le> clk
      then (if credit = int int_max then Some (Inl (RuntimeError ''signed overflow of the refresh credit''))
            else catch_up_u64 clk ticks (deadline + ticks) (credit + 1) True)
      else Some (Inr (deadline, credit, due)))"

lemma catch_up_u64_result:
  assumes "0 < ticks" "clk + ticks \<le> u64_max" "deadline \<le> clk + ticks"
    and "credit + int (deadlines_passed clk ticks (st\<lparr> next_refresh_cycle := deadline \<rparr>)) \<le> int int_max"
  shows "catch_up_u64 (of_nat clk) (of_nat ticks) (of_nat deadline) credit due =
     Some (Inr (of_nat (deadline + ticks * deadlines_passed clk ticks (st\<lparr> next_refresh_cycle := deadline \<rparr>)),
       credit + int (deadlines_passed clk ticks (st\<lparr> next_refresh_cycle := deadline \<rparr>)), due \<or> deadline \<le> clk))"
  using assms(3,4)
proof (induction "clk + 1 - deadline" arbitrary: deadline credit due rule: less_induct)
  case less
  have le: "(of_nat deadline :: u64) \<le> of_nat clk \<longleftrightarrow> deadline \<le> clk"
    using less.prems(1) assms(2) by (simp add: word_le_nat_alt unat_of_nat u64_max_def)
  show ?case
  proof (cases "deadline \<le> clk")
    case True
    let ?n = "\<lambda>d. deadlines_passed clk ticks (st\<lparr> next_refresh_cycle := d \<rparr>)"
    have dec: "clk + 1 - (deadline + ticks) < clk + 1 - deadline" using True assms(1) by linarith
    have n: "?n deadline = ?n (deadline + ticks) + 1" using deadlines_passed_step [OF assms(1), of "st\<lparr> next_refresh_cycle := deadline \<rparr>" clk] True by simp
    have "credit + 1 + int (?n (deadline + ticks)) \<le> int int_max" "credit \<noteq> int int_max" using less.prems(2) n by linarith+
    moreover from this less.hyps [OF dec, of "credit + 1" True] True
    have "catch_up_u64 (of_nat clk) (of_nat ticks) (of_nat (deadline + ticks)) (credit + 1) True =
        Some (Inr (of_nat (deadline + ticks + ticks * ?n (deadline + ticks)), credit + 1 + int (?n (deadline + ticks)), True))"
      by simp
    ultimately show ?thesis using True le n by (subst catch_up_u64.simps) (simp add: algebra_simps)
  next
    case False
    then show ?thesis using le by (subst catch_up_u64.simps) (simp add: deadlines_passed_def)
  qed
qed

text \<open>Every deadline is due at the last clock: only the credit can stop the loop.\<close>

lemma catch_up_u64_last:
  "credit \<le> int int_max \<Longrightarrow> catch_up_u64 (- 1) ticks deadline credit due = Some (Inl (RuntimeError ''signed overflow of the refresh credit''))"
proof (induction "nat (int int_max - credit)" arbitrary: deadline credit due rule: less_induct)
  case less
  show ?case
  proof (cases "credit = int int_max")
    case True
    then show ?thesis by (subst catch_up_u64.simps) simp
  next
    case False
    with less show ?thesis by (subst catch_up_u64.simps) simp
  qed
qed

text \<open>C38. The catch-up loop of a refresh tick ends while the clock plus one refresh interval fits the 64-bit cycle counter and
  the credit fits an \<^verbatim>\<open>int\<close>: it returns what the unbounded loop computes, which adds one credit for each deadline that has passed
  and leaves the next deadline beyond the clock. Over unbounded counters a tick returns for every specification, state and clock. At
  the last value of the counter the loop never returns a result: the deadline wraps and stays due until the credit overflows.\<close>

theorem refresh_tick_terminates:
  "refresh_tick_step s clk postpone_ok pull_ok m \<noteq> None
   \<and> (0 < ticks \<and> clk + ticks \<le> u64_max \<and> next_refresh_cycle st \<le> clk + ticks
        \<and> rr_credit st + int (deadlines_passed clk ticks st) \<le> int int_max \<longrightarrow>
      (\<exists>st' late. catch_up clk ticks st due = Some (st', late)
         \<and> catch_up_u64 (of_nat clk) (of_nat ticks) (of_nat (next_refresh_cycle st)) (rr_credit st) due =
             Some (Inr (of_nat (next_refresh_cycle st'), rr_credit st', late))
         \<and> clk < next_refresh_cycle st' \<and> next_refresh_cycle st' \<le> clk + ticks
         \<and> rr_credit st' = rr_credit st + int (deadlines_passed clk ticks st)))
   \<and> (rr_credit st \<le> int int_max \<longrightarrow>
      (\<forall>r. catch_up_u64 (- 1) w deadline (rr_credit st) due \<noteq> Some (Inr r)))"
proof (intro conjI impI)
  show "refresh_tick_step s clk postpone_ok pull_ok m \<noteq> None"
    using catch_up_all_result interval_ticks_pos
    by (auto simp: refresh_tick_step_def split: sum.splits)
next
  assume a: "0 < ticks \<and> clk + ticks \<le> u64_max \<and> next_refresh_cycle st \<le> clk + ticks
    \<and> rr_credit st + int (deadlines_passed clk ticks st) \<le> int int_max"
  then have t: "0 < ticks" by simp
  have "next_refresh_cycle st + ticks * deadlines_passed clk ticks st \<le> clk + ticks"
  proof (cases "next_refresh_cycle st \<le> clk")
    case True
    have "ticks * ((clk - next_refresh_cycle st) div ticks) \<le> clk - next_refresh_cycle st" by (rule times_div_less_eq_dividend)
    moreover have "deadlines_passed clk ticks st = (clk - next_refresh_cycle st) div ticks + 1" using True by (simp add: deadlines_passed_def)
    ultimately show ?thesis using True by (simp only: distrib_left mult_1_right)
  qed (use a in \<open>simp add: deadlines_passed_def\<close>)
  then show "\<exists>st' late. catch_up clk ticks st due = Some (st', late)
      \<and> catch_up_u64 (of_nat clk) (of_nat ticks) (of_nat (next_refresh_cycle st)) (rr_credit st) due =
          Some (Inr (of_nat (next_refresh_cycle st'), rr_credit st', late))
      \<and> clk < next_refresh_cycle st' \<and> next_refresh_cycle st' \<le> clk + ticks
      \<and> rr_credit st' = rr_credit st + int (deadlines_passed clk ticks st)"
    using catch_up_u64_result [OF t, of clk "next_refresh_cycle st" "rr_credit st" st due] a next_deadline_future [OF t]
    by (simp add: catch_up_result [OF t])
next
  assume "rr_credit st \<le> int int_max"
  then show "\<forall>r. catch_up_u64 (- 1) w deadline (rr_credit st) due \<noteq> Some (Inr r)" by (simp add: catch_up_u64_last)
qed

lemma refresh_tick_terminates_witness:
  "catch_up_u64 1000 195 195 0 False = Some (Inr (1170, 5, True)) \<and> (\<forall>r. catch_up_u64 (- 1) 195 195 0 False \<noteq> Some (Inr r))"
proof -
  let ?st = "\<lparr> next_refresh_cycle = 195, sid_cursor = 0, flat_bank_cursor = 0, rr_credit = 0, postpone_count = 0, pullin_count = 0 \<rparr>"
  note c38 = refresh_tick_terminates [of sample_hbm 1000 False False "\<lparr> rank_states = [], rank_cursor = 0 \<rparr>" 195 ?st False 195 195]
  have "catch_up 1000 195 ?st False = Some (?st\<lparr> rr_credit := 5, next_refresh_cycle := 1170 \<rparr>, True)"
    by (simp add: catch_up_result deadlines_passed_def)
  with c38 show ?thesis by (auto simp: deadlines_passed_def u64_max_def int_max_def)
qed

section \<open>The credit ledger\<close>

lemma seed_batch_frame:
  assumes "seed_refresh_batch s rank st = (cmds, st')"
  shows "next_refresh_cycle st' = next_refresh_cycle st \<and> rr_credit st' = rr_credit st
    \<and> cmds \<noteq> [] \<and> (\<forall>c\<in>set cmds. da_rank (snd c) = rank)"
proof -
  have upto: "\<exists>k\<ge>0. k < max 1 x" for x :: int by (rule exI [of _ 0]) simp
  show ?thesis
  proof (intro conjI)
    show "next_refresh_cycle st' = next_refresh_cycle st" "rr_credit st' = rr_credit st"
      using assms by (auto simp: seed_refresh_batch_def Let_def split: if_splits)
    show "\<forall>c\<in>set cmds. da_rank (snd c) = rank"
      using assms by (auto simp: seed_refresh_batch_def Let_def split: if_splits)
    show "cmds \<noteq> []"
      using assms upto by (auto simp: seed_refresh_batch_def Let_def split: if_splits)
  qed
qed

text \<open>The rank a tick served, if it started a batch.\<close>

definition batch_rank :: "refresh_tick \<Rightarrow> int \<Rightarrow> bool" where
  "batch_rank t r \<longleftrightarrow> started_batch t \<and> da_rank (snd (hd (tick_commands t))) = r"

definition ledger_step :: "refresh_manager \<Rightarrow> refresh_tick \<times> refresh_manager \<Rightarrow> bool" where
  "ledger_step m res = (case res of (t, m') \<Rightarrow> length (rank_states m') = length (rank_states m)
     \<and> (\<forall>r < length (rank_states m).
          next_refresh_cycle (rank_states m' ! r) = next_refresh_cycle (rank_states m ! r)
          \<and> rr_credit (rank_states m' ! r) = rr_credit (rank_states m ! r) - (if batch_rank t (int r) then 1 else 0)))"

lemma update_rank_ledger:
  assumes "r < length (rank_states m)" "next_refresh_cycle st = next_refresh_cycle (rank_states m ! r)"
    and "rr_credit st = rr_credit (rank_states m ! r) - (if started_batch t then 1 else 0)"
    and "started_batch t \<longrightarrow> da_rank (snd (hd (tick_commands t))) = int r"
  shows "ledger_step m (t, update_rank r st m)"
  unfolding ledger_step_def prod.case
proof (intro conjI allI impI)
  fix i assume "i < length (rank_states m)"
  with assms show "next_refresh_cycle (rank_states (update_rank r st m) ! i) = next_refresh_cycle (rank_states m ! i)"
    "rr_credit (rank_states (update_rank r st m) ! i) = rr_credit (rank_states m ! i) - (if batch_rank t (int i) then 1 else 0)"
    by (cases "i = r"; simp add: update_rank_def batch_rank_def)+
qed (simp add: update_rank_def)

lemma seed_batch_eq:
  obtains cmds st' where "seed_refresh_batch s (int r) (rank_states m ! r) = (cmds, st')"
    "next_refresh_cycle st' = next_refresh_cycle (rank_states m ! r)" "rr_credit st' = rr_credit (rank_states m ! r)"
    "da_rank (snd (hd cmds)) = int r"
  using seed_batch_frame by (metis hd_in_set surj_pair)

lemma serve_due_ledger:
  assumes "serve_due s postpone_ok newly m r = Some res" "r < length (rank_states m)"
  shows "ledger_step m res"
proof (rule seed_batch_eq [of s r m])
  fix cmds st'
  assume seed: "seed_refresh_batch s (int r) (rank_states m ! r) = (cmds, st')"
    "next_refresh_cycle st' = next_refresh_cycle (rank_states m ! r)" "rr_credit st' = rr_credit (rank_states m ! r)"
    "da_rank (snd (hd cmds)) = int r"
  from assms(1) [symmetric] consider c where "res = (refresh_tick0\<lparr> postponed := True, tick_credit := c \<rparr>,
        update_rank r ((rank_states m ! r)\<lparr> postpone_count := postpone_count (rank_states m ! r) + 1 \<rparr>) m)"
    | c p where "res = (refresh_tick0\<lparr> started_batch := True, tick_commands := cmds, tick_credit := c \<rparr>,
        update_rank r (st'\<lparr> rr_credit := rr_credit st' - 1, postpone_count := p \<rparr>) m)"
    | c where "res = (refresh_tick0\<lparr> started_batch := True, tick_commands := cmds, tick_credit := c \<rparr>,
        update_rank r (st'\<lparr> rr_credit := rr_credit st' - 1 \<rparr>) m)"
    unfolding serve_due_def Let_def seed(1) prod.case by (simp split: if_splits; blast)
  then show ?thesis
    by cases (auto intro!: update_rank_ledger simp: assms(2) seed refresh_tick0_def)
qed

lemma pull_in_ledger:
  assumes "pull_in s clk m r = Some res" "r < length (rank_states m)"
  shows "ledger_step m res"
proof (rule seed_batch_eq [of s r m])
  fix cmds st'
  assume seed: "seed_refresh_batch s (int r) (rank_states m ! r) = (cmds, st')"
    "next_refresh_cycle st' = next_refresh_cycle (rank_states m ! r)" "rr_credit st' = rr_credit (rank_states m ! r)"
    "da_rank (snd (hd cmds)) = int r"
  from assms(1) [symmetric] obtain c where "res = (refresh_tick0\<lparr> started_batch := True, pulled_in := True, tick_commands := cmds,
      tick_credit := c \<rparr>, update_rank r (st'\<lparr> rr_credit := rr_credit st' - 1, pullin_count := pullin_count st' + 1 \<rparr>) m)"
    unfolding pull_in_def Let_def seed(1) prod.case by (simp split: if_splits; blast)
  then show ?thesis
    by (auto intro!: update_rank_ledger simp: assms(2) seed refresh_tick0_def)
qed

lemma first_some_Some: "first_some f xs = Some y \<Longrightarrow> \<exists>x\<in>set xs. f x = Some y"
  by (induction xs) (auto split: option.splits)

lemma rank_order_less: "r \<in> set (rank_order m) \<Longrightarrow> r < length (rank_states m)"
proof -
  assume "r \<in> set (rank_order m)"
  then obtain x where x: "x < length (rank_states m)" and r: "r = nat ((rank_cursor m + int x) mod int (length (rank_states m)))"
    by (auto simp: rank_order_def)
  then have "0 < int (length (rank_states m))" by linarith
  from pos_mod_bound [OF this] pos_mod_sign [OF this] show ?thesis by (simp add: r nat_less_iff)
qed

lemma ledger_step_idle: "ledger_step m (refresh_tick0\<lparr> tick_credit := c \<rparr>, m)"
  by (simp add: ledger_step_def batch_rank_def refresh_tick0_def)

lemma serve_ranks_ledger: "ledger_step m (serve_ranks s clk postpone_ok pull_ok newly m)"
proof (cases "first_some (serve_due s postpone_ok newly m) (rank_order m)")
  case (Some res)
  then obtain r where "r \<in> set (rank_order m)" "serve_due s postpone_ok newly m r = Some res" by (blast dest: first_some_Some)
  with Some show ?thesis by (simp add: serve_ranks_def serve_due_ledger rank_order_less)
next
  case None
  note due = None
  show ?thesis
  proof (cases "if pull_ok \<and> refresh_pullin_limit s > 0 then first_some (pull_in s clk m) (rank_order m) else None")
    case (Some res)
    then obtain r where "r \<in> set (rank_order m)" "pull_in s clk m r = Some res"
      by (auto dest: first_some_Some split: if_splits)
    with due Some show ?thesis by (simp add: serve_ranks_def pull_in_ledger rank_order_less)
  next
    case None
    with due show ?thesis by (simp only: serve_ranks_def option.case ledger_step_idle)
  qed
qed

text \<open>A run of ticks (newest first) and the batches it started for a rank.\<close>

fun refresh_run :: "dram_spec \<Rightarrow> refresh_manager \<Rightarrow> (nat \<times> bool \<times> bool) list \<Rightarrow> (refresh_tick list \<times> refresh_manager) option" where
  "refresh_run s m0 [] = Some ([], m0)"
| "refresh_run s m0 ((clk, postpone_ok, pull_ok) # h) =
     (case refresh_run s m0 h of
        None \<Rightarrow> None
      | Some (ts, m) \<Rightarrow>
          (case refresh_tick_step s clk postpone_ok pull_ok m of
             Some (Inr (t, m')) \<Rightarrow> Some (t # ts, m') | _ \<Rightarrow> None))"

definition batches :: "int \<Rightarrow> refresh_tick list \<Rightarrow> nat" where
  "batches r ts = length (filter (\<lambda>t. batch_rank t r) ts)"

text \<open>C16. The refresh obligations of every rank are kept in an exact ledger, whatever the clock, the
  postponements and the pull-ins: after any run of ticks the next deadline of a rank is the start time
  plus the refresh interval times one plus its credit plus the number of batches started for it. So
  each deadline that passes is either served by exactly one batch or still owed. Cycles are counted
  without a bound here; \<^verbatim>\<open>refresh_tick_terminates\<close> says up to where the 64-bit counter agrees.\<close>

theorem refresh_ledger:
  assumes init: "refresh_reset s clk0 = Inr m0" and on: "supports_refresh s" "0 < refresh_interval s"
  shows "\<exists>ts m. refresh_run s m0 h = Some (ts, m) \<and> length (rank_states m) = nat (max 1 (ranks (org s)))
    \<and> (\<forall>r < length (rank_states m). int (next_refresh_cycle (rank_states m ! r)) =
         int clk0 + int (timing_delay s (refresh_interval s)) * (1 + rr_credit (rank_states m ! r) + int (batches (int r) ts)))"
proof (induction h)
  case Nil
  from init show ?case by (auto simp: refresh_reset_def bindR_eq_Inr batches_def)
next
  case (Cons x h)
  let ?ticks = "timing_delay s (refresh_interval s)"
  have t: "0 < ?ticks" using on(2) by (rule interval_ticks_pos)
  obtain clk postpone_ok pull_ok where x: "x = (clk, postpone_ok, pull_ok)" by (cases x)
  from Cons obtain ts m where run: "refresh_run s m0 h = Some (ts, m)"
    and len: "length (rank_states m) = nat (max 1 (ranks (org s)))"
    and inv: "\<forall>r < length (rank_states m). int (next_refresh_cycle (rank_states m ! r)) =
         int clk0 + int ?ticks * (1 + rr_credit (rank_states m ! r) + int (batches (int r) ts))" by blast
  define m1 where "m1 = m\<lparr> rank_states := map (caught_up clk ?ticks) (rank_states m) \<rparr>"
  define newly where "newly = map (\<lambda>st. next_refresh_cycle st \<le> clk) (rank_states m)"
  obtain t' m' where res: "serve_ranks s clk postpone_ok pull_ok newly m1 = (t', m')" by fastforce
  have step: "refresh_tick_step s clk postpone_ok pull_ok m = Some (Inr (t', m'))"
    using on len res by (simp add: refresh_tick_step_def catch_up_all_result [OF t] m1_def newly_def)
  have led: "ledger_step m1 (t', m')" using serve_ranks_ledger [of m1 s clk postpone_ok pull_ok newly] res by simp
  have "int (next_refresh_cycle (rank_states m' ! r)) =
      int clk0 + int ?ticks * (1 + rr_credit (rank_states m' ! r) + int (batches (int r) (t' # ts)))"
    if r: "r < length (rank_states m')" for r
  proof -
    have r': "r < length (rank_states m)" using r led by (simp add: ledger_step_def m1_def)
    let ?n = "deadlines_passed clk ?ticks (rank_states m ! r)"
    have "next_refresh_cycle (rank_states m' ! r) = next_refresh_cycle (rank_states m ! r) + ?ticks * ?n"
      "rr_credit (rank_states m' ! r) = rr_credit (rank_states m ! r) + int ?n - (if batch_rank t' (int r) then 1 else 0)"
      using led r' by (simp_all add: ledger_step_def m1_def caught_up_def Let_def)
    moreover from this(2) have "1 + rr_credit (rank_states m' ! r) + int (batches (int r) (t' # ts))
        = (1 + rr_credit (rank_states m ! r) + int (batches (int r) ts)) + int ?n" by (simp add: batches_def)
    ultimately show ?thesis using inv r' by (simp only: distrib_left) simp
  qed
  moreover have "length (rank_states m') = nat (max 1 (ranks (org s)))" using led len by (simp add: ledger_step_def m1_def)
  ultimately show ?case using run step by (simp add: x)
qed

lemma refresh_ledger_witness:
  "\<exists>m0 ts m. refresh_reset sample_hbm 0 = Inr m0
     \<and> refresh_run sample_hbm m0 [(400, False, False), (200, True, False)] = Some (ts, m)
     \<and> int (next_refresh_cycle (rank_states m ! 0)) = 195 * (1 + rr_credit (rank_states m ! 0) + int (batches 0 ts))"
proof -
  obtain m0 where init: "refresh_reset sample_hbm 0 = Inr m0" by (simp add: refresh_reset_def sample_hbm_valid)
  have i: "refresh_interval sample_hbm = 195" "timing_delay sample_hbm (refresh_interval sample_hbm) = 195"
    "supports_refresh sample_hbm" "nat (max 1 (ranks (org sample_hbm))) = 1"
    by (simp_all add: refresh_interval_def timing_delay_def sample_hbm_def sample_timing_def sample_org_def)
  with refresh_ledger [OF init i(3), of "[(400, False, False), (200, True, False)]"] init
  show ?thesis by fastforce
qed

end
