(* ===== verification/Mem_Rotation.thy ===== *)
theory Mem_Rotation
  imports Mem_Refresh
begin

text \<open>
  The rotation of the refreshed banks: the batches that the refresh manager seeds for a rank visit
  every bank of the rank exactly once per round.
\<close>

section \<open>The cursors\<close>

definition seeds :: "dram_spec \<Rightarrow> int \<Rightarrow> nat \<Rightarrow> rank_refresh \<Rightarrow> rank_refresh" where
  "seeds s rank k st = ((\<lambda>st. snd (seed_refresh_batch s rank st)) ^^ k) st"

definition seeded_batch :: "dram_spec \<Rightarrow> int \<Rightarrow> nat \<Rightarrow> rank_refresh \<Rightarrow> (command \<times> decoded_address) list" where
  "seeded_batch s rank k st = fst (seed_refresh_batch s rank (seeds s rank k st))"

lemma refresh_positions_pos: "0 < refresh_positions s"
  by (simp add: refresh_positions_def Let_def zero_less_mult_iff less_max_iff_disj)

lemma seeds_cursors:
  assumes "refresh_policy s = PerBank" "flat_bank_cursor st = 0" "sid_cursor st = 0"
  shows "flat_bank_cursor (seeds s rank k st) = int k mod refresh_positions s
    \<and> sid_cursor (seeds s rank k st) = int k div refresh_positions s mod max 1 (sids (org s))"
proof (induction k)
  case 0
  with assms show ?case by (simp add: seeds_def)
next
  case (Suc k)
  let ?P = "refresh_positions s" and ?S = "max 1 (sids (org s))" and ?st = "seeds s rank k st"
  have P: "0 < ?P" by (rule refresh_positions_pos)
  have step: "seeds s rank (Suc k) st = snd (seed_refresh_batch s rank ?st)" by (simp add: seeds_def)
  have next_st: "flat_bank_cursor (seeds s rank (Suc k) st) = (if ?P \<le> int k mod ?P + 1 then 0 else int k mod ?P + 1)"
    "sid_cursor (seeds s rank (Suc k) st) =
      (if ?P \<le> int k mod ?P + 1 then (int k div ?P mod ?S + 1) mod ?S else int k div ?P mod ?S)"
    using Suc assms(1) unfolding step by (simp_all add: seed_refresh_batch_def Let_def)
  show ?case
  proof (cases "?P \<le> int k mod ?P + 1")
    case True
    then have m: "int k mod ?P = ?P - 1" using pos_mod_bound [OF P, of "int k"] by linarith
    have "int (Suc k) = (int k div ?P + 1) * ?P"
      using div_mult_mod_eq [of "int k" ?P] m by (simp add: algebra_simps)
    then have "int (Suc k) mod ?P = 0" "int (Suc k) div ?P = int k div ?P + 1" using P by simp_all
    with True next_st show ?thesis by (simp add: mod_simps)
  next
    case False
    have "int (Suc k) = int k div ?P * ?P + (int k mod ?P + 1)" using div_mult_mod_eq [of "int k" ?P] by simp
    moreover have "0 \<le> int k mod ?P + 1" "int k mod ?P + 1 < ?P" using False P by simp_all
    ultimately have "int (Suc k) mod ?P = int k mod ?P + 1" "int (Suc k) div ?P = int k div ?P"
      by (metis mod_pos_pos_trivial mod_mult_self3, metis P int_div_pos_eq mult.commute)
    with False next_st show ?thesis by simp
  qed
qed

section \<open>Every bank once per round\<close>

text \<open>The banks a command covers: its target and, for a dual-bank refresh, the partner.\<close>

definition covers :: "dram_spec \<Rightarrow> command \<times> decoded_address \<Rightarrow> decoded_address \<Rightarrow> bool" where
  "covers s c d \<longleftrightarrow> same_bank (snd c) d \<or> fst c = REFDB \<and> same_bank (lpddr_refdb_partner s (snd c)) d"

text \<open>The place of a bank in the round.\<close>

definition refresh_slot :: "dram_spec \<Rightarrow> decoded_address \<Rightarrow> int" where
  "refresh_slot s d = da_sid d * refresh_positions s
     + (if lpddr_dual_bank_refresh s then da_bank_group d div 2 else da_bank_group d) * banks_per_group (org s) + da_bank d"

lemma div_mod_split:
  fixes f m q r :: int
  assumes "0 \<le> r" "r < m"
  shows "f = q * m + r \<longleftrightarrow> f div m = q \<and> f mod m = r"
  using assms by auto

lemma int_div_less:
  fixes a b c :: int
  assumes "0 < c" "a < b * c"
  shows "a div c < b"
proof (rule ccontr)
  assume "\<not> a div c < b"
  then have "b * c \<le> a div c * c" using assms(1) by (intro mult_right_mono) auto
  moreover have "a div c * c \<le> a" using assms(1) div_mult_mod_eq [of a c] pos_mod_sign [of c a] by linarith
  ultimately show False using assms(2) by linarith
qed

lemma ex_grid: "(\<exists>c\<in>set [f x y. x \<leftarrow> xs, y \<leftarrow> ys]. Q c) \<longleftrightarrow> (\<exists>x\<in>set xs. \<exists>y\<in>set ys. Q (f x y))"
  by auto

lemma seeded_batch_covers:
  assumes valid: "validate_spec s = Inr ()" and policy: "refresh_policy s = PerBank"
    and st: "flat_bank_cursor st = 0" "sid_cursor st = 0" and d: "d \<in> coordinates s"
  shows "(\<exists>c\<in>set (seeded_batch s (da_rank d) k st). covers s c d) \<longleftrightarrow>
    da_sid d = int k div refresh_positions s mod sids (org s)
    \<and> int k mod refresh_positions s =
      (if lpddr_dual_bank_refresh s then da_bank_group d div 2 else da_bank_group d) * banks_per_group (org s) + da_bank d"
proof -
  note dims = valid_dims [OF valid]
  let ?f = "int k mod refresh_positions s" and ?m = "banks_per_group (org s)"
  let ?sid = "int k div refresh_positions s mod sids (org s)"
  have cur: "flat_bank_cursor (seeds s (da_rank d) k st) = ?f" "sid_cursor (seeds s (da_rank d) k st) = ?sid"
    using seeds_cursors [OF policy st] dims by (simp_all add: max_def)
  have f: "0 \<le> ?f" "?f < refresh_positions s" using refresh_positions_pos [of s] by simp_all
  have rng: "0 \<le> da_channel d" "da_channel d < channels (org s)" "0 \<le> da_pseudo_channel d"
    "da_pseudo_channel d < pseudo_channels (org s)" "0 \<le> da_bank d" "da_bank d < ?m"
    using d by (auto simp: coordinates_def)
  define target where "target ch pc = decoded_zero\<lparr> da_channel := ch, da_pseudo_channel := pc, da_sid := ?sid,
    da_rank := da_rank d, da_bank_group := (if lpddr_dual_bank_refresh s then (?f div ?m) * 2 else ?f div ?m),
    da_bank := ?f mod ?m \<rparr>" for ch pc
  have batch: "(\<exists>c\<in>set (seeded_batch s (da_rank d) k st). Q c) \<longleftrightarrow>
      (\<exists>ch\<in>{0..channels (org s) - 1}. \<exists>pc\<in>{0..pseudo_channels (org s) - 1}.
         Q (if lpddr_dual_bank_refresh s then REFDB else REFPB, target ch pc))" for Q
  proof -
    have "seeded_batch s (da_rank d) k st = [(if lpddr_dual_bank_refresh s then REFDB else REFPB, target ch pc).
        ch \<leftarrow> [0..channels (org s) - 1], pc \<leftarrow> [0..pseudo_channels (org s) - 1]]"
      using policy dims cur by (simp add: seeded_batch_def seed_refresh_batch_def Let_def target_def max_def)
    then show ?thesis by (simp only: ex_grid set_upto)
  qed
  show ?thesis
  proof (cases "lpddr_dual_bank_refresh s")
    case False
    then have "(\<exists>c\<in>set (seeded_batch s (da_rank d) k st). covers s c d) \<longleftrightarrow>
        ?sid = da_sid d \<and> ?f div ?m = da_bank_group d \<and> ?f mod ?m = da_bank d"
      using rng unfolding batch by (auto simp: covers_def same_bank_def target_def)
    with False rng div_mod_split [of "da_bank d" ?m ?f "da_bank_group d"] show ?thesis by auto
  next
    case True
    have even: "even (bank_groups (org s))"
      using validate_specD(5) [OF valid] True by (auto simp: validate_rows_def bindR_eq_Inr even_iff_mod_2_eq_zero)
    have pos: "refresh_positions s = (bank_groups (org s) div 2) * ?m"
      using dims True even by (auto simp: refresh_positions_def Let_def max_def elim!: evenE)
    have q: "0 \<le> ?f div ?m" "(?f div ?m) * 2 < bank_groups (org s)"
    proof -
      have "?f div ?m < bank_groups (org s) div 2" using f(2) dims unfolding pos by (intro int_div_less)
      then show "(?f div ?m) * 2 < bank_groups (org s)" using even by (auto elim!: evenE)
      show "0 \<le> ?f div ?m" using f(1) dims by (simp add: pos_imp_zdiv_nonneg_iff)
    qed
    have partner: "lpddr_refdb_partner s (target ch pc) = (target ch pc)\<lparr> da_bank_group := (?f div ?m) * 2 + 1 \<rparr>" for ch pc
      using q True even by (auto simp: lpddr_refdb_partner_def target_def flip_low_def Let_def elim!: evenE)
    have "covers s (REFDB, target ch pc) d \<longleftrightarrow> ch = da_channel d \<and> pc = da_pseudo_channel d \<and> ?sid = da_sid d
        \<and> (da_bank_group d = (?f div ?m) * 2 \<or> da_bank_group d = (?f div ?m) * 2 + 1) \<and> ?f mod ?m = da_bank d" for ch pc
      using True unfolding covers_def fst_conv snd_conv partner by (auto simp: same_bank_def target_def)
    then have "(\<exists>c\<in>set (seeded_batch s (da_rank d) k st). covers s c d) \<longleftrightarrow>
        ?sid = da_sid d \<and> (da_bank_group d = (?f div ?m) * 2 \<or> da_bank_group d = (?f div ?m) * 2 + 1) \<and> ?f mod ?m = da_bank d"
      using rng True unfolding batch by auto
    moreover have "g = q * 2 \<or> g = q * 2 + 1 \<longleftrightarrow> q = g div 2" for g q :: int by presburger
    ultimately show ?thesis using True rng div_mod_split [of "da_bank d" ?m ?f "da_bank_group d div 2"] by auto
  qed
qed

text \<open>C28. With the per-bank refresh policy the rotation covers every bank of a rank exactly once per round: after a reset, the
  \<open>k\<close>-th batch of a rank refreshes a bank (directly, or as the partner of a dual-bank refresh) exactly
  when \<open>k\<close> is congruent to the place of the bank modulo the length of the round, which is the number of
  bank positions times the number of SIDs.\<close>

theorem refresh_rotation:
  assumes valid: "validate_spec s = Inr ()" and policy: "refresh_policy s = PerBank"
    and st: "flat_bank_cursor st = 0" "sid_cursor st = 0" and d: "d \<in> coordinates s"
  shows "(\<exists>c\<in>set (seeded_batch s (da_rank d) k st). covers s c d) \<longleftrightarrow>
    int k mod (refresh_positions s * sids (org s)) = refresh_slot s d"
proof -
  let ?P = "refresh_positions s" and ?S = "sids (org s)"
  let ?i = "(if lpddr_dual_bank_refresh s then da_bank_group d div 2 else da_bank_group d) * banks_per_group (org s) + da_bank d"
  note dims = valid_dims [OF valid]
  have P: "0 < ?P" by (rule refresh_positions_pos)
  have rng: "0 \<le> da_bank d" "da_bank d < banks_per_group (org s)" "0 \<le> da_bank_group d" "da_bank_group d < bank_groups (org s)"
    using d by (auto simp: coordinates_def)
  have i: "0 \<le> ?i \<and> ?i < ?P"
  proof (cases "lpddr_dual_bank_refresh s")
    case True
    have even: "even (bank_groups (org s))" "2 \<le> bank_groups (org s)"
      using validate_specD(5) [OF valid] True by (auto simp: validate_rows_def bindR_eq_Inr even_iff_mod_2_eq_zero)
    then have pos: "?P = (bank_groups (org s) div 2) * banks_per_group (org s)"
      using dims True by (auto simp: refresh_positions_def Let_def max_def)
    have "0 \<le> da_bank_group d div 2 \<and> da_bank_group d div 2 < bank_groups (org s) div 2" using rng even by (auto elim!: evenE)
    then show ?thesis unfolding pos using True horner_range [of "da_bank_group d div 2" _ "da_bank d"] rng by auto
  next
    case False
    then have pos: "?P = bank_groups (org s) * banks_per_group (org s)"
      using dims by (simp add: refresh_positions_def Let_def max_def)
    show ?thesis unfolding pos using False horner_range [of "da_bank_group d" _ "da_bank d"] rng by auto
  qed
  have "int k mod (?P * ?S) = ?P * (int k div ?P mod ?S) + int k mod ?P"
    using dims by (simp add: zmod_zmult2_eq)
  then have "int k mod (?P * ?S) = refresh_slot s d \<longleftrightarrow>
      (int k div ?P mod ?S) * ?P + int k mod ?P = da_sid d * ?P + ?i"
    by (simp add: refresh_slot_def mult.commute add.assoc)
  also have "\<dots> \<longleftrightarrow> int k div ?P mod ?S = da_sid d \<and> int k mod ?P = ?i"
    using i P by (intro horner_eq) auto
  finally show ?thesis using seeded_batch_covers [OF assms] by auto
qed

lemma refresh_rotation_witness:
  "\<exists>st. flat_bank_cursor st = 0 \<and> (\<exists>c\<in>set (seeded_batch sample_hbm 0 21 st). covers sample_hbm c (decoded_zero\<lparr> da_bank_group := 1, da_bank := 1 \<rparr>))"
proof -
  define st where "st = \<lparr> next_refresh_cycle = 0, sid_cursor = 0, flat_bank_cursor = 0, rr_credit = 0, postpone_count = 0, pullin_count = 0 \<rparr>"
  let ?d = "decoded_zero\<lparr> da_bank_group := 1, da_bank := 1 \<rparr>"
  have "?d \<in> coordinates sample_hbm" "refresh_policy sample_hbm = PerBank" "flat_bank_cursor st = 0" "sid_cursor st = 0"
    by (simp_all add: coordinates_def decoded_zero_def sample_hbm_def sample_org_def st_def)
  from refresh_rotation [OF sample_hbm_valid this(2-4,1), of 21] this(3) show ?thesis
    by (intro exI [of _ st]) (simp add: refresh_slot_def refresh_positions_def decoded_zero_def sample_hbm_def sample_org_def)
qed

end
