(* ===== verification/Mem_Timing.thy ===== *)
theory Mem_Timing
  imports Mem_Rotation
begin

text \<open>
  The timing engine (\<^verbatim>\<open>controller/timing.hpp\<close>, \<^verbatim>\<open>controller/timing.cpp\<close>): one bucket of ready times
  per channel, pseudo-channel, SID, rank, bank group and bank, the table-driven constraints between
  preceding and following commands, the activation window, the WCK window and the LPDDR6 dual-bank
  refresh counters. The main theorem states that the engine implements its constraint table.
\<close>

section \<open>State\<close>

record scope_state =
  next_row :: nat
  next_act :: nat
  next_col :: nat
  next_cas :: nat
  wck_ready_at :: nat
  wck_active_until :: nat
  recent_acts :: "nat list"
  next_command :: "command \<Rightarrow> nat"

definition scope_state0 :: scope_state where
  "scope_state0 = \<lparr> next_row = 0, next_act = 0, next_col = 0, next_cas = 0, wck_ready_at = 0,
     wck_active_until = 0, recent_acts = [], next_command = (\<lambda>_. 0) \<rparr>"

record refdb_state =
  refdb_bank_count :: int
  refdb_ready :: nat
  visited_pairs :: "bool list"

record timing_engine =
  channel_scopes :: "scope_state list"
  pseudo_channel_scopes :: "scope_state list"
  sid_scopes :: "scope_state list"
  rank_scopes :: "scope_state list"
  refdb_states :: "refdb_state list"
  activation_scopes :: "scope_state list"
  row_scopes :: "scope_state list"
  column_scopes :: "scope_state list"
  bank_group_scopes :: "scope_state list"
  bank_scopes :: "scope_state list"
  wck_scopes :: "scope_state list"

section \<open>Buckets\<close>

definition dim1 :: "int \<Rightarrow> nat" where
  "dim1 n = nat (max 1 n)"

definition coord1 :: "int \<Rightarrow> int \<Rightarrow> nat" where
  "coord1 x n = nat (clampI x 0 (max 1 n - 1))"

fun scope_count :: "dram_spec \<Rightarrow> timing_scope \<Rightarrow> nat" where
  "scope_count s ScopeChannel = dim1 (channels (org s))"
| "scope_count s ScopePseudoChannel = dim1 (channels (org s)) * dim1 (pseudo_channels (org s))"
| "scope_count s ScopeSid = dim1 (channels (org s)) * dim1 (pseudo_channels (org s)) * dim1 (sids (org s))"
| "scope_count s ScopeRank = dim1 (channels (org s)) * dim1 (pseudo_channels (org s)) * dim1 (sids (org s))
     * dim1 (ranks (org s))"
| "scope_count s ScopeBankGroup = dim1 (channels (org s)) * dim1 (pseudo_channels (org s)) * dim1 (sids (org s))
     * dim1 (ranks (org s)) * dim1 (bank_groups (org s))"
| "scope_count s ScopeBank = dim1 (channels (org s)) * dim1 (pseudo_channels (org s)) * dim1 (sids (org s))
     * dim1 (ranks (org s)) * dim1 (bank_groups (org s)) * dim1 (banks_per_group (org s))"

definition scope_index :: "dram_spec \<Rightarrow> timing_scope \<Rightarrow> decoded_address \<Rightarrow> nat" where
  "scope_index s sc d =
     (let x = coord1 (da_channel d) (channels (org s)) in
      if sc = ScopeChannel then x else
      let x = x * dim1 (pseudo_channels (org s)) + coord1 (da_pseudo_channel d) (pseudo_channels (org s)) in
      if sc = ScopePseudoChannel then x else
      let x = x * dim1 (sids (org s)) + coord1 (da_sid d) (sids (org s)) in
      if sc = ScopeSid then x else
      let x = x * dim1 (ranks (org s)) + coord1 (da_rank d) (ranks (org s)) in
      if sc = ScopeRank then x else
      let x = x * dim1 (bank_groups (org s)) + coord1 (da_bank_group d) (bank_groups (org s)) in
      if sc = ScopeBankGroup then x else
      x * dim1 (banks_per_group (org s)) + coord1 (da_bank d) (banks_per_group (org s)))"

fun scope_vector :: "timing_engine \<Rightarrow> timing_scope \<Rightarrow> scope_state list" where
  "scope_vector e ScopeChannel = channel_scopes e"
| "scope_vector e ScopePseudoChannel = pseudo_channel_scopes e"
| "scope_vector e ScopeSid = sid_scopes e"
| "scope_vector e ScopeRank = rank_scopes e"
| "scope_vector e ScopeBankGroup = bank_group_scopes e"
| "scope_vector e ScopeBank = bank_scopes e"

text \<open>An update through the reference that \<^verbatim>\<open>mutable_scope\<close> or \<^verbatim>\<open>scope_vector(...)[index]\<close> returns.\<close>

fun modify_scope :: "timing_scope \<Rightarrow> nat \<Rightarrow> (scope_state \<Rightarrow> scope_state) \<Rightarrow> timing_engine \<Rightarrow> timing_engine" where
  "modify_scope ScopeChannel i f e = e\<lparr> channel_scopes := (channel_scopes e)[i := f (channel_scopes e ! i)] \<rparr>"
| "modify_scope ScopePseudoChannel i f e =
     e\<lparr> pseudo_channel_scopes := (pseudo_channel_scopes e)[i := f (pseudo_channel_scopes e ! i)] \<rparr>"
| "modify_scope ScopeSid i f e = e\<lparr> sid_scopes := (sid_scopes e)[i := f (sid_scopes e ! i)] \<rparr>"
| "modify_scope ScopeRank i f e = e\<lparr> rank_scopes := (rank_scopes e)[i := f (rank_scopes e ! i)] \<rparr>"
| "modify_scope ScopeBankGroup i f e =
     e\<lparr> bank_group_scopes := (bank_group_scopes e)[i := f (bank_group_scopes e ! i)] \<rparr>"
| "modify_scope ScopeBank i f e = e\<lparr> bank_scopes := (bank_scopes e)[i := f (bank_scopes e ! i)] \<rparr>"

definition scope_state_of :: "dram_spec \<Rightarrow> timing_engine \<Rightarrow> timing_scope \<Rightarrow> decoded_address \<Rightarrow> scope_state" where
  "scope_state_of s e sc d = scope_vector e sc ! scope_index s sc d"

definition sibling_range :: "dram_spec \<Rightarrow> timing_scope \<Rightarrow> decoded_address \<Rightarrow> nat \<times> nat" where
  "sibling_range s sc d =
     (let (lower, count) = (case sc of
          ScopeChannel \<Rightarrow> (0, dim1 (channels (org s)))
        | ScopePseudoChannel \<Rightarrow> (scope_index s ScopeChannel d * dim1 (pseudo_channels (org s)), dim1 (pseudo_channels (org s)))
        | ScopeSid \<Rightarrow> (scope_index s ScopePseudoChannel d * dim1 (sids (org s)), dim1 (sids (org s)))
        | ScopeRank \<Rightarrow> (scope_index s ScopeSid d * dim1 (ranks (org s)), dim1 (ranks (org s)))
        | ScopeBankGroup \<Rightarrow> (scope_index s ScopeRank d * dim1 (bank_groups (org s)), dim1 (bank_groups (org s)))
        | ScopeBank \<Rightarrow> (scope_index s ScopeBankGroup d * dim1 (banks_per_group (org s)), dim1 (banks_per_group (org s))))
      in (min lower (scope_count s sc), min (lower + count) (scope_count s sc)))"

definition timing_reset :: "dram_spec \<Rightarrow> timing_engine result" where
  "timing_reset s =
     bindR (validate_spec s) (\<lambda>_.
       let fresh = (\<lambda>sc. replicate (scope_count s sc) scope_state0) in
       Inr \<lparr> channel_scopes = fresh ScopeChannel, pseudo_channel_scopes = fresh ScopePseudoChannel,
             sid_scopes = fresh ScopeSid, rank_scopes = fresh ScopeRank,
             refdb_states = replicate (scope_count s ScopeRank)
               \<lparr> refdb_bank_count = 0, refdb_ready = 0, visited_pairs =
                   (if lpddr_dual_bank_refresh s
                    then replicate (nat (bank_groups (org s) div 2 * banks_per_group (org s))) False else []) \<rparr>,
             activation_scopes = fresh (activation_scope s), row_scopes = fresh (row_bus_scope s),
             column_scopes = fresh (column_bus_scope s), bank_group_scopes = fresh ScopeBankGroup,
             bank_scopes = fresh ScopeBank, wck_scopes = fresh (wck_scope s) \<rparr>)"

section \<open>Table-driven constraints\<close>

definition refdb_of :: "dram_spec \<Rightarrow> timing_engine \<Rightarrow> decoded_address \<Rightarrow> refdb_state" where
  "refdb_of s e d = refdb_states e ! scope_index s ScopeRank d"

definition refdb_pair :: "dram_spec \<Rightarrow> decoded_address \<Rightarrow> nat" where
  "refdb_pair s d = nat (da_bank_group d div 2 * banks_per_group (org s) + da_bank d)"

definition constraint_allows :: "dram_spec \<Rightarrow> timing_engine \<Rightarrow> decoded_address \<Rightarrow> command \<Rightarrow> nat \<Rightarrow> timing_constraint \<Rightarrow> bool" where
  "constraint_allows s e d c clk con =
     (if window con > 0 then True
      else if c \<notin> set (following con) then True
      else if clk < next_command (scope_state_of s e (tc_scope con) d) c then False
      else \<not> (c = REFDB \<and> lpddr_dual_bank_refresh s \<and> tc_scope con = ScopeBank
          \<and> clk < next_command (scope_state_of s e ScopeBank (lpddr_refdb_partner s d)) c))"

definition constraint_ready :: "dram_spec \<Rightarrow> timing_engine \<Rightarrow> decoded_address \<Rightarrow> command \<Rightarrow> nat \<Rightarrow> bool" where
  "constraint_ready s e d c clk =
     (if lpddr_dual_bank_refresh s \<and> c = REFDB
         \<and> (clk < refdb_ready (refdb_of s e d) \<or> visited_pairs (refdb_of s e d) ! refdb_pair s d)
      then False
      else list_all (constraint_allows s e d c clk) (timing_constraints s))"

definition constraint_ready_at :: "dram_spec \<Rightarrow> timing_engine \<Rightarrow> decoded_address \<Rightarrow> command \<Rightarrow> nat" where
  "constraint_ready_at s e d c =
     (if lpddr_dual_bank_refresh s \<and> c = REFDB \<and> visited_pairs (refdb_of s e d) ! refdb_pair s d then u64_max
      else fold (\<lambda>con ready.
          if window con > 0 \<or> c \<notin> set (following con) then ready
          else
            let ready = max ready (next_command (scope_state_of s e (tc_scope con) d) c) in
            if c = REFDB \<and> lpddr_dual_bank_refresh s \<and> tc_scope con = ScopeBank
            then max ready (next_command (scope_state_of s e ScopeBank (lpddr_refdb_partner s d)) c) else ready)
        (timing_constraints s)
        (if lpddr_dual_bank_refresh s \<and> c = REFDB then refdb_ready (refdb_of s e d) else 0))"

definition bump :: "nat \<Rightarrow> command list \<Rightarrow> scope_state \<Rightarrow> scope_state" where
  "bump ready fs st =
     st\<lparr> next_command := (\<lambda>c. if c \<in> set fs then max (next_command st c) ready else next_command st c) \<rparr>"

definition apply_constraint :: "dram_spec \<Rightarrow> decoded_address \<Rightarrow> command \<Rightarrow> nat \<Rightarrow> timing_constraint \<Rightarrow> timing_engine \<Rightarrow> timing_engine" where
  "apply_constraint s d issued clk con e =
     (if window con > 0 then e
      else if issued \<notin> set (preceding con) then e
      else
        let update = bump (clk + timing_delay s (max 0 (latency con))) (following con) in
        if \<not> sibling con then
          let e = modify_scope (tc_scope con) (scope_index s (tc_scope con) d) update e in
          if issued = REFDB \<and> lpddr_dual_bank_refresh s \<and> tc_scope con = ScopeBank
          then modify_scope ScopeBank (scope_index s ScopeBank (lpddr_refdb_partner s d)) update e else e
        else
          let current = scope_index s (tc_scope con) d; (lower, upper) = sibling_range s (tc_scope con) d in
          fold (\<lambda>index e. if index \<noteq> current then modify_scope (tc_scope con) index update e else e) [lower..<upper] e)"

definition clear_visited :: "refdb_state \<Rightarrow> refdb_state" where
  "clear_visited r = r\<lparr> visited_pairs := map (\<lambda>_. False) (visited_pairs r) \<rparr>"

definition refdb_after_refdb :: "dram_spec \<Rightarrow> decoded_address \<Rightarrow> nat \<Rightarrow> refdb_state \<Rightarrow> refdb_state" where
  "refdb_after_refdb s d clk r =
     (let pairs = bank_groups (org s) div 2 * banks_per_group (org s);
          r = r\<lparr> visited_pairs := (visited_pairs r)[refdb_pair s d := True],
                 refdb_bank_count := (refdb_bank_count r + 1) mod pairs \<rparr>;
          r = (if refdb_bank_count r = 0 then clear_visited r else r);
          short_gap = (if nREFDB2REFDBS (timing_of s) > 0 then nREFDB2REFDBS (timing_of s) else nRRDL (timing_of s));
          long_gap = (if nREFDB2REFDBL (timing_of s) > 0 then nREFDB2REFDBL (timing_of s) else short_gap)
      in r\<lparr> refdb_ready := clk + timing_delay s (if refdb_bank_count r = 0 then long_gap else short_gap) \<rparr>)"

definition refdb_track :: "dram_spec \<Rightarrow> decoded_address \<Rightarrow> command \<Rightarrow> nat \<Rightarrow> timing_engine \<Rightarrow> timing_engine" where
  "refdb_track s d issued clk e =
     (if \<not> lpddr_dual_bank_refresh s then e
      else let i = scope_index s ScopeRank d in
        if issued = REFDB then e\<lparr> refdb_states := (refdb_states e)[i := refdb_after_refdb s d clk (refdb_states e ! i)] \<rparr>
        else if issued = REFAB then
          e\<lparr> refdb_states := (refdb_states e)[i := clear_visited ((refdb_states e ! i)
               \<lparr> refdb_bank_count := 0, refdb_ready := clk + timing_delay s (nRFC (timing_of s)) \<rparr>)] \<rparr>
        else if issued = SREFEX then
          (let (lower, upper) = sibling_range s ScopePseudoChannel d;
               per_pc = nat (sids (org s) * ranks (org s)) in
           e\<lparr> refdb_states := map_range (int (lower * per_pc), int (upper * per_pc))
                (\<lambda>r. clear_visited (r\<lparr> refdb_bank_count := 0, refdb_ready := 0 \<rparr>)) (refdb_states e) \<rparr>)
        else e)"

definition apply_constraints :: "dram_spec \<Rightarrow> decoded_address \<Rightarrow> command \<Rightarrow> nat \<Rightarrow> timing_engine \<Rightarrow> timing_engine" where
  "apply_constraints s d issued clk e =
     fold (apply_constraint s d issued clk) (timing_constraints s) (refdb_track s d issued clk e)"

section \<open>Activation and WCK windows\<close>

text \<open>The front of the history is the oldest activate.\<close>

fun prune_acts :: "nat \<Rightarrow> nat \<Rightarrow> nat list \<Rightarrow> nat list" where
  "prune_acts win clk [] = []"
| "prune_acts win clk (a # as) = (if a \<le> clk \<and> win \<le> clk - a then prune_acts win clk as else a # as)"

definition prune_recent_acts :: "dram_spec \<Rightarrow> nat \<Rightarrow> timing_engine \<Rightarrow> timing_engine" where
  "prune_recent_acts s clk e =
     e\<lparr> activation_scopes := map (\<lambda>st. st\<lparr> recent_acts :=
          prune_acts (timing_delay s (max 1 (nFAW (timing_of s)))) clk (recent_acts st) \<rparr>) (activation_scopes e) \<rparr>"

definition record_activate :: "dram_spec \<Rightarrow> decoded_address \<Rightarrow> nat \<Rightarrow> timing_engine \<Rightarrow> timing_engine" where
  "record_activate s d clk e =
     (if activation_scopes e = [] then e
      else let i = scope_index s (activation_scope s) d; st = activation_scopes e ! i in
        e\<lparr> activation_scopes := (activation_scopes e)[i := st\<lparr> recent_acts := recent_acts st @ [clk] \<rparr>] \<rparr>)"

definition faw_ready :: "dram_spec \<Rightarrow> timing_engine \<Rightarrow> decoded_address \<Rightarrow> bool" where
  "faw_ready s e d \<longleftrightarrow>
     activation_scopes e = [] \<or> length (recent_acts (activation_scopes e ! scope_index s (activation_scope s) d)) < 4"

definition wck_ready_for_data :: "dram_spec \<Rightarrow> timing_engine \<Rightarrow> decoded_address \<Rightarrow> nat \<Rightarrow> bool" where
  "wck_ready_for_data s e d clk =
     (if \<not> lpddr_family s then True
      else if lpddr_wck_mode s = AlwaysOn then True
      else let wck = wck_scopes e ! scope_index s (wck_scope s) d in
        wck_ready_at wck \<le> clk \<and> clk < wck_active_until wck)"

section \<open>Bucket indices\<close>

definition agree :: "timing_scope \<Rightarrow> decoded_address \<Rightarrow> decoded_address \<Rightarrow> bool" where
  "agree sc d e \<longleftrightarrow> da_channel d = da_channel e
     \<and> (ScopePseudoChannel \<le> sc \<longrightarrow> da_pseudo_channel d = da_pseudo_channel e)
     \<and> (ScopeSid \<le> sc \<longrightarrow> da_sid d = da_sid e) \<and> (ScopeRank \<le> sc \<longrightarrow> da_rank d = da_rank e)
     \<and> (ScopeBankGroup \<le> sc \<longrightarrow> da_bank_group d = da_bank_group e) \<and> (ScopeBank \<le> sc \<longrightarrow> da_bank d = da_bank e)"

definition parent_agree :: "timing_scope \<Rightarrow> decoded_address \<Rightarrow> decoded_address \<Rightarrow> bool" where
  "parent_agree sc d e \<longleftrightarrow> (\<forall>p < sc. agree p d e)"

lemma scope_less_cases:
  "p < ScopeChannel \<longleftrightarrow> False"
  "p < ScopePseudoChannel \<longleftrightarrow> p = ScopeChannel"
  "p < ScopeSid \<longleftrightarrow> p = ScopeChannel \<or> p = ScopePseudoChannel"
  "p < ScopeRank \<longleftrightarrow> p = ScopeChannel \<or> p = ScopePseudoChannel \<or> p = ScopeSid"
  "p < ScopeBankGroup \<longleftrightarrow> p = ScopeChannel \<or> p = ScopePseudoChannel \<or> p = ScopeSid \<or> p = ScopeRank"
  "p < ScopeBank \<longleftrightarrow> p \<noteq> ScopeBank"
  by (cases p; simp add: less_timing_scope_def)+

lemma agree_simps [simp]:
  "agree ScopeChannel d e \<longleftrightarrow> da_channel d = da_channel e"
  "agree ScopePseudoChannel d e \<longleftrightarrow> agree ScopeChannel d e \<and> da_pseudo_channel d = da_pseudo_channel e"
  "agree ScopeSid d e \<longleftrightarrow> agree ScopePseudoChannel d e \<and> da_sid d = da_sid e"
  "agree ScopeRank d e \<longleftrightarrow> agree ScopeSid d e \<and> da_rank d = da_rank e"
  "agree ScopeBankGroup d e \<longleftrightarrow> agree ScopeRank d e \<and> da_bank_group d = da_bank_group e"
  "agree ScopeBank d e \<longleftrightarrow> agree ScopeBankGroup d e \<and> da_bank d = da_bank e"
  by (simp_all add: agree_def less_eq_timing_scope_def)

lemma parent_agree_simps [simp]:
  "parent_agree ScopeChannel d e"
  "parent_agree ScopePseudoChannel d e = agree ScopeChannel d e"
  "parent_agree ScopeSid d e = agree ScopePseudoChannel d e"
  "parent_agree ScopeRank d e = agree ScopeSid d e"
  "parent_agree ScopeBankGroup d e = agree ScopeRank d e"
  "parent_agree ScopeBank d e = agree ScopeBankGroup d e"
  by (auto simp: parent_agree_def scope_less_cases) (metis agree_simps timing_scope.exhaust)

lemma coord1_less: "coord1 x n < dim1 n"
  by (auto simp: coord1_def dim1_def clampI_def nat_less_iff)

lemma coord1_eq: "0 \<le> x \<Longrightarrow> x < n \<Longrightarrow> 0 \<le> y \<Longrightarrow> y < n \<Longrightarrow> coord1 x n = coord1 y n \<longleftrightarrow> x = y"
  by (auto simp: coord1_def clampI_def max_def)

lemma horner_nat_eq:
  fixes x y m c d :: nat
  assumes "c < m" "d < m"
  shows "x * m + c = y * m + d \<longleftrightarrow> x = y \<and> c = d"
proof
  assume eq: "x * m + c = y * m + d"
  from assms have "(x * m + c) div m = x" "(y * m + d) div m = y" by simp_all
  with eq show "x = y \<and> c = d" by simp
qed simp

lemma horner_nat_less:
  fixes x m n c :: nat
  assumes "x < n" "c < m"
  shows "x * m + c < n * m"
proof -
  have "(x + 1) * m \<le> n * m" using assms by (intro mult_right_mono) auto
  then show ?thesis using assms by simp
qed

text \<open>The index of a bucket is the index of its parent's bucket extended by one digit.\<close>

lemma scope_index_steps:
  "scope_index s ScopeChannel d = coord1 (da_channel d) (channels (org s))"
  "scope_index s ScopePseudoChannel d = scope_index s ScopeChannel d * dim1 (pseudo_channels (org s))
     + coord1 (da_pseudo_channel d) (pseudo_channels (org s))"
  "scope_index s ScopeSid d = scope_index s ScopePseudoChannel d * dim1 (sids (org s)) + coord1 (da_sid d) (sids (org s))"
  "scope_index s ScopeRank d = scope_index s ScopeSid d * dim1 (ranks (org s)) + coord1 (da_rank d) (ranks (org s))"
  "scope_index s ScopeBankGroup d = scope_index s ScopeRank d * dim1 (bank_groups (org s))
     + coord1 (da_bank_group d) (bank_groups (org s))"
  "scope_index s ScopeBank d = scope_index s ScopeBankGroup d * dim1 (banks_per_group (org s))
     + coord1 (da_bank d) (banks_per_group (org s))"
  by (simp_all add: scope_index_def Let_def)

lemma scope_index_less: "scope_index s sc d < scope_count s sc"
proof -
  have "scope_index s ScopeChannel d < scope_count s ScopeChannel" by (simp add: scope_index_steps(1) coord1_less)
  moreover have "scope_index s ScopePseudoChannel d < scope_count s ScopePseudoChannel"
    using calculation unfolding scope_index_steps(2) by (simp add: horner_nat_less coord1_less)
  moreover have "scope_index s ScopeSid d < scope_count s ScopeSid"
    using calculation unfolding scope_index_steps(3) by (simp add: horner_nat_less coord1_less)
  moreover have "scope_index s ScopeRank d < scope_count s ScopeRank"
    using calculation unfolding scope_index_steps(4) by (simp add: horner_nat_less coord1_less)
  moreover have "scope_index s ScopeBankGroup d < scope_count s ScopeBankGroup"
    using calculation unfolding scope_index_steps(5) by (simp add: horner_nat_less coord1_less)
  moreover have "scope_index s ScopeBank d < scope_count s ScopeBank"
    using calculation unfolding scope_index_steps(6) by (simp add: horner_nat_less coord1_less)
  ultimately show ?thesis by (cases sc) simp_all
qed

lemma scope_index_eq_iff:
  assumes "d \<in> coordinates s" "e \<in> coordinates s"
  shows "scope_index s sc d = scope_index s sc e \<longleftrightarrow> agree sc d e"
  using assms unfolding coordinates_def
  by (cases sc) (simp_all add: scope_index_steps horner_nat_eq coord1_less coord1_eq)

lemma digit_range:
  fixes x y m c :: nat
  assumes "c < m"
  shows "y * m \<le> x * m + c \<and> x * m + c < y * m + m \<longleftrightarrow> y = x"
proof
  assume *: "y * m \<le> x * m + c \<and> x * m + c < y * m + m"
  have "(x * m + c) div m = x" using assms by simp
  moreover have "(x * m + c) div m = y"
    using * by (intro div_nat_eqI) (auto simp: mult.commute)
  ultimately show "y = x" by simp
qed (use assms in simp)

lemma sibling_digit:
  assumes "sibling_range s sc d = (min (scope_index s p d * m) (scope_count s sc), min (scope_index s p d * m + m) (scope_count s sc))"
    and "scope_index s sc e = scope_index s p e * m + c" "c < m"
  shows "fst (sibling_range s sc d) \<le> scope_index s sc e \<and> scope_index s sc e < snd (sibling_range s sc d)
    \<longleftrightarrow> scope_index s p d = scope_index s p e"
  using scope_index_less [of s sc e] digit_range [OF assms(3), of "scope_index s p d" "scope_index s p e"]
  unfolding assms(1,2) fst_conv snd_conv by (auto simp: min_def)

lemma sibling_range_iff:
  assumes "d \<in> coordinates s" "e \<in> coordinates s"
  shows "fst (sibling_range s sc d) \<le> scope_index s sc e \<and> scope_index s sc e < snd (sibling_range s sc d)
    \<longleftrightarrow> parent_agree sc d e"
proof (cases sc)
  case ScopeChannel
  with scope_index_less [of s sc e] show ?thesis by (simp add: sibling_range_def)
next
  case ScopePseudoChannel
  have "fst (sibling_range s sc d) \<le> scope_index s sc e \<and> scope_index s sc e < snd (sibling_range s sc d)
      \<longleftrightarrow> scope_index s ScopeChannel d = scope_index s ScopeChannel e"
    by (rule sibling_digit [OF _ _ coord1_less])
      (simp_all only: sibling_range_def ScopePseudoChannel timing_scope.case Let_def prod.case scope_index_steps(2))
  with ScopePseudoChannel scope_index_eq_iff [OF assms] show ?thesis by simp
next
  case ScopeSid
  have "fst (sibling_range s sc d) \<le> scope_index s sc e \<and> scope_index s sc e < snd (sibling_range s sc d)
      \<longleftrightarrow> scope_index s ScopePseudoChannel d = scope_index s ScopePseudoChannel e"
    by (rule sibling_digit [OF _ _ coord1_less])
      (simp_all only: sibling_range_def ScopeSid timing_scope.case Let_def prod.case scope_index_steps(3))
  with ScopeSid scope_index_eq_iff [OF assms] show ?thesis by simp
next
  case ScopeRank
  have "fst (sibling_range s sc d) \<le> scope_index s sc e \<and> scope_index s sc e < snd (sibling_range s sc d)
      \<longleftrightarrow> scope_index s ScopeSid d = scope_index s ScopeSid e"
    by (rule sibling_digit [OF _ _ coord1_less])
      (simp_all only: sibling_range_def ScopeRank timing_scope.case Let_def prod.case scope_index_steps(4))
  with ScopeRank scope_index_eq_iff [OF assms] show ?thesis by simp
next
  case ScopeBankGroup
  have "fst (sibling_range s sc d) \<le> scope_index s sc e \<and> scope_index s sc e < snd (sibling_range s sc d)
      \<longleftrightarrow> scope_index s ScopeRank d = scope_index s ScopeRank e"
    by (rule sibling_digit [OF _ _ coord1_less])
      (simp_all only: sibling_range_def ScopeBankGroup timing_scope.case Let_def prod.case scope_index_steps(5))
  with ScopeBankGroup scope_index_eq_iff [OF assms] show ?thesis by simp
next
  case ScopeBank
  have "fst (sibling_range s sc d) \<le> scope_index s sc e \<and> scope_index s sc e < snd (sibling_range s sc d)
      \<longleftrightarrow> scope_index s ScopeBankGroup d = scope_index s ScopeBankGroup e"
    by (rule sibling_digit [OF _ _ coord1_less])
      (simp_all only: sibling_range_def ScopeBank timing_scope.case Let_def prod.case scope_index_steps(6))
  with ScopeBank scope_index_eq_iff [OF assms] show ?thesis by simp
qed

section \<open>Ready times\<close>

definition next_of :: "timing_engine \<Rightarrow> timing_scope \<Rightarrow> nat \<Rightarrow> command \<Rightarrow> nat" where
  "next_of e sc i c = next_command (scope_vector e sc ! i) c"

definition engine_shape :: "dram_spec \<Rightarrow> timing_engine \<Rightarrow> bool" where
  "engine_shape s e \<longleftrightarrow> (\<forall>sc. length (scope_vector e sc) = scope_count s sc)"

lemma length_modify_scope [simp]: "length (scope_vector (modify_scope sc i f e) sc') = length (scope_vector e sc')"
  by (cases sc; cases sc') simp_all

lemma shape_modify [simp]: "engine_shape s (modify_scope sc i f e) = engine_shape s e"
  by (simp add: engine_shape_def)

lemma next_of_modify:
  assumes "i < length (scope_vector e sc)"
  shows "next_of (modify_scope sc i f e) sc' j c =
    (if sc = sc' \<and> i = j then next_command (f (scope_vector e sc ! i)) c else next_of e sc' j c)"
  using assms by (cases sc; cases sc') (auto simp: next_of_def)

text \<open>The buckets that issuing a command updates for one constraint.\<close>

definition hits :: "dram_spec \<Rightarrow> timing_constraint \<Rightarrow> command \<Rightarrow> decoded_address \<Rightarrow> timing_scope \<Rightarrow> nat \<Rightarrow> command \<Rightarrow> bool" where
  "hits s con issued d sc j c \<longleftrightarrow> window con \<le> 0 \<and> issued \<in> set (preceding con) \<and> tc_scope con = sc \<and> c \<in> set (following con)
     \<and> (if sibling con then fst (sibling_range s sc d) \<le> j \<and> j < snd (sibling_range s sc d) \<and> j \<noteq> scope_index s sc d
        else j = scope_index s sc d
          \<or> issued = REFDB \<and> lpddr_dual_bank_refresh s \<and> sc = ScopeBank \<and> j = scope_index s ScopeBank (lpddr_refdb_partner s d))"

lemma fold_modify:
  assumes "engine_shape s e" "\<forall>i\<in>set is. i < scope_count s sc"
  shows "engine_shape s (fold (\<lambda>i e. if i \<noteq> cur then modify_scope sc i (bump r fs) e else e) is e)
    \<and> (next_of (fold (\<lambda>i e. if i \<noteq> cur then modify_scope sc i (bump r fs) e else e) is e) sc' j c \<le> t
       \<longleftrightarrow> next_of e sc' j c \<le> t \<and> (sc = sc' \<and> j \<in> set is \<and> j \<noteq> cur \<and> c \<in> set fs \<longrightarrow> r \<le> t))"
  using assms
proof (induction "is" arbitrary: e)
  case (Cons i "is")
  let ?e = "if i \<noteq> cur then modify_scope sc i (bump r fs) e else e"
  have shape: "engine_shape s ?e" using Cons.prems by simp
  have len: "i < length (scope_vector e sc)" using Cons.prems by (simp add: engine_shape_def)
  have one: "next_of ?e sc' j c \<le> t \<longleftrightarrow> next_of e sc' j c \<le> t \<and> (sc = sc' \<and> i = j \<and> j \<noteq> cur \<and> c \<in> set fs \<longrightarrow> r \<le> t)"
    using next_of_modify [OF len] by (auto simp: bump_def next_of_def)
  from Cons.IH [OF shape] Cons.prems(2) one show ?case by auto
qed simp

lemma apply_constraint_le:
  assumes "engine_shape s e"
  shows "engine_shape s (apply_constraint s d issued clk con e)
    \<and> (next_of (apply_constraint s d issued clk con e) sc j c \<le> t \<longleftrightarrow>
         next_of e sc j c \<le> t \<and> (hits s con issued d sc j c \<longrightarrow> clk + timing_delay s (max 0 (latency con)) \<le> t))"
proof (cases "window con > 0 \<or> issued \<notin> set (preceding con)")
  case True
  with assms show ?thesis by (auto simp: apply_constraint_def hits_def)
next
  case False
  let ?sc = "tc_scope con" and ?r = "clk + timing_delay s (max 0 (latency con))"
  let ?u = "bump ?r (following con)"
  note len = assms [unfolded engine_shape_def, rule_format]
  show ?thesis
  proof (cases "sibling con")
    case True
    obtain lo up where rng: "sibling_range s ?sc d = (lo, up)" by fastforce
    then have "\<forall>i\<in>set [lo..<up]. i < scope_count s ?sc" by (auto simp: sibling_range_def Let_def split: prod.splits)
    note step = fold_modify [OF assms this, of "scope_index s ?sc d" ?r "following con" sc j c t]
    have eq: "apply_constraint s d issued clk con e =
        fold (\<lambda>i e. if i \<noteq> scope_index s ?sc d then modify_scope ?sc i ?u e else e) [lo..<up] e"
      using True False rng by (simp add: apply_constraint_def Let_def)
    have hit: "hits s con issued d sc j c \<longleftrightarrow> ?sc = sc \<and> j \<in> set [lo..<up] \<and> j \<noteq> scope_index s ?sc d \<and> c \<in> set (following con)"
      using True False rng by (auto simp: hits_def)
    show ?thesis unfolding eq hit by (rule step)
  next
    case no_sib: False
    let ?i = "scope_index s ?sc d" and ?p = "scope_index s ScopeBank (lpddr_refdb_partner s d)"
    let ?e = "modify_scope ?sc ?i ?u e"
    have i: "?i < length (scope_vector e ?sc)" and p: "?p < length (scope_vector ?e ScopeBank)"
      unfolding length_modify_scope len by (rule scope_index_less)+
    have one: "next_of ?e sc j c \<le> t \<longleftrightarrow> next_of e sc j c \<le> t \<and> (?sc = sc \<and> j = ?i \<and> c \<in> set (following con) \<longrightarrow> ?r \<le> t)" for sc j
      using next_of_modify [OF i] by (auto simp: bump_def next_of_def)
    have two: "next_of (modify_scope ScopeBank ?p ?u ?e) sc j c \<le> t \<longleftrightarrow>
        next_of ?e sc j c \<le> t \<and> (sc = ScopeBank \<and> j = ?p \<and> c \<in> set (following con) \<longrightarrow> ?r \<le> t)"
      using next_of_modify [OF p] by (auto simp: bump_def next_of_def)
    show ?thesis
    proof (cases "issued = REFDB \<and> lpddr_dual_bank_refresh s \<and> ?sc = ScopeBank")
      case True
      then have eq: "apply_constraint s d issued clk con e = modify_scope ScopeBank ?p ?u ?e"
        using False no_sib by (simp add: apply_constraint_def Let_def)
      have hit: "hits s con issued d sc j c \<longleftrightarrow> sc = ?sc \<and> c \<in> set (following con) \<and> (j = ?i \<or> j = ?p)"
        using True False no_sib by (auto simp: hits_def)
      have "?sc = ScopeBank" using True by simp
      then show ?thesis unfolding eq two one hit shape_modify using assms by metis
    next
      case notdb: False
      then have eq: "apply_constraint s d issued clk con e = ?e"
        using False no_sib unfolding apply_constraint_def Let_def if_not_P [OF notdb] by simp
      have hit: "hits s con issued d sc j c \<longleftrightarrow> sc = ?sc \<and> c \<in> set (following con) \<and> j = ?i"
        using notdb False no_sib by (auto simp: hits_def)
      show ?thesis unfolding eq one hit shape_modify using assms by metis
    qed
  qed
qed

lemma scope_vector_refdb [simp]: "scope_vector (refdb_track s d c t e) sc = scope_vector e sc"
  by (cases sc) (simp_all add: refdb_track_def Let_def split: prod.splits)

lemma apply_constraints_le:
  assumes "engine_shape s e"
  shows "engine_shape s (apply_constraints s d issued clk e)
    \<and> (next_of (apply_constraints s d issued clk e) sc j c \<le> t \<longleftrightarrow>
         next_of e sc j c \<le> t \<and> (\<forall>con\<in>set (timing_constraints s).
           hits s con issued d sc j c \<longrightarrow> clk + timing_delay s (max 0 (latency con)) \<le> t))"
proof -
  have "engine_shape s (fold (apply_constraint s d issued clk) cons e)
    \<and> (next_of (fold (apply_constraint s d issued clk) cons e) sc j c \<le> t \<longleftrightarrow>
         next_of e sc j c \<le> t \<and> (\<forall>con\<in>set cons.
           hits s con issued d sc j c \<longrightarrow> clk + timing_delay s (max 0 (latency con)) \<le> t))"
    if "engine_shape s e" for cons e using that
    by (induction cons arbitrary: e) (auto simp: apply_constraint_le)
  moreover have "engine_shape s (refdb_track s d issued clk e)" using assms by (simp add: engine_shape_def)
  moreover have "next_of (refdb_track s d issued clk e) sc j c = next_of e sc j c" by (simp add: next_of_def)
  ultimately show ?thesis by (simp add: apply_constraints_def)
qed

section \<open>The engine implements its table\<close>

type_synonym issue = "command \<times> decoded_address \<times> nat"

definition timing_run :: "dram_spec \<Rightarrow> timing_engine \<Rightarrow> issue list \<Rightarrow> timing_engine" where
  "timing_run s e0 h = foldr (\<lambda>(c, d, t). apply_constraints s d c t) h e0"

lemma reset_shape:
  assumes "timing_reset s = Inr e0"
  shows "engine_shape s e0 \<and> (j < scope_count s sc \<longrightarrow> next_of e0 sc j c = 0)"
proof -
  have vec: "scope_vector e0 sc = replicate (scope_count s sc) scope_state0" for sc
    using assms by (cases sc) (auto simp: timing_reset_def bindR_eq_Inr Let_def simp del: scope_count.simps)
  show ?thesis by (simp add: engine_shape_def next_of_def vec scope_state0_def)
qed

lemma timing_run_le:
  assumes "timing_reset s = Inr e0" "j < scope_count s sc"
  shows "engine_shape s (timing_run s e0 h) \<and> (next_of (timing_run s e0 h) sc j c \<le> t \<longleftrightarrow>
    (\<forall>(c', d', t')\<in>set h. \<forall>con\<in>set (timing_constraints s).
       hits s con c' d' sc j c \<longrightarrow> t' + timing_delay s (max 0 (latency con)) \<le> t))"
proof (induction h)
  case Nil
  with reset_shape [OF assms(1)] assms(2) show ?case by (simp add: timing_run_def)
next
  case (Cons x h)
  obtain c' d' t' where x: "x = (c', d', t')" by (cases x)
  have "timing_run s e0 (x # h) = apply_constraints s d' c' t' (timing_run s e0 h)" by (simp add: timing_run_def x)
  with apply_constraints_le [of s "timing_run s e0 h" d' c' t' sc j c t] Cons x show ?case by auto
qed

text \<open>
  The specification of the table: when a constraint binds a command at one address to an earlier
  command at another. A dual-bank refresh acts on the target and its partner.
\<close>

definition targets :: "dram_spec \<Rightarrow> timing_constraint \<Rightarrow> command \<Rightarrow> decoded_address \<Rightarrow> decoded_address list" where
  "targets s con c d =
     (if c = REFDB \<and> lpddr_dual_bank_refresh s \<and> tc_scope con = ScopeBank then [d, lpddr_refdb_partner s d] else [d])"

definition binds :: "dram_spec \<Rightarrow> timing_constraint \<Rightarrow> command \<Rightarrow> decoded_address \<Rightarrow> command \<Rightarrow> decoded_address \<Rightarrow> bool" where
  "binds s con c' d' c d \<longleftrightarrow> window con \<le> 0 \<and> c' \<in> set (preceding con) \<and> c \<in> set (following con)
     \<and> (\<exists>x\<in>set (targets s con c d).
          if sibling con then parent_agree (tc_scope con) d' x \<and> \<not> agree (tc_scope con) d' x
          else \<exists>y\<in>set (targets s con c' d'). agree (tc_scope con) y x)"

lemma hits_binds:
  assumes d: "d \<in> coordinates s" and d': "d' \<in> coordinates s" and p': "lpddr_refdb_partner s d' \<in> coordinates s"
  shows "hits s con c' d' (tc_scope con) (scope_index s (tc_scope con) d) c \<longleftrightarrow>
    window con \<le> 0 \<and> c' \<in> set (preceding con) \<and> c \<in> set (following con) \<and>
    (if sibling con then parent_agree (tc_scope con) d' d \<and> \<not> agree (tc_scope con) d' d
     else \<exists>y\<in>set (targets s con c' d'). agree (tc_scope con) y d)"
proof (cases "sibling con")
  case True
  have "scope_index s (tc_scope con) d = scope_index s (tc_scope con) d' \<longleftrightarrow> agree (tc_scope con) d' d"
    using scope_index_eq_iff [OF d' d] by metis
  with True sibling_range_iff [OF d' d, of "tc_scope con"] show ?thesis by (simp add: hits_def) blast
next
  case False
  have "scope_index s (tc_scope con) d = scope_index s (tc_scope con) d' \<longleftrightarrow> agree (tc_scope con) d' d"
    "scope_index s (tc_scope con) d = scope_index s (tc_scope con) (lpddr_refdb_partner s d')
      \<longleftrightarrow> agree (tc_scope con) (lpddr_refdb_partner s d') d"
    using scope_index_eq_iff [OF d' d] scope_index_eq_iff [OF p' d] by metis+
  note same = this
  show ?thesis
  proof (cases "c' = REFDB \<and> lpddr_dual_bank_refresh s \<and> tc_scope con = ScopeBank")
    case True
    with False same show ?thesis by (simp add: hits_def targets_def)
  next
    case plain: False
    then have "set (targets s con c' d') = {d'}" by (auto simp: targets_def)
    with plain False same show ?thesis by (auto simp: hits_def simp del: agree_simps)
  qed
qed

lemma hits_binds_plain:
  assumes d: "d \<in> coordinates s" and d': "d' \<in> coordinates s" and plain: "\<not> lpddr_dual_bank_refresh s"
  shows "hits s con c' d' (tc_scope con) (scope_index s (tc_scope con) d) c \<longleftrightarrow>
    window con \<le> 0 \<and> c' \<in> set (preceding con) \<and> c \<in> set (following con) \<and>
    (if sibling con then parent_agree (tc_scope con) d' d \<and> \<not> agree (tc_scope con) d' d
     else \<exists>y\<in>set (targets s con c' d'). agree (tc_scope con) y d)"
proof (cases "sibling con")
  case True
  have "scope_index s (tc_scope con) d = scope_index s (tc_scope con) d' \<longleftrightarrow> agree (tc_scope con) d' d"
    using scope_index_eq_iff [OF d' d] by metis
  with True sibling_range_iff [OF d' d, of "tc_scope con"] show ?thesis by (simp add: hits_def) blast
next
  case False
  have "scope_index s (tc_scope con) d = scope_index s (tc_scope con) d' \<longleftrightarrow> agree (tc_scope con) d' d"
    using scope_index_eq_iff [OF d' d] by metis
  with False plain show ?thesis by (simp add: hits_def targets_def)
qed

lemma targets_nonempty: "\<exists>x. x \<in> set (targets s con c d)"
  by (simp add: targets_def) blast

lemma partner_coordinates: "validate_spec s = Inr () \<Longrightarrow> lpddr_dual_bank_refresh s \<Longrightarrow> d \<in> coordinates s \<Longrightarrow>
    lpddr_refdb_partner s d \<in> coordinates s"
  by (simp add: refdb_partner_involution)

text \<open>The buckets a check reads: those of the targets.\<close>

lemma constraint_allows_iff:
  "constraint_allows s e d c clk con \<longleftrightarrow> (window con \<le> 0 \<and> c \<in> set (following con) \<longrightarrow>
     (\<forall>x\<in>set (targets s con c d). next_of e (tc_scope con) (scope_index s (tc_scope con) x) c \<le> clk))"
  by (auto simp: constraint_allows_def targets_def next_of_def scope_state_of_def not_less)

lemma table_exact:
  assumes init: "timing_reset s = Inr e0" and d: "d \<in> coordinates s"
    and h: "\<forall>(c', d', t')\<in>set h. d' \<in> coordinates s"
  shows "list_all (constraint_allows s (timing_run s e0 h) d c clk) (timing_constraints s) \<longleftrightarrow>
    (\<forall>(c', d', t')\<in>set h. \<forall>con\<in>set (timing_constraints s).
       binds s con c' d' c d \<longrightarrow> t' + timing_delay s (max 0 (latency con)) \<le> clk)"
proof -
  have valid: "validate_spec s = Inr ()" using init by (auto simp: timing_reset_def bindR_eq_Inr)
  let ?ok = "\<lambda>con t'. t' + timing_delay s (max 0 (latency con)) \<le> clk"
  let ?hit = "\<lambda>con c' d' sc x. hits s con c' d' sc (scope_index s sc x) c"
  have ready: "next_of (timing_run s e0 h) sc (scope_index s sc x) c \<le> clk \<longleftrightarrow>
      (\<forall>(c', d', t')\<in>set h. \<forall>con\<in>set (timing_constraints s). ?hit con c' d' sc x \<longrightarrow> ?ok con t')" for sc x
    using timing_run_le [OF init scope_index_less] by blast
  have partner: "x \<in> coordinates s" if "x \<in> set (targets s con c d)" for x con
    using that d partner_coordinates [OF valid] by (auto simp: targets_def split: if_splits)
  have targets_scope: "targets s con c d = targets s con' c d" if "tc_scope con = tc_scope con'" for con con'
    using that by (simp add: targets_def)
  have hit_scope: "tc_scope con = sc" if "hits s con c' d' sc j c" for con c' d' sc j
    using that by (simp add: hits_def)
  have binds_hit: "binds s con c' d' c d \<longleftrightarrow> (\<exists>x\<in>set (targets s con c d). ?hit con c' d' (tc_scope con) x)"
    if "(c', d', t') \<in> set h" for con c' d' t'
  proof -
    have d': "d' \<in> coordinates s" using h that by auto
    have "?hit con c' d' (tc_scope con) x \<longleftrightarrow> window con \<le> 0 \<and> c' \<in> set (preceding con) \<and> c \<in> set (following con) \<and>
        (if sibling con then parent_agree (tc_scope con) d' x \<and> \<not> agree (tc_scope con) d' x
         else \<exists>y\<in>set (targets s con c' d'). agree (tc_scope con) y x)" if "x \<in> coordinates s" for x
    proof (cases "lpddr_dual_bank_refresh s")
      case True
      show ?thesis by (rule hits_binds [OF that d' partner_coordinates [OF valid True d']])
    next
      case False
      then show ?thesis by (rule hits_binds_plain [OF that d'])
    qed
    with partner show ?thesis unfolding binds_def by (meson targets_nonempty)
  qed
  show ?thesis
    unfolding list_all_iff constraint_allows_iff ready
  proof (intro iffI ballI impI; clarify)
    fix c' d' t' con
    assume all: "\<forall>con\<in>set (timing_constraints s). window con \<le> 0 \<and> c \<in> set (following con) \<longrightarrow>
        (\<forall>x\<in>set (targets s con c d). \<forall>(c', d', t')\<in>set h. \<forall>con'\<in>set (timing_constraints s).
           ?hit con' c' d' (tc_scope con) x \<longrightarrow> ?ok con' t')"
      and ev: "(c', d', t') \<in> set h" "con \<in> set (timing_constraints s)" "binds s con c' d' c d"
    from binds_hit [OF ev(1)] ev(3) obtain x where "x \<in> set (targets s con c d)" "?hit con c' d' (tc_scope con) x" by blast
    moreover have "window con \<le> 0 \<and> c \<in> set (following con)" using ev(3) by (simp add: binds_def)
    ultimately show "?ok con t'" using all ev by blast
  next
    fix con x c' d' t' con'
    assume all: "\<forall>(c', d', t')\<in>set h. \<forall>con\<in>set (timing_constraints s). binds s con c' d' c d \<longrightarrow> ?ok con t'"
      and ev: "con \<in> set (timing_constraints s)" "x \<in> set (targets s con c d)" "(c', d', t') \<in> set h"
        "con' \<in> set (timing_constraints s)" "?hit con' c' d' (tc_scope con) x"
    from hit_scope [OF ev(5)] have sc: "tc_scope con' = tc_scope con" .
    with ev have "binds s con' c' d' c d"
      unfolding binds_hit [OF ev(3)] using targets_scope [OF sc] by (metis (no_types, lifting))
    with all ev show "?ok con' t'" by blast
  qed
qed

text \<open>C14. The timing engine implements its constraint table exactly. After any history of issued
  commands, a command at an address is ready with respect to the table at a cycle if and only if every
  constraint that binds it to an earlier command of the history has run its full latency: a plain
  constraint binds two addresses that agree down to its scope (for a dual-bank refresh, the target or
  its partner), a sibling constraint those that agree above its scope and differ at it.\<close>

theorem timing_engine_exact:
  assumes init: "timing_reset s = Inr e0" and d: "d \<in> coordinates s"
    and h: "\<forall>(c', d', t')\<in>set h. d' \<in> coordinates s"
  shows "list_all (constraint_allows s (timing_run s e0 h) d c clk) (timing_constraints s) \<longleftrightarrow>
    (\<forall>(c', d', t')\<in>set h. \<forall>con\<in>set (timing_constraints s).
       binds s con c' d' c d \<longrightarrow> t' + timing_delay s (max 0 (latency con)) \<le> clk)"
  using assms by (rule table_exact)

lemma timing_engine_exact_witness:
  "\<exists>e0. timing_reset sample_hbm = Inr e0
     \<and> \<not> list_all (constraint_allows sample_hbm (timing_run sample_hbm e0 [(ACT, decoded_zero, 100)]) decoded_zero RD 119)
          (timing_constraints sample_hbm)"
proof -
  obtain e0 where e0: "timing_reset sample_hbm = Inr e0" by (simp add: timing_reset_def sample_hbm_valid Let_def)
  have d: "decoded_zero \<in> coordinates sample_hbm"
    by (simp add: coordinates_def decoded_zero_def sample_hbm_def sample_org_def)
  let ?con = "tc ScopeBank [ACT] [RD, RDA] (nRCDRD sample_timing) ''nRCDRD''"
  have con: "?con \<in> set (timing_constraints sample_hbm)"
    by (simp add: sample_hbm_def make_hbm_constraints_def Let_def)
  have "binds sample_hbm ?con ACT decoded_zero RD decoded_zero" by (simp add: binds_def targets_def tc_def)
  moreover have "\<not> 100 + timing_delay sample_hbm (max 0 (latency ?con)) \<le> 119"
    by (simp add: timing_delay_def tc_def sample_hbm_def sample_timing_def)
  ultimately show ?thesis
    using timing_engine_exact [OF e0 d, of "[(ACT, decoded_zero, 100)]" RD 119] con d e0 by auto
qed

section \<open>The four-activate window\<close>

text \<open>
  The use of the window by the controller: a tick prunes the histories at the new cycle, an activate
  is issued only when \<^verbatim>\<open>faw_ready\<close> holds and is recorded at the current cycle. The history lists the
  activates, newest first.
\<close>

inductive faw_run :: "dram_spec \<Rightarrow> timing_engine \<Rightarrow> (decoded_address \<times> nat) list \<Rightarrow> nat \<Rightarrow> timing_engine \<Rightarrow> bool"
  for s :: dram_spec and e0 :: timing_engine where
  faw_init: "faw_run s e0 [] 0 e0"
| faw_tick: "faw_run s e0 h now e \<Longrightarrow> now \<le> t \<Longrightarrow> faw_run s e0 h t (prune_recent_acts s t e)"
| faw_act: "faw_run s e0 h now e \<Longrightarrow> faw_ready s e d \<Longrightarrow> faw_run s e0 ((d, now) # h) now (record_activate s d now e)"

definition faw_window :: "dram_spec \<Rightarrow> nat" where
  "faw_window s = timing_delay s (max 1 (nFAW (timing_of s)))"

definition bucket_acts :: "dram_spec \<Rightarrow> nat \<Rightarrow> (decoded_address \<times> nat) list \<Rightarrow> nat list" where
  "bucket_acts s j h = map snd (filter (\<lambda>(d, t). scope_index s (activation_scope s) d = j) h)"

text \<open>A bucket keeps the newest activates, and every activate it no longer keeps has left the window.\<close>

definition faw_inv :: "nat \<Rightarrow> nat \<Rightarrow> nat list \<Rightarrow> nat list \<Rightarrow> bool" where
  "faw_inv win now ts kept \<longleftrightarrow> (\<exists>n. kept = rev (take n ts) \<and> (\<forall>x\<in>set (drop n ts). x + win \<le> now))
     \<and> (\<forall>x\<in>set ts. x \<le> now) \<and> (\<forall>i. i + 4 < length ts \<longrightarrow> ts ! (i + 4) + win \<le> ts ! i)"

lemma prune_acts_append:
  "\<exists>gone. gone @ prune_acts win clk as = as \<and> (\<forall>x\<in>set gone. x + win \<le> clk)"
proof (induction as)
  case (Cons a as)
  show ?case
  proof (cases "a \<le> clk \<and> win \<le> clk - a")
    case True
    from Cons obtain gone where "gone @ prune_acts win clk as = as" "\<forall>x\<in>set gone. x + win \<le> clk" by blast
    with True show ?thesis by (intro exI [of _ "a # gone"]) auto
  next
    case False
    then show ?thesis by (intro exI [of _ "[]"]) auto
  qed
qed simp

lemma faw_inv_prune:
  assumes "faw_inv win now ts kept" "now \<le> t"
  shows "faw_inv win t ts (prune_acts win t kept)"
proof -
  from assms(1) obtain n where n: "kept = rev (take n ts)" "\<forall>x\<in>set (drop n ts). x + win \<le> now"
    and rest: "\<forall>x\<in>set ts. x \<le> now" "\<forall>i. i + 4 < length ts \<longrightarrow> ts ! (i + 4) + win \<le> ts ! i"
    by (auto simp: faw_inv_def)
  obtain gone where g: "gone @ prune_acts win t kept = kept" "\<forall>x\<in>set gone. x + win \<le> t"
    using prune_acts_append by blast
  define new where "new = prune_acts win t kept"
  have "take n ts = rev kept" by (simp add: n(1))
  also have "\<dots> = rev new @ rev gone" using arg_cong [OF g(1), of rev] by (simp add: new_def)
  finally have ts: "ts = rev new @ rev gone @ drop n ts" by (metis append.assoc append_take_drop_id)
  have "take (length new) ts = rev new" "drop (length new) ts = rev gone @ drop n ts" by (subst ts, simp)+
  moreover have "\<forall>x\<in>set (rev gone @ drop n ts). x + win \<le> t" using g(2) n(2) assms(2) by fastforce
  ultimately have "new = rev (take (length new) ts)" "\<forall>x\<in>set (drop (length new) ts). x + win \<le> t" by simp_all
  moreover have "\<forall>x\<in>set ts. x \<le> t" using rest(1) assms(2) by fastforce
  ultimately show ?thesis using rest(2) unfolding faw_inv_def new_def by blast
qed

lemma faw_inv_act:
  assumes "faw_inv win now ts kept" "length kept < 4"
  shows "faw_inv win now (now # ts) (kept @ [now])"
proof -
  from assms(1) obtain n where n: "kept = rev (take n ts)" "\<forall>x\<in>set (drop n ts). x + win \<le> now"
    and rest: "\<forall>x\<in>set ts. x \<le> now" "\<forall>i. i + 4 < length ts \<longrightarrow> ts ! (i + 4) + win \<le> ts ! i"
    by (auto simp: faw_inv_def)
  have "(now # ts) ! (i + 4) + win \<le> (now # ts) ! i" if "i + 4 < length (now # ts)" for i
  proof (cases i)
    case 0
    have "n \<le> 3 \<or> length ts \<le> 3" using assms(2) n(1) by auto
    with that 0 have "n \<le> 3" by auto
    have len: "3 < length ts" using that 0 by simp
    with \<open>n \<le> 3\<close> have "drop n ts ! (3 - n) = ts ! 3" "3 - n < length (drop n ts)" by auto
    then have "ts ! 3 \<in> set (drop n ts)" by (metis nth_mem)
    with n(2) 0 show ?thesis by (simp add: numeral_eq_Suc)
  next
    case (Suc k)
    with that have "k + 4 < length ts" by simp
    with rest(2) Suc show ?thesis by (simp add: add.commute)
  qed
  moreover have "kept @ [now] = rev (take (Suc n) (now # ts))" using n(1) by simp
  ultimately show ?thesis using n rest(1) unfolding faw_inv_def by (metis drop_Suc_Cons order_refl set_ConsD)
qed

lemma faw_run_inv:
  assumes "faw_run s e0 h now e" "timing_reset s = Inr e0"
  shows "length (activation_scopes e) = scope_count s (activation_scope s)
    \<and> (\<forall>j < scope_count s (activation_scope s). faw_inv (faw_window s) now (bucket_acts s j h) (recent_acts (activation_scopes e ! j)))"
  using assms(1)
proof (induction rule: faw_run.induct)
  case faw_init
  from assms(2) show ?case
    by (auto simp: timing_reset_def bindR_eq_Inr Let_def faw_inv_def bucket_acts_def scope_state0_def)
next
  case (faw_tick h now e t)
  then show ?case by (auto simp: prune_recent_acts_def faw_inv_prune simp flip: faw_window_def)
next
  case (faw_act h now e d)
  let ?i = "scope_index s (activation_scope s) d"
  have i: "?i < scope_count s (activation_scope s)" by (rule scope_index_less)
  with faw_act have ne: "activation_scopes e \<noteq> []" by auto
  with faw_act.hyps(2) have small: "length (recent_acts (activation_scopes e ! ?i)) < 4" by (simp add: faw_ready_def)
  show ?case
  proof (intro conjI allI impI)
    show "length (activation_scopes (record_activate s d now e)) = scope_count s (activation_scope s)"
      using faw_act.IH ne by (simp add: record_activate_def Let_def)
    fix j assume j: "j < scope_count s (activation_scope s)"
    show "faw_inv (faw_window s) now (bucket_acts s j ((d, now) # h)) (recent_acts (activation_scopes (record_activate s d now e) ! j))"
    proof (cases "j = ?i")
      case True
      with faw_act.IH j ne small show ?thesis
        by (simp add: record_activate_def Let_def bucket_acts_def faw_inv_act)
    next
      case False
      with faw_act.IH j ne show ?thesis by (simp add: record_activate_def Let_def bucket_acts_def)
    qed
  qed
qed

text \<open>C25. The activation window is enforced: in every run in which activates are issued only when
  \<^verbatim>\<open>faw_ready\<close> allows them, any activate and the fourth one before it in the same activation scope are
  at least \<^verbatim>\<open>nFAW\<close> apart, so no window of that length holds five.\<close>

theorem four_activate_window:
  assumes "faw_run s e0 h now e" "timing_reset s = Inr e0" "j < scope_count s (activation_scope s)"
    and "i + 4 < length (bucket_acts s j h)"
  shows "bucket_acts s j h ! (i + 4) + faw_window s \<le> bucket_acts s j h ! i"
  using faw_run_inv [OF assms(1,2)] assms(3,4) by (auto simp: faw_inv_def)

lemma four_activate_window_witness:
  "\<exists>e0 e h. timing_reset sample_hbm = Inr e0 \<and> faw_run sample_hbm e0 h 26 e
     \<and> bucket_acts sample_hbm 0 h = [26, 10, 10, 10, 10] \<and> 10 + faw_window sample_hbm \<le> 26"
proof -
  obtain e0 where e0: "timing_reset sample_hbm = Inr e0" by (simp add: timing_reset_def sample_hbm_valid Let_def)
  let ?d = decoded_zero
  have idx: "scope_index sample_hbm (activation_scope sample_hbm) ?d = 0"
    by (simp add: scope_index_def coord1_def dim1_def clampI_def decoded_zero_def sample_hbm_def sample_org_def Let_def)
  have acts0: "activation_scopes e0 = [scope_state0, scope_state0]"
    using e0 by (auto simp: timing_reset_def bindR_eq_Inr Let_def dim1_def sample_hbm_def sample_org_def numeral_2_eq_2)
  have w: "timing_delay sample_hbm (max 1 (nFAW (timing_of sample_hbm))) = 16"
    by (simp add: timing_delay_def sample_hbm_def sample_timing_def)
  have run: "\<exists>e. faw_run sample_hbm e0 (replicate n (?d, 10)) 10 e
      \<and> activation_scopes e = [scope_state0\<lparr> recent_acts := replicate n 10 \<rparr>, scope_state0]" if "n \<le> 4" for n
    using that
  proof (induction n)
    case 0
    have "faw_run sample_hbm e0 [] 10 (prune_recent_acts sample_hbm 10 e0)"
      by (rule faw_tick [OF faw_init]) simp
    then show ?case by (intro exI) (auto simp: prune_recent_acts_def acts0 scope_state0_def)
  next
    case (Suc n)
    then obtain e where e: "faw_run sample_hbm e0 (replicate n (?d, 10)) 10 e"
      "activation_scopes e = [scope_state0\<lparr> recent_acts := replicate n 10 \<rparr>, scope_state0]" by auto
    have "faw_ready sample_hbm e ?d" using Suc.prems by (simp add: faw_ready_def idx e(2))
    from faw_act [OF e(1) this] show ?case
      by (intro exI conjI) (simp, simp add: record_activate_def idx e(2) Let_def replicate_append_same scope_state0_def)
  qed
  from run [of 4] obtain e where e: "faw_run sample_hbm e0 (replicate 4 (?d, 10)) 10 e"
    "activation_scopes e = [scope_state0\<lparr> recent_acts := replicate 4 10 \<rparr>, scope_state0]" by auto
  let ?e = "prune_recent_acts sample_hbm 26 e"
  have tick: "faw_run sample_hbm e0 (replicate 4 (?d, 10)) 26 ?e" by (rule faw_tick [OF e(1)]) simp
  have "faw_ready sample_hbm ?e ?d"
    by (simp add: faw_ready_def idx prune_recent_acts_def e(2) w numeral_eq_Suc scope_state0_def)
  from faw_act [OF tick this] have last: "faw_run sample_hbm e0 ((?d, 26) # replicate 4 (?d, 10)) 26
      (record_activate sample_hbm ?d 26 ?e)" .
  have acts: "bucket_acts sample_hbm 0 ((?d, 26) # replicate 4 (?d, 10)) = [26, 10, 10, 10, 10]"
    by (simp add: bucket_acts_def idx numeral_eq_Suc)
  have "0 < scope_count sample_hbm (activation_scope sample_hbm)"
    using scope_index_less [of sample_hbm "activation_scope sample_hbm" ?d] by simp
  from four_activate_window [OF last e0 this, of 0] acts have "10 + faw_window sample_hbm \<le> 26" by (simp add: numeral_eq_Suc)
  with e0 last acts show ?thesis by blast
qed

end
