(* ===== verification/Mem_Executor.thy ===== *)
theory Mem_Executor
  imports Mem_Timing Mem_Policy
begin

text \<open>
  The execution of one DRAM command (\<^verbatim>\<open>CommandExecutor\<close> of \<^verbatim>\<open>controller/executor.cpp\<close>): what it does to
  the banks, the timing scopes, the request, the row-fault mitigation and the statistics. The big switch
  of \<^verbatim>\<open>issue\<close> is cut by the object it writes to; a case that is missing below leaves that object alone.
\<close>

section \<open>State\<close>

record bank_state =
  bk_open_row :: int
  bk_next_act :: nat
  bk_next_pre :: nat
  bk_next_rd :: nat
  bk_next_wr :: nat
  bk_next_any_col :: nat
  bk_next_act2 :: nat
  bk_act2_deadline :: nat
  bk_activating :: bool

definition bank_state0 :: bank_state where
  "bank_state0 = \<lparr> bk_open_row = -1, bk_next_act = 0, bk_next_pre = 0, bk_next_rd = 0, bk_next_wr = 0,
     bk_next_any_col = 0, bk_next_act2 = 0, bk_act2_deadline = 0, bk_activating = False \<rparr>"

record executor =
  ex_banks :: "bank_state list"
  ex_engine :: timing_engine
  ex_rfm :: rfm_manager
  ex_stats :: mem_stats

definition bank_at :: "dram_spec \<Rightarrow> bank_state list \<Rightarrow> decoded_address \<Rightarrow> bank_state" where
  "bank_at s bs d = bs ! nat (flat_bank s d)"

section \<open>Banks\<close>

definition write_recovery :: "dram_spec \<Rightarrow> nat" where
  "write_recovery s = timing_delay s (nCWL (timing_of s) + nBL (timing_of s) + nWR (timing_of s))"

definition rfmpb_delay :: "dram_spec \<Rightarrow> nat" where
  "rfmpb_delay s = timing_delay s (if nRFMpb (timing_of s) > 0 then nRFMpb (timing_of s) else nRFCpb (timing_of s))"

definition rfmab_delay :: "dram_spec \<Rightarrow> nat" where
  "rfmab_delay s = timing_delay s (if nRFMab (timing_of s) > 0 then nRFMab (timing_of s) else nRFC (timing_of s))"

definition preab_delay :: "dram_spec \<Rightarrow> nat" where
  "preab_delay s = timing_delay s (if nRPab (timing_of s) > 0 then nRPab (timing_of s) else nRP (timing_of s))"

text \<open>The bank of the request.\<close>

fun bank_effect :: "dram_spec \<Rightarrow> command \<Rightarrow> int \<Rightarrow> nat \<Rightarrow> bank_state \<Rightarrow> bank_state" where
  "bank_effect s ACT row clk b =
     b\<lparr> bk_open_row := row, bk_next_rd := clk + timing_delay s (nRCDRD (timing_of s)),
        bk_next_wr := clk + timing_delay s (nRCDWR (timing_of s)), bk_next_pre := clk + timing_delay s (nRAS (timing_of s)),
        bk_next_act := clk + timing_delay s (nRC (timing_of s)) \<rparr>"
| "bank_effect s ACT1 row clk b =
     b\<lparr> bk_activating := True, bk_next_act2 := clk + timing_delay s (max 1 (nAADMin (timing_of s))),
        bk_act2_deadline := clk + timing_delay s (max (nAADMin (timing_of s)) (nAADMax (timing_of s))),
        bk_next_rd := clk + timing_delay s (nRCDRD (timing_of s)), bk_next_wr := clk + timing_delay s (nRCDWR (timing_of s)),
        bk_next_act := clk + timing_delay s (nRC (timing_of s)), bk_next_pre := clk + timing_delay s (nRAS (timing_of s)) \<rparr>"
| "bank_effect s ACT2 row clk b = b\<lparr> bk_activating := False, bk_open_row := row, bk_next_act2 := 0, bk_act2_deadline := 0 \<rparr>"
| "bank_effect s PRE row clk b =
     b\<lparr> bk_open_row := -1, bk_activating := False, bk_next_act := clk + timing_delay s (nRP (timing_of s)) \<rparr>"
| "bank_effect s PREPB row clk b =
     b\<lparr> bk_open_row := -1, bk_activating := False, bk_next_act := clk + timing_delay s (nRP (timing_of s)) \<rparr>"
| "bank_effect s RD row clk b =
     b\<lparr> bk_next_any_col := clk + timing_delay s (nCCDL (timing_of s)), bk_next_rd := clk + timing_delay s (nCCDL (timing_of s)),
        bk_next_pre := max (bk_next_pre b) (clk + timing_delay s (nRTP (timing_of s))) \<rparr>"
| "bank_effect s RDA row clk b =
     b\<lparr> bk_next_any_col := clk + timing_delay s (nCCDL (timing_of s)), bk_next_rd := clk + timing_delay s (nCCDL (timing_of s)),
        bk_next_pre := max (bk_next_pre b) (clk + timing_delay s (nRTP (timing_of s))), bk_open_row := -1,
        bk_next_act := max (bk_next_act b)
          (clk + timing_delay s (nRTP (timing_of s)) + timing_delay s (nRP (timing_of s))) \<rparr>"
| "bank_effect s WR row clk b =
     b\<lparr> bk_next_any_col := clk + timing_delay s (nCCDL (timing_of s)), bk_next_wr := clk + timing_delay s (nCCDL (timing_of s)),
        bk_next_pre := max (bk_next_pre b) (clk + write_recovery s) \<rparr>"
| "bank_effect s WRA row clk b =
     b\<lparr> bk_next_any_col := clk + timing_delay s (nCCDL (timing_of s)), bk_next_wr := clk + timing_delay s (nCCDL (timing_of s)),
        bk_next_pre := max (bk_next_pre b) (clk + write_recovery s), bk_open_row := -1,
        bk_next_act := max (bk_next_act b) (clk + write_recovery s + timing_delay s (nRP (timing_of s))) \<rparr>"
| "bank_effect s REFPB row clk b = b\<lparr> bk_next_act := clk + timing_delay s (nRFCpb (timing_of s)) \<rparr>"
| "bank_effect s REFDB row clk b = b\<lparr> bk_next_act := clk + timing_delay s (nRFCpb (timing_of s)) \<rparr>"
| "bank_effect s RFMPB row clk b = b\<lparr> bk_next_act := clk + rfmpb_delay s \<rparr>"
| "bank_effect s _ row clk b = b"

definition close_rank_banks :: "dram_spec \<Rightarrow> decoded_address \<Rightarrow> nat \<Rightarrow> bank_state list \<Rightarrow> bank_state list" where
  "close_rank_banks s d clk bs =
     map_range (rank_bank_range s (length bs) d) (\<lambda>b. b\<lparr> bk_open_row := -1, bk_activating := False,
       bk_next_act := max (bk_next_act b) (clk + preab_delay s) \<rparr>) bs"

definition gate_rank_banks_after :: "dram_spec \<Rightarrow> decoded_address \<Rightarrow> nat \<Rightarrow> bank_state list \<Rightarrow> bank_state list" where
  "gate_rank_banks_after s d ready bs =
     map_range (rank_bank_range s (length bs) d) (\<lambda>b. b\<lparr> bk_next_act := max (bk_next_act b) ready \<rparr>) bs"

definition delay_act :: "nat \<Rightarrow> bank_state \<Rightarrow> bank_state" where
  "delay_act ready b = b\<lparr> bk_next_act := max (bk_next_act b) ready \<rparr>"

definition issue_banks :: "dram_spec \<Rightarrow> command \<Rightarrow> decoded_address \<Rightarrow> nat \<Rightarrow> bank_state list \<Rightarrow> bank_state list" where
  "issue_banks s c d clk bs =
     (let i = nat (flat_bank s d) in
      case c of
        PREAB \<Rightarrow> close_rank_banks s d clk bs
      | REFAB \<Rightarrow> gate_rank_banks_after s d (clk + timing_delay s (nRFC (timing_of s))) bs
      | RFMAB \<Rightarrow> gate_rank_banks_after s d (clk + rfmab_delay s) bs
      | REFDB \<Rightarrow>
          let bs = bs[i := bank_effect s REFDB (da_row d) clk (bs ! i)]; p = nat (flat_bank s (lpddr_refdb_partner s d))
          in bs[p := delay_act (clk + timing_delay s (nRFCpb (timing_of s))) (bs ! p)]
      | _ \<Rightarrow> bs[i := bank_effect s c (da_row d) clk (bs ! i)])"

section \<open>Timing scopes\<close>

definition at_least_one :: "dram_spec \<Rightarrow> int \<Rightarrow> nat" where
  "at_least_one s n = timing_delay s (max 1 n)"

text \<open>The cycle from which the row path of the scope takes commands again.\<close>

fun row_free_at :: "dram_spec \<Rightarrow> command \<Rightarrow> nat \<Rightarrow> nat option" where
  "row_free_at s MRW clk = Some (clk + at_least_one s (nMRW (timing_of s)))"
| "row_free_at s MRR clk = Some (clk + at_least_one s (nMRR (timing_of s)))"
| "row_free_at s WCKTRAIN clk = Some (clk + at_least_one s (nWCKTRAIN (timing_of s)))"
| "row_free_at s DVFS clk = Some (clk + at_least_one s (nDVFS (timing_of s)))"
| "row_free_at s PDX clk = Some (clk + at_least_one s (nPDEX (timing_of s)))"
| "row_free_at s SREFEX clk = Some (clk + at_least_one s (nSREFEX (timing_of s)))"
| "row_free_at s ECCSCRUB clk = Some (clk + at_least_one s (nECCSCRUB (timing_of s)))"
| "row_free_at s RASERR clk = Some (clk + at_least_one s (nRASERR (timing_of s)))"
| "row_free_at s CASRD clk = None"
| "row_free_at s CASWR clk = None"
| "row_free_at s RD clk = None"
| "row_free_at s RDA clk = None"
| "row_free_at s WR clk = None"
| "row_free_at s WRA clk = None"
| "row_free_at s WCKSYNC clk = None"
| "row_free_at s NOP clk = None"
| "row_free_at s _ clk = Some (clk + 1)"

definition row_effect :: "dram_spec \<Rightarrow> command \<Rightarrow> nat \<Rightarrow> scope_state \<Rightarrow> scope_state" where
  "row_effect s c clk st =
     (let st = (case row_free_at s c clk of None \<Rightarrow> st | Some t \<Rightarrow> st\<lparr> next_row := t \<rparr>)
      in if c = ACT \<or> c = ACT1 then st\<lparr> next_act := clk + timing_delay s (nRRDS (timing_of s)) \<rparr> else st)"

fun group_effect :: "dram_spec \<Rightarrow> command \<Rightarrow> nat \<Rightarrow> scope_state \<Rightarrow> scope_state" where
  "group_effect s ACT clk st = st\<lparr> next_act := clk + timing_delay s (nRRDL (timing_of s)) \<rparr>"
| "group_effect s ACT1 clk st = st\<lparr> next_act := clk + timing_delay s (nRRDL (timing_of s)) \<rparr>"
| "group_effect s RD clk st = st\<lparr> next_col := clk + timing_delay s (nCCDL (timing_of s)) \<rparr>"
| "group_effect s RDA clk st = st\<lparr> next_col := clk + timing_delay s (nCCDL (timing_of s)) \<rparr>"
| "group_effect s WR clk st = st\<lparr> next_col := clk + timing_delay s (nCCDL (timing_of s)) \<rparr>"
| "group_effect s WRA clk st = st\<lparr> next_col := clk + timing_delay s (nCCDL (timing_of s)) \<rparr>"
| "group_effect s _ clk st = st"

fun column_effect :: "dram_spec \<Rightarrow> command \<Rightarrow> nat \<Rightarrow> scope_state \<Rightarrow> scope_state" where
  "column_effect s CASRD clk st = st\<lparr> next_col := clk + 1 \<rparr>"
| "column_effect s CASWR clk st = st\<lparr> next_col := clk + 1 \<rparr>"
| "column_effect s WCKSYNC clk st = st\<lparr> next_col := clk + 1 \<rparr>"
| "column_effect s RD clk st = st\<lparr> next_col := clk + timing_delay s (nCCDS (timing_of s)) \<rparr>"
| "column_effect s RDA clk st = st\<lparr> next_col := clk + timing_delay s (nCCDS (timing_of s)) \<rparr>"
| "column_effect s WR clk st = st\<lparr> next_col := clk + timing_delay s (nCCDS (timing_of s)) \<rparr>"
| "column_effect s WRA clk st = st\<lparr> next_col := clk + timing_delay s (nCCDS (timing_of s)) \<rparr>"
| "column_effect s DVFS clk st = st\<lparr> next_col := clk + at_least_one s (nDVFS (timing_of s)) \<rparr>"
| "column_effect s RASERR clk st = st\<lparr> next_col := max (next_col st) (clk + at_least_one s (nLINKRETRY (timing_of s))) \<rparr>"
| "column_effect s _ clk st = st"

definition cas_window :: "dram_spec \<Rightarrow> nat \<Rightarrow> scope_state \<Rightarrow> scope_state" where
  "cas_window s clk st =
     st\<lparr> next_cas := clk + 1, wck_ready_at := clk + at_least_one s (nWCK2CK (timing_of s)),
         wck_active_until := clk + timing_delay s (max (nWCKPST (timing_of s)) (nWCK2CK (timing_of s) + 1)) \<rparr>"

definition keep_wck :: "dram_spec \<Rightarrow> nat \<Rightarrow> scope_state \<Rightarrow> scope_state" where
  "keep_wck s until st = (if lpddr_family s then st\<lparr> wck_active_until := max (wck_active_until st) until \<rparr> else st)"

fun wck_effect :: "dram_spec \<Rightarrow> command \<Rightarrow> nat \<Rightarrow> scope_state \<Rightarrow> scope_state" where
  "wck_effect s CASRD clk st = cas_window s clk st"
| "wck_effect s CASWR clk st = cas_window s clk st"
| "wck_effect s RD clk st = keep_wck s (clk + timing_delay s (nCL (timing_of s) + nBL (timing_of s) + nWCKPST (timing_of s))) st"
| "wck_effect s RDA clk st = keep_wck s (clk + timing_delay s (nCL (timing_of s) + nBL (timing_of s) + nWCKPST (timing_of s))) st"
| "wck_effect s WR clk st = keep_wck s (clk + timing_delay s (nCWL (timing_of s) + nBL (timing_of s) + nWCKPST (timing_of s))) st"
| "wck_effect s WRA clk st = keep_wck s (clk + timing_delay s (nCWL (timing_of s) + nBL (timing_of s) + nWCKPST (timing_of s))) st"
| "wck_effect s WCKSYNC clk st =
     st\<lparr> next_cas := clk + at_least_one s (nWCKSYNC (timing_of s)), wck_ready_at := clk + at_least_one s (nWCKSYNC (timing_of s)),
         wck_active_until := max (wck_active_until st)
           (clk + timing_delay s (max (nWCKPST (timing_of s)) (nWCKSYNC (timing_of s) + 1))) \<rparr>"
| "wck_effect s WCKTRAIN clk st =
     st\<lparr> next_cas := clk + at_least_one s (nWCKTRAIN (timing_of s)), wck_ready_at := clk + at_least_one s (nWCKTRAIN (timing_of s)),
         wck_active_until := clk + at_least_one s (nWCKTRAIN (timing_of s)) + at_least_one s (nWCKPST (timing_of s)) \<rparr>"
| "wck_effect s DVFS clk st = st\<lparr> next_cas := clk + at_least_one s (nDVFS (timing_of s)) \<rparr>"
| "wck_effect s _ clk st = st"

text \<open>The references the function takes to the row, column, bank-group and WCK scopes of the request.\<close>

definition modify_nth :: "nat \<Rightarrow> ('a \<Rightarrow> 'a) \<Rightarrow> 'a list \<Rightarrow> 'a list" where
  "modify_nth i f xs = xs[i := f (xs ! i)]"

definition issue_scopes :: "dram_spec \<Rightarrow> command \<Rightarrow> decoded_address \<Rightarrow> nat \<Rightarrow> timing_engine \<Rightarrow> timing_engine" where
  "issue_scopes s c d clk e =
     (let e = e\<lparr> row_scopes := modify_nth (scope_index s (row_bus_scope s) d) (row_effect s c clk) (row_scopes e),
                column_scopes := modify_nth (scope_index s (column_bus_scope s) d) (column_effect s c clk) (column_scopes e),
                bank_group_scopes := modify_nth (scope_index s ScopeBankGroup d) (group_effect s c clk) (bank_group_scopes e),
                wck_scopes := modify_nth (scope_index s (wck_scope s) d) (wck_effect s c clk) (wck_scopes e) \<rparr>
      in if c = ACT \<or> c = ACT1 \<or> c = REFPB \<or> c = REFDB then record_activate s d clk e else e)"

section \<open>Request, mitigation and statistics\<close>

definition issue_request :: "dram_spec \<Rightarrow> command \<Rightarrow> dram_request \<Rightarrow> dram_request" where
  "issue_request s c r =
     (if c = ACT1 then r\<lparr> dr_issued_first_activate := True \<rparr>
      else if c = CASRD \<or> c = CASWR then r\<lparr> dr_cas_sync_issued := True \<rparr>
      else if (c = RD \<or> c = RDA \<or> c = WR \<or> c = WRA) \<and> lpddr_family s then r\<lparr> dr_cas_sync_issued := False \<rparr>
      else r)"

definition issue_rfm :: "dram_spec \<Rightarrow> command \<Rightarrow> decoded_address \<Rightarrow> rfm_manager \<times> mem_stats
    \<Rightarrow> (command \<times> decoded_address) option \<times> rfm_manager \<times> mem_stats" where
  "issue_rfm s c d = (\<lambda>(m, st).
     if c = ACT \<or> c = ACT1 then rfm_on_activate s d m st
     else if c = RFMPB then (None, rfm_on_rfmpb s d m st)
     else if c = RFMAB then (None, rfm_on_rfmab s d m st)
     else (None, m, st))"

definition count_command :: "command \<Rightarrow> mem_stats \<Rightarrow> mem_stats" where
  "count_command c st = st\<lparr> issued_count := (issued_count st)(c := issued_count st c + 1) \<rparr>"

definition issue_stats :: "dram_spec \<Rightarrow> command \<Rightarrow> dram_request \<Rightarrow> mem_stats \<Rightarrow> mem_stats" where
  "issue_stats s c r st =
     (if c = NOP then st
      else
        let st = (if c = CASRD \<or> c = CASWR \<or> c = WCKSYNC then st\<lparr> wck_syncs := wck_syncs st + 1 \<rparr> else st);
            st = (if (c = RD \<or> c = RDA \<or> c = WR \<or> c = WRA) \<and> lpddr_family s \<and> \<not> dr_cas_sync_issued r
                  then st\<lparr> wck_sync_skips := wck_sync_skips st + 1 \<rparr> else st);
            st = (if c = MRW \<or> c = MRR then st\<lparr> mode_register_ops := mode_register_ops st + 1 \<rparr> else st);
            st = (if c = WCKTRAIN then st\<lparr> wck_training_events := wck_training_events st + 1 \<rparr> else st);
            st = (if c = DVFS then st\<lparr> dvfs_transitions := dvfs_transitions st + 1 \<rparr> else st);
            st = (if c = ECCSCRUB \<or> c = RASERR then st\<lparr> ras_ecc_events := ras_ecc_events st + 1 \<rparr> else st)
        in count_command c st)"

section \<open>Issue\<close>

definition exec_issue :: "dram_spec \<Rightarrow> dram_request \<Rightarrow> command \<Rightarrow> nat \<Rightarrow> executor
    \<Rightarrow> dram_request \<times> (command \<times> decoded_address) option \<times> executor" where
  "exec_issue s r c clk x =
     (let d = dr_decoded r;
          banks = issue_banks s c d clk (ex_banks x);
          engine = issue_scopes s c d clk (ex_engine x);
          (rfm_command, rfm, st) = issue_rfm s c d (ex_rfm x, ex_stats x);
          st = issue_stats s c r st;
          engine = apply_constraints s d c clk engine
      in (issue_request s c r, rfm_command, \<lparr> ex_banks = banks, ex_engine = engine, ex_rfm = rfm, ex_stats = st \<rparr>))"

end
