(* ===== verification/Mem_Controller.thy ===== *)
theory Mem_Controller
  imports Mem_Executor
begin

text \<open>
  The gates of the channel controller (\<^verbatim>\<open>controller/controller.cpp\<close>): the next command a request needs,
  the state and timing checks that admit it, the command buses with HBM edge pairing and the protection
  of banks that active requests own. The PHY is the direct one, which admits every command.
\<close>

section \<open>State\<close>

record rising_edge =
  re_command :: command
  re_pseudo_channel :: int
  re_bank_key :: int
  re_next_pairing_falling_edge :: nat

record controller =
  ct_clk :: nat
  ct_exec :: executor
  ct_queues :: request_queues
  ct_pending :: "dram_request list"
  ct_row_policy :: row_policy
  ct_write_mode :: bool
  ct_rising_edge :: rising_edge
  ct_low_power_active :: bool
  ct_explicit_power_down :: bool
  ct_explicit_self_refresh :: bool
  ct_exit_pending :: "command option"
  ct_wck_retrain_required :: bool

record controller_options =
  co_row_policy :: row_policy_kind
  co_scheduler :: scheduler_kind
  co_write_buffer_size :: nat
  co_write_low_watermark :: rat
  co_write_high_watermark :: rat
  co_global_channel_id :: int
  co_response_queue_capacity :: nat
  co_retain_responses :: bool
  co_retain_command_trace :: bool

text \<open>The constructor; the priority, read and write capacities are the buffer sizes of the options.\<close>

definition controller_make :: "dram_spec \<Rightarrow> controller_options \<Rightarrow> nat \<Rightarrow> nat \<Rightarrow> int \<Rightarrow> controller result" where
  "controller_make s opt priority reads cap =
     bindR (total_banks s) (\<lambda>banks.
     bindR (request_queues_make (nat banks) priority reads (co_write_buffer_size opt)) (\<lambda>queues.
     bindR (validate_spec s) (\<lambda>_.
     bindR (check (0 \<le> co_write_low_watermark opt \<and> co_write_high_watermark opt \<le> 1
         \<and> co_write_low_watermark opt < co_write_high_watermark opt)
       (InvalidArgument ''Controller write watermarks must satisfy 0 <= low < high <= 1'')) (\<lambda>_.
     bindR (check (0 < cap) (InvalidArgument ''Controller row_policy_cap must be positive'')) (\<lambda>_.
     bindR (check (0 \<le> co_global_channel_id opt) (InvalidArgument ''Controller global_channel_id must be non-negative'')) (\<lambda>_.
     bindR (row_policy_reset (nat banks) cap) (\<lambda>policy.
     bindR (rfm_reset s) (\<lambda>rfm.
     bindR (timing_reset s) (\<lambda>engine.
     Inr \<lparr> ct_clk = 0,
           ct_exec = \<lparr> ex_banks = replicate (nat banks) bank_state0, ex_engine = engine, ex_rfm = rfm, ex_stats = mem_stats0 \<rparr>,
           ct_queues = queues, ct_pending = [], ct_row_policy = policy, ct_write_mode = False,
           ct_rising_edge = \<lparr> re_command = NOP, re_pseudo_channel = -1, re_bank_key = -1, re_next_pairing_falling_edge = 0 \<rparr>,
           ct_low_power_active = False, ct_explicit_power_down = False, ct_explicit_self_refresh = False,
           ct_exit_pending = None, ct_wck_retrain_required = False \<rparr>)))))))))"

definition ct_banks :: "controller \<Rightarrow> bank_state list" where
  "ct_banks k = ex_banks (ct_exec k)"

definition ct_engine :: "controller \<Rightarrow> timing_engine" where
  "ct_engine k = ex_engine (ct_exec k)"

definition ct_bank :: "dram_spec \<Rightarrow> controller \<Rightarrow> decoded_address \<Rightarrow> bank_state" where
  "ct_bank s k d = bank_at s (ct_banks k) d"

section \<open>Bank ranges\<close>

definition bank_busy :: "bank_state \<Rightarrow> bool" where
  "bank_busy b \<longleftrightarrow> bk_activating b \<or> 0 \<le> bk_open_row b"

definition any_in_range :: "(bank_state \<Rightarrow> bool) \<Rightarrow> int \<times> int \<Rightarrow> bank_state list \<Rightarrow> bool" where
  "any_in_range P r bs \<longleftrightarrow> list_ex P (drop (nat (fst r)) (take (nat (snd r)) bs))"

definition channel_bank_range :: "dram_spec \<Rightarrow> nat \<Rightarrow> decoded_address \<Rightarrow> (int \<times> int) result" where
  "channel_bank_range s n d =
     bindR (banks_per_channel s) (\<lambda>per_channel.
       let per_channel = max 1 per_channel; channel = clampI (da_channel d) 0 (max 1 (channels (org s)) - 1);
           lower = channel * per_channel
       in Inr (lower, min (int n) (lower + per_channel)))"

text \<open>\<^verbatim>\<open>banks_per_channel\<close> throws only for a geometry that the constructor has refused before.\<close>

definition any_bank_busy_in_channel :: "dram_spec \<Rightarrow> controller \<Rightarrow> decoded_address \<Rightarrow> bool" where
  "any_bank_busy_in_channel s k d =
     (case channel_bank_range s (length (ct_banks k)) d of Inl _ \<Rightarrow> False | Inr r \<Rightarrow> any_in_range bank_busy r (ct_banks k))"

definition any_bank_busy_in_rank :: "dram_spec \<Rightarrow> controller \<Rightarrow> decoded_address \<Rightarrow> bool" where
  "any_bank_busy_in_rank s k d = any_in_range bank_busy (rank_bank_range s (length (ct_banks k)) d) (ct_banks k)"

definition any_bank_activating_in_rank :: "dram_spec \<Rightarrow> controller \<Rightarrow> decoded_address \<Rightarrow> bool" where
  "any_bank_activating_in_rank s k d =
     any_in_range bk_activating (rank_bank_range s (length (ct_banks k)) d) (ct_banks k)"

definition dual_bank_target_idle :: "dram_spec \<Rightarrow> controller \<Rightarrow> decoded_address \<Rightarrow> bool" where
  "dual_bank_target_idle s k d =
     (let bank = ct_bank s k d; partner = ct_bank s k (lpddr_refdb_partner s d) in
      if bk_activating bank \<or> 0 \<le> bk_open_row bank \<or> ct_clk k < bk_next_act bank then False
      else \<not> bk_activating partner \<and> bk_open_row partner < 0 \<and> bk_next_act partner \<le> ct_clk k)"

definition is_maintenance :: "dram_request \<Rightarrow> bool" where
  "is_maintenance r \<longleftrightarrow> dr_type r = ReqMaintenance"

definition wck_ready :: "dram_spec \<Rightarrow> controller \<Rightarrow> dram_request \<Rightarrow> bool" where
  "wck_ready s k r = wck_ready_for_data s (ct_engine k) (dr_decoded r) (ct_clk k)"

definition wck_of :: "dram_spec \<Rightarrow> controller \<Rightarrow> decoded_address \<Rightarrow> scope_state" where
  "wck_of s k d = wck_scopes (ct_engine k) ! scope_index s (wck_scope s) d"

definition row_of :: "dram_spec \<Rightarrow> controller \<Rightarrow> decoded_address \<Rightarrow> scope_state" where
  "row_of s k d = row_scopes (ct_engine k) ! scope_index s (row_bus_scope s) d"

definition column_of :: "dram_spec \<Rightarrow> controller \<Rightarrow> decoded_address \<Rightarrow> scope_state" where
  "column_of s k d = column_scopes (ct_engine k) ! scope_index s (column_bus_scope s) d"

definition group_of :: "dram_spec \<Rightarrow> controller \<Rightarrow> decoded_address \<Rightarrow> scope_state" where
  "group_of s k d = bank_group_scopes (ct_engine k) ! scope_index s ScopeBankGroup d"

section \<open>The next command of a request\<close>

definition next_maintenance :: "dram_spec \<Rightarrow> controller \<Rightarrow> dram_request \<Rightarrow> command" where
  "next_maintenance s k r =
     (let d = dr_decoded r; c = dr_next r; bank = ct_bank s k d in
      if (c = REFAB \<or> c = RFMAB) \<and> any_bank_busy_in_rank s k d then PREAB
      else if (c = REFPB \<or> c = REFDB \<or> c = RFMPB) \<and> (bk_activating bank \<or> 0 \<le> bk_open_row bank) then PREPB
      else if c = REFDB \<and> \<not> dual_bank_target_idle s k d \<and> any_bank_busy_in_rank s k d then PREAB
      else c)"

text \<open>An open row on LPDDR without a running WCK: wait for the WCK, or start it when the window covers the data.\<close>

definition next_wck :: "dram_spec \<Rightarrow> controller \<Rightarrow> dram_request \<Rightarrow> command option" where
  "next_wck s k r =
     (let d = dr_decoded r; bank = ct_bank s k d; wck = wck_of s k d; clk = ct_clk k; t = timing_of s;
          rd = (dr_type r = ReqRead) in
      if clk < wck_ready_at wck \<and> clk < wck_active_until wck then None
      else
        let data_gate = max (if rd then bk_next_rd bank else bk_next_wr bank)
              (constraint_ready_at s (ct_engine k) d (if rd then RD else WR));
            prospective_ready = clk + timing_delay s (max 1 (max (nCAS t) (nWCK2CK t)));
            prospective_end = clk + timing_delay s (max (nWCKPST t) (nWCK2CK t + 1))
        in if prospective_end \<le> max data_gate prospective_ready then None
           else Some (if rd then CASRD else CASWR))"

definition next_command_of :: "dram_spec \<Rightarrow> controller_options \<Rightarrow> controller \<Rightarrow> dram_request \<Rightarrow> command option" where
  "next_command_of s opt k r =
     (let d = dr_decoded r; bank = ct_bank s k d in
      if is_maintenance r then Some (next_maintenance s k r)
      else if bk_open_row bank = da_row d then
        (if lpddr_family s \<and> \<not> wck_ready s k r then next_wck s k r
         else Some (if dr_type r = ReqRead then read_command_for (co_row_policy opt) else write_command_for (co_row_policy opt)))
      else if 0 \<le> bk_open_row bank then Some PREPB
      else if bk_activating bank then (if dr_issued_first_activate r then Some ACT2 else None)
      else if split_activate s then Some (if dr_issued_first_activate r then ACT2 else ACT1)
      else Some ACT)"

section \<open>Admission\<close>

definition protocol_state_of :: "bank_state \<Rightarrow> bank_protocol_state" where
  "protocol_state_of b = (if bk_activating b then BankActivating else if 0 \<le> bk_open_row b then BankOpened else BankClosed)"

definition command_snapshot :: "dram_spec \<Rightarrow> controller \<Rightarrow> dram_request \<Rightarrow> command \<Rightarrow> command_state" where
  "command_snapshot s k r c =
     (let d = dr_decoded r; bank = ct_bank s k d in
      \<lparr> cs_bank_state = protocol_state_of bank, cs_row_hit = (bk_open_row bank = da_row d), cs_wck_ready = wck_ready s k r,
        cs_any_bank_busy = (if c = PREAB \<or> c = REFAB \<or> c = RFMAB then any_bank_busy_in_rank s k d
                            else any_bank_busy_in_channel s k d),
        cs_split_activate = split_activate s, cs_lpddr_family = lpddr_family s, cs_maintenance = is_maintenance r,
        cs_issued_first_activate = dr_issued_first_activate r,
        cs_low_power_active = (ct_explicit_power_down k \<or> ct_low_power_active k \<and> low_power_mode s \<noteq> LowPowerSelfRefresh),
        cs_self_refresh_active =
          (ct_explicit_self_refresh k \<or> ct_low_power_active k \<and> low_power_mode s = LowPowerSelfRefresh),
        cs_training_active = False, cs_dvfs_transition_active = False,
        cs_wck_training_required = ct_wck_retrain_required k,
        cs_ras_ecc_supported = (supports_ecc s \<or> lpddr_link_ecc_enabled s),
        cs_link_retry_supported = (hbm_link_retry_enabled s \<or> lpddr_link_protection s) \<rparr>)"

definition state_ok :: "dram_spec \<Rightarrow> controller \<Rightarrow> dram_request \<Rightarrow> command \<Rightarrow> bool" where
  "state_ok s k r c = check_command_state (command_snapshot s k r c) c"

text \<open>The gates kept in the bank and in the scopes.\<close>

definition local_gates :: "dram_spec \<Rightarrow> controller \<Rightarrow> dram_request \<Rightarrow> command \<Rightarrow> bool" where
  "local_gates s k r c =
     (let d = dr_decoded r; clk = ct_clk k; bank = ct_bank s k d; row = row_of s k d; col = column_of s k d;
          bg = group_of s k d; wck = wck_of s k d; faw = faw_ready s (ct_engine k) d;
          activate = (bk_next_act bank \<le> clk \<and> next_row row \<le> clk \<and> next_act row \<le> clk \<and> next_act bg \<le> clk \<and> faw);
          column_access = (bk_next_any_col bank \<le> clk \<and> next_col col \<le> clk \<and> next_col bg \<le> clk
            \<and> (\<not> lpddr_family s \<or> wck_ready s k r)) in
      case c of
        ACT \<Rightarrow> \<not> bk_activating bank \<and> activate
      | ACT1 \<Rightarrow> \<not> bk_activating bank \<and> \<not> any_bank_activating_in_rank s k d \<and> activate
      | ACT2 \<Rightarrow> bk_activating bank \<and> dr_issued_first_activate r \<and> bk_next_act2 bank \<le> clk \<and> next_row row \<le> clk
      | PRE \<Rightarrow> \<not> bk_activating bank \<and> 0 \<le> bk_open_row bank \<and> bk_next_pre bank \<le> clk \<and> next_row row \<le> clk
      | PREPB \<Rightarrow> \<not> bk_activating bank \<and> 0 \<le> bk_open_row bank \<and> bk_next_pre bank \<le> clk \<and> next_row row \<le> clk
      | CASRD \<Rightarrow> lpddr_family s \<and> bk_open_row bank = da_row d \<and> next_col col \<le> clk \<and> next_cas wck \<le> clk
      | CASWR \<Rightarrow> lpddr_family s \<and> bk_open_row bank = da_row d \<and> next_col col \<le> clk \<and> next_cas wck \<le> clk
      | RD \<Rightarrow> bk_open_row bank = da_row d \<and> bk_next_rd bank \<le> clk \<and> column_access
      | RDA \<Rightarrow> bk_open_row bank = da_row d \<and> bk_next_rd bank \<le> clk \<and> column_access
      | WR \<Rightarrow> bk_open_row bank = da_row d \<and> bk_next_wr bank \<le> clk \<and> column_access
      | WRA \<Rightarrow> bk_open_row bank = da_row d \<and> bk_next_wr bank \<le> clk \<and> column_access
      | REFPB \<Rightarrow> \<not> bk_activating bank \<and> bk_open_row bank < 0 \<and> bk_next_act bank \<le> clk \<and> next_row row \<le> clk \<and> faw
      | REFDB \<Rightarrow> dual_bank_target_idle s k d \<and> bk_next_act bank \<le> clk
          \<and> bk_next_act (ct_bank s k (lpddr_refdb_partner s d)) \<le> clk \<and> next_row row \<le> clk \<and> faw
      | RFMPB \<Rightarrow> \<not> bk_activating bank \<and> bk_open_row bank < 0 \<and> bk_next_act bank \<le> clk \<and> next_row row \<le> clk
      | PREAB \<Rightarrow> next_row row \<le> clk
      | REFAB \<Rightarrow> \<not> any_bank_busy_in_rank s k d \<and> next_row row \<le> clk
      | RFMAB \<Rightarrow> \<not> any_bank_busy_in_rank s k d \<and> next_row row \<le> clk
      | MRW \<Rightarrow> \<not> any_bank_busy_in_channel s k d \<and> next_row row \<le> clk
      | MRR \<Rightarrow> \<not> any_bank_busy_in_channel s k d \<and> next_row row \<le> clk
      | WCKTRAIN \<Rightarrow> \<not> any_bank_busy_in_channel s k d \<and> next_row row \<le> clk
      | DVFS \<Rightarrow> \<not> any_bank_busy_in_channel s k d \<and> next_row row \<le> clk
      | PDE \<Rightarrow> \<not> any_bank_busy_in_channel s k d \<and> next_row row \<le> clk
      | SREFEN \<Rightarrow> \<not> any_bank_busy_in_channel s k d \<and> next_row row \<le> clk
      | ECCSCRUB \<Rightarrow> \<not> any_bank_busy_in_channel s k d \<and> next_row row \<le> clk
      | WCKSYNC \<Rightarrow> lpddr_family s \<and> next_col col \<le> clk \<and> next_cas wck \<le> clk
      | PDX \<Rightarrow> next_row row \<le> clk
      | SREFEX \<Rightarrow> next_row row \<le> clk
      | RASERR \<Rightarrow> next_row row \<le> clk
      | NOP \<Rightarrow> False)"

definition timing_ok :: "dram_spec \<Rightarrow> controller \<Rightarrow> dram_request \<Rightarrow> command \<Rightarrow> bool" where
  "timing_ok s k r c =
     (if \<not> state_ok s k r c then False
      else if \<not> constraint_ready s (ct_engine k) (dr_decoded r) c (ct_clk k) then False
      else local_gates s k r c)"

section \<open>Buses\<close>

definition is_rising_edge :: "controller \<Rightarrow> bool" where
  "is_rising_edge k \<longleftrightarrow> ct_clk k mod 2 = 1"

definition edge_bank_key :: "dram_spec \<Rightarrow> decoded_address \<Rightarrow> int" where
  "edge_bank_key s d = (da_sid d * bank_groups (org s) + da_bank_group d) * banks_per_group (org s) + da_bank d"

definition can_issue_falling_edge_pre :: "dram_spec \<Rightarrow> controller \<Rightarrow> dram_request \<Rightarrow> command \<Rightarrow> bool" where
  "can_issue_falling_edge_pre s k r c =
     (let e = ct_rising_edge k in
      if ct_clk k \<noteq> re_next_pairing_falling_edge e then True
      else if re_pseudo_channel e \<noteq> da_pseudo_channel (dr_decoded r) then True
      else if meta_all_bank (command_meta_of (re_command e)) then False
      else c = PREPB \<and> edge_bank_key s (dr_decoded r) \<noteq> re_bank_key e)"

definition bus_matches :: "dram_spec \<Rightarrow> controller \<Rightarrow> dram_request \<Rightarrow> command \<Rightarrow> bus_class \<Rightarrow> bool" where
  "bus_matches s k r c bus =
     (if bus = BusUnified then True
      else if hbm_edge_pairing s \<and> \<not> is_rising_edge k then
        (if bus = BusColumn then False
         else if c \<noteq> PREPB \<and> c \<noteq> PREAB then False
         else \<not> hbm_strict_edge_pairing s \<or> can_issue_falling_edge_pre s k r c)
      else if meta_row_command (command_meta_of c) then bus = BusRow
      else if meta_column_command (command_meta_of c) then bus = BusColumn
      else False)"

definition record_rising_row_command :: "dram_spec \<Rightarrow> dram_request \<Rightarrow> command \<Rightarrow> controller \<Rightarrow> controller" where
  "record_rising_row_command s r c k =
     k\<lparr> ct_rising_edge := \<lparr> re_command = c, re_pseudo_channel = da_pseudo_channel (dr_decoded r),
          re_bank_key = (if meta_all_bank (command_meta_of c) then -1 else edge_bank_key s (dr_decoded r)),
          re_next_pairing_falling_edge = ct_clk k + (if c = ACT then 3 else 1) \<rparr> \<rparr>"

definition would_close_active :: "dram_spec \<Rightarrow> controller \<Rightarrow> dram_request \<Rightarrow> command \<Rightarrow> request_queue_kind \<Rightarrow> bool" where
  "would_close_active s k r c source =
     (let counts = active_counts (ct_queues k) in
      if source = QActive then False
      else if c \<notin> {PREPB, REFPB, REFDB, RFMPB, PREAB, REFAB, RFMAB} then False
      else if meta_all_bank (command_meta_of c) then
        (let (lower, upper) = rank_bank_range s (length (ct_banks k)) (dr_decoded r)
         in list_ex (\<lambda>n. 0 < n) (drop (nat lower) (take (nat upper) counts)))
      else 0 < counts ! nat (flat_bank s (dr_decoded r)))"

definition set_write_mode :: "controller_options \<Rightarrow> controller \<Rightarrow> controller" where
  "set_write_mode opt k =
     (let high = co_write_high_watermark opt * of_nat (co_write_buffer_size opt);
          low = co_write_low_watermark opt * of_nat (co_write_buffer_size opt);
          writes = rq_queues (ct_queues k) QWrite; reads = rq_queues (ct_queues k) QRead in
      if \<not> ct_write_mode k
      then (if of_nat (length writes) > high \<or> reads = [] then k\<lparr> ct_write_mode := True \<rparr> else k)
      else (if of_nat (length writes) < low \<and> reads \<noteq> [] then k\<lparr> ct_write_mode := False \<rparr> else k))"

end
