(* ===== verification/Mem_Schedule.thy ===== *)
theory Mem_Schedule
  imports Mem_Controller Mem_Image
begin

text \<open>
  The choice of the next command of the channel controller (\<^verbatim>\<open>controller/controller.cpp\<close>): the spans
  requests cover, the order that overlapping reads and writes keep, the four sources of candidates and
  the upgrade of a data command to its auto-precharge form. The direct PHY admits every command, so its
  admission test and its backpressure counts fall away.
\<close>

section \<open>Spans\<close>

definition request_data_size :: "dram_spec \<Rightarrow> dram_request \<Rightarrow> nat" where
  "request_data_size s r =
     (if 0 < dr_transfer_bytes r then dr_transfer_bytes r
      else if dr_has_expected_payload r \<and> dr_expected_payload r \<noteq> [] then length (dr_expected_payload r)
      else if dr_has_payload r \<and> dr_payload r \<noteq> [] then length (dr_payload r)
      else nat (max 1 (transaction_bytes s)))"

definition range_end :: "nat \<Rightarrow> nat \<Rightarrow> nat" where
  "range_end start n = (if u64_max - start < n then u64_max else start + n)"

definition ranges_overlap :: "nat \<Rightarrow> nat \<Rightarrow> nat \<Rightarrow> nat \<Rightarrow> bool" where
  "ranges_overlap a n b m = (if n = 0 \<or> m = 0 then False else a < range_end b m \<and> b < range_end a n)"

definition requests_overlap :: "dram_spec \<Rightarrow> dram_request \<Rightarrow> dram_request \<Rightarrow> bool" where
  "requests_overlap s q r = ranges_overlap (dr_address q) (request_data_size s q) (dr_address r) (request_data_size s r)"

text \<open>A read of the queue that overlaps the write; a bound of zero lets every read count, another one only older ones.\<close>

definition queue_has_overlap :: "dram_spec \<Rightarrow> dram_request \<Rightarrow> nat \<Rightarrow> dram_request list \<Rightarrow> bool" where
  "queue_has_overlap s w bound q =
     list_ex (\<lambda>r. dr_type r = ReqRead \<and> \<not> (bound \<noteq> 0 \<and> bound \<le> dr_controller_sequence r) \<and> requests_overlap s w r) q"

definition has_unresolved_overlapping_read :: "dram_spec \<Rightarrow> controller \<Rightarrow> dram_request \<Rightarrow> nat \<Rightarrow> bool" where
  "has_unresolved_overlapping_read s k w bound =
     (queue_has_overlap s w bound (rq_queues (ct_queues k) QRead) \<or> queue_has_overlap s w bound (rq_queues (ct_queues k) QActive)
      \<or> queue_has_overlap s w bound (ct_pending k))"

section \<open>Candidates\<close>

record chosen =
  cd_index :: nat
  cd_buffer :: request_queue_kind
  cd_command :: command
  cd_bus :: bus_class

definition candidate_eligible :: "dram_spec \<Rightarrow> controller \<Rightarrow> dram_request \<Rightarrow> command \<Rightarrow> bus_class \<Rightarrow> request_queue_kind \<Rightarrow> bool \<Rightarrow> bool" where
  "candidate_eligible s k r c bus kind avoid =
     (if dr_type r = ReqWrite \<and> has_unresolved_overlapping_read s k r (dr_controller_sequence r) then False
      else if \<not> bus_matches s k r c bus then False
      else \<not> (avoid \<and> would_close_active s k r c kind))"

text \<open>The view of a request that the scheduler gets.\<close>

definition candidate_of :: "dram_spec \<Rightarrow> controller_options \<Rightarrow> controller \<Rightarrow> bus_class \<Rightarrow> request_queue_kind \<Rightarrow> bool
    \<Rightarrow> nat \<Rightarrow> candidate option" where
  "candidate_of s opt k bus kind avoid i =
     (let r = rq_queues (ct_queues k) kind ! i in
      case next_command_of s opt k r of
        None \<Rightarrow> None
      | Some c \<Rightarrow>
          let eligible = candidate_eligible s k r c bus kind avoid in
          Some \<lparr> cand_index = i, cand_arrival = dr_arrival r, cand_command = c, cand_eligible = eligible,
                 cand_ready = (eligible \<and> timing_ok s k r c) \<rparr>)"

definition pick_best_ready_from :: "dram_spec \<Rightarrow> controller_options \<Rightarrow> controller \<Rightarrow> request_queue_kind \<Rightarrow> bus_class \<Rightarrow> bool
    \<Rightarrow> chosen option" where
  "pick_best_ready_from s opt k kind bus avoid =
     (case select_scheduled_request (co_scheduler opt)
         (List.map_filter (candidate_of s opt k bus kind avoid) [0..<length (rq_queues (ct_queues k) kind)]) of
        None \<Rightarrow> None
      | Some c \<Rightarrow> Some \<lparr> cd_index = cand_index c, cd_buffer = kind, cd_command = cand_command c, cd_bus = bus \<rparr>)"

text \<open>One step of the search for a second activate whose deadline has come; the state is the best index and its deadline.\<close>

definition urgent_step :: "dram_spec \<Rightarrow> controller_options \<Rightarrow> controller \<Rightarrow> bus_class \<Rightarrow> nat \<Rightarrow> (nat \<times> nat) option
    \<Rightarrow> (nat \<times> nat) option result" where
  "urgent_step s opt k bus i best =
     (let active = rq_queues (ct_queues k) QActive; r = active ! i; deadline = bk_act2_deadline (ct_bank s k (dr_decoded r)) in
      if next_command_of s opt k r \<noteq> Some ACT2 then Inr best
      else if deadline < ct_clk k then Inl (RuntimeError ''LPDDR ACT2 missed nAADMax deadline'')
      else if ct_clk k < deadline \<or> \<not> candidate_eligible s k r ACT2 bus QActive False \<or> \<not> timing_ok s k r ACT2 then Inr best
      else (case best of
          None \<Rightarrow> Inr (Some (i, deadline))
        | Some (j, d) \<Rightarrow>
            if deadline < d \<or> deadline = d \<and> dr_arrival r < dr_arrival (active ! j) then Inr (Some (i, deadline)) else Inr best))"

definition pick_urgent_act2 :: "dram_spec \<Rightarrow> controller_options \<Rightarrow> controller \<Rightarrow> bus_class \<Rightarrow> chosen option result" where
  "pick_urgent_act2 s opt k bus =
     (if \<not> split_activate s \<or> bus = BusColumn then Inr None
      else bindR (fold_result (urgent_step s opt k bus) [0..<length (rq_queues (ct_queues k) QActive)] None) (\<lambda>best.
        Inr (map_option (\<lambda>(i, _). \<lparr> cd_index = i, cd_buffer = QActive, cd_command = ACT2, cd_bus = bus \<rparr>) best)))"

definition put_queue :: "request_queue_kind \<Rightarrow> dram_request list \<Rightarrow> controller \<Rightarrow> controller" where
  "put_queue kind rs k = k\<lparr> ct_queues := (ct_queues k)\<lparr> rq_queues := (rq_queues (ct_queues k))(kind := rs) \<rparr> \<rparr>"

text \<open>Precharge requests at the head of the priority queue whose bank is closed already are retired.\<close>

fun drop_satisfied :: "dram_spec \<Rightarrow> controller_options \<Rightarrow> dram_request list \<Rightarrow> controller \<Rightarrow> controller" where
  "drop_satisfied s opt [] k = put_queue QPriority [] k"
| "drop_satisfied s opt (r # rs) k =
     (if dr_next r \<noteq> PREPB \<or> bank_busy (ct_bank s k (dr_decoded r)) then put_queue QPriority (r # rs) k
      else drop_satisfied s opt rs
        (k\<lparr> ct_row_policy := row_policy_issue (co_row_policy opt) (flat_bank s (dr_decoded r)) PREPB (ct_row_policy k) \<rparr>))"

definition pick_priority_if :: "dram_spec \<Rightarrow> controller_options \<Rightarrow> controller \<Rightarrow> bus_class \<Rightarrow> chosen option \<times> controller" where
  "pick_priority_if s opt k bus =
     (let k = drop_satisfied s opt (rq_queues (ct_queues k) QPriority) k in
      case rq_queues (ct_queues k) QPriority of
        [] \<Rightarrow> (None, k)
      | r # _ \<Rightarrow> (case next_command_of s opt k r of
            None \<Rightarrow> (None, k)
          | Some c \<Rightarrow>
              if \<not> candidate_eligible s k r c bus QPriority True \<or> \<not> timing_ok s k r c then (None, k)
              else (Some \<lparr> cd_index = 0, cd_buffer = QPriority, cd_command = c, cd_bus = bus \<rparr>, k)))"

definition pick_rw_if :: "dram_spec \<Rightarrow> controller_options \<Rightarrow> controller \<Rightarrow> bus_class \<Rightarrow> chosen option \<times> controller" where
  "pick_rw_if s opt k bus =
     (let k = set_write_mode opt k in
      if ct_write_mode k then
        (case pick_best_ready_from s opt k QWrite bus True of
           Some c \<Rightarrow> (Some c, k)
         | None \<Rightarrow>
             if list_ex (\<lambda>r. has_unresolved_overlapping_read s k r (dr_controller_sequence r)) (rq_queues (ct_queues k) QWrite)
             then (pick_best_ready_from s opt k QRead bus True, k) else (None, k))
      else (pick_best_ready_from s opt k QRead bus True, k))"

definition choose_command :: "dram_spec \<Rightarrow> controller_options \<Rightarrow> controller \<Rightarrow> bus_class \<Rightarrow> (chosen option \<times> controller) result" where
  "choose_command s opt k bus =
     bindR (pick_urgent_act2 s opt k bus) (\<lambda>c.
       let c = (if c = None \<and> (bus = BusColumn \<or> bus = BusUnified) then pick_best_ready_from s opt k QActive bus False else c);
           (c, k) = (if c = None then pick_priority_if s opt k bus else (c, k));
           (c, k) = (if c = None \<and> rq_queues (ct_queues k) QPriority = [] then pick_rw_if s opt k bus else (c, k))
       in Inr (c, k))"

section \<open>Row policy\<close>

definition try_upgrade :: "dram_spec \<Rightarrow> controller_options \<Rightarrow> controller \<Rightarrow> chosen \<Rightarrow> chosen" where
  "try_upgrade s opt k c =
     (let buffer = rq_queues (ct_queues k) (cd_buffer c); r = buffer ! cd_index c;
          upgraded = (if cd_command c = RD then RDA else WRA) in
      if co_row_policy opt \<noteq> ClosedCap then c
      else if cd_command c \<noteq> RD \<and> cd_command c \<noteq> WR then c
      else if length buffer \<le> cd_index c \<or> is_maintenance r then c
      else if \<not> should_auto_precharge (ct_row_policy k) (co_row_policy opt) (flat_bank s (dr_decoded r)) then c
      else if bus_matches s k r upgraded (cd_bus c) \<and> timing_ok s k r upgraded then c\<lparr> cd_command := upgraded \<rparr> else c)"

definition decoded_from_flat_bank :: "dram_spec \<Rightarrow> int \<Rightarrow> decoded_address" where
  "decoded_from_flat_bank s flat =
     (let x = max 0 flat; per_group = max 1 (banks_per_group (org s)); groups = max 1 (bank_groups (org s));
          rs = max 1 (ranks (org s)); ss = max 1 (sids (org s)); ps = max 1 (pseudo_channels (org s)) in
      decoded_zero\<lparr> da_bank := x mod per_group, da_bank_group := x div per_group mod groups,
        da_rank := x div per_group div groups mod rs, da_sid := x div per_group div groups div rs mod ss,
        da_pseudo_channel := x div per_group div groups div rs div ss mod ps,
        da_channel := x div per_group div groups div rs div ss div ps \<rparr>)"

end
