(* ===== verification/Mem_Channel.thy ===== *)
theory Mem_Channel
  imports Mem_Schedule Mem_Rotation
begin

text \<open>
  The channel controller as a clocked machine (\<^verbatim>\<open>controller/controller.cpp\<close>) over its memory image:
  admission with write coalescing and read forwarding, the issue of a chosen command, the lifecycle of
  a request, completion and responses, maintenance, low-power residency and the tick that drives them.
  The PHY is the direct one and no data validator is attached. Of the statistics only the counters of
  the request lifecycle are kept; the others are written and never read by the controller.
\<close>

section \<open>State\<close>

datatype response_status =
    StatusOk | StatusEccCorrected | StatusUninitializedData | StatusDataMismatch | StatusRetry | StatusTimeout
  | StatusEccUncorrectable | StatusInvalidTransaction

fun severity :: "response_status \<Rightarrow> nat" where
  "severity StatusOk = 0"
| "severity StatusEccCorrected = 1"
| "severity StatusUninitializedData = 2"
| "severity StatusDataMismatch = 3"
| "severity StatusRetry = 4"
| "severity StatusTimeout = 5"
| "severity StatusEccUncorrectable = 6"
| "severity StatusInvalidTransaction = 7"

definition merge_response_status :: "response_status \<Rightarrow> response_status \<Rightarrow> response_status" where
  "merge_response_status a b = (if severity b \<le> severity a then a else b)"

record transaction_response =
  tr_request_id :: nat
  tr_host_request_id :: nat
  tr_transaction_index :: nat
  tr_transaction_count :: nat
  tr_type :: request_type
  tr_system_address :: nat
  tr_local_address :: nat
  tr_stack :: int
  tr_channel :: int
  tr_arrival_cycle :: nat
  tr_issued_cycle :: nat
  tr_completion_cycle :: nat
  tr_data :: "u8 list"
  tr_initialized_mask :: "u8 list"
  tr_initialized :: bool
  tr_ecc_corrected :: bool
  tr_ecc_uncorrectable :: bool
  tr_forwarded :: bool
  tr_coalesced :: bool
  tr_status :: response_status

record issued_command =
  ic_cycle :: nat
  ic_request_id :: nat
  ic_command :: command
  ic_bus :: bus_class
  ic_decoded :: decoded_address
  ic_stack_id :: int
  ic_system_address :: nat
  ic_address :: nat
  ic_payload :: "u8 list"
  ic_expected_payload :: "u8 list"
  ic_byte_mask :: "u8 list"
  ic_initialized_mask :: "u8 list"
  ic_has_payload :: bool
  ic_has_expected_payload :: bool
  ic_has_byte_mask :: bool
  ic_payload_initialized :: bool

record buffered_write =
  bw_request :: dram_request
  bw_byte_sequence :: "nat list"

record lifecycle_stats =
  ls_reads :: nat
  ls_writes :: nat
  ls_injected_requests :: nat
  ls_read_forwards :: nat
  ls_write_coalesces :: nat
  ls_maintenance_requests :: nat
  ls_maintenance_served :: nat
  ls_completed_reads :: nat
  ls_completed_writes :: nat
  ls_total_read_latency :: nat

text \<open>The trace of issued commands is kept newest first.\<close>

record channel =
  ch_ctl :: controller
  ch_refresh :: refresh_manager
  ch_backlog :: "dram_request list"
  ch_responses :: "transaction_response list"
  ch_buffered_addrs :: "nat set"
  ch_buffered :: "(nat \<times> buffered_write) list"
  ch_image :: memory_image
  ch_issued :: "issued_command list"
  ch_stats :: lifecycle_stats
  ch_next_maintenance_id :: nat
  ch_next_sequence :: nat
  ch_idle_since :: nat
  ch_exit_until :: nat

definition lifecycle_stats0 :: lifecycle_stats where
  "lifecycle_stats0 = \<lparr> ls_reads = 0, ls_writes = 0, ls_injected_requests = 0, ls_read_forwards = 0, ls_write_coalesces = 0,
     ls_maintenance_requests = 0, ls_maintenance_served = 0, ls_completed_reads = 0, ls_completed_writes = 0,
     ls_total_read_latency = 0 \<rparr>"

definition channel_make :: "dram_spec \<Rightarrow> controller_options \<Rightarrow> nat \<Rightarrow> nat \<Rightarrow> int \<Rightarrow> memory_image \<Rightarrow> channel result" where
  "channel_make s opt priority reads cap img =
     bindR (controller_make s opt priority reads cap) (\<lambda>k.
     bindR (refresh_reset s 0) (\<lambda>refresh.
     Inr \<lparr> ch_ctl = k, ch_refresh = refresh, ch_backlog = [], ch_responses = [], ch_buffered_addrs = {}, ch_buffered = [],
           ch_image = img, ch_issued = [], ch_stats = lifecycle_stats0, ch_next_maintenance_id = 1, ch_next_sequence = 1,
           ch_idle_since = 0, ch_exit_until = 0 \<rparr>))"

definition ch_clk :: "channel \<Rightarrow> nat" where
  "ch_clk ch = ct_clk (ch_ctl ch)"

definition ch_queue :: "channel \<Rightarrow> request_queue_kind \<Rightarrow> dram_request list" where
  "ch_queue ch = rq_queues (ct_queues (ch_ctl ch))"

definition on_ctl :: "(controller \<Rightarrow> controller) \<Rightarrow> channel \<Rightarrow> channel" where
  "on_ctl f ch = ch\<lparr> ch_ctl := f (ch_ctl ch) \<rparr>"

definition count_life :: "(lifecycle_stats \<Rightarrow> lifecycle_stats) \<Rightarrow> channel \<Rightarrow> channel" where
  "count_life f ch = ch\<lparr> ch_stats := f (ch_stats ch) \<rparr>"

definition push_request :: "request_queue_kind \<Rightarrow> dram_request \<Rightarrow> channel \<Rightarrow> channel" where
  "push_request kind r ch = on_ctl (put_queue kind (ch_queue ch kind @ [r])) ch"

definition push_pending :: "dram_request \<Rightarrow> channel \<Rightarrow> channel" where
  "push_pending r = on_ctl (\<lambda>k. k\<lparr> ct_pending := ct_pending k @ [r] \<rparr>)"

definition channel_done :: "channel \<Rightarrow> bool" where
  "channel_done ch \<longleftrightarrow> ch_queue ch QActive = [] \<and> ch_queue ch QPriority = [] \<and> ch_queue ch QRead = [] \<and> ch_queue ch QWrite = []
     \<and> ch_backlog ch = [] \<and> ct_pending (ch_ctl ch) = []"

section \<open>Payloads\<close>

fun payload_stream :: "nat \<Rightarrow> u64 \<Rightarrow> u8 list" where
  "payload_stream 0 st = []"
| "payload_stream (Suc n) st =
     (let st = st XOR drop_bit 12 st; st = st XOR push_bit 25 st; st = st XOR drop_bit 27 st
      in ucast (drop_bit 56 (st * 0x2545f4914f6cdd1d)) # payload_stream n st)"

definition make_request_payload :: "nat \<Rightarrow> nat \<Rightarrow> nat \<Rightarrow> u8 list" where
  "make_request_payload address request_id n =
     payload_stream n (of_nat address XOR (of_nat request_id * 0x9e3779b97f4a7c15) XOR 0xd1b54a32d192ed03)"

definition normalize_mask :: "u8 list \<Rightarrow> nat \<Rightarrow> u8 list" where
  "normalize_mask bytemask n =
     (if bytemask = [] then replicate n 255
      else map (\<lambda>i. if i < length bytemask \<and> bytemask ! i \<noteq> 0 then 255 else 0) [0..<n])"

definition ensure_write_payload :: "dram_spec \<Rightarrow> dram_request \<Rightarrow> dram_request" where
  "ensure_write_payload s r =
     (let r = (if \<not> dr_has_payload r \<or> dr_payload r = []
               then r\<lparr> dr_payload := make_request_payload (dr_address r) (dr_id r) (request_data_size s r), dr_has_payload := True \<rparr>
               else r)
      in if dr_has_byte_mask r then r\<lparr> dr_byte_mask := normalize_mask (dr_byte_mask r) (length (dr_payload r)) \<rparr> else r)"

definition storage_decoded_for :: "controller_options \<Rightarrow> dram_request \<Rightarrow> decoded_address" where
  "storage_decoded_for opt r =
     (if dr_has_storage_decoded r then dr_storage_decoded r else (dr_decoded r)\<lparr> da_channel := co_global_channel_id opt \<rparr>)"

section \<open>Maintenance requests\<close>

definition schedule_maintenance :: "command \<Rightarrow> decoded_address \<Rightarrow> channel \<Rightarrow> channel" where
  "schedule_maintenance c d ch =
     (let r = dram_request0\<lparr> dr_id := ch_next_maintenance_id ch, dr_type := ReqMaintenance, dr_next := c, dr_decoded := d,
          dr_inject_cycle := ch_clk ch, dr_arrival := ch_clk ch \<rparr>
      in count_life (\<lambda>n. n\<lparr> ls_maintenance_requests := ls_maintenance_requests n + 1 \<rparr>)
           (ch\<lparr> ch_next_maintenance_id := ch_next_maintenance_id ch + 1, ch_backlog := ch_backlog ch @ [r] \<rparr>))"

definition schedule_refresh :: "dram_spec \<Rightarrow> channel \<Rightarrow> channel result option" where
  "schedule_refresh s ch =
     (let ordinary = (ch_queue ch QActive \<noteq> [] \<or> ch_queue ch QRead \<noteq> [] \<or> ch_queue ch QWrite \<noteq> []);
          pull_ok = (\<not> ordinary \<and> ch_queue ch QPriority = [] \<and> ch_backlog ch = [] \<and> ct_pending (ch_ctl ch) = []) in
      case refresh_tick_step s (ch_clk ch) ordinary pull_ok (ch_refresh ch) of
        None \<Rightarrow> None
      | Some t \<Rightarrow> Some (bindR t (\<lambda>(t, m).
          Inr (fold (\<lambda>(c, d). schedule_maintenance c d) (tick_commands t) (ch\<lparr> ch_refresh := m \<rparr>)))))"

fun service_backlog :: "dram_request list \<Rightarrow> channel \<Rightarrow> channel" where
  "service_backlog [] ch = ch\<lparr> ch_backlog := [] \<rparr>"
| "service_backlog (r # rs) ch =
     (if rq_has_space (ct_queues (ch_ctl ch)) QPriority then service_backlog rs (push_request QPriority r ch)
      else ch\<lparr> ch_backlog := r # rs \<rparr>)"

definition service_pending_maintenance :: "channel \<Rightarrow> channel" where
  "service_pending_maintenance ch = service_backlog (ch_backlog ch) ch"

definition pre_schedule_bank :: "dram_spec \<Rightarrow> controller_options \<Rightarrow> nat \<Rightarrow> channel \<Rightarrow> channel" where
  "pre_schedule_bank s opt flat ch =
     (if \<not> should_schedule_precharge (ct_row_policy (ch_ctl ch)) (co_row_policy opt) (int flat)
          (active_counts (ct_queues (ch_ctl ch)) ! flat) then ch
      else
        let r = dram_request0\<lparr> dr_id := ch_next_maintenance_id ch, dr_type := ReqMaintenance, dr_next := PREPB,
              dr_decoded := decoded_from_flat_bank s (int flat), dr_inject_cycle := ch_clk ch, dr_arrival := ch_clk ch \<rparr>;
            ch = ch\<lparr> ch_next_maintenance_id := ch_next_maintenance_id ch + 1 \<rparr> in
        if \<not> timing_ok s (ch_ctl ch) r PREPB \<or> \<not> rq_has_space (ct_queues (ch_ctl ch)) QPriority then ch
        else count_life (\<lambda>n. n\<lparr> ls_maintenance_requests := ls_maintenance_requests n + 1 \<rparr>)
          (on_ctl (\<lambda>k. k\<lparr> ct_row_policy := mark_precharge_pending (int flat) (ct_row_policy k) \<rparr>) (push_request QPriority r ch)))"

definition apply_row_policy_pre_schedule :: "dram_spec \<Rightarrow> controller_options \<Rightarrow> channel \<Rightarrow> channel" where
  "apply_row_policy_pre_schedule s opt ch =
     (if co_row_policy opt \<noteq> ClosedCap then ch
      else fold (pre_schedule_bank s opt) [0..<length (column_accesses (ct_row_policy (ch_ctl ch)))] ch)"

section \<open>Buffered writes\<close>

definition buffered_mask :: "dram_request \<Rightarrow> nat \<Rightarrow> u8 list" where
  "buffered_mask w n = (if dr_has_byte_mask w then normalize_mask (dr_byte_mask w) n else replicate n 255)"

text \<open>A read hits a buffered write when it reads a byte that the write will store.\<close>

definition hits_write :: "dram_spec \<Rightarrow> dram_request \<Rightarrow> nat \<times> buffered_write \<Rightarrow> bool" where
  "hits_write s r = (\<lambda>(address, b).
     let w = bw_request b; n = request_data_size s r; m = request_data_size s w in
     if \<not> ranges_overlap (dr_address r) n address m then False
     else if \<not> dr_has_byte_mask w then True
     else let bytemask = normalize_mask (dr_byte_mask w) m in
       list_ex (\<lambda>pos. pos - address < length bytemask \<and> bytemask ! (pos - address) \<noteq> 0)
         [max (dr_address r) address..<min (range_end (dr_address r) n) (range_end address m)])"

definition read_hits_buffered_write :: "dram_spec \<Rightarrow> channel \<Rightarrow> dram_request \<Rightarrow> bool" where
  "read_hits_buffered_write s ch r = list_ex (hits_write s r) (ch_buffered ch)"

text \<open>One byte of a buffered write laid over the bytes read so far: data, sequence of the newest writer and mask.\<close>

definition overlay_byte :: "dram_request \<Rightarrow> buffered_write \<Rightarrow> u8 list \<Rightarrow> nat \<Rightarrow> u8 list \<times> nat list \<times> u8 list
    \<Rightarrow> u8 list \<times> nat list \<times> u8 list" where
  "overlay_byte r b bytemask pos = (\<lambda>(actual, newest, init).
     let w = bw_request b; src = pos - dr_address w; dst = pos - dr_address r;
         sequence = (if src < length (bw_byte_sequence b) then bw_byte_sequence b ! src else 0) in
     if src < length (dr_payload w) \<and> src < length bytemask \<and> dst < length actual \<and> bytemask ! src \<noteq> 0 \<and> newest ! dst \<le> sequence
     then (actual[dst := dr_payload w ! src], newest[dst := sequence], init[dst := 255])
     else (actual, newest, init))"

definition overlay_write :: "dram_spec \<Rightarrow> dram_request \<Rightarrow> buffered_write \<Rightarrow> u8 list \<times> nat list \<times> u8 list
    \<Rightarrow> u8 list \<times> nat list \<times> u8 list" where
  "overlay_write s r b st =
     (let w = bw_request b; n = request_data_size s r; m = request_data_size s w in
      if \<not> dr_has_payload w \<or> dr_payload w = [] then st
      else fold (overlay_byte r b (buffered_mask w (length (dr_payload w))))
        [max (dr_address r) (dr_address w)..<min (range_end (dr_address r) n) (range_end (dr_address w) m)] st)"

definition read_forward_payload :: "dram_spec \<Rightarrow> controller_options \<Rightarrow> channel \<Rightarrow> dram_request
    \<Rightarrow> (u8 list \<times> u8 list \<times> memory_image) result" where
  "read_forward_payload s opt ch r =
     (let n = request_data_size s r; storage = storage_decoded_for opt r in
      bindR (image_read (dr_address r) n (Some storage) (ch_image ch)) (\<lambda>(actual, _, img).
      bindR (read_initialized_mask (dr_address r) (length actual) (Some storage) img) (\<lambda>init.
      let writes = filter (\<lambda>(address, b). ranges_overlap (dr_address r) n address (request_data_size s (bw_request b))) (ch_buffered ch);
          (actual, _, init) = fold (\<lambda>(_, b). overlay_write s r b) writes (actual, replicate (length actual) 0, init)
      in Inr (actual, init, img))))"

text \<open>A write is merged into the buffered write of the same address; without a mask it replaces it.\<close>

definition merge_bytes :: "dram_request \<Rightarrow> nat \<Rightarrow> u8 list \<times> u8 list \<times> nat list \<Rightarrow> u8 list \<times> u8 list \<times> nat list" where
  "merge_bytes r sequence st = fold (\<lambda>i (payload, bytemask, seqs).
     if dr_byte_mask r ! i \<noteq> 0 then (payload[i := dr_payload r ! i], bytemask[i := 255], seqs[i := sequence]) else (payload, bytemask, seqs))
     [0..<length (dr_payload r)] st"

definition resize :: "nat \<Rightarrow> 'a \<Rightarrow> 'a list \<Rightarrow> 'a list" where
  "resize n x xs = take n xs @ replicate (n - length xs) x"

definition merge_write :: "dram_spec \<Rightarrow> dram_request \<Rightarrow> buffered_write \<Rightarrow> buffered_write" where
  "merge_write s r b =
     (let merged = ensure_write_payload s (bw_request b);
          r = r\<lparr> dr_byte_mask := normalize_mask (dr_byte_mask r) (length (dr_payload r)) \<rparr>;
          payload = (if length (dr_payload merged) < length (dr_payload r)
                     then resize (length (dr_payload r)) 0 (dr_payload merged) else dr_payload merged);
          n = length payload;
          bytemask = resize n 0 (buffered_mask merged n);
          (payload, bytemask, seqs) = merge_bytes r (dr_controller_sequence r) (payload, bytemask, resize n 0 (bw_byte_sequence b));
          partial = \<not> list_all (\<lambda>x. x \<noteq> 0) bytemask
      in \<lparr> bw_request = merged\<lparr> dr_payload := payload, dr_has_payload := True, dr_has_byte_mask := partial,
             dr_byte_mask := (if partial then bytemask else []) \<rparr>,
           bw_byte_sequence = seqs \<rparr>)"

definition fresh_write :: "dram_request \<Rightarrow> buffered_write" where
  "fresh_write r =
     \<lparr> bw_request = r, bw_byte_sequence = map (\<lambda>x. if x \<noteq> 0 then dr_controller_sequence r else 0)
       (buffered_mask r (length (dr_payload r))) \<rparr>"

section \<open>Admission\<close>

definition require_field :: "int \<Rightarrow> int \<Rightarrow> unit result" where
  "require_field v n = check (0 \<le> v \<and> v < n) (OutOfRange ''request decoded field is outside the DRAM organization'')"

definition validate_request_decoded :: "dram_spec \<Rightarrow> decoded_address \<Rightarrow> unit result" where
  "validate_request_decoded s d =
     bindR (require_field (da_channel d) (channels (org s))) (\<lambda>_.
     bindR (require_field (da_pseudo_channel d) (pseudo_channels (org s))) (\<lambda>_.
     bindR (require_field (da_sid d) (sids (org s))) (\<lambda>_.
     bindR (require_field (da_rank d) (ranks (org s))) (\<lambda>_.
     bindR (require_field (da_bank_group d) (bank_groups (org s))) (\<lambda>_.
     bindR (require_field (da_bank d) (banks_per_group (org s))) (\<lambda>_.
     bindR (require_field (da_row d) (org_rows (org s))) (\<lambda>_.
     require_field (da_column d) (org_columns (org s)))))))))"

definition validate_request :: "dram_spec \<Rightarrow> channel \<Rightarrow> dram_request \<Rightarrow> unit result" where
  "validate_request s ch r =
     bindR (validate_request_decoded s (dr_decoded r)) (\<lambda>_.
     bindR (check (0 \<le> dr_qos_class r \<and> -1 \<le> dr_target_stack r \<and> -1 \<le> dr_target_channel r)
       (InvalidArgument ''request qos/stack/channel selectors must be non-negative or unset'')) (\<lambda>_.
     if dr_type r = ReqMaintenance then Inr ()
     else
       let capacity = sb_capacity_bytes (mi_backend (ch_image ch)) in
       check (\<not> (capacity \<noteq> 0 \<and> (capacity \<le> dr_address r \<or> capacity - dr_address r < request_data_size s r)))
         (OutOfRange ''request address range exceeds DRAM capacity'')))"

definition low_power_exit_latency :: "dram_spec \<Rightarrow> int" where
  "low_power_exit_latency s =
     (if low_power_mode s = LowPowerSelfRefresh
      then (if 0 < self_refresh_exit_cycles s then self_refresh_exit_cycles s else low_power_exit_cycles s)
      else low_power_exit_cycles s)"

text \<open>An ordinary request wakes the channel: an explicit state needs its exit command, an implicit one only its latency.\<close>

definition wake :: "dram_spec \<Rightarrow> dram_request \<Rightarrow> channel \<Rightarrow> channel" where
  "wake s r ch =
     (let k = ch_ctl ch in
      if \<not> ct_low_power_active k \<or> dr_type r = ReqMaintenance then ch
      else if ct_explicit_power_down k \<or> ct_explicit_self_refresh k then
        let exit = (if ct_explicit_self_refresh k then SREFEX else PDX) in
        if ct_exit_pending k \<noteq> None then ch
        else on_ctl (\<lambda>k. k\<lparr> ct_exit_pending := Some exit \<rparr>) (schedule_maintenance exit (dr_decoded r) ch)
      else on_ctl (\<lambda>k. k\<lparr> ct_low_power_active := False \<rparr>)
        (ch\<lparr> ch_exit_until := max (ch_exit_until ch) (ch_clk ch + timing_delay s (max 0 (low_power_exit_latency s))) \<rparr>))"

definition take_sequence :: "dram_request \<Rightarrow> channel \<Rightarrow> dram_request \<times> channel" where
  "take_sequence r ch =
     (r\<lparr> dr_controller_sequence := ch_next_sequence ch \<rparr>, ch\<lparr> ch_next_sequence := ch_next_sequence ch + 1 \<rparr>)"

definition accept_read :: "dram_spec \<Rightarrow> controller_options \<Rightarrow> dram_request \<Rightarrow> channel \<Rightarrow> (bool \<times> channel) result" where
  "accept_read s opt r ch =
     (if read_hits_buffered_write s ch r then
        let (r, ch) = take_sequence r ch;
            r = r\<lparr> dr_bypass_dram := True, dr_issued_cycle := ch_clk ch, dr_completion := ch_clk ch + 1 \<rparr>;
            ch = count_life (\<lambda>n. n\<lparr> ls_reads := ls_reads n + 1, ls_injected_requests := ls_injected_requests n + 1,
                   ls_read_forwards := ls_read_forwards n + 1 \<rparr>) ch;
            before = mi_ecc_counters (ch_image ch) in
        bindR (read_forward_payload s opt ch r) (\<lambda>(payload, init, img).
        let after = mi_ecc_counters img;
            r = r\<lparr> dr_payload := payload, dr_has_payload := True, dr_byte_mask := init, dr_has_byte_mask := True,
                   dr_response_ecc_corrected := ecc_corrected_errors before < ecc_corrected_errors after,
                   dr_response_ecc_uncorrectable := ecc_uncorrectable_errors before < ecc_uncorrectable_errors after \<rparr>
        in Inr (True, push_pending r (ch\<lparr> ch_image := img \<rparr>)))
      else if \<not> rq_has_space (ct_queues (ch_ctl ch)) QRead then Inr (False, ch)
      else
        let (r, ch) = take_sequence r ch;
            ch = count_life (\<lambda>n. n\<lparr> ls_reads := ls_reads n + 1, ls_injected_requests := ls_injected_requests n + 1 \<rparr>) ch
        in Inr (True, push_request QRead r ch))"

definition put_buffered :: "nat \<Rightarrow> buffered_write \<Rightarrow> channel \<Rightarrow> channel" where
  "put_buffered a b ch = ch\<lparr> ch_buffered := AList.update a b (ch_buffered ch) \<rparr>"

definition accept_write :: "dram_spec \<Rightarrow> dram_request \<Rightarrow> channel \<Rightarrow> bool \<times> channel" where
  "accept_write s r ch =
     (let r = ensure_write_payload s r in
      if dr_address r \<in> ch_buffered_addrs ch then
        (if has_unresolved_overlapping_read s (ch_ctl ch) r 0 then (False, ch)
         else
           let (r, ch) = take_sequence r ch;
               r = r\<lparr> dr_bypass_dram := True, dr_issued_cycle := ch_clk ch, dr_completion := ch_clk ch + 1 \<rparr>;
               b = (case map_of (ch_buffered ch) (dr_address r) of
                     Some b \<Rightarrow> if dr_has_byte_mask r then merge_write s r b
                               else \<lparr> bw_request = r, bw_byte_sequence = replicate (length (dr_payload r)) (dr_controller_sequence r) \<rparr>
                   | None \<Rightarrow> \<lparr> bw_request = r, bw_byte_sequence = replicate (length (dr_payload r)) (dr_controller_sequence r) \<rparr>);
               ch = count_life (\<lambda>n. n\<lparr> ls_writes := ls_writes n + 1, ls_injected_requests := ls_injected_requests n + 1,
                      ls_write_coalesces := ls_write_coalesces n + 1 \<rparr>) (put_buffered (dr_address r) b ch)
           in (True, push_pending r ch))
      else if \<not> rq_has_space (ct_queues (ch_ctl ch)) QWrite then (False, ch)
      else
        let (r, ch) = take_sequence r ch;
            ch = count_life (\<lambda>n. n\<lparr> ls_writes := ls_writes n + 1, ls_injected_requests := ls_injected_requests n + 1 \<rparr>) ch;
            ch = put_buffered (dr_address r) (fresh_write r) (ch\<lparr> ch_buffered_addrs := insert (dr_address r) (ch_buffered_addrs ch) \<rparr>)
        in (True, push_request QWrite r ch))"

definition accept_maintenance :: "dram_request \<Rightarrow> channel \<Rightarrow> bool \<times> channel" where
  "accept_maintenance r ch =
     (if \<not> rq_has_space (ct_queues (ch_ctl ch)) QPriority then (False, ch)
      else
        let (r, ch) = take_sequence r ch in
        (True, push_request QPriority r (count_life (\<lambda>n. n\<lparr> ls_maintenance_requests := ls_maintenance_requests n + 1 \<rparr>) ch)))"

definition enqueue :: "dram_spec \<Rightarrow> controller_options \<Rightarrow> dram_request \<Rightarrow> channel \<Rightarrow> (bool \<times> channel) result" where
  "enqueue s opt r ch =
     bindR (validate_request s ch r) (\<lambda>_.
       let r = r\<lparr> dr_arrival := ch_clk ch \<rparr>; ch = wake s r ch in
       case dr_type r of
         ReqRead \<Rightarrow> accept_read s opt r ch
       | ReqWrite \<Rightarrow> Inr (accept_write s r ch)
       | ReqMaintenance \<Rightarrow> Inr (accept_maintenance r ch))"

end
