(* ===== verification/Mem_Tick.thy ===== *)
theory Mem_Tick
  imports Mem_Channel
begin

text \<open>
  The clocked half of the channel controller (\<^verbatim>\<open>controller/controller.cpp\<close>): completion and responses,
  the issue of a chosen command, the tick and the loops that run until everything is done.
\<close>

section \<open>Trace\<close>

definition append_issued :: "controller_options \<Rightarrow> dram_request \<Rightarrow> command \<Rightarrow> bus_class \<Rightarrow> channel \<Rightarrow> channel" where
  "append_issued opt r c bus ch =
     (if \<not> co_retain_command_trace opt then ch
      else ch\<lparr> ch_issued := \<lparr> ic_cycle = ch_clk ch, ic_request_id = dr_id r, ic_command = c, ic_bus = bus,
             ic_decoded = dr_decoded r, ic_stack_id = max 0 (dr_target_stack r),
             ic_system_address = (if dr_has_system_address r then dr_system_address r else dr_address r),
             ic_address = dr_address r, ic_payload = [], ic_expected_payload = [], ic_byte_mask = [],
             ic_initialized_mask = [], ic_has_payload = False, ic_has_expected_payload = False,
             ic_has_byte_mask = False, ic_payload_initialized = True \<rparr> # ch_issued ch \<rparr>)"

definition annotate_entry :: "dram_request \<Rightarrow> u8 list \<Rightarrow> u8 list option \<Rightarrow> u8 list option \<Rightarrow> bool \<Rightarrow> issued_command \<Rightarrow> issued_command" where
  "annotate_entry r payload ms init_mask initialized e =
     (let n = length payload;
          e = e\<lparr> ic_address := dr_address r, ic_payload := payload, ic_has_payload := True \<rparr>;
          e = (if dr_type r = ReqRead \<and> dr_has_expected_payload r
               then e\<lparr> ic_expected_payload := dr_expected_payload r, ic_has_expected_payload := True \<rparr> else e);
          e = e\<lparr> ic_payload_initialized := initialized \<rparr>;
          e = (case ms of Some bs \<Rightarrow> e\<lparr> ic_byte_mask := normalize_mask bs n, ic_has_byte_mask := True \<rparr>
               | None \<Rightarrow> e\<lparr> ic_byte_mask := [], ic_has_byte_mask := False \<rparr>)
      in case init_mask of
           Some bs \<Rightarrow> e\<lparr> ic_initialized_mask := (if bs \<noteq> [] then normalize_mask bs n else replicate n (if initialized then 255 else 0)) \<rparr>
         | None \<Rightarrow> e\<lparr> ic_initialized_mask := replicate n (if initialized then 255 else 0) \<rparr>)"

fun annotate_newest :: "dram_request \<Rightarrow> command \<Rightarrow> (issued_command \<Rightarrow> issued_command) \<Rightarrow> issued_command list \<Rightarrow> issued_command list" where
  "annotate_newest r c f [] = []"
| "annotate_newest r c f (e # es) =
     (if ic_request_id e \<noteq> dr_id r \<or> ic_command e \<noteq> c \<or> \<not> meta_data (command_meta_of (ic_command e))
      then e # annotate_newest r c f es else f e # es)"

definition annotate_issued_data :: "controller_options \<Rightarrow> dram_request \<Rightarrow> command \<Rightarrow> u8 list \<Rightarrow> u8 list option \<Rightarrow> u8 list option
    \<Rightarrow> bool \<Rightarrow> channel \<Rightarrow> channel" where
  "annotate_issued_data opt r c payload ms init_mask initialized ch =
     (if \<not> co_retain_command_trace opt then ch
      else ch\<lparr> ch_issued := annotate_newest r c (annotate_entry r payload ms init_mask initialized) (ch_issued ch) \<rparr>)"

section \<open>Completion\<close>

definition response_queue_full :: "controller_options \<Rightarrow> channel \<Rightarrow> bool" where
  "response_queue_full opt ch \<longleftrightarrow>
     co_response_queue_capacity opt \<noteq> 0 \<and> co_response_queue_capacity opt \<le> length (ch_responses ch)"

definition make_response :: "controller_options \<Rightarrow> dram_request \<Rightarrow> u8 list \<Rightarrow> u8 list \<Rightarrow> bool \<Rightarrow> bool \<Rightarrow> bool \<Rightarrow> response_status
    \<Rightarrow> transaction_response" where
  "make_response opt r data init_mask initialized forwarded coalesced status =
     (let count = max 1 (dr_transaction_count r) in
      \<lparr> tr_request_id = dr_id r, tr_host_request_id = dr_host_request_id r, tr_transaction_index = dr_transaction_index r,
        tr_transaction_count = count, tr_type = dr_type r,
        tr_system_address = (if dr_has_system_address r then dr_system_address r else dr_address r),
        tr_local_address = dr_address r, tr_stack = dr_target_stack r,
        tr_channel = (if 0 \<le> dr_target_channel r then dr_target_channel r else co_global_channel_id opt),
        tr_arrival_cycle = dr_arrival r, tr_issued_cycle = dr_issued_cycle r, tr_completion_cycle = dr_completion r,
        tr_data = data, tr_initialized_mask = init_mask, tr_initialized = initialized, tr_ecc_corrected = False,
        tr_ecc_uncorrectable = False, tr_forwarded = forwarded, tr_coalesced = coalesced,
        tr_status = (if dr_transaction_count r = 0 \<or> count \<le> dr_transaction_index r then StatusInvalidTransaction else status) \<rparr>)"

definition check_read_data :: "dram_request \<Rightarrow> u8 list \<Rightarrow> bool \<Rightarrow> response_status" where
  "check_read_data r actual initialized =
     (if \<not> dr_has_expected_payload r then (if initialized then StatusOk else StatusUninitializedData)
      else if actual \<noteq> dr_expected_payload r then StatusDataMismatch
      else if initialized then StatusOk else StatusUninitializedData)"

definition data_command_of :: "command \<Rightarrow> dram_request \<Rightarrow> command" where
  "data_command_of c r = (if dr_issued_data_command r = NOP then c else dr_issued_data_command r)"

text \<open>The data of a completed read: the snapshot of a forwarded one, the image otherwise.\<close>

definition completed_data :: "dram_spec \<Rightarrow> controller_options \<Rightarrow> dram_request \<Rightarrow> memory_image
    \<Rightarrow> ((u8 list \<times> u8 list \<times> bool \<times> bool \<times> bool) \<times> memory_image) result" where
  "completed_data s opt r img =
     (if dr_bypass_dram r then
        Inr ((dr_payload r, dr_byte_mask r, list_all (\<lambda>x. x \<noteq> 0) (dr_byte_mask r), dr_response_ecc_corrected r,
              dr_response_ecc_uncorrectable r), img)
      else
        let storage = storage_decoded_for opt r in
        bindR (image_read (dr_address r) (request_data_size s r) (Some storage) img) (\<lambda>(actual, initialized, after).
        bindR (read_initialized_mask (dr_address r) (length actual) (Some storage) after) (\<lambda>init.
        Inr ((actual, init, initialized,
              ecc_corrected_errors (mi_ecc_counters img) < ecc_corrected_errors (mi_ecc_counters after),
              ecc_uncorrectable_errors (mi_ecc_counters img) < ecc_uncorrectable_errors (mi_ecc_counters after)), after))))"

definition complete_read :: "dram_spec \<Rightarrow> controller_options \<Rightarrow> dram_request \<Rightarrow> channel \<Rightarrow> (transaction_response \<times> channel) result" where
  "complete_read s opt r ch =
     bindR (completed_data s opt r (ch_image ch)) (\<lambda>((actual, init, initialized, corrected, uncorrectable), img).
       let ch = ch\<lparr> ch_image := img \<rparr>;
           c = data_command_of RD r;
           ch = (if dr_bypass_dram r then ch else annotate_issued_data opt r c actual None (Some init) initialized ch);
           status = check_read_data r actual initialized;
           status = (if corrected then merge_response_status status StatusEccCorrected else status);
           status = (if uncorrectable then merge_response_status status StatusEccUncorrectable else status) in
       bindR (if \<not> dr_bypass_dram r \<and> c = RDA then precharge_bank (storage_decoded_for opt r) (ch_clk ch) img else Inr img) (\<lambda>img.
       let t = make_response opt r actual init initialized (dr_bypass_dram r) False status
       in Inr (t\<lparr> tr_ecc_corrected := corrected, tr_ecc_uncorrectable := uncorrectable \<rparr>, ch\<lparr> ch_image := img \<rparr>)))"

definition commit_write_data :: "dram_spec \<Rightarrow> controller_options \<Rightarrow> dram_request \<Rightarrow> channel \<Rightarrow> (dram_request \<times> channel) result" where
  "commit_write_data s opt r ch =
     (let r = ensure_write_payload s r; ms = (if dr_has_byte_mask r then Some (dr_byte_mask r) else None) in
      bindR (image_write (dr_address r) (dr_payload r) ms (Some (storage_decoded_for opt r)) (dr_id r) (ch_clk ch) (ch_image ch)) (\<lambda>img.
      Inr (r\<lparr> dr_data_committed := True \<rparr>,
        annotate_issued_data opt r (data_command_of WR r) (dr_payload r) ms None True (ch\<lparr> ch_image := img \<rparr>))))"

definition complete_write :: "dram_spec \<Rightarrow> controller_options \<Rightarrow> dram_request \<Rightarrow> channel \<Rightarrow> (transaction_response \<times> channel) result" where
  "complete_write s opt r ch =
     (if dr_bypass_dram r then Inr (make_response opt r [] [] True False True StatusOk, ch)
      else
        bindR (if \<not> dr_data_committed r then commit_write_data s opt r ch else Inr (r, ch)) (\<lambda>(r, ch).
        bindR (if data_command_of WR r = WRA then precharge_bank (storage_decoded_for opt r) (ch_clk ch) (ch_image ch)
               else Inr (ch_image ch)) (\<lambda>img.
        Inr (make_response opt r [] [] True False False StatusOk, ch\<lparr> ch_image := img \<rparr>))))"

definition push_response :: "controller_options \<Rightarrow> transaction_response \<Rightarrow> channel \<Rightarrow> channel" where
  "push_response opt t ch = (if co_retain_responses opt then ch\<lparr> ch_responses := ch_responses ch @ [t] \<rparr> else ch)"

definition complete_request :: "dram_spec \<Rightarrow> controller_options \<Rightarrow> dram_request \<Rightarrow> channel \<Rightarrow> channel result" where
  "complete_request s opt r ch =
     (case dr_type r of
        ReqRead \<Rightarrow>
          let ch = count_life (\<lambda>n. n\<lparr> ls_completed_reads := ls_completed_reads n + 1,
                ls_total_read_latency := ls_total_read_latency n + (dr_completion r - dr_arrival r) \<rparr>) ch in
          bindR (complete_read s opt r ch) (\<lambda>(t, ch). Inr (push_response opt t ch))
      | ReqWrite \<Rightarrow>
          let ch = count_life (\<lambda>n. n\<lparr> ls_completed_writes := ls_completed_writes n + 1 \<rparr>) ch in
          bindR (complete_write s opt r ch) (\<lambda>(t, ch). Inr (push_response opt t ch))
      | ReqMaintenance \<Rightarrow> Inr ch)"

text \<open>The requests that stay pending, and the channel after the completion of the others.\<close>

fun complete_loop :: "dram_spec \<Rightarrow> controller_options \<Rightarrow> dram_request list \<Rightarrow> channel \<Rightarrow> (dram_request list \<times> channel) result" where
  "complete_loop s opt [] ch = Inr ([], ch)"
| "complete_loop s opt (r # rs) ch =
     (if ch_clk ch < dr_completion r \<or> co_retain_responses opt \<and> response_queue_full opt ch
      then bindR (complete_loop s opt rs ch) (\<lambda>(kept, ch). Inr (r # kept, ch))
      else bindR (complete_request s opt r ch) (complete_loop s opt rs))"

definition complete_pending :: "dram_spec \<Rightarrow> controller_options \<Rightarrow> channel \<Rightarrow> channel result" where
  "complete_pending s opt ch =
     bindR (complete_loop s opt (ct_pending (ch_ctl ch)) ch) (\<lambda>(kept, ch). Inr (on_ctl (\<lambda>k. k\<lparr> ct_pending := kept \<rparr>) ch))"

definition front_response :: "channel \<Rightarrow> transaction_response result" where
  "front_response ch =
     (case ch_responses ch of [] \<Rightarrow> Inl (LogicError ''Controller response queue is empty'') | t # _ \<Rightarrow> Inr t)"

definition pop_response :: "channel \<Rightarrow> (transaction_response \<times> channel) result" where
  "pop_response ch =
     (case ch_responses ch of [] \<Rightarrow> Inl (LogicError ''Controller response queue is empty'')
      | t # ts \<Rightarrow> Inr (t, ch\<lparr> ch_responses := ts \<rparr>))"

section \<open>Issue\<close>

definition apply_storage_command_event :: "controller_options \<Rightarrow> dram_request \<Rightarrow> command \<Rightarrow> channel \<Rightarrow> channel result" where
  "apply_storage_command_event opt r c ch =
     (let d = storage_decoded_for opt r; m = ch_image ch; clk = ch_clk ch in
      bindR (validate_decoded_address m d) (\<lambda>_.
      bindR (if c = ACT \<or> c = ACT2 then activate_row d clk m
             else if c = PRE \<or> c = PREPB then precharge_bank d clk m
             else if c = PREAB \<or> c = REFAB \<or> c = RFMAB \<or> c = SREFEN then precharge_all d clk m
             else if c = REFPB \<or> c = REFDB \<or> c = RFMPB then precharge_bank d clk m
             else Inr m) (\<lambda>m.
      Inr (ch\<lparr> ch_image := m \<rparr>))))"

text \<open>The flags of the explicit low-power states.\<close>

definition low_power_flags :: "command \<Rightarrow> controller \<Rightarrow> controller" where
  "low_power_flags c k =
     (if c = PDE then k\<lparr> ct_explicit_power_down := True, ct_low_power_active := True \<rparr>
      else if c = PDX then
        k\<lparr> ct_explicit_power_down := False,
           ct_exit_pending := (if ct_exit_pending k = Some PDX then None else ct_exit_pending k),
           ct_low_power_active := ct_explicit_self_refresh k \<rparr>
      else if c = SREFEN then k\<lparr> ct_explicit_self_refresh := True, ct_low_power_active := True \<rparr>
      else if c = SREFEX then
        k\<lparr> ct_explicit_self_refresh := False,
           ct_exit_pending := (if ct_exit_pending k = Some SREFEX then None else ct_exit_pending k),
           ct_low_power_active := ct_explicit_power_down k \<rparr>
      else k)"

definition training_debt :: "dram_spec \<Rightarrow> command \<Rightarrow> controller \<Rightarrow> controller" where
  "training_debt s c k =
     (if c = DVFS \<and> lpddr_requires_wck_retrain_after_dvfs s then k\<lparr> ct_wck_retrain_required := True \<rparr>
      else if c = WCKTRAIN then k\<lparr> ct_wck_retrain_required := False \<rparr> else k)"

text \<open>The data command of a request sends it to the pending list; a write takes the merged data of its address with it.\<close>

definition merged_request :: "buffered_write option \<Rightarrow> dram_request \<Rightarrow> dram_request" where
  "merged_request b r =
     (case b of None \<Rightarrow> r
      | Some b \<Rightarrow> r\<lparr> dr_payload := dr_payload (bw_request b), dr_expected_payload := dr_expected_payload (bw_request b),
          dr_byte_mask := dr_byte_mask (bw_request b), dr_has_payload := dr_has_payload (bw_request b),
          dr_has_expected_payload := dr_has_expected_payload (bw_request b), dr_has_byte_mask := dr_has_byte_mask (bw_request b) \<rparr>)"

definition completion_cycle :: "dram_spec \<Rightarrow> command \<Rightarrow> nat \<Rightarrow> nat" where
  "completion_cycle s c clk =
     (let base = (if c = RD \<or> c = RDA then clk + timing_delay s (read_latency (timing_of s)) else clk + 1) in
      if c = RDA then max base (clk + timing_delay s (max 0 (nRTP (timing_of s))))
      else if c = WRA then max base (clk + timing_delay s (nCWL (timing_of s) + nBL (timing_of s) + nWR (timing_of s)))
      else base)"

definition retire_data :: "dram_spec \<Rightarrow> controller_options \<Rightarrow> chosen \<Rightarrow> command \<Rightarrow> dram_request \<Rightarrow> channel \<Rightarrow> channel result" where
  "retire_data s opt c issued r ch =
     (let r = r\<lparr> dr_issued_data_command := issued, dr_issued_cycle := ch_clk ch \<rparr> in
      bindR (if dr_type r = ReqWrite then
          let r = merged_request (map_of (ch_buffered ch) (dr_address r)) r;
              ch = ch\<lparr> ch_buffered := AList.delete (dr_address r) (ch_buffered ch),
                       ch_buffered_addrs := ch_buffered_addrs ch - {dr_address r} \<rparr>
          in commit_write_data s opt r ch
        else Inr (r, ch)) (\<lambda>(r, ch).
      let r = r\<lparr> dr_completion := completion_cycle s issued (ch_clk ch) \<rparr>; ch = push_pending r ch in
      bindR (rq_erase s (cd_buffer c) (cd_index c) (ct_queues (ch_ctl ch))) (\<lambda>q.
      Inr (on_ctl (\<lambda>k. k\<lparr> ct_queues := q \<rparr>) ch))))"

definition retire_or_advance :: "dram_spec \<Rightarrow> controller_options \<Rightarrow> chosen \<Rightarrow> command \<Rightarrow> channel \<Rightarrow> channel result" where
  "retire_or_advance s opt c issued ch =
     (let buffer = ch_queue ch (cd_buffer c); r = buffer ! cd_index c; queues = ct_queues (ch_ctl ch) in
      if length buffer \<le> cd_index c then Inr ch
      else if is_maintenance r \<and> issued = dr_next r then
        bindR (rq_erase s (cd_buffer c) (cd_index c) queues) (\<lambda>q.
        Inr (on_ctl (\<lambda>k. k\<lparr> ct_queues := q \<rparr>) (count_life (\<lambda>n. n\<lparr> ls_maintenance_served := ls_maintenance_served n + 1 \<rparr>) ch)))
      else if meta_opening (command_meta_of issued) \<and> \<not> is_maintenance r \<and> cd_buffer c \<noteq> QActive then
        bindR (rq_promote s (cd_buffer c) (cd_index c) queues) (\<lambda>(_, q). Inr (on_ctl (\<lambda>k. k\<lparr> ct_queues := q \<rparr>) ch))
      else if \<not> meta_data (command_meta_of issued) then Inr ch
      else retire_data s opt c issued r ch)"

text \<open>The executor works on the request in its queue.\<close>

definition execute :: "dram_spec \<Rightarrow> chosen \<Rightarrow> dram_request \<Rightarrow> channel \<Rightarrow> channel" where
  "execute s c r ch =
     (let (r, rfm, x) = exec_issue s r (cd_command c) (ch_clk ch) (ct_exec (ch_ctl ch));
          ch = on_ctl (\<lambda>k. put_queue (cd_buffer c) ((rq_queues (ct_queues k) (cd_buffer c))[cd_index c := r]) (k\<lparr> ct_exec := x \<rparr>)) ch
      in case rfm of None \<Rightarrow> ch | Some (m, d) \<Rightarrow> schedule_maintenance m d ch)"

definition issue_command :: "dram_spec \<Rightarrow> controller_options \<Rightarrow> chosen \<Rightarrow> channel \<Rightarrow> channel result" where
  "issue_command s opt c ch =
     (let buffer = ch_queue ch (cd_buffer c); r = buffer ! cd_index c; issued = cd_command c in
      if length buffer \<le> cd_index c then Inr ch
      else
        let ch = append_issued opt r issued (cd_bus c) ch;
            r = (if is_maintenance r then r else r\<lparr> dr_row_status_counted := True \<rparr>) in
        bindR (apply_storage_command_event opt r issued ch) (\<lambda>ch.
        let ch = execute s c r ch;
            ch = on_ctl (low_power_flags issued \<circ> training_debt s issued) ch;
            ch = on_ctl (\<lambda>k. k\<lparr> ct_row_policy :=
                   row_policy_issue (co_row_policy opt) (flat_bank s (dr_decoded r)) issued (ct_row_policy k) \<rparr>) ch;
            ch = on_ctl (\<lambda>k. if hbm_edge_pairing s \<and> cd_bus c = BusRow \<and> is_rising_edge k
                   then record_rising_row_command s r issued k else k) ch
        in retire_or_advance s opt c issued ch))"

section \<open>The tick\<close>

text \<open>One command bus: choose, upgrade and issue.\<close>

definition serve_bus :: "dram_spec \<Rightarrow> controller_options \<Rightarrow> bus_class \<Rightarrow> channel \<Rightarrow> channel result" where
  "serve_bus s opt bus ch =
     bindR (choose_command s opt (ch_ctl ch) bus) (\<lambda>(c, k).
       let ch = on_ctl (\<lambda>_. k) ch in
       case c of None \<Rightarrow> Inr ch | Some c \<Rightarrow> issue_command s opt (try_upgrade s opt k c) ch)"

definition serve_buses :: "dram_spec \<Rightarrow> controller_options \<Rightarrow> channel \<Rightarrow> channel result" where
  "serve_buses s opt ch =
     (if dual_command_bus s then
        bindR (if \<not> hbm_edge_pairing s \<or> is_rising_edge (ch_ctl ch) then serve_bus s opt BusColumn ch else Inr ch) (serve_bus s opt BusRow)
      else serve_bus s opt BusUnified ch)"

definition low_power_step :: "dram_spec \<Rightarrow> channel \<Rightarrow> channel" where
  "low_power_step s ch =
     (if low_power_mode s = LowPowerOff then ch
      else if channel_done ch then
        let ch = (if ch_idle_since ch = 0 then ch\<lparr> ch_idle_since := ch_clk ch \<rparr> else ch) in
        if \<not> ct_low_power_active (ch_ctl ch) \<and> timing_delay s (max 0 (low_power_entry_cycles s)) \<le> ch_clk ch - ch_idle_since ch
        then on_ctl (\<lambda>k. k\<lparr> ct_low_power_active := True \<rparr>) ch else ch
      else ch\<lparr> ch_idle_since := 0 \<rparr>)"

definition tick_schedule :: "dram_spec \<Rightarrow> controller_options \<Rightarrow> channel \<Rightarrow> channel result" where
  "tick_schedule s opt ch =
     bindR (serve_buses s opt (apply_row_policy_pre_schedule s opt (service_pending_maintenance ch))) (\<lambda>ch.
     Inr (low_power_step s ch))"

definition prune_engine :: "dram_spec \<Rightarrow> controller \<Rightarrow> controller" where
  "prune_engine s k = k\<lparr> ct_exec := (ct_exec k)\<lparr> ex_engine := prune_recent_acts s (ct_clk k) (ct_engine k) \<rparr> \<rparr>"

text \<open>\<^const>\<open>None\<close> would be a refresh manager that does not return.\<close>

definition tick :: "dram_spec \<Rightarrow> controller_options \<Rightarrow> channel \<Rightarrow> channel result option" where
  "tick s opt ch =
     (case complete_pending s opt (on_ctl (\<lambda>k. k\<lparr> ct_clk := ct_clk k + 1 \<rparr>) ch) of
        Inl e \<Rightarrow> Some (Inl e)
      | Inr ch \<Rightarrow>
          if ch_clk ch < ch_exit_until ch then Some (Inr ch)
          else map_option (\<lambda>r. bindR r (tick_schedule s opt)) (schedule_refresh s (on_ctl (prune_engine s) ch)))"

definition flush_storage :: "channel \<Rightarrow> channel result" where
  "flush_storage ch = bindR (flush_dirty_row_buffers (ch_clk ch) (ch_image ch)) (\<lambda>m. Inr (ch\<lparr> ch_image := m \<rparr>))"

partial_function (option) run_until_done :: "dram_spec \<Rightarrow> controller_options \<Rightarrow> nat \<Rightarrow> channel \<Rightarrow> channel result option" where
  "run_until_done s opt limit ch =
     (if channel_done ch \<or> limit \<le> ch_clk ch then Some (flush_storage ch)
      else Option.bind (tick s opt ch) (\<lambda>r. case r of Inl e \<Rightarrow> Some (Inl e) | Inr ch \<Rightarrow> run_until_done s opt limit ch))"

end
