(* ===== verification/Mem_Protocol.thy ===== *)
theory Mem_Protocol
  imports Mem_Controller
begin

text \<open>
  What the gates guarantee on the banks. The controller is a step relation: it issues an admitted command
  or does something that leaves the banks and the timing table alone while time passes. Over every run the bank states stay
  well formed, the history of commands is a legal trace of the abstract bank protocol, and the bank-level
  timing parameters hold between every two commands that meet in a bank.
\<close>

section \<open>Steps and runs\<close>

type_synonym issued = "command \<times> decoded_address \<times> nat"

inductive dram_step :: "dram_spec \<Rightarrow> controller \<Rightarrow> issued option \<Rightarrow> controller \<Rightarrow> bool" for s where
  dram_wait: "ct_banks k' = ct_banks k \<Longrightarrow> ct_engine k' = ct_engine k \<or> ct_engine k' = prune_recent_acts s (ct_clk k') (ct_engine k)
    \<Longrightarrow> ct_clk k \<le> ct_clk k' \<Longrightarrow> dram_step s k None k'"
| dram_issue: "timing_ok s k r c \<Longrightarrow> dr_decoded r \<in> coordinates s \<Longrightarrow> exec_issue s r c (ct_clk k) (ct_exec k) = (r', m, ct_exec k')
    \<Longrightarrow> ct_clk k' = ct_clk k \<Longrightarrow> dram_step s k (Some (c, dr_decoded r, ct_clk k)) k'"

inductive_cases dram_waitE: "dram_step s k None k'"
inductive_cases dram_issueE: "dram_step s k (Some q) k'"

text \<open>The history of a run, newest command first.\<close>

inductive dram_run :: "dram_spec \<Rightarrow> controller \<Rightarrow> issued list \<Rightarrow> controller \<Rightarrow> bool" for s k0 where
  run_start: "dram_run s k0 [] k0"
| run_wait: "dram_run s k0 h k \<Longrightarrow> dram_step s k None k' \<Longrightarrow> dram_run s k0 h k'"
| run_issue: "dram_run s k0 h k \<Longrightarrow> dram_step s k (Some q) k' \<Longrightarrow> dram_run s k0 (q # h) k'"

section \<open>The effect on one bank\<close>

definition in_rank :: "dram_spec \<Rightarrow> decoded_address \<Rightarrow> nat \<Rightarrow> bool" where
  "in_rank s d i \<longleftrightarrow> fst (rank_bank_range s (nat (bank_total s)) d) \<le> int i \<and> int i < snd (rank_bank_range s (nat (bank_total s)) d)"

text \<open>The banks a command acts on.\<close>

fun touches :: "dram_spec \<Rightarrow> command \<Rightarrow> decoded_address \<Rightarrow> nat \<Rightarrow> bool" where
  "touches s PREAB d i = in_rank s d i"
| "touches s REFAB d i = in_rank s d i"
| "touches s RFMAB d i = in_rank s d i"
| "touches s REFDB d i = (i = nat (flat_bank s d) \<or> i = nat (flat_bank s (lpddr_refdb_partner s d)))"
| "touches s _ d i = (i = nat (flat_bank s d))"

fun bank_step :: "dram_spec \<Rightarrow> command \<Rightarrow> decoded_address \<Rightarrow> nat \<Rightarrow> nat \<Rightarrow> bank_state \<Rightarrow> bank_state" where
  "bank_step s PREAB d clk i b = b\<lparr> bk_open_row := -1, bk_activating := False, bk_next_act := max (bk_next_act b) (clk + preab_delay s) \<rparr>"
| "bank_step s REFAB d clk i b = delay_act (clk + timing_delay s (nRFC (timing_of s))) b"
| "bank_step s RFMAB d clk i b = delay_act (clk + rfmab_delay s) b"
| "bank_step s REFDB d clk i b =
     (let b = (if i = nat (flat_bank s d) then bank_effect s REFDB (da_row d) clk b else b)
      in if i = nat (flat_bank s (lpddr_refdb_partner s d)) then delay_act (clk + timing_delay s (nRFCpb (timing_of s))) b else b)"
| "bank_step s c d clk i b = bank_effect s c (da_row d) clk b"

definition banks_shaped :: "dram_spec \<Rightarrow> bank_state list \<Rightarrow> bool" where
  "banks_shaped s bs \<longleftrightarrow> int (length bs) = bank_total s"

lemma flat_less:
  assumes "banks_shaped s bs" "d \<in> coordinates s"
  shows "nat (flat_bank s d) < length bs"
proof -
  have "int (length bs) = bank_total s" using assms(1) by (simp add: banks_shaped_def)
  with flat_bank_range [OF assms(2)] show ?thesis by linarith
qed

lemma partner_in_range: "d \<in> coordinates s \<Longrightarrow> lpddr_refdb_partner s d \<in> coordinates s"
  by (auto simp: lpddr_refdb_partner_def coordinates_def flip_low_def Let_def max_def elim!: oddE evenE)

lemma length_issue_banks [simp]: "length (issue_banks s c d clk bs) = length bs"
  by (simp add: issue_banks_def Let_def close_rank_banks_def gate_rank_banks_after_def split: command.split)

lemma nth_map_rank:
  assumes "banks_shaped s bs" "i < length bs"
  shows "map_range (rank_bank_range s (length bs) d) f bs ! i = (if in_rank s d i then f (bs ! i) else bs ! i)"
proof -
  have n: "nat (bank_total s) = length bs" using assms(1) by (simp add: banks_shaped_def flip: of_nat_eq_iff)
  obtain a b where ab: "rank_bank_range s (length bs) d = (a, b)" by fastforce
  show ?thesis using nth_map_range [OF assms(2), of a b f] ab by (simp add: in_rank_def n)
qed

lemma nth_issue_banks:
  assumes "banks_shaped s bs" "d \<in> coordinates s" "i < length bs"
  shows "issue_banks s c d clk bs ! i = (if touches s c d i then bank_step s c d clk i (bs ! i) else bs ! i)"
proof -
  note less = flat_less [OF assms(1,2)]
  show ?thesis
    using less assms(3) nth_map_rank [OF assms(1,3)]
    by (cases c) (auto simp: issue_banks_def Let_def close_rank_banks_def gate_rank_banks_after_def delay_act_def nth_list_update)
qed

section \<open>Admission, seen from one bank\<close>

datatype bank_mode = BankIdle | BankOpening | BankOpen int

definition mode_of :: "bank_state \<Rightarrow> bank_mode" where
  "mode_of b = (if bk_activating b then BankOpening else if 0 \<le> bk_open_row b then BankOpen (bk_open_row b) else BankIdle)"

lemma mode_of_iff:
  "mode_of b = BankIdle \<longleftrightarrow> \<not> bk_activating b \<and> bk_open_row b < 0"
  "mode_of b = BankOpening \<longleftrightarrow> bk_activating b"
  "mode_of b = BankOpen r \<longleftrightarrow> \<not> bk_activating b \<and> bk_open_row b = r \<and> 0 \<le> r"
  "bank_busy b \<longleftrightarrow> mode_of b \<noteq> BankIdle"
  by (auto simp: mode_of_def bank_busy_def)

text \<open>The commands gated by the activate time of a bank.\<close>

definition act_gated :: "command \<Rightarrow> bool" where
  "act_gated c \<longleftrightarrow> c \<in> {ACT, ACT1, REFPB, REFDB, RFMPB}"

fun legal_mode :: "command \<Rightarrow> int \<Rightarrow> bank_mode \<Rightarrow> bool" where
  "legal_mode ACT row m = (m = BankIdle)"
| "legal_mode ACT1 row m = (m = BankIdle)"
| "legal_mode ACT2 row m = (m = BankOpening)"
| "legal_mode PRE row m = (m \<noteq> BankIdle \<and> m \<noteq> BankOpening)"
| "legal_mode PREPB row m = (m \<noteq> BankIdle \<and> m \<noteq> BankOpening)"
| "legal_mode CASRD row m = (m = BankOpen row)"
| "legal_mode CASWR row m = (m = BankOpen row)"
| "legal_mode RD row m = (m = BankOpen row)"
| "legal_mode RDA row m = (m = BankOpen row)"
| "legal_mode WR row m = (m = BankOpen row)"
| "legal_mode WRA row m = (m = BankOpen row)"
| "legal_mode REFPB row m = (m = BankIdle)"
| "legal_mode REFDB row m = (m = BankIdle)"
| "legal_mode RFMPB row m = (m = BankIdle)"
| "legal_mode REFAB row m = (m = BankIdle)"
| "legal_mode RFMAB row m = (m = BankIdle)"
| "legal_mode _ row m = True"

definition bank_gate :: "command \<Rightarrow> bank_state \<Rightarrow> nat" where
  "bank_gate c b =
     (if act_gated c then bk_next_act b
      else if c = ACT2 then bk_next_act2 b
      else if c = RD \<or> c = RDA then max (bk_next_rd b) (bk_next_any_col b)
      else if c = WR \<or> c = WRA then max (bk_next_wr b) (bk_next_any_col b)
      else if c = PRE \<or> c = PREPB then bk_next_pre b else 0)"

definition admits :: "command \<Rightarrow> int \<Rightarrow> nat \<Rightarrow> bank_state \<Rightarrow> bool" where
  "admits c row clk b \<longleftrightarrow> legal_mode c row (mode_of b) \<and> bank_gate c b \<le> clk"

lemma any_in_range_nth:
  assumes "\<not> any_in_range P (a, b) bs" "a \<le> int i" "int i < b" "i < length bs"
  shows "\<not> P (bs ! i)"
proof -
  have i: "nat a \<le> i" "i < nat b" using assms(2,3) by linarith+
  then have "bs ! i = drop (nat a) (take (nat b) bs) ! (i - nat a)" "i - nat a < length (drop (nat a) (take (nat b) bs))"
    using assms(4) by simp_all
  then have "bs ! i \<in> set (drop (nat a) (take (nat b) bs))" by (metis nth_mem)
  with assms(1) show ?thesis by (auto simp: any_in_range_def list_ex_iff)
qed

lemma idle_rank:
  assumes "banks_shaped s (ct_banks k)" "\<not> any_bank_busy_in_rank s k d" "in_rank s d i" "i < length (ct_banks k)"
  shows "mode_of (ct_banks k ! i) = BankIdle"
proof -
  have n: "nat (bank_total s) = length (ct_banks k)" using assms(1) by (simp add: banks_shaped_def flip: of_nat_eq_iff)
  obtain a b where ab: "rank_bank_range s (length (ct_banks k)) d = (a, b)" by fastforce
  have "\<not> bank_busy (ct_banks k ! i)"
    using assms(2-4) ab by (intro any_in_range_nth [of bank_busy a b]) (simp_all add: any_bank_busy_in_rank_def in_rank_def n)
  then show ?thesis by (simp add: mode_of_iff)
qed

lemma timing_ok_admits:
  assumes shape: "banks_shaped s (ct_banks k)" and d: "dr_decoded r \<in> coordinates s" and ok: "timing_ok s k r c"
    and i: "touches s c (dr_decoded r) i" "i < length (ct_banks k)"
  shows "admits c (da_row (dr_decoded r)) (ct_clk k) (ct_banks k ! i)"
proof -
  have st: "check_command_state (command_snapshot s k r c) c" and g: "local_gates s k r c"
    using ok by (auto simp: timing_ok_def state_ok_def split: if_splits)
  have row: "0 \<le> da_row (dr_decoded r)" using d by (auto simp: coordinates_def)
  note idle = idle_rank [OF shape _ _ i(2)]
  show ?thesis
    using st g i(1) row idle
    by (cases c) (auto simp: command_snapshot_def protocol_state_of_def local_gates_def ct_bank_def bank_at_def Let_def admits_def
      bank_gate_def act_gated_def mode_of_iff dual_bank_target_idle_def split: if_splits)
qed

section \<open>Well-formed banks\<close>

definition bank_typed :: "dram_spec \<Rightarrow> bank_state \<Rightarrow> bool" where
  "bank_typed s b \<longleftrightarrow> -1 \<le> bk_open_row b \<and> bk_open_row b < org_rows (org s) \<and> (bk_activating b \<longrightarrow> bk_open_row b = -1)
     \<and> (bk_act2_deadline b \<noteq> 0 \<longrightarrow> bk_next_act2 b \<le> bk_act2_deadline b)"

definition banks_typed :: "dram_spec \<Rightarrow> bank_state list \<Rightarrow> bool" where
  "banks_typed s bs \<longleftrightarrow> banks_shaped s bs \<and> list_all (bank_typed s) bs"

fun next_mode :: "command \<Rightarrow> int \<Rightarrow> bank_mode \<Rightarrow> bank_mode" where
  "next_mode ACT row m = BankOpen row"
| "next_mode ACT1 row m = BankOpening"
| "next_mode ACT2 row m = BankOpen row"
| "next_mode PRE row m = BankIdle"
| "next_mode PREPB row m = BankIdle"
| "next_mode PREAB row m = BankIdle"
| "next_mode RDA row m = BankIdle"
| "next_mode WRA row m = BankIdle"
| "next_mode _ row m = m"

lemma bank_step_mode:
  assumes "admits c (da_row d) clk b" "0 \<le> da_row d"
  shows "mode_of (bank_step s c d clk i b) = next_mode c (da_row d) (mode_of b)"
  using assms by (cases c) (auto simp: admits_def mode_of_def delay_act_def Let_def split: if_splits)

lemma timing_delay_max: "timing_delay s a \<le> timing_delay s (max a b)"
  by (rule timing_delay_mono) simp

lemma bank_step_typed:
  assumes "bank_typed s b" "admits c (da_row d) clk b" "0 \<le> da_row d" "da_row d < org_rows (org s)"
    and split: "c = ACT1 \<Longrightarrow> 0 < nAADMin (timing_of s)"
  shows "bank_typed s (bank_step s c d clk i b)"
proof -
  have win: "timing_delay s (max 1 (nAADMin (timing_of s))) \<le> timing_delay s (max (nAADMin (timing_of s)) (nAADMax (timing_of s)))"
    if "c = ACT1" using split [OF that] by (intro timing_delay_mono) simp
  show ?thesis
    using assms(1-4) win by (cases c) (auto simp: bank_typed_def admits_def mode_of_iff delay_act_def Let_def split: if_splits)
qed

section \<open>Timing between two commands of a bank\<close>

definition activates :: "command \<Rightarrow> bool" where
  "activates c \<longleftrightarrow> c = ACT \<or> c = ACT1"

definition precharges :: "command \<Rightarrow> bool" where
  "precharges c \<longleftrightarrow> c = PRE \<or> c = PREPB"

text \<open>
  The ticks from a command to a later activate, per-bank refresh or per-bank mitigation of the bank. The
  flag says that the bank was precharged alone in between: the executor then replaces what is left of
  \<^verbatim>\<open>nRC\<close> by \<^verbatim>\<open>nRP\<close>, so that only \<^verbatim>\<open>nRAS + nRP\<close> remains of it.
\<close>

fun act_delay :: "dram_spec \<Rightarrow> bool \<Rightarrow> command \<Rightarrow> nat" where
  "act_delay s p ACT =
     (if p then timing_delay s (nRAS (timing_of s)) + timing_delay s (nRP (timing_of s)) else timing_delay s (nRC (timing_of s)))"
| "act_delay s p ACT1 =
     (if p then timing_delay s (nRAS (timing_of s)) + timing_delay s (nRP (timing_of s)) else timing_delay s (nRC (timing_of s)))"
| "act_delay s p PRE = timing_delay s (nRP (timing_of s))"
| "act_delay s p PREPB = timing_delay s (nRP (timing_of s))"
| "act_delay s p PREAB = preab_delay s"
| "act_delay s p RDA = timing_delay s (nRTP (timing_of s)) + timing_delay s (nRP (timing_of s))"
| "act_delay s p WRA = write_recovery s + timing_delay s (nRP (timing_of s))"
| "act_delay s p REFPB = timing_delay s (nRFCpb (timing_of s))"
| "act_delay s p REFDB = timing_delay s (nRFCpb (timing_of s))"
| "act_delay s p RFMPB = rfmpb_delay s"
| "act_delay s p REFAB = timing_delay s (nRFC (timing_of s))"
| "act_delay s p RFMAB = rfmab_delay s"
| "act_delay s p _ = 0"

text \<open>To the precharge of the row that was accessed.\<close>

fun column_recovery :: "dram_spec \<Rightarrow> command \<Rightarrow> nat" where
  "column_recovery s RD = timing_delay s (nRTP (timing_of s))"
| "column_recovery s RDA = timing_delay s (nRTP (timing_of s))"
| "column_recovery s WR = write_recovery s"
| "column_recovery s WRA = write_recovery s"
| "column_recovery s _ = 0"

definition accesses :: "command \<Rightarrow> bool" where
  "accesses c \<longleftrightarrow> c = RD \<or> c = RDA \<or> c = WR \<or> c = WRA"

definition delay_after :: "dram_spec \<Rightarrow> bool \<Rightarrow> bool \<Rightarrow> command \<Rightarrow> command \<Rightarrow> nat" where
  "delay_after s p a c0 c =
     (if act_gated c then act_delay s p c0
      else if c = ACT2 then (if c0 = ACT1 then timing_delay s (max 1 (nAADMin (timing_of s))) else 0)
      else if accesses c then
        (if accesses c0 then timing_delay s (nCCDL (timing_of s))
         else if \<not> activates c0 then 0
         else if c = RD \<or> c = RDA then timing_delay s (nRCDRD (timing_of s)) else timing_delay s (nRCDWR (timing_of s)))
      else if precharges c then
        (if activates c0 then timing_delay s (nRAS (timing_of s)) else if a then 0 else column_recovery s c0)
      else 0)"

text \<open>What happened to a bank in a part of the history.\<close>

definition precharged :: "dram_spec \<Rightarrow> nat \<Rightarrow> issued list \<Rightarrow> bool" where
  "precharged s i h \<longleftrightarrow> list_ex (\<lambda>(c, d, t). precharges c \<and> touches s c d i) h"

definition reactivated :: "dram_spec \<Rightarrow> nat \<Rightarrow> issued list \<Rightarrow> bool" where
  "reactivated s i h \<longleftrightarrow> list_ex (\<lambda>(c, d, t). activates c \<and> touches s c d i) h"

text \<open>
  The least number of ticks between a command and a later one in the same bank: activate to activate
  (\<^verbatim>\<open>nRC\<close>, or \<^verbatim>\<open>nRAS + nRP\<close> around a precharge), to its second half (\<^verbatim>\<open>nAADMin\<close>), to read, write and
  precharge (\<^verbatim>\<open>nRCDRD\<close>, \<^verbatim>\<open>nRCDWR\<close>, \<^verbatim>\<open>nRAS\<close>); data command to data command (\<^verbatim>\<open>nCCDL\<close>); read and write
  to the precharge of the row they accessed (\<^verbatim>\<open>nRTP\<close>, write recovery); whatever closes, refreshes or
  mitigates a bank to its next activation, refresh or mitigation. It depends on the commands in
  between: a precharge of the bank alone and a new activation. A precharge-all waits for none of it.
\<close>

definition required_delay :: "dram_spec \<Rightarrow> nat \<Rightarrow> issued list \<Rightarrow> command \<Rightarrow> command \<Rightarrow> nat" where
  "required_delay s i between c0 c = delay_after s (precharged s i between) (reactivated s i between) c0 c"

text \<open>The gates of a bank cover a past command: each delay it asks for is over or still gated.\<close>

definition covered :: "dram_spec \<Rightarrow> nat \<Rightarrow> bank_state \<Rightarrow> bool \<Rightarrow> bool \<Rightarrow> command \<Rightarrow> nat \<Rightarrow> bool" where
  "covered s now b p a c0 t0 \<longleftrightarrow> t0 \<le> now
     \<and> t0 + act_delay s p c0 \<le> max now (bk_next_act b)
     \<and> (c0 = ACT1 \<longrightarrow> t0 + timing_delay s (max 1 (nAADMin (timing_of s))) \<le> max now (bk_next_act2 b))
     \<and> (activates c0 \<longrightarrow> t0 + timing_delay s (nRCDRD (timing_of s)) \<le> max now (bk_next_rd b)
          \<and> t0 + timing_delay s (nRCDWR (timing_of s)) \<le> max now (bk_next_wr b)
          \<and> t0 + timing_delay s (nRAS (timing_of s)) \<le> max now (bk_next_pre b))
     \<and> (accesses c0 \<longrightarrow> t0 + timing_delay s (nCCDL (timing_of s)) \<le> max now (bk_next_any_col b))
     \<and> (accesses c0 \<and> \<not> a \<longrightarrow> t0 + column_recovery s c0 \<le> max now (bk_next_pre b))
     \<and> (mode_of b \<noteq> BankIdle \<and> \<not> activates c0 \<longrightarrow> t0 + act_delay s p c0 \<le> now)"

lemmas command_classes = act_gated_def activates_def precharges_def accesses_def

lemma recovery_none: "\<not> accesses c0 \<Longrightarrow> column_recovery s c0 = 0"
  by (cases c0) (simp_all add: accesses_def)

lemma covered_admitted:
  assumes "covered s now b p a c0 t0" "now \<le> clk" "admits c row clk b"
  shows "t0 + delay_after s p a c0 c \<le> clk"
proof -
  have gate: "bank_gate c b \<le> clk" using assms(3) by (simp add: admits_def)
  note cov = assms(1) [unfolded covered_def]
  have fin: "x \<le> clk" if "x \<le> max now g" "g \<le> clk" for x g using that assms(2) by (auto simp: le_max_iff_disj)
  have "t0 \<le> now" using cov by blast
  with assms(2) have t0: "t0 \<le> clk" by simp
  consider (act) "act_gated c" | (second) "c = ACT2" | (data) "accesses c" | (closes) "precharges c"
    | (other) "\<not> act_gated c" "c \<noteq> ACT2" "\<not> accesses c" "\<not> precharges c" by blast
  then show ?thesis
  proof cases
    case act
    with gate have "bk_next_act b \<le> clk" by (simp add: bank_gate_def)
    with cov fin have "t0 + act_delay s p c0 \<le> clk" by blast
    with act show ?thesis by (simp add: delay_after_def)
  next
    case second
    with gate have "bk_next_act2 b \<le> clk" by (simp add: bank_gate_def act_gated_def)
    with cov fin have "c0 = ACT1 \<longrightarrow> t0 + timing_delay s (max 1 (nAADMin (timing_of s))) \<le> clk" by blast
    with second t0 show ?thesis by (simp add: delay_after_def act_gated_def)
  next
    case data
    with gate have "bk_next_any_col b \<le> clk" "c = RD \<or> c = RDA \<longrightarrow> bk_next_rd b \<le> clk"
      "c = WR \<or> c = WRA \<longrightarrow> bk_next_wr b \<le> clk"
      by (auto simp: bank_gate_def act_gated_def accesses_def)
    with cov fin have "accesses c0 \<longrightarrow> t0 + timing_delay s (nCCDL (timing_of s)) \<le> clk"
      "activates c0 \<and> (c = RD \<or> c = RDA) \<longrightarrow> t0 + timing_delay s (nRCDRD (timing_of s)) \<le> clk"
      "activates c0 \<and> (c = WR \<or> c = WRA) \<longrightarrow> t0 + timing_delay s (nRCDWR (timing_of s)) \<le> clk" by blast+
    moreover have "\<not> act_gated c" "c \<noteq> ACT2" "c = RD \<or> c = RDA \<or> c = WR \<or> c = WRA"
      using data by (auto simp: act_gated_def accesses_def)
    ultimately show ?thesis using t0 data by (auto simp: delay_after_def)
  next
    case closes
    with gate have "bk_next_pre b \<le> clk" by (auto simp: bank_gate_def act_gated_def precharges_def)
    with cov fin have "activates c0 \<longrightarrow> t0 + timing_delay s (nRAS (timing_of s)) \<le> clk"
      "accesses c0 \<and> \<not> a \<longrightarrow> t0 + column_recovery s c0 \<le> clk" by blast+
    moreover have "\<not> act_gated c" "c \<noteq> ACT2" "\<not> accesses c"
      using closes by (auto simp: act_gated_def accesses_def precharges_def)
    ultimately show ?thesis using t0 closes recovery_none [of c0 s] by (cases "accesses c0") (simp_all add: delay_after_def)
  next
    case other
    with t0 show ?thesis by (simp add: delay_after_def)
  qed
qed

lemma covered_wait:
  assumes "covered s now b p a c0 t0" "now \<le> clk"
  shows "covered s clk b p a c0 t0"
proof -
  have up: "x \<le> max clk g" if "x \<le> max now g" for x g using that assms(2) by (auto simp: le_max_iff_disj)
  from assms show ?thesis by (auto simp: covered_def intro: up)
qed

text \<open>The gates of a bank after a command, one at a time.\<close>

lemma read_gate_covered:
  assumes "x \<le> max clk (bk_next_rd b)" "x \<le> clk + timing_delay s (nRCDRD (timing_of s))" "c = RD \<or> c = RDA \<Longrightarrow> x \<le> clk"
  shows "x \<le> max clk (bk_next_rd (bank_step s c d clk i b))"
  using assms by (cases c) (simp_all add: delay_act_def Let_def le_max_iff_disj)

lemma write_gate_covered:
  assumes "x \<le> max clk (bk_next_wr b)" "x \<le> clk + timing_delay s (nRCDWR (timing_of s))" "c = WR \<or> c = WRA \<Longrightarrow> x \<le> clk"
  shows "x \<le> max clk (bk_next_wr (bank_step s c d clk i b))"
  using assms by (cases c) (simp_all add: delay_act_def Let_def le_max_iff_disj)

lemma column_gate_covered:
  assumes "x \<le> max clk (bk_next_any_col b)" "x \<le> clk + timing_delay s (nCCDL (timing_of s))"
  shows "x \<le> max clk (bk_next_any_col (bank_step s c d clk i b))"
  using assms by (cases c) (simp_all add: delay_act_def Let_def le_max_iff_disj)

lemma precharge_gate_covered:
  assumes "x \<le> max clk (bk_next_pre b)" "activates c \<Longrightarrow> x \<le> clk + timing_delay s (nRAS (timing_of s))"
  shows "x \<le> max clk (bk_next_pre (bank_step s c d clk i b))"
  using assms by (cases c) (auto simp: delay_act_def Let_def le_max_iff_disj activates_def)

lemma activate_gate_covered:
  assumes "x \<le> max clk (bk_next_act b)" "act_gated c \<Longrightarrow> x \<le> clk"
    and "precharges c \<Longrightarrow> x \<le> clk + timing_delay s (nRP (timing_of s))"
  shows "x \<le> max clk (bk_next_act (bank_step s c d clk i b))"
  using assms by (cases c) (auto simp: delay_act_def Let_def le_max_iff_disj act_gated_def precharges_def)

lemma second_gate_covered:
  assumes "x \<le> max clk (bk_next_act2 b)" "x \<le> clk + timing_delay s (max 1 (nAADMin (timing_of s)))" "c = ACT2 \<Longrightarrow> x \<le> clk"
  shows "x \<le> max clk (bk_next_act2 (bank_step s c d clk i b))"
  using assms by (cases c) (auto simp: delay_act_def Let_def le_max_iff_disj)

lemma busy_after:
  "legal_mode c row (mode_of b) \<Longrightarrow> mode_of (bank_step s c d clk i b) \<noteq> BankIdle \<Longrightarrow> mode_of b \<noteq> BankIdle \<or> act_gated c"
  by (cases c) (auto simp: mode_of_def delay_act_def Let_def act_gated_def split: if_splits)

lemma act_delay_flag: "\<not> activates c0 \<Longrightarrow> act_delay s p c0 = act_delay s q c0"
  by (cases c0) (simp_all add: activates_def)

lemma act_delay_precharged:
  "activates c0 \<Longrightarrow> act_delay s True c0 = timing_delay s (nRAS (timing_of s)) + timing_delay s (nRP (timing_of s))"
  by (auto simp: activates_def)

lemma covered_old:
  assumes cov: "covered s now b p a c0 t0" and now: "now \<le> clk" and adm: "admits c (da_row d) clk b"
  shows "covered s clk (bank_step s c d clk i b) (p \<or> precharges c) (a \<or> activates c) c0 t0"
proof -
  note gates = covered_wait [OF cov now, unfolded covered_def] and fin = covered_admitted [OF cov now adm]
  have mode: "legal_mode c (da_row d) (mode_of b)" using adm by (simp add: admits_def)
  have t0: "t0 \<le> clk" using gates by blast
  let ?q = "p \<or> precharges c"
  have act: "t0 + act_delay s ?q c0 \<le> clk" if "act_gated c"
  proof -
    have "\<not> precharges c" using that by (auto simp: act_gated_def precharges_def)
    with fin that show ?thesis by (simp add: delay_after_def)
  qed
  have closing: "t0 + act_delay s ?q c0 \<le> clk + timing_delay s (nRP (timing_of s))" if c: "precharges c"
  proof (cases "activates c0")
    case True
    then have "t0 + timing_delay s (nRAS (timing_of s)) \<le> clk"
      using fin c by (auto simp: delay_after_def command_classes)
    with c act_delay_precharged [OF True] show ?thesis by simp
  next
    case False
    moreover have "mode_of b \<noteq> BankIdle" using mode c by (auto simp: precharges_def)
    ultimately show ?thesis using gates act_delay_flag [OF False, of s p ?q] by auto
  qed
  have busy: "t0 + act_delay s ?q c0 \<le> clk" if "mode_of (bank_step s c d clk i b) \<noteq> BankIdle" "\<not> activates c0"
    using busy_after [OF mode that(1)] that(2) gates act act_delay_flag [OF that(2), of s p ?q] by auto
  have nact: "t0 + act_delay s ?q c0 \<le> max clk (bk_next_act (bank_step s c d clk i b))"
  proof (cases "precharges c")
    case True
    with closing show ?thesis by (cases c) (auto simp: precharges_def le_max_iff_disj)
  next
    case False
    then show ?thesis using gates act by (intro activate_gate_covered) auto
  qed
  have second: "t0 + timing_delay s (max 1 (nAADMin (timing_of s))) \<le> clk" if "c0 = ACT1" "c = ACT2"
    using fin that by (simp add: delay_after_def act_gated_def)
  have data: "activates c0 \<Longrightarrow> c = RD \<or> c = RDA \<Longrightarrow> t0 + timing_delay s (nRCDRD (timing_of s)) \<le> clk"
    "activates c0 \<Longrightarrow> c = WR \<or> c = WRA \<Longrightarrow> t0 + timing_delay s (nRCDWR (timing_of s)) \<le> clk"
    using fin by (auto simp: delay_after_def command_classes)
  have old: "c0 = ACT1 \<longrightarrow> t0 + timing_delay s (max 1 (nAADMin (timing_of s))) \<le> max clk (bk_next_act2 b)"
    "activates c0 \<longrightarrow> t0 + timing_delay s (nRCDRD (timing_of s)) \<le> max clk (bk_next_rd b)
       \<and> t0 + timing_delay s (nRCDWR (timing_of s)) \<le> max clk (bk_next_wr b)"
    using gates by blast+
  have nsecond: "t0 + timing_delay s (max 1 (nAADMin (timing_of s))) \<le> max clk (bk_next_act2 (bank_step s c d clk i b))" if "c0 = ACT1"
    by (rule second_gate_covered) (use old(1) second t0 that in simp_all)
  have nread: "t0 + timing_delay s (nRCDRD (timing_of s)) \<le> max clk (bk_next_rd (bank_step s c d clk i b))" if "activates c0"
    by (rule read_gate_covered) (use old(2) data(1) t0 that in simp_all)
  have nwrite: "t0 + timing_delay s (nRCDWR (timing_of s)) \<le> max clk (bk_next_wr (bank_step s c d clk i b))" if "activates c0"
    by (rule write_gate_covered) (use old(2) data(2) t0 that in simp_all)
  have nprecharge: "t0 + timing_delay s (nRAS (timing_of s)) \<le> max clk (bk_next_pre (bank_step s c d clk i b))" if "activates c0"
    using gates t0 that by (intro precharge_gate_covered) auto
  have ncolumn: "t0 + timing_delay s (nCCDL (timing_of s)) \<le> max clk (bk_next_any_col (bank_step s c d clk i b))" if "accesses c0"
    using gates t0 that by (intro column_gate_covered) auto
  have nrecover: "t0 + column_recovery s c0 \<le> max clk (bk_next_pre (bank_step s c d clk i b))" if "accesses c0" "\<not> (a \<or> activates c)"
    using gates that by (intro precharge_gate_covered) auto
  show ?thesis unfolding covered_def
  proof (intro conjI impI)
    show "t0 \<le> clk" by (rule t0)
  qed (use busy nact nsecond nread nwrite nprecharge ncolumn nrecover in \<open>(elim conjE)?, blast\<close>)+
qed

lemma covered_new:
  assumes adm: "admits c (da_row d) clk b" and t: "touches s c d i" and row: "0 \<le> da_row d"
  shows "covered s clk (bank_step s c d clk i b) False False c clk"
proof -
  have "mode_of (bank_step s c d clk i b) = BankIdle \<or> act_delay s False c = 0 \<or> activates c"
    using adm by (cases c) (auto simp: admits_def mode_of_def delay_act_def Let_def activates_def split: if_splits)
  then show ?thesis
    using t by (cases c) (auto simp: covered_def delay_act_def Let_def max_def command_classes split: if_splits)
qed

section \<open>Runs\<close>

lemma issue_step:
  assumes "dram_step s k (Some (c, d, t)) k'"
  obtains r where "timing_ok s k r c" "d = dr_decoded r" "d \<in> coordinates s" "t = ct_clk k" "ct_clk k' = ct_clk k"
    "ct_banks k' = issue_banks s c d t (ct_banks k)"
    "ct_engine k' = apply_constraints s d c t (issue_scopes s c d t (ct_engine k))"
proof -
  from assms obtain r r' m where *: "timing_ok s k r c" "dr_decoded r \<in> coordinates s" "d = dr_decoded r" "t = ct_clk k"
    "exec_issue s r c (ct_clk k) (ct_exec k) = (r', m, ct_exec k')" "ct_clk k' = ct_clk k"
    by (auto elim: dram_issueE)
  have "ex_banks (snd (snd (exec_issue s r c (ct_clk k) (ct_exec k)))) = issue_banks s c (dr_decoded r) (ct_clk k) (ex_banks (ct_exec k))"
    by (simp add: exec_issue_def Let_def split: prod.split)
  moreover have "ex_engine (snd (snd (exec_issue s r c (ct_clk k) (ct_exec k)))) =
      apply_constraints s (dr_decoded r) c (ct_clk k) (issue_scopes s c (dr_decoded r) (ct_clk k) (ex_engine (ct_exec k)))"
    by (simp add: exec_issue_def Let_def split: prod.split)
  ultimately show thesis using * by (intro that [of r]) (simp_all add: ct_banks_def ct_engine_def)
qed

lemma act1_split: "timing_ok s k r ACT1 \<Longrightarrow> validate_spec s = Inr () \<Longrightarrow> 0 < nAADMin (timing_of s)"
  using validate_specD(5) [of s]
  by (auto simp: timing_ok_def state_ok_def command_snapshot_def validate_rows_def bindR_eq_Inr Let_def split: if_splits)

lemma step_banks:
  assumes valid: "validate_spec s = Inr ()" and typed: "banks_typed s (ct_banks k)" and step: "dram_step s k (Some (c, d, t)) k'"
  shows "banks_typed s (ct_banks k')"
    and "i < length (ct_banks k) \<Longrightarrow> touches s c d i \<Longrightarrow> admits c (da_row d) t (ct_banks k ! i)"
    and "i < length (ct_banks k) \<Longrightarrow> ct_banks k' ! i = (if touches s c d i then bank_step s c d t i (ct_banks k ! i) else ct_banks k ! i)"
proof -
  from step obtain r where r: "timing_ok s k r c" "d = dr_decoded r" "d \<in> coordinates s" "t = ct_clk k"
    "ct_banks k' = issue_banks s c d t (ct_banks k)"
    "ct_engine k' = apply_constraints s d c t (issue_scopes s c d t (ct_engine k))" by (rule issue_step)
  have shape: "banks_shaped s (ct_banks k)" using typed by (simp add: banks_typed_def)
  have row: "0 \<le> da_row d" "da_row d < org_rows (org s)" using r(3) by (auto simp: coordinates_def)
  show adm: "admits c (da_row d) t (ct_banks k ! i)" if "i < length (ct_banks k)" "touches s c d i" for i
    using timing_ok_admits [OF shape _ r(1)] r(2-4) that by simp
  show nth: "ct_banks k' ! i = (if touches s c d i then bank_step s c d t i (ct_banks k ! i) else ct_banks k ! i)"
    if "i < length (ct_banks k)" for i
    using nth_issue_banks [OF shape r(3) that] r(5) by simp
  have "bank_typed s (ct_banks k' ! i)" if i: "i < length (ct_banks k)" for i
  proof -
    have b: "bank_typed s (ct_banks k ! i)" using typed i by (simp add: banks_typed_def list_all_length)
    have split: "0 < nAADMin (timing_of s)" if "c = ACT1" using act1_split [OF _ valid] r(1) that by simp
    show ?thesis
    proof (cases "touches s c d i")
      case True
      show ?thesis unfolding nth [OF i] if_P [OF True] by (rule bank_step_typed [OF b adm [OF i True] row split])
    next
      case False
      with b nth [OF i] show ?thesis by simp
    qed
  qed
  then show "banks_typed s (ct_banks k')"
    using r(5) shape by (simp add: banks_typed_def banks_shaped_def list_all_length)
qed

text \<open>The abstract bank protocol, run over a history (newest command first).\<close>

fun mode_after :: "dram_spec \<Rightarrow> nat \<Rightarrow> bank_mode \<Rightarrow> issued list \<Rightarrow> bank_mode" where
  "mode_after s i m [] = m"
| "mode_after s i m ((c, d, t) # h) =
     (if touches s c d i then next_mode c (da_row d) (mode_after s i m h) else mode_after s i m h)"

lemma dram_run_inv:
  assumes run: "dram_run s k0 h k" and valid: "validate_spec s = Inr ()" and typed: "banks_typed s (ct_banks k0)"
  shows "banks_typed s (ct_banks k) \<and> length (ct_banks k) = length (ct_banks k0)
    \<and> (\<forall>i < length (ct_banks k0). mode_of (ct_banks k ! i) = mode_after s i (mode_of (ct_banks k0 ! i)) h
        \<and> (\<forall>between c0 d0 t0 earlier. h = between @ (c0, d0, t0) # earlier \<and> touches s c0 d0 i \<longrightarrow>
             covered s (ct_clk k) (ct_banks k ! i) (precharged s i between) (reactivated s i between) c0 t0))"
  using run
proof induction
  case run_start
  then show ?case using typed by simp
next
  case (run_wait h k k')
  then have frame: "ct_banks k' = ct_banks k" "ct_clk k \<le> ct_clk k'" by (auto elim: dram_waitE)
  from run_wait.IH show ?case unfolding frame(1)
    by (elim conjE, intro conjI allI impI) (blast intro: covered_wait [OF _ frame(2)])+
next
  case (run_issue h k q k')
  obtain c d t where q: "q = (c, d, t)" by (cases q)
  have step: "dram_step s k (Some (c, d, t)) k'" using run_issue.hyps(2) q by simp
  have typed': "banks_typed s (ct_banks k)" and len: "length (ct_banks k) = length (ct_banks k0)"
    using run_issue.IH by blast+
  note banks = step_banks [OF valid typed' step]
  from step obtain r where r: "timing_ok s k r c" "d = dr_decoded r" "d \<in> coordinates s" "t = ct_clk k" "ct_clk k' = ct_clk k"
    "ct_banks k' = issue_banks s c d t (ct_banks k)"
    "ct_engine k' = apply_constraints s d c t (issue_scopes s c d t (ct_engine k))" by (rule issue_step)
  have row: "0 \<le> da_row d" using r(3) by (auto simp: coordinates_def)
  have "mode_of (ct_banks k' ! i) = mode_after s i (mode_of (ct_banks k0 ! i)) (q # h)
      \<and> (\<forall>between c0 d0 t0 earlier. q # h = between @ (c0, d0, t0) # earlier \<and> touches s c0 d0 i \<longrightarrow>
           covered s (ct_clk k') (ct_banks k' ! i) (precharged s i between) (reactivated s i between) c0 t0)"
    if i: "i < length (ct_banks k0)" for i
  proof (cases "touches s c d i")
    case True
    have adm: "admits c (da_row d) t (ct_banks k ! i)" using banks(2) i len True by simp
    have new: "ct_banks k' ! i = bank_step s c d t i (ct_banks k ! i)" using banks(3) i len True by simp
    have "covered s t (bank_step s c d t i (ct_banks k ! i)) (precharged s i between) (reactivated s i between) c0 t0"
      if h: "q # h = between @ (c0, d0, t0) # earlier" and c0: "touches s c0 d0 i" for between c0 d0 t0 earlier
    proof (cases between)
      case Nil
      with h have "c0 = c" "t0 = t" by (simp_all add: q)
      with Nil covered_new [OF adm True row] show ?thesis by (simp add: precharged_def reactivated_def)
    next
      case (Cons x older_part)
      with h have x: "x = (c, d, t)" and h': "h = older_part @ (c0, d0, t0) # earlier" by (simp_all add: q)
      have "covered s t (ct_banks k ! i) (precharged s i older_part) (reactivated s i older_part) c0 t0"
        using run_issue.IH i h' c0 r(4) by blast
      from covered_old [OF this order_refl adm, of i] True Cons x show ?thesis
        by (simp add: precharged_def reactivated_def disj_commute)
    qed
    moreover have "mode_of (ct_banks k ! i) = mode_after s i (mode_of (ct_banks k0 ! i)) h" using run_issue.IH i by blast
    ultimately show ?thesis using bank_step_mode [OF adm row] True r(4,5) by (auto simp: q new)
  next
    case False
    have "covered s (ct_clk k) (ct_banks k ! i) (precharged s i between) (reactivated s i between) c0 t0"
      if h: "q # h = between @ (c0, d0, t0) # earlier" and c0: "touches s c0 d0 i" for between c0 d0 t0 earlier
    proof (cases between)
      case Nil
      with h c0 False show ?thesis by (simp add: q)
    next
      case (Cons x older_part)
      with h have "x = (c, d, t)" and h': "h = older_part @ (c0, d0, t0) # earlier" by (simp_all add: q)
      with Cons False run_issue.IH i c0 show ?thesis by (simp add: precharged_def reactivated_def)
    qed
    with run_issue.IH i banks(3) [of i] len r(5) False show ?thesis by (auto simp: q)
  qed
  with banks(1) r(6) len show ?case by simp
qed

lemma run_split:
  assumes "dram_run s k0 h k" "h = newer @ q # earlier"
  obtains k1 k2 where "dram_run s k0 earlier k1" "dram_step s k1 (Some q) k2"
proof -
  have "\<exists>k1 k2. dram_run s k0 earlier k1 \<and> dram_step s k1 (Some q) k2" using assms
  proof (induction arbitrary: newer)
    case (run_issue h k q' k')
    then show ?case by (cases newer) auto
  qed auto
  with that show thesis by blast
qed

section \<open>The constraint table over a run\<close>

lemma scope_vector_group:
  "scope_vector (issue_scopes s c d t e) sc =
     (if sc = ScopeBankGroup then modify_nth (scope_index s ScopeBankGroup d) (group_effect s c t) (bank_group_scopes e)
      else scope_vector e sc)"
  by (cases sc) (simp_all add: issue_scopes_def record_activate_def Let_def)

lemma next_command_group [simp]: "next_command (group_effect s c t st) = next_command st"
  by (cases c) simp_all

lemma length_issue_scopes [simp]: "length (scope_vector (issue_scopes s c d t e) sc) = length (scope_vector e sc)"
  by (simp add: scope_vector_group modify_nth_def)

lemma next_of_issue_scopes:
  "j < length (scope_vector e sc) \<Longrightarrow> next_of (issue_scopes s c d t e) sc j q = next_of e sc j q"
  by (cases "scope_index s ScopeBankGroup d = j") (auto simp: next_of_def scope_vector_group modify_nth_def)

lemma shape_issue_scopes: "engine_shape s (issue_scopes s' c d t e) = engine_shape s e"
  by (simp add: engine_shape_def)

lemma scope_vector_prune [simp]: "scope_vector (prune_recent_acts s t e) sc = scope_vector e sc"
  by (cases sc) (simp_all add: prune_recent_acts_def)

lemma run_engine:
  assumes run: "dram_run s k0 h k" and reset: "timing_reset s = Inr (ct_engine k0)"
  shows "engine_shape s (ct_engine k) \<and> (\<forall>(c, d, t)\<in>set h. d \<in> coordinates s) \<and>
    (\<forall>sc j c. j < scope_count s sc \<longrightarrow> next_of (ct_engine k) sc j c = next_of (timing_run s (ct_engine k0) h) sc j c)"
  using run
proof induction
  case run_start
  then show ?case using reset_shape [OF reset] by (simp add: timing_run_def)
next
  case (run_wait h k k')
  then have "scope_vector (ct_engine k') = scope_vector (ct_engine k)" by (auto elim!: dram_waitE)
  with run_wait.IH show ?case by (simp add: engine_shape_def next_of_def)
next
  case (run_issue h k q k')
  obtain c d t where q: "q = (c, d, t)" by (cases q)
  from run_issue.hyps(2) [unfolded q] obtain r where r: "d \<in> coordinates s"
    "ct_engine k' = apply_constraints s d c t (issue_scopes s c d t (ct_engine k))" by (rule issue_step) blast
  let ?e = "issue_scopes s c d t (ct_engine k)" and ?m = "timing_run s (ct_engine k0) h"
  have shape: "engine_shape s ?e" using run_issue.IH by (simp add: shape_issue_scopes)
  have next_eq: "next_of (ct_engine k') sc j c' = next_of (timing_run s (ct_engine k0) (q # h)) sc j c'" if j: "j < scope_count s sc" for sc j c'
  proof -
    have shape_m: "engine_shape s ?m" using timing_run_le [OF reset j] by blast
    have old: "next_of ?e sc j c' = next_of (ct_engine k) sc j c'"
      using run_issue.IH j by (intro next_of_issue_scopes) (simp add: engine_shape_def)
    have step: "timing_run s (ct_engine k0) (q # h) = apply_constraints s d c t ?m" by (simp add: timing_run_def q)
    have "next_of (ct_engine k') sc j c' \<le> n \<longleftrightarrow> next_of (timing_run s (ct_engine k0) (q # h)) sc j c' \<le> n" for n
      using apply_constraints_le [OF shape] apply_constraints_le [OF shape_m] run_issue.IH j old
      by (simp add: r(2) step)
    from this [of "next_of (ct_engine k') sc j c'"] this [of "next_of (timing_run s (ct_engine k0) (q # h)) sc j c'"]
    show ?thesis by simp
  qed
  have "engine_shape s (ct_engine k')" using apply_constraints_le [OF shape] r(2) by simp
  with next_eq run_issue.IH r(1) show ?case by (auto simp: q)
qed

lemma run_table:
  assumes run: "dram_run s k0 h k" and reset: "timing_reset s = Inr (ct_engine k0)"
    and step: "dram_step s k (Some (c, d, t)) k'" and earlier: "(c0, d0, t0) \<in> set h"
    and con: "con \<in> set (timing_constraints s)" "binds s con c0 d0 c d"
  shows "t0 + timing_delay s (max 0 (latency con)) \<le> t"
proof -
  from step obtain r where r: "timing_ok s k r c" "d = dr_decoded r" "d \<in> coordinates s" "t = ct_clk k"
    by (rule issue_step)
  note engine = run_engine [OF run reset]
  have "list_all (constraint_allows s (ct_engine k) d c t) (timing_constraints s)"
    using r(1,2,4) by (auto simp: timing_ok_def constraint_ready_def split: if_splits)
  then have "list_all (constraint_allows s (timing_run s (ct_engine k0) h) d c t) (timing_constraints s)"
    using engine scope_index_less by (simp add: list_all_iff constraint_allows_iff)
  with table_exact [OF reset r(3), of h] engine earlier con show ?thesis by fastforce
qed

text \<open>Conversely, the table admits a command when every binding constraint has run its latency.\<close>

lemma table_ready:
  assumes run: "dram_run s k0 h k" and reset: "timing_reset s = Inr (ct_engine k0)" and d: "d \<in> coordinates s"
    and single: "\<not> lpddr_dual_bank_refresh s"
    and bound: "\<forall>(c', d', t')\<in>set h. \<forall>con\<in>set (timing_constraints s).
      binds s con c' d' c d \<longrightarrow> t' + timing_delay s (max 0 (latency con)) \<le> ct_clk k"
  shows "constraint_ready s (ct_engine k) d c (ct_clk k)"
proof -
  note engine = run_engine [OF run reset]
  from table_exact [OF reset d, of h c "ct_clk k"] engine bound
  have "list_all (constraint_allows s (timing_run s (ct_engine k0) h) d c (ct_clk k)) (timing_constraints s)" by fastforce
  then have "list_all (constraint_allows s (ct_engine k) d c (ct_clk k)) (timing_constraints s)"
    using engine scope_index_less by (simp add: list_all_iff constraint_allows_iff)
  with single show ?thesis by (simp add: constraint_ready_def)
qed

end
