(* ===== verification/Mem_Protocol_Props.thy ===== *)
theory Mem_Protocol_Props
  imports Mem_Protocol
begin

text \<open>
  The properties of the command protocol over every run of the controller, and a sample run on a small
  HBM device.
\<close>

section \<open>A sample controller\<close>

definition sample_options :: controller_options where
  "sample_options = \<lparr> co_row_policy = OpenPage, co_scheduler = FRFCFS, co_write_buffer_size = 8,
     co_write_low_watermark = 1 / 5, co_write_high_watermark = 4 / 5, co_global_channel_id = 0,
     co_response_queue_capacity = 0, co_retain_responses = True, co_retain_command_trace = True \<rparr>"

definition sample_scopes :: "timing_scope \<Rightarrow> scope_state list" where
  "sample_scopes sc = replicate (scope_count sample_hbm sc) scope_state0"

definition sample_engine :: timing_engine where
  "sample_engine = \<lparr> channel_scopes = sample_scopes ScopeChannel, pseudo_channel_scopes = sample_scopes ScopePseudoChannel,
     sid_scopes = sample_scopes ScopeSid, rank_scopes = sample_scopes ScopeRank,
     refdb_states = replicate (scope_count sample_hbm ScopeRank) \<lparr> refdb_bank_count = 0, refdb_ready = 0, visited_pairs = [] \<rparr>,
     activation_scopes = sample_scopes ScopePseudoChannel, row_scopes = sample_scopes ScopePseudoChannel,
     column_scopes = sample_scopes ScopePseudoChannel, bank_group_scopes = sample_scopes ScopeBankGroup,
     bank_scopes = sample_scopes ScopeBank, wck_scopes = sample_scopes ScopePseudoChannel \<rparr>"

definition sample_controller :: controller where
  "sample_controller = \<lparr> ct_clk = 0,
     ct_exec = \<lparr> ex_banks = replicate 32 bank_state0, ex_engine = sample_engine,
       ex_rfm = \<lparr> act_counts = replicate 32 0, rfm_pending_bank = replicate 32 False, rfm_pending_all_bank = replicate 2 False \<rparr>,
       ex_stats = mem_stats0 \<rparr>,
     ct_queues = \<lparr> rq_queues = (\<lambda>_. []),
       rq_limits = (\<lambda>k. case k of QActive \<Rightarrow> 32 | QPriority \<Rightarrow> 8 | QRead \<Rightarrow> 8 | QWrite \<Rightarrow> 8), active_counts = replicate 32 0 \<rparr>,
     ct_pending = [],
     ct_row_policy = \<lparr> rp_cap = 4, column_accesses = replicate 32 0, precharge_pending = replicate 32 False \<rparr>,
     ct_write_mode = False,
     ct_rising_edge = \<lparr> re_command = NOP, re_pseudo_channel = -1, re_bank_key = -1, re_next_pairing_falling_edge = 0 \<rparr>,
     ct_low_power_active = False, ct_explicit_power_down = False, ct_explicit_self_refresh = False,
     ct_exit_pending = None, ct_wck_retrain_required = False \<rparr>"

lemma sample_dram_reset: "timing_reset sample_hbm = Inr sample_engine"
  by (simp add: timing_reset_def sample_hbm_valid sample_engine_def sample_scopes_def Let_def) (simp add: sample_hbm_def)

lemma sample_controller_make: "controller_make sample_hbm sample_options 8 8 4 = Inr sample_controller"
proof -
  have banks: "total_banks sample_hbm = Inr 32"
    by (simp add: total_banks_def checked_product_def sample_hbm_def sample_org_def u64_max_def int_max_def)
  have rfm: "rfm_reset sample_hbm = Inr (ex_rfm (ct_exec sample_controller))"
    by (simp add: rfm_reset_def sample_hbm_valid banks sample_controller_def) (simp add: sample_hbm_def sample_org_def)
  show ?thesis
    by (simp add: controller_make_def banks rfm sample_dram_reset sample_hbm_valid request_queues_make_def row_policy_reset_def
      sample_options_def) (simp add: sample_controller_def)
qed

text \<open>A write to row 0 of bank 0 and the clean-up command of an all-bank refresh of its rank.\<close>

definition sample_write :: dram_request where
  "sample_write = dram_request0\<lparr> dr_type := ReqWrite \<rparr>"

definition sample_refresh :: dram_request where
  "sample_refresh = dram_request0\<lparr> dr_type := ReqMaintenance, dr_next := REFAB \<rparr>"

definition at_clk :: "nat \<Rightarrow> controller \<Rightarrow> controller" where
  "at_clk n k = k\<lparr> ct_clk := n \<rparr>"

definition issue_now :: "dram_spec \<Rightarrow> command \<Rightarrow> dram_request \<Rightarrow> controller \<Rightarrow> controller" where
  "issue_now s c r k = k\<lparr> ct_exec := snd (snd (exec_issue s r c (ct_clk k) (ct_exec k))) \<rparr>"

lemma at_clk_step: "dram_run s k0 h k \<Longrightarrow> ct_clk k \<le> n \<Longrightarrow> dram_run s k0 h (at_clk n k)"
  by (rule run_wait) (auto simp: at_clk_def ct_banks_def ct_engine_def intro: dram_wait)

lemma issue_now_step:
  assumes "dram_run s k0 h k" "timing_ok s k r c" "dr_decoded r = d" "d \<in> coordinates s"
  shows "dram_run s k0 ((c, d, ct_clk k) # h) (issue_now s c r k)"
proof -
  obtain r' m x where x: "exec_issue s r c (ct_clk k) (ct_exec k) = (r', m, x)" by (cases "exec_issue s r c (ct_clk k) (ct_exec k)")
  have "dram_step s k (Some (c, dr_decoded r, ct_clk k)) (issue_now s c r k)"
    using assms x by (intro dram_issue [of s k r c r' m]) (simp_all add: issue_now_def)
  with assms show ?thesis by (auto intro: run_issue)
qed

definition sample_act :: controller where
  "sample_act = at_clk 15 (issue_now sample_hbm ACT sample_write (at_clk 1 sample_controller))"

definition sample_wr :: controller where
  "sample_wr = at_clk 16 (issue_now sample_hbm WR sample_write sample_act)"

lemmas gate_defs = timing_ok_def state_ok_def command_snapshot_def local_gates_def ct_bank_def bank_at_def ct_banks_def ct_engine_def
  row_of_def column_of_def group_of_def wck_of_def Let_def

lemma sample_fields:
  "lpddr_family sample_hbm = False" "split_activate sample_hbm = False" "lpddr_dual_bank_refresh sample_hbm = False"
  "org sample_hbm = sample_org" "timing_of sample_hbm = sample_timing" "tick_multiplier sample_hbm = 1"
  "activation_scope sample_hbm = ScopePseudoChannel" "row_bus_scope sample_hbm = ScopePseudoChannel"
  "column_bus_scope sample_hbm = ScopePseudoChannel" "wck_scope sample_hbm = ScopePseudoChannel"
  "timing_constraints sample_hbm = make_hbm_constraints sample_timing"
  by (simp_all add: sample_hbm_def)

lemma sample_zero: "decoded_zero \<in> coordinates sample_hbm" "flat_bank sample_hbm decoded_zero = 0"
    "scope_index sample_hbm sc decoded_zero = 0"
  by (simp_all add: coordinates_def decoded_zero_def sample_hbm_def sample_org_def flat_bank_def scope_index_def coord1_def clampI_def Let_def)

lemma sample_decoded: "dr_decoded sample_write = decoded_zero" "dr_decoded sample_refresh = decoded_zero"
  by (simp_all add: sample_write_def sample_refresh_def dram_request0_def)

lemma sample_act_ok: "timing_ok sample_hbm (at_clk 1 sample_controller) sample_write ACT"
proof -
  have run: "dram_run sample_hbm sample_controller [] (at_clk 1 sample_controller)"
    by (intro at_clk_step run_start) (simp add: sample_controller_def)
  have "constraint_ready sample_hbm (ct_engine (at_clk 1 sample_controller)) decoded_zero ACT (ct_clk (at_clk 1 sample_controller))"
    by (rule table_ready [OF run _ sample_zero(1)]) (simp_all add: sample_dram_reset sample_controller_def ct_engine_def sample_fields)
  then show ?thesis
    by (simp add: gate_defs sample_decoded sample_zero sample_fields)
      (simp add: at_clk_def sample_controller_def protocol_state_of_def bank_state0_def sample_engine_def sample_scopes_def faw_ready_def
        sample_zero sample_fields scope_state0_def sample_org_def dim1_def)
qed

lemma sample_act_run: "dram_run sample_hbm sample_controller [(ACT, decoded_zero, 1)] sample_act"
proof -
  have "dram_run sample_hbm sample_controller [] (at_clk 1 sample_controller)"
    by (intro at_clk_step run_start) (simp add: sample_controller_def)
  from issue_now_step [OF this sample_act_ok sample_decoded(1) sample_zero(1)]
  have "dram_run sample_hbm sample_controller [(ACT, decoded_zero, 1)] (issue_now sample_hbm ACT sample_write (at_clk 1 sample_controller))"
    by (simp add: at_clk_def)
  then show ?thesis unfolding sample_act_def by (rule at_clk_step) (simp add: issue_now_def at_clk_def)
qed

text \<open>The gates after a command: the table only changes the ready times of commands.\<close>

definition gates_of :: "scope_state \<Rightarrow> nat \<times> nat \<times> nat" where
  "gates_of st = (next_row st, next_act st, next_col st)"

lemma modify_scope_frame:
  "row_scopes (modify_scope sc i f e) = row_scopes e" "column_scopes (modify_scope sc i f e) = column_scopes e"
  "wck_scopes (modify_scope sc i f e) = wck_scopes e" "activation_scopes (modify_scope sc i f e) = activation_scopes e"
  by (cases sc; simp)+

lemma gates_of_modify:
  "map gates_of (bank_group_scopes (modify_scope sc i (bump r fs) e)) = map gates_of (bank_group_scopes e)"
proof -
  have "map gates_of (xs[i := bump r fs (xs ! i)]) = map gates_of xs" for xs
    by (cases "i < length xs") (simp_all add: map_update gates_of_def bump_def list_update_same_conv list_update_beyond)
  then show ?thesis by (cases sc) simp_all
qed

lemma fold_frame:
  assumes "\<And>x e. g (f x e) = g e"
  shows "g (fold f xs e) = g e"
  using assms by (induction xs arbitrary: e) simp_all

lemma apply_constraints_frame:
  "row_scopes (apply_constraints s d c t e) = row_scopes e" "column_scopes (apply_constraints s d c t e) = column_scopes e"
  "activation_scopes (apply_constraints s d c t e) = activation_scopes e"
  "map gates_of (bank_group_scopes (apply_constraints s d c t e)) = map gates_of (bank_group_scopes e)"
proof -
  have track: "g (refdb_track s d c t e) = g e"
    if "\<And>x. g (e\<lparr> refdb_states := x \<rparr>) = g e" for g :: "timing_engine \<Rightarrow> 'a" using that by (simp add: refdb_track_def Let_def split: prod.splits)
  have one: "g (apply_constraint s d c t con e) = g e" if "\<And>sc i r fs e. g (modify_scope sc i (bump r fs) e) = g e"
    for g :: "timing_engine \<Rightarrow> 'a" and con e
    using that by (auto simp: apply_constraint_def Let_def intro!: fold_frame split: prod.splits simp del: modify_scope.simps)
  show "row_scopes (apply_constraints s d c t e) = row_scopes e" "column_scopes (apply_constraints s d c t e) = column_scopes e"
    "activation_scopes (apply_constraints s d c t e) = activation_scopes e"
    "map gates_of (bank_group_scopes (apply_constraints s d c t e)) = map gates_of (bank_group_scopes e)"
    unfolding apply_constraints_def
    by (subst fold_frame; (rule one)?; (subst track)?; simp add: modify_scope_frame gates_of_modify)+
qed

lemma issue_now_gates:
  "ct_banks (issue_now s c r k) = issue_banks s c (dr_decoded r) (ct_clk k) (ct_banks k)"
  "ct_clk (issue_now s c r k) = ct_clk k"
  "row_scopes (ct_engine (issue_now s c r k)) = row_scopes (issue_scopes s c (dr_decoded r) (ct_clk k) (ct_engine k))"
  "column_scopes (ct_engine (issue_now s c r k)) = column_scopes (issue_scopes s c (dr_decoded r) (ct_clk k) (ct_engine k))"
  "map gates_of (bank_group_scopes (ct_engine (issue_now s c r k))) =
     map gates_of (bank_group_scopes (issue_scopes s c (dr_decoded r) (ct_clk k) (ct_engine k)))"
  by (simp_all add: issue_now_def exec_issue_def ct_banks_def ct_engine_def Let_def apply_constraints_frame split: prod.split)

lemma at_clk_gates [simp]:
  "ct_banks (at_clk n k) = ct_banks k" "ct_clk (at_clk n k) = n" "ct_engine (at_clk n k) = ct_engine k"
  by (simp_all add: at_clk_def ct_banks_def ct_engine_def)

lemma issue_scopes_gates:
  "row_scopes (issue_scopes s c d t e) = modify_nth (scope_index s (row_bus_scope s) d) (row_effect s c t) (row_scopes e)"
  "column_scopes (issue_scopes s c d t e) = modify_nth (scope_index s (column_bus_scope s) d) (column_effect s c t) (column_scopes e)"
  "bank_group_scopes (issue_scopes s c d t e) =
     modify_nth (scope_index s ScopeBankGroup d) (group_effect s c t) (bank_group_scopes e)"
  by (simp_all add: issue_scopes_def record_activate_def Let_def)

lemma sample_delay [simp]: "timing_delay sample_hbm n = nat n"
  by (simp add: timing_delay_def sample_fields)

lemma sample_start:
  "ct_banks sample_controller = replicate 32 bank_state0" "ct_engine sample_controller = sample_engine" "ct_clk sample_controller = 0"
  "row_scopes sample_engine = replicate 2 scope_state0" "column_scopes sample_engine = replicate 2 scope_state0"
  "bank_group_scopes sample_engine = replicate 8 scope_state0"
  by (simp_all add: sample_controller_def ct_banks_def ct_engine_def sample_engine_def sample_scopes_def sample_fields sample_org_def dim1_def)

lemma sample_act_gates:
  "ct_banks sample_act = (replicate 32 bank_state0)[0 := bank_effect sample_hbm ACT 0 1 bank_state0]" "ct_clk sample_act = 15"
  "row_scopes (ct_engine sample_act) = (replicate 2 scope_state0)[0 := row_effect sample_hbm ACT 1 scope_state0]"
  "column_scopes (ct_engine sample_act) = replicate 2 scope_state0"
  "map gates_of (bank_group_scopes (ct_engine sample_act)) = map gates_of ((replicate 8 scope_state0)[0 := group_effect sample_hbm ACT 1 scope_state0])"
  by (simp_all add: sample_act_def issue_now_gates issue_scopes_gates modify_nth_def sample_start sample_decoded sample_zero sample_fields
    issue_banks_def Let_def) (simp_all add: decoded_zero_def numeral_2_eq_2)

lemma sample_wr_gates:
  "ct_banks sample_wr = (replicate 32 bank_state0)[0 := bank_effect sample_hbm WR 0 15 (bank_effect sample_hbm ACT 0 1 bank_state0)]"
  "ct_clk sample_wr = 16"
  "row_scopes (ct_engine sample_wr) = (replicate 2 scope_state0)[0 := row_effect sample_hbm WR 15 (row_effect sample_hbm ACT 1 scope_state0)]"
  by (simp_all add: sample_wr_def issue_now_gates issue_scopes_gates modify_nth_def sample_act_gates sample_decoded sample_zero [unfolded decoded_zero_def] sample_zero sample_fields
    issue_banks_def Let_def decoded_zero_def)

text \<open>No constraint of the table holds back a precharge-all after an activate and a write; a write waits \<^verbatim>\<open>nRCDWR\<close>.\<close>

lemma sample_table:
  "con \<in> set (timing_constraints sample_hbm) \<Longrightarrow> ACT \<in> set (preceding con) \<Longrightarrow> WR \<in> set (following con) \<Longrightarrow>
    timing_delay sample_hbm (max 0 (latency con)) \<le> 14"
  "con \<in> set (timing_constraints sample_hbm) \<Longrightarrow> ACT \<in> set (preceding con) \<or> WR \<in> set (preceding con) \<Longrightarrow>
    PREAB \<notin> set (following con)"
  by (auto simp: sample_fields make_hbm_constraints_def Let_def tc_def tc_window_def tc_sibling_def sample_timing_def)

lemma sample_group_nth:
  "map gates_of xs = map gates_of ys \<Longrightarrow> i < length xs \<Longrightarrow> next_col (xs ! i) = next_col (ys ! i)"
proof -
  assume eq: "map gates_of xs = map gates_of ys" and i: "i < length xs"
  then have "i < length ys" by (metis length_map)
  with i arg_cong [OF eq, of "\<lambda>l. l ! i"] show ?thesis by (simp add: gates_of_def)
qed

lemma sample_wr_ok: "timing_ok sample_hbm sample_act sample_write WR"
proof -
  have "constraint_ready sample_hbm (ct_engine sample_act) decoded_zero WR (ct_clk sample_act)"
    using sample_table(1) by (intro table_ready [OF sample_act_run _ sample_zero(1)])
      (auto simp: sample_dram_reset sample_start sample_fields sample_act_gates binds_def)
  moreover have "length (bank_group_scopes (ct_engine sample_act)) = 8"
    using arg_cong [OF sample_act_gates(5), of length] by simp
  then have "next_col (bank_group_scopes (ct_engine sample_act) ! 0) = 0"
    using sample_group_nth [OF sample_act_gates(5), of 0] by (simp add: scope_state0_def)
  ultimately show ?thesis
    by (simp add: timing_ok_def state_ok_def command_snapshot_def local_gates_def ct_bank_def bank_at_def
      row_of_def column_of_def group_of_def Let_def sample_decoded sample_zero sample_fields sample_act_gates)
      (simp add: protocol_state_of_def decoded_zero_def bank_state0_def scope_state0_def sample_timing_def sample_fields)
qed

lemma sample_wr_run: "dram_run sample_hbm sample_controller [(WR, decoded_zero, 15), (ACT, decoded_zero, 1)] sample_wr"
proof -
  from issue_now_step [OF sample_act_run sample_wr_ok sample_decoded(1) sample_zero(1)]
  have "dram_run sample_hbm sample_controller [(WR, decoded_zero, 15), (ACT, decoded_zero, 1)] (issue_now sample_hbm WR sample_write sample_act)"
    by (simp add: sample_act_gates)
  then show ?thesis unfolding sample_wr_def by (rule at_clk_step) (simp add: issue_now_gates sample_act_gates)
qed

text \<open>After the write recovery the bank can be precharged.\<close>

definition sample_recovered :: controller where
  "sample_recovered = at_clk 45 sample_wr"

lemma sample_table_precharge:
  "con \<in> set (timing_constraints sample_hbm) \<Longrightarrow> ACT \<in> set (preceding con) \<Longrightarrow> PREPB \<in> set (following con) \<Longrightarrow>
    timing_delay sample_hbm (max 0 (latency con)) \<le> 44"
  "con \<in> set (timing_constraints sample_hbm) \<Longrightarrow> WR \<in> set (preceding con) \<Longrightarrow> PREPB \<in> set (following con) \<Longrightarrow>
    timing_delay sample_hbm (max 0 (latency con)) \<le> 30"
  by (auto simp: sample_fields make_hbm_constraints_def Let_def tc_def tc_window_def tc_sibling_def sample_timing_def)

lemma sample_recovered_run:
  "dram_run sample_hbm sample_controller [(WR, decoded_zero, 15), (ACT, decoded_zero, 1)] sample_recovered"
  unfolding sample_recovered_def by (rule at_clk_step [OF sample_wr_run]) (simp add: sample_wr_gates)

lemma sample_recovered_ok: "timing_ok sample_hbm sample_recovered sample_write PREPB"
proof -
  have "constraint_ready sample_hbm (ct_engine sample_recovered) decoded_zero PREPB (ct_clk sample_recovered)"
    using sample_table_precharge by (intro table_ready [OF sample_recovered_run _ sample_zero(1)])
      (force simp: sample_dram_reset sample_start sample_fields sample_recovered_def binds_def)+
  then show ?thesis
    by (simp add: timing_ok_def state_ok_def command_snapshot_def local_gates_def ct_bank_def bank_at_def
      row_of_def Let_def sample_decoded sample_zero sample_fields sample_wr_gates sample_recovered_def)
      (simp add: protocol_state_of_def decoded_zero_def bank_state0_def scope_state0_def sample_timing_def sample_fields row_effect_def
        write_recovery_def)
qed

lemma sample_recovered_pre:
  "dram_run sample_hbm sample_controller [(PREPB, decoded_zero, 45), (WR, decoded_zero, 15), (ACT, decoded_zero, 1)]
     (issue_now sample_hbm PREPB sample_write sample_recovered)"
  using issue_now_step [OF sample_recovered_run sample_recovered_ok sample_decoded(1) sample_zero(1)]
  by (simp add: sample_recovered_def)

section \<open>The properties\<close>

lemma controller_make_ok:
  assumes "controller_make s opt priority reads cap = Inr k0"
  shows "validate_spec s = Inr ()" "banks_typed s (ct_banks k0)" "timing_reset s = Inr (ct_engine k0)" "ct_clk k0 = 0"
    "i < nat (bank_total s) \<Longrightarrow> ct_banks k0 ! i = bank_state0" "length (ct_banks k0) = nat (bank_total s)"
proof -
  from assms obtain n where n: "total_banks s = Inr n" and banks: "ct_banks k0 = replicate (nat n) bank_state0"
    and valid: "validate_spec s = Inr ()" and engine: "timing_reset s = Inr (ct_engine k0)" and clk: "ct_clk k0 = 0"
    by (auto simp: controller_make_def bindR_eq_Inr ct_banks_def ct_engine_def)
  have total: "n = bank_total s" and pos: "0 \<le> n"
    using total_banks_ok [OF n] n by (auto simp: total_banks_def bindR_eq_Inr split: if_splits)
  have rows: "0 < org_rows (org s)" using valid_positive_dims [OF valid] by (simp add: positive_dims_def)
  show "validate_spec s = Inr ()" "timing_reset s = Inr (ct_engine k0)" "ct_clk k0 = 0" by fact+
  show "banks_typed s (ct_banks k0)"
    using banks total pos rows by (simp add: banks_typed_def banks_shaped_def list_all_iff bank_typed_def bank_state0_def)
  show "i < nat (bank_total s) \<Longrightarrow> ct_banks k0 ! i = bank_state0" "length (ct_banks k0) = nat (bank_total s)"
    using banks total by simp_all
qed

text \<open>C39. Every bank state a controller reaches is well formed: the open row is absent or a row of the organization, a bank between
  the two halves of a split activate has no open row, and the window of the second half is not empty.\<close>

theorem bank_states_typed:
  assumes "controller_make s opt priority reads cap = Inr k0" "dram_run s k0 h k"
  shows "banks_typed s (ct_banks k)"
  using dram_run_inv [OF assms(2) controller_make_ok(1,2) [OF assms(1)]] by blast

lemma bank_states_typed_witness:
  "controller_make sample_hbm sample_options 8 8 4 = Inr sample_controller
   \<and> banks_typed sample_hbm (ct_banks sample_wr) \<and> bk_open_row (ct_banks sample_wr ! 0) = 0"
  using bank_states_typed [OF sample_controller_make sample_wr_run] sample_controller_make
  by (simp add: sample_wr_gates)

text \<open>C11. The controller follows the bank protocol. The mode of each bank (idle, between the halves of a split activate, or open at a
  row) is the one the abstract protocol reaches on the commands issued so far, and each command met every bank it acts on in a mode
  the protocol allows: activates and refreshes an idle bank, data the open row they name, the second half of an activate the first.\<close>

theorem bank_protocol_followed:
  assumes "controller_make s opt priority reads cap = Inr k0" "dram_run s k0 h k" "i < nat (bank_total s)"
  shows "mode_of (ct_banks k ! i) = mode_after s i BankIdle h
    \<and> (\<forall>newer c d t earlier. h = newer @ (c, d, t) # earlier \<and> touches s c d i \<longrightarrow>
          legal_mode c (da_row d) (mode_after s i BankIdle earlier))"
proof -
  note make = controller_make_ok [OF assms(1)]
  have idle: "mode_of (ct_banks k0 ! i) = BankIdle" using make(5) [OF assms(3)] by (simp add: mode_of_def bank_state0_def)
  have modes: "mode_of (ct_banks k ! i) = mode_after s i BankIdle h" if "dram_run s k0 h k" for h k
    using dram_run_inv [OF that make(1,2)] assms(3) make(6) idle by simp
  have "legal_mode c (da_row d) (mode_after s i BankIdle earlier)"
    if h: "h = newer @ (c, d, t) # earlier" and i: "touches s c d i" for newer c d t earlier
  proof -
    obtain k1 k2 where run: "dram_run s k0 earlier k1" and step: "dram_step s k1 (Some (c, d, t)) k2"
    using run_split [OF assms(2) h] .
    have "banks_typed s (ct_banks k1)" "i < length (ct_banks k1)"
      using dram_run_inv [OF run make(1,2)] assms(3) make(6) by simp_all
    then have "admits c (da_row d) t (ct_banks k1 ! i)" using step_banks(2) [OF make(1) _ step] i by blast
    then show ?thesis using modes [OF run] by (simp add: admits_def)
  qed
  with modes [OF assms(2)] show ?thesis by blast
qed

lemma bank_protocol_followed_witness:
  "mode_of (ct_banks sample_wr ! 0) = BankOpen 0 \<and> legal_mode WR 0 (mode_after sample_hbm 0 BankIdle [(ACT, decoded_zero, 1)])"
proof -
  have total: "(0::nat) < nat (bank_total sample_hbm)" by (simp add: bank_total_def sample_fields sample_org_def)
  have row: "da_row decoded_zero = 0" by (simp add: decoded_zero_def)
  show ?thesis
    using bank_protocol_followed [OF sample_controller_make sample_wr_run total] by (simp add: sample_zero row)
qed

text \<open>C4. The bank-level timing parameters hold between any two commands of a run that act on the same bank, as \<^const>\<open>required_delay\<close>
  lists them: activate to its second half, to data, to precharge and to the next activate, refresh or mitigation; data command to data
  command; read and write to the precharge of the row they accessed; precharge, auto-precharge, refresh and mitigation to the next
  activate, per-bank refresh or per-bank mitigation. Nothing is claimed of a precharge-all, which waits for none of these.\<close>

theorem bank_timing_respected:
  assumes "controller_make s opt priority reads cap = Inr k0"
    and "dram_run s k0 (newer @ (c, d, t) # between @ (c0, d0, t0) # earlier) k"
    and "i < nat (bank_total s)" "touches s c0 d0 i" "touches s c d i"
  shows "t0 + required_delay s i between c0 c \<le> t"
proof -
  note make = controller_make_ok [OF assms(1)]
  obtain k1 k2 where run: "dram_run s k0 (between @ (c0, d0, t0) # earlier) k1" and step: "dram_step s k1 (Some (c, d, t)) k2"
    using run_split [OF assms(2) refl] .
  have k1: "banks_typed s (ct_banks k1)" "i < length (ct_banks k1)"
    "covered s (ct_clk k1) (ct_banks k1 ! i) (precharged s i between) (reactivated s i between) c0 t0"
    using dram_run_inv [OF run make(1,2)] assms(3,4) make(6) by auto
  have t: "t = ct_clk k1" using step by (auto elim: dram_issueE)
  show ?thesis
    using covered_admitted [OF k1(3) order_refl] step_banks(2) [OF make(1) k1(1) step k1(2) assms(5)] t
    by (simp add: required_delay_def)
qed

lemma bank_timing_respected_witness:
  "(15::nat) + required_delay sample_hbm 0 [] WR PREPB \<le> 45 \<and> required_delay sample_hbm 0 [] WR PREPB = 30
   \<and> 1 + required_delay sample_hbm 0 [(WR, decoded_zero, 15)] ACT PREPB \<le> 45
   \<and> required_delay sample_hbm 0 [(WR, decoded_zero, 15)] ACT PREPB = 42"
proof -
  have total: "(0::nat) < nat (bank_total sample_hbm)" by (simp add: bank_total_def sample_fields sample_org_def)
  have "15 + required_delay sample_hbm 0 [] WR PREPB \<le> 45"
    using bank_timing_respected [OF sample_controller_make _ total, of "[]" PREPB decoded_zero 45 "[]" WR decoded_zero 15
        "[(ACT, decoded_zero, 1)]" "issue_now sample_hbm PREPB sample_write sample_recovered"]
      sample_recovered_pre by (simp add: sample_zero)
  moreover have "1 + required_delay sample_hbm 0 [(WR, decoded_zero, 15)] ACT PREPB \<le> 45"
    using bank_timing_respected [OF sample_controller_make _ total, of "[]" PREPB decoded_zero 45 "[(WR, decoded_zero, 15)]" ACT
        decoded_zero 1 "[]" "issue_now sample_hbm PREPB sample_write sample_recovered"]
      sample_recovered_pre by (simp add: sample_zero)
  ultimately show ?thesis
    by (simp add: required_delay_def delay_after_def command_classes precharged_def reactivated_def write_recovery_def sample_fields
      sample_timing_def)
qed

text \<open>C15. Every constraint of the timing table holds between any two commands of a run that it binds.\<close>

theorem controller_respects_table:
  assumes "controller_make s opt priority reads cap = Inr k0"
    and "dram_run s k0 (newer @ (c, d, t) # between @ (c0, d0, t0) # earlier) k"
    and "con \<in> set (timing_constraints s)" "binds s con c0 d0 c d"
  shows "t0 + timing_delay s (max 0 (latency con)) \<le> t"
proof -
  obtain k1 k2 where run: "dram_run s k0 (between @ (c0, d0, t0) # earlier) k1" and step: "dram_step s k1 (Some (c, d, t)) k2"
    using run_split [OF assms(2) refl] .
  show ?thesis by (rule run_table [OF run controller_make_ok(3) [OF assms(1)] step _ assms(3,4)]) simp
qed

lemma controller_respects_table_witness:
  "let con = tc ScopeBank [ACT] [WR, WRA] 14 ''nRCDWR'' in
   con \<in> set (timing_constraints sample_hbm) \<and> binds sample_hbm con ACT decoded_zero WR decoded_zero
   \<and> 1 + timing_delay sample_hbm (max 0 (latency con)) \<le> 15"
proof -
  let ?con = "tc ScopeBank [ACT] [WR, WRA] 14 ''nRCDWR''"
  have con: "?con \<in> set (timing_constraints sample_hbm)" by (simp add: sample_fields make_hbm_constraints_def Let_def sample_timing_def)
  have binds: "binds sample_hbm ?con ACT decoded_zero WR decoded_zero" by (simp add: binds_def targets_def tc_def)
  have "1 + timing_delay sample_hbm (max 0 (latency ?con)) \<le> 15"
    using controller_respects_table [OF sample_controller_make _ con binds, of "[]" 15 "[]" 1 "[]" sample_wr] sample_wr_run by simp
  with con binds show ?thesis by (simp add: Let_def)
qed

text \<open>C40. A precharge-all is the exception: neither the gates of the banks nor the table hold it back. With no request left on the
  bank, the refresh path asks for it one cycle after a write, before \<^verbatim>\<open>nRAS\<close> and the write recovery are over, and it is admitted.\<close>

theorem precharge_all_ignores_recovery:
  "next_command_of sample_hbm sample_options sample_wr sample_refresh = Some PREAB
   \<and> \<not> would_close_active sample_hbm sample_wr sample_refresh PREAB QPriority
   \<and> (\<exists>k. dram_run sample_hbm sample_controller [(PREAB, decoded_zero, 16), (WR, decoded_zero, 15), (ACT, decoded_zero, 1)] k
        \<and> bk_open_row (ct_banks k ! 0) = -1)
   \<and> \<not> timing_ok sample_hbm sample_wr sample_refresh PREPB
   \<and> 16 < bk_next_pre (ct_bank sample_hbm sample_wr decoded_zero)"
proof -
  have range: "rank_bank_range sample_hbm n decoded_zero = (0, min (int n) 16)" for n
    by (simp add: rank_bank_range_def rank_index_def clampI_def decoded_zero_def sample_fields sample_org_def Let_def)
  have open_bank: "ct_bank sample_hbm sample_wr decoded_zero =
      bank_effect sample_hbm WR 0 15 (bank_effect sample_hbm ACT 0 1 bank_state0)"
    by (simp add: ct_bank_def bank_at_def sample_wr_gates sample_zero)
  have busy: "any_bank_busy_in_rank sample_hbm sample_wr decoded_zero"
    by (simp add: any_bank_busy_in_rank_def range any_in_range_def sample_wr_gates numeral_eq_Suc bank_busy_def bank_state0_def)
  have "constraint_ready sample_hbm (ct_engine sample_wr) decoded_zero PREAB (ct_clk sample_wr)"
    using sample_table(2) by (intro table_ready [OF sample_wr_run _ sample_zero(1)])
      (auto simp: sample_dram_reset sample_start sample_fields binds_def)
  then have ok: "timing_ok sample_hbm sample_wr sample_refresh PREAB"
    using busy by (simp add: timing_ok_def state_ok_def command_snapshot_def local_gates_def row_of_def Let_def sample_decoded
      sample_zero sample_fields sample_wr_gates row_effect_def scope_state0_def)
  have command: "next_command_of sample_hbm sample_options sample_wr sample_refresh = Some PREAB"
    using busy by (simp add: next_command_of_def next_maintenance_def Let_def is_maintenance_def sample_refresh_def dram_request0_def)
  have unowned: "\<not> would_close_active sample_hbm sample_wr sample_refresh PREAB QPriority"
    by (simp add: would_close_active_def Let_def command_meta_of_def kMeta_def meta_def sample_decoded range sample_wr_def sample_act_def
      at_clk_def issue_now_def sample_controller_def list_ex_iff)
  from issue_now_step [OF sample_wr_run ok sample_decoded(2) sample_zero(1)]
  have run: "dram_run sample_hbm sample_controller [(PREAB, decoded_zero, 16), (WR, decoded_zero, 15), (ACT, decoded_zero, 1)]
      (issue_now sample_hbm PREAB sample_refresh sample_wr)"
    by (simp add: sample_wr_gates)
  have closed: "bk_open_row (ct_banks (issue_now sample_hbm PREAB sample_refresh sample_wr) ! 0) = -1"
    by (simp add: issue_now_gates issue_banks_def close_rank_banks_def sample_decoded range sample_wr_gates nth_map_range Let_def)
  have gate: "16 < bk_next_pre (ct_bank sample_hbm sample_wr decoded_zero)"
    by (simp add: open_bank sample_fields sample_timing_def)
  then have "\<not> timing_ok sample_hbm sample_wr sample_refresh PREPB"
    by (simp add: timing_ok_def local_gates_def Let_def sample_decoded sample_wr_gates)
  with command unowned run closed gate show ?thesis by blast
qed

end
