(* ===== verification/Mem_Loop.thy ===== *)
theory Mem_Loop
  imports Mem_Tick Mem_Protocol_Props
begin

text \<open>
  The clocked channel controller stays inside the step relation of \<^verbatim>\<open>Mem_Protocol\<close>: every command that the
  loop issues was admitted by the gates in the state it meets, and everything else leaves the banks and
  the timing table alone. What holds for the runs of that relation holds for the trace of the loop.
\<close>

section \<open>Runs of the channel\<close>

text \<open>The accepted requests, newest first, and the responses taken so far.\<close>

inductive channel_run :: "dram_spec \<Rightarrow> controller_options \<Rightarrow> channel \<Rightarrow> dram_request list \<Rightarrow> transaction_response list \<Rightarrow> channel \<Rightarrow> bool"
  for s opt ch0 where
  channel_start: "channel_run s opt ch0 [] [] ch0"
| channel_accept: "channel_run s opt ch0 rs ts ch \<Longrightarrow> enqueue s opt r ch = Inr (True, ch') \<Longrightarrow> channel_run s opt ch0 (r # rs) ts ch'"
| channel_refuse: "channel_run s opt ch0 rs ts ch \<Longrightarrow> enqueue s opt r ch = Inr (False, ch') \<Longrightarrow> channel_run s opt ch0 rs ts ch'"
| channel_tick: "channel_run s opt ch0 rs ts ch \<Longrightarrow> tick s opt ch = Some (Inr ch') \<Longrightarrow> channel_run s opt ch0 rs ts ch'"
| channel_pop: "channel_run s opt ch0 rs ts ch \<Longrightarrow> pop_response ch = Inr (t, ch') \<Longrightarrow> channel_run s opt ch0 rs (ts @ [t]) ch'"

definition history :: "channel \<Rightarrow> issued list" where
  "history ch = map (\<lambda>e. (ic_command e, ic_decoded e, ic_cycle e)) (ch_issued ch)"

section \<open>What each operation leaves alone\<close>

text \<open>The parts the command protocol reads: executor, clock, trace, and the policy counters up to their number.\<close>

definition protocol_part :: "channel \<Rightarrow> executor \<times> nat \<times> issued list \<times> nat" where
  "protocol_part ch = (ct_exec (ch_ctl ch), ch_clk ch, history ch, length (column_accesses (ct_row_policy (ch_ctl ch))))"

lemma protocol_simps [simp]:
  "protocol_part (count_life f ch) = protocol_part ch"
  "protocol_part (push_request kind r ch) = protocol_part ch"
  "protocol_part (push_pending r ch) = protocol_part ch"
  "protocol_part (push_response opt t ch) = protocol_part ch"
  "protocol_part (put_buffered a b ch) = protocol_part ch"
  "protocol_part (ch\<lparr> ch_image := m \<rparr>) = protocol_part ch"
  "protocol_part (ch\<lparr> ch_backlog := q \<rparr>) = protocol_part ch"
  "protocol_part (ch\<lparr> ch_next_maintenance_id := n \<rparr>) = protocol_part ch"
  "protocol_part (ch\<lparr> ch_next_sequence := n \<rparr>) = protocol_part ch"
  "protocol_part (ch\<lparr> ch_refresh := rm \<rparr>) = protocol_part ch"
  "protocol_part (ch\<lparr> ch_idle_since := n \<rparr>) = protocol_part ch"
  "protocol_part (ch\<lparr> ch_exit_until := n \<rparr>) = protocol_part ch"
  "protocol_part (ch\<lparr> ch_responses := ts \<rparr>) = protocol_part ch"
  "protocol_part (ch\<lparr> ch_buffered := bs \<rparr>) = protocol_part ch"
  "protocol_part (ch\<lparr> ch_buffered_addrs := as \<rparr>) = protocol_part ch"
  by (simp_all add: protocol_part_def history_def ch_clk_def count_life_def push_request_def push_pending_def push_response_def
    put_buffered_def on_ctl_def put_queue_def)

lemma row_policy_length [simp]:
  "length (column_accesses (row_policy_issue policy b c p)) = length (column_accesses p)"
  "length (column_accesses (mark_precharge_pending b p)) = length (column_accesses p)"
  by (simp_all add: row_policy_issue_def mark_precharge_pending_def Let_def)

lemma protocol_on_ctl:
  assumes "ct_exec (f (ch_ctl ch)) = ct_exec (ch_ctl ch)" "ct_clk (f (ch_ctl ch)) = ct_clk (ch_ctl ch)"
    "length (column_accesses (ct_row_policy (f (ch_ctl ch)))) = length (column_accesses (ct_row_policy (ch_ctl ch)))"
  shows "protocol_part (on_ctl f ch) = protocol_part ch"
  using assms by (simp add: protocol_part_def history_def ch_clk_def on_ctl_def)

text \<open>The requests in the queues and in the backlog.\<close>

definition all_requests :: "channel \<Rightarrow> dram_request set" where
  "all_requests ch = (\<Union>kind. set (ch_queue ch kind)) \<union> set (ch_backlog ch)"

definition decoded_ok :: "dram_spec \<Rightarrow> channel \<Rightarrow> bool" where
  "decoded_ok s ch \<longleftrightarrow> (\<forall>r \<in> all_requests ch. dr_decoded r \<in> coordinates s)"

lemma all_requests_simps [simp]:
  "all_requests (count_life f ch) = all_requests ch"
  "all_requests (push_pending r ch) = all_requests ch"
  "all_requests (push_response opt t ch) = all_requests ch"
  "all_requests (put_buffered a b ch) = all_requests ch"
  "all_requests (ch\<lparr> ch_image := m \<rparr>) = all_requests ch"
  "all_requests (ch\<lparr> ch_next_maintenance_id := n \<rparr>) = all_requests ch"
  "all_requests (ch\<lparr> ch_next_sequence := n \<rparr>) = all_requests ch"
  "all_requests (ch\<lparr> ch_refresh := rm \<rparr>) = all_requests ch"
  "all_requests (ch\<lparr> ch_idle_since := n \<rparr>) = all_requests ch"
  "all_requests (ch\<lparr> ch_exit_until := n \<rparr>) = all_requests ch"
  "all_requests (ch\<lparr> ch_responses := ts \<rparr>) = all_requests ch"
  "all_requests (ch\<lparr> ch_buffered := bs \<rparr>) = all_requests ch"
  "all_requests (ch\<lparr> ch_buffered_addrs := as \<rparr>) = all_requests ch"
  by (simp_all add: all_requests_def ch_queue_def count_life_def push_pending_def push_response_def put_buffered_def on_ctl_def)

lemma all_requests_push [simp]: "all_requests (push_request kind r ch) = insert r (all_requests ch)"
  by (auto simp: all_requests_def ch_queue_def push_request_def on_ctl_def put_queue_def split: if_splits)

lemma all_requests_on_ctl:
  "rq_queues (ct_queues (f (ch_ctl ch))) = rq_queues (ct_queues (ch_ctl ch)) \<Longrightarrow> all_requests (on_ctl f ch) = all_requests ch"
  by (simp add: all_requests_def ch_queue_def on_ctl_def)

text \<open>A step that keeps the protocol part and adds only decoded requests.\<close>

definition quiet_step :: "dram_spec \<Rightarrow> channel \<Rightarrow> channel \<Rightarrow> bool" where
  "quiet_step s ch ch' \<longleftrightarrow> protocol_part ch' = protocol_part ch \<and> (\<forall>r \<in> all_requests ch' - all_requests ch. dr_decoded r \<in> coordinates s)"

lemma quiet_refl [simp]: "quiet_step s ch ch"
  by (simp add: quiet_step_def)

lemma quiet_trans: "quiet_step s a b \<Longrightarrow> quiet_step s b c \<Longrightarrow> quiet_step s a c"
  by (auto simp: quiet_step_def)

lemma quiet_same: "protocol_part ch' = protocol_part ch \<Longrightarrow> all_requests ch' \<subseteq> all_requests ch \<Longrightarrow> quiet_step s ch ch'"
  by (auto simp: quiet_step_def)

lemma schedule_maintenance_quiet: "d \<in> coordinates s \<Longrightarrow> quiet_step s ch (schedule_maintenance c d ch)"
  by (auto simp: quiet_step_def schedule_maintenance_def Let_def all_requests_def ch_queue_def count_life_def dram_request0_def)
    (simp add: protocol_part_def history_def ch_clk_def)

lemma fold_quiet:
  assumes "\<And>x ch. x \<in> set xs \<Longrightarrow> quiet_step s ch (f x ch)"
  shows "quiet_step s ch (fold f xs ch)"
  using assms by (induction xs arbitrary: ch) (auto intro: quiet_trans)

section \<open>Maintenance requests are within the organization\<close>

lemma seed_batch_coordinates:
  assumes dims: "positive_dims s" and rank: "0 \<le> rank" "rank < ranks (org s)" and cd: "cd \<in> set (fst (seed_refresh_batch s rank st))"
  shows "snd cd \<in> coordinates s"
proof (cases "refresh_policy s = AllBank")
  case True
  with cd rank dims show ?thesis
    by (auto simp: seed_refresh_batch_def coordinates_def decoded_zero_def positive_dims_def)
next
  case False
  define b where "b = banks_per_group (org s)"
  define flat where "flat = flat_bank_cursor st mod refresh_positions s"
  define group where "group = (if lpddr_dual_bank_refresh s then (flat div b) * 2 else flat div b)"
  have b: "0 < b" "max 1 (banks_per_group (org s)) = b" using dims by (simp_all add: b_def positive_dims_def)
  have g: "0 < bank_groups (org s)" using dims by (simp add: positive_dims_def)
  have pos: "refresh_positions s = (if lpddr_dual_bank_refresh s then max 1 (bank_groups (org s) div 2) * b else bank_groups (org s) * b)"
    using g b by (simp add: refresh_positions_def Let_def)
  have flat: "0 \<le> flat" "flat < refresh_positions s" by (simp_all add: flat_def refresh_positions_pos)
  have group: "0 \<le> group \<and> group < bank_groups (org s)"
  proof (cases "lpddr_dual_bank_refresh s")
    case True
    then have "flat div b < max 1 (bank_groups (org s) div 2)" using flat(2) pos b(1) by (intro int_div_less) simp_all
    moreover have "0 \<le> flat div b" using flat(1) b(1) by (simp add: pos_imp_zdiv_nonneg_iff)
    ultimately show ?thesis using True g by (simp add: group_def)
  next
    case False
    then have "flat div b < bank_groups (org s)" using flat(2) pos b(1) by (intro int_div_less) simp_all
    then show ?thesis using False flat(1) b(1) by (simp add: group_def pos_imp_zdiv_nonneg_iff)
  qed
  obtain c p where cp: "c \<in> {0..max 1 (channels (org s)) - 1}" "p \<in> {0..max 1 (pseudo_channels (org s)) - 1}"
    and d: "snd cd = decoded_zero\<lparr> da_channel := c, da_pseudo_channel := p, da_sid := sid_cursor st mod max 1 (sids (org s)),
      da_rank := rank, da_bank_group := group, da_bank := flat mod b \<rparr>"
    using cd False b(2) by (auto simp: seed_refresh_batch_def Let_def group_def flat_def split: if_splits)
  have "0 \<le> sid_cursor st mod max 1 (sids (org s))" "sid_cursor st mod max 1 (sids (org s)) < sids (org s)"
    using dims by (simp_all add: positive_dims_def max_def)
  moreover have "0 \<le> flat mod b" "flat mod b < banks_per_group (org s)" using b(1) by (simp_all add: b_def)
  ultimately show ?thesis using d cp rank group dims by (simp add: coordinates_def decoded_zero_def positive_dims_def)
qed

text \<open>The parts of a refresh tick that produce commands.\<close>

definition tick_typed :: "dram_spec \<Rightarrow> refresh_tick \<Rightarrow> bool" where
  "tick_typed s t \<longleftrightarrow> (\<forall>cd \<in> set (tick_commands t). snd cd \<in> coordinates s)"

lemma refresh_tick_typed:
  assumes dims: "positive_dims s" and t: "refresh_tick_step s clk postpone_ok pull_ok m = Some (Inr (t, m'))"
  shows "tick_typed s t"
proof -
  have none: "tick_typed s (refresh_tick0\<lparr> tick_credit := c \<rparr>)" "tick_typed s (refresh_tick0\<lparr> postponed := p, tick_credit := c \<rparr>)"
    "tick_typed s refresh_tick0" for c p
    by (simp_all add: tick_typed_def refresh_tick0_def)
  have ranks: "nat (max 1 (ranks (org s))) = nat (ranks (org s))" using dims by (simp add: positive_dims_def)
  have seeded: "tick_typed s t'" if "r < nat (ranks (org s))" "tick_commands t' = [] \<or> tick_commands t' = fst (seed_refresh_batch s (int r) st)"
    for t' r st
    using that seed_batch_coordinates [OF dims, of "int r"] by (auto simp: tick_typed_def)
  have due: "tick_typed s t'" if "r < nat (ranks (org s))" "serve_due s ok newly m0 r = Some (t', m1)" for r ok newly m0 t' m1
  proof -
    have "tick_commands t' = [] \<or> tick_commands t' = fst (seed_refresh_batch s (int r) (rank_states m0 ! r))"
      using that(2) by (simp add: serve_due_def Let_def case_prod_unfold refresh_tick0_def split: if_splits) auto
    then show ?thesis by (rule seeded [OF that(1)])
  qed
  have pull: "tick_typed s t'" if "r < nat (ranks (org s))" "pull_in s clk m0 r = Some (t', m1)" for r m0 t' m1
  proof -
    have "tick_commands t' = [] \<or> tick_commands t' = fst (seed_refresh_batch s (int r) (rank_states m0 ! r))"
      using that(2) by (simp add: pull_in_def Let_def case_prod_unfold refresh_tick0_def split: if_splits) auto
    then show ?thesis by (rule seeded [OF that(1)])
  qed
  have serve: "tick_typed s t'" if "length (rank_states m0) = nat (ranks (org s))"
    "serve_ranks s clk ok pull_ok newly m0 = (t', m1)" for ok newly m0 t' m1
    using that none due pull rank_order_less [of _ m0]
    by (auto simp: serve_ranks_def split: option.splits if_splits dest!: first_some_Some) blast+
  have caught: "length sts' = length sts" if "catch_up_all clk ticks sts = Some (sts', dues)" for ticks sts sts' dues
    using that by (induction sts arbitrary: sts' dues) (auto simp: Let_def split: option.splits prod.splits)
  show ?thesis
    using t none(3) ranks
    by (auto simp: refresh_tick_step_def refresh_reset_def bindR_eq_Inr split: if_splits sum.splits option.splits dest!: caught)
      (erule serve [rotated], simp)+
qed

lemma schedule_refresh_quiet:
  assumes "positive_dims s" "schedule_refresh s ch = Some (Inr ch')"
  shows "quiet_step s ch ch'"
proof -
  obtain po pl t m where t: "refresh_tick_step s (ch_clk ch) po pl (ch_refresh ch) = Some (Inr (t, m))"
    and ch': "ch' = fold (\<lambda>(c, d). schedule_maintenance c d) (tick_commands t) (ch\<lparr> ch_refresh := m \<rparr>)"
    using assms(2) by (auto simp: schedule_refresh_def Let_def bindR_eq_Inr split: option.splits)
  have "quiet_step s (ch\<lparr> ch_refresh := m \<rparr>) ch'"
    unfolding ch' using refresh_tick_typed [OF assms(1) t]
    by (intro fold_quiet) (auto simp: tick_typed_def intro!: schedule_maintenance_quiet)
  moreover have "quiet_step s ch (ch\<lparr> ch_refresh := m \<rparr>)" by (rule quiet_same) simp_all
  ultimately show ?thesis by (blast intro: quiet_trans)
qed

lemma all_requests_backlog: "all_requests (ch\<lparr> ch_backlog := rs \<rparr>) \<subseteq> all_requests ch \<union> set rs"
  by (auto simp: all_requests_def ch_queue_def)

lemma service_backlog_part: "protocol_part (service_backlog rs ch) = protocol_part ch"
  by (induction rs arbitrary: ch) simp_all

lemma service_backlog_requests: "all_requests (service_backlog rs ch) \<subseteq> all_requests ch \<union> set rs"
proof (induction rs arbitrary: ch)
  case Nil
  then show ?case using all_requests_backlog [where ch = ch and rs = "[]"] by simp
next
  case (Cons r rs)
  from Cons [of "push_request QPriority r ch"] all_requests_backlog [where ch = ch and rs = "r # rs"] show ?case by auto
qed

lemma service_pending_maintenance_quiet: "quiet_step s ch (service_pending_maintenance ch)"
  using service_backlog_requests [of "ch_backlog ch" ch]
  by (intro quiet_same) (auto simp: service_pending_maintenance_def service_backlog_part all_requests_def)

lemma decoded_from_flat_bank_coordinates:
  assumes "positive_dims s" "int flat < bank_total s"
  shows "decoded_from_flat_bank s (int flat) \<in> coordinates s"
proof -
  define b g r i p where defs: "b = banks_per_group (org s)" "g = bank_groups (org s)" "r = ranks (org s)" "i = sids (org s)"
    "p = pseudo_channels (org s)"
  have pos: "0 < b" "0 < g" "0 < r" "0 < i" "0 < p" using assms(1) by (simp_all add: defs positive_dims_def)
  have "int flat < channels (org s) * p * i * r * g * b"
    using assms(2) by (simp add: bank_total_def defs ac_simps)
  then have "int flat div b < channels (org s) * p * i * r * g" by (rule int_div_less [OF pos(1)])
  then have "int flat div b div g < channels (org s) * p * i * r" by (rule int_div_less [OF pos(2)])
  then have "int flat div b div g div r < channels (org s) * p * i" by (rule int_div_less [OF pos(3)])
  then have "int flat div b div g div r div i < channels (org s) * p" by (rule int_div_less [OF pos(4)])
  then have channel: "int flat div b div g div r div i div p < channels (org s)" by (rule int_div_less [OF pos(5)])
  have "0 \<le> int flat div b div g div r div i div p" using pos by (simp add: pos_imp_zdiv_nonneg_iff)
  with channel pos assms(1) show ?thesis
    by (simp add: decoded_from_flat_bank_def coordinates_def Let_def decoded_zero_def defs positive_dims_def)
qed

lemma pre_schedule_bank_quiet:
  assumes "positive_dims s" "int flat < bank_total s"
  shows "quiet_step s ch (pre_schedule_bank s opt flat ch)"
proof -
  have "protocol_part (pre_schedule_bank s opt flat ch) = protocol_part ch"
    by (simp add: pre_schedule_bank_def Let_def protocol_on_ctl)
  moreover have "dr_decoded r \<in> coordinates s" if "r \<in> all_requests (pre_schedule_bank s opt flat ch) - all_requests ch" for r
    using that decoded_from_flat_bank_coordinates [OF assms]
    by (auto simp: pre_schedule_bank_def Let_def all_requests_on_ctl dram_request0_def split: if_splits)
  ultimately show ?thesis by (simp add: quiet_step_def)
qed

lemma apply_row_policy_quiet:
  assumes "positive_dims s" "length (column_accesses (ct_row_policy (ch_ctl ch))) = nat (bank_total s)"
  shows "quiet_step s ch (apply_row_policy_pre_schedule s opt ch)"
  using assms by (auto simp: apply_row_policy_pre_schedule_def intro!: fold_quiet pre_schedule_bank_quiet)

section \<open>Admission and completion\<close>

lemma annotate_newest_history:
  "map (\<lambda>e. (ic_command e, ic_decoded e, ic_cycle e)) (annotate_newest r c (annotate_entry r p ms im i) es) =
   map (\<lambda>e. (ic_command e, ic_decoded e, ic_cycle e)) es"
  by (induction es) (simp_all add: annotate_entry_def Let_def split: option.split)

lemma annotate_simps [simp]:
  "protocol_part (annotate_issued_data opt r c p ms im i ch) = protocol_part ch"
  "all_requests (annotate_issued_data opt r c p ms im i ch) = all_requests ch"
  by (simp_all add: annotate_issued_data_def protocol_part_def history_def annotate_newest_history ch_clk_def all_requests_def ch_queue_def)

text \<open>The operations that leave both parts alone.\<close>

definition still :: "channel \<Rightarrow> channel \<Rightarrow> bool" where
  "still ch ch' \<longleftrightarrow> protocol_part ch' = protocol_part ch \<and> all_requests ch' = all_requests ch"

lemma still_quiet: "still ch ch' \<Longrightarrow> quiet_step s ch ch'"
  by (simp add: still_def quiet_same)

lemma commit_write_still: "commit_write_data s opt r ch = Inr (r', ch') \<Longrightarrow> still ch ch'"
  by (auto simp: commit_write_data_def Let_def bindR_eq_Inr still_def)

lemma complete_request_still:
  assumes "complete_request s opt r ch = Inr ch'"
  shows "still ch ch'"
proof (cases "dr_type r")
  case ReqRead
  with assms show ?thesis
    by (cases "dr_bypass_dram r") (auto simp: complete_request_def complete_read_def Let_def bindR_eq_Inr still_def)
next
  case ReqWrite
  with assms show ?thesis
    using commit_write_still
    by (fastforce simp: complete_request_def complete_write_def Let_def bindR_eq_Inr still_def split: if_splits)
next
  case ReqMaintenance
  with assms show ?thesis by (simp add: complete_request_def still_def)
qed

lemma complete_loop_still: "complete_loop s opt rs ch = Inr (kept, ch') \<Longrightarrow> still ch ch'"
proof (induction rs arbitrary: ch kept)
  case Nil
  then show ?case by (simp add: still_def)
next
  case (Cons r rs)
  then show ?case
    using complete_request_still by (fastforce simp: bindR_eq_Inr still_def split: if_splits)
qed

lemma complete_pending_still:
  assumes "complete_pending s opt ch = Inr ch'"
  shows "still ch ch'"
proof -
  obtain kept ch1 where loop: "complete_loop s opt (ct_pending (ch_ctl ch)) ch = Inr (kept, ch1)"
    and ch': "ch' = on_ctl (\<lambda>k. k\<lparr> ct_pending := kept \<rparr>) ch1"
    using assms by (auto simp: complete_pending_def bindR_eq_Inr)
  show ?thesis using complete_loop_still [OF loop] by (simp add: ch' still_def protocol_on_ctl all_requests_on_ctl)
qed

lemma wake_quiet: "dr_decoded r \<in> coordinates s \<Longrightarrow> quiet_step s ch (wake s r ch)"
proof -
  assume "dr_decoded r \<in> coordinates s"
  then have m: "quiet_step s ch (schedule_maintenance c (dr_decoded r) ch)" for c by (rule schedule_maintenance_quiet)
  show ?thesis
    using m by (auto simp: wake_def Let_def protocol_on_ctl all_requests_on_ctl quiet_step_def)
qed

lemma validate_request_decoded_iff: "validate_request_decoded s d = Inr () \<longleftrightarrow> d \<in> coordinates s"
  by (auto simp: validate_request_decoded_def require_field_def bindR_eq_Inr coordinates_def)

lemma enqueue_quiet:
  assumes "enqueue s opt r ch = Inr (ok, ch')"
  shows "quiet_step s ch ch'"
proof -
  define r1 where "r1 = r\<lparr> dr_arrival := ch_clk ch \<rparr>"
  have d: "dr_decoded r1 \<in> coordinates s"
    using assms by (auto simp: enqueue_def bindR_eq_Inr validate_request_def validate_request_decoded_iff r1_def)
  have payload: "dr_decoded (ensure_write_payload s r1) = dr_decoded r1" by (simp add: ensure_write_payload_def Let_def)
  have "quiet_step s (wake s r1 ch) ch'"
  proof (cases "dr_type r1")
    case ReqRead
    with assms have "accept_read s opt r1 (wake s r1 ch) = Inr (ok, ch')"
      by (auto simp: enqueue_def bindR_eq_Inr r1_def Let_def)
    then show ?thesis using d
      by (auto simp: accept_read_def take_sequence_def Let_def bindR_eq_Inr quiet_step_def split: if_splits)
  next
    case ReqWrite
    with assms have "ch' = snd (accept_write s r1 (wake s r1 ch))"
      by (auto simp: enqueue_def bindR_eq_Inr r1_def Let_def)
    then show ?thesis using d payload
      by (auto simp: accept_write_def take_sequence_def Let_def quiet_step_def split: if_splits)
  next
    case ReqMaintenance
    with assms have "ch' = snd (accept_maintenance r1 (wake s r1 ch))"
      by (auto simp: enqueue_def bindR_eq_Inr r1_def Let_def)
    then show ?thesis using d
      by (auto simp: accept_maintenance_def take_sequence_def Let_def quiet_step_def split: if_splits)
  qed
  with wake_quiet [OF d] show ?thesis by (blast intro: quiet_trans)
qed

section \<open>The chosen command\<close>

text \<open>A choice is admitted by the gates, and a write is not chosen before the older reads it overlaps.\<close>

definition good_choice :: "dram_spec \<Rightarrow> controller \<Rightarrow> chosen \<Rightarrow> bool" where
  "good_choice s k c \<longleftrightarrow>
     (let q = rq_queues (ct_queues k) (cd_buffer c); r = q ! cd_index c in
      cd_index c < length q \<and> timing_ok s k r (cd_command c)
      \<and> \<not> (dr_type r = ReqWrite \<and> has_unresolved_overlapping_read s k r (dr_controller_sequence r)))"

text \<open>What choosing may change: the policy counters, the write mode and the head of the priority queue.\<close>

definition choice_frame :: "controller \<Rightarrow> controller \<Rightarrow> bool" where
  "choice_frame k k' \<longleftrightarrow> (\<exists>rs p wm. set rs \<subseteq> set (rq_queues (ct_queues k) QPriority)
     \<and> length (column_accesses p) = length (column_accesses (ct_row_policy k))
     \<and> k' = (put_queue QPriority rs k)\<lparr> ct_row_policy := p, ct_write_mode := wm \<rparr>)"

lemma choice_frame_refl: "choice_frame k k"
  unfolding choice_frame_def
  by (rule exI [of _ "rq_queues (ct_queues k) QPriority"], rule exI [of _ "ct_row_policy k"], rule exI [of _ "ct_write_mode k"])
    (simp add: put_queue_def)

lemma choice_frame_mode: "choice_frame k k' \<Longrightarrow> choice_frame k (k'\<lparr> ct_write_mode := wm \<rparr>)"
proof -
  assume "choice_frame k k'"
  then obtain rs p wm' where "set rs \<subseteq> set (rq_queues (ct_queues k) QPriority)"
    "length (column_accesses p) = length (column_accesses (ct_row_policy k))"
    "k' = (put_queue QPriority rs k)\<lparr> ct_row_policy := p, ct_write_mode := wm' \<rparr>"
    by (auto simp: choice_frame_def)
  then show ?thesis
    unfolding choice_frame_def by (intro exI [of _ rs] exI [of _ p] exI [of _ wm]) simp
qed

lemma drop_satisfied_frame: "set rs \<subseteq> set (rq_queues (ct_queues k) QPriority) \<Longrightarrow> choice_frame k (drop_satisfied s opt rs k)"
proof (induction rs arbitrary: k)
  case Nil
  then show ?case
    unfolding choice_frame_def
    by (intro exI [of _ "[]"] exI [of _ "ct_row_policy k"] exI [of _ "ct_write_mode k"]) (simp add: put_queue_def)
next
  case (Cons r rs)
  define p where "p = row_policy_issue (co_row_policy opt) (flat_bank s (dr_decoded r)) PREPB (ct_row_policy k)"
  show ?case
  proof (cases "dr_next r \<noteq> PREPB \<or> bank_busy (ct_bank s k (dr_decoded r))")
    case True
    with Cons.prems show ?thesis
      unfolding choice_frame_def
      by (intro exI [of _ "r # rs"] exI [of _ "ct_row_policy k"] exI [of _ "ct_write_mode k"]) (simp add: put_queue_def)
  next
    case False
    have "choice_frame (k\<lparr> ct_row_policy := p \<rparr>) (drop_satisfied s opt rs (k\<lparr> ct_row_policy := p \<rparr>))"
      using Cons.prems by (intro Cons.IH) simp
    then show ?thesis using False
      by (auto simp: choice_frame_def p_def put_queue_def)
  qed
qed

lemma selected_ready: "select_scheduled_request kind cs = Some c \<Longrightarrow> c \<in> set cs \<and> cand_ready c"
proof -
  assume sel: "select_scheduled_request kind cs = Some c"
  obtain P where "oldest P cs = Some c" "P c \<Longrightarrow> cand_ready c \<or> kind = FCFS" "kind = FCFS \<Longrightarrow> cand_ready c"
    using sel by (cases kind) (auto simp: select_by_oldest split: option.splits if_splits)
  with oldest_correct [of P cs] show ?thesis by (auto simp: is_oldest_def)
qed

lemma pick_best_good: "pick_best_ready_from s opt k kind bus avoid = Some c \<Longrightarrow> good_choice s k c"
  by (fastforce simp: pick_best_ready_from_def good_choice_def candidate_of_def candidate_eligible_def map_filter_def Let_def
    split: option.splits if_splits dest!: selected_ready)

lemma fold_result_inv:
  assumes "fold_result f xs st = Inr st'" "P st" "\<And>x st st'. x \<in> set xs \<Longrightarrow> P st \<Longrightarrow> f x st = Inr st' \<Longrightarrow> P st'"
  shows "P st'"
  using assms by (induction xs arbitrary: st) (auto simp: bindR_eq_Inr)

lemma pick_urgent_good:
  assumes "pick_urgent_act2 s opt k bus = Inr (Some c)"
  shows "good_choice s k c"
proof -
  let ?P = "\<lambda>best. \<forall>i d. best = Some (i, d) \<longrightarrow> i < length (rq_queues (ct_queues k) QActive)
    \<and> timing_ok s k (rq_queues (ct_queues k) QActive ! i) ACT2
    \<and> candidate_eligible s k (rq_queues (ct_queues k) QActive ! i) ACT2 bus QActive False"
  obtain i d where fold: "fold_result (urgent_step s opt k bus) [0..<length (rq_queues (ct_queues k) QActive)] None = Inr (Some (i, d))"
    and c: "c = \<lparr> cd_index = i, cd_buffer = QActive, cd_command = ACT2, cd_bus = bus \<rparr>"
    using assms by (auto simp: pick_urgent_act2_def bindR_eq_Inr split: if_splits)
  have "?P (Some (i, d))"
    by (rule fold_result_inv [OF fold]) (auto simp: urgent_step_def Let_def split: if_splits option.splits)
  then show ?thesis by (auto simp: c good_choice_def candidate_eligible_def Let_def split: if_splits)
qed

lemma pick_priority_good:
  assumes "pick_priority_if s opt k bus = (c, k')"
  shows "choice_frame k k' \<and> (\<forall>cd. c = Some cd \<longrightarrow> good_choice s k' cd)"
proof -
  have "choice_frame k (drop_satisfied s opt (rq_queues (ct_queues k) QPriority) k)" by (rule drop_satisfied_frame) simp
  with assms show ?thesis
    by (auto simp: pick_priority_if_def good_choice_def candidate_eligible_def Let_def split: list.splits option.splits if_splits)
qed

lemma pick_rw_good:
  assumes "pick_rw_if s opt k bus = (c, k')"
  shows "k' = set_write_mode opt k \<and> (\<forall>cd. c = Some cd \<longrightarrow> good_choice s k' cd)"
  using assms by (auto simp: pick_rw_if_def Let_def pick_best_good split: if_splits option.splits)

lemma set_write_mode_frame: "choice_frame k k' \<Longrightarrow> choice_frame k (set_write_mode opt k')"
proof -
  assume "choice_frame k k'"
  moreover have "set_write_mode opt k' = k'\<lparr> ct_write_mode := ct_write_mode (set_write_mode opt k') \<rparr>"
    by (simp add: set_write_mode_def Let_def)
  ultimately show ?thesis by (metis choice_frame_mode)
qed

lemma choose_good:
  assumes "choose_command s opt k bus = Inr (c, k')"
  shows "choice_frame k k' \<and> (\<forall>cd. c = Some cd \<longrightarrow> good_choice s k' cd)"
proof -
  obtain c1 where c1: "pick_urgent_act2 s opt k bus = Inr c1"
    using assms by (auto simp: choose_command_def bindR_eq_Inr)
  define c2 where "c2 = (if c1 = None \<and> (bus = BusColumn \<or> bus = BusUnified) then pick_best_ready_from s opt k QActive bus False else c1)"
  obtain c3 k3 where c3: "(if c2 = None then pick_priority_if s opt k bus else (c2, k)) = (c3, k3)" by fastforce
  have last: "(if c3 = None \<and> rq_queues (ct_queues k3) QPriority = [] then pick_rw_if s opt k3 bus else (c3, k3)) = (c, k')"
    using assms unfolding choose_command_def c1 bindR_Inr Let_def c2_def [symmetric] c3 prod.case by (simp add: case_prod_unfold)
  have good2: "\<forall>cd. c2 = Some cd \<longrightarrow> good_choice s k cd"
    using c1 by (auto simp: c2_def pick_urgent_good pick_best_good split: if_splits)
  have good3: "choice_frame k k3 \<and> (\<forall>cd. c3 = Some cd \<longrightarrow> good_choice s k3 cd)"
    using c3 good2 pick_priority_good choice_frame_refl by (auto split: if_splits)
  show ?thesis
    using last good3 by (auto dest!: pick_rw_good intro: set_write_mode_frame split: if_splits)
qed

lemma try_upgrade_good: "good_choice s k c \<Longrightarrow> good_choice s k (try_upgrade s opt k c)"
  by (auto simp: try_upgrade_def good_choice_def Let_def)

lemma try_upgrade_frame: "cd_buffer (try_upgrade s opt k c) = cd_buffer c" "cd_index (try_upgrade s opt k c) = cd_index c"
  by (simp_all add: try_upgrade_def Let_def)

lemma choice_quiet:
  assumes "choice_frame (ch_ctl ch) k"
  shows "quiet_step s ch (on_ctl (\<lambda>_. k) ch)"
proof -
  obtain rs p wm where rs: "set rs \<subseteq> set (rq_queues (ct_queues (ch_ctl ch)) QPriority)"
    "length (column_accesses p) = length (column_accesses (ct_row_policy (ch_ctl ch)))"
    "k = (put_queue QPriority rs (ch_ctl ch))\<lparr> ct_row_policy := p, ct_write_mode := wm \<rparr>"
    using assms by (auto simp: choice_frame_def)
  show ?thesis
  proof (rule quiet_same)
    show "protocol_part (on_ctl (\<lambda>_. k) ch) = protocol_part ch"
      using rs by (simp add: protocol_part_def history_def ch_clk_def on_ctl_def put_queue_def)
    have "set (rq_queues (ct_queues k) kind) \<subseteq> set (rq_queues (ct_queues (ch_ctl ch)) kind)" for kind
      using rs by (simp add: put_queue_def)
    then show "all_requests (on_ctl (\<lambda>_. k) ch) \<subseteq> all_requests ch"
      by (fastforce simp: all_requests_def ch_queue_def on_ctl_def)
  qed
qed

section \<open>Issue\<close>

lemma rq_erase_result:
  assumes "rq_erase s kind i q = Inr q'"
  shows "rq_queues q' = (rq_queues q)(kind := remove_nth i (rq_queues q kind))"
proof (cases "length (rq_queues q kind) \<le> i")
  case True
  with assms show ?thesis by (simp add: rq_erase_def remove_nth_def)
next
  case False
  with assms show ?thesis by (auto simp: rq_erase_def Let_def bindR_eq_Inr split: if_splits)
qed

lemma rq_promote_result:
  assumes "rq_promote s kind i q = Inr (b, q')"
  obtains "q' = q"
  | "kind \<noteq> QActive" "i < length (rq_queues q kind)"
    "rq_queues q' = (rq_queues q)(QActive := rq_queues q QActive @ [rq_queues q kind ! i], kind := remove_nth i (rq_queues q kind))"
proof (cases "kind = QActive \<or> length (rq_queues q kind) \<le> i \<or> \<not> rq_has_space q QActive")
  case True
  with assms that(1) show ?thesis by (auto simp: rq_promote_def)
next
  case False
  then have "q' = q\<lparr> rq_queues := (rq_queues q)(QActive := rq_queues q QActive @ [rq_queues q kind ! i], kind := remove_nth i (rq_queues q kind)),
      active_counts := active_counts q' \<rparr>"
    using assms unfolding rq_promote_def Let_def by (auto simp: bindR_eq_Inr)
  with False that(2) show ?thesis by (metis not_le request_queues.select_convs(1) request_queues.surjective request_queues.update_convs(1,3))
qed

lemma rq_erase_subset: "rq_erase s kind i q = Inr q' \<Longrightarrow> set (rq_queues q' kind') \<subseteq> set (rq_queues q kind')"
  using set_remove_nth [of i "rq_queues q kind"] by (simp add: rq_erase_result)

lemma rq_promote_subset:
  assumes "rq_promote s kind i q = Inr (b, q')"
  shows "set (rq_queues q' kind') \<subseteq> (\<Union>kd. set (rq_queues q kd))"
  using assms
proof (rule rq_promote_result)
  assume "q' = q"
  then show ?thesis by blast
next
  assume i: "kind \<noteq> QActive" "i < length (rq_queues q kind)" and q': "rq_queues q' =
      (rq_queues q)(QActive := rq_queues q QActive @ [rq_queues q kind ! i], kind := remove_nth i (rq_queues q kind))"
  have "rq_queues q kind ! i \<in> set (rq_queues q kind)" using i(2) by simp
  then show ?thesis using i(1) set_remove_nth [of i "rq_queues q kind"]
    by (cases "kind' = kind"; cases "kind' = QActive") (auto simp: q')
qed

lemma set_queues_still:
  assumes "\<And>kind. set (rq_queues q kind) \<subseteq> (\<Union>kd. set (ch_queue ch kd))"
  shows "protocol_part (on_ctl (\<lambda>k. k\<lparr> ct_queues := q \<rparr>) ch) = protocol_part ch"
    "all_requests (on_ctl (\<lambda>k. k\<lparr> ct_queues := q \<rparr>) ch) \<subseteq> all_requests ch"
  using assms by (simp_all add: protocol_on_ctl) (fastforce simp: all_requests_def ch_queue_def on_ctl_def)

lemma bindR_pairE:
  assumes "bindR m (\<lambda>(x, y). f x y) = Inr z"
  obtains x y where "m = Inr (x, y)" "f x y = Inr z"
  using assms by (auto simp: bindR_eq_Inr)

lemma retire_data_quiet:
  assumes "retire_data s opt c issued r ch = Inr ch'"
  shows "quiet_step s ch ch'"
proof -
  define r0 where "r0 = r\<lparr> dr_issued_data_command := issued, dr_issued_cycle := ch_clk ch \<rparr>"
  define rm where "rm = merged_request (map_of (ch_buffered ch) (dr_address r0)) r0"
  define ch0 where "ch0 = ch\<lparr> ch_buffered := AList.delete (dr_address rm) (ch_buffered ch),
      ch_buffered_addrs := ch_buffered_addrs ch - {dr_address rm} \<rparr>"
  obtain r1 ch1 where commit: "(if dr_type r0 = ReqWrite
      then commit_write_data s opt rm ch0 else Inr (r0, ch)) = Inr (r1, ch1)"
    and rest: "bindR (rq_erase s (cd_buffer c) (cd_index c)
        (ct_queues (ch_ctl (push_pending (r1\<lparr> dr_completion := completion_cycle s issued (ch_clk ch1) \<rparr>) ch1))))
      (\<lambda>q. Inr (on_ctl (\<lambda>k. k\<lparr> ct_queues := q \<rparr>) (push_pending (r1\<lparr> dr_completion := completion_cycle s issued (ch_clk ch1) \<rparr>) ch1))) = Inr ch'"
    by (rule bindR_pairE [OF assms [unfolded retire_data_def Let_def, folded r0_def, folded rm_def, folded ch0_def]])
  define ch2 where "ch2 = push_pending (r1\<lparr> dr_completion := completion_cycle s issued (ch_clk ch1) \<rparr>) ch1"
  have "still ch ch0" by (simp add: ch0_def still_def)
  then have "still ch ch1" using commit commit_write_still by (fastforce simp: still_def split: if_splits)
  then have ch2: "still ch ch2" by (simp add: ch2_def still_def)
  obtain q where q: "rq_erase s (cd_buffer c) (cd_index c) (ct_queues (ch_ctl ch2)) = Inr q"
    and ch': "ch' = on_ctl (\<lambda>k. k\<lparr> ct_queues := q \<rparr>) ch2"
    using rest by (auto simp: bindR_eq_Inr ch2_def)
  have "set (rq_queues q kind) \<subseteq> (\<Union>kd. set (ch_queue ch2 kd))" for kind
    using rq_erase_subset [OF q, of kind] by (auto simp: ch_queue_def)
  from set_queues_still [OF this] ch2 show ?thesis by (auto simp: ch' still_def intro!: quiet_same)
qed

lemma retire_or_advance_quiet:
  assumes "retire_or_advance s opt c issued ch = Inr ch'"
  shows "quiet_step s ch ch'"
proof -
  have erase: "quiet_step s ch (on_ctl (\<lambda>k. k\<lparr> ct_queues := q \<rparr>) (count_life f ch))"
    if "rq_erase s (cd_buffer c) (cd_index c) (ct_queues (ch_ctl ch)) = Inr q" for q f
  proof -
    have "set (rq_queues q kind) \<subseteq> (\<Union>kd. set (ch_queue (count_life f ch) kd))" for kind
      using rq_erase_subset [OF that, of kind] by (auto simp: ch_queue_def count_life_def)
    from set_queues_still [OF this] show ?thesis by (intro quiet_same) simp_all
  qed
  have promote: "quiet_step s ch (on_ctl (\<lambda>k. k\<lparr> ct_queues := q \<rparr>) ch)"
    if "rq_promote s (cd_buffer c) (cd_index c) (ct_queues (ch_ctl ch)) = Inr (b, q)" for q b
    using set_queues_still [of q ch] rq_promote_subset [OF that] by (intro quiet_same) (auto simp: ch_queue_def)
  define r where "r = ch_queue ch (cd_buffer c) ! cd_index c"
  note defs = retire_or_advance_def Let_def r_def bindR_eq_Inr
  show ?thesis
  proof (cases "length (ch_queue ch (cd_buffer c)) \<le> cd_index c \<or> is_maintenance r \<and> issued = dr_next r")
    case True
    with assms erase show ?thesis by (auto simp: defs split: if_splits)
  next
    case False
    show ?thesis
    proof (cases "meta_opening (command_meta_of issued) \<and> \<not> is_maintenance r \<and> cd_buffer c \<noteq> QActive")
      case True
      with assms False promote show ?thesis by (auto simp: defs)
    next
      case other: False
      with assms False have "ch' = ch \<or> retire_data s opt c issued r ch = Inr ch'"
        by (simp add: retire_or_advance_def Let_def flip: r_def split: if_splits)
      with retire_data_quiet show ?thesis by auto
    qed
  qed
qed

lemma issue_request_decoded [simp]: "dr_decoded (issue_request s c r) = dr_decoded r"
  by (simp add: issue_request_def)

lemma exec_issue_parts:
  assumes "exec_issue s r c t x = (r', rfm, x')"
  shows "r' = issue_request s c r" "rfm = Some (m, d) \<Longrightarrow> d = dr_decoded r"
  using assms
  by (auto simp: exec_issue_def Let_def issue_rfm_def rfm_on_activate_def split: prod.splits if_splits)

lemma execute_result:
  assumes x: "exec_issue s r (cd_command c) (ch_clk ch) (ct_exec (ch_ctl ch)) = (r', rfm, x')"
    and d: "dr_decoded r \<in> coordinates s" and ok: "decoded_ok s ch"
  shows "protocol_part (execute s c r ch) = (x', snd (protocol_part ch))" "decoded_ok s (execute s c r ch)"
proof -
  define ch1 where "ch1 = on_ctl (\<lambda>k. put_queue (cd_buffer c) ((rq_queues (ct_queues k) (cd_buffer c))[cd_index c := r']) (k\<lparr> ct_exec := x' \<rparr>)) ch"
  have part: "protocol_part ch1 = (x', snd (protocol_part ch))"
    by (simp add: ch1_def protocol_part_def on_ctl_def put_queue_def ch_clk_def history_def)
  have "r' = issue_request s (cd_command c) r" by (rule exec_issue_parts(1) [OF x])
  then have d': "dr_decoded r' \<in> coordinates s" using d by simp
  have "all_requests ch1 \<subseteq> insert r' (all_requests ch)"
    using set_update_subset_insert [of "rq_queues (ct_queues (ch_ctl ch)) (cd_buffer c)" "cd_index c" r']
    by (fastforce simp: ch1_def all_requests_def ch_queue_def on_ctl_def put_queue_def split: if_splits)
  then have ok1: "decoded_ok s ch1" using ok d' by (auto simp: decoded_ok_def)
  have exec: "execute s c r ch = (case rfm of None \<Rightarrow> ch1 | Some (m, d) \<Rightarrow> schedule_maintenance m d ch1)"
    unfolding execute_def Let_def x prod.case ch1_def by (rule refl)
  show "protocol_part (execute s c r ch) = (x', snd (protocol_part ch))" "decoded_ok s (execute s c r ch)"
    using part ok1 d exec_issue_parts(2) [OF x] schedule_maintenance_quiet [of "dr_decoded r" s ch1]
    by (auto simp: exec quiet_step_def decoded_ok_def split: option.splits)
qed

lemma counted_simps:
  "wck_ready s k (r\<lparr> dr_row_status_counted := b \<rparr>) = wck_ready s k r"
  "is_maintenance (r\<lparr> dr_row_status_counted := b \<rparr>) = is_maintenance r"
  "dr_decoded (r\<lparr> dr_row_status_counted := b \<rparr>) = dr_decoded r"
  "dr_issued_first_activate (r\<lparr> dr_row_status_counted := b \<rparr>) = dr_issued_first_activate r"
  by (simp_all add: wck_ready_def is_maintenance_def)

lemma timing_ok_counted [simp]: "timing_ok s k (r\<lparr> dr_row_status_counted := b \<rparr>) c = timing_ok s k r c"
proof -
  have "command_snapshot s k (r\<lparr> dr_row_status_counted := b \<rparr>) c = command_snapshot s k r c"
    by (simp only: command_snapshot_def counted_simps)
  moreover have "local_gates s k (r\<lparr> dr_row_status_counted := b \<rparr>) c = local_gates s k r c"
    by (simp only: local_gates_def counted_simps)
  ultimately show ?thesis by (simp add: timing_ok_def state_ok_def)
qed

section \<open>The loop follows the step relation\<close>

definition tracks :: "dram_spec \<Rightarrow> controller \<Rightarrow> channel \<Rightarrow> bool" where
  "tracks s k0 ch \<longleftrightarrow> dram_run s k0 (history ch) (ch_ctl ch) \<and> decoded_ok s ch
     \<and> length (column_accesses (ct_row_policy (ch_ctl ch))) = nat (bank_total s)"

lemma tracks_quiet:
  assumes "tracks s k0 ch" "quiet_step s ch ch'"
  shows "tracks s k0 ch'"
proof -
  have part: "ct_exec (ch_ctl ch') = ct_exec (ch_ctl ch)" "ct_clk (ch_ctl ch') = ct_clk (ch_ctl ch)" "history ch' = history ch"
    "length (column_accesses (ct_row_policy (ch_ctl ch'))) = length (column_accesses (ct_row_policy (ch_ctl ch)))"
    using assms(2) by (simp_all add: quiet_step_def protocol_part_def ch_clk_def)
  have "dram_step s (ch_ctl ch) None (ch_ctl ch')" using part by (intro dram_wait) (simp_all add: ct_banks_def ct_engine_def)
  with assms part show ?thesis by (auto simp: tracks_def decoded_ok_def quiet_step_def intro: run_wait)
qed

lemma tracks_wait:
  assumes "tracks s k0 ch" "dram_step s (ch_ctl ch) None (f (ch_ctl ch))"
    "ct_queues (f (ch_ctl ch)) = ct_queues (ch_ctl ch)" "ct_row_policy (f (ch_ctl ch)) = ct_row_policy (ch_ctl ch)"
  shows "tracks s k0 (on_ctl f ch)"
  using assms by (auto simp: tracks_def decoded_ok_def all_requests_def ch_queue_def on_ctl_def history_def intro: run_wait)

lemma issue_command_tracks:
  assumes tr: "tracks s k0 ch" and good: "good_choice s (ch_ctl ch) c" and trace: "co_retain_command_trace opt"
    and issue: "issue_command s opt c ch = Inr ch'"
  shows "tracks s k0 ch'"
proof -
  define r where "r = ch_queue ch (cd_buffer c) ! cd_index c"
  define r1 where "r1 = (if is_maintenance r then r else r\<lparr> dr_row_status_counted := True \<rparr>)"
  define ch1 where "ch1 = append_issued opt r (cd_command c) (cd_bus c) ch"
  have idx: "cd_index c < length (ch_queue ch (cd_buffer c))" and ok: "timing_ok s (ch_ctl ch) r1 (cd_command c)"
    using good by (simp_all add: good_choice_def ch_queue_def r_def r1_def Let_def)
  have "r \<in> set (ch_queue ch (cd_buffer c))" using idx by (simp add: r_def)
  then have "r \<in> all_requests ch" by (auto simp: all_requests_def)
  then have d: "dr_decoded r \<in> coordinates s" "dr_decoded r1 = dr_decoded r" using tr by (simp_all add: tracks_def decoded_ok_def r1_def)
  obtain ch2 where ch2: "apply_storage_command_event opt r1 (cd_command c) ch1 = Inr ch2"
    and rest: "retire_or_advance s opt c (cd_command c)
      (on_ctl (\<lambda>k. if hbm_edge_pairing s \<and> cd_bus c = BusRow \<and> is_rising_edge k then record_rising_row_command s r1 (cd_command c) k else k)
        (on_ctl (\<lambda>k. k\<lparr> ct_row_policy := row_policy_issue (co_row_policy opt) (flat_bank s (dr_decoded r1)) (cd_command c) (ct_row_policy k) \<rparr>)
          (on_ctl (low_power_flags (cd_command c) \<circ> training_debt s (cd_command c)) (execute s c r1 ch2)))) = Inr ch'"
    using issue idx unfolding issue_command_def Let_def r_def [symmetric] r1_def [symmetric] ch1_def [symmetric]
    by (auto simp: bindR_eq_Inr simp del: o_apply)
  have still2: "still ch1 ch2" using ch2 by (auto simp: apply_storage_command_event_def Let_def bindR_eq_Inr still_def)
  obtain r' rfm x' where x: "exec_issue s r1 (cd_command c) (ch_clk ch2) (ct_exec (ch_ctl ch2)) = (r', rfm, x')"
    by (cases "exec_issue s r1 (cd_command c) (ch_clk ch2) (ct_exec (ch_ctl ch2))")
  have requests1: "all_requests ch1 = all_requests ch" and part1: "protocol_part ch1 =
      (ct_exec (ch_ctl ch), ch_clk ch, (cd_command c, dr_decoded r, ch_clk ch) # history ch, length (column_accesses (ct_row_policy (ch_ctl ch))))"
    using trace by (simp_all add: ch1_def append_issued_def all_requests_def ch_queue_def protocol_part_def history_def ch_clk_def)
  have ok2: "decoded_ok s ch2" using still2 requests1 tr by (simp add: still_def decoded_ok_def tracks_def)
  note exec = execute_result [OF x _ ok2]
  let ?ch3 = "execute s c r1 ch2"
  have "quiet_step s ?ch3 ch'"
  proof -
    have flags: "still ?ch3 (on_ctl (low_power_flags (cd_command c) \<circ> training_debt s (cd_command c)) ?ch3)"
      by (simp add: still_def protocol_on_ctl all_requests_on_ctl low_power_flags_def training_debt_def)
    have policy: "still cx (on_ctl (\<lambda>k. k\<lparr> ct_row_policy := row_policy_issue (co_row_policy opt) (flat_bank s (dr_decoded r1)) (cd_command c) (ct_row_policy k) \<rparr>) cx)"
      for cx by (simp add: still_def protocol_on_ctl all_requests_on_ctl)
    have edge: "still cx (on_ctl (\<lambda>k. if hbm_edge_pairing s \<and> cd_bus c = BusRow \<and> is_rising_edge k then record_rising_row_command s r1 (cd_command c) k else k) cx)"
      for cx by (simp add: still_def protocol_on_ctl all_requests_on_ctl record_rising_row_command_def)
    from still_quiet [OF flags] still_quiet [OF policy] still_quiet [OF edge] retire_or_advance_quiet [OF rest]
    show ?thesis by (blast intro: quiet_trans)
  qed
  moreover have "protocol_part ?ch3 = (x', snd (protocol_part ch1))" "decoded_ok s ?ch3"
    using exec d still2 by (simp_all add: still_def)
  ultimately have part: "protocol_part ch' = (x', snd (protocol_part ch1))" and ok': "decoded_ok s ch'"
    by (auto simp: quiet_step_def decoded_ok_def)
  have same: "ch_clk ch2 = ch_clk ch" "ct_exec (ch_ctl ch2) = ct_exec (ch_ctl ch)"
    using still2 part1 by (simp_all add: still_def protocol_part_def)
  have "dram_step s (ch_ctl ch) (Some (cd_command c, dr_decoded r1, ct_clk (ch_ctl ch))) (ch_ctl ch')"
    using ok d x same part part1 by (intro dram_issue [of s _ r1 _ r' rfm]) (simp_all add: protocol_part_def ch_clk_def)
  with tr ok' part part1 d show ?thesis
    by (auto simp: tracks_def protocol_part_def ch_clk_def intro: run_issue)
qed

lemma serve_bus_tracks:
  assumes "tracks s k0 ch" "co_retain_command_trace opt" "serve_bus s opt bus ch = Inr ch'"
  shows "tracks s k0 ch'"
proof -
  obtain c k where c: "choose_command s opt (ch_ctl ch) bus = Inr (c, k)"
    and rest: "(case c of None \<Rightarrow> Inr (on_ctl (\<lambda>_. k) ch) | Some c \<Rightarrow> issue_command s opt (try_upgrade s opt k c) (on_ctl (\<lambda>_. k) ch)) = Inr ch'"
    using assms(3) by (auto simp: serve_bus_def Let_def bindR_eq_Inr)
  have good: "choice_frame (ch_ctl ch) k" "\<forall>cd. c = Some cd \<longrightarrow> good_choice s k cd" using choose_good [OF c] by simp_all
  note tr = tracks_quiet [OF assms(1) choice_quiet [OF good(1)]]
  show ?thesis
  proof (cases c)
    case None
    with rest tr show ?thesis by simp
  next
    case (Some cd)
    then have "good_choice s (ch_ctl (on_ctl (\<lambda>_. k) ch)) (try_upgrade s opt k cd)" using good(2) by (simp add: on_ctl_def try_upgrade_good)
    from issue_command_tracks [OF tr this assms(2)] rest Some show ?thesis by simp
  qed
qed

lemma serve_buses_tracks:
  assumes "tracks s k0 ch" "co_retain_command_trace opt" "serve_buses s opt ch = Inr ch'"
  shows "tracks s k0 ch'"
proof -
  note one = serve_bus_tracks [OF _ assms(2)]
  show ?thesis
  proof (cases "dual_command_bus s")
    case True
    then obtain ch1 where ch1: "(if \<not> hbm_edge_pairing s \<or> is_rising_edge (ch_ctl ch) then serve_bus s opt BusColumn ch else Inr ch) = Inr ch1"
      and row: "serve_bus s opt BusRow ch1 = Inr ch'"
      using assms(3) by (auto simp: serve_buses_def bindR_eq_Inr)
    have "tracks s k0 ch1" using one [OF assms(1), of BusColumn ch1] ch1 assms(1) by (simp split: if_splits)
    then show ?thesis using row by (rule one)
  next
    case False
    with assms one [OF assms(1), of BusUnified ch'] show ?thesis by (simp add: serve_buses_def)
  qed
qed

lemma low_power_step_quiet: "quiet_step s ch (low_power_step s' ch)"
  by (rule quiet_same) (auto simp: low_power_step_def Let_def protocol_on_ctl all_requests_on_ctl)

lemma tick_tracks:
  assumes dims: "positive_dims s" and tr: "tracks s k0 ch" and trace: "co_retain_command_trace opt" and tick: "tick s opt ch = Some (Inr ch')"
  shows "tracks s k0 ch'"
proof -
  define ch1 where "ch1 = on_ctl (\<lambda>k. k\<lparr> ct_clk := ct_clk k + 1 \<rparr>) ch"
  have tr1: "tracks s k0 ch1"
    unfolding ch1_def by (rule tracks_wait [OF tr]) (auto simp: ct_banks_def ct_engine_def intro!: dram_wait)
  obtain ch2 where ch2: "complete_pending s opt ch1 = Inr ch2"
    using tick by (auto simp: tick_def ch1_def split: sum.splits)
  have tr2: "tracks s k0 ch2" by (rule tracks_quiet [OF tr1 still_quiet [OF complete_pending_still [OF ch2]]])
  show ?thesis
  proof (cases "ch_clk ch2 < ch_exit_until ch2")
    case True
    with tick ch2 tr2 show ?thesis by (simp add: tick_def ch1_def)
  next
    case False
    then obtain ch3 where ch3: "schedule_refresh s (on_ctl (prune_engine s) ch2) = Some (Inr ch3)" and rest: "tick_schedule s opt ch3 = Inr ch'"
      using tick ch2 by (auto simp: tick_def ch1_def bindR_eq_Inr)
    have "tracks s k0 (on_ctl (prune_engine s) ch2)"
      by (rule tracks_wait [OF tr2]) (auto simp: prune_engine_def ct_banks_def ct_engine_def intro!: dram_wait)
    then have tr3: "tracks s k0 ch3" by (rule tracks_quiet [OF _ schedule_refresh_quiet [OF dims ch3]])
    have tr4: "tracks s k0 (service_pending_maintenance ch3)" by (rule tracks_quiet [OF tr3 service_pending_maintenance_quiet])
    then have "tracks s k0 (apply_row_policy_pre_schedule s opt (service_pending_maintenance ch3))"
      by (intro tracks_quiet [OF tr4] apply_row_policy_quiet dims) (simp add: tracks_def)
    then show ?thesis
      using rest serve_buses_tracks [OF _ trace] tracks_quiet [OF _ low_power_step_quiet]
      by (auto simp: tick_schedule_def bindR_eq_Inr)
  qed
qed

lemma pop_response_quiet: "pop_response ch = Inr (t, ch') \<Longrightarrow> quiet_step s ch ch'"
  by (rule quiet_same) (auto simp: pop_response_def split: list.splits)

lemma channel_make_ok:
  assumes "channel_make s opt priority reads cap img = Inr ch"
  shows "controller_make s opt priority reads cap = Inr (ch_ctl ch)" "history ch = []" "all_requests ch = {}" "ch_image ch = img"
    "ch_buffered ch = []" "ch_buffered_addrs ch = {}" "ch_responses ch = []" "ct_pending (ch_ctl ch) = []" "ch_queue ch kind = []"
    "ch_backlog ch = []" "0 < ch_next_sequence ch"
    "length (column_accesses (ct_row_policy (ch_ctl ch))) = nat (bank_total s)"
proof -
  obtain k m where k: "controller_make s opt priority reads cap = Inr k" and ch: "ch_ctl ch = k" "ch_backlog ch = []" "ch_responses ch = []"
    "ch_buffered_addrs ch = {}" "ch_buffered ch = []" "ch_image ch = img" "ch_issued ch = []" "ch_next_sequence ch = 1"
    using assms by (auto simp: channel_make_def bindR_eq_Inr)
  obtain n where n: "total_banks s = Inr n" and queues: "rq_queues (ct_queues k) = (\<lambda>_. [])" "ct_pending k = []"
    and policy: "length (column_accesses (ct_row_policy k)) = nat n"
    using k by (auto simp: controller_make_def bindR_eq_Inr request_queues_make_def row_policy_reset_def)
  show "controller_make s opt priority reads cap = Inr (ch_ctl ch)" "history ch = []" "all_requests ch = {}" "ch_image ch = img"
    "ch_buffered ch = []" "ch_buffered_addrs ch = {}" "ch_responses ch = []" "ct_pending (ch_ctl ch) = []" "ch_queue ch kind = []"
    "ch_backlog ch = []" "0 < ch_next_sequence ch"
    "length (column_accesses (ct_row_policy (ch_ctl ch))) = nat (bank_total s)"
    using k ch queues policy total_banks_ok [OF n] by (simp_all add: history_def all_requests_def ch_queue_def)
qed

lemma channel_tracks:
  assumes make: "channel_make s opt priority reads cap img = Inr ch0" and trace: "co_retain_command_trace opt"
    and run: "channel_run s opt ch0 rs ts ch"
  shows "tracks s (ch_ctl ch0) ch"
proof -
  note ok = channel_make_ok [OF make]
  have dims: "positive_dims s" using valid_positive_dims [OF controller_make_ok(1) [OF ok(1)]] .
  show ?thesis
    using run
  proof induction
    case channel_start
    then show ?case using ok by (simp add: tracks_def decoded_ok_def run_start)
  next
    case (channel_accept rs ts ch r ch')
    from tracks_quiet [OF channel_accept.IH enqueue_quiet [OF channel_accept.hyps(2)]] show ?case .
  next
    case (channel_refuse rs ts ch r ch')
    from tracks_quiet [OF channel_refuse.IH enqueue_quiet [OF channel_refuse.hyps(2)]] show ?case .
  next
    case (channel_tick rs ts ch ch')
    from tick_tracks [OF dims channel_tick.IH trace channel_tick.hyps(2)] show ?case .
  next
    case (channel_pop rs ts ch t ch')
    from tracks_quiet [OF channel_pop.IH pop_response_quiet [OF channel_pop.hyps(2)]] show ?case .
  qed
qed

end
