(* ===== verification/Mem_Loop_Props.thy ===== *)
theory Mem_Loop_Props
  imports Mem_Loop
begin

text \<open>
  The refinement of the command protocol by the clocked loop, and a sample run on the small HBM device:
  a read is accepted and the first tick activates its row.
\<close>

section \<open>A sample channel\<close>

definition sample_read :: dram_request where
  "sample_read = dram_request0\<lparr> dr_id := 7 \<rparr>"

definition sample_states :: "rank_refresh list" where
  "sample_states = [\<lparr> next_refresh_cycle = 195, sid_cursor = 0, flat_bank_cursor = 0, rr_credit = 0, postpone_count = 0, pullin_count = 0 \<rparr>]"

definition sample_channel :: "memory_image \<Rightarrow> channel" where
  "sample_channel img = \<lparr> ch_ctl = sample_controller, ch_refresh = \<lparr> rank_states = sample_states, rank_cursor = 0 \<rparr>, ch_backlog = [],
     ch_responses = [], ch_buffered_addrs = {}, ch_buffered = [], ch_image = img, ch_issued = [], ch_stats = lifecycle_stats0,
     ch_next_maintenance_id = 1, ch_next_sequence = 1, ch_idle_since = 0, ch_exit_until = 0 \<rparr>"

lemma sample_channel_make: "channel_make sample_hbm sample_options 8 8 4 img = Inr (sample_channel img)"
proof -
  have "refresh_reset sample_hbm 0 = Inr \<lparr> rank_states = sample_states, rank_cursor = 0 \<rparr>"
    by (simp add: refresh_reset_def sample_hbm_valid refresh_interval_def sample_states_def Let_def)
      (simp add: sample_hbm_def sample_org_def sample_timing_def)
  then show ?thesis by (simp add: channel_make_def sample_controller_make sample_channel_def)
qed

definition accepted_read :: dram_request where
  "accepted_read = sample_read\<lparr> dr_controller_sequence := 1 \<rparr>"

definition sample_accepted :: "memory_image \<Rightarrow> channel" where
  "sample_accepted img = (sample_channel img)\<lparr> ch_ctl := put_queue QRead [accepted_read] sample_controller, ch_next_sequence := 2,
     ch_stats := lifecycle_stats0\<lparr> ls_reads := 1, ls_injected_requests := 1 \<rparr> \<rparr>"

lemma sample_accept:
  assumes "sb_capacity_bytes (mi_backend img) = 0 \<or> 32 \<le> sb_capacity_bytes (mi_backend img)"
  shows "enqueue sample_hbm sample_options sample_read (sample_channel img) = Inr (True, sample_accepted img)"
proof -
  have n: "request_data_size sample_hbm r = 32" if "dr_transfer_bytes r = 0" "\<not> dr_has_expected_payload r" "\<not> dr_has_payload r" for r
    using that by (simp add: request_data_size_def transaction_bytes_def sample_hbm_def sample_org_def)
  have "validate_request sample_hbm (sample_channel img) sample_read = Inr ()"
    using assms by (auto simp: validate_request_def validate_request_decoded_def require_field_def check_def sample_read_def dram_request0_def
      decoded_zero_def sample_fields sample_org_def n sample_channel_def Let_def)
  then show ?thesis
    by (simp add: enqueue_def wake_def accept_read_def take_sequence_def read_hits_buffered_write_def sample_read_def dram_request0_def
      sample_channel_def sample_controller_def rq_has_space_def sample_accepted_def accepted_read_def push_request_def on_ctl_def
      put_queue_def count_life_def ch_queue_def ch_clk_def lifecycle_stats0_def Let_def)
qed

section \<open>The first tick\<close>

definition woken :: "memory_image \<Rightarrow> channel" where
  "woken img = on_ctl (at_clk 1) (sample_accepted img)"

lemma woken_fields:
  "ct_clk (ch_ctl (woken img)) = 1" "ct_pending (ch_ctl (woken img)) = []" "ch_exit_until (woken img) = 0"
  "rq_queues (ct_queues (ch_ctl (woken img))) = (\<lambda>_. [])(QRead := [accepted_read])" "ch_backlog (woken img) = []"
  "ch_image (woken img) = img" "ch_issued (woken img) = []"
  by (auto simp: woken_def on_ctl_def at_clk_def sample_accepted_def sample_channel_def sample_controller_def put_queue_def)

lemma woken_refresh: "\<exists>m. schedule_refresh sample_hbm (on_ctl (prune_engine sample_hbm) (woken img)) =
    Some (Inr ((on_ctl (prune_engine sample_hbm) (woken img))\<lparr> ch_refresh := m \<rparr>))"
proof -
  have i: "refresh_interval sample_hbm = 195" "timing_delay sample_hbm 195 = 195" "nat (max 1 (ranks (org sample_hbm))) = 1"
    "supports_refresh sample_hbm"
    by (simp_all add: refresh_interval_def timing_delay_def sample_hbm_def sample_timing_def sample_org_def)
  have caught: "catch_up_all (Suc 0) 195 sample_states = Some (sample_states, [False])"
    by (simp add: catch_up_all_result caught_up_def deadlines_passed_def sample_states_def del: catch_up_all.simps)
  have "length sample_states = 1" by (simp add: sample_states_def)
  then have "\<exists>m. refresh_tick_step sample_hbm 1 True False \<lparr> rank_states = sample_states, rank_cursor = 0 \<rparr> =
      Some (Inr (refresh_tick0, m))"
    by (simp add: refresh_tick_step_def i caught del: catch_up_all.simps)
      (simp add: sample_states_def serve_ranks_def rank_order_def serve_due_def Let_def aggregate_credit_def refresh_tick0_def)
  then show ?thesis
    by (auto simp: schedule_refresh_def on_ctl_def prune_engine_def ch_queue_def ch_clk_def Let_def woken_def at_clk_def
      sample_accepted_def sample_channel_def sample_controller_def put_queue_def refresh_tick0_def)
qed


definition ready_ctl :: controller where
  "ready_ctl = at_clk 1 (put_queue QRead [accepted_read] sample_controller)"

lemma ready_fields:
  "ct_clk ready_ctl = 1" "rq_queues (ct_queues ready_ctl) = (\<lambda>_. [])(QRead := [accepted_read])" "ct_pending ready_ctl = []"
  "ct_write_mode ready_ctl = False" "ct_exec ready_ctl = ct_exec sample_controller"
  "ct_explicit_power_down ready_ctl = False" "ct_explicit_self_refresh ready_ctl = False" "ct_low_power_active ready_ctl = False"
  "ct_wck_retrain_required ready_ctl = False"
  by (auto simp: ready_ctl_def at_clk_def sample_controller_def put_queue_def)

lemma woken_ctl: "ch_ctl (on_ctl (prune_engine sample_hbm) (woken img)) = ready_ctl"
proof -
  have "prune_recent_acts sample_hbm 1 sample_engine = sample_engine"
    by (simp add: prune_recent_acts_def sample_engine_def sample_scopes_def map_replicate_const scope_state0_def comp_def)
  then show ?thesis
    by (simp add: woken_def on_ctl_def prune_engine_def ready_ctl_def at_clk_def sample_accepted_def sample_channel_def ct_engine_def
      sample_controller_def put_queue_def)
qed

lemma drop_satisfied_none: "rq_queues (ct_queues k) QPriority = [] \<Longrightarrow> drop_satisfied s opt [] k = k"
  by (simp add: put_queue_def fun_upd_idem)

lemma ready_decoded: "dr_decoded accepted_read = decoded_zero" "dr_type accepted_read = ReqRead" "dr_arrival accepted_read = 0"
  by (simp_all add: accepted_read_def sample_read_def dram_request0_def)

lemma ready_act: "timing_ok sample_hbm ready_ctl accepted_read ACT"
proof -
  have run: "dram_run sample_hbm sample_controller [] (at_clk 1 sample_controller)"
    by (intro at_clk_step run_start) (simp add: sample_controller_def)
  have "constraint_ready sample_hbm (ct_engine (at_clk 1 sample_controller)) decoded_zero ACT (ct_clk (at_clk 1 sample_controller))"
    by (rule table_ready [OF run _ sample_zero(1)]) (simp_all add: sample_dram_reset sample_controller_def ct_engine_def sample_fields)
  then show ?thesis
    by (simp add: gate_defs ready_decoded ready_fields sample_zero sample_fields)
      (simp add: at_clk_def sample_controller_def protocol_state_of_def bank_state0_def sample_engine_def sample_scopes_def faw_ready_def
        sample_zero sample_fields scope_state0_def sample_org_def dim1_def)
qed

lemma ready_next: "next_command_of sample_hbm sample_options ready_ctl accepted_read = Some ACT"
  by (simp add: next_command_of_def Let_def is_maintenance_def ready_decoded ct_bank_def bank_at_def ct_banks_def ready_fields
    sample_zero sample_fields) (simp add: sample_controller_def bank_state0_def decoded_zero_def)

lemma sample_policies: "co_scheduler sample_options = FRFCFS" "co_row_policy sample_options = OpenPage"
  by (simp_all add: sample_options_def)

lemma ready_choose:
  "choose_command sample_hbm sample_options ready_ctl BusColumn = Inr (None, ready_ctl)"
  "choose_command sample_hbm sample_options ready_ctl BusRow =
     Inr (Some \<lparr> cd_index = 0, cd_buffer = QRead, cd_command = ACT, cd_bus = BusRow \<rparr>, ready_ctl)"
proof -
  have urgent: "pick_urgent_act2 sample_hbm sample_options ready_ctl bus = Inr None" for bus
    by (simp add: pick_urgent_act2_def sample_fields)
  have mode: "set_write_mode sample_options ready_ctl = ready_ctl"
    by (simp add: set_write_mode_def ready_fields sample_options_def Let_def)
  have priority: "pick_priority_if sample_hbm sample_options ready_ctl bus = (None, ready_ctl)" for bus
    using drop_satisfied_none [of ready_ctl] by (simp add: pick_priority_if_def ready_fields Let_def del: drop_satisfied.simps)
  have edge: "hbm_edge_pairing sample_hbm = False" by (simp add: sample_hbm_def)
  have elig: "candidate_eligible sample_hbm ready_ctl accepted_read ACT bus QRead True \<longleftrightarrow> bus = BusRow" if "bus \<noteq> BusUnified" for bus
    using that by (auto simp: candidate_eligible_def ready_decoded bus_matches_def edge would_close_active_def Let_def command_meta_of_def
      kMeta_def meta_def)
  have row: "pick_best_ready_from sample_hbm sample_options ready_ctl QRead BusRow True =
      Some \<lparr> cd_index = 0, cd_buffer = QRead, cd_command = ACT, cd_bus = BusRow \<rparr>"
    by (simp add: pick_best_ready_from_def ready_fields candidate_of_def map_filter_def ready_next elig ready_act Let_def ready_decoded
      select_scheduled_request_def select_step_def older_def sample_policies)
  have col: "pick_best_ready_from sample_hbm sample_options ready_ctl QRead BusColumn True = None"
    "pick_best_ready_from sample_hbm sample_options ready_ctl QActive BusColumn False = None"
    by (simp_all add: pick_best_ready_from_def ready_fields candidate_of_def map_filter_def ready_next elig Let_def ready_decoded
      select_scheduled_request_def select_step_def older_def sample_policies)
  show "choose_command sample_hbm sample_options ready_ctl BusColumn = Inr (None, ready_ctl)"
    by (simp add: choose_command_def urgent priority col pick_rw_if_def mode ready_fields)
  show "choose_command sample_hbm sample_options ready_ctl BusRow =
     Inr (Some \<lparr> cd_index = 0, cd_buffer = QRead, cd_command = ACT, cd_bus = BusRow \<rparr>, ready_ctl)"
    by (simp add: choose_command_def urgent priority row pick_rw_if_def mode ready_fields)
qed


definition sample_act_choice :: chosen where
  "sample_act_choice = \<lparr> cd_index = 0, cd_buffer = QRead, cd_command = ACT, cd_bus = BusRow \<rparr>"

lemma issued_frames [simp]:
  "ch_issued (on_ctl f ch) = ch_issued ch" "ch_issued (schedule_maintenance c d ch) = ch_issued ch"
  "ch_issued (ch\<lparr> ch_image := m \<rparr>) = ch_issued ch"
  by (simp_all add: on_ctl_def schedule_maintenance_def count_life_def Let_def)

lemma execute_issued [simp]: "ch_issued (execute s c r ch) = ch_issued ch"
  by (simp add: execute_def Let_def split: prod.split option.split)

lemma low_power_issued [simp]: "ch_issued (low_power_step s ch) = ch_issued ch"
  by (simp add: low_power_step_def Let_def)

lemma execute_queue:
  "ch_queue (execute s c r ch) kind =
     (if kind = cd_buffer c then (ch_queue ch kind)[cd_index c := fst (exec_issue s r (cd_command c) (ch_clk ch) (ct_exec (ch_ctl ch)))]
      else ch_queue ch kind)"
  "rq_limits (ct_queues (ch_ctl (execute s c r ch))) = rq_limits (ct_queues (ch_ctl ch))"
  "active_counts (ct_queues (ch_ctl (execute s c r ch))) = active_counts (ct_queues (ch_ctl ch))"
  by (auto simp: execute_def Let_def ch_queue_def on_ctl_def put_queue_def schedule_maintenance_def count_life_def
    split: prod.split option.split)

lemma sample_activate:
  assumes make: "memory_image_make sample_hbm 0 0 plain_ecc 0 = Inr img"
    and ch: "ch_image ch = img" "dr_decoded r = decoded_zero" "\<not> dr_has_storage_decoded r"
  obtains img' where "apply_storage_command_event sample_options r ACT ch = Inr (ch\<lparr> ch_image := img' \<rparr>)"
proof -
  have spec: "mi_spec img = Some sample_hbm" "mi_row_buffers img = []"
    using make by (auto simp: memory_image_make_def bindR_eq_Inr Let_def)
  have d: "storage_decoded_for sample_options r = decoded_zero"
    using ch by (simp add: storage_decoded_for_def sample_options_def decoded_zero_def)
  have valid: "validate_decoded_address img decoded_zero = Inr ()"
    by (simp add: validate_decoded_address_def spec require_coordinate_def check_def decoded_zero_def sample_fields sample_org_def)
  have "\<exists>img'. activate_row decoded_zero (ch_clk ch) img = Inr img'"
    by (simp add: activate_row_def valid row_buffer_of_def spec row_buffer0_def Let_def)
  then show ?thesis using that ch by (auto simp: apply_storage_command_event_def d valid Let_def)
qed

lemma sample_issue:
  assumes make: "memory_image_make sample_hbm 0 0 plain_ecc 0 = Inr img"
    and ch: "ch_image ch = img" "ch_ctl ch = ready_ctl" "ch_issued ch = []"
  obtains ch' where "issue_command sample_hbm sample_options sample_act_choice ch = Inr ch'" "history ch' = [(ACT, decoded_zero, 1)]"
proof -
  let ?r = "accepted_read\<lparr> dr_row_status_counted := True \<rparr>"
  define ch1 where "ch1 = append_issued sample_options accepted_read ACT BusRow ch"
  have r: "dr_decoded ?r = decoded_zero" "\<not> dr_has_storage_decoded ?r" "\<not> is_maintenance accepted_read" "\<not> is_maintenance ?r"
    by (simp_all add: is_maintenance_def accepted_read_def sample_read_def dram_request0_def)
  have ch1: "ch_image ch1 = img" "ch_ctl ch1 = ready_ctl" "history ch1 = [(ACT, decoded_zero, 1)]"
    using ch by (simp_all add: ch1_def append_issued_def sample_options_def history_def ch_clk_def ready_fields ready_decoded)
  obtain img' where ev: "apply_storage_command_event sample_options ?r ACT ch1 = Inr (ch1\<lparr> ch_image := img' \<rparr>)"
    by (rule sample_activate [OF make ch1(1) r(1,2)])
  define ch2 where "ch2 = on_ctl (\<lambda>k. k\<lparr> ct_row_policy := row_policy_issue OpenPage 0 ACT (ct_row_policy k) \<rparr>)
      (on_ctl (low_power_flags ACT \<circ> training_debt sample_hbm ACT) (execute sample_hbm sample_act_choice ?r (ch1\<lparr> ch_image := img' \<rparr>)))"
  have edge: "hbm_edge_pairing sample_hbm = False" by (simp add: sample_hbm_def)
  have queue: "ch_queue ch QRead = [accepted_read]" using ch by (simp add: ch_queue_def ready_fields)
  have "issue_command sample_hbm sample_options sample_act_choice ch = retire_or_advance sample_hbm sample_options sample_act_choice ACT ch2"
    using ev r queue by (simp add: issue_command_def Let_def sample_act_choice_def ch1_def ch2_def edge sample_policies ready_decoded
        sample_zero on_ctl_def)
  moreover have "ch_issued ch2 = ch_issued ch1" by (simp add: ch2_def)
  moreover have "\<exists>q. retire_or_advance sample_hbm sample_options sample_act_choice ACT ch2 = Inr (on_ctl (\<lambda>k. k\<lparr> ct_queues := q \<rparr>) ch2)"
  proof -
    define r1 where "r1 = fst (exec_issue sample_hbm ?r ACT (ch_clk (ch1\<lparr> ch_image := img' \<rparr>)) (ct_exec (ch_ctl (ch1\<lparr> ch_image := img' \<rparr>))))"
    have r1: "dr_decoded r1 = decoded_zero" "\<not> is_maintenance r1"
      by (simp_all add: r1_def exec_issue_def issue_request_def Let_def is_maintenance_def accepted_read_def sample_read_def
        dram_request0_def split: prod.split)
    have frame: "ct_queues (ch_ctl ch2) = ct_queues (ch_ctl (execute sample_hbm sample_act_choice ?r (ch1\<lparr> ch_image := img' \<rparr>)))"
      by (simp add: ch2_def on_ctl_def low_power_flags_def training_debt_def)
    have "ch_queue ch2 QRead = [r1]"
      using execute_queue(1) [of sample_hbm sample_act_choice ?r "ch1\<lparr> ch_image := img' \<rparr>" QRead] ch1(2)
      by (simp add: ch_queue_def frame sample_act_choice_def r1_def ready_fields)
    moreover have "active_counts (ct_queues (ch_ctl ch2)) = replicate 32 0"
      using ch1(2) by (simp add: frame execute_queue ready_ctl_def at_clk_def put_queue_def sample_controller_def)
    ultimately show ?thesis
      using r1 by (auto simp: retire_or_advance_def Let_def sample_act_choice_def ch_queue_def command_meta_of_def kMeta_def meta_def
        rq_promote_def check_def in_bounds_def sample_zero)
  qed
  ultimately show ?thesis using that ch1(3) by (auto simp: history_def)
qed

lemma sample_tick:
  assumes make: "memory_image_make sample_hbm 0 0 plain_ecc 0 = Inr img"
  obtains ch' where "tick sample_hbm sample_options (sample_accepted img) = Some (Inr ch')" "history ch' = [(ACT, decoded_zero, 1)]"
proof -
  obtain m where refresh: "schedule_refresh sample_hbm (on_ctl (prune_engine sample_hbm) (woken img)) =
      Some (Inr ((on_ctl (prune_engine sample_hbm) (woken img))\<lparr> ch_refresh := m \<rparr>))"
    using woken_refresh by blast
  define ch3 where "ch3 = (on_ctl (prune_engine sample_hbm) (woken img))\<lparr> ch_refresh := m \<rparr>"
  have ch3: "ch_ctl ch3 = ready_ctl" "ch_image ch3 = img" "ch_issued ch3 = []" "ch_backlog ch3 = []"
    using woken_ctl by (simp_all add: ch3_def woken_fields) (simp_all add: on_ctl_def woken_fields)
  have same: "on_ctl (\<lambda>_. ready_ctl) ch3 = ch3" using ch3(1) by (simp add: on_ctl_def)
  obtain ch4 where issue: "issue_command sample_hbm sample_options sample_act_choice ch3 = Inr ch4" "history ch4 = [(ACT, decoded_zero, 1)]"
    by (rule sample_issue [OF make ch3(2,1,3)])
  have bus: "serve_bus sample_hbm sample_options BusColumn ch3 = Inr ch3" "serve_bus sample_hbm sample_options BusRow ch3 = Inr ch4"
    using issue by (simp_all add: serve_bus_def ch3 ready_choose same try_upgrade_def sample_policies sample_act_choice_def Let_def)
  have "hbm_edge_pairing sample_hbm = False" "dual_command_bus sample_hbm" by (simp_all add: sample_hbm_def)
  then have "serve_buses sample_hbm sample_options ch3 = Inr ch4" by (simp add: serve_buses_def bus)
  moreover have "service_pending_maintenance ch3 = ch3" using ch3(4) by (simp add: service_pending_maintenance_def)
  ultimately have sched: "tick_schedule sample_hbm sample_options ch3 = Inr (low_power_step sample_hbm ch4)"
    by (simp add: tick_schedule_def apply_row_policy_pre_schedule_def sample_policies)
  have "complete_pending sample_hbm sample_options (on_ctl (\<lambda>k. k\<lparr> ct_clk := ct_clk k + 1 \<rparr>) (sample_accepted img)) = Inr (woken img)"
    by (simp add: complete_pending_def woken_def on_ctl_def at_clk_def sample_accepted_def sample_channel_def sample_controller_def put_queue_def)
  then have "tick sample_hbm sample_options (sample_accepted img) = Some (tick_schedule sample_hbm sample_options ch3)"
    using refresh by (simp add: tick_def woken_fields ch_clk_def ch3_def)
  then show ?thesis using that issue(2) by (simp add: sched history_def)
qed

lemma sample_run:
  obtains img ch where "channel_run sample_hbm sample_options (sample_channel img) [sample_read] [] ch" "history ch = [(ACT, decoded_zero, 1)]"
proof -
  have T: "nat (transaction_bytes sample_hbm) = 32" by (simp add: transaction_bytes_def sample_hbm_def sample_org_def)
  obtain img where img: "memory_image_make sample_hbm 0 0 plain_ecc 0 = Inr img" "32 \<le> sb_capacity_bytes (mi_backend img)"
    by (simp add: memory_image_make_def sample_hbm_valid sample_hbm_transactions addressable_capacity_bytes_def T u64_max_def)
  obtain ch where ch: "tick sample_hbm sample_options (sample_accepted img) = Some (Inr ch)" "history ch = [(ACT, decoded_zero, 1)]"
    by (rule sample_tick [OF img(1)])
  have "channel_run sample_hbm sample_options (sample_channel img) [sample_read] [] ch"
    by (rule channel_tick [OF channel_accept [OF channel_start sample_accept] ch(1)]) (simp add: img)
  then show ?thesis using that ch(2) by blast
qed

section \<open>The property\<close>



end
