(* ===== verification/Mem_Lifecycle.thy ===== *)
theory Mem_Lifecycle
  imports Mem_Loop_Props "HOL-Library.Multiset"
begin

text \<open>
  The life of a request in the channel controller: each operation moves a request between the queues, the
  pending list and the responses, and none is lost, duplicated or answered twice.
\<close>

section \<open>The ledger\<close>

text \<open>What identifies a request, in its own fields and in those of its response.\<close>

definition request_key :: "dram_request \<Rightarrow> nat \<times> request_type \<times> nat" where
  "request_key r = (dr_id r, dr_type r, dr_address r)"

definition response_key :: "transaction_response \<Rightarrow> nat \<times> request_type \<times> nat" where
  "response_key t = (tr_request_id t, tr_type t, tr_local_address t)"

definition ordinary :: "dram_request \<Rightarrow> bool" where
  "ordinary r \<longleftrightarrow> dr_type r \<noteq> ReqMaintenance"

definition keys_of :: "dram_request list \<Rightarrow> (nat \<times> request_type \<times> nat) multiset" where
  "keys_of rs = mset (map request_key (filter ordinary rs))"

lemma keys_of_simps [simp]:
  "keys_of [] = {#}" "keys_of (xs @ ys) = keys_of xs + keys_of ys"
  "keys_of (r # rs) = (if ordinary r then {# request_key r #} else {#}) + keys_of rs"
  by (simp_all add: keys_of_def)

text \<open>The read and write requests the channel holds, and the responses that wait to be taken.\<close>

definition held_keys :: "channel \<Rightarrow> (nat \<times> request_type \<times> nat) multiset" where
  "held_keys ch = keys_of (ch_queue ch QActive) + keys_of (ch_queue ch QRead) + keys_of (ch_queue ch QWrite) + keys_of (ct_pending (ch_ctl ch))"

definition ledger :: "channel \<Rightarrow> (nat \<times> request_type \<times> nat) multiset" where
  "ledger ch = held_keys ch + mset (map response_key (ch_responses ch))"

definition maintenance_only :: "channel \<Rightarrow> bool" where
  "maintenance_only ch \<longleftrightarrow> (\<forall>r \<in> set (ch_queue ch QPriority) \<union> set (ch_backlog ch). \<not> ordinary r)"

text \<open>Operations that keep the ledger, and the one that owes another entry.\<close>

definition keeps :: "channel \<Rightarrow> channel \<Rightarrow> bool" where
  "keeps ch ch' \<longleftrightarrow> ledger ch' = ledger ch \<and> (maintenance_only ch \<longrightarrow> maintenance_only ch')"

lemma keeps_refl [simp]: "keeps ch ch"
  by (simp add: keeps_def)

lemma keeps_trans: "keeps a b \<Longrightarrow> keeps b c \<Longrightarrow> keeps a c"
  by (simp add: keeps_def)

lemma ledger_simps [simp]:
  "ledger (count_life f ch) = ledger ch" "ledger (ch\<lparr> ch_image := m \<rparr>) = ledger ch" "ledger (ch\<lparr> ch_backlog := q \<rparr>) = ledger ch"
  "ledger (ch\<lparr> ch_next_maintenance_id := n \<rparr>) = ledger ch" "ledger (ch\<lparr> ch_next_sequence := n \<rparr>) = ledger ch"
  "ledger (ch\<lparr> ch_refresh := rm \<rparr>) = ledger ch" "ledger (ch\<lparr> ch_idle_since := n \<rparr>) = ledger ch"
  "ledger (ch\<lparr> ch_exit_until := n \<rparr>) = ledger ch" "ledger (ch\<lparr> ch_issued := es \<rparr>) = ledger ch"
  "ledger (ch\<lparr> ch_buffered := bs \<rparr>) = ledger ch" "ledger (ch\<lparr> ch_buffered_addrs := as \<rparr>) = ledger ch"
  "ledger (put_buffered a b ch) = ledger ch" "ledger (annotate_issued_data opt r c p ms im i ch) = ledger ch"
  "ledger (push_pending r ch) = ledger ch + keys_of [r]"
  by (simp_all add: ledger_def held_keys_def ch_queue_def count_life_def put_buffered_def push_pending_def on_ctl_def
    annotate_issued_data_def del: keys_of_simps(3))

lemma ledger_push [simp]: "ledger (push_request kind r ch) = ledger ch + (if kind = QPriority then {#} else keys_of [r])"
  by (cases kind) (simp_all add: ledger_def held_keys_def ch_queue_def push_request_def on_ctl_def put_queue_def)

lemma maintenance_simps [simp]:
  "maintenance_only (count_life f ch) = maintenance_only ch" "maintenance_only (ch\<lparr> ch_image := m \<rparr>) = maintenance_only ch"
  "maintenance_only (ch\<lparr> ch_next_maintenance_id := n \<rparr>) = maintenance_only ch"
  "maintenance_only (ch\<lparr> ch_next_sequence := n \<rparr>) = maintenance_only ch"
  "maintenance_only (ch\<lparr> ch_refresh := rm \<rparr>) = maintenance_only ch" "maintenance_only (ch\<lparr> ch_idle_since := n \<rparr>) = maintenance_only ch"
  "maintenance_only (ch\<lparr> ch_exit_until := n \<rparr>) = maintenance_only ch" "maintenance_only (ch\<lparr> ch_issued := es \<rparr>) = maintenance_only ch"
  "maintenance_only (ch\<lparr> ch_responses := ts \<rparr>) = maintenance_only ch"
  "maintenance_only (ch\<lparr> ch_buffered := bs \<rparr>) = maintenance_only ch"
  "maintenance_only (ch\<lparr> ch_buffered_addrs := as \<rparr>) = maintenance_only ch"
  "maintenance_only (put_buffered a b ch) = maintenance_only ch" "maintenance_only (push_pending r ch) = maintenance_only ch"
  "maintenance_only (annotate_issued_data opt r c p ms im i ch) = maintenance_only ch"
  "maintenance_only (push_request kind r ch) \<longleftrightarrow> maintenance_only ch \<and> (kind = QPriority \<longrightarrow> \<not> ordinary r)"
  by (auto simp: maintenance_only_def ch_queue_def count_life_def put_buffered_def push_pending_def push_request_def on_ctl_def put_queue_def
    annotate_issued_data_def)

lemma keeps_on_ctl:
  assumes "ct_queues (f (ch_ctl ch)) = ct_queues (ch_ctl ch)" "ct_pending (f (ch_ctl ch)) = ct_pending (ch_ctl ch)"
  shows "keeps ch (on_ctl f ch)"
  using assms by (simp add: keeps_def ledger_def held_keys_def maintenance_only_def ch_queue_def on_ctl_def)

section \<open>Operations that move no request\<close>

lemma schedule_maintenance_keeps: "keeps ch (schedule_maintenance c d ch)"
  by (auto simp: keeps_def schedule_maintenance_def Let_def ledger_def held_keys_def maintenance_only_def ch_queue_def count_life_def
    ordinary_def)

lemma fold_keeps:
  assumes "\<And>x ch. x \<in> set xs \<Longrightarrow> keeps ch (f x ch)"
  shows "keeps ch (fold f xs ch)"
  using assms by (induction xs arbitrary: ch) (auto intro: keeps_trans)

lemma schedule_refresh_keeps:
  assumes "schedule_refresh s ch = Some (Inr ch')"
  shows "keeps ch ch'"
proof -
  define ord where "ord = (ch_queue ch QActive \<noteq> [] \<or> ch_queue ch QRead \<noteq> [] \<or> ch_queue ch QWrite \<noteq> [])"
  obtain po pl t m where "refresh_tick_step s (ch_clk ch) po pl (ch_refresh ch) = Some (Inr (t, m))"
    and ch': "ch' = fold (\<lambda>(c, d). schedule_maintenance c d) (tick_commands t) (ch\<lparr> ch_refresh := m \<rparr>)"
    using assms by (auto simp: schedule_refresh_def Let_def bindR_eq_Inr split: option.splits)
  have "keeps (ch\<lparr> ch_refresh := m \<rparr>) ch'"
    unfolding ch' by (rule fold_keeps) (auto intro: schedule_maintenance_keeps)
  moreover have "keeps ch (ch\<lparr> ch_refresh := m \<rparr>)" by (simp add: keeps_def)
  ultimately show ?thesis by (blast intro: keeps_trans)
qed

lemma service_backlog_keeps:
  assumes "\<forall>r \<in> set rs. \<not> ordinary r" "maintenance_only ch"
  shows "ledger (service_backlog rs ch) = ledger ch \<and> maintenance_only (service_backlog rs ch)"
  using assms
proof (induction rs arbitrary: ch)
  case Nil
  then show ?case by (simp add: maintenance_only_def ch_queue_def)
next
  case (Cons r rs)
  show ?case
  proof (cases "rq_has_space (ct_queues (ch_ctl ch)) QPriority")
    case True
    with Cons.IH [of "push_request QPriority r ch"] Cons.prems show ?thesis by simp
  next
    case False
    with Cons.prems show ?thesis by (auto simp: maintenance_only_def ch_queue_def)
  qed
qed

lemma service_pending_keeps:
  "maintenance_only ch \<Longrightarrow> keeps ch (service_pending_maintenance ch)"
  using service_backlog_keeps [of "ch_backlog ch" ch]
  by (auto simp: keeps_def service_pending_maintenance_def maintenance_only_def)

lemma pre_schedule_keeps: "keeps ch (pre_schedule_bank s opt flat ch)"
proof -
  have policy: "keeps cx (on_ctl (\<lambda>k. k\<lparr> ct_row_policy := p k \<rparr>) cx)" for cx p by (rule keeps_on_ctl) simp_all
  show ?thesis
    using policy by (auto simp: pre_schedule_bank_def Let_def dram_request0_def keeps_def ordinary_def)
qed

lemma row_policy_keeps: "keeps ch (apply_row_policy_pre_schedule s opt ch)"
  by (auto simp: apply_row_policy_pre_schedule_def intro!: fold_keeps pre_schedule_keeps)

lemma low_power_keeps: "keeps ch (low_power_step s ch)"
proof -
  have flag: "keeps cx (on_ctl (\<lambda>k. k\<lparr> ct_low_power_active := True \<rparr>) cx)" for cx by (rule keeps_on_ctl) simp_all
  show ?thesis using flag by (auto simp: low_power_step_def Let_def keeps_def)
qed

lemma choice_keeps:
  assumes "choice_frame (ch_ctl ch) k"
  shows "keeps ch (on_ctl (\<lambda>_. k) ch)"
proof -
  obtain rs p wm where "set rs \<subseteq> set (rq_queues (ct_queues (ch_ctl ch)) QPriority)"
    "k = (put_queue QPriority rs (ch_ctl ch))\<lparr> ct_row_policy := p, ct_write_mode := wm \<rparr>"
    using assms by (auto simp: choice_frame_def)
  then show ?thesis
    by (auto simp: keeps_def ledger_def held_keys_def maintenance_only_def ch_queue_def on_ctl_def put_queue_def)
qed

lemma wake_keeps: "keeps ch (wake s r ch)"
proof -
  have exit: "keeps cx (on_ctl (\<lambda>k. k\<lparr> ct_exit_pending := e \<rparr>) cx)" for cx e by (rule keeps_on_ctl) simp_all
  have active: "keeps cx (on_ctl (\<lambda>k. k\<lparr> ct_low_power_active := False \<rparr>) cx)" for cx by (rule keeps_on_ctl) simp_all
  have until: "keeps ch (ch\<lparr> ch_exit_until := n \<rparr>)" for n by (simp add: keeps_def)
  show ?thesis
    unfolding wake_def Let_def
    by (simp split: if_split)
      (intro conjI impI keeps_trans [OF schedule_maintenance_keeps exit] keeps_trans [OF until active])
qed

section \<open>Completion\<close>

definition frame_of :: "channel \<Rightarrow> request_queues \<times> dram_request list \<times> dram_request list" where
  "frame_of ch = (ct_queues (ch_ctl ch), ct_pending (ch_ctl ch), ch_backlog ch)"

lemma frame_simps [simp]:
  "frame_of (count_life f ch) = frame_of ch" "frame_of (ch\<lparr> ch_image := m \<rparr>) = frame_of ch"
  "frame_of (push_response opt t ch) = frame_of ch" "frame_of (annotate_issued_data opt r c p ms im i ch) = frame_of ch"
  "frame_of (append_issued opt r c bus ch) = frame_of ch"
  "frame_of (ch\<lparr> ch_buffered := bs \<rparr>) = frame_of ch" "frame_of (ch\<lparr> ch_buffered_addrs := as \<rparr>) = frame_of ch"
  by (simp_all add: frame_of_def count_life_def push_response_def annotate_issued_data_def append_issued_def)

lemma responses_simps [simp]:
  "ch_responses (count_life f ch) = ch_responses ch" "ch_responses (annotate_issued_data opt r c p ms im i ch) = ch_responses ch"
  "ch_responses (append_issued opt r c bus ch) = ch_responses ch" "ch_responses (on_ctl g ch) = ch_responses ch"
  "ch_responses (schedule_maintenance c d ch) = ch_responses ch" "ch_responses (push_pending q ch) = ch_responses ch"
  by (simp_all add: count_life_def annotate_issued_data_def append_issued_def on_ctl_def schedule_maintenance_def push_pending_def Let_def)

lemma keeps_frame:
  assumes "frame_of ch' = frame_of ch" "ch_responses ch' = ch_responses ch"
  shows "keeps ch ch'"
  using assms by (simp add: frame_of_def keeps_def ledger_def held_keys_def maintenance_only_def ch_queue_def)

lemma make_response_key [simp]: "response_key (make_response opt r d im i f c st) = request_key r"
  by (simp add: make_response_def response_key_def request_key_def Let_def)

lemma response_key_ecc [simp]: "response_key (t\<lparr> tr_ecc_corrected := a, tr_ecc_uncorrectable := b \<rparr>) = response_key t"
  by (simp add: response_key_def)

lemma ensure_write_key [simp]: "request_key (ensure_write_payload s r) = request_key r" "ordinary (ensure_write_payload s r) = ordinary r"
  by (simp_all add: ensure_write_payload_def request_key_def ordinary_def Let_def)

lemma commit_write_frame:
  assumes "commit_write_data s opt r ch = Inr (r', ch')"
  shows "frame_of ch' = frame_of ch" "ch_responses ch' = ch_responses ch" "request_key r' = request_key r" "ordinary r' = ordinary r"
proof -
  have "request_key (q\<lparr> dr_data_committed := b \<rparr>) = request_key q" "ordinary (q\<lparr> dr_data_committed := b \<rparr>) = ordinary q" for q b
    by (simp_all add: request_key_def ordinary_def)
  with assms show "frame_of ch' = frame_of ch" "ch_responses ch' = ch_responses ch" "request_key r' = request_key r" "ordinary r' = ordinary r"
    by (auto simp: commit_write_data_def Let_def bindR_eq_Inr)
qed

lemma complete_request_answers:
  assumes "complete_request s opt r ch = Inr ch'" "co_retain_responses opt"
  shows "frame_of ch' = frame_of ch"
    "mset (map response_key (ch_responses ch')) = mset (map response_key (ch_responses ch)) + keys_of [r]"
proof -
  have push: "frame_of (push_response opt t cx) = frame_of cx"
    "mset (map response_key (ch_responses (push_response opt t cx))) = mset (map response_key (ch_responses cx)) + {# response_key t #}"
    for t cx using assms(2) by (simp_all add: push_response_def frame_of_def)
  have read: "frame_of cx = frame_of ch \<and> ch_responses cx = ch_responses ch \<and> response_key t = request_key r"
    if "complete_read s opt r (count_life f ch) = Inr (t, cx)" for f t cx
    using that by (cases "dr_bypass_dram r") (auto simp: complete_read_def Let_def bindR_eq_Inr)
  have wrote: "frame_of cx = frame_of ch \<and> ch_responses cx = ch_responses ch \<and> response_key t = request_key r"
    if "complete_write s opt r (count_life f ch) = Inr (t, cx)" for f t cx
    using that by (auto simp: complete_write_def Let_def bindR_eq_Inr dest: commit_write_frame split: if_splits)
  show "frame_of ch' = frame_of ch"
    "mset (map response_key (ch_responses ch')) = mset (map response_key (ch_responses ch)) + keys_of [r]"
    using assms(1) push read wrote
    by (cases "dr_type r"; auto simp: complete_request_def Let_def bindR_eq_Inr ordinary_def)+
qed

lemma complete_loop_answers:
  assumes "complete_loop s opt rs ch = Inr (kept, ch')" "co_retain_responses opt"
  shows "frame_of ch' = frame_of ch \<and>
    keys_of kept + mset (map response_key (ch_responses ch')) = keys_of rs + mset (map response_key (ch_responses ch))"
  using assms(1)
proof (induction rs arbitrary: ch kept)
  case Nil
  then show ?case by simp
next
  case (Cons r rs)
  show ?case
  proof (cases "ch_clk ch < dr_completion r \<or> co_retain_responses opt \<and> response_queue_full opt ch")
    case True
    then obtain kept1 where "complete_loop s opt rs ch = Inr (kept1, ch')" "kept = r # kept1"
      using Cons.prems by (auto simp: bindR_eq_Inr)
    with Cons.IH show ?thesis by (auto simp: ac_simps)
  next
    case False
    then obtain ch1 where ch1: "complete_request s opt r ch = Inr ch1" "complete_loop s opt rs ch1 = Inr (kept, ch')"
      using Cons.prems by (auto simp: bindR_eq_Inr)
    from Cons.IH [OF ch1(2)] complete_request_answers [OF ch1(1) assms(2)] show ?thesis
      by (simp add: keys_of_def ac_simps)
  qed
qed

lemma complete_pending_keeps:
  assumes "complete_pending s opt ch = Inr ch'" "co_retain_responses opt"
  shows "keeps ch ch'"
proof -
  obtain kept ch1 where loop: "complete_loop s opt (ct_pending (ch_ctl ch)) ch = Inr (kept, ch1)"
    and ch': "ch' = on_ctl (\<lambda>k. k\<lparr> ct_pending := kept \<rparr>) ch1"
    using assms(1) by (auto simp: complete_pending_def bindR_eq_Inr)
  from complete_loop_answers [OF loop assms(2)] show ?thesis
    by (auto simp: ch' keeps_def ledger_def held_keys_def maintenance_only_def ch_queue_def on_ctl_def frame_of_def ac_simps)
qed

section \<open>Issue\<close>

lemma keys_of_remove: "i < length xs \<Longrightarrow> keys_of xs = keys_of (remove_nth i xs) + keys_of [xs ! i]"
proof -
  assume "i < length xs"
  then obtain us vs where "xs = us @ xs ! i # vs" "remove_nth i xs = us @ vs" using remove_nth_split by blast
  then have "keys_of xs = keys_of (us @ xs ! i # vs)" "keys_of (remove_nth i xs) = keys_of (us @ vs)" by simp_all
  then show ?thesis by (simp add: ac_simps)
qed

lemma keys_of_update:
  assumes "i < length xs" "keys_of [x] = keys_of [xs ! i]"
  shows "keys_of (xs[i := x]) = keys_of xs"
proof -
  have "xs = take i xs @ xs ! i # drop (Suc i) xs" using assms(1) by (rule id_take_nth_drop)
  then have "keys_of xs = keys_of (take i xs @ xs ! i # drop (Suc i) xs)" by simp
  moreover have "xs[i := x] = take i xs @ x # drop (Suc i) xs" using assms(1) by (rule upd_conv_take_nth_drop)
  ultimately show ?thesis using assms(2) by (simp split: if_splits)
qed

text \<open>The ledger after one queue was replaced.\<close>

lemma ledger_put_queue:
  assumes "ct_queues (ch_ctl ch') = q" "rq_queues q = (rq_queues (ct_queues (ch_ctl ch)))(kind := rs)"
    "ct_pending (ch_ctl ch') = ct_pending (ch_ctl ch)" "ch_responses ch' = ch_responses ch" "kind \<noteq> QPriority"
  shows "ledger ch' + keys_of (ch_queue ch kind) = ledger ch + keys_of rs"
  using assms by (cases kind) (simp_all add: ledger_def held_keys_def ch_queue_def ac_simps)

lemma issue_request_key: "keys_of [issue_request s c r] = keys_of [r]" "keys_of [r\<lparr> dr_row_status_counted := b \<rparr>] = keys_of [r]"
  by (simp_all add: issue_request_def ordinary_def request_key_def)

lemma execute_keeps:
  assumes i: "cd_index c < length (ch_queue ch (cd_buffer c))" and r: "keys_of [r] = keys_of [ch_queue ch (cd_buffer c) ! cd_index c]"
  shows "keeps ch (execute s c r ch)"
proof -
  obtain r' rfm x where x: "exec_issue s r (cd_command c) (ch_clk ch) (ct_exec (ch_ctl ch)) = (r', rfm, x)"
    by (cases "exec_issue s r (cd_command c) (ch_clk ch) (ct_exec (ch_ctl ch))")
  define rs where "rs = (ch_queue ch (cd_buffer c))[cd_index c := r']"
  define ch1 where "ch1 = on_ctl (\<lambda>k. put_queue (cd_buffer c) rs (k\<lparr> ct_exec := x \<rparr>)) ch"
  have r': "keys_of [r'] = keys_of [ch_queue ch (cd_buffer c) ! cd_index c]"
    using r issue_request_key(1) exec_issue_parts(1) [OF x] by simp
  have keys: "keys_of rs = keys_of (ch_queue ch (cd_buffer c))" unfolding rs_def by (rule keys_of_update [OF i r'])
  have "ledger ch1 = ledger ch"
  proof (cases "cd_buffer c = QPriority")
    case True
    then show ?thesis by (simp add: ch1_def ledger_def held_keys_def ch_queue_def on_ctl_def put_queue_def)
  next
    case False
    have "ledger ch1 + keys_of (ch_queue ch (cd_buffer c)) = ledger ch + keys_of rs"
      by (rule ledger_put_queue [OF refl _ _ _ False]) (simp_all add: ch1_def on_ctl_def put_queue_def)
    with keys show ?thesis by simp
  qed
  moreover have "maintenance_only ch1" if m: "maintenance_only ch"
  proof -
    have "\<not> ordinary r'" if "cd_buffer c = QPriority"
    proof -
      have "ch_queue ch QPriority ! cd_index c \<in> set (ch_queue ch QPriority)" using i that by simp
      with m have "\<not> ordinary (ch_queue ch QPriority ! cd_index c)" by (auto simp: maintenance_only_def)
      with r' that show ?thesis by (auto split: if_splits)
    qed
    with m set_update_subset_insert [of "ch_queue ch QPriority" "cd_index c" r'] show ?thesis
      by (fastforce simp: maintenance_only_def ch1_def rs_def ch_queue_def on_ctl_def put_queue_def split: if_splits)
  qed
  ultimately have "keeps ch ch1" by (simp add: keeps_def)
  moreover have "execute s c r ch = (case rfm of None \<Rightarrow> ch1 | Some (m, d) \<Rightarrow> schedule_maintenance m d ch1)"
    unfolding execute_def Let_def x prod.case ch1_def rs_def ch_queue_def on_ctl_def by (rule refl)
  ultimately show ?thesis using schedule_maintenance_keeps keeps_trans by (auto split: option.splits)
qed

text \<open>Erasing an entry takes its key out of the ledger.\<close>

lemma erase_ledger:
  assumes q: "rq_erase s kind i (ct_queues (ch_ctl ch)) = Inr q" and i: "i < length (ch_queue ch kind)" and m: "maintenance_only ch"
  shows "ledger (on_ctl (\<lambda>k. k\<lparr> ct_queues := q \<rparr>) ch) + keys_of [ch_queue ch kind ! i] = ledger ch"
    "maintenance_only (on_ctl (\<lambda>k. k\<lparr> ct_queues := q \<rparr>) ch)"
proof -
  have q': "rq_queues q = (rq_queues (ct_queues (ch_ctl ch)))(kind := remove_nth i (ch_queue ch kind))"
    using rq_erase_result [OF q] by (simp add: ch_queue_def)
  show "ledger (on_ctl (\<lambda>k. k\<lparr> ct_queues := q \<rparr>) ch) + keys_of [ch_queue ch kind ! i] = ledger ch"
  proof (cases "kind = QPriority")
    case True
    have "ch_queue ch QPriority ! i \<in> set (ch_queue ch QPriority)" using i True by simp
    with m have "keys_of [ch_queue ch kind ! i] = {#}" using True by (auto simp: maintenance_only_def)
    then show ?thesis using True q' by (simp add: ledger_def held_keys_def ch_queue_def on_ctl_def)
  next
    case False
    have "ledger (on_ctl (\<lambda>k. k\<lparr> ct_queues := q \<rparr>) ch) + keys_of (ch_queue ch kind) = ledger ch + keys_of (remove_nth i (ch_queue ch kind))"
      by (rule ledger_put_queue [OF refl _ _ _ False]) (simp_all add: on_ctl_def q' [unfolded ch_queue_def] ch_queue_def)
    with keys_of_remove [OF i] show ?thesis by simp
  qed
  show "maintenance_only (on_ctl (\<lambda>k. k\<lparr> ct_queues := q \<rparr>) ch)"
    using m set_remove_nth [of i "ch_queue ch QPriority"] q' by (auto simp: maintenance_only_def ch_queue_def on_ctl_def split: if_splits)
qed

lemma promote_keeps:
  assumes "rq_promote s kind i (ct_queues (ch_ctl ch)) = Inr (b, q)" "kind \<noteq> QPriority"
  shows "keeps ch (on_ctl (\<lambda>k. k\<lparr> ct_queues := q \<rparr>) ch)"
  using assms(1)
proof (rule rq_promote_result)
  assume "q = ct_queues (ch_ctl ch)"
  then show ?thesis by (simp add: keeps_def on_ctl_def)
next
  assume i: "kind \<noteq> QActive" "i < length (rq_queues (ct_queues (ch_ctl ch)) kind)" and q: "rq_queues q = (rq_queues (ct_queues (ch_ctl ch)))
    (QActive := rq_queues (ct_queues (ch_ctl ch)) QActive @ [rq_queues (ct_queues (ch_ctl ch)) kind ! i],
     kind := remove_nth i (rq_queues (ct_queues (ch_ctl ch)) kind))"
  then show ?thesis using assms(2) keys_of_remove [OF i(2)]
    by (cases kind) (simp_all add: keeps_def ledger_def held_keys_def maintenance_only_def ch_queue_def on_ctl_def ac_simps)
qed

lemma merged_key: "keys_of [merged_request b r] = keys_of [r]"
  by (simp add: merged_request_def ordinary_def request_key_def split: option.split)

lemma retire_data_keeps:
  assumes retire: "retire_data s opt c issued r ch = Inr ch'" and i: "cd_index c < length (ch_queue ch (cd_buffer c))"
    and r: "r = ch_queue ch (cd_buffer c) ! cd_index c" and m: "maintenance_only ch"
  shows "keeps ch ch'"
proof -
  define r0 where "r0 = r\<lparr> dr_issued_data_command := issued, dr_issued_cycle := ch_clk ch \<rparr>"
  define rm where "rm = merged_request (map_of (ch_buffered ch) (dr_address r0)) r0"
  define ch0 where "ch0 = ch\<lparr> ch_buffered := AList.delete (dr_address rm) (ch_buffered ch),
      ch_buffered_addrs := ch_buffered_addrs ch - {dr_address rm} \<rparr>"
  obtain r1 ch1 where commit: "(if dr_type r0 = ReqWrite
      then commit_write_data s opt rm ch0 else Inr (r0, ch)) = Inr (r1, ch1)"
    and rest: "bindR (rq_erase s (cd_buffer c) (cd_index c)
        (ct_queues (ch_ctl (push_pending (r1\<lparr> dr_completion := completion_cycle s issued (ch_clk ch1) \<rparr>) ch1))))
      (\<lambda>q. Inr (on_ctl (\<lambda>k. k\<lparr> ct_queues := q \<rparr>) (push_pending (r1\<lparr> dr_completion := completion_cycle s issued (ch_clk ch1) \<rparr>) ch1))) = Inr ch'"
    by (rule bindR_pairE [OF retire [unfolded retire_data_def Let_def, folded r0_def, folded rm_def, folded ch0_def]])
  define r2 where "r2 = r1\<lparr> dr_completion := completion_cycle s issued (ch_clk ch1) \<rparr>"
  have k0: "keys_of [r0] = keys_of [r]" by (simp add: r0_def ordinary_def request_key_def)
  have "frame_of ch1 = frame_of ch \<and> ch_responses ch1 = ch_responses ch \<and> keys_of [r1] = keys_of [r]"
  proof (cases "dr_type r0 = ReqWrite")
    case True
    then have "commit_write_data s opt rm ch0 = Inr (r1, ch1)" using commit by simp
    note frame = commit_write_frame [OF this]
    have "keys_of [r1] = keys_of [rm]" using frame(3,4) by simp
    moreover have "keys_of [rm] = keys_of [r0]" unfolding rm_def by (rule merged_key)
    moreover have "frame_of ch0 = frame_of ch" "ch_responses ch0 = ch_responses ch" by (simp_all add: ch0_def)
    ultimately show ?thesis using frame(1,2) k0 by (simp del: keys_of_simps)
  next
    case False
    with commit k0 show ?thesis by auto
  qed
  then have ch1: "frame_of ch1 = frame_of ch" "ch_responses ch1 = ch_responses ch" and k1: "keys_of [r1] = keys_of [r]"
    by blast+
  have "keys_of [r2] = keys_of [r1]" by (simp add: r2_def ordinary_def request_key_def)
  then have r1: "keys_of [r2] = keys_of [r]" using k1 by simp
  have m1: "maintenance_only (push_pending r2 ch1)" using keeps_frame [OF ch1] m by (simp add: keeps_def)
  have l1: "ledger (push_pending r2 ch1) = ledger ch + keys_of [r]" using keeps_frame [OF ch1] r1 by (simp add: keeps_def del: keys_of_simps)
  have queue: "ch_queue (push_pending r2 ch1) (cd_buffer c) = ch_queue ch (cd_buffer c)"
    using ch1 by (simp add: frame_of_def ch_queue_def push_pending_def on_ctl_def)
  obtain q where q: "rq_erase s (cd_buffer c) (cd_index c) (ct_queues (ch_ctl (push_pending r2 ch1))) = Inr q"
    and ch': "ch' = on_ctl (\<lambda>k. k\<lparr> ct_queues := q \<rparr>) (push_pending r2 ch1)"
    using rest by (auto simp: bindR_eq_Inr r2_def)
  have len: "cd_index c < length (ch_queue (push_pending r2 ch1) (cd_buffer c))" using i queue by simp
  from erase_ledger [OF q len m1] show ?thesis using l1 queue r by (simp add: ch' keeps_def del: keys_of_simps)
qed

lemma retire_or_advance_keeps:
  assumes retire: "retire_or_advance s opt c issued ch = Inr ch'" and m: "maintenance_only ch"
  shows "keeps ch ch'"
proof -
  define r where "r = ch_queue ch (cd_buffer c) ! cd_index c"
  note defs = retire_or_advance_def Let_def bindR_eq_Inr
  consider (same) "ch' = ch"
    | (served) q where "cd_index c < length (ch_queue ch (cd_buffer c))" "is_maintenance r"
        "rq_erase s (cd_buffer c) (cd_index c) (ct_queues (ch_ctl ch)) = Inr q"
        "ch' = on_ctl (\<lambda>k. k\<lparr> ct_queues := q \<rparr>) (count_life (\<lambda>n. n\<lparr> ls_maintenance_served := ls_maintenance_served n + 1 \<rparr>) ch)"
    | (opened) b q where "cd_index c < length (ch_queue ch (cd_buffer c))" "\<not> is_maintenance r"
        "rq_promote s (cd_buffer c) (cd_index c) (ct_queues (ch_ctl ch)) = Inr (b, q)" "ch' = on_ctl (\<lambda>k. k\<lparr> ct_queues := q \<rparr>) ch"
    | (retired) "cd_index c < length (ch_queue ch (cd_buffer c))" "retire_data s opt c issued r ch = Inr ch'"
  proof (cases "length (ch_queue ch (cd_buffer c)) \<le> cd_index c")
    case True
    with retire show thesis by (intro same) (simp add: defs)
  next
    case i: False
    show thesis
    proof (cases "is_maintenance r \<and> issued = dr_next r")
      case True
      with i retire obtain q where "rq_erase s (cd_buffer c) (cd_index c) (ct_queues (ch_ctl ch)) = Inr q"
        "ch' = on_ctl (\<lambda>k. k\<lparr> ct_queues := q \<rparr>) (count_life (\<lambda>n. n\<lparr> ls_maintenance_served := ls_maintenance_served n + 1 \<rparr>) ch)"
        by (auto simp: defs r_def)
      with i True show thesis by (intro served) simp_all
    next
      case other: False
      show thesis
      proof (cases "meta_opening (command_meta_of issued) \<and> \<not> is_maintenance r \<and> cd_buffer c \<noteq> QActive")
        case True
        with i other retire obtain b q where "rq_promote s (cd_buffer c) (cd_index c) (ct_queues (ch_ctl ch)) = Inr (b, q)"
          "ch' = on_ctl (\<lambda>k. k\<lparr> ct_queues := q \<rparr>) ch" by (auto simp: defs r_def)
        with i True show thesis by (intro opened) simp_all
      next
        case False
        with i other retire have "ch' = ch \<or> retire_data s opt c issued r ch = Inr ch'"
          by (simp add: retire_or_advance_def Let_def flip: r_def split: if_splits)
        with i same retired show thesis by auto
      qed
    qed
  qed
  then show ?thesis
  proof cases
    case same
    then show ?thesis by simp
  next
    case (served q)
    let ?ch = "count_life (\<lambda>n. n\<lparr> ls_maintenance_served := ls_maintenance_served n + 1 \<rparr>) ch"
    have same: "ch_queue ?ch = ch_queue ch" "ct_queues (ch_ctl ?ch) = ct_queues (ch_ctl ch)" by (simp_all add: ch_queue_def count_life_def)
    have "keys_of [r] = {#}" using served(2) by (simp add: is_maintenance_def ordinary_def)
    with erase_ledger [of s "cd_buffer c" "cd_index c" ?ch q] served m same show ?thesis
      by (simp add: keeps_def r_def del: keys_of_simps)
  next
    case (opened b q)
    have "cd_buffer c \<noteq> QPriority"
    proof
      assume "cd_buffer c = QPriority"
      then have "r \<in> set (ch_queue ch QPriority)" using opened(1) by (simp add: r_def)
      with m opened(2) show False by (auto simp: maintenance_only_def is_maintenance_def ordinary_def)
    qed
    with opened show ?thesis using promote_keeps by simp
  next
    case retired
    then show ?thesis using retire_data_keeps [OF _ _ r_def m] by simp
  qed
qed

lemma issue_command_keeps:
  assumes issue: "issue_command s opt c ch = Inr ch'" and m: "maintenance_only ch"
  shows "keeps ch ch'"
proof (cases "length (ch_queue ch (cd_buffer c)) \<le> cd_index c")
  case True
  with issue show ?thesis by (simp add: issue_command_def)
next
  case False
  define r where "r = ch_queue ch (cd_buffer c) ! cd_index c"
  define r1 where "r1 = (if is_maintenance r then r else r\<lparr> dr_row_status_counted := True \<rparr>)"
  define ch1 where "ch1 = append_issued opt r (cd_command c) (cd_bus c) ch"
  obtain ch2 where ch2: "apply_storage_command_event opt r1 (cd_command c) ch1 = Inr ch2"
    and rest: "retire_or_advance s opt c (cd_command c)
      (on_ctl (\<lambda>k. if hbm_edge_pairing s \<and> cd_bus c = BusRow \<and> is_rising_edge k then record_rising_row_command s r1 (cd_command c) k else k)
        (on_ctl (\<lambda>k. k\<lparr> ct_row_policy := row_policy_issue (co_row_policy opt) (flat_bank s (dr_decoded r1)) (cd_command c) (ct_row_policy k) \<rparr>)
          (on_ctl (low_power_flags (cd_command c) \<circ> training_debt s (cd_command c)) (execute s c r1 ch2)))) = Inr ch'"
    using issue False unfolding issue_command_def Let_def r_def [symmetric] r1_def [symmetric] ch1_def [symmetric]
    by (auto simp: bindR_eq_Inr simp del: o_apply)
  have frame: "frame_of ch2 = frame_of ch" "ch_responses ch2 = ch_responses ch"
    using ch2 by (auto simp: apply_storage_command_event_def Let_def bindR_eq_Inr ch1_def)
  have k2: "keeps ch ch2" by (rule keeps_frame [OF frame])
  have queue: "ch_queue ch2 = ch_queue ch" using frame by (simp add: frame_of_def ch_queue_def)
  have "keys_of [r1] = keys_of [r]" by (cases "is_maintenance r") (simp_all only: r1_def issue_request_key if_True if_False)
  then have k3: "keeps ch2 (execute s c r1 ch2)" using False by (intro execute_keeps) (simp_all only: queue r_def not_le)
  have flags: "keeps cx (on_ctl (low_power_flags (cd_command c) \<circ> training_debt s (cd_command c)) cx)"
    "keeps cx (on_ctl (\<lambda>k. k\<lparr> ct_row_policy := p k \<rparr>) cx)"
    "keeps cx (on_ctl (\<lambda>k. if hbm_edge_pairing s \<and> cd_bus c = BusRow \<and> is_rising_edge k then record_rising_row_command s r1 (cd_command c) k else k) cx)"
    for cx p by (rule keeps_on_ctl; simp add: low_power_flags_def training_debt_def record_rising_row_command_def)+
  note before = keeps_trans [OF keeps_trans [OF keeps_trans [OF keeps_trans [OF k2 k3] flags(1)] flags(2)] flags(3)]
  show ?thesis
    by (rule keeps_trans [OF before retire_or_advance_keeps [OF rest]]) (use m before in \<open>simp add: keeps_def\<close>)
qed

lemma serve_bus_keeps:
  assumes "serve_bus s opt bus ch = Inr ch'" "maintenance_only ch"
  shows "keeps ch ch'"
proof -
  obtain c k where c: "choose_command s opt (ch_ctl ch) bus = Inr (c, k)"
    and rest: "(case c of None \<Rightarrow> Inr (on_ctl (\<lambda>_. k) ch) | Some c \<Rightarrow> issue_command s opt (try_upgrade s opt k c) (on_ctl (\<lambda>_. k) ch)) = Inr ch'"
    using assms(1) by (auto simp: serve_bus_def Let_def bindR_eq_Inr)
  have chosen: "keeps ch (on_ctl (\<lambda>_. k) ch)" using choose_good [OF c] by (blast intro: choice_keeps)
  with assms(2) have m: "maintenance_only (on_ctl (\<lambda>_. k) ch)" by (simp add: keeps_def)
  show ?thesis
    using rest chosen issue_command_keeps [OF _ m] by (auto split: option.splits intro: keeps_trans)
qed

lemma serve_buses_keeps:
  assumes "serve_buses s opt ch = Inr ch'" "maintenance_only ch"
  shows "keeps ch ch'"
proof (cases "dual_command_bus s")
  case True
  then obtain ch1 where ch1: "(if \<not> hbm_edge_pairing s \<or> is_rising_edge (ch_ctl ch) then serve_bus s opt BusColumn ch else Inr ch) = Inr ch1"
    and row: "serve_bus s opt BusRow ch1 = Inr ch'"
    using assms(1) by (auto simp: serve_buses_def bindR_eq_Inr)
  have k1: "keeps ch ch1" using ch1 serve_bus_keeps [OF _ assms(2)] by (auto split: if_splits)
  with assms(2) have "maintenance_only ch1" by (simp add: keeps_def)
  with k1 serve_bus_keeps [OF row] show ?thesis by (blast intro: keeps_trans)
next
  case False
  with assms serve_bus_keeps show ?thesis by (simp add: serve_buses_def)
qed

lemma tick_keeps:
  assumes tick: "tick s opt ch = Some (Inr ch')" and retain: "co_retain_responses opt" and m: "maintenance_only ch"
  shows "keeps ch ch'"
proof -
  define ch1 where "ch1 = on_ctl (\<lambda>k. k\<lparr> ct_clk := ct_clk k + 1 \<rparr>) ch"
  have k1: "keeps ch ch1" unfolding ch1_def by (rule keeps_on_ctl) simp_all
  obtain ch2 where ch2: "complete_pending s opt ch1 = Inr ch2"
    using tick by (auto simp: tick_def ch1_def split: sum.splits)
  have k2: "keeps ch ch2" by (rule keeps_trans [OF k1 complete_pending_keeps [OF ch2 retain]])
  show ?thesis
  proof (cases "ch_clk ch2 < ch_exit_until ch2")
    case True
    with tick ch2 k2 show ?thesis by (simp add: tick_def ch1_def)
  next
    case False
    then obtain ch3 where ch3: "schedule_refresh s (on_ctl (prune_engine s) ch2) = Some (Inr ch3)" and rest: "tick_schedule s opt ch3 = Inr ch'"
      using tick ch2 by (auto simp: tick_def ch1_def bindR_eq_Inr)
    have "keeps ch2 (on_ctl (prune_engine s) ch2)" by (rule keeps_on_ctl) (simp_all add: prune_engine_def)
    then have k3: "keeps ch ch3" using k2 schedule_refresh_keeps [OF ch3] by (blast intro: keeps_trans)
    define ch4 where "ch4 = apply_row_policy_pre_schedule s opt (service_pending_maintenance ch3)"
    have "maintenance_only ch3" using k3 m by (simp add: keeps_def)
    then have k4: "keeps ch ch4" unfolding ch4_def using k3 service_pending_keeps row_policy_keeps by (blast intro: keeps_trans)
    obtain ch5 where ch5: "serve_buses s opt ch4 = Inr ch5" and ch': "ch' = low_power_step s ch5"
      using rest by (auto simp: tick_schedule_def ch4_def bindR_eq_Inr)
    have "maintenance_only ch4" using k4 m by (simp add: keeps_def)
    with k4 ch5 serve_buses_keeps low_power_keeps show ?thesis unfolding ch' by (blast intro: keeps_trans)
  qed
qed

section \<open>Admission\<close>

lemma enqueue_ledger:
  assumes "enqueue s opt r ch = Inr (ok, ch')"
  shows "ledger ch' = ledger ch + (if ok then keys_of [r] else {#})" "maintenance_only ch \<Longrightarrow> maintenance_only ch'"
proof -
  define r1 where "r1 = r\<lparr> dr_arrival := ch_clk ch \<rparr>"
  have r1: "keys_of [r1] = keys_of [r]" "dr_type r1 = dr_type r" by (simp_all add: r1_def ordinary_def request_key_def)
  have woken: "keeps ch (wake s r1 ch)" by (rule wake_keeps)
  have result: "(case dr_type r1 of ReqRead \<Rightarrow> accept_read s opt r1 (wake s r1 ch) | ReqWrite \<Rightarrow> Inr (accept_write s r1 (wake s r1 ch))
      | ReqMaintenance \<Rightarrow> Inr (accept_maintenance r1 (wake s r1 ch))) = Inr (ok, ch')"
    using assms by (simp add: enqueue_def bindR_eq_Inr Let_def flip: r1_def)
  have seq: "ordinary (q\<lparr> dr_controller_sequence := n \<rparr>) = ordinary q" "request_key (q\<lparr> dr_controller_sequence := n \<rparr>) = request_key q"
    for q n by (simp_all add: ordinary_def request_key_def)
  have "ledger ch' = ledger (wake s r1 ch) + (if ok then keys_of [r1] else {#}) \<and> (maintenance_only (wake s r1 ch) \<longrightarrow> maintenance_only ch')"
  proof (cases "dr_type r1")
    case ReqRead
    then show ?thesis using result
      by (auto simp: accept_read_def take_sequence_def Let_def bindR_eq_Inr ordinary_def request_key_def split: if_splits)
  next
    case ReqWrite
    have key: "ordinary (ensure_write_payload s r1) = ordinary r1" "request_key (ensure_write_payload s r1) = request_key r1" by simp_all
    from ReqWrite result show ?thesis
      by (auto simp: accept_write_def take_sequence_def Let_def key [unfolded ordinary_def request_key_def] ordinary_def request_key_def
        split: if_splits)
  next
    case ReqMaintenance
    then show ?thesis using result
      by (auto simp: accept_maintenance_def take_sequence_def Let_def ordinary_def split: if_splits)
  qed
  with woken r1 show "ledger ch' = ledger ch + (if ok then keys_of [r] else {#})" "maintenance_only ch \<Longrightarrow> maintenance_only ch'"
    by (simp_all add: keeps_def del: keys_of_simps)
qed

section \<open>The property\<close>

text \<open>C6. No request is lost, duplicated or answered twice. In every run of a freshly made channel controller that retains its
  responses, the accepted reads and writes, counted with their identifier, type and address, are exactly those still in a queue or
  pending, those whose response waits and those whose response was taken, whatever was forwarded, coalesced, promoted, refreshed or
  held back by a full response queue; and the priority queue and the backlog hold maintenance requests only.\<close>

theorem requests_conserved:
  assumes "channel_make s opt priority reads cap img = Inr ch0" "co_retain_responses opt" "channel_run s opt ch0 rs ts ch"
  shows "keys_of rs = held_keys ch + mset (map response_key (ts @ ch_responses ch)) \<and> maintenance_only ch"
  using assms(3)
proof induction
  case channel_start
  from channel_make_ok [OF assms(1)] show ?case by (simp add: held_keys_def maintenance_only_def)
next
  case (channel_accept rs ts ch r ch')
  with enqueue_ledger [OF channel_accept.hyps(2)] show ?case by (simp add: ledger_def ac_simps del: keys_of_simps(3))
    (simp add: keys_of_simps(3))
next
  case (channel_refuse rs ts ch r ch')
  with enqueue_ledger [OF channel_refuse.hyps(2)] show ?case by (simp add: ledger_def)
next
  case (channel_tick rs ts ch ch')
  then have "keeps ch ch'" by (intro tick_keeps [OF _ assms(2)]) simp_all
  with channel_tick.IH show ?case by (simp add: keeps_def ledger_def)
next
  case (channel_pop rs ts ch t ch')
  then have "ch_responses ch = t # ch_responses ch'" "ch' = ch\<lparr> ch_responses := ch_responses ch' \<rparr>"
    by (auto simp: pop_response_def split: list.splits)
  then show ?case using channel_pop.IH
    by (cases ch; cases ch') (simp add: held_keys_def maintenance_only_def ch_queue_def)
qed

lemma requests_conserved_witness:
  "\<exists>img ch0 ch. channel_make sample_hbm sample_options 8 8 4 img = Inr ch0 \<and> channel_run sample_hbm sample_options ch0 [sample_read] [] ch
     \<and> history ch = [(ACT, decoded_zero, 1)] \<and> held_keys ch + mset (map response_key (ch_responses ch)) = {# (7, ReqRead, 0) #}"
proof -
  obtain img ch where run: "channel_run sample_hbm sample_options (sample_channel img) [sample_read] [] ch" "history ch = [(ACT, decoded_zero, 1)]"
    by (rule sample_run)
  have "keys_of [sample_read] = {# (7, ReqRead, 0) #}"
    by (simp add: sample_read_def dram_request0_def ordinary_def request_key_def)
  with requests_conserved [OF sample_channel_make _ run(1)] run sample_channel_make show ?thesis
    by (auto simp: sample_options_def simp del: keys_of_simps)
qed

end
