(* ===== verification/Spec2Isabelle.thy ===== *)
theory Spec2Isabelle
  imports Bridge_Correct Order_Guard Ucie_Props Aou_Target Mem_Image_Correct Mem_Lifecycle
begin

text \<open>
  A verification development of the storage stack simulator: the SystemC bridge that carries AXI over
  AoU flits (\<^verbatim>\<open>src/axi2flit\<close>), the UCIe link the flits travel on (\<^verbatim>\<open>src/ucie-model\<close>), the memory-side
  target that answers them, and the cycle-level HBM and LPDDR memory simulator (\<^verbatim>\<open>src/mem_sim\<close>).
  This theory only joins the others and states what they are.

  \<^bold>\<open>How the program is put together.\<close> An AXI manager drives the bridge. Per routing plane, the bridge
  cuts address and data beats into messages of 5-byte granules, packs the granules of several messages
  into flits of 48 granules under credit control and hands the flits to the link. The peer unpacks them,
  reassembles the messages across flit borders, pairs write data with write addresses and runs bursts
  on a memory; its responses and its credits return the same way. The link frames a flit with a
  sequence number and a CRC, retries on a negative acknowledgement and maps frames onto lanes. The
  memory simulator is a program of its own: addresses are decoded to DRAM coordinates, requests wait in
  the queues of a channel controller, and the controller issues the commands the bank states and
  timing rules admit; the data lives in a memory image with row buffers over a sparse backend.

  \<^bold>\<open>Conventions.\<close> C++ unsigned types of fixed width are words; \<^verbatim>\<open>int\<close> is a HOL integer where no
  overflow is possible or the source checks it; cycle counts and 64-bit addresses of the memory
  simulator are natural numbers with the checks of the source against the largest 64-bit value written
  out; doubles are exact rationals. Exceptions, assertions and reports are the left branch of a result
  (theory \<^verbatim>\<open>Prelude\<close>). A SystemC thread is a function from the ports and fifos it sees at a clock edge to
  those it leaves; the fifos of the SystemC library are lists with a capacity. Hash tables are
  association lists or functions. Log output and the text of reports that nothing reads are left out.

  \<^bold>\<open>The bridge\<close>, in \<^verbatim>\<open>src/axi2flit/systemc\<close>:
  \<^item> \<^verbatim>\<open>Aou_Types\<close>, \<^verbatim>\<open>Bit_Codec\<close>, \<^verbatim>\<open>Aou_Flit\<close>: \<^verbatim>\<open>include/aou_types.h\<close> and \<^verbatim>\<open>link_config.h\<close>, the message kinds
    and the flit with its header, and the bit writer and reader, shown inverse on the bit string of a buffer.
  \<^item> \<^verbatim>\<open>Axi_If\<close>: \<^verbatim>\<open>axi_if.h\<close>, \<^verbatim>\<open>axi_contract.h\<close>; which requests pass the checks at the AXI boundary.
  \<^item> \<^verbatim>\<open>Msg_Codec\<close>: \<^verbatim>\<open>msg_builder.h\<close>, \<^verbatim>\<open>msg_decoder.h\<close>; every built message decodes to the beat cut to its wire widths.
  \<^item> \<^verbatim>\<open>Credit_Manager\<close>, \<^verbatim>\<open>Credit_Flow\<close>: \<^verbatim>\<open>credit_manager.h\<close>; conservation and progress of the credit protocol. The
    two amount codes are instances of one locale.
  \<^item> \<^verbatim>\<open>Stream_Decoder\<close>, \<^verbatim>\<open>Flit_Stream\<close>, \<^verbatim>\<open>Flit_Unpacker\<close>: \<^verbatim>\<open>aou_stream_decoder.h\<close>, \<^verbatim>\<open>flit_unpacker.cpp\<close>; the
    contract of a receiver of flits is a locale, interpreted on the stream decoder.
  \<^item> \<^verbatim>\<open>Flit_Packer\<close>, \<^verbatim>\<open>Packer_Correct\<close>, \<^verbatim>\<open>Bridge_Tx\<close>: \<^verbatim>\<open>flit_packer.cpp\<close>; from reset, under every arrival of
    messages, credits and backpressure, no assertion fires and what is decoded, in flight and queued adds up, in order.
  \<^item> \<^verbatim>\<open>Axi_Bridge\<close>, \<^verbatim>\<open>Bridge_Correct\<close>, \<^verbatim>\<open>Order_Guard\<close>: \<^verbatim>\<open>axi2flit.cpp\<close>, \<^verbatim>\<open>rp_order_guard.h\<close>; the invariant of the whole
    bridge over all its threads, from which transmission, reception, credit and write order follow.
  \<^item> \<^verbatim>\<open>Aou_Wire\<close>, \<^verbatim>\<open>Aou_Target\<close>, \<^verbatim>\<open>Burst_Memory\<close>: \<^verbatim>\<open>aou_wire.h\<close>, \<^verbatim>\<open>src/protocol/include/aou_format6.h\<close>,
    \<^verbatim>\<open>integration/aou_target.h\<close>, \<^verbatim>\<open>simple_burst_memory.h\<close>; the wire form, the target and the effect of bursts on memory.

  \<^bold>\<open>The link\<close>, in \<^verbatim>\<open>src/ucie-model/src\<close>: \<^verbatim>\<open>Ucie_Common\<close> (configuration, CRC, flit formats), \<^verbatim>\<open>Ucie_Phy\<close> (lane
  striping, signal levels, impaired channel), \<^verbatim>\<open>Ucie_Link\<close> (the two adapters with the retry buffer; every
  thread is cut at its waits), \<^verbatim>\<open>Ucie_Link_Correct\<close> (the invariant that ties retry buffer, frames in flight
  and feedback to the two sequence numbers), \<^verbatim>\<open>Ucie_Props\<close> (in-order exactly-once delivery, detection of
  byte errors) and \<^verbatim>\<open>Ucie_Adapter\<close> (the adapter between bridge and link).
  Delivery holds for every outcome of the impaired channel, symbol errors and injected flips alike, except
  those that alter a frame and leave its check intact: the CRC finds every error in one byte, which is
  proved, but no CRC finds all errors.

  \<^bold>\<open>The memory simulator\<close>, in \<^verbatim>\<open>src/mem_sim\<close>:
  \<^item> \<^verbatim>\<open>Mem_Types\<close>: \<^verbatim>\<open>core/common.hpp\<close>, \<^verbatim>\<open>dram/spec.hpp\<close>, \<^verbatim>\<open>spec.cpp\<close>; the device specification, its validation and
    the timing tables of both families.
  \<^item> \<^verbatim>\<open>Mem_Address\<close>: \<^verbatim>\<open>core/addr_map.cpp\<close>; decoding is a bijection and stack routing is invertible.
  \<^item> \<^verbatim>\<open>Mem_Command\<close>: \<^verbatim>\<open>dram/semantics.cpp\<close>, \<^verbatim>\<open>state.cpp\<close>, \<^verbatim>\<open>interface.cpp\<close>, \<^verbatim>\<open>jedec.cpp\<close>; classes and legality of commands.
  \<^item> \<^verbatim>\<open>Mem_Policy\<close>, \<^verbatim>\<open>Mem_Rfm\<close>, \<^verbatim>\<open>Mem_Refresh\<close>, \<^verbatim>\<open>Mem_Rotation\<close>: the objects the controller consults, \<^verbatim>\<open>scheduler.cpp\<close>,
    \<^verbatim>\<open>row_policy.cpp\<close>, \<^verbatim>\<open>request_queues.hpp\<close>, \<^verbatim>\<open>rfm.cpp\<close> and \<^verbatim>\<open>refresh.cpp\<close>. The catch-up loop of the refresh
    manager is a partial function; it is proved to return on unbounded cycles, and on 64-bit ones wherever no deadline wraps.
  \<^item> \<^verbatim>\<open>Mem_Timing\<close>: \<^verbatim>\<open>timing.cpp\<close>; the buckets of ready times decide exactly what the history of commands decides.
  \<^item> \<^verbatim>\<open>Mem_Executor\<close>, \<^verbatim>\<open>Mem_Controller\<close>: \<^verbatim>\<open>executor.cpp\<close> and the gates of \<^verbatim>\<open>controller.cpp\<close>.
  \<^item> \<^verbatim>\<open>Mem_Protocol\<close>, \<^verbatim>\<open>Mem_Protocol_Props\<close>: runs of the controller as an inductive relation. A step issues an
    admitted command or waits; over every run the banks follow the abstract bank protocol and keep the timing parameters.
  \<^item> \<^verbatim>\<open>Mem_Schedule\<close>, \<^verbatim>\<open>Mem_Channel\<close>, \<^verbatim>\<open>Mem_Tick\<close>: the rest of \<^verbatim>\<open>controller.cpp\<close> for the direct PHY; the choice of the next
    command, the admission of requests with forwarding and coalescing of buffered writes, completion, responses,
    maintenance, low power and the clock tick.
  \<^item> \<^verbatim>\<open>Mem_Loop\<close>, \<^verbatim>\<open>Mem_Loop_Props\<close>: every run of the clocked loop is a run of the step relation, so what holds for that
    relation holds for its command trace. \<^verbatim>\<open>Mem_Lifecycle\<close>: a ledger of requests that every operation keeps.
  \<^item> \<^verbatim>\<open>Mem_Secded\<close>, \<^verbatim>\<open>Mem_Image\<close>, \<^verbatim>\<open>Mem_Image_View\<close>, \<^verbatim>\<open>Mem_Image_Correct\<close>: \<^verbatim>\<open>core/data.cpp\<close> with the sparse backend of
    \<^verbatim>\<open>memory_backend.cpp\<close>; the image refines a byte-addressed memory whatever rows are open, and what its
    error code corrects.

  \<^bold>\<open>Interfaces.\<close> Each locale of the library is interpreted on the definitions of the component that provides
  it; the properties are stated outside the locales and rest on the interpreted facts.

  \<^bold>\<open>Bounds.\<close> No fuel is used where a result matters: loops are structural recursions, recursions with a
  measure, or partial functions with a proof that they are defined. Cycle counters of the memory
  simulator are natural numbers, which a run reaches the 64-bit limit of after 2 to the 64 cycles; for the refresh
  deadlines the wrap is modelled beside it, and the two agree below the limit.

  \<^bold>\<open>What the proofs showed.\<close> The retry sender of the link can resume with an iterator that feedback has
  erased; the error code of the image rejects about half of the single-bit errors it should correct; a
  precharge-all is admitted before the rows it closes have recovered; at the largest cycle number the refresh
  deadline wraps and its catch-up never ends. Each is stated as a theorem beside the positive results.

  \<^bold>\<open>Not modelled.\<close> The two run loops of the channel controller over a source of requests, its data validator and the
  statistics that nothing reads; the multi-channel system, the traffic generators and the command line;
  the behavioural PHY; the configuration reader and the built-in device profiles, which are data; the
  trace validators, which only observe; thermal and power estimates and the text, binary and mapped-file
  storage formats of the image; and the test benches. The gem5 models, the RTL and the scripts of the
  repository are in other languages or link to simulators that are not part of it.
\<close>

end
